(* ===== verification/Prelude.thy ===== *)
theory Prelude
  imports Main "HOL-Library.Word" "HOL-Library.Monad_Syntax" "HOL-Library.Multiset"
begin

text \<open>
  Shared vocabulary of the development: the machine integers of
  \<^verbatim>\<open>libs/defs.h\<close>, the error codes of \<^verbatim>\<open>libs/error.h\<close>, the convention for
  kernel panics, the rounding macros, and the list and option lemmas every
  component uses.

  Conventions.  A C function that may hit \<^verbatim>\<open>assert\<close> or \<^verbatim>\<open>panic\<close> is a function
  into \<open>option\<close>: \<open>None\<close> is the kernel panic, after which nothing runs.  A
  function that returns an error code returns it as an \<open>int\<close>, negative as in the
  source.  A pointer is a natural number naming the object it points to.
\<close>

unbundle bit_operations_syntax

type_synonym u8 = "8 word"
type_synonym u16 = "16 word"
type_synonym u32 = "32 word"
type_synonym u64 = "64 word"
type_synonym ptr = nat

named_theorems err_defs "the error codes"
named_theorems model_defs "definitions of the model that proofs unfold"

section \<open>Error codes\<close>

definition E_UNSPECIFIED :: int where [err_defs]: "E_UNSPECIFIED = 1"
definition E_BAD_PROC :: int where [err_defs]: "E_BAD_PROC = 2"
definition E_INVAL :: int where [err_defs]: "E_INVAL = 3"
definition E_NO_MEM :: int where [err_defs]: "E_NO_MEM = 4"
definition E_NO_FREE_PROC :: int where [err_defs]: "E_NO_FREE_PROC = 5"
definition E_FAULT :: int where [err_defs]: "E_FAULT = 6"
definition E_SWAP_FAULT :: int where [err_defs]: "E_SWAP_FAULT = 7"
definition E_INVAL_ELF :: int where [err_defs]: "E_INVAL_ELF = 8"
definition E_KILLED :: int where [err_defs]: "E_KILLED = 9"
definition E_PANIC :: int where [err_defs]: "E_PANIC = 10"
definition E_TIMEOUT :: int where [err_defs]: "E_TIMEOUT = 11"
definition E_TOO_BIG :: int where [err_defs]: "E_TOO_BIG = 12"
definition E_NO_DEV :: int where [err_defs]: "E_NO_DEV = 13"
definition E_NA_DEV :: int where [err_defs]: "E_NA_DEV = 14"
definition E_BUSY :: int where [err_defs]: "E_BUSY = 15"
definition E_NOENT :: int where [err_defs]: "E_NOENT = 16"
definition E_ISDIR :: int where [err_defs]: "E_ISDIR = 17"
definition E_NOTDIR :: int where [err_defs]: "E_NOTDIR = 18"
definition E_XDEV :: int where [err_defs]: "E_XDEV = 19"
definition E_UNIMP :: int where [err_defs]: "E_UNIMP = 20"
definition E_SEEK :: int where [err_defs]: "E_SEEK = 21"
definition E_MAX_OPEN :: int where [err_defs]: "E_MAX_OPEN = 22"
definition E_EXISTS :: int where [err_defs]: "E_EXISTS = 23"
definition E_NOTEMPTY :: int where [err_defs]: "E_NOTEMPTY = 24"

definition MAXERROR :: int where [err_defs]: "MAXERROR = 24"

section \<open>Assertions and panics\<close>

definition kassert :: "bool \<Rightarrow> unit option" where
  "kassert b = (if b then Some () else None)"

lemma kassert_simps [simp]:
  "kassert True = Some ()" "kassert False = None"
  by (simp_all add: kassert_def)

lemma kassert_eq_Some [simp]: "kassert b = Some u \<longleftrightarrow> b"
  by (simp add: kassert_def)

lemma kassert_bind [simp]: "(kassert b \<bind> f) = (if b then f () else None)"
  by (simp add: kassert_def)

lemmas bind_Some_iff = Option.bind_eq_Some_conv

section \<open>Rounding macros\<close>

text \<open>The macros compute on \<^verbatim>\<open>size_t\<close>, a 64-bit unsigned word.\<close>

definition ROUNDDOWN :: "u64 \<Rightarrow> u64 \<Rightarrow> u64" where
  "ROUNDDOWN a n = a - a mod n"

definition ROUNDUP :: "u64 \<Rightarrow> u64 \<Rightarrow> u64" where
  "ROUNDUP a n = ROUNDDOWN (a + n - 1) n"

definition ROUNDUP_DIV :: "u64 \<Rightarrow> u64 \<Rightarrow> u64" where
  "ROUNDUP_DIV a n = (a + n - 1) div n"

lemma unat_ROUNDDOWN: "unat (ROUNDDOWN a n) = unat a - unat a mod unat n"
proof -
  have le: "a mod n \<le> a"
    by (simp add: word_le_nat_alt unat_mod_distrib)
  show ?thesis
    unfolding ROUNDDOWN_def by (simp add: unat_sub [OF le] unat_mod_distrib)
qed

lemma ROUNDDOWN_le: "ROUNDDOWN a n \<le> a"
  by (simp add: word_le_nat_alt unat_ROUNDDOWN)

section \<open>Hashing\<close>

text \<open>\<open>hash32\<close> (\<^verbatim>\<open>libs/hash.c\<close>) multiplies in 64 bits and keeps the low 32.\<close>

definition hash32 :: "u32 \<Rightarrow> nat \<Rightarrow> u32" where
  "hash32 val bits = drop_bit (32 - bits) (val * 0x9e370001)"

section \<open>Bits of small words\<close>

lemma small_word_bits:
  assumes "unat w < 2 ^ n" "n \<le> k"
  shows "\<not> bit w k"
proof -
  have "take_bit n (unat w) = unat w" using assms(1) by (simp add: take_bit_nat_eq_self_iff)
  then have "\<not> bit (unat w) k" using assms(2) by (metis bit_take_bit_iff not_le)
  then show ?thesis by (simp add: bit_unsigned_iff)
qed

section \<open>Lists\<close>

lemma sum_list_insert_split:
  "sum_list (map f (xs @ y # ys)) = (f y :: 'a :: comm_monoid_add) + sum_list (map f (xs @ ys))"
  by (simp add: ac_simps)

lemma remove1_append_notin: "x \<notin> set xs \<Longrightarrow> remove1 x (xs @ x # ys) = xs @ ys"
  by (simp add: remove1_append)

lemma set_remove1_distinct: "distinct xs \<Longrightarrow> set (remove1 x xs) = set xs - {x}"
  by simp

end
