(* ===== verification/DList.thy ===== *)
theory DList
  imports Prelude
begin

text \<open>
  \<^verbatim>\<open>libs/list.h\<close>: the intrusive doubly linked circular list every kernel
  component is built on.  The memory of list entries is two maps, one per field
  of \<^verbatim>\<open>struct list_entry\<close>; the operations are the source's assignments, in
  order.  The theory shows that on a well-formed circular list they insert and
  delete at the position a client means, that nothing else moves, and that the
  loop \<^verbatim>\<open>while ((le = list_next(le)) != list)\<close> visits exactly the elements in
  order.  The other components may therefore keep such a list as a HOL list.
\<close>

section \<open>The entries and the operations\<close>

record lheap =
  lprev :: "ptr \<Rightarrow> ptr"
  lnext :: "ptr \<Rightarrow> ptr"

definition set_prev :: "ptr \<Rightarrow> ptr \<Rightarrow> lheap \<Rightarrow> lheap" where
  "set_prev a v h = h\<lparr>lprev := (lprev h)(a := v)\<rparr>"

definition set_next :: "ptr \<Rightarrow> ptr \<Rightarrow> lheap \<Rightarrow> lheap" where
  "set_next a v h = h\<lparr>lnext := (lnext h)(a := v)\<rparr>"

definition list_init :: "ptr \<Rightarrow> lheap \<Rightarrow> lheap" where
  "list_init elm h = set_prev elm elm (set_next elm elm h)"

text \<open>\<^verbatim>\<open>__list_add\<close>: \<^verbatim>\<open>prev->next = next->prev = elm; elm->next = next; elm->prev = prev\<close>.\<close>

definition list_add_between :: "ptr \<Rightarrow> ptr \<Rightarrow> ptr \<Rightarrow> lheap \<Rightarrow> lheap" where
  "list_add_between elm p n h =
     set_prev elm p (set_next elm n (set_next p elm (set_prev n elm h)))"

text \<open>\<^verbatim>\<open>__list_del\<close>\<close>

definition list_del_between :: "ptr \<Rightarrow> ptr \<Rightarrow> lheap \<Rightarrow> lheap" where
  "list_del_between p n h = set_prev n p (set_next p n h)"

definition list_add_before :: "ptr \<Rightarrow> ptr \<Rightarrow> lheap \<Rightarrow> lheap" where
  "list_add_before listelm elm h = list_add_between elm (lprev h listelm) listelm h"

definition list_add_after :: "ptr \<Rightarrow> ptr \<Rightarrow> lheap \<Rightarrow> lheap" where
  "list_add_after listelm elm h = list_add_between elm listelm (lnext h listelm) h"

definition list_add :: "ptr \<Rightarrow> ptr \<Rightarrow> lheap \<Rightarrow> lheap" where
  "list_add listelm elm h = list_add_after listelm elm h"

definition list_del :: "ptr \<Rightarrow> lheap \<Rightarrow> lheap" where
  "list_del listelm h = list_del_between (lprev h listelm) (lnext h listelm) h"

definition list_del_init :: "ptr \<Rightarrow> lheap \<Rightarrow> lheap" where
  "list_del_init listelm h = list_init listelm (list_del listelm h)"

definition list_empty :: "ptr \<Rightarrow> lheap \<Rightarrow> bool" where
  "list_empty l h \<longleftrightarrow> lnext h l = l"

definition list_next :: "ptr \<Rightarrow> lheap \<Rightarrow> ptr" where
  "list_next listelm h = lnext h listelm"

definition list_prev :: "ptr \<Rightarrow> lheap \<Rightarrow> ptr" where
  "list_prev listelm h = lprev h listelm"

text \<open>
  The traversal loop of every client: the entries it hands to its body, or no
  value when it never gets back to the head.
\<close>

partial_function (option) list_walk :: "lheap \<Rightarrow> ptr \<Rightarrow> ptr \<Rightarrow> ptr list option" where
  "list_walk h l le =
     (if lnext h le = l then Some []
      else list_walk h l (lnext h le) \<bind> (\<lambda>es. Some (lnext h le # es)))"

text \<open>The same loop with \<^verbatim>\<open>list_prev\<close>: the entries from the last one to the first.\<close>

partial_function (option) list_walk_back :: "lheap \<Rightarrow> ptr \<Rightarrow> ptr \<Rightarrow> ptr list option" where
  "list_walk_back h l le =
     (if lprev h le = l then Some []
      else list_walk_back h l (lprev h le) \<bind> (\<lambda>es. Some (lprev h le # es)))"

declare list_walk.simps [code] list_walk_back.simps [code]

lemmas list_ops_defs = set_prev_def set_next_def list_init_def list_add_between_def
  list_del_between_def list_add_before_def list_add_after_def list_add_def list_del_def
  list_del_init_def list_empty_def list_next_def list_prev_def

section \<open>Well-formed lists\<close>

text \<open>\<open>chain h a xs b\<close>: from \<open>a\<close> the entries \<open>xs\<close> lead to \<open>b\<close>, forwards and backwards.\<close>

fun chain :: "lheap \<Rightarrow> ptr \<Rightarrow> ptr list \<Rightarrow> ptr \<Rightarrow> bool" where
  "chain h a [] b \<longleftrightarrow> lnext h a = b \<and> lprev h b = a"
| "chain h a (x # xs) b \<longleftrightarrow> lnext h a = x \<and> lprev h x = a \<and> chain h x xs b"

definition is_dlist :: "lheap \<Rightarrow> ptr \<Rightarrow> ptr list \<Rightarrow> bool" where
  "is_dlist h l xs \<longleftrightarrow> distinct (l # xs) \<and> chain h l xs l"

lemma chain_append_Cons:
  "chain h a (xs @ y # ys) b \<longleftrightarrow> chain h a xs y \<and> chain h y ys b"
  by (induction xs arbitrary: a) auto

lemma chain_congI:
  assumes "chain h a xs b"
    and "\<And>z. z \<in> insert a (set xs) \<Longrightarrow> lnext h' z = lnext h z"
    and "\<And>z. z \<in> insert b (set xs) \<Longrightarrow> lprev h' z = lprev h z"
  shows "chain h' a xs b"
  using assms by (induction xs arbitrary: a) auto

lemma chain_next: "chain h a xs b \<Longrightarrow> lnext h a = (case xs of [] \<Rightarrow> b | x # _ \<Rightarrow> x)"
  by (cases xs) auto

lemma chain_prev: "chain h a xs b \<Longrightarrow> lprev h b = last (a # xs)"
  by (induction xs arbitrary: a) auto

lemma chain_unique: "chain h a xs b \<Longrightarrow> chain h a ys b \<Longrightarrow> b \<notin> set xs \<Longrightarrow> b \<notin> set ys \<Longrightarrow> xs = ys"
proof (induction xs arbitrary: a ys)
  case Nil
  then show ?case by (cases ys) auto
next
  case (Cons x xs)
  then show ?case by (cases ys) auto
qed

lemma is_dlist_unique: "is_dlist h l xs \<Longrightarrow> is_dlist h l ys \<Longrightarrow> xs = ys"
  by (auto simp: is_dlist_def intro: chain_unique)

text \<open>A list whose entries an operation does not touch is unchanged.\<close>

lemma is_dlist_frame:
  assumes "is_dlist h l xs"
    and "\<And>z. z \<in> insert l (set xs) \<Longrightarrow> lnext h' z = lnext h z"
    and "\<And>z. z \<in> insert l (set xs) \<Longrightarrow> lprev h' z = lprev h z"
  shows "is_dlist h' l xs"
  using assms unfolding is_dlist_def by (blast intro: chain_congI [of h])

section \<open>What the operations do to a list\<close>

lemma list_init_is_dlist: "is_dlist (list_init l h) l []"
  by (simp add: is_dlist_def list_ops_defs)

lemma list_empty_iff: "is_dlist h l xs \<Longrightarrow> list_empty l h \<longleftrightarrow> xs = []"
  by (cases xs) (auto simp: is_dlist_def list_ops_defs)

lemma list_next_head: "is_dlist h l xs \<Longrightarrow> list_next l h = (case xs of [] \<Rightarrow> l | x # _ \<Rightarrow> x)"
  by (auto simp: is_dlist_def list_ops_defs dest: chain_next)

lemma list_prev_head: "is_dlist h l xs \<Longrightarrow> list_prev l h = last (l # xs)"
  unfolding is_dlist_def list_ops_defs by (blast dest: chain_prev)

lemma list_next_mid:
  "is_dlist h l (xs @ y # ys) \<Longrightarrow> list_next y h = (case ys of [] \<Rightarrow> l | z # _ \<Rightarrow> z)"
  by (auto simp: is_dlist_def list_ops_defs chain_append_Cons dest: chain_next)

lemma list_prev_mid: "is_dlist h l (xs @ y # ys) \<Longrightarrow> list_prev y h = last (l # xs)"
  unfolding is_dlist_def list_ops_defs chain_append_Cons by (blast dest: chain_prev)

lemma list_next_after:
  assumes "is_dlist h l (us @ vs)"
  shows "list_next (last (l # us)) h = (case vs of [] \<Rightarrow> l | v # _ \<Rightarrow> v)"
proof (cases us rule: rev_cases)
  case Nil
  then show ?thesis using list_next_head [of h l vs] assms by simp
next
  case (snoc ws w)
  then show ?thesis using list_next_mid [of h l ws w vs] assms by simp
qed

text \<open>
  Linking an entry after the prefix \<open>us\<close> of a list: the source's four assignments
  with the neighbours \<open>last (l # us)\<close> and \<open>hd (vs @ [l])\<close>.
\<close>

lemma list_add_between_is_dlist:
  assumes d: "is_dlist h l (us @ vs)" and e: "e \<notin> set (l # us @ vs)"
  shows "is_dlist (list_add_between e (last (l # us)) (hd (vs @ [l])) h) l (us @ e # vs)"
    (is "is_dlist ?h _ _")
proof -
  have dist: "distinct (l # us @ vs)" and ch: "chain h l (us @ vs) l"
    using d by (auto simp: is_dlist_def)
  have left: "chain ?h l us e"
  proof (cases us rule: rev_cases)
    case Nil
    then show ?thesis using e by (cases vs) (auto simp: list_ops_defs)
  next
    case (snoc ws w)
    have "chain h l ws w"
      using ch snoc by (simp add: chain_append_Cons)
    then have "chain ?h l ws w"
      by (rule chain_congI) (use dist e snoc in \<open>cases vs; auto simp: list_ops_defs\<close>)+
    then show ?thesis using snoc e by (auto simp: chain_append_Cons list_ops_defs)
  qed
  have right: "chain ?h e vs l"
  proof (cases vs)
    case Nil
    then show ?thesis using e dist by (cases us rule: rev_cases) (auto simp: list_ops_defs)
  next
    case (Cons v vs')
    have "chain h v vs' l"
      using ch Cons by (simp add: chain_append_Cons)
    then have "chain ?h v vs' l"
      by (rule chain_congI) (use dist e Cons in \<open>cases us rule: rev_cases; auto simp: list_ops_defs\<close>)+
    then show ?thesis using Cons e dist by (cases us rule: rev_cases) (auto simp: list_ops_defs)
  qed
  show ?thesis
    using left right dist e by (auto simp: is_dlist_def chain_append_Cons)
qed

lemma list_add_after_head:
  "is_dlist h l xs \<Longrightarrow> e \<notin> set (l # xs) \<Longrightarrow> is_dlist (list_add_after l e h) l (e # xs)"
  using list_add_between_is_dlist [of h l "[]" xs e] list_next_head [of h l xs]
  by (cases xs) (simp_all add: list_add_after_def list_next_def)

lemma list_add_after_mid:
  "is_dlist h l (xs @ y # ys) \<Longrightarrow> e \<notin> set (l # xs @ y # ys) \<Longrightarrow>
   is_dlist (list_add_after y e h) l (xs @ y # e # ys)"
  using list_add_between_is_dlist [of h l "xs @ [y]" ys e] list_next_mid [of h l xs y ys]
  by (cases ys) (simp_all add: list_add_after_def list_next_def)

lemma list_add_before_head:
  "is_dlist h l xs \<Longrightarrow> e \<notin> set (l # xs) \<Longrightarrow> is_dlist (list_add_before l e h) l (xs @ [e])"
  using list_add_between_is_dlist [of h l xs "[]" e] list_prev_head [of h l xs]
  by (simp add: list_add_before_def list_prev_def)

lemma list_add_before_mid:
  "is_dlist h l (xs @ y # ys) \<Longrightarrow> e \<notin> set (l # xs @ y # ys) \<Longrightarrow>
   is_dlist (list_add_before y e h) l (xs @ e # y # ys)"
  using list_add_between_is_dlist [of h l xs "y # ys" e] list_prev_mid [of h l xs y ys]
  by (simp add: list_add_before_def list_prev_def)

lemma list_del_is_dlist:
  assumes "is_dlist h l (us @ y # vs)"
  shows "is_dlist (list_del y h) l (us @ vs)"
proof -
  have dist: "distinct (l # us @ y # vs)" and chu: "chain h l us y" and chv: "chain h y vs l"
    using assms by (auto simp: is_dlist_def chain_append_Cons)
  have p: "lprev h y = last (l # us)" and n: "lnext h y = hd (vs @ [l])"
    using chain_prev [OF chu] chain_next [OF chv] by (auto split: list.splits)
  let ?h = "list_del_between (last (l # us)) (hd (vs @ [l])) h"
  have left: "chain ?h l us (hd (vs @ [l]))"
  proof (cases us rule: rev_cases)
    case Nil
    then show ?thesis by (auto simp: list_ops_defs)
  next
    case (snoc ws w)
    have "chain h l ws w"
      using chu snoc by (simp add: chain_append_Cons)
    then have "chain ?h l ws w"
      by (rule chain_congI) (use dist snoc in \<open>cases vs; auto simp: list_ops_defs\<close>)+
    then show ?thesis using snoc by (auto simp: chain_append_Cons list_ops_defs)
  qed
  have "chain ?h l (us @ vs) l"
  proof (cases vs)
    case Nil
    then show ?thesis using left by simp
  next
    case (Cons v vs')
    have "chain h v vs' l"
      using chv Cons by simp
    then have "chain ?h v vs' l"
      by (rule chain_congI) (use dist Cons in \<open>cases us rule: rev_cases; auto simp: list_ops_defs\<close>)+
    then show ?thesis using left Cons by (simp add: chain_append_Cons)
  qed
  then show ?thesis
    using dist p n by (simp add: is_dlist_def list_del_def)
qed

lemma list_del_init_is_dlist:
  assumes "is_dlist h l (us @ y # vs)"
  shows "is_dlist (list_del_init y h) l (us @ vs)" and "list_empty y (list_del_init y h)"
proof -
  have y: "y \<notin> set (l # us @ vs)"
    using assms by (auto simp: is_dlist_def)
  show "is_dlist (list_del_init y h) l (us @ vs)"
    unfolding list_del_init_def
    by (rule is_dlist_frame [OF list_del_is_dlist [OF assms]])
      (use y in \<open>auto simp: list_init_def set_next_def set_prev_def\<close>)
  show "list_empty y (list_del_init y h)"
    by (simp add: list_del_init_def list_init_def set_next_def set_prev_def list_empty_def)
qed

text \<open>The traversal loop terminates on a well-formed list and visits its elements in order.\<close>

lemma list_walk_chain:
  "chain h le xs l \<Longrightarrow> l \<notin> set xs \<Longrightarrow> list_walk h l le = Some xs"
proof (induction xs arbitrary: le)
  case Nil
  then show ?case by (simp add: list_walk.simps [of h l le])
next
  case (Cons x xs)
  then show ?case by (auto simp: list_walk.simps [of h l le])
qed

lemma list_walk_is_dlist: "is_dlist h l xs \<Longrightarrow> list_walk h l l = Some xs"
  by (simp add: is_dlist_def list_walk_chain)

text \<open>Backwards it visits them in reverse order; the entries in front of \<open>le\<close> are those that are left.\<close>

lemma list_walk_back_chain:
  "chain h l xs le \<Longrightarrow> l \<notin> set xs \<Longrightarrow> list_walk_back h l le = Some (rev xs)"
proof (induction xs arbitrary: le rule: rev_induct)
  case Nil
  then show ?case by (simp add: list_walk_back.simps [of h l le])
next
  case (snoc x xs)
  then have "lprev h le = x" "chain h l xs x" by (simp_all add: chain_append_Cons)
  then show ?case using snoc by (auto simp: list_walk_back.simps [of h l le])
qed

lemma list_walk_back_is_dlist: "is_dlist h l xs \<Longrightarrow> list_walk_back h l l = Some (rev xs)"
  by (simp add: is_dlist_def list_walk_back_chain)

text \<open>Both traversals of the list with head \<open>l\<close> find \<open>xs\<close>.\<close>

definition walks :: "lheap \<Rightarrow> ptr \<Rightarrow> ptr list \<Rightarrow> bool" where
  "walks h l xs \<longleftrightarrow> list_walk h l l = Some xs \<and> list_walk_back h l l = Some (rev xs)"

lemma walks_is_dlist: "is_dlist h l xs \<Longrightarrow> walks h l xs"
  by (simp add: walks_def list_walk_is_dlist list_walk_back_is_dlist)

text \<open>An operation on entries of one list leaves every other list as it is.\<close>

lemma list_ops_frame:
  assumes "is_dlist h l (xs @ y # ys)" "z \<notin> set (l # xs @ y # ys)" "z \<noteq> e"
  shows "lnext (list_add_before y e h) z = lnext h z" "lprev (list_add_before y e h) z = lprev h z"
    "lnext (list_add_after y e h) z = lnext h z" "lprev (list_add_after y e h) z = lprev h z"
    "lnext (list_del y h) z = lnext h z" "lprev (list_del y h) z = lprev h z"
    "lnext (list_del_init y h) z = lnext h z" "lprev (list_del_init y h) z = lprev h z"
proof -
  have p: "lprev h y = last (l # xs)" using list_prev_mid [OF assms(1)] by (simp add: list_prev_def)
  have n: "lnext h y = (case ys of [] \<Rightarrow> l | v # _ \<Rightarrow> v)" using list_next_mid [OF assms(1)] by (simp add: list_next_def)
  have "lprev h y \<in> set (l # xs)" unfolding p by (rule last_in_set) simp
  moreover have "lnext h y \<in> set (l # ys)" unfolding n by (cases ys) auto
  ultimately have "z \<noteq> y" "z \<noteq> lprev h y" "z \<noteq> lnext h y" using assms(2) by auto
  then show "lnext (list_add_before y e h) z = lnext h z" "lprev (list_add_before y e h) z = lprev h z"
    "lnext (list_add_after y e h) z = lnext h z" "lprev (list_add_after y e h) z = lprev h z"
    "lnext (list_del y h) z = lnext h z" "lprev (list_del y h) z = lprev h z"
    "lnext (list_del_init y h) z = lnext h z" "lprev (list_del_init y h) z = lprev h z"
    using assms(3) by (simp_all add: list_ops_defs)
qed

section \<open>The contract of an intrusive list\<close>

text \<open>
  What a client of \<^verbatim>\<open>list.h\<close> relies on: \<open>rep s l xs\<close> says that the list with head
  \<open>l\<close> holds \<open>xs\<close>; entries are appended, prepended and unlinked; the loop reads
  them back.
\<close>

locale intrusive_list =
  fixes rep :: "'s \<Rightarrow> ptr \<Rightarrow> ptr list \<Rightarrow> bool"
    and push_back :: "ptr \<Rightarrow> ptr \<Rightarrow> 's \<Rightarrow> 's"
    and push_front :: "ptr \<Rightarrow> ptr \<Rightarrow> 's \<Rightarrow> 's"
    and unlink :: "ptr \<Rightarrow> 's \<Rightarrow> 's"
    and walk :: "'s \<Rightarrow> ptr \<Rightarrow> ptr list option"
  assumes rep_distinct: "rep s l xs \<Longrightarrow> distinct (l # xs)"
    and rep_push_back: "rep s l xs \<Longrightarrow> e \<notin> set (l # xs) \<Longrightarrow> rep (push_back l e s) l (xs @ [e])"
    and rep_push_front: "rep s l xs \<Longrightarrow> e \<notin> set (l # xs) \<Longrightarrow> rep (push_front l e s) l (e # xs)"
    and rep_unlink: "rep s l (xs @ y # ys) \<Longrightarrow> rep (unlink y s) l (xs @ ys)"
    and rep_walk: "rep s l xs \<Longrightarrow> walk s l = Some xs"
begin

lemma rep_unlink_remove1:
  assumes "rep s l xs" "y \<in> set xs"
  shows "rep (unlink y s) l (remove1 y xs)"
proof -
  obtain us vs where xs: "xs = us @ y # vs" and "y \<notin> set us"
    using assms(2) by (meson split_list_first)
  then have "remove1 y xs = us @ vs"
    by (simp add: remove1_append)
  with rep_unlink [of s l us y vs] assms(1) xs show ?thesis by simp
qed

lemma push_back_all:
  "rep s l xs \<Longrightarrow> distinct (l # xs @ ys) \<Longrightarrow> rep (fold (push_back l) ys s) l (xs @ ys)"
proof (induction ys arbitrary: s xs)
  case Nil
  then show ?case by simp
next
  case (Cons y ys)
  then have "rep (push_back l y s) l (xs @ [y])"
    by (intro rep_push_back) auto
  with Cons show ?case
    using Cons.IH [of "push_back l y s" "xs @ [y]"] by simp
qed

lemma drain: "rep s l xs \<Longrightarrow> rep (fold unlink xs s) l []"
  using rep_unlink [of _ l "[]"] by (induction xs arbitrary: s) auto

lemma fifo_order:
  assumes "rep s l []" "distinct (l # ys)"
  shows "walk (fold (push_back l) ys s) l = Some ys"
  using rep_walk [OF push_back_all [OF assms(1), of ys]] assms(2) by simp

end

interpretation dl: intrusive_list is_dlist list_add_before list_add_after list_del
    "\<lambda>h l. list_walk h l l"
proof unfold_locales
  show "is_dlist s l xs \<Longrightarrow> distinct (l # xs)" for s l xs
    by (simp add: is_dlist_def)
qed (simp_all add: list_add_before_head list_add_after_head list_del_is_dlist list_walk_is_dlist)

interpretation dli: intrusive_list is_dlist list_add_before list_add_after list_del_init
    "\<lambda>h l. list_walk h l l"
  by unfold_locales
    (simp_all add: dl.rep_distinct list_add_before_head list_add_after_head
      list_del_init_is_dlist list_walk_is_dlist del: distinct.simps)

section \<open>Properties\<close>

text \<open>
  C1. On a well-formed circular list, the pointer assignments of \<^verbatim>\<open>list_add_before\<close>, \<^verbatim>\<open>list_add_after\<close>, \<^verbatim>\<open>list_del\<close> and
  \<^verbatim>\<open>list_del_init\<close> at any element insert and delete exactly there: the traversal along \<^verbatim>\<open>next\<close> ends and visits the resulting sequence, and the traversal
  along \<^verbatim>\<open>prev\<close> ends and visits it in reverse.  An entry deleted with \<^verbatim>\<open>list_del_init\<close> is an empty list of its own, and every list apart from this one and from the new
  entry is traversed as before.
\<close>

theorem list_ops_refine_sequence:
  assumes "is_dlist h l (xs @ y # ys)" "e \<notin> set (l # xs @ y # ys)"
  shows "walks (list_add_before y e h) l (xs @ e # y # ys) \<and> walks (list_add_after y e h) l (xs @ y # e # ys) \<and>
    walks (list_del y h) l (xs @ ys) \<and> walks (list_del_init y h) l (xs @ ys) \<and> walks (list_del_init y h) y [] \<and>
    (\<forall>k zs. is_dlist h k zs \<and> set (k # zs) \<inter> set (e # l # xs @ y # ys) = {} \<longrightarrow>
      walks (list_add_before y e h) k zs \<and> walks (list_add_after y e h) k zs \<and> walks (list_del y h) k zs \<and> walks (list_del_init y h) k zs)"
proof -
  have fr: "walks h' k zs" if "is_dlist h k zs" "set (k # zs) \<inter> set (e # l # xs @ y # ys) = {}"
    "\<And>z. z \<notin> set (e # l # xs @ y # ys) \<Longrightarrow> lnext h' z = lnext h z \<and> lprev h' z = lprev h z" for h' k zs
  proof (rule walks_is_dlist [OF is_dlist_frame [OF that(1)]])
    fix z assume "z \<in> insert k (set zs)"
    then have "z \<notin> set (e # l # xs @ y # ys)" using that(2) by (simp only: set_simps) blast
    from that(3) [OF this] show "lnext h' z = lnext h z" "lprev h' z = lprev h z" by simp_all
  qed
  have "\<forall>k zs. is_dlist h k zs \<and> set (k # zs) \<inter> set (e # l # xs @ y # ys) = {} \<longrightarrow>
      walks (list_add_before y e h) k zs \<and> walks (list_add_after y e h) k zs \<and> walks (list_del y h) k zs \<and> walks (list_del_init y h) k zs"
    by (intro allI impI conjI; elim conjE; rule fr; assumption?) (simp_all add: list_ops_frame [OF assms(1), of _ e])
  moreover have "walks (list_del_init y h) y []"
    unfolding list_del_init_def by (rule walks_is_dlist [OF list_init_is_dlist])
  ultimately show ?thesis
    using list_add_before_mid [OF assms] list_add_after_mid [OF assms] list_del_is_dlist [OF assms(1)]
      list_del_init_is_dlist(1) [OF assms(1)] by (simp add: walks_is_dlist)
qed

theorem list_ops_refine_sequence_witness:
  "let h = list_add_before 0 6 (list_add_before 0 5 (list_init 0 \<lparr>lprev = (\<lambda>_. 0), lnext = (\<lambda>_. 0)\<rparr>))
   in list_walk (list_add_before 5 7 h) 0 0 = Some [7, 5, 6] \<and> list_walk_back (list_add_before 5 7 h) 0 0 = Some [6, 5, 7] \<and>
     list_walk_back (list_add_after 5 7 h) 0 0 = Some [6, 7, 5] \<and>
     list_walk (list_del 5 h) 0 0 = Some [6] \<and> list_walk_back (list_del 5 h) 0 0 = Some [6]"
proof -
  let ?h = "list_add_before 0 6 (list_add_before 0 5 (list_init 0 \<lparr>lprev = (\<lambda>_. 0), lnext = (\<lambda>_. 0)\<rparr>))"
  have "is_dlist ?h 0 ([] @ 5 # [6])"
    by (simp add: is_dlist_def list_ops_defs)
  from list_ops_refine_sequence [OF this, of 7] show ?thesis
    by (simp add: walks_def Let_def)
qed

end
