(* ===== verification/SkewHeap.thy ===== *)
theory SkewHeap
  imports Prelude "HOL-Library.Tree" "HOL-Library.Tree_Multiset"
begin

text \<open>
  \<^verbatim>\<open>libs/skew_heap.h\<close>: the pointer-based skew heap of the run queue.  The model
  keeps the three pointers of every entry in explicit maps and follows the
  source's assignments.  A functional skew heap on trees is the specification:
  the pointer routines are shown to compute it, parent pointers included, and
  the specification is shown to be a priority queue for any comparison that is
  an order on the stored entries.
\<close>

section \<open>The pointer heap\<close>

record sheap =
  sparent :: "ptr \<Rightarrow> ptr option"
  sleft :: "ptr \<Rightarrow> ptr option"
  sright :: "ptr \<Rightarrow> ptr option"

definition set_parent :: "ptr \<Rightarrow> ptr option \<Rightarrow> sheap \<Rightarrow> sheap" where
  "set_parent a v h = h\<lparr>sparent := (sparent h)(a := v)\<rparr>"

definition set_left :: "ptr \<Rightarrow> ptr option \<Rightarrow> sheap \<Rightarrow> sheap" where
  "set_left a v h = h\<lparr>sleft := (sleft h)(a := v)\<rparr>"

definition set_right :: "ptr \<Rightarrow> ptr option \<Rightarrow> sheap \<Rightarrow> sheap" where
  "set_right a v h = h\<lparr>sright := (sright h)(a := v)\<rparr>"

text \<open>\<^verbatim>\<open>if (l) l->parent = a\<close>\<close>

definition set_parent_if :: "ptr option \<Rightarrow> ptr option \<Rightarrow> sheap \<Rightarrow> sheap" where
  "set_parent_if l v h = (case l of None \<Rightarrow> h | Some p \<Rightarrow> set_parent p v h)"

definition skew_heap_init :: "ptr \<Rightarrow> sheap \<Rightarrow> sheap" where
  "skew_heap_init a h = set_left a None (set_right a None (set_parent a None h))"

text \<open>
  \<^verbatim>\<open>skew_heap_merge\<close>: \<open>None\<close> as the result of the recursion means that the links
  are cyclic and the call does not return.
\<close>

partial_function (option) skew_heap_merge ::
  "(ptr \<Rightarrow> ptr \<Rightarrow> int) \<Rightarrow> ptr option \<Rightarrow> ptr option \<Rightarrow> sheap \<Rightarrow> (ptr option \<times> sheap) option" where
  "skew_heap_merge cf a b h =
     (case a of None \<Rightarrow> Some (b, h)
      | Some pa \<Rightarrow> (case b of None \<Rightarrow> Some (a, h)
        | Some pb \<Rightarrow>
            if cf pa pb = - 1
            then skew_heap_merge cf (sright h pa) b h \<bind> (\<lambda>(l, h').
              Some (Some pa, set_parent_if l (Some pa)
                (set_right pa (sleft h pa) (set_left pa l h'))))
            else skew_heap_merge cf a (sright h pb) h \<bind> (\<lambda>(l, h').
              Some (Some pb, set_parent_if l (Some pb)
                (set_right pb (sleft h pb) (set_left pb l h'))))))"

declare skew_heap_merge.simps [code]

lemma skew_heap_merge_NULL [simp]:
  "skew_heap_merge cf None b h = Some (b, h)"
  "skew_heap_merge cf a None h = Some (a, h)"
  by (auto simp: skew_heap_merge.simps split: option.splits)

lemma skew_heap_merge_nodes:
  "skew_heap_merge cf (Some pa) (Some pb) h =
     (if cf pa pb = - 1
      then skew_heap_merge cf (sright h pa) (Some pb) h \<bind> (\<lambda>(l, h').
        Some (Some pa, set_parent_if l (Some pa) (set_right pa (sleft h pa) (set_left pa l h'))))
      else skew_heap_merge cf (Some pa) (sright h pb) h \<bind> (\<lambda>(l, h').
        Some (Some pb, set_parent_if l (Some pb) (set_right pb (sleft h pb) (set_left pb l h')))))"
  by (simp add: skew_heap_merge.simps [of cf "Some pa" "Some pb"])

definition skew_heap_insert ::
  "(ptr \<Rightarrow> ptr \<Rightarrow> int) \<Rightarrow> ptr option \<Rightarrow> ptr \<Rightarrow> sheap \<Rightarrow> (ptr option \<times> sheap) option" where
  "skew_heap_insert cf a b h = skew_heap_merge cf a (Some b) (skew_heap_init b h)"

definition skew_heap_remove ::
  "(ptr \<Rightarrow> ptr \<Rightarrow> int) \<Rightarrow> ptr option \<Rightarrow> ptr \<Rightarrow> sheap \<Rightarrow> (ptr option \<times> sheap) option" where
  "skew_heap_remove cf a b h =
     (let p = sparent h b in
      skew_heap_merge cf (sleft h b) (sright h b) h \<bind> (\<lambda>(rp, h1).
        let h2 = set_parent_if rp p h1 in
        case p of None \<Rightarrow> Some (rp, h2)
        | Some q \<Rightarrow>
            if sleft h2 q = Some b then Some (a, set_left q rp h2)
            else Some (a, set_right q rp h2)))"

lemma sheap_selectors [simp]:
  "sparent (set_left a v h) = sparent h" "sright (set_left a v h) = sright h"
  "sparent (set_right a v h) = sparent h" "sleft (set_right a v h) = sleft h"
  "sleft (set_parent a v h) = sleft h" "sright (set_parent a v h) = sright h"
  "sleft (set_parent_if l v h) = sleft h" "sright (set_parent_if l v h) = sright h"
  "sparent (set_parent_if (Some a) v h) a = v"
  by (simp_all add: set_left_def set_right_def set_parent_def set_parent_if_def split: option.splits)

lemmas sheap_defs = set_parent_def set_left_def set_right_def set_parent_if_def

section \<open>The specification: skew heaps as trees\<close>

function tmerge :: "('a \<Rightarrow> 'a \<Rightarrow> int) \<Rightarrow> 'a tree \<Rightarrow> 'a tree \<Rightarrow> 'a tree" where
  "tmerge cf Leaf t = t"
| "tmerge cf (Node l x r) Leaf = Node l x r"
| "tmerge cf (Node l1 x r1) (Node l2 y r2) =
     (if cf x y = - 1 then Node (tmerge cf r1 (Node l2 y r2)) x l1
      else Node (tmerge cf (Node l1 x r1) r2) y l2)"
  by pat_completeness auto
termination by (relation "measure (\<lambda>(_, s, t). size s + size t)") auto

fun tremove :: "('a \<Rightarrow> 'a \<Rightarrow> int) \<Rightarrow> 'a \<Rightarrow> 'a tree \<Rightarrow> 'a tree" where
  "tremove cf b Leaf = Leaf"
| "tremove cf b (Node l x r) =
     (if x = b then tmerge cf l r else Node (tremove cf b l) x (tremove cf b r))"

lemma mset_tmerge [simp]: "mset_tree (tmerge cf s t) = mset_tree s + mset_tree t"
  by (induction cf s t rule: tmerge.induct) auto

lemma set_tmerge [simp]: "set_tree (tmerge cf s t) = set_tree s \<union> set_tree t"
  by (induction cf s t rule: tmerge.induct) auto

lemma tremove_notin [simp]: "b \<notin> set_tree t \<Longrightarrow> tremove cf b t = t"
  by (induction t) auto

definition tdistinct :: "'a tree \<Rightarrow> bool" where
  "tdistinct t = distinct (inorder t)"

lemma tdistinct_simps [simp]:
  "tdistinct Leaf"
  "tdistinct (Node l x r) \<longleftrightarrow> x \<notin> set_tree l \<and> x \<notin> set_tree r \<and> tdistinct l \<and> tdistinct r \<and>
     set_tree l \<inter> set_tree r = {}"
  by (auto simp: tdistinct_def)

lemma tdistinct_tmerge:
  "tdistinct s \<Longrightarrow> tdistinct t \<Longrightarrow> set_tree s \<inter> set_tree t = {} \<Longrightarrow> tdistinct (tmerge cf s t)"
  by (induction cf s t rule: tmerge.induct) auto

lemma set_tremove: "tdistinct t \<Longrightarrow> set_tree (tremove cf b t) = set_tree t - {b}"
  by (induction t) (auto split: if_splits)

lemma mset_tremove:
  "tdistinct t \<Longrightarrow> b \<in> set_tree t \<Longrightarrow> mset_tree (tremove cf b t) = mset_tree t - {#b#}"
proof (induction t)
  case (Node l x r)
  then consider "x = b" | "x \<noteq> b" "b \<in> set_tree l" "b \<notin> set_tree r"
    | "x \<noteq> b" "b \<notin> set_tree l" "b \<in> set_tree r" by auto
  then show ?case
  proof cases
    case 2
    with Node have "mset_tree l = add_mset b (mset_tree (tremove cf b l))" by simp
    with 2 show ?thesis by (simp add: add_mset_commute)
  next
    case 3
    with Node have "mset_tree r = add_mset b (mset_tree (tremove cf b r))" by simp
    with 3 show ?thesis by (simp add: add_mset_commute)
  qed simp
qed simp

lemma tdistinct_tremove: "tdistinct t \<Longrightarrow> tdistinct (tremove cf b t)"
  by (induction t) (auto simp: set_tremove tdistinct_tmerge)

section \<open>Representation of a tree by pointers\<close>

definition troot :: "ptr tree \<Rightarrow> ptr option" where
  "troot t = (case t of Leaf \<Rightarrow> None | Node _ x _ \<Rightarrow> Some x)"

lemma troot_simps [simp]: "troot Leaf = None" "troot (Node l x r) = Some x"
  by (simp_all add: troot_def)

lemma troot_mem: "troot t = Some x \<Longrightarrow> x \<in> set_tree t"
  by (cases t) auto

text \<open>Child and parent pointers agree with the tree; the parent pointer of the root is free.\<close>

fun shp :: "sheap \<Rightarrow> ptr tree \<Rightarrow> bool" where
  "shp h Leaf = True"
| "shp h (Node l x r) \<longleftrightarrow> sleft h x = troot l \<and> sright h x = troot r \<and>
     (\<forall>y. troot l = Some y \<longrightarrow> sparent h y = Some x) \<and>
     (\<forall>y. troot r = Some y \<longrightarrow> sparent h y = Some x) \<and> shp h l \<and> shp h r"

definition same_outside :: "ptr set \<Rightarrow> sheap \<Rightarrow> sheap \<Rightarrow> bool" where
  "same_outside S h h' \<longleftrightarrow> (\<forall>z. z \<notin> S \<longrightarrow>
     sparent h' z = sparent h z \<and> sleft h' z = sleft h z \<and> sright h' z = sright h z)"

lemma same_outsideD:
  "same_outside S h h' \<Longrightarrow> z \<notin> S \<Longrightarrow>
   sparent h' z = sparent h z \<and> sleft h' z = sleft h z \<and> sright h' z = sright h z"
  by (simp add: same_outside_def)

lemma same_outside_mono: "same_outside S h h' \<Longrightarrow> S \<subseteq> T \<Longrightarrow> same_outside T h h'"
  by (auto simp: same_outside_def)

lemma shp_cong:
  assumes "shp h t"
    and "\<And>z. z \<in> set_tree t \<Longrightarrow> sleft h' z = sleft h z \<and> sright h' z = sright h z"
    and "\<And>z. z \<in> set_tree t \<Longrightarrow> troot t \<noteq> Some z \<Longrightarrow> sparent h' z = sparent h z"
    and "tdistinct t"
  shows "shp h' t"
  using assms
proof (induction t)
  case (Node l x r)
  have ne: "troot l \<noteq> Some x" "troot r \<noteq> Some x"
    using Node.prems(4) by (auto dest: troot_mem)
  have "shp h' l" "shp h' r"
    using Node.prems by (auto intro!: Node.IH)
  moreover have "\<forall>y. troot l = Some y \<longrightarrow> sparent h' y = Some x"
    "\<forall>y. troot r = Some y \<longrightarrow> sparent h' y = Some x"
    using Node.prems ne by (metis Un_iff insertCI option.inject shp.simps(2) tree.set(2) troot_mem troot_simps(2))+
  ultimately show ?case
    using Node.prems by simp
qed simp

lemma shp_frame:
  "shp h t \<Longrightarrow> same_outside S h h' \<Longrightarrow> set_tree t \<inter> S = {} \<Longrightarrow> tdistinct t \<Longrightarrow> shp h' t"
  by (erule shp_cong) (auto simp: same_outside_def)

lemma merge_node_shp:
  assumes "shp h' l" "same_outside S h h'" "set_tree l \<subseteq> S" "x \<notin> S" "tdistinct l"
    and "shp h r" "tdistinct r" "set_tree r \<inter> S = {}" "x \<notin> set_tree r" "sleft h x = troot r"
    and "\<forall>y. troot r = Some y \<longrightarrow> sparent h y = Some x"
  defines "h'' \<equiv> set_parent_if (troot l) (Some x) (set_right x (sleft h x) (set_left x (troot l) h'))"
  shows "shp h'' (Node l x r) \<and> same_outside (insert x S) h h'' \<and> sparent h'' x = sparent h x"
proof -
  have rl: "y \<notin> S" if "troot r = Some y" for y
    using that assms(8) troot_mem by fastforce
  have ls: "y \<in> S" if "troot l = Some y" for y
    using that assms(3) troot_mem by fastforce
  have hs: "sleft h'' z = (if z = x then troot l else sleft h' z)"
    "sright h'' z = (if z = x then sleft h x else sright h' z)"
    "sparent h'' z = (if troot l = Some z then Some x else sparent h' z)" for z
    unfolding h''_def by (auto simp: sheap_defs split: option.splits)
  have "shp h'' l"
    by (rule shp_cong [OF assms(1)]) (use assms(3-5) in \<open>auto simp: hs\<close>)
  moreover have "shp h'' r"
  proof (rule shp_cong [OF assms(6)])
    fix z assume z: "z \<in> set_tree r"
    then have "z \<notin> S" "z \<noteq> x" using assms(8,9) by auto
    then show "sleft h'' z = sleft h z \<and> sright h'' z = sright h z"
      using same_outsideD [OF assms(2)] by (simp add: hs)
    show "sparent h'' z = sparent h z"
      using same_outsideD [OF assms(2) \<open>z \<notin> S\<close>] ls \<open>z \<notin> S\<close> by (auto simp: hs)
  qed (use assms in simp)
  moreover have "same_outside (insert x S) h h''"
    using assms(2) ls unfolding same_outside_def by (auto simp: hs)
  ultimately show ?thesis
    using assms(4,10,11) rl ls same_outsideD [OF assms(2)] by (auto simp: hs)
qed

lemma skew_heap_merge_refines:
  assumes "shp h t1" "shp h t2" "tdistinct t1" "tdistinct t2" "set_tree t1 \<inter> set_tree t2 = {}"
  shows "\<exists>h'. skew_heap_merge cf (troot t1) (troot t2) h = Some (troot (tmerge cf t1 t2), h') \<and>
    shp h' (tmerge cf t1 t2) \<and> same_outside (set_tree t1 \<union> set_tree t2) h h' \<and>
    (\<forall>z. troot (tmerge cf t1 t2) = Some z \<longrightarrow> sparent h' z = sparent h z)"
  using assms
proof (induction cf t1 t2 rule: tmerge.induct)
  case (3 cf l1 x r1 l2 y r2)
  show ?case
  proof (cases "cf x y = - 1")
    case True
    let ?t = "tmerge cf r1 (Node l2 y r2)" and ?S = "set_tree r1 \<union> set_tree (Node l2 y r2)"
    have "shp h r1" "tdistinct r1" "set_tree r1 \<inter> set_tree (Node l2 y r2) = {}"
      using "3.prems" by auto
    from "3.IH"(1) [OF True this(1) "3.prems"(2) this(2) "3.prems"(4) this(3)]
    obtain h' where h': "skew_heap_merge cf (troot r1) (Some y) h = Some (troot ?t, h')"
      "shp h' ?t" "same_outside ?S h h'"
      by auto
    have d: "tdistinct ?t" "set_tree ?t \<subseteq> ?S" "x \<notin> ?S" "shp h l1" "tdistinct l1"
      "set_tree l1 \<inter> ?S = {}" "x \<notin> set_tree l1" "sleft h x = troot l1"
      "\<forall>y. troot l1 = Some y \<longrightarrow> sparent h y = Some x"
      using "3.prems" by (auto intro!: tdistinct_tmerge)
    have eq: "insert x ?S \<subseteq> set_tree (Node l1 x r1) \<union> set_tree (Node l2 y r2)" by auto
    show ?thesis
      using merge_node_shp [OF h'(2,3) d(2,3,1,4-9)] same_outside_mono [OF _ eq] True "3.prems"(1) h'(1)
      by (simp add: skew_heap_merge_nodes)
  next
    case False
    let ?t = "tmerge cf (Node l1 x r1) r2" and ?S = "set_tree (Node l1 x r1) \<union> set_tree r2"
    have "shp h r2" "tdistinct r2" "set_tree (Node l1 x r1) \<inter> set_tree r2 = {}"
      using "3.prems" by auto
    from "3.IH"(2) [OF False "3.prems"(1) this(1) "3.prems"(3) this(2,3)]
    obtain h' where h': "skew_heap_merge cf (Some x) (troot r2) h = Some (troot ?t, h')"
      "shp h' ?t" "same_outside ?S h h'"
      by auto
    have d: "tdistinct ?t" "set_tree ?t \<subseteq> ?S" "y \<notin> ?S" "shp h l2" "tdistinct l2"
      "set_tree l2 \<inter> ?S = {}" "y \<notin> set_tree l2" "sleft h y = troot l2"
      "\<forall>z. troot l2 = Some z \<longrightarrow> sparent h z = Some y"
      using "3.prems" by (auto intro!: tdistinct_tmerge)
    have eq: "insert y ?S \<subseteq> set_tree (Node l1 x r1) \<union> set_tree (Node l2 y r2)" by auto
    show ?thesis
      using merge_node_shp [OF h'(2,3) d(2,3,1,4-9)] same_outside_mono [OF _ eq] False "3.prems"(2) h'(1)
      by (simp add: skew_heap_merge_nodes)
  qed
qed (auto simp: same_outside_def)

lemma troot_tremove: "troot t \<noteq> Some b \<Longrightarrow> troot (tremove cf b t) = troot t"
  by (cases t) auto

text \<open>Removing a child of \<open>x\<close>: the merged children take its place.\<close>

lemma remove_child_shp:
  assumes c: "shp h c" "tdistinct c" "troot c = Some b" "sparent h b = Some x" "x \<notin> set_tree c"
  obtains h2 where "skew_heap_merge cf (sleft h b) (sright h b) h \<bind> (\<lambda>(rp, h1).
      Some (rp, set_parent_if rp (Some x) h1)) = Some (troot (tremove cf b c), h2)"
    "shp h2 (tremove cf b c)" "same_outside (set_tree c) h h2"
    "\<forall>y. troot (tremove cf b c) = Some y \<longrightarrow> sparent h2 y = Some x"
proof -
  from c(3) obtain cl cr where cn: "c = Node cl b cr" by (cases c) auto
  let ?m = "tmerge cf cl cr"
  have pre: "shp h cl" "shp h cr" "tdistinct cl" "tdistinct cr" "set_tree cl \<inter> set_tree cr = {}"
    and lr: "sleft h b = troot cl" "sright h b = troot cr"
    using c cn by auto
  from skew_heap_merge_refines [OF pre, of cf] obtain h1 where
    m: "skew_heap_merge cf (troot cl) (troot cr) h = Some (troot ?m, h1)"
    "shp h1 ?m" "same_outside (set_tree cl \<union> set_tree cr) h h1" by auto
  let ?h2 = "set_parent_if (troot ?m) (Some x) h1"
  have hs: "sleft ?h2 = sleft h1" "sright ?h2 = sright h1"
    "sparent ?h2 z = (if troot ?m = Some z then Some x else sparent h1 z)" for z
    by (auto simp: sheap_defs split: option.splits)
  have "shp ?h2 ?m"
    by (rule shp_cong [OF m(2)]) (use pre in \<open>auto simp: hs tdistinct_tmerge\<close>)
  moreover have "same_outside (set_tree c) h ?h2"
    using m(3) troot_mem [of ?m] unfolding same_outside_def by (auto simp: hs cn)
  moreover have "\<forall>y. troot ?m = Some y \<longrightarrow> sparent ?h2 y = Some x"
    using hs(3) by simp
  ultimately show thesis
    using m(1) lr by (intro that [of ?h2]) (simp_all add: cn)
qed

lemma sibling_parent:
  assumes "same_outside S h h'" "\<forall>y. troot r = Some y \<longrightarrow> sparent h y = Some x" "set_tree r \<inter> S = {}"
  shows "\<forall>y. troot r = Some y \<longrightarrow> sparent h' y = Some x"
  using assms troot_mem unfolding same_outside_def by (metis disjoint_iff)

lemma shp_NodeI:
  assumes "shp h' l" "shp h' r" "sleft h' x = troot l" "sright h' x = troot r"
    "\<forall>y. troot l = Some y \<longrightarrow> sparent h' y = Some x"
    "\<forall>y. troot r = Some y \<longrightarrow> sparent h' y = Some x"
  shows "shp h' (Node l x r)"
  using assms by simp

lemma remove_left_child:
  assumes "shp h (Node l x r)" "tdistinct (Node l x r)" "troot l = Some b"
  shows "\<exists>h'. (\<forall>a. skew_heap_remove cf a b h = Some (a, h')) \<and>
    shp h' (Node (tremove cf b l) x r) \<and> same_outside (set_tree (Node l x r)) h h' \<and>
    sparent h' x = sparent h x"
proof -
  have b: "sparent h b = Some x" "x \<notin> set_tree l" "shp h l" "tdistinct l"
    using assms by auto
  from remove_child_shp [OF b(3,4) assms(3) b(1,2), of cf] obtain h2 where
    h2: "skew_heap_merge cf (sleft h b) (sright h b) h \<bind> (\<lambda>(rp, h1).
      Some (rp, set_parent_if rp (Some x) h1)) = Some (troot (tremove cf b l), h2)"
    "shp h2 (tremove cf b l)" "same_outside (set_tree l) h h2"
    "\<forall>y. troot (tremove cf b l) = Some y \<longrightarrow> sparent h2 y = Some x" by blast
  let ?h' = "set_left x (troot (tremove cf b l)) h2"
  have hs: "sright ?h' = sright h2" "sparent ?h' = sparent h2"
    "sleft ?h' z = (if z = x then troot (tremove cf b l) else sleft h2 z)" for z
    by (auto simp: sheap_defs)
  have x: "sleft h2 x = Some b" "sright h2 x = troot r" "sparent h2 x = sparent h x"
    using same_outsideD [OF h2(3) b(2)] assms by auto
  have d: "set_tree (tremove cf b l) \<subseteq> set_tree l" "tdistinct (tremove cf b l)"
    using b(4) by (auto simp: set_tremove tdistinct_tremove)
  have "shp ?h' (tremove cf b l)"
    by (rule shp_cong [OF h2(2)]) (use b(2) d in \<open>auto simp: hs\<close>)
  moreover have "shp h2 r"
    using shp_frame [OF _ h2(3), of r] assms by auto
  then have "shp ?h' r"
    by (rule shp_cong) (use assms(2) in \<open>auto simp: hs\<close>)
  moreover have "\<forall>y. troot r = Some y \<longrightarrow> sparent h2 y = Some x"
    using sibling_parent [OF h2(3), of r x] assms by auto
  ultimately have "shp ?h' (Node (tremove cf b l) x r)"
    using h2(4) x by (intro shp_NodeI) (simp_all add: hs)
  moreover have "same_outside (set_tree (Node l x r)) h ?h'"
    using h2(3) unfolding same_outside_def by (auto simp: hs)
  moreover have "skew_heap_remove cf a b h = Some (a, ?h')" for a
    using h2(1) x b(1) by (auto simp: skew_heap_remove_def bind_Some_iff)
  ultimately show ?thesis
    using x by (intro exI [of _ ?h']) (simp add: hs)
qed

lemma remove_right_child:
  assumes "shp h (Node l x r)" "tdistinct (Node l x r)" "troot r = Some b"
  shows "\<exists>h'. (\<forall>a. skew_heap_remove cf a b h = Some (a, h')) \<and>
    shp h' (Node l x (tremove cf b r)) \<and> same_outside (set_tree (Node l x r)) h h' \<and>
    sparent h' x = sparent h x"
proof -
  have b: "sparent h b = Some x" "x \<notin> set_tree r" "shp h r" "tdistinct r"
    using assms by auto
  from remove_child_shp [OF b(3,4) assms(3) b(1,2), of cf] obtain h2 where
    h2: "skew_heap_merge cf (sleft h b) (sright h b) h \<bind> (\<lambda>(rp, h1).
      Some (rp, set_parent_if rp (Some x) h1)) = Some (troot (tremove cf b r), h2)"
    "shp h2 (tremove cf b r)" "same_outside (set_tree r) h h2"
    "\<forall>y. troot (tremove cf b r) = Some y \<longrightarrow> sparent h2 y = Some x" by blast
  let ?h' = "set_right x (troot (tremove cf b r)) h2"
  have hs: "sleft ?h' = sleft h2" "sparent ?h' = sparent h2"
    "sright ?h' z = (if z = x then troot (tremove cf b r) else sright h2 z)" for z
    by (auto simp: sheap_defs)
  have x: "sright h2 x = Some b" "sleft h2 x = troot l" "troot l \<noteq> Some b" "sparent h2 x = sparent h x"
    using same_outsideD [OF h2(3) b(2)] assms troot_mem [of l b] troot_mem [of r b] by auto
  have d: "set_tree (tremove cf b r) \<subseteq> set_tree r" "tdistinct (tremove cf b r)"
    using b(4) by (auto simp: set_tremove tdistinct_tremove)
  have "shp ?h' (tremove cf b r)"
    by (rule shp_cong [OF h2(2)]) (use b(2) d in \<open>auto simp: hs\<close>)
  moreover have "shp h2 l"
    using shp_frame [OF _ h2(3), of l] assms by auto
  then have "shp ?h' l"
    by (rule shp_cong) (use assms(2) in \<open>auto simp: hs\<close>)
  moreover have "\<forall>y. troot l = Some y \<longrightarrow> sparent h2 y = Some x"
    using sibling_parent [OF h2(3), of l x] assms by auto
  ultimately have "shp ?h' (Node l x (tremove cf b r))"
    using h2(4) x by (intro shp_NodeI) (simp_all add: hs)
  moreover have "same_outside (set_tree (Node l x r)) h ?h'"
    using h2(3) unfolding same_outside_def by (auto simp: hs)
  moreover have "skew_heap_remove cf a b h = Some (a, ?h')" for a
    using h2(1) x b(1) by (auto simp: skew_heap_remove_def bind_Some_iff)
  ultimately show ?thesis
    using x by (intro exI [of _ ?h']) (simp add: hs)
qed

lemma remove_inner_refines:
  assumes "shp h t" "tdistinct t" "b \<in> set_tree t" "troot t \<noteq> Some b"
  shows "\<exists>h'. (\<forall>a. skew_heap_remove cf a b h = Some (a, h')) \<and>
    shp h' (tremove cf b t) \<and> same_outside (set_tree t) h h' \<and>
    (\<forall>z. troot t = Some z \<longrightarrow> sparent h' z = sparent h z)"
  using assms
proof (induction t)
  case (Node l x r)
  have xb: "x \<noteq> b" using Node.prems by simp
  consider (ll) "b \<in> set_tree l" "b \<notin> set_tree r" | (rr) "b \<in> set_tree r" "b \<notin> set_tree l"
    using Node.prems xb by auto
  then show ?case
  proof cases
    case ll
    show ?thesis
    proof (cases "troot l = Some b")
      case True
      then show ?thesis
        using remove_left_child [OF Node.prems(1,2) True, of cf] ll xb by auto
    next
      case False
      then obtain h' where h': "\<forall>a. skew_heap_remove cf a b h = Some (a, h')"
        "shp h' (tremove cf b l)" "same_outside (set_tree l) h h'"
        "\<forall>z. troot l = Some z \<longrightarrow> sparent h' z = sparent h z"
        using Node ll by auto
      have "shp h' r" using shp_frame [OF _ h'(3), of r] Node.prems by auto
      moreover have "same_outside (set_tree (Node l x r)) h h'"
        by (rule same_outside_mono [OF h'(3)]) auto
      moreover have "\<forall>y. troot r = Some y \<longrightarrow> sparent h' y = Some x"
        using sibling_parent [OF h'(3), of r x] Node.prems by auto
      ultimately show ?thesis
        using h' xb ll Node.prems same_outsideD [OF h'(3), of x]
        by (auto simp: troot_tremove [OF False])
    qed
  next
    case rr
    show ?thesis
    proof (cases "troot r = Some b")
      case True
      then show ?thesis
        using remove_right_child [OF Node.prems(1,2) True, of cf] rr xb by auto
    next
      case False
      then obtain h' where h': "\<forall>a. skew_heap_remove cf a b h = Some (a, h')"
        "shp h' (tremove cf b r)" "same_outside (set_tree r) h h'"
        "\<forall>z. troot r = Some z \<longrightarrow> sparent h' z = sparent h z"
        using Node rr by auto
      have "shp h' l" using shp_frame [OF _ h'(3), of l] Node.prems by auto
      moreover have "same_outside (set_tree (Node l x r)) h h'"
        by (rule same_outside_mono [OF h'(3)]) auto
      moreover have "\<forall>y. troot l = Some y \<longrightarrow> sparent h' y = Some x"
        using sibling_parent [OF h'(3), of l x] Node.prems by auto
      ultimately show ?thesis
        using h' xb rr Node.prems same_outsideD [OF h'(3), of x]
        by (auto simp: troot_tremove [OF False])
    qed
  qed
qed simp

section \<open>Whole heaps\<close>

text \<open>\<open>heap_rep h a t\<close>: the pointer \<open>a\<close> is the root of a heap of shape \<open>t\<close>, without a parent.\<close>

definition heap_rep :: "sheap \<Rightarrow> ptr option \<Rightarrow> ptr tree \<Rightarrow> bool" where
  "heap_rep h a t \<longleftrightarrow> troot t = a \<and> shp h t \<and> tdistinct t \<and> (\<forall>z. a = Some z \<longrightarrow> sparent h z = None)"

lemma skew_heap_insert_refines:
  assumes "heap_rep h a t" "b \<notin> set_tree t"
  shows "\<exists>h'. skew_heap_insert cf a b h = Some (troot (tmerge cf t (Node Leaf b Leaf)), h') \<and>
    heap_rep h' (troot (tmerge cf t (Node Leaf b Leaf))) (tmerge cf t (Node Leaf b Leaf)) \<and>
    same_outside (insert b (set_tree t)) h h'"
proof -
  let ?h = "skew_heap_init b h" and ?n = "Node Leaf b Leaf" and ?t = "tmerge cf t (Node Leaf b Leaf)"
  have so: "same_outside {b} h ?h"
    by (simp add: same_outside_def skew_heap_init_def sheap_defs)
  have t: "shp ?h t" "tdistinct t" "troot t = a"
    using assms shp_frame [OF _ so] by (auto simp: heap_rep_def)
  have n: "shp ?h ?n" by (simp add: skew_heap_init_def sheap_defs)
  obtain h' where h': "skew_heap_merge cf (troot t) (troot ?n) ?h = Some (troot ?t, h')"
    "shp h' ?t" "same_outside (set_tree t \<union> set_tree ?n) ?h h'"
    "\<forall>z. troot ?t = Some z \<longrightarrow> sparent h' z = sparent ?h z"
    using skew_heap_merge_refines [OF t(1) n t(2)] assms(2) by fastforce
  have "troot ?t = Some z \<Longrightarrow> z = b \<or> troot t = Some z" for z
    by (cases t) (auto split: if_splits)
  then have "\<forall>z. troot ?t = Some z \<longrightarrow> sparent h' z = None"
    using h'(4) assms(1) by (force simp: heap_rep_def skew_heap_init_def sheap_defs)
  moreover have "same_outside (insert b (set_tree t)) h h'"
    using so h'(3) by (simp add: same_outside_def)
  ultimately show ?thesis
    using h' t(2,3) assms(2) by (auto simp: heap_rep_def skew_heap_insert_def intro!: tdistinct_tmerge)
qed

lemma skew_heap_remove_refines:
  assumes "heap_rep h a t" "b \<in> set_tree t"
  shows "\<exists>h'. skew_heap_remove cf a b h = Some (troot (tremove cf b t), h') \<and>
    heap_rep h' (troot (tremove cf b t)) (tremove cf b t) \<and> same_outside (set_tree t) h h'"
proof (cases "troot t = Some b")
  case False
  then show ?thesis
    using remove_inner_refines [of h t b cf] assms
    by (auto simp: heap_rep_def troot_tremove tdistinct_tremove)
next
  case True
  then obtain l r where t: "t = Node l b r" by (cases t) auto
  with assms(1) have pre: "shp h l" "shp h r" "tdistinct l" "tdistinct r"
    "set_tree l \<inter> set_tree r = {}" and np: "sparent h b = None" "sleft h b = troot l" "sright h b = troot r"
    by (auto simp: heap_rep_def)
  let ?m = "tmerge cf l r"
  obtain h1 where h1: "skew_heap_merge cf (troot l) (troot r) h = Some (troot ?m, h1)"
    "shp h1 ?m" "same_outside (set_tree l \<union> set_tree r) h h1"
    using skew_heap_merge_refines [OF pre, of cf] by auto
  let ?h' = "set_parent_if (troot ?m) None h1"
  have "shp ?h' ?m"
    by (rule shp_cong [OF h1(2)])
      (use pre in \<open>auto simp: tdistinct_tmerge set_parent_if_def set_parent_def split: option.splits\<close>)
  moreover have "same_outside (set_tree t) h ?h'"
    using h1(3) troot_mem [of ?m] unfolding same_outside_def
    by (auto simp: t set_parent_if_def set_parent_def split: option.splits)
  ultimately show ?thesis
    using h1(1) np pre by (auto simp: heap_rep_def t skew_heap_remove_def tdistinct_tmerge)
qed

section \<open>Heap order\<close>

fun heap_ordered :: "('a \<Rightarrow> 'a \<Rightarrow> int) \<Rightarrow> 'a tree \<Rightarrow> bool" where
  "heap_ordered cf Leaf = True"
| "heap_ordered cf (Node l x r) \<longleftrightarrow>
     (\<forall>y\<in>set_tree l \<union> set_tree r. cf y x \<noteq> - 1) \<and> heap_ordered cf l \<and> heap_ordered cf r"

text \<open>The entries \<open>A\<close> are stored below \<open>a\<close>, in heap order.\<close>

definition pool :: "('a \<Rightarrow> ptr \<Rightarrow> ptr \<Rightarrow> int) \<Rightarrow> 'a \<Rightarrow> sheap \<Rightarrow> ptr option \<Rightarrow> ptr set \<Rightarrow> bool" where
  "pool cf k h a A \<longleftrightarrow> (\<exists>t. heap_rep h a t \<and> heap_ordered (cf k) t \<and> set_tree t = A)"

lemma pool_empty: "pool cf k h a A \<Longrightarrow> a = None \<longleftrightarrow> A = {}"
  unfolding pool_def heap_rep_def by (metis eq_set_tree_empty option.distinct(1) tree.exhaust troot_simps)

lemma pool_root_mem: "pool cf k h (Some x) A \<Longrightarrow> x \<in> A"
  by (auto simp: pool_def heap_rep_def dest: troot_mem)

lemma pool_finite: "pool cf k h a A \<Longrightarrow> finite A"
  by (auto simp: pool_def)

lemma tmerge_cong:
  "\<forall>x\<in>set_tree s \<union> set_tree t. \<forall>y\<in>set_tree s \<union> set_tree t. cf x y = cf' x y \<Longrightarrow> tmerge cf s t = tmerge cf' s t"
  by (induction cf s t rule: tmerge.induct) auto

lemma heap_ordered_cong:
  "\<forall>x\<in>set_tree t. \<forall>y\<in>set_tree t. cf x y = cf' x y \<Longrightarrow> heap_ordered cf t \<Longrightarrow> heap_ordered cf' t"
  by (induction t) auto

text \<open>
  The contract a comparison function owes the heap: on the entries \<open>S\<close> it is
  asymmetric, and not being smaller is transitive.
\<close>

locale key_order =
  fixes cf :: "'a \<Rightarrow> 'a \<Rightarrow> int" and S :: "'a set"
  assumes cf_asym: "x \<in> S \<Longrightarrow> y \<in> S \<Longrightarrow> cf x y = - 1 \<Longrightarrow> cf y x \<noteq> - 1"
    and cf_trans: "x \<in> S \<Longrightarrow> y \<in> S \<Longrightarrow> z \<in> S \<Longrightarrow> cf y x \<noteq> - 1 \<Longrightarrow> cf z y \<noteq> - 1 \<Longrightarrow> cf z x \<noteq> - 1"
begin

lemma cf_refl: "x \<in> S \<Longrightarrow> cf x x \<noteq> - 1"
  using cf_asym by blast

lemma heap_ordered_tmerge:
  "set_tree s \<union> set_tree t \<subseteq> S \<Longrightarrow> heap_ordered cf s \<Longrightarrow> heap_ordered cf t \<Longrightarrow> heap_ordered cf (tmerge cf s t)"
proof (induction c\<equiv>cf s t rule: tmerge.induct)
  case (3 l1 x r1 l2 y r2)
  have S: "x \<in> S" "y \<in> S" "\<And>z. z \<in> set_tree (Node l1 x r1) \<union> set_tree (Node l2 y r2) \<Longrightarrow> z \<in> S"
    using 3(3) by auto
  show ?case
  proof (cases "cf x y = - 1")
    case True
    have "cf z x \<noteq> - 1" if "z \<in> set_tree (Node l2 y r2)" for z
      using that 3(5) S cf_trans [of x y z] cf_asym [OF S(1,2) True] cf_refl [OF S(2)] by fastforce
    then show ?thesis using 3 True by auto
  next
    case False
    have "cf z y \<noteq> - 1" if "z \<in> set_tree (Node l1 x r1)" for z
      using that 3(4) S cf_trans [of y x z] False cf_refl [OF S(1)] by fastforce
    then show ?thesis using 3 False by auto
  qed
qed auto

lemma heap_ordered_tremove:
  "tdistinct t \<Longrightarrow> set_tree t \<subseteq> S \<Longrightarrow> heap_ordered cf t \<Longrightarrow> heap_ordered cf (tremove cf b t)"
  by (induction t) (auto simp: set_tremove heap_ordered_tmerge)

lemma heap_root_min:
  "set_tree t \<subseteq> S \<Longrightarrow> heap_ordered cf t \<Longrightarrow> t = Node l x r \<Longrightarrow> y \<in> set_tree t \<Longrightarrow> cf y x \<noteq> - 1"
  using cf_refl by auto

end

text \<open>The heap operations on pools, for a comparison that orders the entries.\<close>

lemma pool_insert:
  assumes "key_order (cf k) S" "pool cf k h a A" "b \<notin> A" "insert b A \<subseteq> S"
  shows "\<exists>a' h'. skew_heap_insert (cf k) a b h = Some (a', h') \<and> pool cf k h' a' (insert b A)"
proof -
  from assms(2) obtain t where t: "heap_rep h a t" "heap_ordered (cf k) t" "set_tree t = A"
    by (auto simp: pool_def)
  let ?t = "tmerge (cf k) t (Node Leaf b Leaf)"
  have "heap_ordered (cf k) ?t"
    using assms t by (intro key_order.heap_ordered_tmerge) auto
  then show ?thesis
    using skew_heap_insert_refines [OF t(1), of b "cf k"] t(3) assms(3) by (fastforce simp: pool_def)
qed

lemma pool_remove:
  assumes "key_order (cf k) S" "pool cf k h a A" "b \<in> A" "A \<subseteq> S"
  shows "\<exists>a' h'. skew_heap_remove (cf k) a b h = Some (a', h') \<and> pool cf k h' a' (A - {b})"
proof -
  from assms(2) obtain t where t: "heap_rep h a t" "heap_ordered (cf k) t" "set_tree t = A" "tdistinct t"
    by (auto simp: pool_def heap_rep_def)
  have "heap_ordered (cf k) (tremove (cf k) b t)"
    using assms t by (intro key_order.heap_ordered_tremove) auto
  then show ?thesis
    using skew_heap_remove_refines [OF t(1), of b "cf k"] t(3,4) assms(3)
    by (fastforce simp: pool_def set_tremove)
qed

lemma pool_min:
  assumes "key_order (cf k) S" "pool cf k h (Some x) A" "A \<subseteq> S" "y \<in> A"
  shows "cf k y x \<noteq> - 1"
proof -
  from assms(2) obtain t where t: "heap_rep h (Some x) t" "heap_ordered (cf k) t" "set_tree t = A"
    by (auto simp: pool_def)
  then obtain l r where "t = Node l x r"
    by (cases t) (auto simp: heap_rep_def)
  with key_order.heap_root_min [OF assms(1) _ t(2) this] t(3) assms(3,4) show ?thesis by auto
qed

text \<open>The key of the root may change before the root is removed: only the other keys are compared.\<close>

lemma pool_remove_root:
  assumes "key_order (cf k) S" "pool cf k h (Some b) A" "A \<subseteq> S"
    and eq: "\<forall>x\<in>A - {b}. \<forall>y\<in>A - {b}. cf k' x y = cf k x y"
  shows "\<exists>a' h'. skew_heap_remove (cf k') (Some b) b h = Some (a', h') \<and> pool cf k' h' a' (A - {b})"
proof -
  from assms(2) obtain t where t: "heap_rep h (Some b) t" "heap_ordered (cf k) t" "set_tree t = A" "tdistinct t"
    by (auto simp: pool_def heap_rep_def)
  then obtain l r where tn: "t = Node l b r"
    by (cases t) (auto simp: heap_rep_def)
  have "tmerge (cf k') l r = tmerge (cf k) l r"
    using eq t(3,4) tn by (intro tmerge_cong) auto
  moreover have "heap_ordered (cf k) (tmerge (cf k) l r)"
    using assms(1,3) t tn by (intro key_order.heap_ordered_tmerge) auto
  then have "heap_ordered (cf k') (tmerge (cf k) l r)"
    using eq t(3,4) tn by (intro heap_ordered_cong [of _ "cf k" "cf k'"]) auto
  ultimately show ?thesis
    using skew_heap_remove_refines [OF t(1), of b "cf k'"] t(3,4) tn
    by (fastforce simp: pool_def)
qed

text \<open>
  C2. The pointer skew heap refines the functional one: inserting a new entry and removing any
  stored entry, root or not, terminate, keep child and parent pointers consistent,
  change exactly the stored entries and touch no pointer outside the heap.
\<close>

theorem skew_heap_refines:
  assumes "heap_rep h a t"
  shows "(b \<notin> set_tree t \<longrightarrow> (\<exists>a' h' t'. skew_heap_insert cf a b h = Some (a', h') \<and> heap_rep h' a' t' \<and>
      t' = tmerge cf t (Node Leaf b Leaf) \<and> mset_tree t' = add_mset b (mset_tree t) \<and>
      same_outside (insert b (set_tree t)) h h')) \<and>
    (b \<in> set_tree t \<longrightarrow> (\<exists>a' h' t'. skew_heap_remove cf a b h = Some (a', h') \<and> heap_rep h' a' t' \<and>
      t' = tremove cf b t \<and> mset_tree t' = mset_tree t - {#b#} \<and> same_outside (set_tree t) h h'))"
proof (intro conjI impI)
  assume "b \<notin> set_tree t"
  from skew_heap_insert_refines [OF assms this, of cf] show "\<exists>a' h' t'. skew_heap_insert cf a b h = Some (a', h') \<and>
      heap_rep h' a' t' \<and> t' = tmerge cf t (Node Leaf b Leaf) \<and> mset_tree t' = add_mset b (mset_tree t) \<and>
      same_outside (insert b (set_tree t)) h h'" by auto
next
  assume b: "b \<in> set_tree t"
  have "mset_tree (tremove cf b t) = mset_tree t - {#b#}"
    using assms b by (simp add: heap_rep_def mset_tremove)
  with skew_heap_remove_refines [OF assms b, of cf] show "\<exists>a' h' t'. skew_heap_remove cf a b h = Some (a', h') \<and>
      heap_rep h' a' t' \<and> t' = tremove cf b t \<and> mset_tree t' = mset_tree t - {#b#} \<and> same_outside (set_tree t) h h'"
    by auto
qed

theorem skew_heap_refines_witness:
  "\<exists>a' h'. skew_heap_insert (\<lambda>x y. if x < y then - 1 else 1) (Some 3) 5
     \<lparr>sparent = \<lambda>_. None, sleft = \<lambda>_. None, sright = \<lambda>_. None\<rparr> = Some (a', h') \<and> a' = Some 3"
  using skew_heap_refines [of "\<lparr>sparent = \<lambda>_. None, sleft = \<lambda>_. None, sright = \<lambda>_. None\<rparr>" "Some 3"
      "Node Leaf 3 Leaf" 5 "\<lambda>x y. if x < y then - 1 else 1"]
  by (auto simp: heap_rep_def)

end
