(* ===== verification/ProcState.thy ===== *)
theory ProcState
  imports Prelude SkewHeap
begin

text \<open>
  The process control block of \<^verbatim>\<open>kern/process/proc.h\<close>, the run queue and the
  timers of \<^verbatim>\<open>kern/schedule/sched.h\<close>, and the state the scheduler, the wait
  queues and the process manager share.  \<open>struct context\<close>, the trap frame and the
  linker fields of the intrusive lists are not fields here: the first two belong
  to the context switch, the last are represented by the lists themselves
  (theory DList shows that this is what the list operations compute).
\<close>

datatype proc_state = PROC_UNINIT | PROC_SLEEPING | PROC_RUNNABLE | PROC_ZOMBIE

record proc_struct =
  p_state :: proc_state
  p_pid :: int
  p_runs :: u32
  p_kstack :: u64
  p_need_resched :: bool
  p_parent :: "ptr option"
  p_mm :: "ptr option"
  p_cr3 :: u64
  p_flags :: u32
  p_name :: string
  p_exit_code :: int
  p_wait_state :: u32
  p_cptr :: "ptr option"
  p_yptr :: "ptr option"
  p_optr :: "ptr option"
  p_rq :: bool
  p_time_slice :: int
  p_lab6_stride :: u32
  p_lab6_priority :: u32
  p_filesp :: "ptr option"

text \<open>The counter \<^verbatim>\<open>runs\<close>, an \<^verbatim>\<open>int\<close>, is kept as the 32 bits it has.\<close>

text \<open>There is one run queue, so the field \<^verbatim>\<open>proc->rq\<close> is a flag: it points to that queue or is NULL.\<close>

definition PF_EXITING :: u32 where "PF_EXITING = 1"
definition WT_INTERRUPTED :: u32 where "WT_INTERRUPTED = 0x80000000"
definition WT_CHILD :: u32 where "WT_CHILD = 1 OR WT_INTERRUPTED"
definition WT_KSEM :: u32 where "WT_KSEM = 0x100"
definition WT_TIMER :: u32 where "WT_TIMER = 2 OR WT_INTERRUPTED"
definition WT_KBD :: u32 where "WT_KBD = 4 OR WT_INTERRUPTED"
definition WT_KPU :: u32 where "WT_KPU = 8 OR WT_INTERRUPTED"
definition WT_KPU_INIT :: u32 where "WT_KPU_INIT = 0x10 OR WT_INTERRUPTED"

lemmas wt_defs = WT_INTERRUPTED_def WT_CHILD_def WT_KSEM_def WT_TIMER_def WT_KBD_def WT_KPU_def WT_KPU_INIT_def

definition MAX_PROCESS :: int where "MAX_PROCESS = 4096"
definition MAX_PID :: int where "MAX_PID = MAX_PROCESS * 2"
definition MAX_TIME_SLICE :: int where "MAX_TIME_SLICE = 5"

record run_queue =
  proc_num :: u32
  max_time_slice :: int
  lab6_run_pool :: "ptr option"

record timer_t =
  t_expires :: u32
  t_proc :: "ptr option"

record sched_st =
  procs :: "ptr \<Rightarrow> proc_struct"
  current :: "ptr option"
  cr3_reg :: u64
  idleproc :: ptr
  run_q :: run_queue
  pools :: sheap
  timers :: "ptr \<Rightarrow> timer_t"
  timer_list :: "ptr list"
  kpu_task_ctrl_proc :: "ptr option"

text \<open>Assignment to fields of one process.\<close>

definition upd_proc :: "ptr \<Rightarrow> (proc_struct \<Rightarrow> proc_struct) \<Rightarrow> ('a sched_st_scheme) \<Rightarrow> 'a sched_st_scheme" where
  "upd_proc p f s = s\<lparr>procs := (procs s)(p := f (procs s p))\<rparr>"

lemma upd_proc_simps [simp]:
  "procs (upd_proc p f s) = (procs s)(p := f (procs s p))"
  "current (upd_proc p f s) = current s"
  "cr3_reg (upd_proc p f s) = cr3_reg s"
  "idleproc (upd_proc p f s) = idleproc s"
  "run_q (upd_proc p f s) = run_q s"
  "pools (upd_proc p f s) = pools s"
  "timers (upd_proc p f s) = timers s"
  "timer_list (upd_proc p f s) = timer_list s"
  "kpu_task_ctrl_proc (upd_proc p f s) = kpu_task_ctrl_proc s"
  by (simp_all add: upd_proc_def)

text \<open>
  A scheduling class is a table of functions (\<^verbatim>\<open>struct sched_class\<close>); the state
  type is a parameter so that the process manager can extend it.
\<close>

record 's sched_class =
  sc_init :: "'s \<Rightarrow> 's"
  sc_enqueue :: "ptr \<Rightarrow> 's \<Rightarrow> 's option"
  sc_dequeue :: "ptr \<Rightarrow> 's \<Rightarrow> 's option"
  sc_pick_next :: "'s \<Rightarrow> ptr option \<times> 's"
  sc_proc_tick :: "ptr \<Rightarrow> 's \<Rightarrow> 's"

text \<open>
  What a scheduling class may touch: the run queue, and of the processes \<open>P\<close> only the
  scheduling fields.
\<close>

definition core_eq :: "proc_struct \<Rightarrow> proc_struct \<Rightarrow> bool" where
  "core_eq p q \<longleftrightarrow> q\<lparr>p_rq := p_rq p, p_time_slice := p_time_slice p, p_lab6_stride := p_lab6_stride p,
     p_need_resched := p_need_resched p\<rparr> = p"

definition sched_frame :: "ptr set \<Rightarrow> 'a sched_st_scheme \<Rightarrow> 'a sched_st_scheme \<Rightarrow> bool" where
  "sched_frame P s s' \<longleftrightarrow>
     s'\<lparr>procs := procs s, run_q := run_q s, pools := pools s\<rparr> = s \<and>
     max_time_slice (run_q s') = max_time_slice (run_q s) \<and>
     (\<forall>p. p \<notin> P \<longrightarrow> procs s' p = procs s p) \<and> (\<forall>p. core_eq (procs s p) (procs s' p))"

lemma sched_frameD:
  assumes "sched_frame P s s'"
  shows "current s' = current s" "idleproc s' = idleproc s" "timers s' = timers s"
    "timer_list s' = timer_list s" "kpu_task_ctrl_proc s' = kpu_task_ctrl_proc s" "cr3_reg s' = cr3_reg s"
    "max_time_slice (run_q s') = max_time_slice (run_q s)"
    "p \<notin> P \<Longrightarrow> procs s' p = procs s p" "core_eq (procs s p) (procs s' p)"
    "sched_st.more s' = sched_st.more s"
  using assms by (cases s; cases s'; auto simp: sched_frame_def)+

lemma core_eqD:
  assumes "core_eq p q"
  shows "p_state q = p_state p" "p_pid q = p_pid p" "p_runs q = p_runs p" "p_parent q = p_parent p"
    "p_mm q = p_mm p" "p_flags q = p_flags p" "p_wait_state q = p_wait_state p"
    "p_exit_code q = p_exit_code p" "p_cptr q = p_cptr p" "p_yptr q = p_yptr p" "p_optr q = p_optr p"
    "p_cr3 q = p_cr3 p" "p_filesp q = p_filesp p" "p_kstack q = p_kstack p" "p_lab6_priority q = p_lab6_priority p"
  using assms unfolding core_eq_def by (cases p; cases q; simp)+

lemma core_eq_refl [simp]: "core_eq p p"
  by (simp add: core_eq_def)

lemma core_eq_trans: "core_eq p q \<Longrightarrow> core_eq q r \<Longrightarrow> core_eq p r"
  unfolding core_eq_def by (cases p; cases q; cases r; simp)

lemmas sched_frame_core = core_eqD [OF sched_frameD(9)]

lemma sched_frame_trans: "sched_frame P s s' \<Longrightarrow> sched_frame P s' s'' \<Longrightarrow> sched_frame P s s''"
  unfolding sched_frame_def by (cases s; cases s'; cases s''; auto intro: core_eq_trans)

text \<open>
  The initial values of \<^verbatim>\<open>alloc_proc\<close> (\<^verbatim>\<open>kern/process/proc.c\<close>); the name is 15 zero bytes.  The code does not set the exit code:
  it is zero here, and \<open>alloc_proc\<close> of theory Proc keeps what the memory held.
\<close>

definition alloc_proc_init :: "u64 \<Rightarrow> proc_struct" where
  "alloc_proc_init boot_cr3 = \<lparr>p_state = PROC_UNINIT, p_pid = - 1, p_runs = 0, p_kstack = 0,
     p_need_resched = False, p_parent = None, p_mm = None, p_cr3 = boot_cr3, p_flags = 0,
     p_name = [], p_exit_code = 0, p_wait_state = 0, p_cptr = None, p_yptr = None, p_optr = None,
     p_rq = False, p_time_slice = 0, p_lab6_stride = 0, p_lab6_priority = 0, p_filesp = None\<rparr>"

text \<open>
  A concrete state: process 0 is idle, 1 and 2 are runnable, process 1 runs and process 2 is the
  run queue.
\<close>

definition example_st :: sched_st where
  "example_st = \<lparr>procs = (\<lambda>p. if p = 2 then (alloc_proc_init 0)\<lparr>p_state := PROC_RUNNABLE, p_rq := True, p_lab6_priority := 5\<rparr>
       else if p \<le> 1 then (alloc_proc_init 0)\<lparr>p_state := PROC_RUNNABLE, p_lab6_priority := 2\<rparr> else alloc_proc_init 0),
     current = Some 1, cr3_reg = 0, idleproc = 0,
     run_q = \<lparr>proc_num = 1, max_time_slice = 5, lab6_run_pool = Some 2\<rparr>,
     pools = \<lparr>sparent = \<lambda>_. None, sleft = \<lambda>_. None, sright = \<lambda>_. None\<rparr>,
     timers = (\<lambda>_. \<lparr>t_expires = 1, t_proc = Some 3\<rparr>), timer_list = [], kpu_task_ctrl_proc = None\<rparr>"

end
