(* ===== verification/Stride.thy ===== *)
theory Stride
  imports ProcState
begin

text \<open>
  \<^verbatim>\<open>kern/schedule/default_sched_stride.c\<close>: the stride scheduling class.  Strides
  are 32-bit words that wrap; the comparison reads the difference as a signed
  number.  The order is right as long as all strides of the pool lie in a window
  of half the range, and the class keeps them in a window of width
  \<open>BIG_STRIDE\<close>.
\<close>

definition BIG_STRIDE :: u32 where "BIG_STRIDE = 2 ^ 30"

definition proc_stride_comp_f :: "(ptr \<Rightarrow> proc_struct) \<Rightarrow> ptr \<Rightarrow> ptr \<Rightarrow> int" where
  "proc_stride_comp_f ps a b =
     (let c = sint (p_lab6_stride (ps a) - p_lab6_stride (ps b))
      in if c > 0 then 1 else if c = 0 then 0 else - 1)"

definition stride_init :: "'a sched_st_scheme \<Rightarrow> 'a sched_st_scheme" where
  "stride_init s = s\<lparr>run_q := (run_q s)\<lparr>lab6_run_pool := None, proc_num := 0\<rparr>\<rparr>"

definition stride_enqueue :: "ptr \<Rightarrow> 'a sched_st_scheme \<Rightarrow> 'a sched_st_scheme option" where
  "stride_enqueue proc s =
     skew_heap_insert (proc_stride_comp_f (procs s)) (lab6_run_pool (run_q s)) proc (pools s) \<bind> (\<lambda>(a, h).
       let s1 = s\<lparr>pools := h, run_q := (run_q s)\<lparr>lab6_run_pool := a\<rparr>\<rparr>;
           ts = p_time_slice (procs s1 proc);
           s2 = (if ts = 0 \<or> ts > max_time_slice (run_q s1)
                 then upd_proc proc (\<lambda>p. p\<lparr>p_time_slice := max_time_slice (run_q s1)\<rparr>) s1 else s1);
           s3 = upd_proc proc (\<lambda>p. p\<lparr>p_rq := True\<rparr>) s2
       in Some (s3\<lparr>run_q := (run_q s3)\<lparr>proc_num := proc_num (run_q s3) + 1\<rparr>\<rparr>))"

definition stride_dequeue :: "ptr \<Rightarrow> 'a sched_st_scheme \<Rightarrow> 'a sched_st_scheme option" where
  "stride_dequeue proc s = do {
     kassert (p_rq (procs s proc) \<and> proc_num (run_q s) > 0);
     (a, h) \<leftarrow> skew_heap_remove (proc_stride_comp_f (procs s)) (lab6_run_pool (run_q s)) proc (pools s);
     Some (s\<lparr>pools := h, run_q := (run_q s)\<lparr>lab6_run_pool := a, proc_num := proc_num (run_q s) - 1\<rparr>\<rparr>)
   }"

definition stride_pass :: "proc_struct \<Rightarrow> u32" where
  "stride_pass p = (if p_lab6_priority p \<noteq> 0 then BIG_STRIDE div p_lab6_priority p else BIG_STRIDE)"

definition stride_pick_next :: "'a sched_st_scheme \<Rightarrow> ptr option \<times> 'a sched_st_scheme" where
  "stride_pick_next s =
     (case lab6_run_pool (run_q s) of None \<Rightarrow> (None, s)
      | Some proc \<Rightarrow> (Some proc,
          upd_proc proc (\<lambda>p. p\<lparr>p_lab6_stride := p_lab6_stride p + stride_pass p\<rparr>) s))"

definition stride_proc_tick :: "ptr \<Rightarrow> 'a sched_st_scheme \<Rightarrow> 'a sched_st_scheme" where
  "stride_proc_tick proc s =
     (let s1 = (if p_time_slice (procs s proc) > 0
                then upd_proc proc (\<lambda>p. p\<lparr>p_time_slice := p_time_slice p - 1\<rparr>) s else s)
      in if p_time_slice (procs s1 proc) = 0
         then upd_proc proc (\<lambda>p. p\<lparr>p_need_resched := True\<rparr>) s1 else s1)"

section \<open>The comparison orders a window of strides\<close>

definition stride_window :: "(ptr \<Rightarrow> proc_struct) \<Rightarrow> u32 \<Rightarrow> nat \<Rightarrow> ptr set" where
  "stride_window ps b w = {p. unat (p_lab6_stride (ps p) - b) \<le> w}"

lemma sint_diff_window:
  fixes x y b :: u32
  assumes "unat (x - b) < 2 ^ 31" "unat (y - b) < 2 ^ 31"
  shows "sint (x - y) = int (unat (x - b)) - int (unat (y - b))"
proof -
  have "x - y = (x - b) - (y - b)" by simp
  also have "\<dots> = word_of_int (int (unat (x - b)) - int (unat (y - b)))" by simp
  finally have eq: "sint (x - y) = signed_take_bit 31 (int (unat (x - b)) - int (unat (y - b)))"
    by (simp only: signed_of_int) simp
  define u v where "u = unat (x - b)" and "v = unat (y - b)"
  have "signed_take_bit 31 (int u - int v) = int u - int v"
    using assms unfolding u_def [symmetric] v_def [symmetric] by (intro signed_take_bit_int_eq_self) simp_all
  with eq show ?thesis by (simp only: u_def v_def)
qed

lemma comp_f_window:
  assumes "x \<in> stride_window ps b w" "y \<in> stride_window ps b w" "w < 2 ^ 31"
  shows "proc_stride_comp_f ps x y = - 1 \<longleftrightarrow>
    unat (p_lab6_stride (ps x) - b) < unat (p_lab6_stride (ps y) - b)"
proof -
  have "unat (p_lab6_stride (ps x) - b) < 2 ^ 31" "unat (p_lab6_stride (ps y) - b) < 2 ^ 31"
    using assms by (auto simp: stride_window_def)
  note eq = sint_diff_window [OF this]
  show ?thesis
    unfolding proc_stride_comp_f_def Let_def eq by (simp only: diff_gt_0_iff_gt of_nat_less_iff
        right_minus_eq of_nat_eq_iff) auto
qed

interpretation so: key_order "proc_stride_comp_f ps" "stride_window ps b (2 ^ 31 - 1)" for ps b
  by unfold_locales (auto simp: comp_f_window)

lemma unat_BIG_STRIDE: "unat BIG_STRIDE = 2 ^ 30"
  by (simp add: BIG_STRIDE_def)

lemma stride_window_mono: "w \<le> w' \<Longrightarrow> stride_window ps b w \<subseteq> stride_window ps b w'"
  by (auto simp: stride_window_def)

lemma window_half: "A \<subseteq> stride_window ps b (unat BIG_STRIDE) \<Longrightarrow> A \<subseteq> stride_window ps b (2 ^ 31 - 1)"
  using stride_window_mono [of "2 ^ 30" "2 ^ 31 - 1" ps b] by (auto simp: unat_BIG_STRIDE)

lemma stride_pass_le: "unat (stride_pass p) \<le> unat BIG_STRIDE"
  by (simp add: stride_pass_def unat_div_distrib)

lemma pool_stride_cong:
  assumes "\<forall>p\<in>A. p_lab6_stride (ps' p) = p_lab6_stride (ps p)" "pool proc_stride_comp_f ps h a A"
  shows "pool proc_stride_comp_f ps' h a A"
proof -
  from assms(2) obtain t where t: "heap_rep h a t" "heap_ordered (proc_stride_comp_f ps) t" "set_tree t = A"
    by (auto simp: pool_def)
  have "heap_ordered (proc_stride_comp_f ps') t"
    using assms(1) t by (intro heap_ordered_cong [OF _ t(2)]) (auto simp: proc_stride_comp_f_def)
  with t show ?thesis by (auto simp: pool_def)
qed

section \<open>The run queue and its laws\<close>

definition stride_rep :: "ptr set \<Rightarrow> 'a sched_st_scheme \<Rightarrow> bool" where
  "stride_rep A s \<longleftrightarrow>
     pool proc_stride_comp_f (procs s) (pools s) (lab6_run_pool (run_q s)) A \<and>
     unat (proc_num (run_q s)) = card A \<and> (\<forall>p\<in>A. p_rq (procs s p)) \<and>
     (\<exists>b. A \<subseteq> stride_window (procs s) b (unat BIG_STRIDE))"

definition stride_fits :: "ptr set \<Rightarrow> 'a sched_st_scheme \<Rightarrow> ptr \<Rightarrow> bool" where
  "stride_fits A s p \<longleftrightarrow> card A < 2 ^ 32 - 1 \<and>
     (\<exists>b. insert p A \<subseteq> stride_window (procs s) b (unat BIG_STRIDE))"

lemma stride_init_rep: "stride_rep {} (stride_init s)"
  by (auto simp: stride_rep_def stride_init_def pool_def heap_rep_def intro!: exI [of _ Leaf])

lemma stride_enqueue_ok:
  assumes "stride_rep A s" "p \<notin> A" "stride_fits A s p"
  shows "\<exists>s'. stride_enqueue p s = Some s' \<and> stride_rep (insert p A) s' \<and> sched_frame {p} s s' \<and>
    (\<forall>q. p_lab6_stride (procs s' q) = p_lab6_stride (procs s q))"
proof -
  from assms(3) obtain b where b: "insert p A \<subseteq> stride_window (procs s) b (unat BIG_STRIDE)"
    and c: "card A < 2 ^ 32 - 1" by (auto simp: stride_fits_def)
  have pl: "pool proc_stride_comp_f (procs s) (pools s) (lab6_run_pool (run_q s)) A"
    using assms(1) by (simp add: stride_rep_def)
  from pool_insert [OF so.key_order_axioms pl assms(2) window_half [OF b]] obtain a h where
    ins: "skew_heap_insert (proc_stride_comp_f (procs s)) (lab6_run_pool (run_q s)) p (pools s) = Some (a, h)"
    and pl': "pool proc_stride_comp_f (procs s) h a (insert p A)" by blast
  obtain s' where s': "stride_enqueue p s = Some s'" by (simp add: stride_enqueue_def ins Let_def)
  have st: "p_lab6_stride (procs s' q) = p_lab6_stride (procs s q)" for q
    using s' by (auto simp: stride_enqueue_def ins Let_def split: if_splits)
  have "unat (proc_num (run_q s) + 1) = card (insert p A)"
    using assms(1,2) c pool_finite [OF pl] by (simp add: stride_rep_def unat_word_ariths)
  moreover have "pools s' = h" "lab6_run_pool (run_q s') = a" "proc_num (run_q s') = proc_num (run_q s) + 1"
    using s' by (auto simp: stride_enqueue_def ins Let_def split: if_splits)
  moreover have "\<forall>q\<in>insert p A. p_rq (procs s' q)"
    using s' assms(1) by (auto simp: stride_enqueue_def ins Let_def stride_rep_def split: if_splits)
  moreover have "insert p A \<subseteq> stride_window (procs s') b (unat BIG_STRIDE)"
    using b by (auto simp: stride_window_def st)
  ultimately have "stride_rep (insert p A) s'"
    using pool_stride_cong [OF _ pl', of "procs s'"] st by (auto simp: stride_rep_def)
  moreover have "sched_frame {p} s s'"
    using s' by (auto simp: stride_enqueue_def ins Let_def sched_frame_def core_eq_def upd_proc_def split: if_splits)
  ultimately show ?thesis using s' st by blast
qed

lemma stride_dequeue_ok:
  assumes "stride_rep A s" "p \<in> A"
  shows "\<exists>s'. stride_dequeue p s = Some s' \<and> stride_rep (A - {p}) s' \<and> sched_frame {p} s s'"
proof -
  from assms(1) obtain b where b: "A \<subseteq> stride_window (procs s) b (unat BIG_STRIDE)"
    and pl: "pool proc_stride_comp_f (procs s) (pools s) (lab6_run_pool (run_q s)) A"
    and n: "unat (proc_num (run_q s)) = card A" and r: "\<forall>p\<in>A. p_rq (procs s p)"
    by (auto simp: stride_rep_def)
  from pool_remove [OF so.key_order_axioms pl assms(2) window_half [OF b]] obtain a h where
    rem: "skew_heap_remove (proc_stride_comp_f (procs s)) (lab6_run_pool (run_q s)) p (pools s) = Some (a, h)"
    and pl': "pool proc_stride_comp_f (procs s) h a (A - {p})" by blast
  have pos: "card A > 0" using assms(2) pool_finite [OF pl] card_gt_0_iff by blast
  then have gt: "proc_num (run_q s) > 0" using n by (metis unat_0 gr0I word_neq_0_conv less_irrefl)
  then have "unat (proc_num (run_q s) - 1) = card (A - {p})"
    using n assms(2) pool_finite [OF pl] by (simp add: unat_minus_one word_gt_0)
  then show ?thesis
    using pl' b r gt assms(2) unfolding stride_dequeue_def rem
    by (auto simp: stride_rep_def sched_frame_def core_eq_def)
qed

lemma window_advance:
  fixes x y b :: u32
  assumes "unat (x - b) \<le> unat BIG_STRIDE" "unat (y - b) \<le> unat BIG_STRIDE" "unat (x - b) \<le> unat (y - b)"
  shows "unat (y - x) \<le> unat BIG_STRIDE"
proof -
  have "y - x = (y - b) - (x - b)" by simp
  then have "unat (y - x) = unat (y - b) - unat (x - b)"
    using unat_sub [of "x - b" "y - b"] assms(3) by (simp add: word_le_nat_alt)
  then show ?thesis using assms by simp
qed

text \<open>The choice of the class: the least stride of the window, which moves on by the pass of its process.\<close>

definition stride_chosen :: "ptr set \<Rightarrow> 'a sched_st_scheme \<Rightarrow> ptr \<Rightarrow> 'a sched_st_scheme \<Rightarrow> bool" where
  "stride_chosen A s p s' \<longleftrightarrow>
     p_lab6_stride (procs s' p) = p_lab6_stride (procs s p) + stride_pass (procs s p) \<and>
     (\<forall>q. q \<noteq> p \<longrightarrow> p_lab6_stride (procs s' q) = p_lab6_stride (procs s q)) \<and>
     (\<forall>b. A \<subseteq> stride_window (procs s) b (unat BIG_STRIDE) \<longrightarrow>
       (\<forall>q\<in>A. unat (p_lab6_stride (procs s p) - b) \<le> unat (p_lab6_stride (procs s q) - b)))"

text \<open>
  Picking and dequeuing: the chosen process has the least stride of the window, its
  own stride moves on by its pass, and afterwards all strides, its own included, lie
  in the window that starts at the old stride of the chosen process.
\<close>

lemma stride_pick_ok:
  assumes "stride_rep A s" "A \<noteq> {}"
  shows "\<exists>p s1 s2. stride_pick_next s = (Some p, s1) \<and> p \<in> A \<and> stride_dequeue p s1 = Some s2 \<and>
    stride_rep (A - {p}) s2 \<and> sched_frame {p} s s2 \<and>
    A \<subseteq> stride_window (procs s2) (p_lab6_stride (procs s p)) (unat BIG_STRIDE) \<and>
    stride_chosen A s p s2"
proof -
  from assms(1) obtain b0 where b0: "A \<subseteq> stride_window (procs s) b0 (unat BIG_STRIDE)"
    and pl: "pool proc_stride_comp_f (procs s) (pools s) (lab6_run_pool (run_q s)) A"
    and n: "unat (proc_num (run_q s)) = card A" and r: "\<forall>p\<in>A. p_rq (procs s p)"
    by (auto simp: stride_rep_def)
  from assms(2) pl obtain p where p: "lab6_run_pool (run_q s) = Some p"
    using pool_empty [of proc_stride_comp_f "procs s" "pools s" _ A] by (cases "lab6_run_pool (run_q s)") auto
  note pl = pl [unfolded p]
  have pA: "p \<in> A" using pl by (rule pool_root_mem)
  have least: "unat (p_lab6_stride (procs s p) - b) \<le> unat (p_lab6_stride (procs s q) - b)"
    if b: "A \<subseteq> stride_window (procs s) b (unat BIG_STRIDE)" and q: "q \<in> A" for b q
    using pool_min [OF so.key_order_axioms pl window_half [OF b] q]
      comp_f_window [OF subsetD [OF b q] subsetD [OF b pA]] by (simp add: unat_BIG_STRIDE not_less)
  define s1 where "s1 = upd_proc p (\<lambda>p. p\<lparr>p_lab6_stride := p_lab6_stride p + stride_pass p\<rparr>) s"
  have pick: "stride_pick_next s = (Some p, s1)" by (simp add: stride_pick_next_def p s1_def)
  have "\<forall>x\<in>A - {p}. \<forall>y\<in>A - {p}. proc_stride_comp_f (procs s1) x y = proc_stride_comp_f (procs s) x y"
    by (simp add: s1_def proc_stride_comp_f_def)
  from pool_remove_root [where cf = proc_stride_comp_f and k = "procs s" and k' = "procs s1", OF so.key_order_axioms pl window_half [OF b0] this] obtain a h where
    rem: "skew_heap_remove (proc_stride_comp_f (procs s1)) (Some p) p (pools s) = Some (a, h)"
    and pl': "pool proc_stride_comp_f (procs s1) h a (A - {p})" by blast
  have "card A > 0" using assms(2) pool_finite [OF pl] card_gt_0_iff by blast
  then have gt: "proc_num (run_q s) > 0" using n by (metis unat_0 gr0I word_neq_0_conv less_irrefl)
  have num: "unat (proc_num (run_q s) - 1) = card (A - {p})"
    using n gt pA pool_finite [OF pl] by (simp add: unat_minus_one word_gt_0)
  define s2 where "s2 = s1\<lparr>pools := h, run_q := (run_q s1)\<lparr>lab6_run_pool := a, proc_num := proc_num (run_q s1) - 1\<rparr>\<rparr>"
  have deq: "stride_dequeue p s1 = Some s2"
    using gt r pA rem by (simp add: stride_dequeue_def s2_def s1_def p)
  have w: "A \<subseteq> stride_window (procs s2) (p_lab6_stride (procs s p)) (unat BIG_STRIDE)"
    using window_advance [OF _ _ least [OF b0]] b0 pA stride_pass_le
    by (auto simp: stride_window_def s2_def s1_def)
  have "stride_rep (A - {p}) s2"
    using pl' num w r by (auto simp: stride_rep_def s2_def s1_def)
  moreover have "sched_frame {p} s s2"
    by (auto simp: sched_frame_def core_eq_def s2_def s1_def upd_proc_def)
  ultimately show ?thesis
    using pick pA deq w least by (auto simp: s2_def s1_def stride_chosen_def)
qed

definition default_sched_class :: "'a sched_st_scheme sched_class" where
  "default_sched_class = \<lparr>sc_init = stride_init, sc_enqueue = stride_enqueue,
     sc_dequeue = stride_dequeue, sc_pick_next = stride_pick_next, sc_proc_tick = stride_proc_tick\<rparr>"

end
