(* ===== verification/Sched.thy ===== *)
theory Sched
  imports Stride
begin

text \<open>
  \<^verbatim>\<open>kern/schedule/sched.c\<close>: the core scheduler on top of a scheduling class, the
  timer list, and the two entry points of the KPU task controller.  The core
  scheduler's invariant is that the run queue holds exactly the runnable
  processes other than the running one and the idle process; it is proved for
  every class that meets the contract \<open>scheduling_class\<close>, and the stride class
  does.
\<close>

section \<open>The core scheduler\<close>

definition sched_class_enqueue ::
  "'a sched_st_scheme sched_class \<Rightarrow> ptr \<Rightarrow> 'a sched_st_scheme \<Rightarrow> 'a sched_st_scheme option" where
  "sched_class_enqueue C proc s = (if proc \<noteq> idleproc s then sc_enqueue C proc s else Some s)"

definition sched_class_dequeue ::
  "'a sched_st_scheme sched_class \<Rightarrow> ptr \<Rightarrow> 'a sched_st_scheme \<Rightarrow> 'a sched_st_scheme option" where
  "sched_class_dequeue C proc s = sc_dequeue C proc s"

definition sched_class_pick_next ::
  "'a sched_st_scheme sched_class \<Rightarrow> 'a sched_st_scheme \<Rightarrow> ptr option \<times> 'a sched_st_scheme" where
  "sched_class_pick_next C s = sc_pick_next C s"

definition sched_class_proc_tick ::
  "'a sched_st_scheme sched_class \<Rightarrow> ptr \<Rightarrow> 'a sched_st_scheme \<Rightarrow> 'a sched_st_scheme" where
  "sched_class_proc_tick C proc s =
     (if proc \<noteq> idleproc s then sc_proc_tick C proc s
      else upd_proc proc (\<lambda>p. p\<lparr>p_need_resched := True\<rparr>) s)"

definition sched_init ::
  "'a sched_st_scheme sched_class \<Rightarrow> 'a sched_st_scheme \<Rightarrow> 'a sched_st_scheme" where
  "sched_init C s =
     sc_init C (s\<lparr>timer_list := [], run_q := (run_q s)\<lparr>max_time_slice := MAX_TIME_SLICE\<rparr>\<rparr>)"

definition wakeup_proc ::
  "'a sched_st_scheme sched_class \<Rightarrow> ptr \<Rightarrow> 'a sched_st_scheme \<Rightarrow> 'a sched_st_scheme option" where
  "wakeup_proc C proc s = do {
     kassert (p_state (procs s proc) \<noteq> PROC_ZOMBIE);
     if p_state (procs s proc) \<noteq> PROC_RUNNABLE
     then (let s1 = upd_proc proc (\<lambda>p. p\<lparr>p_state := PROC_RUNNABLE, p_wait_state := 0\<rparr>) s
           in if Some proc \<noteq> current s1 then sched_class_enqueue C proc s1 else Some s1)
     else Some s
   }"

text \<open>
  \<^verbatim>\<open>proc_run\<close> (\<^verbatim>\<open>kern/process/proc.c\<close>): the page table register is loaded and the
  processor continues as the new process.
\<close>

definition proc_run :: "ptr \<Rightarrow> 'a sched_st_scheme \<Rightarrow> 'a sched_st_scheme" where
  "proc_run proc s =
     (if Some proc \<noteq> current s
      then s\<lparr>current := Some proc, cr3_reg := p_cr3 (procs s proc)\<rparr> else s)"

lemma proc_run_simps [simp]:
  "procs (proc_run p s) = procs s" "current (proc_run p s) = Some p" "idleproc (proc_run p s) = idleproc s"
  "run_q (proc_run p s) = run_q s" "pools (proc_run p s) = pools s" "timers (proc_run p s) = timers s"
  "timer_list (proc_run p s) = timer_list s" "kpu_task_ctrl_proc (proc_run p s) = kpu_task_ctrl_proc s"
  "(if Some p \<noteq> current s then proc_run p s else s) = proc_run p s"
  by (auto simp: proc_run_def)

definition schedule ::
  "'a sched_st_scheme sched_class \<Rightarrow> 'a sched_st_scheme \<Rightarrow> 'a sched_st_scheme option" where
  "schedule C s = do {
     cur \<leftarrow> current s;
     let s1 = upd_proc cur (\<lambda>p. p\<lparr>p_need_resched := False\<rparr>) s;
     s2 \<leftarrow> (if p_state (procs s1 cur) = PROC_RUNNABLE then sched_class_enqueue C cur s1 else Some s1);
     let (nx, s3) = sched_class_pick_next C s2;
     s4 \<leftarrow> (case nx of Some n \<Rightarrow> sched_class_dequeue C n s3 | None \<Rightarrow> Some s3);
     let n = (case nx of Some n \<Rightarrow> n | None \<Rightarrow> idleproc s4);
     let s5 = upd_proc n (\<lambda>p. p\<lparr>p_runs := p_runs p + 1\<rparr>) s4;
     Some (if Some n \<noteq> current s5 then proc_run n s5 else s5)
   }"

section \<open>Run-queue invariant\<close>

definition runnable_set :: "'a sched_st_scheme \<Rightarrow> ptr set" where
  "runnable_set s = {p. p_state (procs s p) = PROC_RUNNABLE \<and> Some p \<noteq> current s \<and> p \<noteq> idleproc s}"

definition ready_set :: "'a sched_st_scheme \<Rightarrow> ptr set" where
  "ready_set s = {p. p_state (procs s p) = PROC_RUNNABLE \<and> p \<noteq> idleproc s}"

text \<open>
  The contract of a scheduling class: \<open>rep A s\<close> says that the run queue of \<open>s\<close> holds
  the processes \<open>A\<close>, \<open>fits A s p\<close> that \<open>p\<close> may join them, and \<open>chosen A s p s'\<close> what the
  class promises of its choice \<open>p\<close> and of the state after it.
\<close>

locale scheduling_class =
  fixes C :: "'a sched_st_scheme sched_class"
    and rep :: "ptr set \<Rightarrow> 'a sched_st_scheme \<Rightarrow> bool"
    and fits :: "ptr set \<Rightarrow> 'a sched_st_scheme \<Rightarrow> ptr \<Rightarrow> bool"
    and chosen :: "ptr set \<Rightarrow> 'a sched_st_scheme \<Rightarrow> ptr \<Rightarrow> 'a sched_st_scheme \<Rightarrow> bool"
  assumes init_rep: "rep {} (sc_init C s)"
    and init_frame: "sched_frame {} s (sc_init C s)"
    and enqueue_ok: "rep A s \<Longrightarrow> p \<notin> A \<Longrightarrow> fits A s p \<Longrightarrow>
      \<exists>s'. sc_enqueue C p s = Some s' \<and> rep (insert p A) s' \<and> sched_frame {p} s s' \<and>
        (\<forall>q. p_lab6_stride (procs s' q) = p_lab6_stride (procs s q))"
    and pick_empty: "rep {} s \<Longrightarrow> sc_pick_next C s = (None, s)"
    and pick_ok: "rep A s \<Longrightarrow> A \<noteq> {} \<Longrightarrow> \<exists>p s1 s2. sc_pick_next C s = (Some p, s1) \<and> p \<in> A \<and>
      sc_dequeue C p s1 = Some s2 \<and> rep (A - {p}) s2 \<and> fits (A - {p}) s2 p \<and> sched_frame {p} s s2 \<and>
      chosen A s p s2"
    and tick_ok: "rep A s \<Longrightarrow> rep A (sc_proc_tick C p s) \<and> sched_frame {p} s (sc_proc_tick C p s)"
    and rep_cong: "rep A s \<Longrightarrow> run_q s' = run_q s \<Longrightarrow> pools s' = pools s \<Longrightarrow>
      (\<And>p. p_lab6_stride (procs s' p) = p_lab6_stride (procs s p) \<and> p_rq (procs s' p) = p_rq (procs s p)) \<Longrightarrow>
      rep A s'"
    and fits_cong: "fits A s p \<Longrightarrow>
      (\<And>p. p_lab6_stride (procs s' p) = p_lab6_stride (procs s p)) \<Longrightarrow> fits A s' p"
    and chosen_cong: "chosen A s p t \<Longrightarrow> (\<And>q. p_lab6_stride (procs s' q) = p_lab6_stride (procs s q) \<and>
        p_lab6_priority (procs s' q) = p_lab6_priority (procs s q)) \<Longrightarrow>
      (\<And>q. p_lab6_stride (procs t' q) = p_lab6_stride (procs t q)) \<Longrightarrow> chosen A s' p t'"
begin

lemma rep_frame:
  assumes "rep A s" "run_q s' = run_q s" "pools s' = pools s"
    "\<And>p. p_lab6_stride (procs s' p) = p_lab6_stride (procs s p)"
    "\<And>p. p_rq (procs s' p) = p_rq (procs s p)"
  shows "rep A s'"
  using rep_cong [OF assms(1-3)] assms(4,5) by blast

lemma runnable_frame: "sched_frame P s s' \<Longrightarrow> runnable_set s' = runnable_set s"
  by (simp add: runnable_set_def sched_frameD sched_frame_core)

lemma wakeup_ok:
  assumes "rep (runnable_set s) s" "p_state (procs s p) \<noteq> PROC_ZOMBIE"
    and "p_state (procs s p) \<noteq> PROC_RUNNABLE \<Longrightarrow> Some p \<noteq> current s \<Longrightarrow> p \<noteq> idleproc s \<Longrightarrow>
      fits (runnable_set s) s p"
  shows "\<exists>s'. wakeup_proc C p s = Some s' \<and> rep (runnable_set s') s' \<and>
    p_state (procs s' p) = PROC_RUNNABLE \<and>
    p_wait_state (procs s' p) = (if p_state (procs s p) = PROC_RUNNABLE then p_wait_state (procs s p) else 0) \<and>
    current s' = current s \<and> idleproc s' = idleproc s \<and> timers s' = timers s \<and>
    timer_list s' = timer_list s \<and> (\<forall>q. q \<noteq> p \<longrightarrow> procs s' q = procs s q)"
proof (cases "p_state (procs s p) = PROC_RUNNABLE")
  case True
  then show ?thesis using assms(1) by (simp add: wakeup_proc_def)
next
  case False
  let ?s1 = "upd_proc p (\<lambda>p. p\<lparr>p_state := PROC_RUNNABLE, p_wait_state := 0\<rparr>) s"
  have r1: "rep (runnable_set s) ?s1"
    by (rule rep_frame [OF assms(1)]) auto
  have set1: "runnable_set ?s1 = (if Some p \<noteq> current s \<and> p \<noteq> idleproc s
      then insert p (runnable_set s) else runnable_set s)"
    by (auto simp: runnable_set_def)
  show ?thesis
  proof (cases "Some p \<noteq> current s \<and> p \<noteq> idleproc s")
    case True
    have "p \<notin> runnable_set s" using False by (simp add: runnable_set_def)
    moreover have "fits (runnable_set s) ?s1 p"
      by (rule fits_cong [OF assms(3)]) (use False True in auto)
    ultimately obtain s' where s': "sc_enqueue C p ?s1 = Some s'"
      "rep (insert p (runnable_set s)) s'" "sched_frame {p} ?s1 s'"
      using enqueue_ok [OF r1] by blast
    then show ?thesis
      using False True assms(2) set1 runnable_frame [OF s'(3)] sched_frameD [OF s'(3)] sched_frame_core [OF s'(3)]
      by (auto simp: wakeup_proc_def sched_class_enqueue_def)
  next
    case nf: False
    then have "wakeup_proc C p s = Some ?s1" "rep (runnable_set ?s1) ?s1"
      using False assms(2) r1 set1 by (auto simp: wakeup_proc_def sched_class_enqueue_def Let_def)
    then show ?thesis using False by simp
  qed
qed

text \<open>Enqueuing the running process when it is still runnable.\<close>

lemma schedule_enqueue:
  assumes "rep (runnable_set s) s" "current s = Some c"
    and "p_state (procs s c) = PROC_RUNNABLE \<Longrightarrow> c \<noteq> idleproc s \<Longrightarrow> fits (runnable_set s) s c"
  defines "s1 \<equiv> upd_proc c (\<lambda>p. p\<lparr>p_need_resched := False\<rparr>) s"
    and "A \<equiv> ready_set s"
  shows "\<exists>s2. (if p_state (procs s1 c) = PROC_RUNNABLE then sched_class_enqueue C c s1 else Some s1) = Some s2 \<and>
    rep A s2 \<and> sched_frame {c} s s2 \<and> (\<forall>q. p_lab6_stride (procs s2 q) = p_lab6_stride (procs s q))"
proof -
  have r1: "rep (runnable_set s) s1" unfolding s1_def
    by (rule rep_frame [OF assms(1)]) auto
  have f1: "sched_frame {c} s s1"
    by (simp add: s1_def sched_frame_def upd_proc_def core_eq_def)
  show ?thesis
  proof (cases "p_state (procs s c) = PROC_RUNNABLE \<and> c \<noteq> idleproc s")
    case True
    have "fits (runnable_set s) s1 c"
      by (rule fits_cong [OF assms(3)]) (use True in \<open>auto simp: s1_def\<close>)
    then obtain s2 where s2: "sc_enqueue C c s1 = Some s2" "rep (insert c (runnable_set s)) s2"
      "sched_frame {c} s1 s2" "\<forall>q. p_lab6_stride (procs s2 q) = p_lab6_stride (procs s1 q)"
      using enqueue_ok [OF r1, of c] assms(2) by (auto simp: runnable_set_def)
    have "insert c (runnable_set s) = A"
      using True assms(2) by (auto simp: runnable_set_def A_def ready_set_def)
    moreover have "sched_frame {c} s s2"
      using f1 s2(3) by (rule sched_frame_trans)
    ultimately show ?thesis
      using True s2 by (auto simp: sched_class_enqueue_def s1_def)
  next
    case False
    then have "A = runnable_set s" using assms(2) by (auto simp: runnable_set_def A_def ready_set_def)
    then show ?thesis using False r1 f1 by (auto simp: sched_class_enqueue_def s1_def)
  qed
qed

lemma schedule_ok:
  assumes "rep (runnable_set s) s" "current s = Some c"
    and "p_state (procs s c) = PROC_RUNNABLE \<Longrightarrow> c \<noteq> idleproc s \<Longrightarrow> fits (runnable_set s) s c"
  defines "A \<equiv> ready_set s"
  shows "\<exists>s' n. schedule C s = Some s' \<and> current s' = Some n \<and> rep (runnable_set s') s' \<and>
    (if A = {} then n = idleproc s else n \<in> A \<and> fits (runnable_set s') s' n \<and> chosen A s n s') \<and>
    (\<forall>p. p_runs (procs s' p) = p_runs (procs s p) + (if p = n then 1 else 0)) \<and>
    (\<forall>p. p_lab6_priority (procs s' p) = p_lab6_priority (procs s p)) \<and>
    (\<forall>p. p_state (procs s' p) = p_state (procs s p)) \<and> idleproc s' = idleproc s \<and>
    timers s' = timers s \<and> timer_list s' = timer_list s"
proof -
  let ?s1 = "upd_proc c (\<lambda>p. p\<lparr>p_need_resched := False\<rparr>) s"
  obtain s2 where s2: "(if p_state (procs ?s1 c) = PROC_RUNNABLE then sched_class_enqueue C c ?s1
      else Some ?s1) = Some s2" "rep A s2" "sched_frame {c} s s2"
    "\<forall>q. p_lab6_stride (procs s2 q) = p_lab6_stride (procs s q)"
    using schedule_enqueue [OF assms(1-3)] unfolding A_def by blast
  show ?thesis
  proof (cases "A = {}")
    case True
    let ?n = "idleproc s2"
    let ?s5 = "upd_proc ?n (\<lambda>p. p\<lparr>p_runs := p_runs p + 1\<rparr>) s2"
    let ?s' = "proc_run ?n ?s5"
    have ev: "schedule C s = Some ?s'"
      using s2 True pick_empty [of s2] assms(2) unfolding schedule_def by (simp add: sched_class_pick_next_def Let_def del: upd_proc_simps(2))
    note fr = sched_frameD(1-4) [OF s2(3)] sched_frame_core(1,3,15) [OF s2(3)]
    have "runnable_set ?s' = {}"
    proof -
      have "q \<in> A" if "q \<in> runnable_set ?s'" for q
        using that by (auto simp: runnable_set_def A_def ready_set_def fr split: if_splits)
      with True show ?thesis by blast
    qed
    moreover have "rep {} ?s'"
      by (rule rep_frame [of _ s2]) (use s2(2) True in auto)
    ultimately show ?thesis
      using ev True by (auto simp: fr)
  next
    case False
    from pick_ok [OF s2(2) False] obtain n s3 s4 where p: "sc_pick_next C s2 = (Some n, s3)" "n \<in> A"
      "sc_dequeue C n s3 = Some s4" "rep (A - {n}) s4" "fits (A - {n}) s4 n" "sched_frame {n} s2 s4" "chosen A s2 n s4" by blast
    let ?s5 = "upd_proc n (\<lambda>p. p\<lparr>p_runs := p_runs p + 1\<rparr>) s4"
    let ?s' = "proc_run n ?s5"
    have ev: "schedule C s = Some ?s'"
      using s2(1) p assms(2) unfolding schedule_def by (simp add: sched_class_pick_next_def sched_class_dequeue_def Let_def del: upd_proc_simps(2))
    note fr = sched_frameD(1-4) [OF s2(3)] sched_frame_core(1,3,15) [OF s2(3)]
      sched_frameD(1-4) [OF p(6)] sched_frame_core(1,3,15) [OF p(6)]
    have rs: "runnable_set ?s' = A - {n}"
      by (auto simp: runnable_set_def A_def ready_set_def fr)
    have "rep (A - {n}) ?s'"
      by (rule rep_frame [OF p(4)]) auto
    moreover have "fits (A - {n}) ?s' n"
      by (rule fits_cong [OF p(5)]) auto
    moreover have "chosen A s n ?s'"
      by (rule chosen_cong [OF p(7)]) (use s2(4) sched_frame_core(15) [OF s2(3)] in auto)
    ultimately show ?thesis
      using ev p(2) False rs by (auto simp: fr)
  qed
qed

lemma class_tick_ok:
  assumes "rep A s"
  shows "sched_frame {c} s (sched_class_proc_tick C c s) \<and> rep A (sched_class_proc_tick C c s)"
proof (cases "c = idleproc s")
  case True
  have "rep A (upd_proc c (\<lambda>p. p\<lparr>p_need_resched := True\<rparr>) s)"
    by (rule rep_frame [OF assms]) auto
  then show ?thesis
    using True by (simp add: sched_class_proc_tick_def sched_frame_def upd_proc_def core_eq_def)
next
  case False
  then show ?thesis using tick_ok [OF assms] by (simp add: sched_class_proc_tick_def)
qed

end

section \<open>The stride class meets the contract\<close>

interpretation stride: scheduling_class default_sched_class stride_rep stride_fits stride_chosen
proof
  fix A and s :: "'a sched_st_scheme" and p
  show "stride_rep {} (sc_init default_sched_class s)"
    by (simp add: default_sched_class_def stride_init_rep)
  show "sched_frame {} s (sc_init default_sched_class s)"
    by (simp add: default_sched_class_def stride_init_def sched_frame_def)
  show "stride_rep {} s \<Longrightarrow> sc_pick_next default_sched_class s = (None, s)"
    by (auto simp: default_sched_class_def stride_rep_def stride_pick_next_def dest: pool_empty)
next
  fix A and s :: "'a sched_st_scheme" and p
  assume "stride_rep A s" "p \<notin> A" "stride_fits A s p"
  from stride_enqueue_ok [OF this] show "\<exists>s'. sc_enqueue default_sched_class p s = Some s' \<and>
      stride_rep (insert p A) s' \<and> sched_frame {p} s s' \<and>
      (\<forall>q. p_lab6_stride (procs s' q) = p_lab6_stride (procs s q))"
    by (auto simp: default_sched_class_def)
next
  fix A and s :: "'a sched_st_scheme"
  assume r: "stride_rep A s" "A \<noteq> {}"
  have c: "card A \<le> 2 ^ 32 - 1" "finite A"
    using r(1) unsigned_less [of "proc_num (run_q s)", where ?'a = nat] by (auto simp: stride_rep_def dest: pool_finite)
  from stride_pick_ok [OF r] obtain p s1 s2 where p: "stride_pick_next s = (Some p, s1)" "p \<in> A"
    "stride_dequeue p s1 = Some s2" "stride_rep (A - {p}) s2" "sched_frame {p} s s2"
    "A \<subseteq> stride_window (procs s2) (p_lab6_stride (procs s p)) (unat BIG_STRIDE)" "stride_chosen A s p s2" by blast
  have "card (A - {p}) < 2 ^ 32 - 1"
    using c p(2) by (simp add: card_Diff_singleton)
  moreover have "insert p (A - {p}) = A" using p(2) by auto
  ultimately have "stride_fits (A - {p}) s2 p"
    using p(6) by (auto simp: stride_fits_def)
  then show "\<exists>p s1 s2. sc_pick_next default_sched_class s = (Some p, s1) \<and> p \<in> A \<and>
      sc_dequeue default_sched_class p s1 = Some s2 \<and> stride_rep (A - {p}) s2 \<and>
      stride_fits (A - {p}) s2 p \<and> sched_frame {p} s s2 \<and> stride_chosen A s p s2"
    using p by (auto simp: default_sched_class_def)
next
  fix A and s :: "'a sched_st_scheme" and p
  assume r: "stride_rep A s"
  let ?s' = "stride_proc_tick p s"
  have st: "p_lab6_stride (procs ?s' q) = p_lab6_stride (procs s q)" "p_rq (procs ?s' q) = p_rq (procs s q)"
    "run_q ?s' = run_q s" "pools ?s' = pools s" for q
    by (auto simp: stride_proc_tick_def Let_def)
  then have "stride_rep A ?s'"
    using r pool_stride_cong [of A "procs ?s'" "procs s"] by (auto simp: stride_rep_def stride_window_def)
  moreover have "sched_frame {p} s ?s'"
    by (auto simp: stride_proc_tick_def Let_def sched_frame_def upd_proc_def core_eq_def)
  ultimately show "stride_rep A (sc_proc_tick default_sched_class p s) \<and>
      sched_frame {p} s (sc_proc_tick default_sched_class p s)"
    by (simp add: default_sched_class_def)
next
  fix A and s s' :: "'a sched_st_scheme"
  assume "stride_rep A s" "run_q s' = run_q s" "pools s' = pools s"
    "\<And>p. p_lab6_stride (procs s' p) = p_lab6_stride (procs s p) \<and> p_rq (procs s' p) = p_rq (procs s p)"
  then show "stride_rep A s'"
    using pool_stride_cong [of A "procs s'" "procs s"] by (auto simp: stride_rep_def stride_window_def)
next
  fix A and s s' :: "'a sched_st_scheme" and p
  assume "stride_fits A s p" "\<And>p. p_lab6_stride (procs s' p) = p_lab6_stride (procs s p)"
  then show "stride_fits A s' p"
    by (auto simp: stride_fits_def stride_window_def)
next
  fix A and s s' t t' :: "'a sched_st_scheme" and p
  assume "stride_chosen A s p t" "\<And>q. p_lab6_stride (procs s' q) = p_lab6_stride (procs s q) \<and>
      p_lab6_priority (procs s' q) = p_lab6_priority (procs s q)"
    "\<And>q. p_lab6_stride (procs t' q) = p_lab6_stride (procs t q)"
  then show "stride_chosen A s' p t'"
    by (simp add: stride_chosen_def stride_window_def stride_pass_def)
qed

section \<open>Correctness of the scheduler\<close>

lemma stride_rep_empty:
  "lab6_run_pool (run_q s) = None \<Longrightarrow> proc_num (run_q s) = 0 \<Longrightarrow> stride_rep {} s"
  by (auto simp: stride_rep_def pool_def heap_rep_def intro!: exI [of _ Leaf])

lemma stride_rep_single:
  assumes "lab6_run_pool (run_q s) = Some p" "proc_num (run_q s) = 1" "p_rq (procs s p)"
    "sparent (pools s) p = None" "sleft (pools s) p = None" "sright (pools s) p = None"
  shows "stride_rep {p} s"
  using assms by (auto simp: stride_rep_def pool_def heap_rep_def stride_window_def
      intro!: exI [of _ "Node Leaf p Leaf"] exI [of _ "p_lab6_stride (procs s p)"])

lemma example_sets: "runnable_set example_st = {2}" "ready_set example_st = {1, 2}"
  by (auto simp: runnable_set_def ready_set_def example_st_def alloc_proc_init_def split: if_splits)

lemma example_rep: "stride_rep (runnable_set example_st) example_st"
  unfolding example_sets by (rule stride_rep_single) (simp_all add: example_st_def)

lemma example_window: "p_lab6_stride (procs example_st p) = 0"
  by (simp add: example_st_def alloc_proc_init_def)

lemma example_fits: "finite A \<Longrightarrow> card A < 2 ^ 32 - 1 \<Longrightarrow> stride_fits A example_st p"
  by (auto simp: stride_fits_def stride_window_def example_window intro!: exI [of _ 0])

text \<open>
  C3. \<open>schedule\<close> with the stride class: when the run queue holds exactly the runnable
  processes, it does not panic, the run queue holds exactly the runnable processes again,
  the new current process is the runnable process of least stride (the idle process only
  when nothing is runnable), its stride and no other advances by its pass, the next
  call finds its precondition established, and no process changes state.
\<close>

theorem schedule_keeps_run_queue:
  assumes "stride_rep (runnable_set s) s" "current s = Some c"
    and "c \<in> ready_set s \<longrightarrow> stride_fits (runnable_set s) s c"
  shows "\<exists>s' n. schedule default_sched_class s = Some s' \<and> current s' = Some n \<and>
    stride_rep (runnable_set s') s' \<and>
    (if ready_set s = {} then n = idleproc s
     else n \<in> ready_set s \<and> stride_fits (runnable_set s') s' n \<and> stride_chosen (ready_set s) s n s') \<and>
    (\<forall>p. p_runs (procs s' p) = p_runs (procs s p) + (if p = n then 1 else 0)) \<and>
    (\<forall>p. p_state (procs s' p) = p_state (procs s p))"
proof -
  have "stride_fits (runnable_set s) s c" if "p_state (procs s c) = PROC_RUNNABLE" "c \<noteq> idleproc s"
    using that assms(3) by (simp add: ready_set_def)
  from stride.schedule_ok [OF assms(1,2) this] show ?thesis by blast
qed

theorem schedule_keeps_run_queue_witness:
  "\<exists>s' n. schedule default_sched_class example_st = Some s' \<and> current s' = Some n \<and> n \<in> {1, 2} \<and>
    p_runs (procs s' n) = 1"
  using schedule_keeps_run_queue [OF example_rep, of 1] example_fits [of "{2}" 1]
  by (auto simp: example_sets) (auto simp: example_st_def alloc_proc_init_def)

text \<open>
  C4. \<open>wakeup_proc\<close>: a live process becomes runnable and enters the run queue exactly when it is
  neither the running nor the idle process; the run queue again holds exactly the runnable
  processes, and no other process changes.
\<close>

theorem wakeup_proc_keeps_run_queue:
  assumes "stride_rep (runnable_set s) s" "p_state (procs s p) \<noteq> PROC_ZOMBIE"
    and "p_state (procs s p) \<noteq> PROC_RUNNABLE \<longrightarrow> stride_fits (runnable_set s) s p"
  shows "\<exists>s'. wakeup_proc default_sched_class p s = Some s' \<and> stride_rep (runnable_set s') s' \<and>
    p_state (procs s' p) = PROC_RUNNABLE \<and> current s' = current s \<and>
    (\<forall>q. q \<noteq> p \<longrightarrow> procs s' q = procs s q)"
  using stride.wakeup_ok [OF assms(1,2)] assms(3) by auto

theorem wakeup_proc_keeps_run_queue_witness:
  "\<exists>s'. wakeup_proc default_sched_class 3 example_st = Some s' \<and> p_state (procs s' 3) = PROC_RUNNABLE \<and>
    stride_rep (runnable_set s') s'"
  using wakeup_proc_keeps_run_queue [OF example_rep, of 3] example_fits [of "{2}" 3]
  by (auto simp: example_sets) (auto simp: example_st_def alloc_proc_init_def)

section \<open>Proportional share\<close>

text \<open>
  A run of the processor in which every process stays runnable: \<open>k\<close> calls of \<open>schedule\<close>, with the processes that run, in order.
  How often a process runs is counted in this history, because the counter \<^verbatim>\<open>runs\<close> of the process wraps around.
\<close>

fun sched_history :: "nat \<Rightarrow> 'a sched_st_scheme \<Rightarrow> (ptr list \<times> 'a sched_st_scheme) option" where
  "sched_history 0 s = Some ([], s)"
| "sched_history (Suc k) s = do {
     s1 \<leftarrow> schedule default_sched_class s;
     n \<leftarrow> current s1;
     (hist, s2) \<leftarrow> sched_history k s1;
     Some (n # hist, s2)
   }"

text \<open>
  \<open>V p\<close> is the stride of \<open>p\<close> without wrap-around: the 32-bit strides are \<open>b + V p\<close>, and the
  \<open>V p\<close> of the runnable processes differ by at most \<open>BIG_STRIDE\<close>.
\<close>

definition virtual :: "'a sched_st_scheme \<Rightarrow> u32 \<Rightarrow> (ptr \<Rightarrow> nat) \<Rightarrow> bool" where
  "virtual s b V \<longleftrightarrow> (\<forall>p\<in>ready_set s. p_lab6_stride (procs s p) = b + of_nat (V p)) \<and>
     (\<forall>p\<in>ready_set s. \<forall>q\<in>ready_set s. V p \<le> V q + unat BIG_STRIDE)"

lemma virtual_diff:
  assumes "virtual s b V" "p \<in> ready_set s" "q \<in> ready_set s" "V p \<le> V q"
  shows "unat (p_lab6_stride (procs s q) - p_lab6_stride (procs s p)) = V q - V p"
proof -
  have "p_lab6_stride (procs s q) - p_lab6_stride (procs s p) = of_nat (V q - V p)"
    using assms by (simp add: virtual_def of_nat_diff)
  moreover have "V q - V p < 2 ^ 32"
    using assms unat_BIG_STRIDE by (force simp: virtual_def)
  ultimately show ?thesis by (simp add: unat_of_nat)
qed

lemma virtual_window:
  assumes "virtual s b V" "m \<in> ready_set s" "\<And>q. q \<in> ready_set s \<Longrightarrow> V m \<le> V q"
  shows "ready_set s \<subseteq> stride_window (procs s) (p_lab6_stride (procs s m)) (unat BIG_STRIDE)"
proof
  fix q assume q: "q \<in> ready_set s"
  have "V q \<le> V m + unat BIG_STRIDE" using assms(1,2) q by (simp add: virtual_def)
  then show "q \<in> stride_window (procs s) (p_lab6_stride (procs s m)) (unat BIG_STRIDE)"
    using virtual_diff [OF assms(1,2) q assms(3) [OF q]] by (simp add: stride_window_def)
qed

lemma virtual_step:
  assumes v: "virtual s b V" and n: "n \<in> ready_set s" and ch: "stride_chosen (ready_set s) s n s'"
    and same: "ready_set s' = ready_set s"
  shows "virtual s' b (V(n := V n + unat (stride_pass (procs s n))))"
proof -
  let ?m = "Min (V ` ready_set s)"
  obtain m where m: "m \<in> ready_set s" "\<And>q. q \<in> ready_set s \<Longrightarrow> V m \<le> V q"
    using n ex_has_least_nat [of "\<lambda>p. p \<in> ready_set s" n V] by blast
  let ?b = "p_lab6_stride (procs s m)"
  have d: "unat (p_lab6_stride (procs s q) - ?b) = V q - V m" if "q \<in> ready_set s" for q
    using virtual_diff [OF v m(1) that m(2) [OF that]] .
  have "ready_set s \<subseteq> stride_window (procs s) ?b (unat BIG_STRIDE)"
    by (rule virtual_window [OF v m])
  then have "V n - V m \<le> V q - V m" if "q \<in> ready_set s" for q
    using ch n that d by (auto simp: stride_chosen_def)
  then have min: "V n \<le> V q" if "q \<in> ready_set s" for q
    using m(2) n that by (metis le_diff_iff)
  have "V n + unat (stride_pass (procs s n)) \<le> V q + unat BIG_STRIDE" if "q \<in> ready_set s" for q
    using min [OF that] stride_pass_le [of "procs s n"] by linarith
  moreover have "p_lab6_stride (procs s' q) = b + of_nat ((V(n := V n + unat (stride_pass (procs s n)))) q)"
    if "q \<in> ready_set s" for q
    using ch v that by (auto simp: stride_chosen_def virtual_def)
  moreover have "V q \<le> V n + unat (stride_pass (procs s n)) + unat BIG_STRIDE" if "q \<in> ready_set s" for q
    using v n that by (fastforce simp: virtual_def)
  ultimately show ?thesis
    using v unfolding virtual_def same by auto
qed

lemma sched_history_virtual:
  assumes "stride_rep (runnable_set s) s" "current s = Some c" "card (ready_set s) < 2 ^ 32 - 1"
    "finite (ready_set s)" "ready_set s \<noteq> {}" "virtual s b V"
  shows "\<exists>hist s'. sched_history k s = Some (hist, s') \<and> length hist = k \<and> set hist \<subseteq> ready_set s \<and> ready_set s' = ready_set s \<and>
    (\<forall>p. p_runs (procs s' p) = p_runs (procs s p) + of_nat (count_list hist p)) \<and>
    virtual s' b (\<lambda>p. V p + count_list hist p * unat (stride_pass (procs s p)))"
  using assms
proof (induction k arbitrary: s c V)
  case 0
  then show ?case by simp
next
  case (Suc k)
  have "runnable_set s \<subseteq> ready_set s" by (auto simp: runnable_set_def ready_set_def)
  then have crd: "card (runnable_set s) < 2 ^ 32 - 1"
    using card_mono [OF Suc.prems(4)] Suc.prems(3) by (meson le_less_trans)
  obtain m where m: "m \<in> ready_set s" "\<And>q. q \<in> ready_set s \<Longrightarrow> V m \<le> V q"
    using Suc.prems(5) ex_has_least_nat [of "\<lambda>p. p \<in> ready_set s" _ V] by blast
  have "stride_fits (runnable_set s) s c" if "c \<in> ready_set s"
  proof -
    have "insert c (runnable_set s) \<subseteq> stride_window (procs s) (p_lab6_stride (procs s m)) (unat BIG_STRIDE)"
      using that \<open>runnable_set s \<subseteq> ready_set s\<close> virtual_window [OF Suc.prems(6) m] by blast
    then show ?thesis using crd by (auto simp: stride_fits_def)
  qed
  then have f: "stride_fits (runnable_set s) s c" if "p_state (procs s c) = PROC_RUNNABLE" "c \<noteq> idleproc s"
    using that by (simp add: ready_set_def)
  from stride.schedule_ok [OF Suc.prems(1,2) f, unfolded if_not_P [OF Suc.prems(5)]] obtain s1 n where
    s1: "schedule default_sched_class s = Some s1" "current s1 = Some n" "stride_rep (runnable_set s1) s1"
    "n \<in> ready_set s" "stride_chosen (ready_set s) s n s1"
    "\<forall>p. p_runs (procs s1 p) = p_runs (procs s p) + (if p = n then 1 else 0)"
    "\<forall>p. p_lab6_priority (procs s1 p) = p_lab6_priority (procs s p)"
    "\<forall>p. p_state (procs s1 p) = p_state (procs s p)" "idleproc s1 = idleproc s"
    by blast
  have same: "ready_set s1 = ready_set s" using s1(8,9) by (simp add: ready_set_def)
  let ?V = "V(n := V n + unat (stride_pass (procs s n)))"
  have pass: "stride_pass (procs s1 p) = stride_pass (procs s p)" for p
    using s1(7) by (simp add: stride_pass_def)
  from Suc.IH [OF s1(3,2), unfolded same pass,
      OF Suc.prems(3-5) virtual_step [OF Suc.prems(6) s1(4,5) same]] obtain hist s' where
    s': "sched_history k s1 = Some (hist, s')" "length hist = k" "set hist \<subseteq> ready_set s" "ready_set s' = ready_set s"
    "\<forall>p. p_runs (procs s' p) = p_runs (procs s1 p) + of_nat (count_list hist p)"
    "virtual s' b (\<lambda>p. ?V p + count_list hist p * unat (stride_pass (procs s p)))"
    by blast
  have "?V p + count_list hist p * unat (stride_pass (procs s p)) = V p + count_list (n # hist) p * unat (stride_pass (procs s p))" for p
    by simp
  then show ?case using s1(1,2,4,6) s' by (intro exI [of _ "n # hist"] exI [of _ s']) (auto simp: algebra_simps)
qed

text \<open>
  C5. Proportional share.  Let the strides of the runnable processes lie within \<open>BIG_STRIDE\<close> of each other, as they do when \<open>schedule\<close> has
  kept them.  However long these processes compete, \<open>schedule\<close> always succeeds and lets one of them run, and the counters \<open>runs\<close> count modulo \<open>2\<^sup>3\<^sup>2\<close>.
  Weight every run with the pass \<open>BIG_STRIDE / priority\<close> of its process.  Then the initial lead of a process in strides plus its weighted runs
  never drift further apart than \<open>BIG_STRIDE\<close>, although the strides themselves wrap around at 32 bits.  Hence the weighted runs alone
  differ by at most \<open>2 * BIG_STRIDE\<close>, and by at most \<open>BIG_STRIDE\<close> for processes that start with equal strides.
\<close>

theorem stride_proportional_share:
  assumes "stride_rep (runnable_set s) s" "current s = Some c" "finite (ready_set s)"
    "card (ready_set s) < 2 ^ 32 - 1" "ready_set s \<noteq> {}"
    "ready_set s \<subseteq> stride_window (procs s) b (unat BIG_STRIDE)"
  shows "\<exists>hist s'. sched_history k s = Some (hist, s') \<and> length hist = k \<and> set hist \<subseteq> ready_set s \<and>
    (\<forall>p. p_runs (procs s' p) = p_runs (procs s p) + of_nat (count_list hist p)) \<and>
    (\<forall>p\<in>ready_set s. \<forall>q\<in>ready_set s.
      unat (p_lab6_stride (procs s p) - b) + count_list hist p * unat (stride_pass (procs s p))
        \<le> unat (p_lab6_stride (procs s q) - b) + count_list hist q * unat (stride_pass (procs s q)) + unat BIG_STRIDE \<and>
      count_list hist p * unat (stride_pass (procs s p))
        \<le> count_list hist q * unat (stride_pass (procs s q)) + 2 * unat BIG_STRIDE \<and>
      (p_lab6_stride (procs s p) = p_lab6_stride (procs s q) \<longrightarrow>
        count_list hist p * unat (stride_pass (procs s p))
          \<le> count_list hist q * unat (stride_pass (procs s q)) + unat BIG_STRIDE))"
proof -
  have w: "unat (p_lab6_stride (procs s p) - b) \<le> unat BIG_STRIDE" if "p \<in> ready_set s" for p
    using assms(6) that by (auto simp: stride_window_def)
  then have "virtual s b (\<lambda>p. unat (p_lab6_stride (procs s p) - b))"
    using assms(6) by (force simp: virtual_def stride_window_def)
  from sched_history_virtual [OF assms(1,2,4,3,5) this, of k] obtain hist s' where
    h: "sched_history k s = Some (hist, s')" "length hist = k" "set hist \<subseteq> ready_set s" "ready_set s' = ready_set s"
    "\<forall>p. p_runs (procs s' p) = p_runs (procs s p) + of_nat (count_list hist p)"
    and v: "virtual s' b (\<lambda>p. unat (p_lab6_stride (procs s p) - b) + count_list hist p * unat (stride_pass (procs s p)))"
    by blast
  have "unat (p_lab6_stride (procs s p) - b) + count_list hist p * unat (stride_pass (procs s p))
      \<le> unat (p_lab6_stride (procs s q) - b) + count_list hist q * unat (stride_pass (procs s q)) + unat BIG_STRIDE"
    if "p \<in> ready_set s" "q \<in> ready_set s" for p q
    using v that by (simp add: virtual_def h(4))
  then show ?thesis using h(1-3,5) w by (intro exI [of _ hist] exI [of _ s']) fastforce
qed

theorem stride_proportional_share_witness:
  "\<exists>hist s'. sched_history 7 example_st = Some (hist, s') \<and> length hist = 7 \<and>
    count_list hist 1 * unat (stride_pass (procs example_st 1))
      \<le> count_list hist 2 * unat (stride_pass (procs example_st 2)) + unat BIG_STRIDE"
proof -
  have "current example_st = Some 1" by (simp add: example_st_def)
  moreover have "ready_set example_st \<subseteq> stride_window (procs example_st) 0 (unat BIG_STRIDE)"
    by (simp add: stride_window_def example_window example_sets)
  ultimately show ?thesis
    using stride_proportional_share [OF example_rep, of 1 0 7] by (auto simp: example_sets example_window)
qed

end
