(* ===== verification/Timer.thy ===== *)
theory Timer
  imports Sched
begin

text \<open>
  The timer list of \<^verbatim>\<open>kern/schedule/sched.c\<close>.  Every entry holds the ticks that
  remain after its predecessor expires; the lemmas read the list through the
  absolute expiry times and show that adding, deleting and ticking do to those
  what they should.  \<open>run_kpu_task_add\<close> and \<open>run_kpu_task_check\<close> end the file.
\<close>

section \<open>Operations\<close>

definition upd_timer :: "ptr \<Rightarrow> (u32 \<Rightarrow> u32) \<Rightarrow> (ptr \<Rightarrow> timer_t) \<Rightarrow> ptr \<Rightarrow> timer_t" where
  "upd_timer t f tm = tm(t := (tm t)\<lparr>t_expires := f (t_expires (tm t))\<rparr>)"

definition timer_init :: "ptr \<Rightarrow> ptr \<Rightarrow> int \<Rightarrow> 'a sched_st_scheme \<Rightarrow> 'a sched_st_scheme" where
  "timer_init t proc expires s =
     s\<lparr>timers := (timers s)(t := \<lparr>t_expires = word_of_int expires, t_proc = Some proc\<rparr>)\<rparr>"

fun add_timer_walk :: "ptr \<Rightarrow> ptr list \<Rightarrow> (ptr \<Rightarrow> timer_t) \<Rightarrow> ptr list \<times> (ptr \<Rightarrow> timer_t)" where
  "add_timer_walk t [] tm = ([t], tm)"
| "add_timer_walk t (n # ns) tm =
     (if t_expires (tm t) < t_expires (tm n)
      then (t # n # ns, upd_timer n (\<lambda>e. e - t_expires (tm t)) tm)
      else (let (l, tm') = add_timer_walk t ns (upd_timer t (\<lambda>e. e - t_expires (tm n)) tm)
            in (n # l, tm')))"

definition add_timer :: "ptr \<Rightarrow> 'a sched_st_scheme \<Rightarrow> 'a sched_st_scheme option" where
  "add_timer t s = do {
     kassert (t_expires (timers s t) > 0 \<and> t_proc (timers s t) \<noteq> None);
     kassert (t \<notin> set (timer_list s));
     let (l, tm) = add_timer_walk t (timer_list s) (timers s);
     Some (s\<lparr>timer_list := l, timers := tm\<rparr>)
   }"

fun list_succ :: "'a \<Rightarrow> 'a list \<Rightarrow> 'a option" where
  "list_succ x [] = None"
| "list_succ x [y] = None"
| "list_succ x (y # z # zs) = (if x = y then Some z else list_succ x (z # zs))"

definition del_timer :: "ptr \<Rightarrow> 'a sched_st_scheme \<Rightarrow> 'a sched_st_scheme" where
  "del_timer t s =
     (if t \<in> set (timer_list s)
      then (let s1 = (if t_expires (timers s t) \<noteq> 0
                      then (case list_succ t (timer_list s) of None \<Rightarrow> s
                            | Some n \<Rightarrow> s\<lparr>timers := upd_timer n (\<lambda>e. e + t_expires (timers s t)) (timers s)\<rparr>)
                      else s)
            in s1\<lparr>timer_list := remove1 t (timer_list s1)\<rparr>)
      else s)"

fun run_expired ::
  "'a sched_st_scheme sched_class \<Rightarrow> ptr list \<Rightarrow> 'a sched_st_scheme \<Rightarrow> 'a sched_st_scheme option" where
  "run_expired C [] s = Some s"
| "run_expired C (t # ts) s =
     (if t_expires (timers s t) = 0
      then do {
        proc \<leftarrow> t_proc (timers s t);
        kassert (p_wait_state (procs s proc) \<noteq> 0 \<longrightarrow> p_wait_state (procs s proc) AND WT_INTERRUPTED \<noteq> 0);
        s1 \<leftarrow> wakeup_proc C proc s;
        run_expired C ts (del_timer t s1)
      }
      else Some s)"

definition run_timer_list ::
  "'a sched_st_scheme sched_class \<Rightarrow> 'a sched_st_scheme \<Rightarrow> 'a sched_st_scheme option" where
  "run_timer_list C s = do {
     s1 \<leftarrow> (case timer_list s of [] \<Rightarrow> Some s
            | t # ts \<Rightarrow> do {
                kassert (t_expires (timers s t) \<noteq> 0);
                run_expired C (t # ts) (s\<lparr>timers := upd_timer t (\<lambda>e. e - 1) (timers s)\<rparr>)
              });
     Some (case current s1 of None \<Rightarrow> s1 | Some c \<Rightarrow> sched_class_proc_tick C c s1)
   }"

text \<open>The running process sleeps for the KPU, the task controller is woken, and the processor is given up.\<close>

definition run_kpu_task_add ::
  "'a sched_st_scheme sched_class \<Rightarrow> 'a sched_st_scheme \<Rightarrow> 'a sched_st_scheme option" where
  "run_kpu_task_add C s = do {
     cur \<leftarrow> current s;
     let s1 = upd_proc cur (\<lambda>p. p\<lparr>p_state := PROC_SLEEPING, p_wait_state := WT_KPU_INIT\<rparr>) s;
     ctl \<leftarrow> kpu_task_ctrl_proc s1;
     s2 \<leftarrow> wakeup_proc C ctl s1;
     schedule C s2
   }"

definition run_kpu_task_check ::
  "'a sched_st_scheme sched_class \<Rightarrow> 'a sched_st_scheme \<Rightarrow> 'a sched_st_scheme option" where
  "run_kpu_task_check C s = do {
     cur \<leftarrow> current s;
     let s1 = upd_proc cur (\<lambda>p. p\<lparr>p_state := PROC_SLEEPING, p_wait_state := WT_KPU\<rparr>) s;
     ctl \<leftarrow> kpu_task_ctrl_proc s1;
     s2 \<leftarrow> wakeup_proc C ctl s1;
     schedule C s2
   }"

section \<open>Absolute expiry times\<close>

fun expiry :: "nat \<Rightarrow> (ptr \<Rightarrow> timer_t) \<Rightarrow> ptr list \<Rightarrow> (ptr \<times> nat) list" where
  "expiry a tm [] = []"
| "expiry a tm (t # ts) = (let e = a + unat (t_expires (tm t)) in (t, e) # expiry e tm ts)"

definition expiries :: "'a sched_st_scheme \<Rightarrow> (ptr \<times> nat) list" where
  "expiries s = expiry 0 (timers s) (timer_list s)"

lemma upd_timer_simps [simp]:
  "t_expires (upd_timer t f tm u) = (if u = t then f (t_expires (tm u)) else t_expires (tm u))"
  "t_proc (upd_timer t f tm u) = t_proc (tm u)"
  by (auto simp: upd_timer_def)

lemma upd_timer_other [simp]: "u \<noteq> t \<Longrightarrow> upd_timer t f tm u = tm u"
  by (simp add: upd_timer_def)

lemma expiry_cong: "(\<And>t. t \<in> set ts \<Longrightarrow> t_expires (tm' t) = t_expires (tm t)) \<Longrightarrow> expiry a tm' ts = expiry a tm ts"
  by (induction ts arbitrary: a) (auto simp: Let_def)

lemma expiry_fst [simp]: "map fst (expiry a tm ts) = ts"
  by (induction ts arbitrary: a) (auto simp: Let_def)

lemma expiry_ge: "(t, e) \<in> set (expiry a tm ts) \<Longrightarrow> a \<le> e"
  by (induction ts arbitrary: a) (auto simp: Let_def, force)

lemma expiry_sorted: "sorted (map snd (expiry a tm ts))"
  by (induction ts arbitrary: a) (auto simp: Let_def dest: expiry_ge)

text \<open>Inserting after every entry that expires no later.\<close>

definition expiry_insert :: "ptr \<Rightarrow> nat \<Rightarrow> (ptr \<times> nat) list \<Rightarrow> (ptr \<times> nat) list" where
  "expiry_insert t e xs = takeWhile (\<lambda>x. snd x \<le> e) xs @ (t, e) # dropWhile (\<lambda>x. snd x \<le> e) xs"

lemma add_timer_walk_expiry:
  assumes "add_timer_walk t ts tm = (l, tm')" "t \<notin> set ts" "distinct ts"
  shows "expiry a tm' l = expiry_insert t (a + unat (t_expires (tm t))) (expiry a tm ts) \<and>
    (\<forall>u. u \<notin> set (t # ts) \<longrightarrow> tm' u = tm u) \<and> (\<forall>u. t_proc (tm' u) = t_proc (tm u))"
  using assms
proof (induction t ts tm arbitrary: l a rule: add_timer_walk.induct)
  case (1 t tm)
  then show ?case by (auto simp: expiry_insert_def)
next
  case (2 t n ns tm)
  show ?case
  proof (cases "t_expires (tm t) < t_expires (tm n)")
    case True
    have sub: "unat (t_expires (tm n) - t_expires (tm t)) = unat (t_expires (tm n)) - unat (t_expires (tm t))"
      "unat (t_expires (tm t)) < unat (t_expires (tm n))"
      using True by (simp_all add: unat_sub word_less_nat_alt word_le_nat_alt)
    have l: "l = t # n # ns" "tm' = upd_timer n (\<lambda>e. e - t_expires (tm t)) tm"
      using 2 True by auto
    have "expiry b tm' ns = expiry b tm ns" for b
      using 2(4) by (intro expiry_cong) (auto simp: l)
    then show ?thesis using 2(3) sub by (auto simp: l expiry_insert_def Let_def)
  next
    case False
    let ?tm = "upd_timer t (\<lambda>e. e - t_expires (tm n)) tm"
    have sub: "unat (t_expires (tm t) - t_expires (tm n)) = unat (t_expires (tm t)) - unat (t_expires (tm n))"
      "unat (t_expires (tm n)) \<le> unat (t_expires (tm t))"
      using False by (simp_all add: unat_sub word_le_nat_alt not_less)
    obtain l' where w: "add_timer_walk t ns ?tm = (l', tm')" "l = n # l'"
      using 2(2) False by (auto split: prod.splits)
    have IH: "expiry b tm' l' = expiry_insert t (b + unat (t_expires (?tm t))) (expiry b ?tm ns)"
      "\<forall>u. u \<notin> set (t # ns) \<longrightarrow> tm' u = ?tm u" "\<forall>u. t_proc (tm' u) = t_proc (?tm u)" for b
      using 2(1) [OF False w(1)] 2(3,4) by auto
    have "expiry b ?tm ns = expiry b tm ns" for b
      using 2(3) by (intro expiry_cong) auto
    then show ?thesis
      using IH 2(3,4) sub w(2) by (auto simp: expiry_insert_def Let_def)
  qed
qed

lemma list_succ_mem: "list_succ x xs = Some y \<Longrightarrow> y \<in> set xs"
  by (induction x xs rule: list_succ.induct) (auto split: if_splits)

lemma del_timer_expiry:
  assumes "distinct ts" "t \<in> set ts" "\<forall>x\<in>set (expiry a tm ts). snd x < 2 ^ 32"
  shows "expiry a (if t_expires (tm t) \<noteq> 0 then (case list_succ t ts of None \<Rightarrow> tm
      | Some n \<Rightarrow> upd_timer n (\<lambda>e. e + t_expires (tm t)) tm) else tm) (remove1 t ts)
    = filter (\<lambda>x. fst x \<noteq> t) (expiry a tm ts)"
    (is "expiry a (?tm ts) _ = _")
  using assms
proof (induction t ts arbitrary: a rule: list_succ.induct)
  case (3 x y z zs)
  have nf: "filter (\<lambda>p. fst p \<noteq> u) (expiry b tm us) = expiry b tm us" if "u \<notin> set us" for b us u
    using that expiry_fst [of b tm us] by (intro filter_True) (metis image_eqI list.set_map)
  show ?case
  proof (cases "x = y")
    case True
    have "a + unat (t_expires (tm y)) + unat (t_expires (tm z)) < 2 ^ 32"
      using "3.prems"(3) by (auto simp: Let_def)
    then have "unat (t_expires (tm z) + t_expires (tm y)) = unat (t_expires (tm z)) + unat (t_expires (tm y))"
      by (simp add: unat_word_ariths)
    moreover have "expiry b (upd_timer z (\<lambda>e. e + t_expires (tm y)) tm) zs = expiry b tm zs" for b
      using "3.prems"(1) by (intro expiry_cong) auto
    ultimately show ?thesis
      using True "3.prems"(1) nf [of y zs] by (auto simp: Let_def ac_simps)
  next
    case False
    define T where "T = (if t_expires (tm x) \<noteq> 0 then (case list_succ x (z # zs) of None \<Rightarrow> tm
      | Some n \<Rightarrow> upd_timer n (\<lambda>e. e + t_expires (tm x)) tm) else tm)"
    have T: "(if t_expires (tm x) \<noteq> 0 then (case list_succ x (y # z # zs) of None \<Rightarrow> tm
      | Some n \<Rightarrow> upd_timer n (\<lambda>e. e + t_expires (tm x)) tm) else tm) = T"
      using False by (simp add: T_def)
    have y: "t_expires (T y) = t_expires (tm y)"
      using "3.prems"(1) list_succ_mem [of x "z # zs"] by (auto simp: T_def split: option.splits)
    have "expiry (a + unat (t_expires (tm y))) T (remove1 x (z # zs))
        = filter (\<lambda>p. fst p \<noteq> x) (expiry (a + unat (t_expires (tm y))) tm (z # zs))"
      unfolding T_def using False "3.prems" by (intro "3.IH") (auto simp: Let_def)
    moreover have "remove1 x (y # z # zs) = y # remove1 x (z # zs)"
      using False by simp
    ultimately show ?thesis
      unfolding T using False y by (simp add: Let_def del: remove1.simps(2))
  qed
qed auto

lemma expiry_shift: "k \<le> a \<Longrightarrow> expiry (a - k) tm ts = map (apsnd (\<lambda>e. e - k)) (expiry a tm ts)"
  by (induction ts arbitrary: a) (auto simp: Let_def)

section \<open>Timer ticks\<close>

definition timer_procs :: "'a sched_st_scheme \<Rightarrow> ptr set" where
  "timer_procs s = {p. \<exists>t\<in>set (timer_list s). t_proc (timers s t) = Some p}"

text \<open>What the owners of timers keep: they sleep interruptibly, or not at all, and are not dead.\<close>

definition timers_ok :: "'a sched_st_scheme \<Rightarrow> bool" where
  "timers_ok s \<longleftrightarrow> distinct (timer_list s) \<and> (\<forall>t\<in>set (timer_list s). t_proc (timers s t) \<noteq> None) \<and>
     (\<forall>p\<in>timer_procs s. p_state (procs s p) \<noteq> PROC_ZOMBIE \<and>
       (p_wait_state (procs s p) \<noteq> 0 \<longrightarrow> p_wait_state (procs s p) AND WT_INTERRUPTED \<noteq> 0))"

definition strides_close :: "ptr set \<Rightarrow> 'a sched_st_scheme \<Rightarrow> bool" where
  "strides_close W s \<longleftrightarrow> finite W \<and> card W < 2 ^ 32 - 1 \<and>
     (\<exists>b. W \<subseteq> stride_window (procs s) b (unat BIG_STRIDE))"

lemma strides_close_fits: "strides_close W s \<Longrightarrow> insert p A \<subseteq> W \<Longrightarrow> stride_fits A s p"
  unfolding strides_close_def stride_fits_def by (meson card_mono insert_subset le_less_trans order_trans)

lemma del_expired:
  assumes "timer_list s = t # ts" "t_expires (timers s t) = 0"
  shows "del_timer t s = s\<lparr>timer_list := ts\<rparr>"
  using assms by (simp add: del_timer_def)

lemma wakeup_stride:
  assumes "stride_rep (runnable_set s) s" "p_state (procs s p) \<noteq> PROC_ZOMBIE"
    "strides_close W s" "insert p (runnable_set s) \<subseteq> W"
  obtains s' where "wakeup_proc default_sched_class p s = Some s'" "stride_rep (runnable_set s') s'"
    "p_state (procs s' p) = PROC_RUNNABLE"
    "p_wait_state (procs s' p) = (if p_state (procs s p) = PROC_RUNNABLE then p_wait_state (procs s p) else 0)"
    "current s' = current s" "idleproc s' = idleproc s" "timers s' = timers s" "timer_list s' = timer_list s"
    "\<forall>q. q \<noteq> p \<longrightarrow> procs s' q = procs s q" "p_lab6_stride (procs s' p) = p_lab6_stride (procs s p)"
proof -
  have "\<exists>s'. wakeup_proc default_sched_class p s = Some s' \<and> stride_rep (runnable_set s') s' \<and>
    p_state (procs s' p) = PROC_RUNNABLE \<and>
    p_wait_state (procs s' p) = (if p_state (procs s p) = PROC_RUNNABLE then p_wait_state (procs s p) else 0) \<and>
    current s' = current s \<and> idleproc s' = idleproc s \<and> timers s' = timers s \<and>
    timer_list s' = timer_list s \<and> (\<forall>q. q \<noteq> p \<longrightarrow> procs s' q = procs s q)"
    by (rule stride.wakeup_ok [OF assms(1,2)]) (rule strides_close_fits [OF assms(3,4)])
  then obtain s' where s': "wakeup_proc default_sched_class p s = Some s'" "stride_rep (runnable_set s') s'"
    "p_state (procs s' p) = PROC_RUNNABLE"
    "p_wait_state (procs s' p) = (if p_state (procs s p) = PROC_RUNNABLE then p_wait_state (procs s p) else 0)"
    "current s' = current s" "idleproc s' = idleproc s" "timers s' = timers s" "timer_list s' = timer_list s"
    "\<forall>q. q \<noteq> p \<longrightarrow> procs s' q = procs s q" by blast
  moreover have "p_lab6_stride (procs s' p) = p_lab6_stride (procs s p)"
    using s'(1) by (auto simp: wakeup_proc_def sched_class_enqueue_def default_sched_class_def
        stride_enqueue_def bind_Some_iff Let_def split: if_splits)
  ultimately show thesis by (rule that)
qed

lemma run_expired_ok:
  assumes "timer_list s = ts" "timers_ok s" "stride_rep (runnable_set s) s"
    "strides_close W s" "runnable_set s \<union> timer_procs s \<subseteq> W"
  shows "\<exists>s'. run_expired default_sched_class ts s = Some s' \<and> timers_ok s' \<and>
    stride_rep (runnable_set s') s' \<and> expiries s' = dropWhile (\<lambda>x. snd x = 0) (expiries s) \<and>
    timers s' = timers s \<and> current s' = current s \<and> idleproc s' = idleproc s \<and>
    (\<forall>p. p_state (procs s p) = PROC_RUNNABLE \<longrightarrow> p_state (procs s' p) = PROC_RUNNABLE) \<and>
    (\<forall>x\<in>set (takeWhile (\<lambda>x. snd x = 0) (expiries s)). \<forall>p. t_proc (timers s (fst x)) = Some p \<longrightarrow>
      p_state (procs s' p) = PROC_RUNNABLE)"
  using assms
proof (induction ts arbitrary: s)
  case Nil
  then show ?case by (auto simp: expiries_def)
next
  case (Cons t ts)
  show ?case
  proof (cases "t_expires (timers s t) = 0")
    case False
    then have "unat (t_expires (timers s t)) \<noteq> 0" by (simp add: unat_eq_zero)
    then show ?thesis using Cons.prems False by (auto simp: expiries_def Let_def)
  next
    case True
    obtain p where p: "t_proc (timers s t) = Some p" "p \<in> timer_procs s"
      using Cons.prems(1,2) by (auto simp: timers_ok_def timer_procs_def)
    have pz: "p_state (procs s p) \<noteq> PROC_ZOMBIE"
      "p_wait_state (procs s p) \<noteq> 0 \<longrightarrow> p_wait_state (procs s p) AND WT_INTERRUPTED \<noteq> 0"
      using Cons.prems(2) p(2) by (auto simp: timers_ok_def)
    have ins: "insert p (runnable_set s) \<subseteq> W" using Cons.prems(5) p(2) by auto
    from wakeup_stride [OF Cons.prems(3) pz(1) Cons.prems(4) ins] obtain s1 where
      w: "wakeup_proc default_sched_class p s = Some s1" "stride_rep (runnable_set s1) s1"
      "p_state (procs s1 p) = PROC_RUNNABLE"
      "p_wait_state (procs s1 p) = (if p_state (procs s p) = PROC_RUNNABLE then p_wait_state (procs s p) else 0)"
      "current s1 = current s" "idleproc s1 = idleproc s" "timers s1 = timers s" "timer_list s1 = timer_list s"
      "\<forall>q. q \<noteq> p \<longrightarrow> procs s1 q = procs s q" "p_lab6_stride (procs s1 p) = p_lab6_stride (procs s p)" .
    let ?s2 = "s1\<lparr>timer_list := ts\<rparr>"
    have d: "del_timer t s1 = ?s2"
      using w(7,8) Cons.prems(1) True by (simp add: del_expired)
    have tp: "timer_procs ?s2 \<subseteq> timer_procs s"
      using w(7) Cons.prems(1) by (auto simp: timer_procs_def)
    have q: "q = p \<or> procs s1 q = procs s q" for q using w(9) by blast
    have ok: "timers_ok ?s2"
    proof -
      have "p_state (procs s1 u) \<noteq> PROC_ZOMBIE \<and>
          (p_wait_state (procs s1 u) \<noteq> 0 \<longrightarrow> p_wait_state (procs s1 u) AND WT_INTERRUPTED \<noteq> 0)"
        if "u \<in> timer_procs ?s2" for u
        using q [of u] w(3,4) pz(2) that tp Cons.prems(2) by (auto simp: timers_ok_def split: if_splits)
      then show ?thesis
        using Cons.prems(1,2) w(7) by (simp add: timers_ok_def)
    qed
    have rs: "runnable_set ?s2 = runnable_set s1" by (simp add: runnable_set_def)
    have rsi: "runnable_set s1 \<subseteq> insert p (runnable_set s)"
    proof
      fix u assume "u \<in> runnable_set s1"
      then show "u \<in> insert p (runnable_set s)"
        using q [of u] w(5,6) by (auto simp: runnable_set_def)
    qed
    have st: "p_lab6_stride (procs s1 u) = p_lab6_stride (procs s u)" for u
      using q [of u] w(10) by auto
    have rep: "stride_rep (runnable_set ?s2) ?s2"
      unfolding rs by (rule stride.rep_frame [OF w(2)]) auto
    have cl: "strides_close W ?s2"
      using Cons.prems(4) st by (simp add: strides_close_def stride_window_def)
    have sub: "runnable_set ?s2 \<union> timer_procs ?s2 \<subseteq> W"
      using rs rsi ins tp Cons.prems(5) by auto
    from Cons.IH [OF _ ok rep cl sub] obtain s' where
      IH: "run_expired default_sched_class ts ?s2 = Some s'" "timers_ok s'" "stride_rep (runnable_set s') s'"
      "expiries s' = dropWhile (\<lambda>x. snd x = 0) (expiries ?s2)" "timers s' = timers ?s2"
      "current s' = current ?s2" "idleproc s' = idleproc ?s2"
      "\<forall>p. p_state (procs ?s2 p) = PROC_RUNNABLE \<longrightarrow> p_state (procs s' p) = PROC_RUNNABLE"
      "\<forall>x\<in>set (takeWhile (\<lambda>x. snd x = 0) (expiries ?s2)). \<forall>p. t_proc (timers ?s2 (fst x)) = Some p \<longrightarrow>
        p_state (procs s' p) = PROC_RUNNABLE" by auto
    have ex: "expiries s = (t, 0) # expiries ?s2"
      using Cons.prems(1) True w(7) by (simp add: expiries_def)
    have "run_expired default_sched_class (t # ts) s = Some s'"
      using True p(1) pz(2) w(1) d IH(1) by simp
    moreover have "p_state (procs s u) = PROC_RUNNABLE \<longrightarrow> p_state (procs s' u) = PROC_RUNNABLE" for u
      using IH(8) q [of u] w(3) by auto
    moreover have "p_state (procs s' p) = PROC_RUNNABLE" using IH(8) w(3) by simp
    ultimately show ?thesis
      using IH p(1) w(5,6,7) by (auto simp: ex)
  qed
qed

lemma sorted_takeWhile_eq:
  fixes xs :: "('a \<times> nat) list"
  assumes "sorted (map snd xs)"
  shows "dropWhile (\<lambda>x. snd x = 0) xs = filter (\<lambda>x. snd x \<noteq> 0) xs"
    "takeWhile (\<lambda>x. snd x = 0) xs = filter (\<lambda>x. snd x = 0) xs"
  using assms by (induction xs) (auto, (rule filter_True [symmetric] filter_False [symmetric], force)+)

lemma tick_expiries:
  assumes "timer_list s = t # ts" "t_expires (timers s t) \<noteq> 0" "distinct (t # ts)"
  shows "expiries (s\<lparr>timers := upd_timer t (\<lambda>e. e - 1) (timers s)\<rparr>) = map (apsnd (\<lambda>e. e - 1)) (expiries s)"
proof -
  let ?tm = "upd_timer t (\<lambda>e. e - 1) (timers s)" and ?e = "unat (t_expires (timers s t))"
  have "unat (t_expires (timers s t) - 1) = ?e - 1" "1 \<le> ?e"
    using assms(2) by (simp_all add: unat_minus_one unat_gt_0 Suc_leI)
  moreover have "expiry b ?tm ts = expiry b (timers s) ts" for b
    using assms(3) by (intro expiry_cong) auto
  ultimately show ?thesis
    using expiry_shift [of 1 ?e "timers s" ts] assms(1) by (simp add: expiries_def Let_def)
qed

text \<open>
  C6. One timer tick (\<open>run_timer_list\<close>) on a state whose run queue is consistent:
  it does not panic; exactly the timers with one tick left disappear and every other
  absolute expiry time goes down by one; the owners of the expired timers are
  runnable, no runnable process stops being so, and the run queue again holds exactly the
  runnable processes.
\<close>

theorem run_timer_list_expires:
  assumes "timers_ok s" "stride_rep (runnable_set s) s" "strides_close W s"
    "runnable_set s \<union> timer_procs s \<subseteq> W" "\<forall>x\<in>set (expiries s). 0 < snd x"
  shows "\<exists>s'. run_timer_list default_sched_class s = Some s' \<and>
    expiries s' = map (apsnd (\<lambda>e. e - 1)) (filter (\<lambda>x. snd x \<noteq> 1) (expiries s)) \<and>
    (\<forall>x\<in>set (expiries s'). 0 < snd x) \<and>
    (\<forall>x\<in>set (expiries s). \<forall>p. snd x = 1 \<and> t_proc (timers s (fst x)) = Some p \<longrightarrow>
      p_state (procs s' p) = PROC_RUNNABLE) \<and>
    (\<forall>p. p_state (procs s p) = PROC_RUNNABLE \<longrightarrow> p_state (procs s' p) = PROC_RUNNABLE) \<and>
    timers_ok s' \<and> stride_rep (runnable_set s') s'"
proof -
  let ?n = "\<lambda>s1. case current s1 of None \<Rightarrow> s1 | Some c \<Rightarrow> sched_class_proc_tick default_sched_class c s1"
  obtain s1 where s1: "(case timer_list s of [] \<Rightarrow> Some s | t # ts \<Rightarrow> do {
      kassert (t_expires (timers s t) \<noteq> 0);
      run_expired default_sched_class (t # ts) (s\<lparr>timers := upd_timer t (\<lambda>e. e - 1) (timers s)\<rparr>) }) = Some s1"
    "expiries s1 = map (apsnd (\<lambda>e. e - 1)) (filter (\<lambda>x. snd x \<noteq> 1) (expiries s))" "timers_ok s1"
    "stride_rep (runnable_set s1) s1"
    "\<forall>x\<in>set (expiries s). \<forall>p. snd x = 1 \<and> t_proc (timers s (fst x)) = Some p \<longrightarrow>
      p_state (procs s1 p) = PROC_RUNNABLE"
    "\<forall>p. p_state (procs s p) = PROC_RUNNABLE \<longrightarrow> p_state (procs s1 p) = PROC_RUNNABLE"
  proof (cases "timer_list s")
    case Nil
    then show ?thesis using that [of s] assms by (auto simp: expiries_def)
  next
    case (Cons t ts)
    let ?s0 = "s\<lparr>timers := upd_timer t (\<lambda>e. e - 1) (timers s)\<rparr>"
    have nz: "t_expires (timers s t) \<noteq> 0" and d: "distinct (t # ts)"
      using assms(1,5) Cons by (auto simp: timers_ok_def expiries_def Let_def unat_gt_0)
    have tl: "timer_list ?s0 = t # ts" using Cons by simp
    have ok: "timers_ok ?s0" "timer_procs ?s0 = timer_procs s"
      using assms(1) by (simp_all add: timers_ok_def timer_procs_def)
    have rs: "runnable_set ?s0 = runnable_set s" by (simp add: runnable_set_def)
    have rep: "stride_rep (runnable_set ?s0) ?s0"
      unfolding rs by (rule stride.rep_frame [OF assms(2)]) auto
    have cl: "strides_close W ?s0" "runnable_set ?s0 \<union> timer_procs ?s0 \<subseteq> W"
      using assms(3,4) ok rs by (simp_all add: strides_close_def)
    from run_expired_ok [OF tl ok(1) rep cl] obtain s1 where
      r: "run_expired default_sched_class (t # ts) ?s0 = Some s1" "timers_ok s1" "stride_rep (runnable_set s1) s1"
      "expiries s1 = dropWhile (\<lambda>x. snd x = 0) (expiries ?s0)"
      "\<forall>p. p_state (procs ?s0 p) = PROC_RUNNABLE \<longrightarrow> p_state (procs s1 p) = PROC_RUNNABLE"
      "\<forall>x\<in>set (takeWhile (\<lambda>x. snd x = 0) (expiries ?s0)). \<forall>p. t_proc (timers ?s0 (fst x)) = Some p \<longrightarrow>
        p_state (procs s1 p) = PROC_RUNNABLE" by auto
    note ex = tick_expiries [OF Cons nz d]
    have "sorted (map snd (expiries ?s0))" unfolding expiries_def by (rule expiry_sorted)
    note sw = sorted_takeWhile_eq [OF this]
    show ?thesis
    proof (rule that [of s1])
      show "expiries s1 = map (apsnd (\<lambda>e. e - 1)) (filter (\<lambda>x. snd x \<noteq> 1) (expiries s))"
        using assms(5) unfolding r(4) [unfolded sw(1)] ex filter_map
        by (auto intro!: map_cong filter_cong)
      show "\<forall>x\<in>set (expiries s). \<forall>p. snd x = 1 \<and> t_proc (timers s (fst x)) = Some p \<longrightarrow>
          p_state (procs s1 p) = PROC_RUNNABLE"
        using r(6) [unfolded sw(2)] unfolding ex by (force simp: apsnd_def map_prod_def)
    qed (use r Cons nz in auto)
  qed
  have t: "sched_frame {c} s1 (sched_class_proc_tick default_sched_class c s1) \<and>
      stride_rep (runnable_set s1) (sched_class_proc_tick default_sched_class c s1)" for c
    using stride.class_tick_ok [OF s1(4)] by blast
  then obtain P where f: "sched_frame P s1 (?n s1)" "stride_rep (runnable_set s1) (?n s1)"
    using s1(4) by (cases "current s1") (auto simp: sched_frame_def)
  note fr = sched_frameD(1-5) [OF f(1)] sched_frame_core(1,7) [OF f(1)]
  have "run_timer_list default_sched_class s = Some (?n s1)"
    using s1(1) by (simp add: run_timer_list_def)
  moreover have "expiries (?n s1) = expiries s1" "runnable_set (?n s1) = runnable_set s1" "timer_procs (?n s1) = timer_procs s1"
    by (simp_all add: expiries_def runnable_set_def timer_procs_def fr)
  moreover have "timers_ok (?n s1)"
    using s1(3) calculation(4) by (simp add: timers_ok_def fr)
  moreover have "\<forall>x\<in>set (expiries s1). 0 < snd x"
    using assms(5) unfolding s1(2) by (auto simp: Suc_lessI)
  ultimately show ?thesis
    using s1 f by (simp add: fr)
qed

theorem run_timer_list_expires_witness:
  "\<exists>s'. run_timer_list default_sched_class (example_st\<lparr>timer_list := [7]\<rparr>) = Some s' \<and>
    expiries s' = [] \<and> p_state (procs s' 3) = PROC_RUNNABLE"
proof -
  let ?s = "example_st\<lparr>timer_list := [7]\<rparr>"
  have e: "expiries ?s = [(7, 1)]" "t_proc (timers example_st 7) = Some 3"
    by (simp_all add: expiries_def example_st_def)
  have r: "runnable_set ?s = {2}" using example_sets(1) by (simp add: runnable_set_def)
  have tp: "timer_procs ?s = {3}" by (auto simp: timer_procs_def example_st_def)
  have "timers_ok ?s" unfolding timers_ok_def tp by (simp add: example_st_def alloc_proc_init_def)
  moreover have "stride_rep (runnable_set ?s) ?s"
    unfolding r by (rule stride.rep_frame [OF example_rep [unfolded example_sets]]) auto
  moreover have "strides_close {2, 3} ?s"
    by (auto simp: strides_close_def stride_window_def example_window intro!: exI [of _ 0])
  ultimately show ?thesis
    using run_timer_list_expires [of ?s "{2, 3}"] by (simp add: r tp e) blast
qed

text \<open>
  \<open>add_timer\<close> and \<open>del_timer\<close> on absolute expiry times: adding a timer of \<open>e\<close> ticks inserts
  it with expiry \<open>e\<close> after every timer that expires no later and moves no other expiry; deleting
  one removes it and moves no other expiry, also when the remaining ticks are passed
  to its successor.
\<close>

lemma timer_ops_absolute:
  assumes "distinct (timer_list s)" "\<forall>x\<in>set (expiries s). snd x < 2 ^ 32"
    "t \<notin> set (timer_list s)" "t_expires (timers s t) > 0" "t_proc (timers s t) \<noteq> None"
    "u \<in> set (timer_list s)"
  shows "(\<exists>s'. add_timer t s = Some s' \<and>
      expiries s' = expiry_insert t (unat (t_expires (timers s t))) (expiries s) \<and> procs s' = procs s) \<and>
    expiries (del_timer u s) = filter (\<lambda>x. fst x \<noteq> u) (expiries s) \<and> procs (del_timer u s) = procs s"
proof -
  obtain l tm where w: "add_timer_walk t (timer_list s) (timers s) = (l, tm)" by fastforce
  have "add_timer t s = Some (s\<lparr>timer_list := l, timers := tm\<rparr>)"
    using assms(3-5) w by (simp add: add_timer_def)
  moreover have "expiry 0 tm l = expiry_insert t (unat (t_expires (timers s t))) (expiries s)"
    using add_timer_walk_expiry [OF w assms(3,1), of 0] by (simp add: expiries_def)
  moreover have "timers (del_timer u s) = (if t_expires (timers s u) \<noteq> 0
      then (case list_succ u (timer_list s) of None \<Rightarrow> timers s
        | Some n \<Rightarrow> upd_timer n (\<lambda>e. e + t_expires (timers s u)) (timers s)) else timers s)"
    "timer_list (del_timer u s) = remove1 u (timer_list s)" "procs (del_timer u s) = procs s"
    using assms(6) by (auto simp: del_timer_def Let_def split: option.splits)
  ultimately show ?thesis
    using del_timer_expiry [OF assms(1,6), of 0 "timers s"] assms(2) by (auto simp: expiries_def)
qed

lemma timer_ops_absolute_example:
  "(\<exists>s'. add_timer 9 (example_st\<lparr>timer_list := [7]\<rparr>) = Some s' \<and> expiries s' = [(7, 1), (9, 1)]) \<and>
    expiries (del_timer 7 (example_st\<lparr>timer_list := [7]\<rparr>)) = []"
  using timer_ops_absolute [of "example_st\<lparr>timer_list := [7]\<rparr>" 9 7]
  by (auto simp: expiries_def example_st_def expiry_insert_def)

end
