(* ===== verification/Sync.thy ===== *)
theory Sync
  imports Timer
begin

text \<open>
  \<^verbatim>\<open>kern/sync\<close>: wait queues (\<^verbatim>\<open>wait.c\<close>), semaphores (\<^verbatim>\<open>sem.c\<close>) and monitors
  (\<^verbatim>\<open>monitor.c\<close>) on top of the scheduler.  A blocking call is two definitions, the part
  before \<^verbatim>\<open>schedule()\<close> and the part after it, because other processes run in between.
  The state extends the scheduler's: wait entries, the queues as lists of wait entries,
  and the semaphore values; a semaphore's wait queue has the semaphore's address.
\<close>

record wait_t =
  w_proc :: "ptr option"
  w_flags :: u32
  w_queue :: ptr
  w_linked :: bool

record sync_st = sched_st +
  waits :: "ptr \<Rightarrow> wait_t"
  wqueues :: "ptr \<Rightarrow> ptr list"
  semvals :: "ptr \<Rightarrow> int"

definition upd_wait :: "ptr \<Rightarrow> (wait_t \<Rightarrow> wait_t) \<Rightarrow> 'a sync_st_scheme \<Rightarrow> 'a sync_st_scheme" where
  "upd_wait w f s = s\<lparr>waits := (waits s)(w := f (waits s w))\<rparr>"

section \<open>Wait queues\<close>

definition wait_init :: "ptr \<Rightarrow> ptr \<Rightarrow> 'a sync_st_scheme \<Rightarrow> 'a sync_st_scheme" where
  "wait_init w proc s =
     upd_wait w (\<lambda>x. x\<lparr>w_proc := Some proc, w_flags := WT_INTERRUPTED, w_linked := False\<rparr>) s"

definition wait_queue_init :: "ptr \<Rightarrow> 'a sync_st_scheme \<Rightarrow> 'a sync_st_scheme" where
  "wait_queue_init q s = s\<lparr>wqueues := (wqueues s)(q := [])\<rparr>"

definition wait_queue_add :: "ptr \<Rightarrow> ptr \<Rightarrow> 'a sync_st_scheme \<Rightarrow> 'a sync_st_scheme option" where
  "wait_queue_add q w s = do {
     kassert (\<not> w_linked (waits s w) \<and> w_proc (waits s w) \<noteq> None);
     Some ((upd_wait w (\<lambda>x. x\<lparr>w_queue := q, w_linked := True\<rparr>) s)
             \<lparr>wqueues := (wqueues s)(q := wqueues s q @ [w])\<rparr>)
   }"

definition wait_queue_del :: "ptr \<Rightarrow> ptr \<Rightarrow> 'a sync_st_scheme \<Rightarrow> 'a sync_st_scheme option" where
  "wait_queue_del q w s = do {
     kassert (w_linked (waits s w) \<and> w_queue (waits s w) = q);
     Some ((upd_wait w (\<lambda>x. x\<lparr>w_linked := False\<rparr>) s)
             \<lparr>wqueues := (wqueues s)(q := remove1 w (wqueues s q))\<rparr>)
   }"

definition wait_queue_next :: "ptr \<Rightarrow> ptr \<Rightarrow> 'a sync_st_scheme \<Rightarrow> ptr option option" where
  "wait_queue_next q w s = do {
     kassert (w_linked (waits s w) \<and> w_queue (waits s w) = q);
     Some (list_succ w (wqueues s q))
   }"

definition wait_queue_prev :: "ptr \<Rightarrow> ptr \<Rightarrow> 'a sync_st_scheme \<Rightarrow> ptr option option" where
  "wait_queue_prev q w s = do {
     kassert (w_linked (waits s w) \<and> w_queue (waits s w) = q);
     Some (list_succ w (rev (wqueues s q)))
   }"

definition wait_queue_first :: "ptr \<Rightarrow> 'a sync_st_scheme \<Rightarrow> ptr option" where
  "wait_queue_first q s = (case wqueues s q of [] \<Rightarrow> None | w # _ \<Rightarrow> Some w)"

definition wait_queue_last :: "ptr \<Rightarrow> 'a sync_st_scheme \<Rightarrow> ptr option" where
  "wait_queue_last q s = (case rev (wqueues s q) of [] \<Rightarrow> None | w # _ \<Rightarrow> Some w)"

definition wait_queue_empty :: "ptr \<Rightarrow> 'a sync_st_scheme \<Rightarrow> bool" where
  "wait_queue_empty q s \<longleftrightarrow> wqueues s q = []"

definition wait_in_queue :: "ptr \<Rightarrow> 'a sync_st_scheme \<Rightarrow> bool" where
  "wait_in_queue w s = w_linked (waits s w)"

definition wakeup_wait :: "ptr \<Rightarrow> ptr \<Rightarrow> u32 \<Rightarrow> bool \<Rightarrow> 'a sync_st_scheme \<Rightarrow> 'a sync_st_scheme option" where
  "wakeup_wait q w flags del s = do {
     s1 \<leftarrow> (if del then wait_queue_del q w s else Some s);
     let s2 = upd_wait w (\<lambda>x. x\<lparr>w_flags := flags\<rparr>) s1;
     p \<leftarrow> w_proc (waits s2 w);
     wakeup_proc default_sched_class p s2
   }"

definition wakeup_first :: "ptr \<Rightarrow> u32 \<Rightarrow> bool \<Rightarrow> 'a sync_st_scheme \<Rightarrow> 'a sync_st_scheme option" where
  "wakeup_first q flags del s =
     (case wait_queue_first q s of None \<Rightarrow> Some s | Some w \<Rightarrow> wakeup_wait q w flags del s)"

text \<open>The two do-while loops of \<^verbatim>\<open>wakeup_queue\<close>, entered with a wait entry.\<close>

partial_function (option) wakeup_queue_del_loop ::
  "ptr \<Rightarrow> u32 \<Rightarrow> ptr \<Rightarrow> 'a sync_st_scheme \<Rightarrow> 'a sync_st_scheme option" where
  "wakeup_queue_del_loop q flags w s =
     wakeup_wait q w flags True s \<bind> (\<lambda>s1.
       case wait_queue_first q s1 of None \<Rightarrow> Some s1 | Some w' \<Rightarrow> wakeup_queue_del_loop q flags w' s1)"

partial_function (option) wakeup_queue_next_loop ::
  "ptr \<Rightarrow> u32 \<Rightarrow> ptr \<Rightarrow> 'a sync_st_scheme \<Rightarrow> 'a sync_st_scheme option" where
  "wakeup_queue_next_loop q flags w s =
     wakeup_wait q w flags False s \<bind> (\<lambda>s1.
       wait_queue_next q w s1 \<bind> (\<lambda>n.
         case n of None \<Rightarrow> Some s1 | Some w' \<Rightarrow> wakeup_queue_next_loop q flags w' s1))"

definition wakeup_queue :: "ptr \<Rightarrow> u32 \<Rightarrow> bool \<Rightarrow> 'a sync_st_scheme \<Rightarrow> 'a sync_st_scheme option" where
  "wakeup_queue q flags del s =
     (case wait_queue_first q s of None \<Rightarrow> Some s
      | Some w \<Rightarrow> if del then wakeup_queue_del_loop q flags w s else wakeup_queue_next_loop q flags w s)"

definition wait_current_set :: "ptr \<Rightarrow> ptr \<Rightarrow> u32 \<Rightarrow> 'a sync_st_scheme \<Rightarrow> 'a sync_st_scheme option" where
  "wait_current_set q w wstate s = do {
     cur \<leftarrow> current s;
     let s1 = wait_init w cur s;
     let s2 = upd_proc cur (\<lambda>p. p\<lparr>p_state := PROC_SLEEPING, p_wait_state := wstate\<rparr>) s1;
     wait_queue_add q w s2
   }"

definition wait_current_del :: "ptr \<Rightarrow> ptr \<Rightarrow> 'a sync_st_scheme \<Rightarrow> 'a sync_st_scheme option" where
  "wait_current_del q w s = (if wait_in_queue w s then wait_queue_del q w s else Some s)"

section \<open>Semaphores\<close>

definition sem_init :: "ptr \<Rightarrow> int \<Rightarrow> 'a sync_st_scheme \<Rightarrow> 'a sync_st_scheme" where
  "sem_init sem v s = wait_queue_init sem (s\<lparr>semvals := (semvals s)(sem := v)\<rparr>)"

definition up_with :: "ptr \<Rightarrow> u32 \<Rightarrow> 'a sync_st_scheme \<Rightarrow> 'a sync_st_scheme option" where
  "up_with sem wstate s =
     (case wait_queue_first sem s of
        None \<Rightarrow> Some (s\<lparr>semvals := (semvals s)(sem := semvals s sem + 1)\<rparr>)
      | Some w \<Rightarrow> do {
          p \<leftarrow> w_proc (waits s w);
          kassert (p_wait_state (procs s p) = wstate);
          wakeup_wait sem w wstate True s
        })"

text \<open>
  \<^verbatim>\<open>__down\<close> up to \<^verbatim>\<open>schedule()\<close>: \<open>True\<close> when the permit was taken, \<open>False\<close> when the
  caller is queued with its wait entry \<open>w\<close> and must call \<^verbatim>\<open>schedule\<close>; and after it.
\<close>

definition down_enter :: "ptr \<Rightarrow> u32 \<Rightarrow> ptr \<Rightarrow> 'a sync_st_scheme \<Rightarrow> (bool \<times> 'a sync_st_scheme) option" where
  "down_enter sem wstate w s =
     (if semvals s sem > 0 then Some (True, s\<lparr>semvals := (semvals s)(sem := semvals s sem - 1)\<rparr>)
      else wait_current_set sem w wstate s \<bind> (\<lambda>s1. Some (False, s1)))"

definition down_resume :: "ptr \<Rightarrow> u32 \<Rightarrow> ptr \<Rightarrow> 'a sync_st_scheme \<Rightarrow> (u32 \<times> 'a sync_st_scheme) option" where
  "down_resume sem wstate w s = do {
     s1 \<leftarrow> wait_current_del sem w s;
     Some (if w_flags (waits s1 w) \<noteq> wstate then w_flags (waits s1 w) else 0, s1)
   }"

definition up :: "ptr \<Rightarrow> 'a sync_st_scheme \<Rightarrow> 'a sync_st_scheme option" where
  "up sem s = up_with sem WT_KSEM s"

definition down_start :: "ptr \<Rightarrow> ptr \<Rightarrow> 'a sync_st_scheme \<Rightarrow> (bool \<times> 'a sync_st_scheme) option" where
  "down_start sem w s = down_enter sem WT_KSEM w s"

definition down_finish :: "ptr \<Rightarrow> ptr \<Rightarrow> 'a sync_st_scheme \<Rightarrow> 'a sync_st_scheme option" where
  "down_finish sem w s = do {
     (flags, s1) \<leftarrow> down_resume sem WT_KSEM w s;
     kassert (flags = 0);
     Some s1
   }"

definition try_down :: "ptr \<Rightarrow> 'a sync_st_scheme \<Rightarrow> bool \<times> 'a sync_st_scheme" where
  "try_down sem s =
     (if semvals s sem > 0 then (True, s\<lparr>semvals := (semvals s)(sem := semvals s sem - 1)\<rparr>) else (False, s))"

section \<open>What the scheduler leaves alone\<close>

lemma upd_wait_simps [simp]:
  "waits (upd_wait w f s) = (waits s)(w := f (waits s w))" "wqueues (upd_wait w f s) = wqueues s"
  "semvals (upd_wait w f s) = semvals s" "procs (upd_wait w f s) = procs s" "current (upd_wait w f s) = current s"
  "idleproc (upd_wait w f s) = idleproc s" "run_q (upd_wait w f s) = run_q s" "pools (upd_wait w f s) = pools s"
  by (simp_all add: upd_wait_def)

lemma upd_proc_sync [simp]:
  "waits (upd_proc p f s) = waits s" "wqueues (upd_proc p f s) = wqueues s" "semvals (upd_proc p f s) = semvals s"
  by (simp_all add: upd_proc_def)

lemma wakeup_proc_sync:
  assumes "wakeup_proc default_sched_class p s = Some s'"
  shows "waits s' = waits s" "wqueues s' = wqueues s" "semvals s' = semvals s"
  using assms by (auto simp: wakeup_proc_def sched_class_enqueue_def default_sched_class_def
      stride_enqueue_def bind_Some_iff Let_def split: if_splits)

definition waiter :: "'a sync_st_scheme \<Rightarrow> ptr \<Rightarrow> ptr" where
  "waiter s w = the (w_proc (waits s w))"

definition waiters :: "ptr \<Rightarrow> 'a sync_st_scheme \<Rightarrow> ptr list" where
  "waiters q s = map (waiter s) (wqueues s q)"

definition wq_ok :: "ptr \<Rightarrow> 'a sync_st_scheme \<Rightarrow> bool" where
  "wq_ok q s \<longleftrightarrow> distinct (wqueues s q) \<and>
     (\<forall>w\<in>set (wqueues s q). w_linked (waits s w) \<and> w_queue (waits s w) = q \<and> w_proc (waits s w) \<noteq> None)"

lemma wakeup_wait_first:
  assumes "wq_ok q s" "wqueues s q = w # ws" "wakeup_wait q w flags True s = Some s'"
  shows "wqueues s' = (wqueues s)(q := ws)" "semvals s' = semvals s"
    "waits s' = (waits s)(w := (waits s w)\<lparr>w_linked := False, w_flags := flags\<rparr>)" "wq_ok q s'"
proof -
  have w: "w_linked (waits s w)" "w_queue (waits s w) = q" "w_proc (waits s w) \<noteq> None" "w \<notin> set ws"
    using assms(1,2) by (auto simp: wq_ok_def)
  let ?s2 = "upd_wait w (\<lambda>x. x\<lparr>w_flags := flags\<rparr>)
    ((upd_wait w (\<lambda>x. x\<lparr>w_linked := False\<rparr>) s)\<lparr>wqueues := (wqueues s)(q := ws)\<rparr>)"
  have "wakeup_proc default_sched_class (waiter s w) ?s2 = Some s'"
    using assms(3) w by (auto simp: wakeup_wait_def wait_queue_del_def assms(2) bind_Some_iff waiter_def)
  note e = wakeup_proc_sync [OF this]
  show q: "wqueues s' = (wqueues s)(q := ws)" "semvals s' = semvals s"
    "waits s' = (waits s)(w := (waits s w)\<lparr>w_linked := False, w_flags := flags\<rparr>)"
    unfolding e by (auto simp: fun_eq_iff)
  show "wq_ok q s'" using assms(1,2) w(4) by (auto simp: wq_ok_def q)
qed

section \<open>Mutual exclusion\<close>

text \<open>
  Runs of a semaphore: \<open>H\<close> is the set of processes that hold a permit.  A process takes one, blocks,
  or gives one back, in which case the process that \<open>up\<close> wakes has it; in
  between, anything happens that leaves the semaphore, its queue and the queued entries alone.
\<close>

inductive sem_step :: "ptr \<Rightarrow> sync_st \<times> ptr set \<Rightarrow> sync_st \<times> ptr set \<Rightarrow> bool" for sem where
  take: "current s = Some c \<Longrightarrow> c \<notin> H \<Longrightarrow> c \<notin> set (waiters sem s) \<Longrightarrow>
    down_start sem w s = Some (True, s') \<Longrightarrow> sem_step sem (s, H) (s', insert c H)"
| block: "current s = Some c \<Longrightarrow> c \<notin> H \<Longrightarrow> c \<notin> set (waiters sem s) \<Longrightarrow> \<not> w_linked (waits s w) \<Longrightarrow>
    down_start sem w s = Some (False, s') \<Longrightarrow> sem_step sem (s, H) (s', H)"
| try_take: "current s = Some c \<Longrightarrow> c \<notin> H \<Longrightarrow> c \<notin> set (waiters sem s) \<Longrightarrow>
    try_down sem s = (True, s') \<Longrightarrow> sem_step sem (s, H) (s', insert c H)"
| release: "c \<in> H \<Longrightarrow> up sem s = Some s' \<Longrightarrow>
    sem_step sem (s, H) (s', (H - {c}) \<union> (set (waiters sem s) - set (waiters sem s')))"
| other: "semvals s' sem = semvals s sem \<Longrightarrow> wqueues s' sem = wqueues s sem \<Longrightarrow>
    (\<And>w. w \<in> set (wqueues s sem) \<Longrightarrow> waits s' w = waits s w) \<Longrightarrow> sem_step sem (s, H) (s', H)"

inductive_cases sem_stepE: "sem_step sem (s, H) (s', H')"

definition sem_inv :: "ptr \<Rightarrow> int \<Rightarrow> sync_st \<times> ptr set \<Rightarrow> bool" where
  "sem_inv sem N = (\<lambda>(s, H). 0 \<le> semvals s sem \<and> (wqueues s sem \<noteq> [] \<longrightarrow> semvals s sem = 0) \<and>
     finite H \<and> int (card H) + semvals s sem = N \<and>
     wq_ok sem s \<and> distinct (waiters sem s) \<and> set (waiters sem s) \<inter> H = {})"

lemma sem_inv_take:
  assumes "sem_inv sem N (s, H)" "c \<notin> H" "c \<notin> set (waiters sem s)" "0 < semvals s sem"
  shows "sem_inv sem N (s\<lparr>semvals := (semvals s)(sem := semvals s sem - 1)\<rparr>, insert c H)"
  using assms by (auto simp: sem_inv_def wq_ok_def waiters_def waiter_def)

lemma sem_inv_block:
  assumes "sem_inv sem N (s, H)" "current s = Some c" "c \<notin> H" "c \<notin> set (waiters sem s)"
    "\<not> w_linked (waits s w)" "down_start sem w s = Some (False, s')"
  shows "sem_inv sem N (s', H)"
proof -
  have z: "\<not> 0 < semvals s sem" using assms(6) by (auto simp: down_start_def down_enter_def split: if_splits)
  have w: "w \<notin> set (wqueues s sem)" using assms(1,5) by (auto simp: sem_inv_def wq_ok_def)
  have s': "semvals s' = semvals s" "wqueues s' = (wqueues s)(sem := wqueues s sem @ [w])"
    "waits s' = (waits s)(w := (waits s w)\<lparr>w_proc := Some c, w_flags := WT_INTERRUPTED, w_linked := True, w_queue := sem\<rparr>)"
    using assms(2,6) z by (auto simp: down_start_def down_enter_def wait_current_set_def wait_queue_add_def
        wait_init_def fun_eq_iff split: if_splits)
  have wt: "waiters sem s' = waiters sem s @ [c]"
    using w by (auto simp: waiters_def waiter_def s')
  have "wq_ok sem s'" using assms(1) w by (auto simp: sem_inv_def wq_ok_def s')
  then show ?thesis
    using assms(1,3,4) z by (auto simp: sem_inv_def wt s'(1,2))
qed

lemma sem_inv_release:
  assumes "sem_inv sem N (s, H)" "c \<in> H" "up sem s = Some s'"
  shows "sem_inv sem N (s', (H - {c}) \<union> (set (waiters sem s) - set (waiters sem s')))"
proof (cases "wqueues s sem")
  case Nil
  then have "s' = s\<lparr>semvals := (semvals s)(sem := semvals s sem + 1)\<rparr>"
    using assms(3) by (simp add: up_def up_with_def wait_queue_first_def)
  moreover have "card H > 0" using assms(1,2) by (auto simp: sem_inv_def card_gt_0_iff)
  ultimately show ?thesis using assms(1,2) Nil by (auto simp: sem_inv_def waiters_def wq_ok_def)
next
  case (Cons w ws)
  have "wakeup_wait sem w WT_KSEM True s = Some s'" and ok: "wq_ok sem s"
    using assms(1,3) Cons by (auto simp: up_def up_with_def wait_queue_first_def bind_Some_iff sem_inv_def split: if_splits)
  note e = wakeup_wait_first [OF ok Cons this(1)]
  have ws: "waiters sem s' = map (waiter s) ws" "waiters sem s = waiter s w # map (waiter s) ws"
    by (auto simp: waiters_def waiter_def e Cons)
  have dj: "waiter s w \<notin> set (waiters sem s')" "waiter s w \<notin> H" "distinct (waiters sem s')"
    using assms(1) ws by (auto simp: sem_inv_def)
  then have "(H - {c}) \<union> (set (waiters sem s) - set (waiters sem s')) = insert (waiter s w) (H - {c})"
    using ws by auto
  moreover have "card (insert (waiter s w) (H - {c})) = card H"
    using assms(1,2) dj(2) card_Suc_Diff1 [of H c] by (simp add: sem_inv_def)
  moreover have "set (waiters sem s') \<inter> insert (waiter s w) (H - {c}) = {}"
    using assms(1) dj(1) ws by (auto simp: sem_inv_def)
  ultimately show ?thesis
    using assms(1) dj(3) e Cons by (simp add: sem_inv_def)
qed

lemma sem_step_inv: "sem_step sem x y \<Longrightarrow> sem_inv sem N x \<Longrightarrow> sem_inv sem N y"
proof (induction rule: sem_step.induct)
  case (take s c H w s')
  then show ?case using sem_inv_take [of sem N s H c]
    by (auto simp: down_start_def down_enter_def bind_Some_iff split: if_splits)
next
  case (block s c H w s')
  then show ?case using sem_inv_block by blast
next
  case (try_take s c H s')
  then show ?case using sem_inv_take [of sem N s H c] by (auto simp: try_down_def split: if_splits)
next
  case (release c H s s')
  then show ?case using sem_inv_release by blast
next
  case (other s' s H)
  have "waiters sem s' = waiters sem s"
    using other(2,3) by (auto simp: waiters_def waiter_def)
  then show ?case using other by (auto simp: sem_inv_def wq_ok_def)
qed

text \<open>
  C7. A semaphore initialised to \<open>N\<close>: in every reachable state the permits add up,
  \<open>value + holders = N\<close> with \<open>value\<close> never negative, so at most \<open>N\<close> processes hold it (mutual
  exclusion for \<open>N = 1\<close>), and processes wait only while all \<open>N\<close> permits are held.
\<close>

theorem semaphore_permits:
  assumes "(sem_step sem)\<^sup>*\<^sup>* (sem_init sem N s0, {}) (s, H)" "0 \<le> N"
  shows "0 \<le> semvals s sem \<and> int (card H) + semvals s sem = N \<and> (wqueues s sem \<noteq> [] \<longrightarrow> int (card H) = N) \<and>
    distinct (waiters sem s) \<and> set (waiters sem s) \<inter> H = {}"
proof -
  have "sem_inv sem N (sem_init sem N s0, {})"
    using assms(2) by (simp add: sem_inv_def sem_init_def wait_queue_init_def waiters_def wq_ok_def)
  with assms(1) have "sem_inv sem N (s, H)"
    by (induction rule: rtranclp_induct) (auto intro: sem_step_inv)
  then show ?thesis by (auto simp: sem_inv_def)
qed

definition example_sync :: sync_st where
  "example_sync = sched_st.extend example_st
     \<lparr>waits = \<lambda>_. \<lparr>w_proc = None, w_flags = 0, w_queue = 0, w_linked = False\<rparr>,
      wqueues = \<lambda>_. [], semvals = \<lambda>_. 0\<rparr>"

theorem semaphore_permits_witness:
  "\<exists>s H. (sem_step 50)\<^sup>*\<^sup>* (sem_init 50 1 example_sync, {}) (s, H) \<and> H = {1} \<and> semvals s 50 = 0"
proof -
  let ?s = "sem_init 50 1 example_sync"
  have "sem_step 50 (?s, {}) (?s\<lparr>semvals := (semvals ?s)(50 := semvals ?s 50 - 1)\<rparr>, insert 1 {})"
    by (rule sem_step.take [where w = 60])
      (simp_all add: sem_init_def wait_queue_init_def example_sync_def example_st_def sched_st.extend_def
        waiters_def down_start_def down_enter_def)
  then have r: "(sem_step 50)\<^sup>*\<^sup>* (?s, {}) (?s\<lparr>semvals := (semvals ?s)(50 := semvals ?s 50 - 1)\<rparr>, {1})" by auto
  from semaphore_permits [OF this] have "semvals (?s\<lparr>semvals := (semvals ?s)(50 := semvals ?s 50 - 1)\<rparr>) 50 = 0"
    by simp
  with r show ?thesis by blast
qed

section \<open>Waking a whole queue\<close>

lemma wakeup_wait_first_ok:
  assumes "wq_ok q s" "wqueues s q = w # ws" "stride_rep (runnable_set s) s" "strides_close W s"
    "insert (waiter s w) (runnable_set s) \<subseteq> W" "p_state (procs s (waiter s w)) \<noteq> PROC_ZOMBIE"
  shows "\<exists>s'. wakeup_wait q w flags True s = Some s' \<and> stride_rep (runnable_set s') s' \<and> strides_close W s' \<and>
    runnable_set s' \<subseteq> insert (waiter s w) (runnable_set s) \<and> p_state (procs s' (waiter s w)) = PROC_RUNNABLE \<and>
    (\<forall>p. p \<noteq> waiter s w \<longrightarrow> procs s' p = procs s p)"
proof -
  have w: "w_linked (waits s w)" "w_queue (waits s w) = q" "w_proc (waits s w) = Some (waiter s w)"
    using assms(1,2) by (auto simp: wq_ok_def waiter_def)
  let ?s2 = "upd_wait w (\<lambda>x. x\<lparr>w_flags := flags\<rparr>)
    ((upd_wait w (\<lambda>x. x\<lparr>w_linked := False\<rparr>) s)\<lparr>wqueues := (wqueues s)(q := ws)\<rparr>)"
  have rs: "runnable_set ?s2 = runnable_set s" by (simp add: runnable_set_def)
  have rep: "stride_rep (runnable_set ?s2) ?s2"
    unfolding rs by (rule stride.rep_frame [OF assms(3)]) auto
  have cl: "strides_close W ?s2" using assms(4) by (simp add: strides_close_def)
  have nz: "p_state (procs ?s2 (waiter s w)) \<noteq> PROC_ZOMBIE" using assms(6) by simp
  obtain s' where s': "wakeup_proc default_sched_class (waiter s w) ?s2 = Some s'"
    "stride_rep (runnable_set s') s'" "p_state (procs s' (waiter s w)) = PROC_RUNNABLE"
    "current s' = current ?s2" "idleproc s' = idleproc ?s2"
    "\<forall>p. p \<noteq> waiter s w \<longrightarrow> procs s' p = procs ?s2 p"
    "p_lab6_stride (procs s' (waiter s w)) = p_lab6_stride (procs ?s2 (waiter s w))"
    by (rule wakeup_stride [OF rep nz cl assms(5) [folded rs]])
  have pq: "p = waiter s w \<or> procs s' p = procs s p" for p using s'(6) by auto
  have st: "p_lab6_stride (procs s' p) = p_lab6_stride (procs s p)" for p
    using pq [of p] s'(7) by auto
  have "p \<in> insert (waiter s w) (runnable_set s)" if "p \<in> runnable_set s'" for p
    using that pq [of p] s'(4,5) by (auto simp: runnable_set_def)
  moreover have "strides_close W s'"
    using assms(4) by (simp add: strides_close_def stride_window_def st)
  moreover have "wakeup_wait q w flags True s = Some s'"
    using w s'(1) by (simp add: wakeup_wait_def wait_queue_del_def assms(2))
  ultimately show ?thesis using s'(2,3,6) by auto
qed

lemma wakeup_queue_del_loop_ok:
  assumes "wqueues s q = w # ws" "wq_ok q s" "stride_rep (runnable_set s) s" "strides_close W s"
    "runnable_set s \<union> set (waiters q s) \<subseteq> W" "\<forall>p\<in>set (waiters q s). p_state (procs s p) \<noteq> PROC_ZOMBIE"
  shows "\<exists>s'. wakeup_queue_del_loop q flags w s = Some s' \<and> wqueues s' = (wqueues s)(q := []) \<and>
    stride_rep (runnable_set s') s' \<and>
    (\<forall>x. waits s' x = (if x \<in> set (w # ws) then (waits s x)\<lparr>w_linked := False, w_flags := flags\<rparr> else waits s x)) \<and>
    (\<forall>p. p \<notin> set (waiters q s) \<longrightarrow> procs s' p = procs s p) \<and>
    (\<forall>p. p \<in> set (waiters q s) \<or> p_state (procs s p) = PROC_RUNNABLE \<longrightarrow> p_state (procs s' p) = PROC_RUNNABLE)"
  using assms
proof (induction ws arbitrary: w s)
  case Nil
  have "insert (waiter s w) (runnable_set s) \<subseteq> W" "p_state (procs s (waiter s w)) \<noteq> PROC_ZOMBIE"
    using Nil.prems(1,5,6) by (auto simp: waiters_def)
  from wakeup_wait_first_ok [OF Nil.prems(2,1,3,4) this, of flags] obtain s1 where
    s1: "wakeup_wait q w flags True s = Some s1" "stride_rep (runnable_set s1) s1"
    "p_state (procs s1 (waiter s w)) = PROC_RUNNABLE" "\<forall>p. p \<noteq> waiter s w \<longrightarrow> procs s1 p = procs s p" by blast
  note e = wakeup_wait_first [OF Nil.prems(2,1) s1(1)]
  have "wakeup_queue_del_loop q flags w s = Some s1"
    by (subst wakeup_queue_del_loop.simps) (simp add: s1(1) wait_queue_first_def e(1))
  moreover have "p_state (procs s1 p) = PROC_RUNNABLE"
    if "p = waiter s w \<or> p_state (procs s p) = PROC_RUNNABLE" for p
    using that s1(3,4) by (cases "p = waiter s w") auto
  ultimately show ?case using s1(2,4) e Nil.prems(1) by (auto simp: waiters_def)
next
  case (Cons w' ws)
  have z: "insert (waiter s w) (runnable_set s) \<subseteq> W" "p_state (procs s (waiter s w)) \<noteq> PROC_ZOMBIE"
    using Cons.prems(1,5,6) by (auto simp: waiters_def)
  from wakeup_wait_first_ok [OF Cons.prems(2,1,3,4) z, of flags] obtain s1 where
    s1: "wakeup_wait q w flags True s = Some s1" "stride_rep (runnable_set s1) s1" "strides_close W s1"
    "runnable_set s1 \<subseteq> insert (waiter s w) (runnable_set s)"
    "p_state (procs s1 (waiter s w)) = PROC_RUNNABLE" "\<forall>p. p \<noteq> waiter s w \<longrightarrow> procs s1 p = procs s p" by blast
  note e = wakeup_wait_first [OF Cons.prems(2,1) s1(1)]
  have q1: "wqueues s1 q = w' # ws" by (simp add: e(1))
  have wn: "w \<notin> set (w' # ws)" using Cons.prems(1,2) by (simp add: wq_ok_def)
  have wt: "waiters q s = waiter s w # waiters q s1"
    by (auto simp: waiters_def waiter_def e(3) q1 Cons.prems(1))
  have nz: "p_state (procs s1 p) \<noteq> PROC_ZOMBIE" if "p \<in> set (waiters q s1)" for p
    using s1(5,6) Cons.prems(6) that wt by (cases "p = waiter s w") auto
  have sub: "runnable_set s1 \<union> set (waiters q s1) \<subseteq> W"
    using s1(4) z(1) Cons.prems(5) wt by auto
  from Cons.IH [OF q1 e(4) s1(2,3) sub] nz obtain s' where
    s': "wakeup_queue_del_loop q flags w' s1 = Some s'" "wqueues s' = (wqueues s1)(q := [])"
    "stride_rep (runnable_set s') s'"
    "\<forall>x. waits s' x = (if x \<in> set (w' # ws) then (waits s1 x)\<lparr>w_linked := False, w_flags := flags\<rparr> else waits s1 x)"
    "\<forall>p. p \<notin> set (waiters q s1) \<longrightarrow> procs s' p = procs s1 p"
    "\<forall>p. p \<in> set (waiters q s1) \<or> p_state (procs s1 p) = PROC_RUNNABLE \<longrightarrow> p_state (procs s' p) = PROC_RUNNABLE"
    by blast
  have "wakeup_queue_del_loop q flags w s = Some s'"
    by (subst wakeup_queue_del_loop.simps) (simp add: s1(1) wait_queue_first_def q1 s'(1))
  moreover have "p_state (procs s' p) = PROC_RUNNABLE"
    if "p \<in> set (waiters q s) \<or> p_state (procs s p) = PROC_RUNNABLE" for p
    using that s'(6) s1(5,6) wt by (cases "p = waiter s w") auto
  moreover have "waits s' x = (if x \<in> set (w # w' # ws) then (waits s x)\<lparr>w_linked := False, w_flags := flags\<rparr>
      else waits s x)" for x
    using s'(4) wn by (auto simp: e(3))
  ultimately show ?case
    using s'(2,3,5) s1(6) wt e(1) by auto
qed

text \<open>
  \<open>wakeup_queue\<close> with deletion terminates and wakes the whole queue: afterwards the
  queue is empty, every process that waited is runnable and its entry carries the wakeup flags and is unlinked,
  nothing else changes, and the run queue again holds exactly the runnable processes.
\<close>

lemma wakeup_queue_wakes_all:
  assumes "wq_ok q s" "stride_rep (runnable_set s) s" "strides_close W s"
    "runnable_set s \<union> set (waiters q s) \<subseteq> W" "\<forall>p\<in>set (waiters q s). p_state (procs s p) \<noteq> PROC_ZOMBIE"
  shows "\<exists>s'. wakeup_queue q flags True s = Some s' \<and> wait_queue_empty q s' \<and> stride_rep (runnable_set s') s' \<and>
    (\<forall>w\<in>set (wqueues s q). waits s' w = (waits s w)\<lparr>w_linked := False, w_flags := flags\<rparr>) \<and>
    (\<forall>p\<in>set (waiters q s). p_state (procs s' p) = PROC_RUNNABLE) \<and>
    (\<forall>p. p \<notin> set (waiters q s) \<longrightarrow> procs s' p = procs s p) \<and>
    (\<forall>q'. q' \<noteq> q \<longrightarrow> wqueues s' q' = wqueues s q')"
proof (cases "wqueues s q")
  case Nil
  then show ?thesis using assms(2)
    by (auto simp: wakeup_queue_def wait_queue_first_def wait_queue_empty_def waiters_def)
next
  case (Cons w ws)
  from wakeup_queue_del_loop_ok [OF Cons assms, of flags] show ?thesis
    by (auto simp: wakeup_queue_def wait_queue_first_def wait_queue_empty_def Cons)
qed

lemma wakeup_queue_wakes_all_example:
  "\<exists>s'. wakeup_queue 50 WT_KBD True (example_sync\<lparr>waits := \<lambda>_. \<lparr>w_proc = Some 3, w_flags = 0, w_queue = 50,
      w_linked = True\<rparr>, wqueues := \<lambda>_. [60]\<rparr>) = Some s' \<and> p_state (procs s' 3) = PROC_RUNNABLE"
proof -
  let ?s = "example_sync\<lparr>waits := \<lambda>_. \<lparr>w_proc = Some 3, w_flags = 0, w_queue = 50, w_linked = True\<rparr>, wqueues := \<lambda>_. [60]\<rparr>"
  have eq: "procs ?s = procs example_st" "current ?s = current example_st" "idleproc ?s = idleproc example_st"
    "run_q ?s = run_q example_st" "pools ?s = pools example_st"
    by (simp_all add: example_sync_def sched_st.extend_def)
  have r: "runnable_set ?s = {2}" using example_sets(1) by (simp add: runnable_set_def eq)
  have "stride_rep (runnable_set ?s) ?s"
    unfolding r by (rule stride_rep_single) (simp_all add: eq, simp_all add: example_st_def)
  moreover have "waiters 50 ?s = [3]" by (simp add: waiters_def waiter_def)
  moreover have "strides_close {2, 3} ?s"
    by (auto simp: strides_close_def stride_window_def eq example_window intro!: exI [of _ 0])
  moreover have "p_state (procs ?s 3) \<noteq> PROC_ZOMBIE" by (simp add: eq) (simp add: example_st_def alloc_proc_init_def)
  ultimately show ?thesis
    using wakeup_queue_wakes_all [of 50 ?s "{2, 3}" WT_KBD] by (auto simp: wq_ok_def r)
qed

end
