(* ===== verification/Monitor.thy ===== *)
theory Monitor
  imports Sync
begin

text \<open>
  \<^verbatim>\<open>kern/sync/monitor.c\<close>: Hoare monitors on semaphores.  Condition variable \<open>i\<close> of a monitor is
  the address \<open>cv + i\<close>; its semaphore and those of the monitor have addresses of their own.
  \<open>cond_signal\<close> and \<open>cond_wait\<close> block, so each is cut where it may give up the processor.
  Hoare's hand-over is the property shown: signalling never leaves the monitor to a third process.
\<close>

record condvar =
  cv_sem :: ptr
  cv_count :: int
  cv_owner :: ptr

record monitor =
  m_mutex :: ptr
  m_next :: ptr
  m_next_count :: int
  m_cv :: "ptr option"

record mon_st = sync_st +
  cvs :: "ptr \<Rightarrow> condvar"
  mons :: "ptr \<Rightarrow> monitor"

definition upd_cv :: "ptr \<Rightarrow> (condvar \<Rightarrow> condvar) \<Rightarrow> 'a mon_st_scheme \<Rightarrow> 'a mon_st_scheme" where
  "upd_cv c f s = s\<lparr>cvs := (cvs s)(c := f (cvs s c))\<rparr>"

definition upd_mon :: "ptr \<Rightarrow> (monitor \<Rightarrow> monitor) \<Rightarrow> 'a mon_st_scheme \<Rightarrow> 'a mon_st_scheme" where
  "upd_mon m f s = s\<lparr>mons := (mons s)(m := f (mons s m))\<rparr>"

fun monitor_init_cvs :: "ptr \<Rightarrow> ptr \<Rightarrow> nat \<Rightarrow> 'a mon_st_scheme \<Rightarrow> 'a mon_st_scheme" where
  "monitor_init_cvs mtp cv 0 s = s"
| "monitor_init_cvs mtp cv (Suc i) s =
     (let s1 = monitor_init_cvs mtp cv i s;
          s2 = upd_cv (cv + i) (\<lambda>c. c\<lparr>cv_count := 0\<rparr>) s1;
          s3 = sem_init (cv_sem (cvs s2 (cv + i))) 0 s2
      in upd_cv (cv + i) (\<lambda>c. c\<lparr>cv_owner := mtp\<rparr>) s3)"

text \<open>\<open>kmalloc\<close> is the allocator's answer for the array of \<open>num_cv\<close> condition variables.\<close>

definition monitor_init :: "ptr option \<Rightarrow> ptr \<Rightarrow> nat \<Rightarrow> 'a mon_st_scheme \<Rightarrow> 'a mon_st_scheme option" where
  "monitor_init kmalloc mtp num_cv s = do {
     kassert (num_cv > 0);
     let s1 = upd_mon mtp (\<lambda>m. m\<lparr>m_next_count := 0, m_cv := None\<rparr>) s;
     let s2 = sem_init (m_mutex (mons s1 mtp)) 1 s1;
     let s3 = sem_init (m_next (mons s2 mtp)) 0 s2;
     let s4 = upd_mon mtp (\<lambda>m. m\<lparr>m_cv := kmalloc\<rparr>) s3;
     cv \<leftarrow> kmalloc;
     Some (monitor_init_cvs mtp cv num_cv s4)
   }"

text \<open>\<open>cond_signal\<close> up to \<^verbatim>\<open>down(&mtp->next)\<close>: \<open>True\<close> when it is already done.\<close>

definition cond_signal_start :: "ptr \<Rightarrow> ptr \<Rightarrow> 'a mon_st_scheme \<Rightarrow> (bool \<times> 'a mon_st_scheme) option" where
  "cond_signal_start cvp w s =
     (if cv_count (cvs s cvp) > 0
      then do {
        let mtp = cv_owner (cvs s cvp);
        let s1 = upd_mon mtp (\<lambda>m. m\<lparr>m_next_count := m_next_count m + 1\<rparr>) s;
        s2 \<leftarrow> up (cv_sem (cvs s1 cvp)) s1;
        (got, s3) \<leftarrow> down_start (m_next (mons s2 mtp)) w s2;
        Some (False, s3)
      }
      else Some (True, s))"

definition cond_signal_finish :: "ptr \<Rightarrow> ptr \<Rightarrow> 'a mon_st_scheme \<Rightarrow> 'a mon_st_scheme option" where
  "cond_signal_finish cvp w s = do {
     let mtp = cv_owner (cvs s cvp);
     s1 \<leftarrow> down_finish (m_next (mons s mtp)) w s;
     Some (upd_mon mtp (\<lambda>m. m\<lparr>m_next_count := m_next_count m - 1\<rparr>) s1)
   }"

definition cond_wait_start :: "ptr \<Rightarrow> ptr \<Rightarrow> 'a mon_st_scheme \<Rightarrow> (bool \<times> 'a mon_st_scheme) option" where
  "cond_wait_start cvp w s = do {
     let s1 = upd_cv cvp (\<lambda>c. c\<lparr>cv_count := cv_count c + 1\<rparr>) s;
     let mtp = cv_owner (cvs s1 cvp);
     s2 \<leftarrow> (if m_next_count (mons s1 mtp) > 0 then up (m_next (mons s1 mtp)) s1 else up (m_mutex (mons s1 mtp)) s1);
     down_start (cv_sem (cvs s2 cvp)) w s2
   }"

definition cond_wait_finish :: "ptr \<Rightarrow> ptr \<Rightarrow> 'a mon_st_scheme \<Rightarrow> 'a mon_st_scheme option" where
  "cond_wait_finish cvp w s = do {
     s1 \<leftarrow> down_finish (cv_sem (cvs s cvp)) w s;
     Some (upd_cv cvp (\<lambda>c. c\<lparr>cv_count := cv_count c - 1\<rparr>) s1)
   }"

section \<open>Hand-over\<close>

lemma upd_mon_simps [simp]:
  "semvals (upd_mon m f s) = semvals s" "wqueues (upd_mon m f s) = wqueues s" "waits (upd_mon m f s) = waits s"
  "cvs (upd_mon m f s) = cvs s" "procs (upd_mon m f s) = procs s" "current (upd_mon m f s) = current s"
  "mons (upd_mon m f s) = (mons s)(m := f (mons s m))"
  by (simp_all add: upd_mon_def)

lemma upd_proc_mon [simp]: "cvs (upd_proc p f s) = cvs s" "mons (upd_proc p f s) = mons s"
  by (simp_all add: upd_proc_def)

lemma wakeup_proc_mon:
  assumes "wakeup_proc default_sched_class p s = Some s'"
  shows "cvs s' = cvs s" "mons s' = mons s" "current s' = current s" "idleproc s' = idleproc s"
  using assms by (auto simp: wakeup_proc_def sched_class_enqueue_def default_sched_class_def
      stride_enqueue_def bind_Some_iff Let_def split: if_splits)

lemma up_waiting:
  assumes "wq_ok sem s" "wqueues s sem = w # ws" "up sem s = Some s'"
  shows "wqueues s' = (wqueues s)(sem := ws)" "semvals s' = semvals s"
    "waits s' = (waits s)(w := (waits s w)\<lparr>w_linked := False, w_flags := WT_KSEM\<rparr>)"
proof -
  have "wakeup_wait sem w WT_KSEM True s = Some s'"
    using assms by (auto simp: up_def up_with_def wait_queue_first_def bind_Some_iff split: if_splits)
  from wakeup_wait_first [OF assms(1,2) this] show "wqueues s' = (wqueues s)(sem := ws)" "semvals s' = semvals s"
    "waits s' = (waits s)(w := (waits s w)\<lparr>w_linked := False, w_flags := WT_KSEM\<rparr>)" by auto
qed

lemma up_mon:
  assumes "up sem s = Some s'"
  shows "cvs s' = cvs s" "mons s' = mons s" "current s' = current s" "idleproc s' = idleproc s"
proof -
  have "cvs s' = cvs s \<and> mons s' = mons s \<and> current s' = current s \<and> idleproc s' = idleproc s"
  proof (cases "wait_queue_first sem s")
    case None
    with assms have "s' = s\<lparr>semvals := (semvals s)(sem := semvals s sem + 1)\<rparr>"
      by (simp add: up_def up_with_def)
    then show ?thesis by simp
  next
    case (Some w)
    then obtain p s2 where p: "wakeup_proc default_sched_class p s2 = Some s'"
      and s2: "s2 = upd_wait w (\<lambda>x. x\<lparr>w_flags := WT_KSEM\<rparr>) ((upd_wait w (\<lambda>x. x\<lparr>w_linked := False\<rparr>) s)
        \<lparr>wqueues := (wqueues s)(sem := remove1 w (wqueues s sem))\<rparr>)"
      using assms by (auto simp: up_def up_with_def wakeup_wait_def wait_queue_del_def bind_Some_iff split: if_splits)
    from wakeup_proc_mon [OF p] show ?thesis by (simp add: s2 upd_wait_def)
  qed
  then show "cvs s' = cvs s" "mons s' = mons s" "current s' = current s" "idleproc s' = idleproc s" by auto
qed

text \<open>
  The signaller goes to sleep on \<open>next\<close>: its wait entry is queued, nothing else of the queues changes, and the run queue, in which it is not, stays as it is.
\<close>

lemma down_start_blocks:
  fixes s :: "'a mon_st_scheme"
  assumes "semvals s sem = 0" "current s = Some c" "stride_rep (runnable_set s) s"
  shows "\<exists>s'. down_start sem w s = Some (False, s') \<and> semvals s' = semvals s \<and> wqueues s' = (wqueues s)(sem := wqueues s sem @ [w]) \<and>
    waiter s' w = c \<and> mons s' = mons s \<and> p_state (procs s' c) = PROC_SLEEPING \<and> p_wait_state (procs s' c) = WT_KSEM \<and>
    (\<forall>q. q \<noteq> c \<longrightarrow> procs s' q = procs s q) \<and> runnable_set s' = runnable_set s \<and> stride_rep (runnable_set s') s'"
proof -
  define s' where "s' = (upd_wait w (\<lambda>x. x\<lparr>w_queue := sem, w_linked := True\<rparr>)
    (upd_proc c (\<lambda>p. p\<lparr>p_state := PROC_SLEEPING, p_wait_state := WT_KSEM\<rparr>) (wait_init w c s)))
    \<lparr>wqueues := (wqueues s)(sem := wqueues s sem @ [w])\<rparr>"
  have d: "down_start sem w s = Some (False, s')"
    using assms(1,2) by (simp add: s'_def down_start_def down_enter_def wait_current_set_def wait_queue_add_def
        wait_init_def upd_wait_def upd_proc_def)
  have f: "semvals s' = semvals s" "wqueues s' = (wqueues s)(sem := wqueues s sem @ [w])"
    "waiter s' w = c" "mons s' = mons s" "current s' = current s" "idleproc s' = idleproc s" "run_q s' = run_q s" "pools s' = pools s"
    "procs s' = (procs s)(c := (procs s c)\<lparr>p_state := PROC_SLEEPING, p_wait_state := WT_KSEM\<rparr>)"
    by (simp_all add: s'_def wait_init_def waiter_def upd_wait_def upd_proc_def)
  have r: "runnable_set s' = runnable_set s" using assms(2) by (auto simp: runnable_set_def f split: if_splits)
  have "stride_rep (runnable_set s') s'" unfolding r by (rule stride.rep_frame [OF assms(3)]) (auto simp: f)
  then show ?thesis using d f r by (intro exI [of _ s']) simp
qed

text \<open>The waiter that \<open>up\<close> releases is runnable and in the run queue.\<close>

lemma up_releases:
  fixes s :: "'a mon_st_scheme"
  assumes "wq_ok sem s" "wqueues s sem = w # ws" "p_wait_state (procs s (waiter s w)) = WT_KSEM"
    "p_state (procs s (waiter s w)) \<noteq> PROC_ZOMBIE" "stride_rep (runnable_set s) s" "strides_close W s"
    "insert (waiter s w) (runnable_set s) \<subseteq> W"
  shows "\<exists>s'. up sem s = Some s' \<and> stride_rep (runnable_set s') s' \<and> p_state (procs s' (waiter s w)) = PROC_RUNNABLE \<and>
    (\<forall>p. p \<noteq> waiter s w \<longrightarrow> procs s' p = procs s p)"
proof -
  obtain p where p: "w_proc (waits s w) = Some p" "waiter s w = p" using assms(1,2) by (auto simp: wq_ok_def waiter_def)
  obtain s' where s': "wakeup_wait sem w WT_KSEM True s = Some s'" "stride_rep (runnable_set s') s'"
    "p_state (procs s' (waiter s w)) = PROC_RUNNABLE" "\<forall>p. p \<noteq> waiter s w \<longrightarrow> procs s' p = procs s p"
    using wakeup_wait_first_ok [OF assms(1,2,5-7,4), of WT_KSEM] by blast
  have "up sem s = Some s'" using s'(1) p assms(2,3) by (simp add: up_def up_with_def wait_queue_first_def)
  then show ?thesis using s' by blast
qed

text \<open>
  C8. \<open>cond_signal\<close> hands the monitor over.  With no process waiting on the condition, it returns at once and changes nothing.  Otherwise (the
  \<open>next\<close> semaphore being, as always, at 0, and the waiter blocked in \<open>down\<close>) it succeeds: the first waiter leaves the queue of the condition and is runnable
  and in the run queue; the signaller is queued on \<open>next\<close> and sleeps; no other process changes; the counter of signallers grows by one;
  and the mutex that keeps third processes out is not touched.
\<close>

theorem cond_signal_hand_over:
  fixes s :: "'a mon_st_scheme" and cvp :: ptr
  defines "mtp \<equiv> cv_owner (cvs s cvp)" and "sem \<equiv> cv_sem (cvs s cvp)"
  defines "nx \<equiv> m_next (mons s mtp)" and "p \<equiv> waiter s (hd (wqueues s sem))"
  assumes "cv_count (cvs s cvp) = int (length (wqueues s sem))" "wq_ok sem s"
    "semvals s nx = 0" "nx \<noteq> sem" "m_mutex (mons s mtp) \<notin> {sem, nx}" "current s = Some c"
    "wqueues s sem \<noteq> [] \<Longrightarrow> p_wait_state (procs s p) = WT_KSEM \<and> p_state (procs s p) \<noteq> PROC_ZOMBIE \<and> p \<noteq> c \<and> p \<noteq> idleproc s"
    "stride_rep (runnable_set s) s" "strides_close W s" "insert p (runnable_set s) \<subseteq> W"
  shows "if wqueues s sem = [] then cond_signal_start cvp w s = Some (True, s)
    else \<exists>s'. cond_signal_start cvp w s = Some (False, s') \<and> wqueues s' sem = tl (wqueues s sem) \<and>
      p_state (procs s' p) = PROC_RUNNABLE \<and> p \<in> runnable_set s' \<and> stride_rep (runnable_set s') s' \<and>
      wqueues s' nx = wqueues s nx @ [w] \<and> waiter s' w = c \<and> p_state (procs s' c) = PROC_SLEEPING \<and> p_wait_state (procs s' c) = WT_KSEM \<and>
      (\<forall>q. q \<noteq> p \<longrightarrow> q \<noteq> c \<longrightarrow> procs s' q = procs s q) \<and> m_next_count (mons s' mtp) = m_next_count (mons s mtp) + 1 \<and>
      semvals s' = semvals s \<and> wqueues s' (m_mutex (mons s mtp)) = wqueues s (m_mutex (mons s mtp))"
proof (cases "wqueues s sem")
  case Nil
  then show ?thesis using assms(5) by (simp add: cond_signal_start_def)
next
  case (Cons w0 ws)
  let ?s1 = "upd_mon mtp (\<lambda>m. m\<lparr>m_next_count := m_next_count m + 1\<rparr>) s"
  have ex: "run_q ?s1 = run_q s" "pools ?s1 = pools s" "idleproc ?s1 = idleproc s" by (simp_all add: upd_mon_def)
  have eq: "runnable_set ?s1 = runnable_set s" "waiter ?s1 = waiter s" "strides_close W ?s1 = strides_close W s"
    by (auto simp: runnable_set_def waiter_def strides_close_def ex fun_eq_iff)
  have r1: "stride_rep (runnable_set ?s1) ?s1" unfolding eq by (rule stride.rep_frame [OF assms(12)]) (simp_all add: ex)
  have p: "p = waiter ?s1 w0" by (simp add: p_def Cons eq)
  have q1: "wq_ok sem ?s1" "wqueues ?s1 sem = w0 # ws" using assms(6) Cons by (simp_all add: wq_ok_def)
  have pw: "p_wait_state (procs ?s1 (waiter ?s1 w0)) = WT_KSEM" "p_state (procs ?s1 (waiter ?s1 w0)) \<noteq> PROC_ZOMBIE" "p \<noteq> c" "p \<noteq> idleproc s"
    using assms(11) Cons by (simp_all add: p [symmetric])
  have W: "strides_close W ?s1" "insert (waiter ?s1 w0) (runnable_set ?s1) \<subseteq> W"
    using assms(13,14) unfolding eq p by (simp_all add: eq)
  obtain s2 where u: "up sem ?s1 = Some s2" "stride_rep (runnable_set s2) s2" "p_state (procs s2 p) = PROC_RUNNABLE"
    "\<forall>q. q \<noteq> p \<longrightarrow> procs s2 q = procs ?s1 q"
    using up_releases [OF q1 pw(1,2) r1 W] unfolding p [symmetric] by blast
  note e = up_waiting [OF q1 u(1)] and m = up_mon [OF u(1)]
  have n: "m_next (mons s2 mtp) = nx" "m_next_count (mons s2 mtp) = m_next_count (mons s mtp) + 1" by (simp_all add: m nx_def)
  have c2: "current s2 = Some c" "semvals s2 nx = 0" using assms(7,10) by (simp_all add: m e)
  obtain s' where d: "down_start nx w s2 = Some (False, s')" "semvals s' = semvals s2" "wqueues s' = (wqueues s2)(nx := wqueues s2 nx @ [w])"
    "waiter s' w = c" "mons s' = mons s2" "p_state (procs s' c) = PROC_SLEEPING" "p_wait_state (procs s' c) = WT_KSEM"
    "\<forall>q. q \<noteq> c \<longrightarrow> procs s' q = procs s2 q" "runnable_set s' = runnable_set s2" "stride_rep (runnable_set s') s'"
    using down_start_blocks [OF c2(2,1) u(2)] by blast
  have "cond_signal_start cvp w s = Some (False, s')"
    using assms(5) Cons u(1) d(1) n(1) by (simp add: cond_signal_start_def mtp_def [symmetric] sem_def [symmetric] Let_def)
  moreover have "p \<in> runnable_set s'" unfolding d(9) using u(3) pw(3,4) c2(1) ex(3) m(4) by (simp add: runnable_set_def)
  ultimately show ?thesis
    using Cons assms(8,9) e n(2) d u(3,4) pw(3) by auto
qed

definition example_mon :: mon_st where
  "example_mon = sync_st.extend (example_sync\<lparr>waits := \<lambda>_. \<lparr>w_proc = Some 3, w_flags = 0, w_queue = 50, w_linked = True\<rparr>,
      wqueues := (\<lambda>_. [])(50 := [60]),
      procs := (procs example_sync)(3 := (alloc_proc_init 0)\<lparr>p_state := PROC_SLEEPING, p_wait_state := WT_KSEM\<rparr>)\<rparr>)
     \<lparr>cvs = \<lambda>_. \<lparr>cv_sem = 50, cv_count = 1, cv_owner = 90\<rparr>,
      mons = \<lambda>_. \<lparr>m_mutex = 51, m_next = 52, m_next_count = 0, m_cv = Some 40\<rparr>\<rparr>"

theorem cond_signal_hand_over_witness:
  "\<exists>s'. cond_signal_start 40 61 example_mon = Some (False, s') \<and> wqueues s' 50 = [] \<and> wqueues s' 52 = [61] \<and>
    p_state (procs s' 3) = PROC_RUNNABLE \<and> 3 \<in> runnable_set s' \<and> p_state (procs s' 1) = PROC_SLEEPING"
proof -
  let ?s = example_mon
  have eq: "procs ?s = (procs example_st)(3 := (alloc_proc_init 0)\<lparr>p_state := PROC_SLEEPING, p_wait_state := WT_KSEM\<rparr>)"
    "current ?s = Some 1" "idleproc ?s = 0" "run_q ?s = run_q example_st" "pools ?s = pools example_st"
    "waits ?s = (\<lambda>_. \<lparr>w_proc = Some 3, w_flags = 0, w_queue = 50, w_linked = True\<rparr>)" "wqueues ?s = (\<lambda>_. [])(50 := [60])"
    "cvs ?s = (\<lambda>_. \<lparr>cv_sem = 50, cv_count = 1, cv_owner = 90\<rparr>)"
    "mons ?s = (\<lambda>_. \<lparr>m_mutex = 51, m_next = 52, m_next_count = 0, m_cv = Some 40\<rparr>)" "semvals ?s 52 = 0"
    by (simp_all add: example_mon_def sync_st.extend_def example_sync_def sched_st.extend_def example_st_def)
  have r: "runnable_set ?s = {2}"
    unfolding runnable_set_def eq by (auto simp: example_st_def alloc_proc_init_def split: if_splits)
  have rep: "stride_rep (runnable_set ?s) ?s"
    unfolding r by (rule stride_rep_single) (simp_all only: eq, simp_all add: example_st_def)
  have st: "p_lab6_stride (procs ?s p) = 0" for p
    unfolding eq by (simp add: example_window) (simp add: alloc_proc_init_def)
  have cl: "strides_close {2, 3} ?s"
    by (auto simp only: strides_close_def stride_window_def st) (auto intro!: exI [of _ 0])
  have wt: "waiter ?s 60 = 3" by (simp add: waiter_def eq)
  have ok: "wq_ok 50 ?s" by (simp add: wq_ok_def eq)
  from cond_signal_hand_over [of ?s 40 1 "{2, 3}" 61, OF _ _ _ _ _ _ _ rep cl] show ?thesis
    by (auto simp: eq ok r wt)
qed

end
