(* ===== verification/Pmm.thy ===== *)
theory Pmm
  imports DList
begin

text \<open>
  \<^verbatim>\<open>kern/mm/default_pmm.c\<close>: the first-fit page allocator.  A \<^verbatim>\<open>struct Page\<close> is named by its
  index in the array of pages and its \<^verbatim>\<open>page_link\<close> by the same number; the list
  head \<open>free_list\<close> is an address outside the array.  The free list is the pointer
  structure of theory DList, because the insertion loop of the source depends on its
  pointers: when the new block is the highest one, the loop links it twice.
\<close>

record page =
  pg_ref :: int
  pg_flags :: u64
  pg_property :: u32

record pmm_st =
  pages :: "nat \<Rightarrow> page"
  plinks :: lheap
  free_list :: ptr
  nr_free :: u32

definition PG_reserved :: nat where "PG_reserved = 0"
definition PG_property :: nat where "PG_property = 1"

definition PageReserved :: "page \<Rightarrow> bool" where
  "PageReserved p = bit (pg_flags p) PG_reserved"
definition PageProperty :: "page \<Rightarrow> bool" where
  "PageProperty p = bit (pg_flags p) PG_property"
definition SetPageProperty :: "page \<Rightarrow> page" where
  "SetPageProperty p = p\<lparr>pg_flags := set_bit PG_property (pg_flags p)\<rparr>"
definition ClearPageProperty :: "page \<Rightarrow> page" where
  "ClearPageProperty p = p\<lparr>pg_flags := unset_bit PG_property (pg_flags p)\<rparr>"
definition SetPageReserved :: "page \<Rightarrow> page" where
  "SetPageReserved p = p\<lparr>pg_flags := set_bit PG_reserved (pg_flags p)\<rparr>"

definition upd_page :: "nat \<Rightarrow> (page \<Rightarrow> page) \<Rightarrow> (nat \<Rightarrow> page) \<Rightarrow> nat \<Rightarrow> page" where
  "upd_page p f pg = pg(p := f (pg p))"

section \<open>Operations\<close>

definition default_init :: "pmm_st \<Rightarrow> pmm_st" where
  "default_init s = s\<lparr>plinks := list_init (free_list s) (plinks s), nr_free := 0\<rparr>"

text \<open>The page loops: \<open>init_memmap_pages\<close> and \<open>free_pages_clear\<close> run over \<open>n\<close> pages from \<open>p\<close>.\<close>

fun init_memmap_pages :: "nat \<Rightarrow> nat \<Rightarrow> (nat \<Rightarrow> page) \<Rightarrow> (nat \<Rightarrow> page) option" where
  "init_memmap_pages p 0 pg = Some pg"
| "init_memmap_pages p (Suc n) pg = do {
     kassert (PageReserved (pg p));
     init_memmap_pages (Suc p) n (upd_page p (\<lambda>x. x\<lparr>pg_flags := 0, pg_property := 0, pg_ref := 0\<rparr>) pg)
   }"

fun free_pages_clear :: "nat \<Rightarrow> nat \<Rightarrow> (nat \<Rightarrow> page) \<Rightarrow> (nat \<Rightarrow> page) option" where
  "free_pages_clear p 0 pg = Some pg"
| "free_pages_clear p (Suc n) pg = do {
     kassert (\<not> PageReserved (pg p) \<and> \<not> PageProperty (pg p));
     free_pages_clear (Suc p) n (upd_page p (\<lambda>x. x\<lparr>pg_flags := 0, pg_ref := 0\<rparr>) pg)
   }"

text \<open>The insertion loop of \<open>default_init_memmap\<close> and \<open>default_free_pages\<close>.\<close>

partial_function (option) insert_walk :: "ptr \<Rightarrow> ptr \<Rightarrow> ptr \<Rightarrow> lheap \<Rightarrow> lheap option" where
  "insert_walk fl base le h =
     (let le = list_next le h in
      if le = fl then Some h
      else if base < le then Some (list_add_before le base h)
      else if list_next le h = fl then insert_walk fl base le (list_add le base h)
      else insert_walk fl base le h)"

definition insert_block :: "ptr \<Rightarrow> ptr \<Rightarrow> lheap \<Rightarrow> lheap option" where
  "insert_block fl base h =
     (if list_empty fl h then Some (list_add fl base h) else insert_walk fl base fl h)"

definition default_init_memmap :: "nat \<Rightarrow> nat \<Rightarrow> pmm_st \<Rightarrow> pmm_st option" where
  "default_init_memmap base n s = do {
     kassert (n > 0);
     pg \<leftarrow> init_memmap_pages base n (pages s);
     let pg1 = upd_page base (\<lambda>x. SetPageProperty (x\<lparr>pg_property := of_nat n\<rparr>)) pg;
     h \<leftarrow> insert_block (free_list s) base (plinks s);
     Some (s\<lparr>pages := pg1, plinks := h, nr_free := nr_free s + of_nat n\<rparr>)
   }"

partial_function (option) find_fit :: "(nat \<Rightarrow> page) \<Rightarrow> lheap \<Rightarrow> ptr \<Rightarrow> nat \<Rightarrow> ptr \<Rightarrow> ptr option option" where
  "find_fit pg h fl n le =
     (let le = list_next le h in
      if le = fl then Some None
      else if unat (pg_property (pg le)) \<ge> n then Some (Some le)
      else find_fit pg h fl n le)"

declare insert_walk.simps [code] find_fit.simps [code]

definition default_alloc_pages :: "nat \<Rightarrow> pmm_st \<Rightarrow> (nat option \<times> pmm_st) option" where
  "default_alloc_pages n s = do {
     kassert (n > 0);
     if n > unat (nr_free s) then Some (None, s)
     else do {
       found \<leftarrow> find_fit (pages s) (plinks s) (free_list s) n (free_list s);
       (case found of None \<Rightarrow> Some (None, s)
        | Some page \<Rightarrow>
            let prev = list_prev page (plinks s);
                h1 = list_del page (plinks s);
                (pg2, h2) =
                  (if unat (pg_property (pages s page)) > n
                   then (upd_page (page + n)
                           (\<lambda>x. SetPageProperty (x\<lparr>pg_property := pg_property (pages s page) - of_nat n\<rparr>)) (pages s),
                         list_add prev (page + n) h1)
                   else (pages s, h1))
            in Some (Some page, s\<lparr>pages := upd_page page ClearPageProperty pg2, plinks := h2,
                                   nr_free := nr_free s - of_nat n\<rparr>))
     }
   }"

definition merge_prev :: "ptr \<Rightarrow> nat \<Rightarrow> (nat \<Rightarrow> page) \<Rightarrow> lheap \<Rightarrow> nat \<times> (nat \<Rightarrow> page) \<times> lheap" where
  "merge_prev fl base pg h =
     (let p = list_prev base h in
      if p \<noteq> fl \<and> p + unat (pg_property (pg p)) = base
      then (p, upd_page base ClearPageProperty
                 (upd_page p (\<lambda>x. x\<lparr>pg_property := pg_property x + pg_property (pg base)\<rparr>) pg),
            list_del base h)
      else (base, pg, h))"

definition merge_next :: "ptr \<Rightarrow> nat \<Rightarrow> (nat \<Rightarrow> page) \<Rightarrow> lheap \<Rightarrow> (nat \<Rightarrow> page) \<times> lheap" where
  "merge_next fl base pg h =
     (let p = list_next base h in
      if p \<noteq> fl \<and> base + unat (pg_property (pg base)) = p
      then (upd_page p ClearPageProperty
              (upd_page base (\<lambda>x. x\<lparr>pg_property := pg_property x + pg_property (pg p)\<rparr>) pg),
            list_del p h)
      else (pg, h))"

definition default_free_pages :: "nat \<Rightarrow> nat \<Rightarrow> pmm_st \<Rightarrow> pmm_st option" where
  "default_free_pages base n s = do {
     kassert (n > 0);
     pg0 \<leftarrow> free_pages_clear base n (pages s);
     let pg1 = upd_page base (\<lambda>x. SetPageProperty (x\<lparr>pg_property := of_nat n\<rparr>)) pg0;
     h1 \<leftarrow> insert_block (free_list s) base (plinks s);
     let (b2, pg2, h2) = merge_prev (free_list s) base pg1 h1;
     let (pg3, h3) = merge_next (free_list s) b2 pg2 h2;
     Some (s\<lparr>pages := pg3, plinks := h3, nr_free := nr_free s + of_nat n\<rparr>)
   }"

definition default_nr_free_pages :: "pmm_st \<Rightarrow> u32" where
  "default_nr_free_pages s = nr_free s"

section \<open>The free list\<close>

definition psize :: "(nat \<Rightarrow> page) \<Rightarrow> nat \<Rightarrow> nat" where
  "psize pg p = unat (pg_property (pg p))"

definition block :: "(nat \<Rightarrow> page) \<Rightarrow> nat \<Rightarrow> nat set" where
  "block pg p = {p..<p + psize pg p}"

definition free_set :: "(nat \<Rightarrow> page) \<Rightarrow> nat list \<Rightarrow> nat set" where
  "free_set pg xs = (\<Union>p\<in>set xs. block pg p)"

text \<open>
  Blocks in ascending order, never empty, never adjacent; of the \<open>np\<close> pages exactly the heads of
  blocks carry the property flag; the counter counts the free pages.
\<close>

definition blocks_ok :: "nat \<Rightarrow> (nat \<Rightarrow> page) \<Rightarrow> nat list \<Rightarrow> bool" where
  "blocks_ok np pg xs \<longleftrightarrow> sorted_wrt (\<lambda>p q. p + psize pg p < q) xs \<and>
     (\<forall>p\<in>set xs. 0 < psize pg p \<and> p + psize pg p \<le> np) \<and> (\<forall>p<np. PageProperty (pg p) \<longleftrightarrow> p \<in> set xs)"

definition pmm_inv :: "nat \<Rightarrow> pmm_st \<Rightarrow> nat list \<Rightarrow> bool" where
  "pmm_inv np s xs \<longleftrightarrow> is_dlist (plinks s) (free_list s) xs \<and> np \<le> free_list s \<and>
     blocks_ok np (pages s) xs \<and> unat (nr_free s) = (\<Sum>p\<leftarrow>xs. psize (pages s) p)"

lemma flag_simps [simp]:
  "PageProperty (SetPageProperty p)" "\<not> PageProperty (ClearPageProperty p)"
  "pg_property (SetPageProperty p) = pg_property p" "pg_property (ClearPageProperty p) = pg_property p"
  "PageReserved (SetPageProperty p) = PageReserved p" "PageReserved (ClearPageProperty p) = PageReserved p"
  "PageProperty (p\<lparr>pg_property := v\<rparr>) = PageProperty p" "PageReserved (p\<lparr>pg_property := v\<rparr>) = PageReserved p"
  by (simp_all add: PageProperty_def PageReserved_def SetPageProperty_def ClearPageProperty_def PG_property_def
      PG_reserved_def bit_set_bit_iff bit_unset_bit_iff)

lemma find_fit_chain:
  "is_dlist h l (us @ vs) \<Longrightarrow> le = last (l # us) \<Longrightarrow>
   find_fit pg h l n le = Some (case filter (\<lambda>p. n \<le> psize pg p) vs of [] \<Rightarrow> None | p # _ \<Rightarrow> Some p)"
proof (induction vs arbitrary: us le)
  case Nil
  have "list_next le h = l" using list_next_after [OF Nil.prems(1)] Nil.prems(2) by simp
  then show ?case by (subst find_fit.simps) simp
next
  case (Cons v vs)
  have "v \<noteq> l" using Cons.prems(1) by (auto simp: is_dlist_def)
  moreover have "list_next le h = v" using list_next_after [OF Cons.prems(1)] Cons.prems(2) by simp
  ultimately show ?case
    using Cons.IH [of "us @ [v]" v] Cons.prems(1) by (subst find_fit.simps) (simp add: psize_def)
qed

text \<open>The insertion loop works when some block lies above the new one.\<close>

lemma insert_walk_chain:
  "is_dlist h l (us @ vs) \<Longrightarrow> le = last (l # us) \<Longrightarrow> base \<notin> set (l # us @ vs) \<Longrightarrow> \<exists>v\<in>set vs. base < v \<Longrightarrow>
   \<exists>h'. insert_walk l base le h = Some h' \<and>
     is_dlist h' l (us @ takeWhile (\<lambda>v. v < base) vs @ base # dropWhile (\<lambda>v. v < base) vs)"
proof (induction vs arbitrary: us le)
  case (Cons v vs)
  have v: "v \<noteq> l" "v \<noteq> base" using Cons.prems(1,3) by (auto simp: is_dlist_def)
  have nx: "list_next le h = v" using list_next_after [OF Cons.prems(1)] Cons.prems(2) by simp
  show ?case
  proof (cases "base < v")
    case True
    then have "insert_walk l base le h = Some (list_add_before v base h)"
      by (subst insert_walk.simps) (simp add: nx v)
    then show ?thesis using list_add_before_mid [OF Cons.prems(1,3)] True by simp
  next
    case False
    then have ex: "\<exists>v\<in>set vs. base < v" using Cons.prems(4) by auto
    then obtain w ws where vs: "vs = w # ws" by (cases vs) auto
    have "list_next v h = w"
      using list_next_after [of h l "us @ [v]" vs] Cons.prems(1) vs by simp
    moreover have "w \<noteq> l" using Cons.prems(1) vs by (auto simp: is_dlist_def)
    ultimately have "insert_walk l base le h = insert_walk l base v h"
      using False v by (subst insert_walk.simps) (simp add: nx)
    then show ?thesis
      using Cons.IH [of "us @ [v]" v] Cons.prems ex v False by (simp add: not_less le_less)
  qed
qed simp

lemma insert_block_ok:
  assumes "is_dlist h l xs" "base \<notin> set (l # xs)" "xs = [] \<or> (\<exists>v\<in>set xs. base < v)"
  shows "\<exists>h'. insert_block l base h = Some h' \<and>
    is_dlist h' l (takeWhile (\<lambda>v. v < base) xs @ base # dropWhile (\<lambda>v. v < base) xs)"
proof (cases "xs = []")
  case True
  then show ?thesis
    using assms list_add_after_head [of h l "[]" base] by (auto simp: insert_block_def list_empty_iff list_add_def)
next
  case False
  then show ?thesis
    using assms insert_walk_chain [of h l "[]" xs l base] by (auto simp: insert_block_def list_empty_iff)
qed

section \<open>Allocation\<close>

lemma psize_le_sum: "p \<in> set xs \<Longrightarrow> psize pg p \<le> (\<Sum>p\<leftarrow>xs. psize pg p)"
  by (simp add: member_le_sum_list)

lemma free_set_append [simp]:
  "free_set pg (xs @ ys) = free_set pg xs \<union> free_set pg ys" "free_set pg (p # xs) = block pg p \<union> free_set pg xs"
  "free_set pg [] = {}"
  by (auto simp: free_set_def)

lemma free_set_cong: "(\<And>p. p \<in> set xs \<Longrightarrow> psize pg' p = psize pg p) \<Longrightarrow> free_set pg' xs = free_set pg xs"
  by (auto simp: free_set_def block_def)

lemma sum_psize_cong: "(\<And>p. p \<in> set xs \<Longrightarrow> psize pg' p = psize pg p) \<Longrightarrow> (\<Sum>p\<leftarrow>xs. psize pg' p) = (\<Sum>p\<leftarrow>xs. psize pg p)"
  by (metis map_cong)

lemma sorted_blocks_cong:
  "(\<And>p. p \<in> set xs \<Longrightarrow> psize pg' p = psize pg p) \<Longrightarrow>
   sorted_wrt (\<lambda>p q. p + psize pg p < q) xs \<Longrightarrow> sorted_wrt (\<lambda>p q. p + psize pg' p < q) xs"
  by (erule sorted_wrt_mono_rel [rotated]) auto

text \<open>Taking \<open>n\<close> pages from the front of block \<open>p\<close>.\<close>

lemma alloc_blocks:
  assumes ok: "blocks_ok np pg (us @ p # vs)" and n: "0 < n" "n \<le> psize pg p"
  defines "ms \<equiv> (if n < psize pg p then [p + n] else [])"
    and "pg' \<equiv> upd_page p ClearPageProperty (if n < psize pg p
      then upd_page (p + n) (\<lambda>x. SetPageProperty (x\<lparr>pg_property := pg_property (pg p) - of_nat n\<rparr>)) pg else pg)"
  shows "blocks_ok np pg' (us @ ms @ vs) \<and> free_set pg' (us @ ms @ vs) = free_set pg (us @ p # vs) - {p..<p + n} \<and>
    {p..<p + n} \<subseteq> free_set pg (us @ p # vs) \<and>
    (\<Sum>p\<leftarrow>us @ ms @ vs. psize pg' p) + n = (\<Sum>p\<leftarrow>us @ p # vs. psize pg p)"
proof -
  have ord: "\<And>u. u \<in> set us \<Longrightarrow> u + psize pg u < p" "\<And>v. v \<in> set vs \<Longrightarrow> p + psize pg p < v"
    "\<And>u v. u \<in> set us \<Longrightarrow> v \<in> set vs \<Longrightarrow> u + psize pg u < v"
    "sorted_wrt (\<lambda>p q. p + psize pg p < q) us" "sorted_wrt (\<lambda>p q. p + psize pg p < q) vs"
    using ok by (auto simp: blocks_ok_def sorted_wrt_append)
  have le: "(of_nat n :: u32) \<le> pg_property (pg p)" "unat (of_nat n :: u32) = n"
    using n unsigned_less [of "pg_property (pg p)", where ?'a = nat] by (auto simp: psize_def word_le_nat_alt unat_of_nat)
  have sz: "psize pg' (p + n) = psize pg p - n" if "n < psize pg p"
    using that n le by (simp add: pg'_def upd_page_def psize_def unat_sub)
  have same: "psize pg' u = psize pg u" if "u \<noteq> p + n" for u
    using that by (auto simp: pg'_def upd_page_def psize_def)
  have us: "psize pg' u = psize pg u" if "u \<in> set us" for u
    using ord(1) [OF that] same [of u] by linarith
  have vs: "psize pg' v = psize pg v" if "v \<in> set vs" for v
    using ord(2) [OF that] same [of v] n by linarith
  have flag: "PageProperty (pg' q) \<longleftrightarrow> (q = p + n \<and> n < psize pg p) \<or> (q \<noteq> p \<and> PageProperty (pg q))" for q
    using n by (auto simp: pg'_def upd_page_def)
  have pin: "p \<notin> set us" "p \<notin> set vs" "p + n \<notin> set us" using ord(1,2) by fastforce+
  have np: "p + psize pg p \<le> np" using ok by (simp add: blocks_ok_def)
  have "blocks_ok np pg' (us @ ms @ vs)"
  proof -
    have "sorted_wrt (\<lambda>p q. p + psize pg' p < q) (us @ ms @ vs)"
    proof -
      have "sorted_wrt (\<lambda>p q. p + psize pg' p < q) us" "sorted_wrt (\<lambda>p q. p + psize pg' p < q) vs"
        using ord(4,5) us vs by (auto intro: sorted_blocks_cong [of _ pg' pg])
      then show ?thesis
        using ord(1-3) us n sz by (fastforce simp: ms_def sorted_wrt_append)
    qed
    moreover have "\<forall>q\<in>set (us @ ms @ vs). 0 < psize pg' q \<and> q + psize pg' q \<le> np"
      using ok us vs sz n np by (auto simp: ms_def blocks_ok_def)
    moreover have "\<forall>q<np. PageProperty (pg' q) \<longleftrightarrow> q \<in> set (us @ ms @ vs)"
      using ok pin unfolding flag by (auto simp: ms_def blocks_ok_def)
    ultimately show ?thesis by (simp add: blocks_ok_def)
  qed
  moreover have "free_set pg' us = free_set pg us" "free_set pg' vs = free_set pg vs"
    using free_set_cong [OF us] free_set_cong [OF vs] by auto
  moreover have "free_set pg us \<inter> {p..<p + n} = {}" "free_set pg vs \<inter> {p..<p + n} = {}"
    using ord(1,2) n by (fastforce simp: free_set_def block_def)+
  moreover have "free_set pg' ms = block pg p - {p..<p + n}"
    using sz n by (auto simp: ms_def block_def)
  moreover have "{p..<p + n} \<subseteq> block pg p" using n by (auto simp: block_def)
  moreover have "(\<Sum>p\<leftarrow>us @ ms @ vs. psize pg' p) + n = (\<Sum>p\<leftarrow>us @ p # vs. psize pg p)"
    using sum_psize_cong [OF us] sum_psize_cong [OF vs] sz n by (simp add: ms_def)
  ultimately show ?thesis by (simp add: Un_Diff) blast
qed

lemma filter_Cons_split:
  assumes "filter P xs = p # ps"
  obtains us vs where "xs = us @ p # vs" "P p" "\<forall>u\<in>set us. \<not> P u"
  using assms unfolding filter_eq_Cons_iff by blast

lemma alloc_links:
  assumes d: "is_dlist h l (us @ p # vs)" and m: "m \<notin> set (l # us @ p # vs)"
  shows "is_dlist (list_add (list_prev p h) m (list_del p h)) l (us @ m # vs)"
proof -
  have pr: "list_prev p h = last (l # us)" by (rule list_prev_mid [OF d])
  note dd = list_del_is_dlist [OF d]
  show ?thesis
  proof (cases us rule: rev_cases)
    case Nil
    then show ?thesis using list_add_after_head [OF dd [unfolded Nil append_Nil], of m] m pr
      by (simp add: list_add_def)
  next
    case (snoc ws w)
    then show ?thesis using list_add_after_mid [of "list_del p h" l ws w vs m] dd m pr
      by (simp add: list_add_def)
  qed
qed

lemma default_alloc_spec:
  assumes "pmm_inv np s xs" "0 < n"
  shows "(case filter (\<lambda>p. n \<le> psize (pages s) p) xs of
      [] \<Rightarrow> default_alloc_pages n s = Some (None, s)
    | p # _ \<Rightarrow> \<exists>s' xs'. default_alloc_pages n s = Some (Some p, s') \<and> pmm_inv np s' xs' \<and>
        {p..<p + n} \<subseteq> free_set (pages s) xs \<and>
        free_set (pages s') xs' = free_set (pages s) xs - {p..<p + n} \<and>
        unat (default_nr_free_pages s') + n = unat (default_nr_free_pages s))"
proof -
  have d: "is_dlist (plinks s) (free_list s) ([] @ xs)" and ok: "blocks_ok np (pages s) xs"
    and cnt: "unat (nr_free s) = (\<Sum>p\<leftarrow>xs. psize (pages s) p)" and hd: "np \<le> free_list s"
    using assms(1) by (auto simp: pmm_inv_def)
  note ff = find_fit_chain [OF d refl, of "pages s" n, simplified]
  show ?thesis
  proof (cases "filter (\<lambda>p. n \<le> psize (pages s) p) xs")
    case Nil
    then show ?thesis using assms(2) ff by (simp add: default_alloc_pages_def)
  next
    case (Cons p ps)
    then obtain us vs where xs: "xs = us @ p # vs" and fit: "n \<le> psize (pages s) p"
      by (rule filter_Cons_split)
    have le: "n \<le> unat (nr_free s)"
      using fit psize_le_sum [of p xs "pages s"] cnt xs by simp
    define pg' where "pg' = upd_page p ClearPageProperty (if n < psize (pages s) p
      then upd_page (p + n) (\<lambda>x. SetPageProperty (x\<lparr>pg_property := pg_property (pages s p) - of_nat n\<rparr>)) (pages s)
      else pages s)"
    define ms where "ms = (if n < psize (pages s) p then [p + n] else [])"
    define h' where "h' = (if n < psize (pages s) p
      then list_add (list_prev p (plinks s)) (p + n) (list_del p (plinks s)) else list_del p (plinks s))"
    let ?s' = "s\<lparr>pages := pg', plinks := h', nr_free := nr_free s - of_nat n\<rparr>"
    have ev: "default_alloc_pages n s = Some (Some p, ?s')"
      using assms(2) ff le Cons by (simp add: default_alloc_pages_def Let_def pg'_def h'_def psize_def)
    note ab = alloc_blocks [OF ok [unfolded xs] assms(2) fit, folded ms_def pg'_def]
    have "p + n \<notin> set (free_list s # xs)" if "n < psize (pages s) p"
      using ok that assms(2) hd unfolding xs by (fastforce simp: blocks_ok_def sorted_wrt_append)
    then have "is_dlist h' (free_list s) (us @ ms @ vs)"
      using alloc_links [of "plinks s" "free_list s" us p vs "p + n"] list_del_is_dlist [of "plinks s" "free_list s" us p vs] d xs
      by (auto simp: h'_def ms_def)
    moreover have un: "unat (nr_free s - of_nat n) = unat (nr_free s) - n"
      using le unsigned_less [of "nr_free s", where ?'a = nat] by (simp add: unat_sub word_le_nat_alt unat_of_nat)
    moreover have "(\<Sum>p\<leftarrow>us @ ms @ vs. psize pg' p) + n = unat (nr_free s)" using ab cnt xs by simp
    then have "unat (nr_free s - of_nat n) = (\<Sum>p\<leftarrow>us @ ms @ vs. psize pg' p)" using un by linarith
    ultimately have "pmm_inv np ?s' (us @ ms @ vs)"
      using ab hd by (simp add: pmm_inv_def)
    then show ?thesis
      using Cons ev ab xs un le by (auto simp: default_nr_free_pages_def)
  qed
qed

text \<open>
  C9. First fit: on a well-formed free list, \<open>default_alloc_pages\<close> terminates; it fails, changing
  nothing, exactly when no block has \<open>n\<close> pages; otherwise it returns the lowest block that
  is large enough, the \<open>n\<close> pages it hands out were free and exactly they stop being free, and the free
  list stays sorted, coalesced and counted.
\<close>

theorem default_alloc_first_fit:
  assumes "pmm_inv np s xs" "0 < n"
  shows "(case filter (\<lambda>p. n \<le> psize (pages s) p) xs of
      [] \<Rightarrow> default_alloc_pages n s = Some (None, s)
    | p # _ \<Rightarrow> \<exists>s' xs'. default_alloc_pages n s = Some (Some p, s') \<and> pmm_inv np s' xs' \<and>
        {p..<p + n} \<subseteq> free_set (pages s) xs \<and>
        free_set (pages s') xs' = free_set (pages s) xs - {p..<p + n} \<and>
        unat (default_nr_free_pages s') + n = unat (default_nr_free_pages s))"
  using assms by (rule default_alloc_spec)

section \<open>Release\<close>

lemma free_pages_clear_ok:
  assumes "\<forall>p\<in>{base..<base + n}. \<not> PageReserved (pg p) \<and> \<not> PageProperty (pg p)"
  shows "free_pages_clear base n pg = Some (\<lambda>p. if p \<in> {base..<base + n} then (pg p)\<lparr>pg_flags := 0, pg_ref := 0\<rparr> else pg p)"
  using assms
proof (induction n arbitrary: base pg)
  case (Suc n)
  have "free_pages_clear (Suc base) n (upd_page base (\<lambda>x. x\<lparr>pg_flags := 0, pg_ref := 0\<rparr>) pg) =
    Some (\<lambda>p. if p \<in> {Suc base..<Suc base + n} then (upd_page base (\<lambda>x. x\<lparr>pg_flags := 0, pg_ref := 0\<rparr>) pg p)\<lparr>pg_flags := 0, pg_ref := 0\<rparr>
      else upd_page base (\<lambda>x. x\<lparr>pg_flags := 0, pg_ref := 0\<rparr>) pg p)"
    using Suc.prems by (intro Suc.IH) (auto simp: upd_page_def)
  then show ?case
    using Suc.prems by (auto simp: upd_page_def fun_eq_iff)
qed simp

text \<open>Blocks that may touch each other, as between the insertion of a block and its merging.\<close>

definition blocks_le :: "nat \<Rightarrow> (nat \<Rightarrow> page) \<Rightarrow> nat list \<Rightarrow> bool" where
  "blocks_le np pg xs \<longleftrightarrow> sorted_wrt (\<lambda>p q. p + psize pg p \<le> q) xs \<and>
     (\<forall>p\<in>set xs. 0 < psize pg p \<and> p + psize pg p \<le> np) \<and> (\<forall>p<np. PageProperty (pg p) \<longleftrightarrow> p \<in> set xs)"

lemma blocks_le_total:
  assumes "blocks_le np pg xs" shows "(\<Sum>p\<leftarrow>xs. psize pg p) \<le> np"
proof -
  have "(\<Sum>p\<leftarrow>xs. psize pg p) \<le> np - a" if "sorted_wrt (\<lambda>p q. p + psize pg p \<le> q) xs" "\<forall>p\<in>set xs. a \<le> p \<and> p + psize pg p \<le> np" for a
    using that
  proof (induction xs arbitrary: a)
    case (Cons x xs)
    have "(\<Sum>p\<leftarrow>xs. psize pg p) \<le> np - (x + psize pg x)"
      using Cons.prems by (intro Cons.IH) auto
    then show ?case using Cons.prems by force
  qed simp
  from this [of 0] show ?thesis using assms by (simp add: blocks_le_def)
qed

lemma merge_blocks:
  assumes ok: "blocks_le np pg (us @ p # q # vs)" and adj: "p + psize pg p = q" and np: "np < 2 ^ 32"
  defines "pg' \<equiv> upd_page q ClearPageProperty (upd_page p (\<lambda>x. x\<lparr>pg_property := pg_property x + pg_property (pg q)\<rparr>) pg)"
  shows "blocks_le np pg' (us @ p # vs) \<and> free_set pg' (us @ p # vs) = free_set pg (us @ p # q # vs) \<and>
    (\<Sum>p\<leftarrow>us @ p # vs. psize pg' p) = (\<Sum>p\<leftarrow>us @ p # q # vs. psize pg p) \<and>
    psize pg' p = psize pg p + psize pg q \<and> (\<forall>u. u \<noteq> p \<longrightarrow> psize pg' u = psize pg u)"
proof -
  have pos: "0 < psize pg p" "0 < psize pg q" "q + psize pg q \<le> np" using ok by (auto simp: blocks_le_def)
  have pq: "p \<noteq> q" using adj pos by simp
  have szp: "psize pg' p = psize pg p + psize pg q"
    using pq pos adj np by (simp add: pg'_def upd_page_def psize_def unat_word_ariths)
  have same: "psize pg' u = psize pg u" if "u \<noteq> p" for u
    using that pq by (simp add: pg'_def upd_page_def psize_def)
  have flag: "PageProperty (pg' u) \<longleftrightarrow> u \<noteq> q \<and> PageProperty (pg u)" for u
    by (auto simp: pg'_def upd_page_def)
  have ord: "\<And>u. u \<in> set us \<Longrightarrow> u + psize pg u \<le> p" "\<And>v. v \<in> set vs \<Longrightarrow> q + psize pg q \<le> v"
    "\<And>u v. u \<in> set us \<Longrightarrow> v \<in> set vs \<Longrightarrow> u + psize pg u \<le> v"
    "sorted_wrt (\<lambda>p q. p + psize pg p \<le> q) us" "sorted_wrt (\<lambda>p q. p + psize pg p \<le> q) vs"
    "\<And>u. u \<in> set us \<Longrightarrow> 0 < psize pg u"
    using ok by (auto simp: blocks_le_def sorted_wrt_append)
  have us: "u \<noteq> p" "u \<noteq> q" if "u \<in> set us" for u using ord(1,6) [OF that] adj pos by auto
  have vs: "v \<noteq> p" "v \<noteq> q" if "v \<in> set vs" for v using ord(2) [OF that] adj pos by auto
  have "sorted_wrt (\<lambda>p q. p + psize pg' p \<le> q) us" "sorted_wrt (\<lambda>p q. p + psize pg' p \<le> q) vs"
    by (rule sorted_wrt_mono_rel [OF _ ord(4)], use us same in simp)
      (rule sorted_wrt_mono_rel [OF _ ord(5)], use vs same in simp)
  then have "sorted_wrt (\<lambda>p q. p + psize pg' p \<le> q) (us @ p # vs)"
    using ord(1-3) us same szp adj by (fastforce simp: sorted_wrt_append)
  moreover have "\<forall>u\<in>set (us @ p # vs). 0 < psize pg' u \<and> u + psize pg' u \<le> np"
    using ok us vs same szp adj pos by (auto simp: blocks_le_def)
  moreover have "\<forall>u<np. PageProperty (pg' u) \<longleftrightarrow> u \<in> set (us @ p # vs)"
    using ok us vs pq unfolding flag by (auto simp: blocks_le_def)
  ultimately have "blocks_le np pg' (us @ p # vs)" by (simp add: blocks_le_def)
  moreover have "free_set pg' us = free_set pg us" "free_set pg' vs = free_set pg vs"
    "(\<Sum>p\<leftarrow>us. psize pg' p) = (\<Sum>p\<leftarrow>us. psize pg p)" "(\<Sum>p\<leftarrow>vs. psize pg' p) = (\<Sum>p\<leftarrow>vs. psize pg p)"
    by (intro free_set_cong sum_psize_cong same us vs; assumption)+
  moreover have "block pg' p = block pg p \<union> block pg q" using szp adj by (auto simp: block_def)
  ultimately show ?thesis using szp same by auto
qed

lemma blocks_okI:
  assumes "blocks_le np pg (us @ p # vs)"
    and "sorted_wrt (\<lambda>p q. p + psize pg p < q) us" "sorted_wrt (\<lambda>p q. p + psize pg p < q) vs"
    and "us \<noteq> [] \<Longrightarrow> last us + psize pg (last us) < p" "vs \<noteq> [] \<Longrightarrow> p + psize pg p < hd vs"
  shows "blocks_ok np pg (us @ p # vs)"
proof -
  have l: "u + psize pg u < p" if u: "u \<in> set us" for u
  proof (cases us rule: rev_cases)
    case (snoc ws w)
    then show ?thesis using u assms(1,2,4) by (force simp: sorted_wrt_append blocks_le_def)
  qed (use u in simp)
  have r: "p + psize pg p < v" if v: "v \<in> set vs" for v
    using v assms(3,5) by (cases vs) force+
  have "u + psize pg u < v" if "u \<in> set us" "v \<in> set vs" for u v
    using l [OF that(1)] r [OF that(2)] by linarith
  then show ?thesis
    using assms(1-3) l r by (auto simp: blocks_ok_def blocks_le_def sorted_wrt_append)
qed

lemma insert_blocks:
  assumes ok: "blocks_ok np pg xs" and n: "0 < n" "base + n \<le> np" "np < 2 ^ 32"
    and dj: "{base..<base + n} \<inter> free_set pg xs = {}"
  defines "us \<equiv> takeWhile (\<lambda>v. v < base) xs" and "vs \<equiv> dropWhile (\<lambda>v. v < base) xs"
    and "pg1 \<equiv> upd_page base (\<lambda>x. SetPageProperty (x\<lparr>pg_property := of_nat n\<rparr>))
      (\<lambda>p. if p \<in> {base..<base + n} then (pg p)\<lparr>pg_flags := 0, pg_ref := 0\<rparr> else pg p)"
  shows "blocks_le np pg1 (us @ base # vs) \<and> psize pg1 base = n \<and> (\<forall>u. u \<noteq> base \<longrightarrow> psize pg1 u = psize pg u) \<and>
    base \<notin> set xs \<and> free_set pg1 (us @ base # vs) = free_set pg xs \<union> {base..<base + n} \<and>
    (\<Sum>p\<leftarrow>us @ base # vs. psize pg1 p) = (\<Sum>p\<leftarrow>xs. psize pg p) + n"
proof -
  have xs: "xs = us @ vs" by (simp add: us_def vs_def)
  have pos: "\<And>x. x \<in> set xs \<Longrightarrow> 0 < psize pg x" using ok by (simp add: blocks_ok_def)
  have outp: "x \<notin> {base..<base + n}" if "x \<in> set xs" for x
    using dj pos [OF that] that by (fastforce simp: free_set_def block_def)
  then have nb: "base \<notin> set xs" using n(1) by force
  have szb: "psize pg1 base = n"
    using n by (simp add: pg1_def upd_page_def psize_def unat_of_nat)
  have same: "psize pg1 u = psize pg u" if "u \<noteq> base" for u
    using that by (simp add: pg1_def upd_page_def psize_def)
  have so: "sorted_wrt (\<lambda>p q. p + psize pg p < q) us" "sorted_wrt (\<lambda>p q. p + psize pg p < q) vs"
    "\<And>u v. u \<in> set us \<Longrightarrow> v \<in> set vs \<Longrightarrow> u + psize pg u < v"
    using ok unfolding xs by (auto simp: blocks_ok_def sorted_wrt_append)
  have u: "u + psize pg u \<le> base" if "u \<in> set us" for u
  proof (rule ccontr)
    assume "\<not> u + psize pg u \<le> base"
    moreover have "u < base" using that by (auto simp: us_def dest: set_takeWhileD)
    ultimately have "base \<in> block pg u" by (simp add: block_def)
    then show False using dj n(1) that unfolding xs free_set_def by fastforce
  qed
  have v: "base + n \<le> v" if v: "v \<in> set vs" for v
  proof -
    obtain w ws where vs: "vs = w # ws" using v by (cases vs) auto
    have "\<not> w < base" using vs unfolding vs_def by (simp add: dropWhile_eq_Cons_conv)
    moreover have "w \<le> v" using v so(2) vs by force
    moreover have "v \<in> set xs" using v xs by simp
    ultimately show ?thesis using outp [of v] by force
  qed
  have sub: "u \<noteq> base" if "u \<in> set us \<union> set vs" for u using that nb xs by auto
  have "sorted_wrt (\<lambda>p q. p + psize pg1 p \<le> q) us" "sorted_wrt (\<lambda>p q. p + psize pg1 p \<le> q) vs"
    by (rule sorted_wrt_mono_rel [OF _ so(1)], use sub same in force)
      (rule sorted_wrt_mono_rel [OF _ so(2)], use sub same in force)
  then have "sorted_wrt (\<lambda>p q. p + psize pg1 p \<le> q) (us @ base # vs)"
    using u v so(3) sub same szb by (fastforce simp: sorted_wrt_append)
  moreover have "\<forall>u\<in>set (us @ base # vs). 0 < psize pg1 u \<and> u + psize pg1 u \<le> np"
    using ok n szb same sub unfolding xs by (auto simp: blocks_ok_def)
  moreover have "\<forall>u<np. PageProperty (pg1 u) \<longleftrightarrow> u \<in> set (us @ base # vs)"
    using ok outp nb unfolding xs by (auto simp: blocks_ok_def pg1_def upd_page_def PageProperty_def SetPageProperty_def
        PG_property_def bit_set_bit_iff)
  ultimately have "blocks_le np pg1 (us @ base # vs)" by (simp add: blocks_le_def)
  moreover have "free_set pg1 us = free_set pg us" "free_set pg1 vs = free_set pg vs"
    "(\<Sum>p\<leftarrow>us. psize pg1 p) = (\<Sum>p\<leftarrow>us. psize pg p)" "(\<Sum>p\<leftarrow>vs. psize pg1 p) = (\<Sum>p\<leftarrow>vs. psize pg p)"
    by (intro free_set_cong sum_psize_cong same; use sub in blast)+
  ultimately show ?thesis
    using szb same nb by (auto simp: xs block_def)
qed

text \<open>Merging to the left: the list \<open>us @ base # vs\<close> becomes \<open>us2 @ b2 # vs\<close>.\<close>

lemma merge_left:
  assumes le: "blocks_le np pg (us @ base # vs)" and d: "is_dlist h fl (us @ base # vs)" and np: "np < 2 ^ 32"
    and su: "sorted_wrt (\<lambda>p q. p + psize pg p < q) us" and fl: "np \<le> fl"
  obtains us2 b2 pg2 h2 where "merge_prev fl base pg h = (b2, pg2, h2)" "blocks_le np pg2 (us2 @ b2 # vs)" "is_dlist h2 fl (us2 @ b2 # vs)"
    "free_set pg2 (us2 @ b2 # vs) = free_set pg (us @ base # vs)"
    "(\<Sum>p\<leftarrow>us2 @ b2 # vs. psize pg2 p) = (\<Sum>p\<leftarrow>us @ base # vs. psize pg p)"
    "sorted_wrt (\<lambda>p q. p + psize pg2 p < q) us2" "us2 \<noteq> [] \<Longrightarrow> last us2 + psize pg2 (last us2) < b2"
    "\<And>v. v \<in> set vs \<Longrightarrow> psize pg2 v = psize pg v"
proof (cases us rule: rev_cases)
  case Nil
  have "list_prev base h = fl" using list_prev_mid [OF d] Nil by simp
  then show ?thesis using that [of base pg h "[]"] le d Nil by (simp add: merge_prev_def Let_def)
next
  case (snoc ws w)
  have pw: "list_prev base h = w" using list_prev_mid [OF d] snoc by simp
  have wf: "w \<noteq> fl" "distinct (us @ base # vs)" using d snoc by (auto simp: is_dlist_def)
  have wl: "w + psize pg w \<le> base" using le snoc by (auto simp: blocks_le_def sorted_wrt_append)
  show ?thesis
  proof (cases "w + psize pg w = base")
    case False
    then show ?thesis
      using that [of base pg h us] le d su wl snoc by (simp add: merge_prev_def Let_def pw psize_def)
  next
    case True
    let ?pg = "upd_page base ClearPageProperty (upd_page w (\<lambda>x. x\<lparr>pg_property := pg_property x + pg_property (pg base)\<rparr>) pg)"
    have le': "blocks_le np pg (ws @ w # base # vs)" using le snoc by simp
    note mb = merge_blocks [OF le' True np]
    have d': "is_dlist (list_del base h) fl (ws @ w # vs)"
      using list_del_is_dlist [of h fl us base vs] d snoc by simp
    have same: "psize ?pg u = psize pg u" if "u \<in> set ws \<union> set vs" for u
      using mb that wf snoc by auto
    have sw: "sorted_wrt (\<lambda>p q. p + psize ?pg p < q) ws"
      using su same snoc by (auto simp: sorted_wrt_append intro: sorted_blocks_cong)
    have lw: "last ws + psize ?pg (last ws) < w" if "ws \<noteq> []"
      using su same [of "last ws"] snoc that by (simp add: sorted_wrt_append)
    show ?thesis
      by (rule that [of w ?pg "list_del base h" ws])
        (use mb d' sw lw same True wf snoc in \<open>auto simp: merge_prev_def Let_def pw psize_def\<close>)
  qed
qed

lemma merge_right:
  assumes le: "blocks_le np pg (us @ base # vs)" and d: "is_dlist h fl (us @ base # vs)" and np: "np < 2 ^ 32"
    and su: "sorted_wrt (\<lambda>p q. p + psize pg p < q) us" "us \<noteq> [] \<Longrightarrow> last us + psize pg (last us) < base"
    and sv: "sorted_wrt (\<lambda>p q. p + psize pg p < q) vs"
  obtains xs pg3 h3 where "merge_next fl base pg h = (pg3, h3)" "blocks_ok np pg3 xs" "is_dlist h3 fl xs"
    "free_set pg3 xs = free_set pg (us @ base # vs)"
    "(\<Sum>p\<leftarrow>xs. psize pg3 p) = (\<Sum>p\<leftarrow>us @ base # vs. psize pg p)"
proof (cases vs)
  case Nil
  have "list_next base h = fl" using list_next_mid [OF d] Nil by simp
  moreover have "blocks_ok np pg (us @ base # vs)" using blocks_okI [OF le su(1) sv su(2)] Nil by simp
  ultimately show ?thesis using that [of pg h "us @ base # vs"] d by (simp add: merge_next_def Let_def)
next
  case (Cons v ws)
  have qv: "list_next base h = v" using list_next_mid [OF d] Cons by simp
  have vf: "v \<noteq> fl" "distinct (us @ base # vs)" using d Cons by (auto simp: is_dlist_def)
  have bl: "base + psize pg base \<le> v" using le Cons by (auto simp: blocks_le_def sorted_wrt_append)
  show ?thesis
  proof (cases "base + psize pg base = v")
    case False
    then have "blocks_ok np pg (us @ base # vs)" using blocks_okI [OF le su(1) sv su(2)] bl Cons by simp
    with False show ?thesis
      using that [of pg h "us @ base # vs"] d by (simp add: merge_next_def Let_def qv psize_def)
  next
    case True
    let ?pg = "upd_page v ClearPageProperty (upd_page base (\<lambda>x. x\<lparr>pg_property := pg_property x + pg_property (pg v)\<rparr>) pg)"
    have le': "blocks_le np pg (us @ base # v # ws)" using le Cons by simp
    note mb = merge_blocks [OF le' True np]
    have d': "is_dlist (list_del v h) fl (us @ base # ws)"
      using list_del_is_dlist [of h fl "us @ [base]" v ws] d Cons by simp
    have same: "psize ?pg u = psize pg u" if "u \<in> set us \<union> set ws" for u
      using mb that vf Cons by auto
    have so: "sorted_wrt (\<lambda>p q. p + psize ?pg p < q) us" "sorted_wrt (\<lambda>p q. p + psize ?pg p < q) ws"
      using su(1) sv same Cons by (auto intro: sorted_blocks_cong)
    have "blocks_ok np ?pg (us @ base # ws)"
    proof (rule blocks_okI [OF conjunct1 [OF mb] so])
      show "last us + psize ?pg (last us) < base" if "us \<noteq> []" using su(2) that same [of "last us"] by simp
      show "base + psize ?pg base < hd ws" if "ws \<noteq> []" using sv Cons that mb True by (cases ws) auto
    qed
    then show ?thesis
      by (intro that [of ?pg "list_del v h" "us @ base # ws"])
        (use mb d' True vf Cons in \<open>auto simp: merge_next_def Let_def qv psize_def\<close>)
  qed
qed

lemma allocated_no_property:
  assumes "blocks_ok np pg xs" "base + n \<le> np" "{base..<base + n} \<inter> free_set pg xs = {}" "p \<in> {base..<base + n}"
  shows "\<not> PageProperty (pg p)"
proof
  assume "PageProperty (pg p)"
  then have "p \<in> set xs" using assms by (auto simp: blocks_ok_def)
  then have "p \<in> free_set pg xs" using assms(1) by (force simp: blocks_ok_def free_set_def block_def)
  with assms(3,4) show False by blast
qed

lemma default_free_spec:
  assumes inv: "pmm_inv np s xs" and n: "0 < n" "base + n \<le> np" "np < 2 ^ 32"
    and alloc: "{base..<base + n} \<inter> free_set (pages s) xs = {}" "\<forall>p\<in>{base..<base + n}. \<not> PageReserved (pages s p)"
    and above: "xs = [] \<or> (\<exists>v\<in>set xs. base < v)"
  shows "\<exists>s' xs'. default_free_pages base n s = Some s' \<and> pmm_inv np s' xs' \<and>
    free_set (pages s') xs' = free_set (pages s) xs \<union> {base..<base + n} \<and>
    unat (default_nr_free_pages s') = unat (default_nr_free_pages s) + n"
proof -
  have d: "is_dlist (plinks s) (free_list s) xs" and ok: "blocks_ok np (pages s) xs"
    and cnt: "unat (nr_free s) = (\<Sum>p\<leftarrow>xs. psize (pages s) p)" and hd: "np \<le> free_list s"
    using inv by (auto simp: pmm_inv_def)
  define pg1 where "pg1 = upd_page base (\<lambda>x. SetPageProperty (x\<lparr>pg_property := of_nat n\<rparr>))
    (\<lambda>p. if p \<in> {base..<base + n} then (pages s p)\<lparr>pg_flags := 0, pg_ref := 0\<rparr> else pages s p)"
  define us vs where "us = takeWhile (\<lambda>v. v < base) xs" and "vs = dropWhile (\<lambda>v. v < base) xs"
  note ib = insert_blocks [OF ok n alloc(1), folded pg1_def us_def vs_def]
  have xs: "xs = us @ vs" by (simp add: us_def vs_def)
  note np' = allocated_no_property [OF ok n(2) alloc(1)]
  have clr: "free_pages_clear base n (pages s) =
      Some (\<lambda>p. if p \<in> {base..<base + n} then (pages s p)\<lparr>pg_flags := 0, pg_ref := 0\<rparr> else pages s p)"
    using np' alloc(2) by (intro free_pages_clear_ok) auto
  have bn: "base \<notin> set (free_list s # xs)" using ib n hd by auto
  from insert_block_ok [OF d this above, folded us_def vs_def] obtain h1 where
    h1: "insert_block (free_list s) base (plinks s) = Some h1" "is_dlist h1 (free_list s) (us @ base # vs)" by blast
  have sorted: "sorted_wrt (\<lambda>p q. p + psize pg1 p < q) us" "sorted_wrt (\<lambda>p q. p + psize pg1 p < q) vs"
    using ok ib unfolding xs by (auto simp: blocks_ok_def sorted_wrt_append intro!: sorted_blocks_cong [of _ pg1 "pages s"])
  obtain us2 b2 pg2 h2 where
    m1: "merge_prev (free_list s) base pg1 h1 = (b2, pg2, h2)"
    "blocks_le np pg2 (us2 @ b2 # vs)" "is_dlist h2 (free_list s) (us2 @ b2 # vs)"
    "free_set pg2 (us2 @ b2 # vs) = free_set pg1 (us @ base # vs)"
    "(\<Sum>p\<leftarrow>us2 @ b2 # vs. psize pg2 p) = (\<Sum>p\<leftarrow>us @ base # vs. psize pg1 p)"
    "sorted_wrt (\<lambda>p q. p + psize pg2 p < q) us2" "us2 \<noteq> [] \<Longrightarrow> last us2 + psize pg2 (last us2) < b2"
    "\<And>v. v \<in> set vs \<Longrightarrow> psize pg2 v = psize pg1 v"
    by (rule merge_left [OF conjunct1 [OF ib] h1(2) n(3) sorted(1) hd]) blast
  have sv: "sorted_wrt (\<lambda>p q. p + psize pg2 p < q) vs"
    using sorted(2) m1(8) by (auto intro: sorted_blocks_cong)
  obtain xs' pg3 h3 where
    m2: "merge_next (free_list s) b2 pg2 h2 = (pg3, h3)"
    "blocks_ok np pg3 xs'" "is_dlist h3 (free_list s) xs'" "free_set pg3 xs' = free_set pg2 (us2 @ b2 # vs)"
    "(\<Sum>p\<leftarrow>xs'. psize pg3 p) = (\<Sum>p\<leftarrow>us2 @ b2 # vs. psize pg2 p)"
    by (rule merge_right [OF m1(2,3) n(3) m1(6,7) sv]) blast
  let ?s' = "s\<lparr>pages := pg3, plinks := h3, nr_free := nr_free s + of_nat n\<rparr>"
  have ev: "default_free_pages base n s = Some ?s'"
    unfolding default_free_pages_def clr
    using n(1) h1(1) m1(1) m2(1) by (simp add: pg1_def)
  have tot: "(\<Sum>p\<leftarrow>us @ base # vs. psize pg1 p) = unat (nr_free s) + n" using ib cnt by simp
  then have "unat (nr_free s) + n < 2 ^ 32"
    using blocks_le_total [of np pg1 "us @ base # vs"] ib n(3) by simp
  then have un: "unat (nr_free s + of_nat n) = unat (nr_free s) + n"
    by (simp add: unat_word_ariths unat_of_nat)
  have "pmm_inv np ?s' xs'"
    using m2 m1(5) un tot hd by (simp add: pmm_inv_def)
  then show ?thesis
    using ev m2(4) m1(4) ib un by (intro exI [of _ ?s'] exI [of _ xs']) (auto simp: default_nr_free_pages_def)
qed

text \<open>
  C10. Releasing \<open>n\<close> allocated pages while a free block lies above them (or none is free):
  \<open>default_free_pages\<close> succeeds, exactly these pages become free, and the free list is again
  sorted, counted and fully coalesced.
\<close>

theorem default_free_coalesces:
  assumes inv: "pmm_inv np s xs" and n: "0 < n" "base + n \<le> np" "np < 2 ^ 32"
    and alloc: "{base..<base + n} \<inter> free_set (pages s) xs = {}" "\<forall>p\<in>{base..<base + n}. \<not> PageReserved (pages s p)"
    and above: "xs = [] \<or> (\<exists>v\<in>set xs. base < v)"
  shows "\<exists>s' xs'. default_free_pages base n s = Some s' \<and> pmm_inv np s' xs' \<and>
    free_set (pages s') xs' = free_set (pages s) xs \<union> {base..<base + n} \<and>
    unat (default_nr_free_pages s') = unat (default_nr_free_pages s) + n"
  using assms by (rule default_free_spec)

section \<open>Examples, and the block above all others\<close>

text \<open>Six free pages in one block.\<close>

definition example_pmm :: pmm_st where
  "example_pmm = \<lparr>pages = (\<lambda>p. if p = 0 then \<lparr>pg_ref = 0, pg_flags = 2, pg_property = 6\<rparr>
       else \<lparr>pg_ref = 0, pg_flags = 0, pg_property = 0\<rparr>),
     plinks = \<lparr>lprev = (\<lambda>_. 100)(100 := 0), lnext = (\<lambda>_. 100)(100 := 0)\<rparr>, free_list = 100, nr_free = 6\<rparr>"

lemma example_pmm_inv: "pmm_inv 6 example_pmm [0]"
  by (auto simp: pmm_inv_def example_pmm_def is_dlist_def blocks_ok_def psize_def PageProperty_def PG_property_def
      bit_0_eq bit_1_iff bit_numeral_word_iff)

theorem default_alloc_first_fit_witness:
  "\<exists>s' xs'. default_alloc_pages 2 example_pmm = Some (Some 0, s') \<and> pmm_inv 6 s' xs' \<and>
    free_set (pages s') xs' = {2..<6}"
proof -
  have "psize (pages example_pmm) 0 = 6" by (simp add: example_pmm_def psize_def)
  then have f: "filter (\<lambda>p. 2 \<le> psize (pages example_pmm) p) [0] = [0]" "free_set (pages example_pmm) [0] = {0..<6}"
    by (simp_all add: block_def)
  show ?thesis
    using default_alloc_first_fit [OF example_pmm_inv, of 2] unfolding f by fastforce
qed

theorem default_free_coalesces_witness:
  "\<exists>s' xs'. default_free_pages 0 2 (example_pmm\<lparr>pages := (\<lambda>p. if p = 2 then \<lparr>pg_ref = 0, pg_flags = 2, pg_property = 4\<rparr>
       else \<lparr>pg_ref = 0, pg_flags = 0, pg_property = 0\<rparr>), plinks := \<lparr>lprev = (\<lambda>_. 100)(100 := 2), lnext = (\<lambda>_. 100)(100 := 2)\<rparr>,
       nr_free := 4\<rparr>) = Some s' \<and> pmm_inv 6 s' xs' \<and> free_set (pages s') xs' = {0..<6}"
proof -
  let ?s = "example_pmm\<lparr>pages := (\<lambda>p. if p = 2 then \<lparr>pg_ref = 0, pg_flags = 2, pg_property = 4\<rparr>
       else \<lparr>pg_ref = 0, pg_flags = 0, pg_property = 0\<rparr>), plinks := \<lparr>lprev = (\<lambda>_. 100)(100 := 2), lnext = (\<lambda>_. 100)(100 := 2)\<rparr>,
       nr_free := 4\<rparr>"
  have "pmm_inv 6 ?s [2]"
    by (auto simp: pmm_inv_def example_pmm_def is_dlist_def blocks_ok_def psize_def PageProperty_def PG_property_def
        bit_0_eq bit_1_iff bit_numeral_word_iff)
  moreover have "free_set (pages ?s) [2] = {2..<6}" by (simp add: block_def psize_def)
  moreover have "\<forall>p\<in>{0..<0 + 2}. \<not> PageReserved (pages ?s p)" by (simp add: PageReserved_def)
  moreover have "{2..<6} \<union> {0..<0 + 2} = {0..<6::nat}" by auto
  ultimately show ?thesis
    using default_free_coalesces [of 6 ?s "[2]" 2 0] by auto
qed

text \<open>The forward path that the allocator follows: \<open>prev\<close> pointers play no part in it.\<close>

fun next_path :: "lheap \<Rightarrow> ptr \<Rightarrow> ptr list \<Rightarrow> ptr \<Rightarrow> bool" where
  "next_path h a [] b \<longleftrightarrow> lnext h a = b"
| "next_path h a (x # xs) b \<longleftrightarrow> lnext h a = x \<and> next_path h x xs b"

lemma next_path_chain: "chain h a xs b \<Longrightarrow> next_path h a xs b"
  by (induction xs arbitrary: a) auto

lemma next_path_redirect:
  "next_path h a xs b \<Longrightarrow> distinct (a # xs) \<Longrightarrow> (\<And>y. y \<in> set (a # xs) \<Longrightarrow> y \<noteq> last (a # xs) \<Longrightarrow> lnext h' y = lnext h y) \<Longrightarrow>
   lnext h' (last (a # xs)) = c \<Longrightarrow> next_path h' a xs c"
proof (induction xs arbitrary: a)
  case (Cons x xs)
  have "a \<noteq> last (x # xs)" using Cons.prems(2) by (metis distinct.simps(2) last_in_set list.distinct(1))
  then have "lnext h' a = x" using Cons.prems(1,3) by simp
  moreover have "next_path h' x xs c"
  proof (rule Cons.IH)
    show "lnext h' y = lnext h y" if "y \<in> set (x # xs)" "y \<noteq> last (x # xs)" for y
      using Cons.prems(3) [of y] that by simp
  qed (use Cons.prems in simp_all)
  ultimately show ?case by simp
qed simp

lemma next_path_cong: "next_path h a xs b \<Longrightarrow> \<forall>y\<in>set (a # xs). lnext h' y = lnext h y \<Longrightarrow> next_path h' a xs b"
  by (induction xs arbitrary: a) auto

lemma find_fit_path:
  "next_path h a xs b \<Longrightarrow> l \<notin> set xs \<Longrightarrow> b \<noteq> l \<Longrightarrow> \<forall>v\<in>set xs. psize pg v < n \<Longrightarrow> n \<le> psize pg b \<Longrightarrow>
   find_fit pg h l n a = Some (Some b)"
proof (induction xs arbitrary: a)
  case Nil
  then show ?case by (subst find_fit.simps) (simp add: list_next_def psize_def)
next
  case (Cons x xs)
  then have "find_fit pg h l n x = Some (Some b)" by simp
  then show ?case using Cons.prems by (subst find_fit.simps) (simp add: list_next_def psize_def)
qed

text \<open>Above all blocks, the loop links the new entry after the last one, visits it, and links it after itself.\<close>

lemma insert_walk_above:
  "is_dlist h l (us @ vs) \<Longrightarrow> vs \<noteq> [] \<Longrightarrow> le = last (l # us) \<Longrightarrow> base \<notin> set (l # us @ vs) \<Longrightarrow> \<forall>v\<in>set vs. v < base \<Longrightarrow>
   insert_walk l base le h = Some (list_add base base (list_add (last vs) base h))"
proof (induction vs arbitrary: us le)
  case (Cons v vs)
  have v: "v \<noteq> l" "\<not> base < v" "base \<noteq> l" "v \<noteq> base" using Cons.prems(1,4,5) by (auto simp: is_dlist_def)
  have nx: "list_next le h = v" using list_next_after [OF Cons.prems(1)] Cons.prems(3) by simp
  have nv: "list_next v h = (case vs of [] \<Rightarrow> l | w # _ \<Rightarrow> w)"
    using list_next_after [of h l "us @ [v]" vs] Cons.prems(1) by (simp split: list.splits)
  show ?case
  proof (cases vs)
    case Nil
    let ?h = "list_add v base h"
    let ?h' = "list_add base base ?h"
    have a: "list_next v ?h = base" "list_next base ?h = l" "list_next base ?h' = l"
      using nv Nil v by (simp_all add: list_add_def list_ops_defs list_next_def)
    have "insert_walk l base base ?h' = Some ?h'" by (subst insert_walk.simps) (simp add: a)
    then have "insert_walk l base v ?h = Some ?h'" using v by (subst insert_walk.simps) (simp add: a)
    then have "insert_walk l base le h = Some ?h'" using v nv Nil by (subst insert_walk.simps) (simp add: nx)
    then show ?thesis using Nil by simp
  next
    case (Cons w ws)
    have "w \<noteq> l" using Cons.prems(1) Cons by (auto simp: is_dlist_def)
    then have "insert_walk l base le h = insert_walk l base v h"
      using v nv Cons by (subst insert_walk.simps) (simp add: nx)
    then show ?thesis
      using Cons.IH [of "us @ [v]" v] Cons.prems Cons by simp
  qed
qed simp

text \<open>An entry whose \<open>prev\<close> points to itself is found, handed out, and still there afterwards.\<close>

lemma alloc_self_linked:
  assumes path: "next_path (plinks s) (free_list s) xs base" "free_list s \<notin> set xs" "base \<notin> set (free_list s # xs)" "lprev (plinks s) base = base"
    and small: "\<forall>v\<in>set xs. psize (pages s) v < m" and m: "0 < m" "m \<le> psize (pages s) base" "m \<le> unat (nr_free s)"
    and rest: "m < psize (pages s) base \<Longrightarrow> base + m \<notin> set (free_list s # xs)"
  shows "\<exists>s'. default_alloc_pages m s = Some (Some base, s') \<and> free_list s' = free_list s \<and>
    next_path (plinks s') (free_list s) xs base \<and> (\<forall>v\<in>set (base # xs). psize (pages s') v = psize (pages s) v) \<and>
    unat (nr_free s') = unat (nr_free s) - m \<and> (lnext (plinks s) base \<noteq> base \<longrightarrow> lprev (plinks s') base = base)"
proof -
  have ff: "find_fit (pages s) (plinks s) (free_list s) m (free_list s) = Some (Some base)"
    by (rule find_fit_path [OF path(1,2)]) (use path(3) small m in auto)
  define b where "b \<longleftrightarrow> m < psize (pages s) base"
  define pg' where "pg' = upd_page base ClearPageProperty (if b
    then upd_page (base + m) (\<lambda>x. SetPageProperty (x\<lparr>pg_property := pg_property (pages s base) - of_nat m\<rparr>)) (pages s) else pages s)"
  define h' where "h' = (if b then list_add base (base + m) (list_del base (plinks s)) else list_del base (plinks s))"
  let ?s' = "s\<lparr>pages := pg', plinks := h', nr_free := nr_free s - of_nat m\<rparr>"
  have "default_alloc_pages m s = Some (Some base, ?s')"
    using m ff path(4) by (simp add: default_alloc_pages_def Let_def pg'_def h'_def b_def psize_def list_prev_def)
  moreover have "lnext h' y = lnext (plinks s) y" if "y \<in> set (free_list s # xs)" for y
  proof -
    have "y \<noteq> base" "b \<Longrightarrow> y \<noteq> base + m" using that path(3) rest by (auto simp: b_def)
    then show ?thesis by (simp add: h'_def list_ops_defs path(4))
  qed
  then have "next_path h' (free_list s) xs base" using path(1) by (intro next_path_cong [OF path(1)]) blast
  moreover have "psize pg' v = psize (pages s) v" if "v \<in> set (base # xs)" for v
  proof -
    have "b \<Longrightarrow> v \<noteq> base + m" using that rest m(1) by (auto simp: b_def)
    then show ?thesis by (simp add: pg'_def upd_page_def psize_def)
  qed
  moreover have "unat (nr_free s - of_nat m) = unat (nr_free s) - m"
    using m(3) unsigned_less [of "nr_free s", where ?'a = nat] by (simp add: unat_sub word_le_nat_alt unat_of_nat)
  moreover have "lprev h' base = base" if "lnext (plinks s) base \<noteq> base"
    using that m(1) by (simp add: h'_def list_ops_defs path(4))
  ultimately show ?thesis by (intro exI [of _ ?s']) simp
qed

text \<open>
  C11. Releasing a block that lies above every block of a non-empty free list damages the list.  The insertion loop links the
  block after the last entry, goes on, meets the new entry as the last one and links it after itself: its \<open>prev\<close> pointer is left
  pointing to itself, and the block is not merged with a left neighbour it touches.  From then on \<open>list_del\<close> does not unlink it: two successive
  requests for \<open>m\<close> pages, which only this block can serve and which the counter of free pages allows, both return its first page.
\<close>

theorem free_highest_block_allocated_twice:
  assumes inv: "pmm_inv np s xs" and n: "0 < n" "base + n \<le> np" "np < 2 ^ 32"
    and alloc: "{base..<base + n} \<inter> free_set (pages s) xs = {}" "\<forall>p\<in>{base..<base + n}. \<not> PageReserved (pages s p)"
    and below: "xs \<noteq> []" "\<forall>v\<in>set xs. v < base"
    and m: "0 < m" "m \<le> n" "\<forall>v\<in>set xs. psize (pages s) v < m" "2 * m \<le> unat (nr_free s) + n"
  shows "\<exists>s' s1 s2. default_free_pages base n s = Some s' \<and> list_prev base (plinks s') = base \<and>
    default_alloc_pages m s' = Some (Some base, s1) \<and> default_alloc_pages m s1 = Some (Some base, s2)"
proof -
  have d: "is_dlist (plinks s) (free_list s) xs" and ok: "blocks_ok np (pages s) xs"
    and cnt: "unat (nr_free s) = (\<Sum>p\<leftarrow>xs. psize (pages s) p)" and hd: "np \<le> free_list s"
    using inv by (auto simp: pmm_inv_def)
  have tw: "takeWhile (\<lambda>v. v < base) xs = xs" "dropWhile (\<lambda>v. v < base) xs = []" using below(2) by simp_all
  define pg1 where "pg1 = upd_page base (\<lambda>x. SetPageProperty (x\<lparr>pg_property := of_nat n\<rparr>))
    (\<lambda>p. if p \<in> {base..<base + n} then (pages s p)\<lparr>pg_flags := 0, pg_ref := 0\<rparr> else pages s p)"
  note ib = insert_blocks [OF ok n alloc(1), folded pg1_def, unfolded tw]
  have clr: "free_pages_clear base n (pages s) =
      Some (\<lambda>p. if p \<in> {base..<base + n} then (pages s p)\<lparr>pg_flags := 0, pg_ref := 0\<rparr> else pages s p)"
    using allocated_no_property [OF ok n(2) alloc(1)] alloc(2) by (intro free_pages_clear_ok) auto
  have bn: "base \<notin> set (free_list s # xs)" "free_list s \<notin> set xs" using ib n hd d by (auto simp: is_dlist_def)
  define h' where "h' = list_add base base (list_add (last xs) base (plinks s))"
  have ins: "insert_block (free_list s) base (plinks s) = Some h'"
    using insert_walk_above [of "plinks s" "free_list s" "[]" xs "free_list s" base] d bn(1) below
    by (simp add: insert_block_def list_empty_iff [OF d] h'_def)
  have l: "last xs \<noteq> base" "last (free_list s # xs) = last xs" using below bn(1) last_in_set by auto
  have nl: "lnext (plinks s) (last xs) = free_list s"
    using list_next_after [of "plinks s" "free_list s" xs "[]"] d l(2) by (simp add: list_next_def)
  have h': "lprev h' base = base" "lnext h' base = free_list s" "lnext h' (last xs) = base"
    "\<And>y. y \<noteq> base \<Longrightarrow> y \<noteq> last xs \<Longrightarrow> lnext h' y = lnext (plinks s) y"
    using l(1) nl bn(1) by (auto simp: h'_def list_ops_defs)
  let ?s' = "s\<lparr>pages := pg1, plinks := h', nr_free := nr_free s + of_nat n\<rparr>"
  have pn: "psize pg1 base = n" "\<forall>v\<in>set xs. psize pg1 v = psize (pages s) v" using ib by auto
  have mg: "merge_prev (free_list s) base pg1 h' = (base, pg1, h')" "merge_next (free_list s) base pg1 h' = (pg1, h')"
    using n(1) h'(1,2) pn(1) by (simp_all add: merge_prev_def merge_next_def list_prev_def list_next_def psize_def)
  have ev: "default_free_pages base n s = Some ?s'"
    unfolding default_free_pages_def clr
    using n(1) ins mg by (simp add: pg1_def)
  have "unat (nr_free s) + n < 2 ^ 32"
    using blocks_le_total [of np pg1 "xs @ [base]"] ib n(3) cnt by simp
  then have un: "unat (nr_free s + of_nat n) = unat (nr_free s) + n" by (simp add: unat_word_ariths unat_of_nat)
  have "next_path (plinks s) (free_list s) xs (free_list s)" using d by (simp add: is_dlist_def next_path_chain)
  then have path: "next_path h' (free_list s) xs base"
  proof (rule next_path_redirect)
    show "lnext h' y = lnext (plinks s) y" if "y \<in> set (free_list s # xs)" "y \<noteq> last (free_list s # xs)" for y
      using that bn(1) unfolding l(2) by (intro h'(4)) auto
    show "distinct (free_list s # xs)" using d by (simp add: is_dlist_def)
    show "lnext h' (last (free_list s # xs)) = base" unfolding l(2) by (rule h'(3))
  qed
  have rest: "base + m \<notin> set (free_list s # xs)" if "m < n" using below(2) that n(2) hd by auto
  obtain s1 where s1: "default_alloc_pages m ?s' = Some (Some base, s1)" "free_list s1 = free_list s"
    "next_path (plinks s1) (free_list s) xs base" "\<forall>v\<in>set (base # xs). psize (pages s1) v = psize pg1 v"
    "unat (nr_free s1) = unat (nr_free s) + n - m" "lprev (plinks s1) base = base"
    using alloc_self_linked [of ?s' xs base m] path bn h'(1,2) m pn rest un by auto
  have le2: "m \<le> unat (nr_free s) + n - m" using m(4) by linarith
  obtain s2 where "default_alloc_pages m s1 = Some (Some base, s2)"
    using alloc_self_linked [of s1 xs base m] s1(2-6) bn m pn rest le2 by auto
  then show ?thesis using ev s1(1) h'(1) by (auto simp: list_prev_def)
qed

theorem free_highest_block_allocated_twice_witness:
  "\<exists>s' s1 s2. default_free_pages 2 4 (example_pmm\<lparr>pages := (\<lambda>p. if p = 0 then \<lparr>pg_ref = 0, pg_flags = 2, pg_property = 1\<rparr>
       else \<lparr>pg_ref = 0, pg_flags = 0, pg_property = 0\<rparr>), nr_free := 1\<rparr>) = Some s' \<and> list_prev 2 (plinks s') = 2 \<and>
     default_alloc_pages 2 s' = Some (Some 2, s1) \<and> default_alloc_pages 2 s1 = Some (Some 2, s2)"
proof -
  let ?s = "example_pmm\<lparr>pages := (\<lambda>p. if p = 0 then \<lparr>pg_ref = 0, pg_flags = 2, pg_property = 1\<rparr>
       else \<lparr>pg_ref = 0, pg_flags = 0, pg_property = 0\<rparr>), nr_free := 1\<rparr>"
  have "pmm_inv 6 ?s [0]"
    by (auto simp: pmm_inv_def example_pmm_def is_dlist_def blocks_ok_def psize_def PageProperty_def PG_property_def
        bit_0_eq bit_1_iff bit_numeral_word_iff)
  moreover have "{2..<2 + 4} \<inter> free_set (pages ?s) [0] = {}" by (simp add: block_def psize_def)
  moreover have "\<forall>p\<in>{2..<2 + 4}. \<not> PageReserved (pages ?s p)" by (simp add: PageReserved_def)
  moreover have "\<forall>v\<in>set [0]. psize (pages ?s) v < 2" by (simp add: psize_def)
  ultimately show ?thesis
    using free_highest_block_allocated_twice [of 6 ?s "[0]" 4 2 2] by simp
qed

end
