(* ===== verification/PageTable.thy ===== *)
theory PageTable
  imports Pmm
begin

text \<open>
  \<^verbatim>\<open>kern/mm/pmm.c\<close>, \<^verbatim>\<open>pmm.h\<close> and \<^verbatim>\<open>mmu.h\<close>: three-level page tables over the page allocator of theory Pmm.
  A page frame is named by the index of its \<^verbatim>\<open>struct Page\<close>; its contents are 512 words of 64
  bits; a page directory is a frame, a pointer to an entry a frame and an index.  Flushing the
  TLB has no counterpart.  After boot \<^verbatim>\<open>check_mm_struct\<close> is null, so \<^verbatim>\<open>swap_out\<close> called for
  lack of memory dereferences the null pointer: that is the panic of \<open>alloc_pages\<close>.
\<close>

section \<open>Addresses and entries\<close>

definition PGSIZE :: u64 where "PGSIZE = 4096"
definition PTSIZE :: u64 where "PTSIZE = PGSIZE * 512"
definition PDSIZE :: u64 where "PDSIZE = PTSIZE * 512"

definition PTE_V :: u32 where "PTE_V = 1"
definition PTE_R :: u32 where "PTE_R = 2"
definition PTE_W :: u32 where "PTE_W = 4"
definition PTE_X :: u32 where "PTE_X = 8"
definition PTE_U :: u32 where "PTE_U = 16"
definition PTE_USER :: u32 where "PTE_USER = PTE_R OR PTE_W OR PTE_X OR PTE_U OR PTE_V"
definition READ_WRITE :: u32 where "READ_WRITE = PTE_R OR PTE_W OR PTE_V"

definition USERBASE :: u64 where "USERBASE = 0x00200000"
definition USERTOP :: u64 where "USERTOP = 0x80000000"
definition KERNBASE :: u64 where "KERNBASE = 0xFFFFFFFFC0020000"
definition KERNTOP :: u64 where "KERNTOP = KERNBASE + 0x5E0000"

definition USER_ACCESS :: "u64 \<Rightarrow> u64 \<Rightarrow> bool" where
  "USER_ACCESS start end \<longleftrightarrow> USERBASE \<le> start \<and> start < end \<and> end \<le> USERTOP"

definition KERN_ACCESS :: "u64 \<Rightarrow> u64 \<Rightarrow> bool" where
  "KERN_ACCESS start end \<longleftrightarrow> KERNBASE \<le> start \<and> start < end \<and> end \<le> KERNTOP"

definition PDX1 :: "u64 \<Rightarrow> nat" where "PDX1 la = unat (drop_bit 30 la AND 0x1FF)"
definition PDX0 :: "u64 \<Rightarrow> nat" where "PDX0 la = unat (drop_bit 21 la AND 0x1FF)"
definition PTX :: "u64 \<Rightarrow> nat" where "PTX la = unat (drop_bit 12 la AND 0x1FF)"
definition PPN :: "u64 \<Rightarrow> nat" where "PPN la = unat (drop_bit 12 la)"
definition PGOFF :: "u64 \<Rightarrow> u64" where "PGOFF la = la AND 0xFFF"
definition PTE_ADDR :: "u64 \<Rightarrow> u64" where "PTE_ADDR pte = push_bit 2 (pte AND NOT 0x3FF)"

definition nbase :: nat where "nbase = 0x80000"
definition npage :: nat where "npage = 0x805FF"

definition page2ppn :: "nat \<Rightarrow> nat" where "page2ppn page = page + nbase"
definition page2pa :: "nat \<Rightarrow> u64" where "page2pa page = push_bit 12 (of_nat (page2ppn page))"

text \<open>
  \<open>pa2page\<close> panics above the memory; below it the page array would be indexed before its start.
  \<open>KADDR\<close> makes the same check, and its result names the same frame.
\<close>

definition pa2page :: "u64 \<Rightarrow> nat option" where
  "pa2page pa = (if PPN pa \<ge> npage \<or> PPN pa < nbase then None else Some (PPN pa - nbase))"

definition KADDR :: "u64 \<Rightarrow> nat option" where
  "KADDR pa = pa2page pa"

definition va_pa_offset :: u64 where "va_pa_offset = KERNBASE - 0x80020000"

definition page2kva :: "nat \<Rightarrow> u64 option" where
  "page2kva page = (if PPN (page2pa page) \<ge> npage then None else Some (page2pa page + va_pa_offset))"

definition kva2page :: "u64 \<Rightarrow> nat option" where
  "kva2page kva = (if kva < KERNBASE then None else pa2page (kva - va_pa_offset))"

definition valid :: "u64 \<Rightarrow> bool" where
  "valid pte = bit pte 0"

definition pte2page :: "u64 \<Rightarrow> nat option" where
  "pte2page pte = (if \<not> valid pte then None else pa2page (PTE_ADDR pte))"

definition pde2page :: "u64 \<Rightarrow> nat option" where
  "pde2page pde = pa2page (PTE_ADDR pde)"

definition pte_create :: "nat \<Rightarrow> u32 \<Rightarrow> u64" where
  "pte_create ppn type = push_bit 10 (of_nat ppn) OR ucast PTE_V OR scast type"

section \<open>State\<close>

type_synonym pte_ptr = "nat \<times> nat"

record vm_st =
  pmm :: pmm_st
  frames :: "nat \<Rightarrow> nat \<Rightarrow> u64"
  swap_init_ok :: bool

definition read_pte :: "pte_ptr \<Rightarrow> vm_st \<Rightarrow> u64" where
  "read_pte p s = frames s (fst p) (snd p)"

definition write_pte :: "pte_ptr \<Rightarrow> u64 \<Rightarrow> vm_st \<Rightarrow> vm_st" where
  "write_pte p v s = s\<lparr>frames := (frames s)(fst p := (frames s (fst p))(snd p := v))\<rparr>"

definition page_ref :: "nat \<Rightarrow> vm_st \<Rightarrow> int" where
  "page_ref page s = pg_ref (pages (pmm s) page)"

definition upd_ref :: "nat \<Rightarrow> (int \<Rightarrow> int) \<Rightarrow> vm_st \<Rightarrow> vm_st" where
  "upd_ref page f s = s\<lparr>pmm := (pmm s)\<lparr>pages := upd_page page (\<lambda>x. x\<lparr>pg_ref := f (pg_ref x)\<rparr>) (pages (pmm s))\<rparr>\<rparr>"

definition set_page_ref :: "nat \<Rightarrow> int \<Rightarrow> vm_st \<Rightarrow> vm_st" where
  "set_page_ref page v = upd_ref page (\<lambda>_. v)"

definition page_ref_inc :: "nat \<Rightarrow> vm_st \<Rightarrow> vm_st" where
  "page_ref_inc page = upd_ref page (\<lambda>r. r + 1)"

definition page_ref_dec :: "nat \<Rightarrow> vm_st \<Rightarrow> vm_st" where
  "page_ref_dec page = upd_ref page (\<lambda>r. r - 1)"

definition alloc_pages :: "nat \<Rightarrow> vm_st \<Rightarrow> (nat option \<times> vm_st) option" where
  "alloc_pages n s = do {
     (page, m) \<leftarrow> default_alloc_pages n (pmm s);
     if page \<noteq> None \<or> n > 1 \<or> \<not> swap_init_ok s then Some (page, s\<lparr>pmm := m\<rparr>) else None
   }"

definition free_pages :: "nat \<Rightarrow> nat \<Rightarrow> vm_st \<Rightarrow> vm_st option" where
  "free_pages base n s = do {
     m \<leftarrow> default_free_pages base n (pmm s);
     Some (s\<lparr>pmm := m\<rparr>)
   }"

definition nr_free_pages :: "vm_st \<Rightarrow> u32" where
  "nr_free_pages s = default_nr_free_pages (pmm s)"

section \<open>Operations\<close>

text \<open>
  One level of \<open>get_pte\<close>: the directory entry \<open>pdep\<close> gets a fresh, zeroed table if it has none.  The
  flag is false where the source returns null.
\<close>

definition ensure_table :: "bool \<Rightarrow> pte_ptr \<Rightarrow> vm_st \<Rightarrow> (bool \<times> vm_st) option" where
  "ensure_table create pdep s =
     (if valid (read_pte pdep s) then Some (True, s)
      else if \<not> create then Some (False, s)
      else do {
        (p, s1) \<leftarrow> alloc_pages 1 s;
        (case p of
           None \<Rightarrow> Some (False, s1)
         | Some page \<Rightarrow> do {
             f \<leftarrow> KADDR (page2pa page);
             let s2 = set_page_ref page 1 s1;
             let s3 = s2\<lparr>frames := (frames s2)(f := \<lambda>_. 0)\<rparr>;
             Some (True, write_pte pdep (pte_create (page2ppn page) (PTE_U OR PTE_V)) s3)
           })
      })"

definition get_pte :: "nat \<Rightarrow> u64 \<Rightarrow> bool \<Rightarrow> vm_st \<Rightarrow> (pte_ptr option \<times> vm_st) option" where
  "get_pte pgdir la create s = do {
     let pdep1 = (pgdir, PDX1 la);
     (ok1, s1) \<leftarrow> ensure_table create pdep1 s;
     if \<not> ok1 then Some (None, s1)
     else do {
       t1 \<leftarrow> KADDR (PTE_ADDR (read_pte pdep1 s1));
       let pdep0 = (t1, PDX0 la);
       (ok0, s2) \<leftarrow> ensure_table create pdep0 s1;
       if \<not> ok0 then Some (None, s2)
       else do {
         t0 \<leftarrow> KADDR (PTE_ADDR (read_pte pdep0 s2));
         Some (Some (t0, PTX la), s2)
       }
     }
   }"

text \<open>The result of \<open>get_page\<close> is the page and the pointer stored for the caller.\<close>

definition get_page :: "nat \<Rightarrow> u64 \<Rightarrow> vm_st \<Rightarrow> (nat option \<times> pte_ptr option) option" where
  "get_page pgdir la s = do {
     (ptep, s1) \<leftarrow> get_pte pgdir la False s;
     (case ptep of
        None \<Rightarrow> Some (None, None)
      | Some p \<Rightarrow> if valid (read_pte p s1)
                  then pte2page (read_pte p s1) \<bind> (\<lambda>page. Some (Some page, Some p))
                  else Some (None, Some p))
   }"

definition page_remove_pte :: "pte_ptr \<Rightarrow> vm_st \<Rightarrow> vm_st option" where
  "page_remove_pte ptep s =
     (if valid (read_pte ptep s) then do {
        page \<leftarrow> pte2page (read_pte ptep s);
        let s1 = page_ref_dec page s;
        s2 \<leftarrow> (if page_ref page s1 = 0 then free_pages page 1 s1 else Some s1);
        Some (write_pte ptep 0 s2)
      } else Some s)"

definition page_remove :: "nat \<Rightarrow> u64 \<Rightarrow> vm_st \<Rightarrow> vm_st option" where
  "page_remove pgdir la s = do {
     (ptep, s1) \<leftarrow> get_pte pgdir la False s;
     (case ptep of None \<Rightarrow> Some s1 | Some p \<Rightarrow> page_remove_pte p s1)
   }"

definition page_insert :: "nat \<Rightarrow> nat \<Rightarrow> u64 \<Rightarrow> u32 \<Rightarrow> vm_st \<Rightarrow> (int \<times> vm_st) option" where
  "page_insert pgdir page la perm s = do {
     (ptep, s1) \<leftarrow> get_pte pgdir la True s;
     (case ptep of
        None \<Rightarrow> Some (- E_NO_MEM, s1)
      | Some pp \<Rightarrow> do {
          let s2 = page_ref_inc page s1;
          s3 \<leftarrow> (if valid (read_pte pp s2) then do {
                   p \<leftarrow> pte2page (read_pte pp s2);
                   if p = page then Some (page_ref_dec page s2) else page_remove_pte pp s2
                 } else Some s2);
          Some (0, write_pte pp (pte_create (page2ppn page) (PTE_V OR perm)) s3)
        })
   }"

definition pgdir_alloc_page :: "nat \<Rightarrow> u64 \<Rightarrow> u32 \<Rightarrow> vm_st \<Rightarrow> (nat option \<times> vm_st) option" where
  "pgdir_alloc_page pgdir la perm s = do {
     (p, s1) \<leftarrow> alloc_pages 1 s;
     (case p of
        None \<Rightarrow> Some (None, s1)
      | Some page \<Rightarrow> do {
          (ret, s2) \<leftarrow> page_insert pgdir page la perm s1;
          if ret \<noteq> 0 then free_pages page 1 s2 \<bind> (\<lambda>s3. Some (None, s3)) else Some (Some page, s2)
        })
   }"

section \<open>Ranges\<close>

partial_function (option) unmap_loop :: "nat \<Rightarrow> u64 \<Rightarrow> u64 \<Rightarrow> vm_st \<Rightarrow> vm_st option" where
  "unmap_loop pgdir start end s = do {
     (ptep, s1) \<leftarrow> get_pte pgdir start False s;
     (start1, s2) \<leftarrow> (case ptep of
        None \<Rightarrow> Some (ROUNDDOWN (start + PTSIZE) PTSIZE, s1)
      | Some p \<Rightarrow> do {
          s2 \<leftarrow> (if read_pte p s1 \<noteq> 0 then page_remove_pte p s1 else Some s1);
          Some (start + PGSIZE, s2)
        });
     if start1 \<noteq> 0 \<and> start1 < end then unmap_loop pgdir start1 end s2 else Some s2
   }"

definition unmap_range :: "nat \<Rightarrow> u64 \<Rightarrow> u64 \<Rightarrow> vm_st \<Rightarrow> vm_st option" where
  "unmap_range pgdir start end s = do {
     kassert (start mod PGSIZE = 0 \<and> end mod PGSIZE = 0);
     kassert (USER_ACCESS start end);
     unmap_loop pgdir start end s
   }"

definition try_to_free_table :: "nat \<Rightarrow> pte_ptr \<Rightarrow> nat \<Rightarrow> vm_st \<Rightarrow> vm_st option" where
  "try_to_free_table table entryp nentry s =
     (if list_ex (\<lambda>i. valid (frames s table i)) [0..<nentry] then Some s
      else do {
        page \<leftarrow> pde2page (read_pte entryp s);
        s1 \<leftarrow> free_pages page 1 s;
        Some (write_pte entryp 0 s1)
      })"

partial_function (option) exit_d0_loop :: "nat \<Rightarrow> u64 \<Rightarrow> u64 \<Rightarrow> u64 \<Rightarrow> vm_st \<Rightarrow> vm_st option" where
  "exit_d0_loop pd0 d0start d1start end s = do {
     let pde0 = frames s pd0 (PDX0 d0start);
     s1 \<leftarrow> (if valid pde0 then do {
              t \<leftarrow> pde2page pde0;
              try_to_free_table t (pd0, PDX0 d0start) 512 s
            } else Some s);
     let d0 = d0start + PTSIZE;
     if d0 \<noteq> 0 \<and> d0 < d1start + PDSIZE \<and> d0 < end then exit_d0_loop pd0 d0 d1start end s1 else Some s1
   }"

partial_function (option) exit_d1_loop :: "nat \<Rightarrow> u64 \<Rightarrow> u64 \<Rightarrow> u64 \<Rightarrow> vm_st \<Rightarrow> vm_st option" where
  "exit_d1_loop pgdir d1start d0start end s = do {
     let pde1 = frames s pgdir (PDX1 d1start);
     s1 \<leftarrow> (if valid pde1 then do {
              pd0 \<leftarrow> pde2page pde1;
              s1 \<leftarrow> exit_d0_loop pd0 d0start d1start end s;
              try_to_free_table pd0 (pgdir, PDX1 d1start) 512 s1
            } else Some s);
     let d1 = d1start + PDSIZE;
     if d1 \<noteq> 0 \<and> d1 < end then exit_d1_loop pgdir d1 d1 end s1 else Some s1
   }"

definition exit_range :: "nat \<Rightarrow> u64 \<Rightarrow> u64 \<Rightarrow> bool \<Rightarrow> vm_st \<Rightarrow> vm_st option" where
  "exit_range pgdir start end check s = do {
     kassert (start mod PGSIZE = 0 \<and> end mod PGSIZE = 0);
     kassert (check \<longrightarrow> USER_ACCESS start end);
     exit_d1_loop pgdir (ROUNDDOWN start PDSIZE) (ROUNDDOWN start PTSIZE) end s
   }"

partial_function (option) unmap_io_loop :: "nat \<Rightarrow> u64 \<Rightarrow> u64 \<Rightarrow> vm_st \<Rightarrow> vm_st option" where
  "unmap_io_loop pgdir start end s = do {
     (ptep, s1) \<leftarrow> get_pte pgdir start False s;
     let (start1, s2) = (case ptep of
        None \<Rightarrow> (ROUNDDOWN (start + PTSIZE) PTSIZE, s1)
      | Some p \<Rightarrow> (start + PGSIZE, write_pte p 0 s1));
     if start1 \<noteq> 0 \<and> start1 < end then unmap_io_loop pgdir start1 end s2 else Some s2
   }"

definition unmap_range_io :: "nat \<Rightarrow> u64 \<Rightarrow> u64 \<Rightarrow> vm_st \<Rightarrow> vm_st option" where
  "unmap_range_io pgdir start end s = do {
     kassert (start mod PGSIZE = 0 \<and> end mod PGSIZE = 0);
     unmap_io_loop pgdir start end s
   }"

text \<open>One round of the copy loop: \<open>Inl\<close> is the early return, \<open>Inr\<close> the next address.\<close>

definition copy_step :: "nat \<Rightarrow> nat \<Rightarrow> u64 \<Rightarrow> vm_st \<Rightarrow> ((int + u64) \<times> vm_st) option" where
  "copy_step to from start s = do {
     (ptep, s1) \<leftarrow> get_pte from start False s;
     (case ptep of
        None \<Rightarrow> Some (Inr (ROUNDDOWN (start + PTSIZE) PTSIZE), s1)
      | Some p \<Rightarrow>
          if \<not> valid (read_pte p s1) then Some (Inr (start + PGSIZE), s1)
          else do {
            (nptep, s2) \<leftarrow> get_pte to start True s1;
            (case nptep of
               None \<Rightarrow> Some (Inl (- E_NO_MEM), s2)
             | Some np \<Rightarrow> do {
                 let perm = ucast (read_pte p s2) AND PTE_USER;
                 page \<leftarrow> pte2page (read_pte p s2);
                 (n, s3) \<leftarrow> alloc_pages 1 s2;
                 npg \<leftarrow> n;
                 src \<leftarrow> KADDR (page2pa page);
                 dst \<leftarrow> KADDR (page2pa npg);
                 let s4 = s3\<lparr>frames := (frames s3)(dst := frames s3 src)\<rparr>;
                 (ret, s5) \<leftarrow> page_insert to npg start perm s4;
                 kassert (ret = 0);
                 Some (Inr (start + PGSIZE), s5)
               })
          })
   }"

partial_function (option) copy_loop :: "nat \<Rightarrow> nat \<Rightarrow> u64 \<Rightarrow> u64 \<Rightarrow> vm_st \<Rightarrow> (int \<times> vm_st) option" where
  "copy_loop to from start end s = do {
     (r, s1) \<leftarrow> copy_step to from start s;
     (case r of
        Inl e \<Rightarrow> Some (e, s1)
      | Inr start1 \<Rightarrow> if start1 \<noteq> 0 \<and> start1 < end then copy_loop to from start1 end s1 else Some (0, s1))
   }"

definition copy_range :: "nat \<Rightarrow> nat \<Rightarrow> u64 \<Rightarrow> u64 \<Rightarrow> vm_st \<Rightarrow> (int \<times> vm_st) option" where
  "copy_range to from start end s = do {
     kassert (start mod PGSIZE = 0 \<and> end mod PGSIZE = 0);
     kassert (USER_ACCESS start end);
     copy_loop to from start end s
   }"

declare unmap_loop.simps [code] exit_d0_loop.simps [code] exit_d1_loop.simps [code] unmap_io_loop.simps [code]
  copy_loop.simps [code]

section \<open>Kernel mappings\<close>

fun map_segment_loop :: "nat \<Rightarrow> u64 \<Rightarrow> u64 \<Rightarrow> u32 \<Rightarrow> nat \<Rightarrow> vm_st \<Rightarrow> vm_st option" where
  "map_segment_loop pgdir la pa perm 0 s = Some s"
| "map_segment_loop pgdir la pa perm (Suc n) s = do {
     (ptep, s1) \<leftarrow> get_pte pgdir la True s;
     p \<leftarrow> ptep;
     map_segment_loop pgdir (la + PGSIZE) (pa + PGSIZE) perm n (write_pte p (pte_create (PPN pa) (PTE_V OR perm)) s1)
   }"

definition boot_map_segment :: "nat \<Rightarrow> u64 \<Rightarrow> u64 \<Rightarrow> u64 \<Rightarrow> u32 \<Rightarrow> vm_st \<Rightarrow> vm_st option" where
  "boot_map_segment pgdir la sz pa perm s = do {
     kassert (PGOFF la = PGOFF pa);
     let n = ROUNDUP (sz + PGOFF la) PGSIZE div PGSIZE;
     map_segment_loop pgdir (ROUNDDOWN la PGSIZE) (ROUNDDOWN pa PGSIZE) perm (unat n) s
   }"

definition boot_alloc_page :: "vm_st \<Rightarrow> (nat \<times> vm_st) option" where
  "boot_alloc_page s = do {
     (p, s1) \<leftarrow> alloc_pages 1 s;
     page \<leftarrow> p;
     f \<leftarrow> KADDR (page2pa page);
     Some (f, s1)
   }"

text \<open>\<open>io_regions\<close>: start and end of each region.\<close>

definition io_regions :: "(u64 \<times> u64) list" where
  "io_regions = [(0x0C000000, 0x10000000), (0x38000000, 0x38002000), (0x40000000, 0x42400000),
     (0x50000000, 0x55000000), (0x80000000, 0x80000000 + PTSIZE)]"

fun for_regions :: "(u64 \<times> u64 \<Rightarrow> vm_st \<Rightarrow> vm_st option) \<Rightarrow> (u64 \<times> u64) list \<Rightarrow> vm_st \<Rightarrow> vm_st option" where
  "for_regions f [] s = Some s"
| "for_regions f (r # rs) s = f r s \<bind> for_regions f rs"

definition setup_kernel_io_mapping :: "nat \<Rightarrow> vm_st \<Rightarrow> vm_st option" where
  "setup_kernel_io_mapping pgdir =
     for_regions (\<lambda>(a, b). boot_map_segment pgdir a (b - a) a (PTE_R OR PTE_W)) io_regions"

definition free_kernel_io_mapping :: "nat \<Rightarrow> vm_st \<Rightarrow> vm_st option" where
  "free_kernel_io_mapping pgdir s = do {
     s1 \<leftarrow> for_regions (\<lambda>(a, b). unmap_range_io pgdir a b) io_regions s;
     for_regions (\<lambda>(a, b). exit_range pgdir a b False) io_regions s1
   }"

section \<open>Entries\<close>

lemma valid_pte_create [simp]: "valid (pte_create ppn ty)"
  by (simp add: valid_def pte_create_def PTE_V_def bit_or_iff)

lemma scast_small: "ty < 1024 \<Longrightarrow> (scast (ty :: u32) :: u64) = ucast ty"
proof -
  assume a: "ty < 1024"
  have "\<not> bit ty 31"
    by (rule small_word_bits [of _ 10]) (use a in \<open>simp_all add: word_less_nat_alt\<close>)
  moreover have "uint ty < 2 ^ 31" using a by (simp add: word_less_alt)
  ultimately have "sint ty = uint ty"
    by (simp add: sint_uint signed_take_bit_eq_if_positive bit_uint_iff take_bit_int_eq_self)
  then show "(scast ty :: u64) = ucast ty"
    by (simp add: scast_eq)
qed

lemma PPN_PTE_ADDR_pte_create:
  assumes "ppn < 2 ^ 44" "ty < 1024"
  shows "PPN (PTE_ADDR (pte_create ppn ty)) = ppn"
proof -
  have hi: "\<not> bit ty n" if "n \<ge> 10" for n
    by (rule small_word_bits [of _ 10]) (use assms that in \<open>simp_all add: word_less_nat_alt\<close>)
  have un: "unat (of_nat ppn :: u64) = ppn"
    using assms(1) by (simp add: unat_of_nat take_bit_nat_eq_self_iff)
  have top: "\<not> bit (of_nat ppn :: u64) n" if "n \<ge> 44" for n
    by (rule small_word_bits [of _ 44]) (use assms that un in simp_all)
  have "drop_bit 12 (PTE_ADDR (pte_create ppn ty)) = of_nat ppn"
  proof (rule bit_word_eqI)
    fix n assume n: "n < LENGTH(64)"
    have m: "(0x3FF :: u64) = mask 10" by (simp add: mask_eq_exp_minus_1)
    show "bit (drop_bit 12 (PTE_ADDR (pte_create ppn ty))) n = bit (of_nat ppn :: u64) n"
      using n hi [of "10 + n"] top [of n]
      by (cases "n < 44") (auto simp: PTE_ADDR_def pte_create_def scast_small [OF assms(2)] PTE_V_def m bit_simps
          simp del: mask_eq_iff of_nat_numeral)
  qed
  then show ?thesis by (simp add: PPN_def un)
qed

definition npages :: nat where
  "npages = npage - nbase"

lemma pa2page_pte_create:
  assumes "page < npages" "ty < 1024"
  shows "pa2page (PTE_ADDR (pte_create (page2ppn page) ty)) = Some page"
proof -
  have "page2ppn page < 2 ^ 44" using assms(1) by (simp add: page2ppn_def npages_def npage_def nbase_def)
  from PPN_PTE_ADDR_pte_create [OF this assms(2)] show ?thesis
    using assms(1) by (simp add: pa2page_def page2ppn_def npages_def)
qed

lemma KADDR_page2pa [simp]:
  assumes "page < npages"
  shows "KADDR (page2pa page) = Some page"
proof -
  let ?w = "of_nat (page2ppn page) :: u64"
  have lt: "page2ppn page < 2 ^ 52"
    using assms by (simp add: page2ppn_def npages_def npage_def nbase_def)
  then have un: "unat ?w = page2ppn page" "page2ppn page < 2 ^ 52"
    by (simp_all add: unat_of_nat take_bit_nat_eq_self_iff)
  then have top: "\<not> bit ?w n" if "n \<ge> 52" for n
    by (intro small_word_bits [of _ 52]) (use that in simp_all)
  have "drop_bit 12 (push_bit 12 ?w) = ?w"
  proof (rule bit_word_eqI)
    fix n assume "n < LENGTH(64)"
    then show "bit (drop_bit 12 (push_bit 12 ?w)) n = bit ?w n"
      using top [of n] by (cases "n < 52") (auto simp: bit_simps simp del: of_nat_add)
  qed
  then have "PPN (page2pa page) = page2ppn page" by (simp add: PPN_def page2pa_def un)
  then show ?thesis using assms by (simp add: KADDR_def pa2page_def npages_def page2ppn_def)
qed

section \<open>Frames\<close>

text \<open>\<open>frame_inv s F\<close>: the allocator is well formed and \<open>F\<close> is the set of free frames.\<close>

definition frame_inv :: "vm_st \<Rightarrow> nat set \<Rightarrow> bool" where
  "frame_inv s F \<longleftrightarrow> (\<exists>xs. pmm_inv npages (pmm s) xs \<and> free_set (pages (pmm s)) xs = F)"

lemma frame_inv_bound: "frame_inv s F \<Longrightarrow> f \<in> F \<Longrightarrow> f < npages"
  by (fastforce simp: frame_inv_def pmm_inv_def blocks_ok_def free_set_def block_def)

lemma frame_inv_cong [simp]:
  "frame_inv (s\<lparr>frames := fr\<rparr>) F = frame_inv s F" "frame_inv (write_pte p v s) F = frame_inv s F"
  by (simp_all add: frame_inv_def write_pte_def)

lemma frame_inv_upd_ref [simp]: "frame_inv (upd_ref page f s) F = frame_inv s F"
proof -
  have "psize (upd_page page (\<lambda>x. x\<lparr>pg_ref := f (pg_ref x)\<rparr>) pg) = psize pg" for pg
    by (auto simp: psize_def upd_page_def)
  moreover have "PageProperty (upd_page page (\<lambda>x. x\<lparr>pg_ref := f (pg_ref x)\<rparr>) pg q) = PageProperty (pg q)" for pg q
    by (simp add: PageProperty_def upd_page_def)
  ultimately show ?thesis
    by (simp add: frame_inv_def upd_ref_def pmm_inv_def blocks_ok_def free_set_def block_def)
qed

lemma alloc_page_spec:
  assumes "frame_inv s F"
  shows "(F = {} \<longrightarrow> alloc_pages 1 s = (if swap_init_ok s then None else Some (None, s))) \<and>
    (F \<noteq> {} \<longrightarrow> (\<exists>f m. alloc_pages 1 s = Some (Some f, s\<lparr>pmm := m\<rparr>) \<and> f \<in> F \<and> frame_inv (s\<lparr>pmm := m\<rparr>) (F - {f})))"
proof -
  obtain xs where xs: "pmm_inv npages (pmm s) xs" "free_set (pages (pmm s)) xs = F"
    using assms by (auto simp: frame_inv_def)
  have pos: "1 \<le> psize (pages (pmm s)) p" if "p \<in> set xs" for p
    using xs(1) that by (auto simp: pmm_inv_def blocks_ok_def Suc_le_eq)
  then have fl: "filter (\<lambda>p. 1 \<le> psize (pages (pmm s)) p) xs = xs" by (simp add: filter_id_conv)
  note sp = default_alloc_spec [OF xs(1) zero_less_one, unfolded fl xs(2)]
  show ?thesis
  proof (cases xs)
    case Nil
    then show ?thesis using sp xs(2) by (simp add: alloc_pages_def)
  next
    case (Cons p ps)
    then have "F \<noteq> {}" using xs(2) pos [of p] by (auto simp: free_set_def block_def)
    then show ?thesis using sp Cons by (auto simp: alloc_pages_def frame_inv_def)
  qed
qed

text \<open>What the allocator leaves alone of a page: its reference count and whether it is reserved.\<close>

definition meta :: "(nat \<Rightarrow> page) \<Rightarrow> nat \<Rightarrow> int \<times> bool" where
  "meta pg g = (pg_ref (pg g), PageReserved (pg g))"

definition page_meta :: "vm_st \<Rightarrow> nat \<Rightarrow> int \<times> bool" where
  "page_meta s = meta (pages (pmm s))"

lemma meta_upd [simp]:
  "meta (upd_page p ClearPageProperty pg) = meta pg"
  "meta (upd_page p (\<lambda>x. SetPageProperty (x\<lparr>pg_property := v x\<rparr>)) pg) = meta pg"
  "meta (upd_page p (\<lambda>x. x\<lparr>pg_property := v x\<rparr>) pg) = meta pg"
  by (auto simp: meta_def upd_page_def SetPageProperty_def ClearPageProperty_def PageReserved_def
      PG_property_def PG_reserved_def bit_set_bit_iff bit_unset_bit_iff)

lemma page_meta_cong [simp]:
  "page_meta (s\<lparr>frames := fr\<rparr>) = page_meta s" "page_meta (write_pte p v s) = page_meta s"
  by (simp_all add: page_meta_def write_pte_def)

lemma page_meta_upd_ref: "page_meta (upd_ref page f s) g = (if g = page then (f (fst (page_meta s g)), snd (page_meta s g)) else page_meta s g)"
  by (simp add: page_meta_def meta_def upd_ref_def upd_page_def PageReserved_def)

lemma default_alloc_meta: "default_alloc_pages n s = Some (p, s') \<Longrightarrow> meta (pages s') = meta (pages s)"
  unfolding default_alloc_pages_def
  by (auto simp: Let_def split: if_split_asm option.split_asm Option.bind_split_asm)

lemma alloc_page_meta: "alloc_pages n s = Some (p, s') \<Longrightarrow> page_meta s' = page_meta s"
  by (auto simp: alloc_pages_def page_meta_def bind_Some_iff dest: default_alloc_meta split: if_split_asm)

lemma merge_prev_meta: "meta (fst (snd (merge_prev fl b pg h))) = meta pg"
  by (simp add: merge_prev_def Let_def)

lemma merge_next_meta: "meta (fst (merge_next fl b pg h)) = meta pg"
  by (simp add: merge_next_def Let_def)

lemma free_page_meta:
  assumes "free_pages base 1 s = Some s'"
  shows "page_meta s' g = (if g = base then (0, False) else page_meta s g)"
proof -
  obtain h1 where s': "s' = s\<lparr>pmm := pmm s'\<rparr>"
    and e: "pages (pmm s') = fst (merge_next (free_list (pmm s)) (fst (merge_prev (free_list (pmm s)) base
         (upd_page base (\<lambda>x. SetPageProperty (x\<lparr>pg_property := of_nat 1\<rparr>))
           (upd_page base (\<lambda>x. x\<lparr>pg_flags := 0, pg_ref := 0\<rparr>) (pages (pmm s)))) h1))
       (fst (snd (merge_prev (free_list (pmm s)) base
         (upd_page base (\<lambda>x. SetPageProperty (x\<lparr>pg_property := of_nat 1\<rparr>))
           (upd_page base (\<lambda>x. x\<lparr>pg_flags := 0, pg_ref := 0\<rparr>) (pages (pmm s)))) h1)))
       (snd (snd (merge_prev (free_list (pmm s)) base
         (upd_page base (\<lambda>x. SetPageProperty (x\<lparr>pg_property := of_nat 1\<rparr>))
           (upd_page base (\<lambda>x. x\<lparr>pg_flags := 0, pg_ref := 0\<rparr>) (pages (pmm s)))) h1))))"
    using assms unfolding free_pages_def default_free_pages_def
    by (auto simp: Let_def split_beta split: if_split_asm Option.bind_split_asm)
  show ?thesis
    unfolding page_meta_def e merge_next_meta merge_prev_meta meta_upd
    by (simp add: meta_def upd_page_def PageReserved_def)
qed

section \<open>The tree of tables\<close>

definition nxt :: "(nat \<Rightarrow> nat \<Rightarrow> u64) \<Rightarrow> nat \<Rightarrow> nat \<Rightarrow> nat option" where
  "nxt fr t i = (if valid (fr t i) then pa2page (PTE_ADDR (fr t i)) else None)"

fun tbl :: "(nat \<Rightarrow> nat \<Rightarrow> u64) \<Rightarrow> nat \<Rightarrow> nat list \<Rightarrow> nat option" where
  "tbl fr t [] = Some t"
| "tbl fr t (i # is) = nxt fr t i \<bind> (\<lambda>u. tbl fr u is)"

text \<open>Paths below the entry 511 of a directory, which is shared with the kernel's own directory.\<close>

definition pt_path :: "nat list \<Rightarrow> bool" where
  "pt_path p \<longleftrightarrow> p = [] \<or> (\<exists>i<511. p = [i] \<or> (\<exists>j<512. p = [i, j]))"

text \<open>
  \<open>forest s R F\<close>: below the directories \<open>R\<close> every table has one parent, is not free, and valid entries
  point to memory.
\<close>

definition forest :: "vm_st \<Rightarrow> nat set \<Rightarrow> nat set \<Rightarrow> bool" where
  "forest s R F \<longleftrightarrow> frame_inv s F \<and>
     (\<forall>r\<in>R. \<forall>r'\<in>R. \<forall>p q t. pt_path p \<longrightarrow> pt_path q \<longrightarrow> tbl (frames s) r p = Some t \<longrightarrow> tbl (frames s) r' q = Some t \<longrightarrow> r = r' \<and> p = q) \<and>
     (\<forall>r\<in>R. \<forall>p t. pt_path p \<longrightarrow> tbl (frames s) r p = Some t \<longrightarrow> t \<notin> F) \<and>
     (\<forall>r\<in>R. \<forall>p t i. pt_path (p @ [i]) \<longrightarrow> tbl (frames s) r p = Some t \<longrightarrow> valid (frames s t i) \<longrightarrow> nxt (frames s) t i \<noteq> None)"

definition pte_of :: "(nat \<Rightarrow> nat \<Rightarrow> u64) \<Rightarrow> nat \<Rightarrow> u64 \<Rightarrow> u64" where
  "pte_of fr r la = (case tbl fr r [PDX1 la, PDX0 la] of None \<Rightarrow> 0 | Some t \<Rightarrow> fr t (PTX la))"

definition vpn :: "u64 \<Rightarrow> nat \<times> nat \<times> nat" where
  "vpn la = (PDX1 la, PDX0 la, PTX la)"

lemma forestD:
  assumes "forest s R F"
  shows "frame_inv s F"
    "\<And>r r' p q t. r \<in> R \<Longrightarrow> r' \<in> R \<Longrightarrow> pt_path p \<Longrightarrow> pt_path q \<Longrightarrow> tbl (frames s) r p = Some t \<Longrightarrow> tbl (frames s) r' q = Some t \<Longrightarrow> r = r' \<and> p = q"
    "\<And>r p t. r \<in> R \<Longrightarrow> pt_path p \<Longrightarrow> tbl (frames s) r p = Some t \<Longrightarrow> t \<notin> F"
    "\<And>r p t i. r \<in> R \<Longrightarrow> pt_path (p @ [i]) \<Longrightarrow> tbl (frames s) r p = Some t \<Longrightarrow> valid (frames s t i) \<Longrightarrow> nxt (frames s) t i \<noteq> None"
  using assms unfolding forest_def by blast+

lemma tbl_snoc: "tbl fr r (p @ [i]) = tbl fr r p \<bind> (\<lambda>t. nxt fr t i)"
  by (induction p arbitrary: r) (auto split: bind_split)

lemma pt_path_prefix: "pt_path (p @ [i]) \<Longrightarrow> pt_path p"
  by (cases p rule: rev_cases) (auto simp: pt_path_def)

lemma pt_path_Nil [simp]: "pt_path []" by (simp add: pt_path_def)

lemma index_bounds [simp]: "PDX0 la < 512" "PTX la < 512"
proof -
  have "x AND 0x1FF \<le> (0x1FF :: u64)" for x by (rule word_and_le1)
  then have "unat (x AND 0x1FF) < 512" for x :: u64 by (simp add: word_le_nat_alt less_Suc_eq_le [of _ 511, simplified])
  then show "PDX0 la < 512" "PTX la < 512" by (simp_all add: PDX0_def PTX_def)
qed

text \<open>A fresh table at the end of path \<open>p @ [i]\<close> of directory \<open>r\<close> changes no other path.\<close>

lemma add_table:
  assumes fo: "forest s R F" and r: "r \<in> R" and p: "pt_path (p @ [i])" and t: "tbl (frames s) r p = Some t"
    and inv: "\<not> valid (frames s t i)" and f: "f \<in> F"
  defines "fr' \<equiv> ((frames s)(f := \<lambda>_. 0))(t := (frames s t)(i := pte_create (page2ppn f) (PTE_U OR PTE_V)))"
  shows "r' \<in> R \<Longrightarrow> pt_path q \<Longrightarrow> tbl fr' r' q = (if r' = r \<and> q = p @ [i] then Some f else tbl (frames s) r' q)"
proof -
  let ?fr = "frames s"
  assume r': "r' \<in> R" and q: "pt_path q"
  note inj = forestD(2) [OF fo] and nf = forestD(3) [OF fo]
  have fb: "f < npages" by (rule frame_inv_bound [OF forestD(1) [OF fo] f])
  have pp: "pt_path p" by (rule pt_path_prefix [OF p])
  have tf: "t \<noteq> f" using nf [OF r pp t] f by blast
  have n1: "nxt fr' u j = nxt ?fr u j" if "u \<noteq> f" "u \<noteq> t \<or> j \<noteq> i" for u j
    using that by (auto simp: nxt_def fr'_def)
  have n2: "nxt fr' t i = Some f"
    using fb by (simp add: nxt_def fr'_def pa2page_pte_create PTE_U_def PTE_V_def)
  have n3: "nxt fr' f j = None" for j using tf by (simp add: nxt_def fr'_def valid_def)
  have n4: "nxt ?fr t i = None" using inv by (simp add: nxt_def)
  have r'f: "r' \<noteq> f" using nf [OF r', of "[]"] f by auto
  have root: "r' = t \<longleftrightarrow> r' = r \<and> p = []"
    using inj [OF r' r, of "[]" p t] pp t by auto
  have step: "nxt fr' r' x = (if r' = r \<and> [x] = p @ [i] then Some f else nxt ?fr r' x)" for x
    using n1 [of r' x] n2 r'f root by auto
  from q consider "q = []" | x where "q = [x]" | x y where "q = [x, y]" "x < 511"
    by (auto simp: pt_path_def)
  then show "tbl fr' r' q = (if r' = r \<and> q = p @ [i] then Some f else tbl ?fr r' q)"
  proof cases
    case (3 x y)
    show ?thesis
    proof (cases "r' = r \<and> [x] = p @ [i]")
      case True
      then have "r' = t" "x = i" using root by auto
      then show ?thesis using 3 True n3 n4 step [of x] by simp
    next
      case False
      show ?thesis
      proof (cases "nxt ?fr r' x")
        case None
        have "\<not> (r' = r \<and> [x, y] = p @ [i])"
        proof
          assume "r' = r \<and> [x, y] = p @ [i]"
          then have "p = [x]" "r' = r" by (auto simp: append_eq_Cons_conv)
          then show False using None t by simp
        qed
        then show ?thesis using 3 False None step [of x] by auto
      next
        case (Some u)
        have px: "pt_path [x]" using 3 by (simp add: pt_path_def)
        have u: "tbl ?fr r' [x] = Some u" using Some by simp
        have uf: "u \<noteq> f" using nf [OF r' px u] f by blast
        have ut: "u = t \<longleftrightarrow> r' = r \<and> [x] = p" using inj [OF r' r px pp u] t u by auto
        have "nxt fr' u y = (if r' = r \<and> [x, y] = p @ [i] then Some f else nxt ?fr u y)"
          using n1 [OF uf, of y] n2 ut by auto
        then show ?thesis using 3 False Some step [of x] by auto
      qed
    qed
  qed (use step in auto)
qed

lemma forestI:
  assumes "frame_inv s F"
    "\<And>r r' p q t. r \<in> R \<Longrightarrow> r' \<in> R \<Longrightarrow> pt_path p \<Longrightarrow> pt_path q \<Longrightarrow> tbl (frames s) r p = Some t \<Longrightarrow> tbl (frames s) r' q = Some t \<Longrightarrow> r = r' \<and> p = q"
    "\<And>r p t. r \<in> R \<Longrightarrow> pt_path p \<Longrightarrow> tbl (frames s) r p = Some t \<Longrightarrow> t \<notin> F"
    "\<And>r p t i. r \<in> R \<Longrightarrow> pt_path (p @ [i]) \<Longrightarrow> tbl (frames s) r p = Some t \<Longrightarrow> valid (frames s t i) \<Longrightarrow> nxt (frames s) t i \<noteq> None"
  shows "forest s R F"
  using assms unfolding forest_def by blast

lemma forest_add_table:
  assumes fo: "forest s R F" and r: "r \<in> R" and p: "pt_path (p @ [i])" and t: "tbl (frames s) r p = Some t"
    and inv: "\<not> valid (frames s t i)" and f: "f \<in> F"
    and fi: "frame_inv s' (F - {f})"
    and fr': "frames s' = ((frames s)(f := \<lambda>_. 0))(t := (frames s t)(i := pte_create (page2ppn f) (PTE_U OR PTE_V)))"
  shows "forest s' R (F - {f})"
proof (rule forestI [OF fi])
  note T = add_table [OF fo r p t inv f, folded fr'] and nf = forestD(3) [OF fo]
  have fb: "f < npages" by (rule frame_inv_bound [OF forestD(1) [OF fo] f])
  show "r1 = r2 \<and> q1 = q2" if "r1 \<in> R" "r2 \<in> R" "pt_path q1" "pt_path q2"
    "tbl (frames s') r1 q1 = Some u" "tbl (frames s') r2 q2 = Some u" for r1 r2 q1 q2 u
    using that T [of r1 q1] T [of r2 q2] nf [of r1 q1] nf [of r2 q2] f forestD(2) [OF fo, of r1 r2 q1 q2]
    by (auto split: if_split_asm)
  show "u \<notin> F - {f}" if "r1 \<in> R" "pt_path q" "tbl (frames s') r1 q = Some u" for r1 q u
    using that T [of r1 q] nf [of r1 q u] by (auto split: if_split_asm)
  show "nxt (frames s') u j \<noteq> None"
    if "r1 \<in> R" "pt_path (q @ [j])" "tbl (frames s') r1 q = Some u" "valid (frames s' u j)" for r1 q u j
  proof -
    have q: "pt_path q" by (rule pt_path_prefix [OF that(2)])
    have pp: "pt_path p" by (rule pt_path_prefix [OF p])
    have tf: "t \<noteq> f" using nf [OF r pp t] f by blast
    show ?thesis
    proof (cases "r1 = r \<and> q = p @ [i]")
      case True
      then have "u = f" using that T [OF that(1) q] by simp
      then show ?thesis using that(4) tf by (simp add: fr' valid_def)
    next
      case False
      then have u: "tbl (frames s) r1 q = Some u" using that T [OF that(1) q] by auto
      have uf: "u \<noteq> f" using nf [OF that(1) q u] f by blast
      show ?thesis
      proof (cases "u = t \<and> j = i")
        case True
        then show ?thesis using fb by (simp add: nxt_def fr' pa2page_pte_create PTE_U_def PTE_V_def)
      next
        case False
        then have "frames s' u j = frames s u j" using uf by (auto simp: fr')
        then show ?thesis
          using forestD(4) [OF fo that(1,2) u] that(4) by (auto simp: nxt_def)
      qed
    qed
  qed
qed

lemma pte_of_add_table:
  assumes fo: "forest s R F" and r: "r \<in> R" and p: "pt_path (p @ [i])" and t: "tbl (frames s) r p = Some t"
    and inv: "\<not> valid (frames s t i)" and f: "f \<in> F"
    and fr': "frames s' = ((frames s)(f := \<lambda>_. 0))(t := (frames s t)(i := pte_create (page2ppn f) (PTE_U OR PTE_V)))"
    and r': "r' \<in> R" and la: "PDX1 la < 511"
  shows "pte_of (frames s') r' la = pte_of (frames s) r' la"
proof -
  have q: "pt_path [PDX1 la, PDX0 la]" using la by (simp add: pt_path_def)
  note T = add_table [OF fo r p t inv f r' q, folded fr'] and nf = forestD(3) [OF fo]
  have pp: "pt_path p" by (rule pt_path_prefix [OF p])
  have tf: "t \<noteq> f" using nf [OF r pp t] f by blast
  show ?thesis
  proof (cases "r' = r \<and> [PDX1 la, PDX0 la] = p @ [i]")
    case True
    have "tbl (frames s) r (p @ [i]) = None" using t inv by (simp add: tbl_snoc nxt_def)
    then have "tbl (frames s) r' [PDX1 la, PDX0 la] = None" using True by metis
    moreover have "tbl (frames s') r' [PDX1 la, PDX0 la] = Some f" using T True by metis
    moreover have "frames s' f (PTX la) = 0" using tf by (simp add: fr')
    ultimately show ?thesis by (simp only: pte_of_def option.case)
  next
    case False
    then have same: "tbl (frames s') r' [PDX1 la, PDX0 la] = tbl (frames s) r' [PDX1 la, PDX0 la]" by (simp only: T if_False)
    have "frames s' u = frames s u" if "tbl (frames s) r' [PDX1 la, PDX0 la] = Some u" for u
    proof -
      have "u \<noteq> f" using nf [OF r' q that] f by blast
      moreover have "u \<noteq> t"
        using forestD(2) [OF fo r' r q pp that] t p by (auto simp: pt_path_def append_eq_Cons_conv)
      ultimately show ?thesis by (simp add: fr')
    qed
    then show ?thesis unfolding pte_of_def same by (auto split: option.split)
  qed
qed

text \<open>Writing a leaf entry changes no table and one mapping.\<close>

lemma set_leaf:
  assumes fo: "forest s R F" and r: "r \<in> R" and la: "PDX1 la < 511" and t: "tbl (frames s) r [PDX1 la, PDX0 la] = Some t"
    and fr': "frames s' = (frames s)(t := (frames s t)(PTX la := v))"
  shows "r' \<in> R \<Longrightarrow> pt_path q \<Longrightarrow> tbl (frames s') r' q = tbl (frames s) r' q"
    and "r' \<in> R \<Longrightarrow> PDX1 la' < 511 \<Longrightarrow>
      pte_of (frames s') r' la' = (if r' = r \<and> vpn la' = vpn la then v else pte_of (frames s) r' la')"
    and "frame_inv s' F' \<Longrightarrow> F' \<inter> {t. \<exists>r\<in>R. \<exists>p. pt_path p \<and> tbl (frames s) r p = Some t} = {} \<Longrightarrow> forest s' R F'"
proof -
  have pl: "pt_path [PDX1 la, PDX0 la]" using la by (simp add: pt_path_def)
  have nt: "u \<noteq> t" if "r1 \<in> R" "pt_path (q @ [j])" "tbl (frames s) r1 q = Some u" for r1 q j u
    using forestD(2) [OF fo that(1) r pt_path_prefix [OF that(2)] pl that(3)] t that(2)
    by (auto simp: pt_path_def)
  have n: "nxt (frames s') u j = nxt (frames s) u j" if "u \<noteq> t" for u j
    using that by (simp add: nxt_def fr')
  show T: "tbl (frames s') r1 q = tbl (frames s) r1 q" if "r1 \<in> R" "pt_path q" for r1 q
    using that
  proof (induction q rule: rev_induct)
    case (snoc j q)
    then show ?case using pt_path_prefix [OF snoc.prems(2)] nt [OF snoc.prems] n
      by (auto simp: tbl_snoc split: bind_split)
  qed simp
  show "pte_of (frames s') r1 la' = (if r1 = r \<and> vpn la' = vpn la then v else pte_of (frames s) r1 la')"
    if "r1 \<in> R" "PDX1 la' < 511" for r1 la'
  proof -
    have pl': "pt_path [PDX1 la', PDX0 la']" using that(2) by (simp add: pt_path_def)
    have "u = t \<longleftrightarrow> r1 = r \<and> PDX1 la' = PDX1 la \<and> PDX0 la' = PDX0 la" if "tbl (frames s) r1 [PDX1 la', PDX0 la'] = Some u" for u
      using forestD(2) [OF fo \<open>r1 \<in> R\<close> r pl' pl that] t that by auto
    then show ?thesis
      using t T [OF that(1) pl'] by (auto simp: pte_of_def vpn_def fr' split: option.split)
  qed
  show "forest s' R F'" if "frame_inv s' F'"
    "F' \<inter> {t. \<exists>r\<in>R. \<exists>p. pt_path p \<and> tbl (frames s) r p = Some t} = {}"
  proof (rule forestI [OF that(1)])
    show "nxt (frames s') u j \<noteq> None"
      if "r1 \<in> R" "pt_path (q @ [j])" "tbl (frames s') r1 q = Some u" "valid (frames s' u j)" for r1 q u j
      using that T [OF that(1) pt_path_prefix [OF that(2)]] nt [OF that(1,2)] n forestD(4) [OF fo that(1,2)]
      by (auto simp: fr')
  qed (use T forestD(2) [OF fo] that(2) in \<open>simp_all, blast+\<close>)
qed

section \<open>Walking the tables\<close>

lemma nxt_valid: "nxt fr t i = Some u \<Longrightarrow> valid (fr t i)"
  by (simp add: nxt_def split: if_split_asm)

definition tables :: "vm_st \<Rightarrow> nat set \<Rightarrow> nat set" where
  "tables s R = {t. \<exists>r\<in>R. \<exists>p. pt_path p \<and> tbl (frames s) r p = Some t}"

text \<open>
  \<open>grows R F s F' s'\<close>: from \<open>s\<close> to \<open>s'\<close> some of the free frames \<open>F\<close> became tables, and nothing else changed:
  no mapping, no other frame, no page descriptor.
\<close>

definition grows :: "nat set \<Rightarrow> nat set \<Rightarrow> vm_st \<Rightarrow> nat set \<Rightarrow> vm_st \<Rightarrow> bool" where
  "grows R F s F' s' \<longleftrightarrow> forest s' R F' \<and> F' \<subseteq> F \<and> swap_init_ok s' = swap_init_ok s \<and>
     (\<forall>r\<in>R. \<forall>la. PDX1 la < 511 \<longrightarrow> pte_of (frames s') r la = pte_of (frames s) r la) \<and>
     (\<forall>g. g \<notin> F \<longrightarrow> page_meta s' g = page_meta s g) \<and>
     (\<forall>g. g \<notin> F \<longrightarrow> g \<notin> tables s R \<longrightarrow> g \<notin> tables s' R \<and> frames s' g = frames s g) \<and>
     (\<forall>r\<in>R. \<forall>q. pt_path q \<longrightarrow> tbl (frames s) r q \<noteq> None \<longrightarrow> tbl (frames s') r q = tbl (frames s) r q)"

lemma grows_refl: "forest s R F \<Longrightarrow> grows R F s F s"
  by (simp add: grows_def)

lemma grows_trans:
  assumes "grows R F s F1 s1" "grows R F1 s1 F2 s2"
  shows "grows R F s F2 s2"
proof -
  have sub: "F1 \<subseteq> F" using assms(1) by (simp add: grows_def)
  have "tbl (frames s2) r q = tbl (frames s) r q" if "r \<in> R" "pt_path q" "tbl (frames s) r q \<noteq> None" for r q
    using assms that unfolding grows_def by metis
  then show ?thesis using assms sub unfolding grows_def by auto
qed

lemma forest_tables: "forest s R F \<Longrightarrow> t \<in> tables s R \<Longrightarrow> t \<notin> F"
  by (auto simp: tables_def dest: forestD(3))

text \<open>
  One level of the walk: it returns, and either the table is there already and nothing changes, or
  there is none and it is not made (because it is not asked for, or there is no memory), or a
  free frame becomes the table.
\<close>

lemma ensure_table_cases:
  assumes fo: "forest s R F" and r: "r \<in> R" and p: "pt_path (p @ [i])" and t: "tbl (frames s) r p = Some t"
    and mem: "create \<Longrightarrow> swap_init_ok s \<Longrightarrow> F \<noteq> {}"
  obtains (old) u where "ensure_table create (t, i) s = Some (True, s)" "nxt (frames s) t i = Some u"
  | (none) "ensure_table create (t, i) s = Some (False, s)" "nxt (frames s) t i = None" "create \<longrightarrow> F = {}"
  | (new) f s' where "ensure_table create (t, i) s = Some (True, s')" "create" "f \<in> F"
      "nxt (frames s') t i = Some f" "grows R F s (F - {f}) s'"
proof (cases "valid (frames s t i)")
  case True
  with forestD(4) [OF fo r p t] obtain u where "nxt (frames s) t i = Some u" by auto
  then show ?thesis using True by (intro old) (auto simp: ensure_table_def read_pte_def)
next
  case False
  then have nx: "nxt (frames s) t i = None" by (simp add: nxt_def)
  note al = alloc_page_spec [OF forestD(1) [OF fo]]
  show ?thesis
  proof (cases "create \<and> F \<noteq> {}")
    case True
    then obtain f m where al': "alloc_pages 1 s = Some (Some f, s\<lparr>pmm := m\<rparr>)" "f \<in> F" "frame_inv (s\<lparr>pmm := m\<rparr>) (F - {f})"
      using al by blast
    have fb: "f < npages" by (rule frame_inv_bound [OF forestD(1) [OF fo] al'(2)])
    have tt: "t \<in> tables s R" using r t pt_path_prefix [OF p] by (auto simp: tables_def)
    have tf: "t \<noteq> f" using forest_tables [OF fo tt] al'(2) by blast
    let ?s2 = "set_page_ref f 1 (s\<lparr>pmm := m\<rparr>)"
    let ?s' = "write_pte (t, i) (pte_create (page2ppn f) (PTE_U OR PTE_V)) (?s2\<lparr>frames := (frames ?s2)(f := \<lambda>_. 0)\<rparr>)"
    have ev: "ensure_table create (t, i) s = Some (True, ?s')"
      using False True al'(1) fb by (simp add: ensure_table_def read_pte_def Let_def)
    have fr: "frames ?s' = ((frames s)(f := \<lambda>_. 0))(t := (frames s t)(i := pte_create (page2ppn f) (PTE_U OR PTE_V)))"
      using tf by (simp add: write_pte_def set_page_ref_def upd_ref_def)
    note T = add_table [OF fo r p t False al'(2), folded fr]
    have fi: "frame_inv ?s' (F - {f})" using al'(3) by (simp add: set_page_ref_def)
    have n: "nxt (frames ?s') t i = Some f" 
      unfolding fr using fb by (simp add: nxt_def pa2page_pte_create PTE_U_def PTE_V_def)
    have tb: "tbl (frames ?s') r' q = tbl (frames s) r' q" if "r' \<in> R" "pt_path q" "tbl (frames s) r' q \<noteq> None" for r' q
      using T [OF that(1,2)] that(3) t nx by (auto simp: tbl_snoc)
    have me: "page_meta ?s' g = page_meta s g" if "g \<notin> F" for g
      using that al'(2) alloc_page_meta [OF al'(1)] by (auto simp: set_page_ref_def page_meta_upd_ref)
    have "g \<notin> tables ?s' R \<and> frames ?s' g = frames s g" if "g \<notin> F" "g \<notin> tables s R" for g
      using that T al'(2) tt fr unfolding tables_def by (auto split: if_split_asm)
    then have "grows R F s (F - {f}) ?s'"
      unfolding grows_def
      using forest_add_table [OF fo r p t False al'(2) fi fr] pte_of_add_table [OF fo r p t False al'(2) fr] me tb
      by (auto simp: write_pte_def set_page_ref_def upd_ref_def)
    then show ?thesis using True by (intro new [OF ev _ al'(2) n]) auto
  next
    case F: False
    then show ?thesis
      using False nx al mem by (intro none) (auto simp: ensure_table_def read_pte_def)
  qed
qed

lemma get_pte_lookup:
  assumes fo: "forest s R F" and r: "r \<in> R" and la: "PDX1 la < 511"
  shows "get_pte r la False s = Some (map_option (\<lambda>t. (t, PTX la)) (tbl (frames s) r [PDX1 la, PDX0 la]), s)"
proof -
  have p1: "pt_path ([] @ [PDX1 la])" and p2: "pt_path ([PDX1 la] @ [PDX0 la])" using la by (simp_all add: pt_path_def)
  show ?thesis
  proof (rule ensure_table_cases [OF fo r p1 tbl.simps(1), of False])
    fix t1 assume 1: "ensure_table False (r, PDX1 la) s = Some (True, s)" "nxt (frames s) r (PDX1 la) = Some t1"
    then have k1: "KADDR (PTE_ADDR (frames s r (PDX1 la))) = Some t1" and t1: "tbl (frames s) r [PDX1 la] = Some t1"
      by (auto simp: nxt_def KADDR_def split: if_split_asm)
    show ?thesis
      by (rule ensure_table_cases [OF fo r p2 t1, of False])
        (use 1 k1 in \<open>auto simp: get_pte_def read_pte_def KADDR_def nxt_def split: if_split_asm\<close>)
  qed (auto simp: get_pte_def)
qed

lemma ensure_table_create:
  assumes fo: "forest s R F" and r: "r \<in> R" and p: "pt_path (p @ [i])" and t: "tbl (frames s) r p = Some t"
    and mem: "finite F" "F \<noteq> {}"
  obtains u s' F' where "ensure_table True (t, i) s = Some (True, s')" "nxt (frames s') t i = Some u"
    "grows R F s F' s'" "card F \<le> card F' + 1"
proof (rule ensure_table_cases [OF fo r p t, of True])
  fix u assume "ensure_table True (t, i) s = Some (True, s)" "nxt (frames s) t i = Some u"
  then show thesis using grows_refl [OF fo] by (intro that) auto
next
  fix f s' assume a: "ensure_table True (t, i) s = Some (True, s')" "f \<in> F" "nxt (frames s') t i = Some f" "grows R F s (F - {f}) s'"
  show thesis using mem by (intro that [OF a(1,3,4)]) (simp add: card_Diff_singleton a(2))
qed (use mem in auto)

text \<open>With two free frames, \<open>get_pte\<close> with \<open>create\<close> finds the entry.\<close>

lemma get_pte_create:
  assumes fo: "forest s R F" and r: "r \<in> R" and la: "PDX1 la < 511" and mem: "finite F" "2 \<le> card F"
  obtains t s' F' where "get_pte r la True s = Some (Some (t, PTX la), s')" "card F \<le> card F' + 2" "grows R F s F' s'"
    "tbl (frames s') r [PDX1 la, PDX0 la] = Some t"
proof -
  have p1: "pt_path ([] @ [PDX1 la])" and p2: "pt_path ([PDX1 la] @ [PDX0 la])" using la by (simp_all add: pt_path_def)
  have ne: "F \<noteq> {}" using mem by auto
  obtain t1 s1 F1 where 1: "ensure_table True (r, PDX1 la) s = Some (True, s1)" "nxt (frames s1) r (PDX1 la) = Some t1"
    "grows R F s F1 s1" "card F \<le> card F1 + 1"
    by (rule ensure_table_create [OF fo r p1 tbl.simps(1) mem(1) ne])
  have k1: "KADDR (PTE_ADDR (frames s1 r (PDX1 la))) = Some t1" and t1: "tbl (frames s1) r [PDX1 la] = Some t1"
    using 1(2) by (auto simp: nxt_def KADDR_def split: if_split_asm)
  have f1: "finite F1" "F1 \<noteq> {}" using 1(3,4) mem by (auto simp: grows_def intro: finite_subset)
  have fo1: "forest s1 R F1" using 1(3) by (simp add: grows_def)
  obtain t0 s2 F2 where 2: "ensure_table True (t1, PDX0 la) s1 = Some (True, s2)" "nxt (frames s2) t1 (PDX0 la) = Some t0"
    "grows R F1 s1 F2 s2" "card F1 \<le> card F2 + 1"
    by (rule ensure_table_create [OF fo1 r p2 t1 f1])
  have t1': "tbl (frames s2) r [PDX1 la] = Some t1"
    using 2(3) r pt_path_prefix [OF p2] t1 unfolding grows_def by (metis option.discI)
  have k0: "KADDR (PTE_ADDR (frames s2 t1 (PDX0 la))) = Some t0"
    using 2(2) by (auto simp: nxt_def KADDR_def split: if_split_asm)
  have "get_pte r la True s = Some (Some (t0, PTX la), s2)"
    using 1(1) 2(1) k1 k0 by (simp add: get_pte_def read_pte_def)
  moreover have "tbl (frames s2) r [PDX1 la, PDX0 la] = Some t0"
    using tbl_snoc [of "frames s2" r "[PDX1 la]" "PDX0 la"] 2(2) t1' by (simp del: tbl.simps)
  ultimately show thesis
    using 1(4) 2(4) by (intro that [OF _ _ grows_trans [OF 1(3) 2(3)]]) auto
qed

section \<open>Inserting and removing mappings\<close>

lemma forest_finite: "forest s R F \<Longrightarrow> finite F"
  by (rule finite_subset [of _ "{..<npages}"]) (auto dest: forestD(1) frame_inv_bound)

lemma or_small: "a < 1024 \<Longrightarrow> b < 1024 \<Longrightarrow> a OR b < (1024 :: u32)"
  using OR_upper [of "uint a" 10 "uint b"] by (simp add: word_less_alt uint_or)

lemma write_upd_ref [simp]: "frames (upd_ref p f s) = frames s" "swap_init_ok (upd_ref p f s) = swap_init_ok s"
  by (simp_all add: upd_ref_def)

lemma frames_write_pte [simp]: "frames (write_pte (t, i) v s) = (frames s)(t := (frames s t)(i := v))"
  "swap_init_ok (write_pte p v s) = swap_init_ok s"
  by (simp_all add: write_pte_def)

lemma read_pte_of: "tbl (frames s) r [PDX1 la, PDX0 la] = Some t \<Longrightarrow> read_pte (t, PTX la) s = pte_of (frames s) r la"
  by (simp add: read_pte_def pte_of_def)

lemma set_leaf_tables:
  assumes "forest s R F" "r \<in> R" "PDX1 la < 511" "tbl (frames s) r [PDX1 la, PDX0 la] = Some t"
    "frames s' = (frames s)(t := (frames s t)(PTX la := v))"
  shows "tables s' R = tables s R"
proof -
  have "pt_path p \<and> tbl (frames s') q p = Some t \<longleftrightarrow> pt_path p \<and> tbl (frames s) q p = Some t" if "q \<in> R" for q p t
    using set_leaf(1) [OF assms, of q p] that by auto
  then show ?thesis unfolding tables_def by blast
qed

lemma set_leaf_forest:
  assumes "forest s R F" "r \<in> R" "PDX1 la < 511" "tbl (frames s) r [PDX1 la, PDX0 la] = Some t"
    "frames s' = (frames s)(t := (frames s t)(PTX la := v))" "frame_inv s' F'" "F' \<inter> tables s R = {}"
  shows "forest s' R F'"
  using set_leaf(3) [OF assms(1-6)] assms(7) by (simp add: tables_def)

lemma page_insert_fresh:
  assumes fo: "forest s R F" and r: "r \<in> R" and la: "PDX1 la < 511" and mem: "2 \<le> card F"
    and pg: "page \<notin> F" and inv: "\<not> valid (pte_of (frames s) r la)"
  obtains s' F' where "page_insert r page la perm s = Some (0, s')" "forest s' R F'" "F' \<subseteq> F" "card F \<le> card F' + 2"
    "swap_init_ok s' = swap_init_ok s"
    "\<And>r' la'. r' \<in> R \<Longrightarrow> PDX1 la' < 511 \<Longrightarrow> pte_of (frames s') r' la' =
       (if r' = r \<and> vpn la' = vpn la then pte_create (page2ppn page) (PTE_V OR perm) else pte_of (frames s) r' la')"
    "\<And>g. g \<notin> F \<Longrightarrow> page_meta s' g = (if g = page then (fst (page_meta s g) + 1, snd (page_meta s g)) else page_meta s g)"
    "\<And>g. g \<notin> F \<Longrightarrow> g \<notin> tables s R \<Longrightarrow> g \<notin> tables s' R \<and> frames s' g = frames s g"
proof -
  obtain t s1 F1 where g: "get_pte r la True s = Some (Some (t, PTX la), s1)" "card F \<le> card F1 + 2" "grows R F s F1 s1"
    "tbl (frames s1) r [PDX1 la, PDX0 la] = Some t"
    by (rule get_pte_create [OF fo r la forest_finite [OF fo] mem])
  let ?v = "pte_create (page2ppn page) (PTE_V OR perm)"
  let ?s' = "write_pte (t, PTX la) ?v (page_ref_inc page s1)"
  have fo1: "forest s1 R F1" using g(3) by (simp add: grows_def)
  have fr: "frames ?s' = (frames s1)(t := (frames s1 t)(PTX la := ?v))" by (simp add: page_ref_inc_def)
  have same: "pte_of (frames s1) r' la' = pte_of (frames s) r' la'" if "r' \<in> R" "PDX1 la' < 511" for r' la'
    using g(3) that by (simp add: grows_def)
  have "read_pte (t, PTX la) (page_ref_inc page s1) = pte_of (frames s) r la"
    using read_pte_of [OF g(4)] same [OF r la] by (simp add: page_ref_inc_def read_pte_def)
  then have ev: "page_insert r page la perm s = Some (0, ?s')"
    using g(1) inv by (simp add: page_insert_def)
  have ts: "F1 \<inter> tables s1 R = {}" using forest_tables [OF fo1] by blast
  have fi: "frame_inv ?s' F1" using forestD(1) [OF fo1] by (simp add: page_ref_inc_def)
  have tt: "t \<in> tables s1 R" using g(4) r la unfolding tables_def pt_path_def
    by (intro CollectI bexI [OF _ r] exI [of _ "[PDX1 la, PDX0 la]"]) auto
  show thesis
  proof (rule that [OF ev set_leaf_forest [OF fo1 r la g(4) fr fi ts]])
    show "F1 \<subseteq> F" "card F \<le> card F1 + 2" "swap_init_ok ?s' = swap_init_ok s"
      using g by (auto simp: grows_def page_ref_inc_def)
    show "pte_of (frames ?s') r' la' = (if r' = r \<and> vpn la' = vpn la then ?v else pte_of (frames s) r' la')"
      if "r' \<in> R" "PDX1 la' < 511" for r' la'
      using set_leaf(2) [OF fo1 r la g(4) fr that] same [OF that] by simp
    show "page_meta ?s' g = (if g = page then (fst (page_meta s g) + 1, snd (page_meta s g)) else page_meta s g)"
      if "g \<notin> F" for g
      using that g(3) by (auto simp: page_ref_inc_def page_meta_upd_ref grows_def)
    show "g \<notin> tables ?s' R \<and> frames ?s' g = frames s g" if "g \<notin> F" "g \<notin> tables s R" for g
      using that g(3) tt unfolding set_leaf_tables [OF fo1 r la g(4) fr] fr by (auto simp: grows_def)
  qed
qed

text \<open>
  C16. A page table is a map from virtual pages to entries.  \<open>page_insert\<close> of a page at an unmapped address
  (with two free frames for tables) succeeds and sets exactly this one mapping of this address
  space: every other address of it and every address of every other address space keeps its
  entry, and \<open>get_page\<close> finds the page; the tables stay a forest disjoint from the free
  frames, and the page's reference count goes up by one.
\<close>

theorem page_insert_maps_one_page:
  assumes fo: "forest s R F" and r: "r \<in> R" and la: "PDX1 la < 511" and mem: "2 \<le> card F"
    and pg: "page \<notin> F" "page < npages" and perm: "perm < 1024" and inv: "\<not> valid (pte_of (frames s) r la)"
  shows "\<exists>s' F'. page_insert r page la perm s = Some (0, s') \<and> F' \<subseteq> F \<and> forest s' R F' \<and>
    (\<exists>pp. get_page r la s' = Some (Some page, Some pp) \<and> read_pte pp s' = pte_create (page2ppn page) (PTE_V OR perm)) \<and>
    (\<forall>r'\<in>R. \<forall>la'. PDX1 la' < 511 \<longrightarrow> (r', vpn la') \<noteq> (r, vpn la) \<longrightarrow> pte_of (frames s') r' la' = pte_of (frames s) r' la') \<and>
    page_ref page s' = page_ref page s + 1"
proof -
  obtain s' F' where P: "page_insert r page la perm s = Some (0, s')" "forest s' R F'" "F' \<subseteq> F"
    "\<And>r' la'. r' \<in> R \<Longrightarrow> PDX1 la' < 511 \<Longrightarrow> pte_of (frames s') r' la' =
       (if r' = r \<and> vpn la' = vpn la then pte_create (page2ppn page) (PTE_V OR perm) else pte_of (frames s) r' la')"
    "\<And>g. g \<notin> F \<Longrightarrow> page_meta s' g = (if g = page then (fst (page_meta s g) + 1, snd (page_meta s g)) else page_meta s g)"
    by (rule page_insert_fresh [OF fo r la mem pg(1) inv]) blast
  let ?v = "pte_create (page2ppn page) (PTE_V OR perm)"
  have v: "pte_of (frames s') r la = ?v" using P(4) [OF r la] by simp
  then obtain t where t: "tbl (frames s') r [PDX1 la, PDX0 la] = Some t"
    using valid_pte_create [of "page2ppn page" "PTE_V OR perm"]
    by (cases "tbl (frames s') r [PDX1 la, PDX0 la]") (auto simp: pte_of_def valid_def)
  have rd: "read_pte (t, PTX la) s' = ?v" using read_pte_of [OF t] v by simp
  have "pte2page ?v = Some page"
    using pa2page_pte_create [OF pg(2) or_small [OF _ perm, of PTE_V]] by (simp add: pte2page_def PTE_V_def)
  then have "get_page r la s' = Some (Some page, Some (t, PTX la))"
    using get_pte_lookup [OF P(2) r la] t rd by (simp add: get_page_def del: tbl.simps)
  moreover have "page_ref page s' = page_ref page s + 1"
    using P(5) [OF pg(1)] by (simp add: page_ref_def page_meta_def meta_def)
  ultimately show ?thesis using P rd by (intro exI [of _ s'] exI [of _ F']) auto
qed

section \<open>Unmapping a range\<close>

lemma and_1FF: "unat (w AND 0x1FF :: u64) = unat w mod 512"
proof -
  have "(0x1FF :: u64) = mask 9" by (simp add: mask_eq_exp_minus_1)
  then have "w AND 0x1FF = take_bit 9 w" by (simp only: take_bit_eq_mask)
  then show ?thesis by (simp add: unsigned_take_bit_eq take_bit_nat_def)
qed

lemma indices:
  "PDX1 la = unat la div 2 ^ 30 mod 512" "PDX0 la = unat la div 2 ^ 21 mod 512" "PTX la = unat la div 2 ^ 12 mod 512"
  unfolding PDX1_def PDX0_def PTX_def and_1FF
  by (simp_all add: unat_drop_bit_eq drop_bit_nat_def)

lemma table_eq:
  assumes "unat la div 2 ^ 21 = unat start div 2 ^ 21"
  shows "PDX1 la = PDX1 start" "PDX0 la = PDX0 start"
proof -
  have "n div 2 ^ 30 = n div 2 ^ 21 div 512" for n :: nat by (simp add: div_mult2_eq [symmetric])
  then show "PDX1 la = PDX1 start" by (simp only: indices assms)
  show "PDX0 la = PDX0 start" by (simp only: indices assms)
qed

lemma vpn_eq_iff:
  assumes "la < USERTOP" "la' < USERTOP"
  shows "vpn la = vpn la' \<longleftrightarrow> unat la div 4096 = unat la' div 4096"
proof -
  have d: "n div 2 ^ 30 = n div 4096 div 512 div 512" "n div 2 ^ 21 = n div 4096 div 512" "n div 2 ^ 12 = n div 4096" for n :: nat
    by (simp_all add: div_mult2_eq [symmetric])
  define a b where "a = unat la div 4096" and "b = unat la' div 4096"
  have "unat la < 2 ^ 31" "unat la' < 2 ^ 31" using assms by (simp_all add: USERTOP_def word_less_nat_alt)
  then have lt: "a div 512 div 512 < 512" "b div 512 div 512 < 512"
    by (simp_all add: a_def b_def div_mult2_eq [symmetric] less_mult_imp_div_less)
  have "a = b" if "a div 512 div 512 = b div 512 div 512" "a div 512 mod 512 = b div 512 mod 512" "a mod 512 = b mod 512"
    using that by (metis div_mult_mod_eq)
  then show ?thesis using lt unfolding vpn_def indices d a_def [symmetric] b_def [symmetric] by auto
qed

lemma user_PDX1: "la < USERTOP \<Longrightarrow> PDX1 la < 511"
  by (simp add: indices USERTOP_def word_less_nat_alt less_mult_imp_div_less)

text \<open>Removing the mapping of a page that is mapped once.\<close>

lemma free_page_spec:
  assumes "frame_inv s F" "p < npages" "p \<notin> F" "\<not> snd (page_meta s p)" "\<exists>v\<in>F. p < v"
  obtains m where "free_pages p 1 s = Some (s\<lparr>pmm := m\<rparr>)" "frame_inv (s\<lparr>pmm := m\<rparr>) (insert p F)"
proof -
  obtain xs where xs: "pmm_inv npages (pmm s) xs" "free_set (pages (pmm s)) xs = F"
    using assms(1) by (auto simp: frame_inv_def)
  from assms(5) obtain v b where v: "v \<in> F" "p < v" "b \<in> set xs" "v \<in> block (pages (pmm s)) b"
    using xs(2) by (auto simp: free_set_def)
  have "p < b"
  proof (rule ccontr)
    assume "\<not> p < b"
    then have "p \<in> block (pages (pmm s)) b" using v(2,4) by (auto simp: block_def)
    then show False using assms(3) xs(2) v(3) by (auto simp: free_set_def)
  qed
  then have ab: "xs = [] \<or> (\<exists>v\<in>set xs. p < v)" using v(3) by blast
  obtain m xs' where "default_free_pages p 1 (pmm s) = Some m" "pmm_inv npages m xs'" "free_set (pages m) xs' = F \<union> {p..<p + 1}"
    using default_free_spec [OF xs(1) zero_less_one _ _ _ _ ab] assms xs(2)
    by (auto simp: page_meta_def meta_def npages_def npage_def nbase_def)
  then show thesis by (intro that [of m]) (auto simp: free_pages_def frame_inv_def)
qed

lemma page_remove_pte_once:
  assumes fo: "forest s R F" and r: "r \<in> R" and la: "PDX1 la < 511" and t: "tbl (frames s) r [PDX1 la, PDX0 la] = Some t"
    and p: "pte2page (pte_of (frames s) r la) = Some p" "p < npages" "p \<notin> F" "p \<notin> tables s R" "page_meta s p = (1, False)" "\<exists>v\<in>F. p < v"
  obtains s' where "page_remove_pte (t, PTX la) s = Some s'" "forest s' R (insert p F)" "tables s' R = tables s R"
    "\<And>r' la'. r' \<in> R \<Longrightarrow> PDX1 la' < 511 \<Longrightarrow>
       pte_of (frames s') r' la' = (if r' = r \<and> vpn la' = vpn la then 0 else pte_of (frames s) r' la')"
    "\<And>g. g \<noteq> p \<Longrightarrow> page_meta s' g = page_meta s g"
proof -
  let ?s1 = "page_ref_dec p s"
  have v: "valid (pte_of (frames s) r la)" using p(1) by (simp add: pte2page_def split: if_split_asm)
  have me: "page_meta ?s1 g = (if g = p then (0, False) else page_meta s g)" for g
    using p(5) by (simp add: page_ref_dec_def page_meta_upd_ref)
  have z: "page_ref p ?s1 = 0" using me [of p] by (simp add: page_ref_def page_meta_def meta_def)
  have fi1: "frame_inv ?s1 F" using forestD(1) [OF fo] by (simp add: page_ref_dec_def)
  obtain m where m: "free_pages p 1 ?s1 = Some (?s1\<lparr>pmm := m\<rparr>)" "frame_inv (?s1\<lparr>pmm := m\<rparr>) (insert p F)"
    by (rule free_page_spec [OF fi1 p(2,3) _ p(6)]) (simp add: me)
  let ?s' = "write_pte (t, PTX la) 0 (?s1\<lparr>pmm := m\<rparr>)"
  have ev: "page_remove_pte (t, PTX la) s = Some ?s'"
    using v p(1) z m(1) by (simp add: page_remove_pte_def read_pte_of [OF t])
  have fr: "frames ?s' = (frames s)(t := (frames s t)(PTX la := 0))" by (simp add: page_ref_dec_def upd_ref_def)
  have dj: "insert p F \<inter> tables s R = {}" using p(4) forest_tables [OF fo] by blast
  have fi: "frame_inv ?s' (insert p F)" using m(2) by simp
  show thesis
    by (rule that [OF ev set_leaf_forest [OF fo r la t fr fi dj] set_leaf_tables [OF fo r la t fr] set_leaf(2) [OF fo r la t fr]])
      (use free_page_meta [OF m(1)] me in \<open>simp_all add: page_meta_def write_pte_def\<close>)
qed

definition mapped_pages :: "vm_st \<Rightarrow> nat \<Rightarrow> u64 \<Rightarrow> u64 \<Rightarrow> nat set" where
  "mapped_pages s r a b = {p. \<exists>la. a \<le> la \<and> la < b \<and> pte2page (pte_of (frames s) r la) = Some p}"

text \<open>\<open>unmapped R F r a b s s'\<close>: exactly the mappings of \<open>r\<close> from \<open>a\<close> to \<open>b\<close> are gone and their pages free.\<close>

definition unmapped :: "nat set \<Rightarrow> nat set \<Rightarrow> nat \<Rightarrow> u64 \<Rightarrow> u64 \<Rightarrow> vm_st \<Rightarrow> vm_st \<Rightarrow> bool" where
  "unmapped R F r a b s s' \<longleftrightarrow> forest s' R (F \<union> mapped_pages s r a b) \<and> tables s' R = tables s R \<and>
     (\<forall>r'\<in>R. \<forall>la<USERTOP. pte_of (frames s') r' la =
        (if r' = r \<and> a \<le> la \<and> la < b \<and> valid (pte_of (frames s) r la) then 0 else pte_of (frames s) r' la)) \<and>
     (\<forall>g. g \<notin> mapped_pages s r a b \<longrightarrow> page_meta s' g = page_meta s g)"

lemma unmapped_trans:
  assumes u: "unmapped R F r a b s s1" "unmapped R (F \<union> mapped_pages s r a b) r b c s1 s2"
    and ord: "a \<le> b" "b \<le> c" "c \<le> USERTOP" and r: "r \<in> R"
  shows "unmapped R F r a c s s2"
proof -
  have same: "pte_of (frames s1) r la = pte_of (frames s) r la" if "b \<le> la" "la < c" for la
    using u(1) that ord(3) r unfolding unmapped_def by (meson linorder_not_le order_less_le_trans)
  have mp1: "mapped_pages s1 r b c = mapped_pages s r b c"
    using same unfolding mapped_pages_def by metis
  have mp: "mapped_pages s r a c = mapped_pages s r a b \<union> mapped_pages s r b c"
  proof -
    have "a \<le> la \<and> la < c \<and> Q \<longleftrightarrow> (a \<le> la \<and> la < b \<and> Q) \<or> (b \<le> la \<and> la < c \<and> Q)" for la Q
      using ord by (auto simp: word_le_nat_alt word_less_nat_alt)
    then show ?thesis unfolding mapped_pages_def by (simp only: ex_disj_distrib Collect_disj_eq)
  qed
  have "pte_of (frames s2) r' la =
      (if r' = r \<and> a \<le> la \<and> la < c \<and> valid (pte_of (frames s) r la) then 0 else pte_of (frames s) r' la)"
    if "r' \<in> R" "la < USERTOP" for r' la
  proof -
    have 1: "pte_of (frames s1) r' la =
      (if r' = r \<and> a \<le> la \<and> la < b \<and> valid (pte_of (frames s) r la) then 0 else pte_of (frames s) r' la)"
      using u(1) that unfolding unmapped_def by blast
    have 2: "pte_of (frames s2) r' la =
      (if r' = r \<and> b \<le> la \<and> la < c \<and> valid (pte_of (frames s1) r la) then 0 else pte_of (frames s1) r' la)"
      using u(2) that unfolding unmapped_def by blast
    show ?thesis
    proof (cases "la < b")
      case True
      then show ?thesis using 1 2 ord by (auto simp: not_le [symmetric])
    next
      case False
      then show ?thesis using 1 2 ord same [of la] by (auto simp: not_less intro: order_trans)
    qed
  qed
  then show ?thesis
    using u unfolding unmapped_def mp1 mp by (auto simp: Un_assoc)
qed

text \<open>Each page mapped in the range is mapped once, owned, and below a free frame \<open>hi\<close>.\<close>

definition owned :: "vm_st \<Rightarrow> nat set \<Rightarrow> nat set \<Rightarrow> nat \<Rightarrow> nat \<Rightarrow> u64 \<Rightarrow> u64 \<Rightarrow> bool" where
  "owned s R F hi r a b \<longleftrightarrow> hi \<in> F \<and>
     (\<forall>la. a \<le> la \<longrightarrow> la < b \<longrightarrow> valid (pte_of (frames s) r la) \<longrightarrow>
        (\<exists>p<npages. pte2page (pte_of (frames s) r la) = Some p \<and> p \<notin> F \<and> p \<notin> tables s R \<and> page_meta s p = (1, False) \<and> p < hi)) \<and>
     (\<forall>la la' p. a \<le> la \<longrightarrow> la < b \<longrightarrow> a \<le> la' \<longrightarrow> la' < b \<longrightarrow> pte2page (pte_of (frames s) r la) = Some p \<longrightarrow>
        pte2page (pte_of (frames s) r la') = Some p \<longrightarrow> vpn la = vpn la')"

lemma owned_rest:
  assumes o: "owned s R F hi r a c" and u: "unmapped R F r a b s s1" and r: "r \<in> R" and ord: "a \<le> b" "c \<le> USERTOP"
    and pages: "\<And>la la'. a \<le> la \<Longrightarrow> la < b \<Longrightarrow> b \<le> la' \<Longrightarrow> la' < c \<Longrightarrow> la < c \<and> vpn la \<noteq> vpn la'"
  shows "owned s1 R (F \<union> mapped_pages s r a b) hi r b c"
proof -
  have same: "pte_of (frames s1) r la = pte_of (frames s) r la" if "b \<le> la" "la < c" for la
    using u that ord(2) r unfolding unmapped_def by (meson linorder_not_le order_less_le_trans)
  have fresh: "p \<notin> mapped_pages s r a b" if "b \<le> la'" "la' < c" "pte2page (pte_of (frames s) r la') = Some p" for la' p
  proof
    assume "p \<in> mapped_pages s r a b"
    then obtain la where la: "a \<le> la" "la < b" "pte2page (pte_of (frames s) r la) = Some p" by (auto simp: mapped_pages_def)
    have "la < c \<and> vpn la \<noteq> vpn la'" using pages [OF la(1,2) that(1,2)] .
    moreover have "a \<le> la'" using ord(1) that(1) by (rule order_trans)
    ultimately show False using o la that unfolding owned_def by blast
  qed
  have t: "tables s1 R = tables s R" and m: "\<And>g. g \<notin> mapped_pages s r a b \<Longrightarrow> page_meta s1 g = page_meta s g"
    using u by (auto simp: unmapped_def)
  have up: "a \<le> la" if "b \<le> la" for la using ord(1) that by (rule order_trans)
  show ?thesis
    unfolding owned_def
  proof (intro conjI allI impI)
    show "hi \<in> F \<union> mapped_pages s r a b" using o by (simp add: owned_def)
  next
    fix la assume la: "b \<le> la" "la < c" "valid (pte_of (frames s1) r la)"
    then have "valid (pte_of (frames s) r la)" using same [OF la(1,2)] by simp
    with o up [OF la(1)] la(2) obtain p where p: "p < npages" "pte2page (pte_of (frames s) r la) = Some p" "p \<notin> F" "p \<notin> tables s R"
      "page_meta s p = (1, False)" "p < hi" unfolding owned_def by blast
    then show "\<exists>p<npages. pte2page (pte_of (frames s1) r la) = Some p \<and> p \<notin> F \<union> mapped_pages s r a b \<and> p \<notin> tables s1 R \<and>
        page_meta s1 p = (1, False) \<and> p < hi"
      using fresh [OF la(1,2) p(2)] m [of p] t same [OF la(1,2)] by auto
  next
    fix la la' p assume a: "b \<le> la" "la < c" "b \<le> la'" "la' < c" "pte2page (pte_of (frames s1) r la) = Some p"
      "pte2page (pte_of (frames s1) r la') = Some p"
    then show "vpn la = vpn la'"
      using o up same [OF a(1,2)] same [OF a(3,4)] unfolding owned_def by metis
  qed
qed

lemma unmapped_none:
  assumes "forest s R F" "\<And>la. a \<le> la \<Longrightarrow> la < b \<Longrightarrow> \<not> valid (pte_of (frames s) r la)"
  shows "unmapped R F r a b s s"
proof -
  have "mapped_pages s r a b = {}" using assms(2) by (auto simp: mapped_pages_def pte2page_def)
  then show ?thesis using assms by (auto simp: unmapped_def)
qed

lemma pte_of_vpn: "vpn la = vpn la' \<Longrightarrow> pte_of fr r la = pte_of fr r la'"
  by (simp add: vpn_def pte_of_def cong: option.case_cong)

text \<open>The next address when a table is missing, and when the page was looked at.\<close>

lemma next_table:
  assumes "start < USERTOP"
  shows "unat (ROUNDDOWN (start + PTSIZE) PTSIZE) = (unat start div 2 ^ 21 + 1) * 2 ^ 21"
proof -
  have "unat start < 2 ^ 31" using assms by (simp add: USERTOP_def word_less_nat_alt)
  then have "unat (start + PTSIZE) = unat start + 2 ^ 21"
    by (simp add: unat_word_ariths PTSIZE_def PGSIZE_def)
  moreover have "unat PTSIZE = 2 ^ 21" by (simp add: PTSIZE_def PGSIZE_def)
  ultimately have "unat (ROUNDDOWN (start + PTSIZE) PTSIZE) = (unat start + 2 ^ 21) div 2 ^ 21 * 2 ^ 21"
    by (simp only: unat_ROUNDDOWN minus_mod_eq_div_mult)
  also have "(unat start + 2 ^ 21) div 2 ^ 21 = unat start div 2 ^ 21 + 1" by (rule div_add_self2) simp
  finally show ?thesis .
qed

lemma next_page: "start < USERTOP \<Longrightarrow> unat (start + PGSIZE) = unat start + 4096"
  by (simp add: USERTOP_def word_less_nat_alt unat_word_ariths PGSIZE_def)

lemma page_interval:
  assumes "unat start mod 4096 = 0" "start < USERTOP" "la < USERTOP"
  shows "vpn la = vpn start \<longleftrightarrow> start \<le> la \<and> la < start + PGSIZE"
proof -
  obtain k where k: "unat start = 4096 * k" using assms(1) by auto
  have "start \<le> la \<and> la < start + PGSIZE \<longleftrightarrow> 4096 * k \<le> unat la \<and> unat la < 4096 * k + 4096"
    by (simp add: word_le_nat_alt word_less_nat_alt next_page [OF assms(2)] k)
  also have "\<dots> \<longleftrightarrow> unat la div 4096 = k" by (auto simp: div_nat_eqI)
  finally show ?thesis by (simp add: vpn_eq_iff [OF assms(3,2)] k)
qed

lemma unmap_page_step:
  assumes fo: "forest s R F" and r: "r \<in> R" and al: "unat start mod 4096 = 0" and lt: "start < end" "start + PGSIZE \<le> end" "end \<le> USERTOP"
    and o: "owned s R F hi r start end" and t: "tbl (frames s) r [PDX1 start, PDX0 start] = Some t"
  obtains s2 where "(if read_pte (t, PTX start) s \<noteq> 0 then page_remove_pte (t, PTX start) s else Some s) = Some s2"
    "unmapped R F r start (start + PGSIZE) s s2"
proof -
  have us: "start < USERTOP" using lt by (meson order_less_le_trans)
  have rd: "read_pte (t, PTX start) s = pte_of (frames s) r start" by (rule read_pte_of [OF t])
  have bnd: "la < USERTOP" if "la < start + PGSIZE" for la using that lt by (meson order_less_le_trans)
  have same: "pte_of (frames s) r la = pte_of (frames s) r start" if "start \<le> la" "la < start + PGSIZE" for la
    by (rule pte_of_vpn) (use page_interval [OF al us bnd [OF that(2)]] that in blast)
  show thesis
  proof (cases "valid (pte_of (frames s) r start)")
    case False
    have "unmapped R F r start (start + PGSIZE) s s"
    proof (rule unmapped_none [OF fo])
      fix la assume "start \<le> la" "la < start + PGSIZE"
      then show "\<not> valid (pte_of (frames s) r la)" using same [of la] False by metis
    qed
    moreover have "page_remove_pte (t, PTX start) s = Some s" using False by (simp add: page_remove_pte_def rd)
    ultimately show thesis using that [of s] by simp
  next
    case True
    have nz: "pte_of (frames s) r start \<noteq> 0" using True by (auto simp: valid_def)
    from o True lt obtain p where p: "p < npages" "pte2page (pte_of (frames s) r start) = Some p" "p \<notin> F" "p \<notin> tables s R"
      "page_meta s p = (1, False)" "p < hi" "hi \<in> F" unfolding owned_def by blast
    obtain s2 where s2: "page_remove_pte (t, PTX start) s = Some s2" "forest s2 R (insert p F)" "tables s2 R = tables s R"
      "\<And>r' la'. r' \<in> R \<Longrightarrow> PDX1 la' < 511 \<Longrightarrow>
         pte_of (frames s2) r' la' = (if r' = r \<and> vpn la' = vpn start then 0 else pte_of (frames s) r' la')"
      "\<And>g. g \<noteq> p \<Longrightarrow> page_meta s2 g = page_meta s g"
      by (rule page_remove_pte_once [OF fo r user_PDX1 [OF us] t p(2,1,3-5)]) (use p in blast)+
    have "start < start + PGSIZE" using next_page [OF us] by (simp add: word_less_nat_alt)
    then have mp: "mapped_pages s r start (start + PGSIZE) = {p}"
    proof -
      have "(\<exists>la. start \<le> la \<and> la < start + PGSIZE \<and> pte2page (pte_of (frames s) r la) = Some q) \<longleftrightarrow> q = p" for q
        using same p(2) \<open>start < start + PGSIZE\<close> by (metis option.inject order_refl)
      then show ?thesis by (simp add: mapped_pages_def)
    qed
    have "unmapped R F r start (start + PGSIZE) s s2"
      unfolding unmapped_def mp
    proof (intro conjI ballI allI impI)
      fix r' la assume a: "r' \<in> R" "la < USERTOP"
      show "pte_of (frames s2) r' la = (if r' = r \<and> start \<le> la \<and> la < start + PGSIZE \<and> valid (pte_of (frames s) r la)
          then 0 else pte_of (frames s) r' la)"
        using s2(4) [OF a(1) user_PDX1 [OF a(2)]] page_interval [OF al us a(2)] same [of la] True by auto
    qed (use s2 in auto)
    then show thesis using that [of s2] s2(1) nz rd by simp
  qed
qed

lemma unmap_loop_ok:
  assumes "forest s R F" "r \<in> R" "unat start mod 4096 = 0" "unat end mod 4096 = 0" "start < end" "end \<le> USERTOP"
    "owned s R F hi r start end"
  shows "\<exists>s'. unmap_loop r start end s = Some s' \<and> unmapped R F r start end s s'"
  using assms
proof (induction "unat end - unat start" arbitrary: start s F rule: less_induct)
  case less
  note fo = less.prems(1) and r = less.prems(2) and al = less.prems(3,4) and lt = less.prems(5,6) and o = less.prems(7)
  have us: "start < USERTOP" using lt by (meson order_less_le_trans)
  note gp = get_pte_lookup [OF fo r user_PDX1 [OF us]]
  have go: ?case if st: "unmap_loop r start end s = (if start1 \<noteq> 0 \<and> start1 < end then unmap_loop r start1 end s2 else Some s2)"
      and up: "start < start1" "unat start1 mod 4096 = 0" and u: "unmapped R F r start (min start1 end) s s2" for start1 s2
  proof (cases "start1 < end")
    case False
    then have "min start1 end = end" by (simp add: min_def)
    then show ?thesis using st u False by simp
  next
    case True
    then have u': "unmapped R F r start start1 s s2" using u by (simp add: min_def less_imp_le)
    have sep: "la < end \<and> vpn la \<noteq> vpn la'" if "start \<le> la" "la < start1" "start1 \<le> la'" "la' < end" for la la'
    proof -
      have lts: "la < end" "la < USERTOP" "la' < USERTOP" using that True lt(2) by (meson order_less_le_trans order_less_trans)+
      obtain k where k: "unat start1 = 4096 * k" using up(2) by auto
      have "unat la div 4096 < k" "k \<le> unat la' div 4096"
        using that k by (auto simp: word_less_nat_alt word_le_nat_alt less_eq_div_iff_mult_less_eq div_less_iff_less_mult)
      then show ?thesis using vpn_eq_iff [OF lts(2,3)] lts(1) by auto
    qed
    have "\<exists>s'. unmap_loop r start1 end s2 = Some s' \<and> unmapped R (F \<union> mapped_pages s r start start1) r start1 end s2 s'"
    proof (rule less.hyps)
      show "unat end - unat start1 < unat end - unat start" using up(1) True by (simp add: word_less_nat_alt)
      show "forest s2 R (F \<union> mapped_pages s r start start1)" using u' by (simp add: unmapped_def)
      show "owned s2 R (F \<union> mapped_pages s r start start1) hi r start1 end"
        by (rule owned_rest [OF o u' r _ lt(2) sep]) (use up in auto)
    qed (use r up al True lt in auto)
    moreover have "start1 \<noteq> 0" using up(1) by auto
    ultimately show ?thesis using st True unmapped_trans [OF u' _ _ _ lt(2) r] up(1) by (auto simp: less_imp_le)
  qed
  show ?case
  proof (cases "tbl (frames s) r [PDX1 start, PDX0 start]")
    case None
    let ?n = "ROUNDDOWN (start + PTSIZE) PTSIZE"
    note nt = next_table [OF us]
    have "unmapped R F r start (min ?n end) s s"
    proof (rule unmapped_none [OF fo])
      fix la assume a: "start \<le> la" "la < min ?n end"
      then have "la < ?n" by simp
      then have "unat start \<le> unat la" "unat la < (unat start div 2 ^ 21 + 1) * 2 ^ 21"
        using nt a(1) by (auto simp: word_le_nat_alt word_less_nat_alt)
      then have "unat start div 2 ^ 21 \<le> unat la div 2 ^ 21" "unat la div 2 ^ 21 < unat start div 2 ^ 21 + 1"
        by (auto intro: div_le_mono less_mult_imp_div_less simp del: power_numeral)
      then have "unat la div 2 ^ 21 = unat start div 2 ^ 21" by linarith
      note te = table_eq [OF this]
      have "pte_of (frames s) r la = 0" unfolding pte_of_def te None by simp
      then show "\<not> valid (pte_of (frames s) r la)" by (simp add: valid_def)
    qed
    moreover have "unmap_loop r start end s = (if ?n \<noteq> 0 \<and> ?n < end then unmap_loop r ?n end s else Some s)"
      using gp None by (subst unmap_loop.simps) (simp del: tbl.simps)
    moreover have "unat start < unat ?n" unfolding nt by (simp add: dividend_less_div_times)
    moreover have "unat ?n mod 4096 = 0" unfolding nt by (simp add: mod_mult_right_eq [symmetric])
    ultimately show ?thesis by (intro go [of ?n s]) (simp_all add: word_less_nat_alt)
  next
    case (Some t)
    have le: "start + PGSIZE \<le> end"
    proof -
      obtain j k where "unat start = 4096 * j" "unat end = 4096 * k" using al by (auto elim!: dvdE)
      then show ?thesis using lt(1) next_page [OF us] by (simp add: word_less_nat_alt word_le_nat_alt)
    qed
    obtain s2 where s2: "(if read_pte (t, PTX start) s \<noteq> 0 then page_remove_pte (t, PTX start) s else Some s) = Some s2"
      "unmapped R F r start (start + PGSIZE) s s2"
      by (rule unmap_page_step [OF fo r al(1) lt(1) le lt(2) o Some])
    have "unmap_loop r start end s =
        (if start + PGSIZE \<noteq> 0 \<and> start + PGSIZE < end then unmap_loop r (start + PGSIZE) end s2 else Some s2)"
      using gp Some s2(1) by (subst unmap_loop.simps) (simp del: tbl.simps)
    moreover have "start < start + PGSIZE" "unat (start + PGSIZE) mod 4096 = 0"
      using next_page [OF us] al(1) by (simp_all add: word_less_nat_alt)
    ultimately show ?thesis using s2(2) le by (intro go [of "start + PGSIZE" s2]) (simp_all add: min_def)
  qed
qed

text \<open>
  C17. \<open>unmap_range\<close> removes exactly the mappings of one address range of one address space.
  When every page mapped in the page-aligned user range is mapped there once with reference count 1, is
  neither reserved nor a table, and lies below some free frame, then the loop ends, afterwards the range is unmapped,
  exactly its pages have become free, the tables are still a forest, and no mapping outside the range and no
  mapping of another address space has changed.
\<close>

theorem unmap_range_releases_range:
  assumes "forest s R F" "r \<in> R" "start mod PGSIZE = 0" "end mod PGSIZE = 0" "USER_ACCESS start end"
    "owned s R F hi r start end"
  shows "\<exists>s'. unmap_range r start end s = Some s' \<and> forest s' R (F \<union> mapped_pages s r start end) \<and>
    (\<forall>la. start \<le> la \<longrightarrow> la < end \<longrightarrow> \<not> valid (pte_of (frames s') r la)) \<and>
    (\<forall>r'\<in>R. \<forall>la<USERTOP. r' \<noteq> r \<or> la < start \<or> end \<le> la \<longrightarrow> pte_of (frames s') r' la = pte_of (frames s) r' la)"
proof -
  have al: "unat x mod 4096 = 0" if "x mod PGSIZE = 0" for x
    using arg_cong [OF that, of unat] by (simp add: unat_mod_distrib PGSIZE_def)
  have lt: "start < end" "end \<le> USERTOP" using assms(5) by (auto simp: USER_ACCESS_def)
  from unmap_loop_ok [OF assms(1,2) al [OF assms(3)] al [OF assms(4)] lt assms(6)] obtain s' where
    s': "unmap_loop r start end s = Some s'" "unmapped R F r start end s s'" by blast
  have pte: "pte_of (frames s') r' la =
      (if r' = r \<and> start \<le> la \<and> la < end \<and> valid (pte_of (frames s) r la) then 0 else pte_of (frames s) r' la)"
    if "r' \<in> R" "la < USERTOP" for r' la
    using s'(2) that unfolding unmapped_def by blast
  have z: "\<not> valid 0" by (simp add: valid_def)
  have "\<not> valid (pte_of (frames s') r la)" if "start \<le> la" "la < end" for la
    using pte [OF assms(2), of la] z that lt(2) by (auto split: if_split_asm)
  moreover have "pte_of (frames s') r' la = pte_of (frames s) r' la"
    if "r' \<in> R" "la < USERTOP" "r' \<noteq> r \<or> la < start \<or> end \<le> la" for r' la
    using pte [OF that(1,2)] that(3) by (auto simp: not_le [symmetric])
  moreover have "unmap_range r start end s = Some s'" using s'(1) assms(3-5) by (simp add: unmap_range_def)
  moreover have "forest s' R (F \<union> mapped_pages s r start end)" using s'(2) by (simp add: unmapped_def)
  ultimately show ?thesis by blast
qed

section \<open>Examples\<close>

text \<open>
  Frames 4 to 9 are free.  In \<open>example_vm\<close> frame 0 is a directory, frames 1 and 2 are the tables for
  the lowest user page, which is mapped to frame 3.
\<close>

definition example_frames :: "nat \<Rightarrow> nat \<Rightarrow> u64" where
  "example_frames t i = (if (t, i) = (0, 0) then pte_create (page2ppn 1) (PTE_U OR PTE_V)
     else if (t, i) = (1, 1) then pte_create (page2ppn 2) (PTE_U OR PTE_V)
     else if (t, i) = (2, 0) then pte_create (page2ppn 3) (PTE_V OR PTE_USER) else 0)"

definition example_vm :: "(nat \<Rightarrow> nat \<Rightarrow> u64) \<Rightarrow> vm_st" where
  "example_vm fr = \<lparr>pmm = \<lparr>pages = (\<lambda>p. if p = 4 then \<lparr>pg_ref = 0, pg_flags = 2, pg_property = 6\<rparr>
       else \<lparr>pg_ref = 1, pg_flags = 0, pg_property = 0\<rparr>),
     plinks = \<lparr>lprev = (\<lambda>_. 2000)(2000 := 4), lnext = (\<lambda>_. 2000)(2000 := 4)\<rparr>, free_list = 2000, nr_free = 6\<rparr>,
     frames = fr, swap_init_ok = True\<rparr>"

lemma example_frame_inv: "frame_inv (example_vm fr) {4..<10}"
proof -
  have "pmm_inv npages (pmm (example_vm fr)) [4]"
    by (auto simp: pmm_inv_def example_vm_def is_dlist_def blocks_ok_def psize_def PageProperty_def PG_property_def npages_def
        npage_def nbase_def bit_0_eq bit_1_iff bit_numeral_word_iff)
  moreover have "free_set (pages (pmm (example_vm fr))) [4] = {4..<10}"
    by (auto simp: example_vm_def block_def psize_def)
  ultimately show ?thesis unfolding frame_inv_def by blast
qed

lemma example_empty_forest: "forest (example_vm (\<lambda>_ _. 0)) {0} {4..<10}"
proof -
  have n: "nxt (\<lambda>_ _. 0) t i = None" for t i by (simp add: nxt_def valid_def)
  have p: "tbl (\<lambda>_ _. 0) 0 p = Some t \<Longrightarrow> p = [] \<and> t = 0" for p t by (cases p) (auto simp: n)
  show ?thesis
    by (rule forestI [OF example_frame_inv]) (auto simp: example_vm_def valid_def dest!: p)
qed

theorem page_insert_maps_one_page_witness:
  "\<exists>s' pp. page_insert 0 3 0x200000 PTE_U (example_vm (\<lambda>_ _. 0)) = Some (0, s') \<and>
    get_page 0 0x200000 s' = Some (Some 3, Some pp) \<and> pte_of (frames s') 0 0x201000 = 0"
proof -
  have v: "vpn 0x200000 = (0, 1, 0)" "vpn 0x201000 = (0, 1, 1)" by (simp_all add: vpn_def indices)
  have z: "pte_of (frames (example_vm (\<lambda>_ _. 0))) 0 la = 0" for la
    by (simp add: example_vm_def pte_of_def nxt_def valid_def)
  have "\<not> valid (pte_of (frames (example_vm (\<lambda>_ _. 0))) 0 0x200000)" by (simp add: z valid_def)
  moreover have "PDX1 0x200000 < 511" "PDX1 0x201000 < 511" "3 < npages" "PTE_U < 1024"
    by (simp_all add: indices npages_def npage_def nbase_def PTE_U_def)
  ultimately obtain s' pp where
    "page_insert 0 3 0x200000 PTE_U (example_vm (\<lambda>_ _. 0)) = Some (0, s')" "get_page 0 0x200000 s' = Some (Some 3, Some pp)"
    "\<forall>r'\<in>{0}. \<forall>la'. PDX1 la' < 511 \<longrightarrow> (r', vpn la') \<noteq> (0, vpn 0x200000) \<longrightarrow>
      pte_of (frames s') r' la' = pte_of (frames (example_vm (\<lambda>_ _. 0))) r' la'"
    using page_insert_maps_one_page [OF example_empty_forest, of 0 "0x200000" 3 PTE_U] by auto
  then show ?thesis using v z \<open>PDX1 0x201000 < 511\<close> by (intro exI [of _ s'] exI [of _ pp]) auto
qed

lemma example_nxt:
  "nxt example_frames t i = (if (t, i) = (0, 0) then Some 1 else if (t, i) = (1, 1) then Some 2
     else if (t, i) = (2, 0) then Some 3 else None)"
proof -
  have "PTE_U OR PTE_V < 1024" "PTE_V OR PTE_USER < 1024"
    by (simp_all add: PTE_U_def PTE_V_def PTE_USER_def PTE_R_def PTE_W_def PTE_X_def)
  then show ?thesis
    by (auto simp: nxt_def example_frames_def pa2page_pte_create npages_def npage_def nbase_def valid_def [of 0])
qed

lemma example_tbl:
  assumes "pt_path p"
  shows "tbl example_frames 0 p = (if p = [] then Some 0 else if p = [0] then Some 1 else if p = [0, 1] then Some 2 else None)"
proof -
  from assms consider "p = []" | i where "p = [i]" | i j where "p = [i, j]" by (auto simp: pt_path_def)
  then show ?thesis by cases (auto simp: example_nxt)
qed

lemma example_forest: "forest (example_vm example_frames) {0} {4..<10}"
proof (rule forestI [OF example_frame_inv])
  fix r p t i assume a: "r \<in> {0}" "pt_path (p @ [i])" "tbl (frames (example_vm example_frames)) r p = Some t"
    "valid (frames (example_vm example_frames) t i)"
  then show "nxt (frames (example_vm example_frames)) t i \<noteq> None"
    by (auto simp: example_vm_def example_nxt example_frames_def valid_def [of 0] split: if_split_asm)
qed (auto simp: example_vm_def example_tbl split: if_split_asm)

lemma example_pte:
  "pte_of example_frames 0 la = (if vpn la = (0, 1, 0) then pte_create (page2ppn 3) (PTE_V OR PTE_USER) else 0)"
  by (auto simp: pte_of_def example_nxt vpn_def example_frames_def)

lemma example_user_page: "pte2page (pte_of example_frames 0 la) = (if vpn la = (0, 1, 0) then Some 3 else None)"
proof -
  have "pte2page (pte_create (page2ppn 3) (PTE_V OR PTE_USER)) = Some 3"
    using pa2page_pte_create [of 3 "PTE_V OR PTE_USER"]
    by (simp add: pte2page_def npages_def npage_def nbase_def PTE_U_def PTE_V_def PTE_USER_def PTE_R_def PTE_W_def PTE_X_def)
  then show ?thesis unfolding example_pte by (simp add: pte2page_def [of 0] valid_def [of 0])
qed

lemma example_tables: "tables (example_vm example_frames) {0} = {0, 1, 2}"
proof -
  have "t \<in> tables (example_vm example_frames) {0} \<longleftrightarrow> (\<exists>p. pt_path p \<and> tbl example_frames 0 p = Some t)" for t
    by (auto simp: tables_def example_vm_def)
  moreover have "(\<exists>p. pt_path p \<and> tbl example_frames 0 p = Some t) \<longleftrightarrow> t \<in> {0, 1, 2}" for t
  proof
    assume "t \<in> {0, 1, 2}"
    moreover have "pt_path []" "pt_path [0]" "pt_path [0, 1]" by (auto simp: pt_path_def)
    ultimately show "\<exists>p. pt_path p \<and> tbl example_frames 0 p = Some t"
      using example_tbl by (metis (no_types, lifting) insert_iff list.distinct(1) list.inject singletonD)
  qed (auto simp: example_tbl split: if_split_asm)
  ultimately show ?thesis by blast
qed

theorem unmap_range_releases_range_witness:
  "\<exists>s'. unmap_range 0 0x200000 0x202000 (example_vm example_frames) = Some s' \<and> forest s' {0} ({4..<10} \<union> {3}) \<and>
    \<not> valid (pte_of (frames s') 0 0x200000)"
proof -
  let ?s = "example_vm example_frames"
  have fr: "frames ?s = example_frames" by (simp add: example_vm_def)
  have me: "page_meta ?s 3 = (1, False)" by (simp add: page_meta_def meta_def example_vm_def PageReserved_def)
  have v: "vpn 0x200000 = (0, 1, 0)" by (simp add: vpn_def indices)
  have "owned ?s {0} {4..<10} 9 0 0x200000 0x202000"
    unfolding owned_def fr example_user_page example_tables
    using me by (auto simp: npages_def npage_def nbase_def example_pte valid_def [of 0] split: if_split_asm)
  moreover have "mapped_pages ?s 0 0x200000 0x202000 = {3}"
    unfolding mapped_pages_def fr example_user_page using v by (auto split: if_split_asm intro!: exI [of _ "0x200000"])
  moreover have "USER_ACCESS 0x200000 0x202000" by (simp add: USER_ACCESS_def USERBASE_def USERTOP_def)
  moreover have "0x200000 mod PGSIZE = 0" "0x202000 mod PGSIZE = 0" by (simp_all add: PGSIZE_def)
  ultimately show ?thesis
    using unmap_range_releases_range [OF example_forest, of 0 "0x200000" "0x202000" 9] by auto
qed

end
