(* ===== verification/Swap.thy ===== *)
theory Swap
  imports PageTable
begin

text \<open>
  \<^verbatim>\<open>kern/mm/swap.c\<close>, \<^verbatim>\<open>swap_fifo.c\<close> and \<^verbatim>\<open>kern/fs/swap/swapfs.c\<close>: swapping pages out and in, with the first-in
  first-out manager, which is the only one the kernel installs.  The list \<^verbatim>\<open>pra_list_head\<close> is a list of
  pages, oldest first; the swap device is an array of page-sized slots.  The device is a RAM disk whose
  transfers return 0.
\<close>

record swap_st =
  vm :: vm_st
  pra_list :: "nat list"
  pra_vaddr :: "nat \<Rightarrow> u64"
  slots :: "nat \<Rightarrow> nat \<Rightarrow> u64"
  max_swap_offset :: nat

section \<open>The FIFO manager\<close>

text \<open>The list head is one global variable: setting up an address space empties it for all.\<close>

definition fifo_init_mm :: "swap_st \<Rightarrow> swap_st" where
  "fifo_init_mm s = s\<lparr>pra_list := []\<rparr>"

text \<open>Linking an entry that is already linked would destroy the list: no value.\<close>

definition fifo_map_swappable :: "nat \<Rightarrow> swap_st \<Rightarrow> swap_st option" where
  "fifo_map_swappable page s =
     (if page \<in> set (pra_list s) then None else Some (s\<lparr>pra_list := pra_list s @ [page]\<rparr>))"

text \<open>With an empty list the list head itself would be taken for the link of a page: no value.\<close>

definition fifo_swap_out_victim :: "int \<Rightarrow> swap_st \<Rightarrow> (nat \<times> swap_st) option" where
  "fifo_swap_out_victim in_tick s = do {
     kassert (in_tick = 0);
     (case pra_list s of [] \<Rightarrow> None | page # ps \<Rightarrow> Some (page, s\<lparr>pra_list := ps\<rparr>))
   }"

section \<open>The swap device\<close>

definition swap_entry :: "u64 \<Rightarrow> u64" where
  "swap_entry va = push_bit 8 (va div PGSIZE + 1)"

definition swap_offset :: "u64 \<Rightarrow> swap_st \<Rightarrow> nat" where
  "swap_offset entry s = unat (drop_bit 8 entry) mod max_swap_offset s"

definition swapfs_read :: "u64 \<Rightarrow> nat \<Rightarrow> swap_st \<Rightarrow> (int \<times> swap_st) option" where
  "swapfs_read entry page s = do {
     f \<leftarrow> KADDR (page2pa page);
     Some (0, s\<lparr>vm := (vm s)\<lparr>frames := (frames (vm s))(f := slots s (swap_offset entry s))\<rparr>\<rparr>)
   }"

definition swapfs_write :: "u64 \<Rightarrow> nat \<Rightarrow> swap_st \<Rightarrow> (int \<times> swap_st) option" where
  "swapfs_write entry page s = do {
     f \<leftarrow> KADDR (page2pa page);
     Some (0, s\<lparr>slots := (slots s)(swap_offset entry s := frames (vm s) f)\<rparr>)
   }"

section \<open>Swapping\<close>

text \<open>One round of the loop of \<open>swap_out\<close> for the address space with directory \<open>pgdir\<close>.\<close>

definition swap_out_one :: "nat \<Rightarrow> int \<Rightarrow> swap_st \<Rightarrow> swap_st option" where
  "swap_out_one pgdir in_tick s = do {
     (page, s1) \<leftarrow> fifo_swap_out_victim in_tick s;
     let v = pra_vaddr s1 page;
     (pp, vm1) \<leftarrow> get_pte pgdir v False (vm s1);
     ptep \<leftarrow> pp;
     kassert (valid (read_pte ptep vm1));
     (r, s2) \<leftarrow> swapfs_write (swap_entry v) page (s1\<lparr>vm := vm1\<rparr>);
     if r \<noteq> 0 then fifo_map_swappable page s2
     else do {
       vm3 \<leftarrow> free_pages page 1 (write_pte ptep (swap_entry v) (vm s2));
       Some (s2\<lparr>vm := vm3\<rparr>)
     }
   }"

fun swap_out :: "nat \<Rightarrow> nat \<Rightarrow> int \<Rightarrow> swap_st \<Rightarrow> swap_st option" where
  "swap_out pgdir 0 in_tick s = Some s"
| "swap_out pgdir (Suc n) in_tick s = swap_out_one pgdir in_tick s \<bind> swap_out pgdir n in_tick"

definition swap_in :: "nat \<Rightarrow> u64 \<Rightarrow> swap_st \<Rightarrow> (int \<times> nat \<times> swap_st) option" where
  "swap_in pgdir addr s = do {
     (p, vm1) \<leftarrow> alloc_pages 1 (vm s);
     result \<leftarrow> p;
     (pp, vm2) \<leftarrow> get_pte pgdir addr False vm1;
     ptep \<leftarrow> pp;
     (r, s3) \<leftarrow> swapfs_read (read_pte ptep vm2) result (s\<lparr>vm := vm2\<rparr>);
     Some (0, result, s3)
   }"

section \<open>A page survives being swapped out and in\<close>

lemma swap_offset_entry:
  assumes "va < USERTOP"
  shows "swap_offset (swap_entry va) s = (unat va div 4096 + 1) mod max_swap_offset s"
proof -
  have "unat va < 2 ^ 31" using assms by (simp add: USERTOP_def word_less_nat_alt)
  then have d: "unat va div 4096 < 2 ^ 19" by (simp add: less_mult_imp_div_less)
  have u: "unat (va div PGSIZE + 1) = unat va div 4096 + 1"
    using d by (simp add: unat_word_ariths unat_div_distrib PGSIZE_def)
  have hi: "\<not> bit (va div PGSIZE + 1) n" if "n \<ge> 56" for n
    by (rule small_word_bits [of _ 56]) (use that d u in auto)
  have "drop_bit 8 (swap_entry va) = va div PGSIZE + 1"
  proof (rule bit_word_eqI)
    fix n assume "n < LENGTH(64)"
    then show "bit (drop_bit 8 (swap_entry va)) n = bit (va div PGSIZE + 1) n"
      using hi [of n] by (cases "n < 56") (auto simp: swap_entry_def bit_simps)
  qed
  then show ?thesis by (simp only: swap_offset_def u)
qed

lemma forest_frames_cong:
  assumes "forest s R F" "frames s' = frames s" "frame_inv s' F'" "F' \<subseteq> F"
  shows "forest s' R F'"
  by (rule forestI [OF assms(3)]) (use assms forestD [OF assms(1)] in auto)

lemma valid_swap_entry: "\<not> valid (swap_entry v)"
  by (simp add: valid_def swap_entry_def bit_push_bit_iff)

text \<open>Swapping out the oldest page \<open>p\<close>, mapped at \<open>v\<close>.\<close>

lemma swap_out_one_ok:
  assumes fo: "forest (vm s) R F" and r: "r \<in> R" and q: "pra_list s = p # ps" "pra_vaddr s p = v" "v < USERTOP"
    and p: "pte2page (pte_of (frames (vm s)) r v) = Some p" "p < npages" "p \<notin> F" "p \<notin> tables (vm s) R"
      "\<not> snd (page_meta (vm s) p)" "\<exists>h\<in>F. p < h"
  obtains s1 where "swap_out r 1 0 s = Some s1" "forest (vm s1) R (insert p F)" "pra_list s1 = ps"
    "slots s1 = (slots s)(swap_offset (swap_entry v) s := frames (vm s) p)" "max_swap_offset s1 = max_swap_offset s"
    "\<And>r' la. r' \<in> R \<Longrightarrow> PDX1 la < 511 \<Longrightarrow> pte_of (frames (vm s1)) r' la =
       (if r' = r \<and> vpn la = vpn v then swap_entry v else pte_of (frames (vm s)) r' la)"
proof -
  have la: "PDX1 v < 511" by (rule user_PDX1 [OF q(3)])
  have va: "valid (pte_of (frames (vm s)) r v)" using p(1) by (simp add: pte2page_def split: if_split_asm)
  then obtain t where t: "tbl (frames (vm s)) r [PDX1 v, PDX0 v] = Some t"
    by (cases "tbl (frames (vm s)) r [PDX1 v, PDX0 v]") (auto simp: pte_of_def valid_def)
  have rd: "read_pte (t, PTX v) (vm s) = pte_of (frames (vm s)) r v" by (rule read_pte_of [OF t])
  let ?w = "write_pte (t, PTX v) (swap_entry v) (vm s)"
  have fi: "frame_inv ?w F" using forestD(1) [OF fo] by simp
  obtain m where m: "free_pages p 1 ?w = Some (?w\<lparr>pmm := m\<rparr>)" "frame_inv (?w\<lparr>pmm := m\<rparr>) (insert p F)"
    by (rule free_page_spec [OF fi p(2,3) _ p(6)]) (use p(5) in simp)
  let ?s1 = "s\<lparr>pra_list := ps, slots := (slots s)(swap_offset (swap_entry v) s := frames (vm s) p), vm := ?w\<lparr>pmm := m\<rparr>\<rparr>"
  have ev: "swap_out r 1 0 s = Some ?s1"
    using q(1,2) get_pte_lookup [OF fo r la] t rd va p(2) m(1)
    by (simp add: swap_out_one_def fifo_swap_out_victim_def swapfs_write_def swap_offset_def del: tbl.simps)
  have fr: "frames (?w\<lparr>pmm := m\<rparr>) = (frames (vm s))(t := (frames (vm s) t)(PTX v := swap_entry v))" by simp
  have dj: "insert p F \<inter> tables (vm s) R = {}" using p(4) forest_tables [OF fo] by blast
  show thesis
    by (rule that [OF ev]) (use set_leaf_forest [OF fo r la t fr m(2) dj] set_leaf(2) [OF fo r la t fr] in simp_all)
qed

text \<open>
  C18. Swapping a page out and in again restores it.  When \<open>swap_out\<close> takes the oldest page, mapped
  at the user address \<open>v\<close>, the entry becomes an invalid swap entry, every other mapping stays, and the
  page's frame is free; \<open>swap_in\<close> at \<open>v\<close> then finds memory and the entry, and the
  frame it returns holds exactly the contents the page had.
\<close>

theorem swap_out_in_round_trip:
  assumes fo: "forest (vm s) R F" and r: "r \<in> R" and q: "pra_list s = p # ps" "pra_vaddr s p = v" "v < USERTOP"
    and p: "pte2page (pte_of (frames (vm s)) r v) = Some p" "p < npages" "p \<notin> F" "p \<notin> tables (vm s) R"
      "\<not> snd (page_meta (vm s) p)" "\<exists>h\<in>F. p < h"
  shows "\<exists>s1 f s2. swap_out r 1 0 s = Some s1 \<and> forest (vm s1) R (insert p F) \<and>
    \<not> valid (pte_of (frames (vm s1)) r v) \<and>
    (\<forall>r'\<in>R. \<forall>la. PDX1 la < 511 \<longrightarrow> (r', vpn la) \<noteq> (r, vpn v) \<longrightarrow>
       pte_of (frames (vm s1)) r' la = pte_of (frames (vm s)) r' la) \<and>
    swap_in r v s1 = Some (0, f, s2) \<and> f \<in> insert p F \<and> frames (vm s2) f = frames (vm s) p"
proof -
  have la: "PDX1 v < 511" by (rule user_PDX1 [OF q(3)])
  obtain s1 where s1: "swap_out r 1 0 s = Some s1" "forest (vm s1) R (insert p F)"
    "slots s1 = (slots s)(swap_offset (swap_entry v) s := frames (vm s) p)" "max_swap_offset s1 = max_swap_offset s"
    "\<And>r' la. r' \<in> R \<Longrightarrow> PDX1 la < 511 \<Longrightarrow> pte_of (frames (vm s1)) r' la =
       (if r' = r \<and> vpn la = vpn v then swap_entry v else pte_of (frames (vm s)) r' la)"
    by (rule swap_out_one_ok [OF fo r q p]) blast
  have pv: "pte_of (frames (vm s1)) r v = swap_entry v" using s1(5) [OF r la] by simp
  obtain f m where a: "alloc_pages 1 (vm s1) = Some (Some f, (vm s1)\<lparr>pmm := m\<rparr>)" "f \<in> insert p F"
      "frame_inv ((vm s1)\<lparr>pmm := m\<rparr>) (insert p F - {f})"
    using alloc_page_spec [OF forestD(1) [OF s1(2)]] by blast
  have fo1: "forest ((vm s1)\<lparr>pmm := m\<rparr>) R (insert p F - {f})"
    by (rule forest_frames_cong [OF s1(2) _ a(3)]) auto
  have "swap_entry v \<noteq> 0"
  proof
    assume "swap_entry v = 0"
    moreover have "unat v < 2 ^ 31" using q(3) by (simp add: USERTOP_def word_less_nat_alt)
    then have "unat v div 4096 + 1 \<noteq> 0" by simp
    ultimately show False
      using swap_offset_entry [OF q(3), of "s\<lparr>max_swap_offset := 2 ^ 32\<rparr>"] \<open>unat v < 2 ^ 31\<close>
      by (simp add: swap_offset_def less_mult_imp_div_less)
  qed
  then obtain t where t: "tbl (frames (vm s1)) r [PDX1 v, PDX0 v] = Some t"
    using pv by (cases "tbl (frames (vm s1)) r [PDX1 v, PDX0 v]") (auto simp: pte_of_def)
  have rd: "read_pte (t, PTX v) ((vm s1)\<lparr>pmm := m\<rparr>) = swap_entry v"
    using read_pte_of [of "(vm s1)\<lparr>pmm := m\<rparr>" r v t] t pv by simp
  have fb: "f < npages" by (rule frame_inv_bound [OF forestD(1) [OF s1(2)] a(2)])
  let ?s2 = "s1\<lparr>vm := (vm s1)\<lparr>pmm := m, frames := (frames (vm s1))(f := frames (vm s) p)\<rparr>\<rparr>"
  have "swap_in r v s1 = Some (0, f, ?s2)"
    using a(1) get_pte_lookup [OF fo1 r la] t rd fb s1(3,4)
    by (simp add: swap_in_def swapfs_read_def swap_offset_def del: tbl.simps)
  then show ?thesis
    using s1 a(2) pv valid_swap_entry [of v] by (intro exI [of _ s1] exI [of _ f] exI [of _ ?s2]) auto
qed

theorem swap_out_in_round_trip_witness:
  "\<exists>s1 f s2. swap_out 0 1 0 \<lparr>vm = example_vm example_frames, pra_list = [3], pra_vaddr = (\<lambda>_. 0x200000),
       slots = (\<lambda>_ _. 0), max_swap_offset = 7\<rparr> = Some s1 \<and>
    swap_in 0 0x200000 s1 = Some (0, f, s2) \<and> frames (vm s2) f = example_frames 3"
proof -
  let ?s = "\<lparr>vm = example_vm example_frames, pra_list = [3], pra_vaddr = (\<lambda>_. 0x200000), slots = (\<lambda>_ _. 0), max_swap_offset = 7\<rparr>"
  have fr: "frames (example_vm example_frames) = example_frames" by (simp add: example_vm_def)
  have "pte2page (pte_of (frames (vm ?s)) 0 0x200000) = Some 3"
    using example_user_page by (simp add: fr vpn_def indices)
  moreover have "\<not> snd (page_meta (vm ?s) 3)" by (simp add: page_meta_def meta_def example_vm_def PageReserved_def)
  moreover have "3 \<notin> tables (vm ?s) {0}" by (simp add: example_tables)
  moreover have "3 < npages" by (simp add: npages_def npage_def nbase_def)
  moreover have "(0x200000 :: u64) < USERTOP" by (simp add: USERTOP_def)
  moreover have "\<exists>h\<in>{4..<10}. (3::nat) < h" by (rule bexI [of _ 4]) auto
  ultimately show ?thesis
    using swap_out_in_round_trip [of ?s "{0}" "{4..<10}" 0 3 "[]" "0x200000"] example_forest by (simp add: fr) blast
qed

end
