(* ===== verification/CString.thy ===== *)
theory CString
  imports Prelude
begin

text \<open>
  \<^verbatim>\<open>libs/string.c\<close> on a byte-addressed memory.  The loops that run to a terminator are functions
  into \<open>option\<close>: \<open>None\<close> means that they never stop.  \<open>cstr m p bs\<close> says that the string \<open>bs\<close> is stored at \<open>p\<close>;
  the lemmas show termination and the result of every routine on such strings, and of the memory
  routines for every layout, overlapping ones included.
\<close>

type_synonym mem = "nat \<Rightarrow> u8"

partial_function (option) strlen_loop :: "mem \<Rightarrow> nat \<Rightarrow> nat \<Rightarrow> nat option" where
  "strlen_loop m s cnt = (if m s \<noteq> 0 then strlen_loop m (s + 1) (cnt + 1) else Some cnt)"

definition strlen :: "mem \<Rightarrow> nat \<Rightarrow> nat option" where
  "strlen m s = strlen_loop m s 0"

function strnlen_loop :: "mem \<Rightarrow> nat \<Rightarrow> nat \<Rightarrow> nat \<Rightarrow> nat" where
  "strnlen_loop m s len cnt = (if cnt < len \<and> m s \<noteq> 0 then strnlen_loop m (s + 1) len (cnt + 1) else cnt)"
  by pat_completeness auto
termination by (relation "measure (\<lambda>(_, _, len, cnt). len - cnt)") auto

definition strnlen :: "mem \<Rightarrow> nat \<Rightarrow> nat \<Rightarrow> nat" where
  "strnlen m s len = strnlen_loop m s len 0"

partial_function (option) strcpy :: "nat \<Rightarrow> nat \<Rightarrow> mem \<Rightarrow> mem option" where
  "strcpy p src m = (let m' = m(p := m src) in if m src \<noteq> 0 then strcpy (p + 1) (src + 1) m' else Some m')"

fun strncpy :: "nat \<Rightarrow> nat \<Rightarrow> nat \<Rightarrow> mem \<Rightarrow> mem" where
  "strncpy p src 0 m = m"
| "strncpy p src (Suc len) m =
     (let m' = m(p := m src) in strncpy (p + 1) (if m src \<noteq> 0 then src + 1 else src) len m')"

definition strcat :: "nat \<Rightarrow> nat \<Rightarrow> mem \<Rightarrow> mem option" where
  "strcat dst src m = strlen m dst \<bind> (\<lambda>n. strcpy (dst + n) src m)"

definition byte_diff :: "u8 \<Rightarrow> u8 \<Rightarrow> int" where
  "byte_diff a b = uint a - uint b"

lemma byte_diff_eq_0 [simp]: "byte_diff a b = 0 \<longleftrightarrow> a = b"
  by (simp add: byte_diff_def word_uint_eq_iff)

partial_function (option) strcmp :: "mem \<Rightarrow> nat \<Rightarrow> nat \<Rightarrow> int option" where
  "strcmp m s1 s2 = (if m s1 \<noteq> 0 \<and> m s1 = m s2 then strcmp m (s1 + 1) (s2 + 1) else Some (byte_diff (m s1) (m s2)))"

fun strncmp :: "mem \<Rightarrow> nat \<Rightarrow> nat \<Rightarrow> nat \<Rightarrow> int" where
  "strncmp m s1 s2 0 = 0"
| "strncmp m s1 s2 (Suc n) =
     (if m s1 \<noteq> 0 \<and> m s1 = m s2 then strncmp m (s1 + 1) (s2 + 1) n else byte_diff (m s1) (m s2))"

partial_function (option) strchr :: "mem \<Rightarrow> nat \<Rightarrow> u8 \<Rightarrow> nat option option" where
  "strchr m s c = (if m s \<noteq> 0 then (if m s = c then Some (Some s) else strchr m (s + 1) c) else Some None)"

partial_function (option) strfind :: "mem \<Rightarrow> nat \<Rightarrow> u8 \<Rightarrow> nat option" where
  "strfind m s c = (if m s \<noteq> 0 then (if m s = c then Some s else strfind m (s + 1) c) else Some s)"

fun memset :: "nat \<Rightarrow> u8 \<Rightarrow> nat \<Rightarrow> mem \<Rightarrow> mem" where
  "memset p c 0 m = m"
| "memset p c (Suc n) m = memset (p + 1) c n (m(p := c))"

fun copy_up :: "nat \<Rightarrow> nat \<Rightarrow> nat \<Rightarrow> mem \<Rightarrow> mem" where
  "copy_up d s 0 m = m"
| "copy_up d s (Suc n) m = copy_up (d + 1) (s + 1) n (m(d := m s))"

fun copy_down :: "nat \<Rightarrow> nat \<Rightarrow> nat \<Rightarrow> mem \<Rightarrow> mem" where
  "copy_down d s 0 m = m"
| "copy_down d s (Suc n) m = copy_down (d - 1) (s - 1) n (m(d - 1 := m (s - 1)))"

definition memmove :: "nat \<Rightarrow> nat \<Rightarrow> nat \<Rightarrow> mem \<Rightarrow> mem" where
  "memmove dst src n m =
     (if src < dst \<and> src + n > dst then copy_down (dst + n) (src + n) n m else copy_up dst src n m)"

definition memcpy :: "nat \<Rightarrow> nat \<Rightarrow> nat \<Rightarrow> mem \<Rightarrow> mem" where
  "memcpy dst src n m = copy_up dst src n m"

fun memcmp :: "mem \<Rightarrow> nat \<Rightarrow> nat \<Rightarrow> nat \<Rightarrow> int" where
  "memcmp m s1 s2 0 = 0"
| "memcmp m s1 s2 (Suc n) = (if m s1 \<noteq> m s2 then byte_diff (m s1) (m s2) else memcmp m (s1 + 1) (s2 + 1) n)"

text \<open>
  \<^verbatim>\<open>strtol\<close>: \<open>digit_val\<close> is the classification of one character; the value is a 64-bit word
  (\<^verbatim>\<open>long\<close>, which wraps).  The result is the value and the end pointer.
\<close>

definition digit_val :: "u8 \<Rightarrow> nat option" where
  "digit_val c = (let b = unat c in
     if 48 \<le> b \<and> b \<le> 57 then Some (b - 48)
     else if 97 \<le> b \<and> b \<le> 122 then Some (b - 97 + 10)
     else if 65 \<le> b \<and> b \<le> 90 then Some (b - 65 + 10)
     else None)"

partial_function (option) strtol_digits :: "mem \<Rightarrow> nat \<Rightarrow> nat \<Rightarrow> u64 \<Rightarrow> (u64 \<times> nat) option" where
  "strtol_digits m s base val =
     (case digit_val (m s) of None \<Rightarrow> Some (val, s)
      | Some dig \<Rightarrow> if dig \<ge> base then Some (val, s)
                    else strtol_digits m (s + 1) base (val * of_nat base + of_nat dig))"

partial_function (option) skip_blanks :: "mem \<Rightarrow> nat \<Rightarrow> nat option" where
  "skip_blanks m s = (if m s = 32 \<or> m s = 9 then skip_blanks m (s + 1) else Some s)"

definition strtol :: "mem \<Rightarrow> nat \<Rightarrow> nat \<Rightarrow> (u64 \<times> nat) option" where
  "strtol m s base = do {
     s1 \<leftarrow> skip_blanks m s;
     let neg = (m s1 = 45);
     let s2 = (if m s1 = 43 \<or> m s1 = 45 then s1 + 1 else s1);
     let (s3, base3) =
       (if (base = 0 \<or> base = 16) \<and> m s2 = 48 \<and> m (s2 + 1) = 120 then (s2 + 2, 16)
        else if base = 0 \<and> m s2 = 48 then (s2 + 1, 8)
        else if base = 0 then (s2, 10)
        else (s2, base));
     (val, e) \<leftarrow> strtol_digits m s3 base3 0;
     Some (if neg then - val else val, e)
   }"

section \<open>Strings in memory\<close>

fun cstr :: "mem \<Rightarrow> nat \<Rightarrow> u8 list \<Rightarrow> bool" where
  "cstr m p [] \<longleftrightarrow> m p = 0"
| "cstr m p (b # bs) \<longleftrightarrow> m p = b \<and> b \<noteq> 0 \<and> cstr m (p + 1) bs"

lemma cstr_nth: "cstr m p bs \<Longrightarrow> i < length bs \<Longrightarrow> m (p + i) = bs ! i"
proof (induction bs arbitrary: p i)
  case (Cons b bs)
  then show ?case using Cons.IH [of "p + 1" "i - 1"] by (cases i) auto
qed simp

lemma cstr_congI:
  "cstr m p bs \<Longrightarrow> (\<And>i. i \<le> length bs \<Longrightarrow> m' (q + i) = m (p + i)) \<Longrightarrow> cstr m' q bs"
proof (induction bs arbitrary: p q)
  case Nil
  from Nil.prems(2) [of 0] Nil.prems(1) show ?case by simp
next
  case (Cons b bs)
  have "cstr m' (q + 1) bs"
    by (rule Cons.IH [of "p + 1"]) (use Cons.prems(1) Cons.prems(2) [of "Suc _"] in auto)
  then show ?case using Cons.prems(1) Cons.prems(2) [of 0] by simp
qed

lemma strlen_loop_cstr: "cstr m s bs \<Longrightarrow> strlen_loop m s cnt = Some (cnt + length bs)"
  by (induction bs arbitrary: s cnt) (auto simp: strlen_loop.simps)

lemma strlen_cstr: "cstr m s bs \<Longrightarrow> strlen m s = Some (length bs)"
  by (simp add: strlen_def strlen_loop_cstr)

lemma strnlen_loop_cstr: "cstr m s bs \<Longrightarrow> cnt \<le> len \<Longrightarrow> strnlen_loop m s len cnt = min len (cnt + length bs)"
  by (induction bs arbitrary: s cnt) (auto simp: strnlen_loop.simps)

lemma strcmp_cstr:
  "cstr m s xs \<Longrightarrow> cstr m t ys \<Longrightarrow> \<exists>r. strcmp m s t = Some r \<and> (r = 0 \<longleftrightarrow> xs = ys)"
proof (induction xs arbitrary: s t ys)
  case Nil
  then show ?case by (cases ys) (auto simp: strcmp.simps [of m s t])
next
  case (Cons x xs)
  show ?case
  proof (cases ys)
    case Nil
    then show ?thesis using Cons.prems by (auto simp: strcmp.simps [of m s t])
  next
    case (Cons y ys')
    then show ?thesis
      using Cons.prems Cons.IH [of "s + 1" "t + 1" ys'] by (auto simp: strcmp.simps [of m s t])
  qed
qed

section \<open>Memory routines\<close>

lemma memset_spec: "memset p c n m = (\<lambda>a. if a \<in> {p..<p + n} then c else m a)"
  by (induction n arbitrary: p m) (auto simp: fun_eq_iff)

lemma copy_up_spec:
  "\<not> (s < d \<and> d < s + n) \<Longrightarrow> copy_up d s n m = (\<lambda>a. if a \<in> {d..<d + n} then m (s + (a - d)) else m a)"
proof (induction n arbitrary: d s m)
  case (Suc n)
  have "copy_up (d + 1) (s + 1) n (m(d := m s)) =
      (\<lambda>a. if a \<in> {d + 1..<d + 1 + n} then (m(d := m s)) (s + 1 + (a - (d + 1))) else (m(d := m s)) a)"
    using Suc.prems by (intro Suc.IH) auto
  moreover have "s + 1 + (a - (d + 1)) = s + (a - d)" if "d + 1 \<le> a" for a using that by simp
  ultimately show ?case using Suc.prems by (auto simp: fun_eq_iff)
qed auto

lemma copy_down_spec:
  "s < d \<Longrightarrow> copy_down (d + n) (s + n) n m = (\<lambda>a. if a \<in> {d..<d + n} then m (s + (a - d)) else m a)"
proof (induction n arbitrary: m)
  case (Suc n)
  have "copy_down (d + n) (s + n) n (m(d + n := m (s + n))) =
      (\<lambda>a. if a \<in> {d..<d + n} then (m(d + n := m (s + n))) (s + (a - d)) else (m(d + n := m (s + n))) a)"
    using Suc by blast
  then show ?case using Suc.prems by (auto simp: fun_eq_iff)
qed auto

text \<open>
  C13. \<open>memmove\<close> copies \<open>n\<close> bytes correctly for every position of source and destination,
  overlapping ones included, and changes nothing else; \<open>memcpy\<close> does so whenever the destination does not start
  inside the source.
\<close>

theorem memmove_correct:
  "memmove dst src n m = (\<lambda>a. if a \<in> {dst..<dst + n} then m (src + (a - dst)) else m a) \<and>
   (\<not> (src < dst \<and> dst < src + n) \<longrightarrow> memcpy dst src n m = memmove dst src n m)"
  by (simp add: memmove_def memcpy_def copy_up_spec copy_down_spec)

theorem memmove_correct_witness:
  "memmove 1 0 3 (\<lambda>a. of_nat a) 3 = 2 \<and> memcpy 0 1 3 (\<lambda>a. of_nat a) = memmove 0 1 3 (\<lambda>a. of_nat a)"
  using memmove_correct [of 1 0 3 "\<lambda>a. of_nat a"] memmove_correct [of 0 1 3 "\<lambda>a. of_nat a"] by simp

lemma strcpy_cstr:
  "cstr m src bs \<Longrightarrow> {dst..dst + length bs} \<inter> {src..src + length bs} = {} \<Longrightarrow>
   strcpy dst src m = Some (copy_up dst src (length bs + 1) m)"
proof (induction bs arbitrary: dst src m)
  case Nil
  then show ?case by (auto simp: strcpy.simps [of dst src m] fun_eq_iff)
next
  case (Cons b bs)
  have dj: "\<And>i. i \<le> length bs \<Longrightarrow> src + 1 + i \<noteq> dst"
  proof
    fix i assume "i \<le> length bs" "src + 1 + i = dst"
    then have "dst \<in> {dst..dst + length (b # bs)} \<inter> {src..src + length (b # bs)}" by auto
    with Cons.prems(2) show False by simp
  qed
  have "cstr (m(dst := m src)) (src + 1) bs"
    by (rule cstr_congI [of m "src + 1"]) (use Cons.prems(1) dj in auto)
  moreover have "{dst + 1..dst + 1 + length bs} \<inter> {src + 1..src + 1 + length bs} = {}"
  proof -
    have "{dst + 1..dst + 1 + length bs} \<subseteq> {dst..dst + length (b # bs)}"
      "{src + 1..src + 1 + length bs} \<subseteq> {src..src + length (b # bs)}" by auto
    with Cons.prems(2) show ?thesis by blast
  qed
  ultimately have "strcpy (dst + 1) (src + 1) (m(dst := m src)) = Some (copy_up (dst + 1) (src + 1) (length bs + 1) (m(dst := m src)))"
    by (rule Cons.IH)
  moreover have "strcpy dst src m = strcpy (dst + 1) (src + 1) (m(dst := m src))"
    using Cons.prems(1) by (subst strcpy.simps) (simp add: Let_def)
  moreover have "copy_up dst src (length (b # bs) + 1) m = copy_up (dst + 1) (src + 1) (length bs + 1) (m(dst := m src))"
    by simp
  ultimately show ?case by (simp only:)
qed

text \<open>
  String routines terminate on every stored string and mean what they say: \<open>strlen\<close> is the length,
  \<open>strcmp\<close> is 0 exactly for equal strings, and \<open>strcpy\<close> into a disjoint buffer leaves a copy
  there, keeps the source and touches nothing else.
\<close>

lemma string_routines_correct:
  assumes "cstr m s xs" "cstr m t ys" "{d..d + length xs} \<inter> {s..s + length xs} = {}"
  shows "strlen m s = Some (length xs) \<and> (\<exists>r. strcmp m s t = Some r \<and> (r = 0 \<longleftrightarrow> xs = ys)) \<and>
    (\<exists>m'. strcpy d s m = Some m' \<and> cstr m' d xs \<and> cstr m' s xs \<and> (\<forall>a. a \<notin> {d..d + length xs} \<longrightarrow> m' a = m a))"
proof -
  define m' where "m' = copy_up d s (length xs + 1) m"
  have "\<not> (s < d \<and> d < s + (length xs + 1))"
  proof
    assume "s < d \<and> d < s + (length xs + 1)"
    then have "d \<in> {d..d + length xs} \<inter> {s..s + length xs}" by auto
    with assms(3) show False by simp
  qed
  note sp = copy_up_spec [OF this, of m, folded m'_def]
  have "cstr m' d xs" by (rule cstr_congI [OF assms(1)]) (simp add: sp)
  moreover have "cstr m' s xs"
  proof (rule cstr_congI [OF assms(1)])
    fix i assume "i \<le> length xs"
    then have "s + i \<notin> {d..d + length xs}" using assms(3) by (auto simp: disjoint_iff)
    then show "m' (s + i) = m (s + i)" by (auto simp: sp)
  qed
  moreover have "\<forall>a. a \<notin> {d..d + length xs} \<longrightarrow> m' a = m a" by (auto simp: sp)
  ultimately show ?thesis
    using strlen_cstr [OF assms(1)] strcmp_cstr [OF assms(1,2)] strcpy_cstr [OF assms(1,3), folded m'_def] by auto
qed

lemma string_routines_correct_example:
  "\<exists>m'. strcpy 100 0 ((\<lambda>_. 0)(0 := 104, 1 := 105)) = Some m' \<and> m' 101 = 105"
  using string_routines_correct [of "(\<lambda>_. 0)(0 := 104, 1 := 105)" 0 "[104, 105]" 0 "[104, 105]" 100]
  by (auto simp: disjoint_iff)

end
