(* ===== verification/Vmm.thy ===== *)
theory Vmm
  imports Swap CString
begin

text \<open>
  \<^verbatim>\<open>kern/mm/vmm.c\<close>: the areas of a user address space, the checks of user pointers and the page fault
  handler.  An area is never changed after its creation, so a pointer to an area is the area;
  the list of areas is a list.  Whether \<^verbatim>\<open>kmalloc\<close> succeeds is an argument.
\<close>

definition VM_READ :: u32 where "VM_READ = 1"
definition VM_WRITE :: u32 where "VM_WRITE = 2"
definition VM_EXEC :: u32 where "VM_EXEC = 4"
definition VM_STACK :: u32 where "VM_STACK = 8"

record vma_struct =
  vm_start :: u64
  vm_end :: u64
  vm_flags :: u32

record mm_struct =
  mmap_list :: "vma_struct list"
  mmap_cache :: "vma_struct option"
  pgdir :: "nat option"
  map_count :: int
  mm_count :: int

section \<open>Areas\<close>

text \<open>
  \<open>mm_create\<close>: \<open>None\<close> in the first component when there is no memory.  Setting up the swap manager for
  the new address space empties the manager's list.
\<close>

definition mm_create :: "bool \<Rightarrow> swap_st \<Rightarrow> mm_struct option \<times> swap_st" where
  "mm_create kmalloc_ok s =
     (if kmalloc_ok
      then (Some \<lparr>mmap_list = [], mmap_cache = None, pgdir = None, map_count = 0, mm_count = 0\<rparr>,
            if swap_init_ok (vm s) then fifo_init_mm s else s)
      else (None, s))"

definition vma_create :: "bool \<Rightarrow> u64 \<Rightarrow> u64 \<Rightarrow> u32 \<Rightarrow> vma_struct option" where
  "vma_create kmalloc_ok vs ve flags =
     (if kmalloc_ok then Some \<lparr>vm_start = vs, vm_end = ve, vm_flags = flags\<rparr> else None)"

definition vma_has :: "u64 \<Rightarrow> vma_struct \<Rightarrow> bool" where
  "vma_has addr vma \<longleftrightarrow> vm_start vma \<le> addr \<and> addr < vm_end vma"

definition find_vma :: "mm_struct \<Rightarrow> u64 \<Rightarrow> vma_struct option \<times> mm_struct" where
  "find_vma mm addr =
     (let vma = (case mmap_cache mm of
                   Some c \<Rightarrow> if vma_has addr c then Some c else find (vma_has addr) (mmap_list mm)
                 | None \<Rightarrow> find (vma_has addr) (mmap_list mm))
      in (vma, if vma \<noteq> None then mm\<lparr>mmap_cache := vma\<rparr> else mm))"

definition check_vma_overlap :: "vma_struct \<Rightarrow> vma_struct \<Rightarrow> unit option" where
  "check_vma_overlap prev nx = do {
     kassert (vm_start prev < vm_end prev);
     kassert (vm_end prev \<le> vm_start nx);
     kassert (vm_start nx < vm_end nx)
   }"

definition insert_vma_struct :: "mm_struct \<Rightarrow> vma_struct \<Rightarrow> mm_struct option" where
  "insert_vma_struct mm vma = do {
     kassert (vm_start vma < vm_end vma);
     let before = takeWhile (\<lambda>v. \<not> vm_start v > vm_start vma) (mmap_list mm);
     let after = dropWhile (\<lambda>v. \<not> vm_start v > vm_start vma) (mmap_list mm);
     _ \<leftarrow> (if before \<noteq> [] then check_vma_overlap (last before) vma else Some ());
     _ \<leftarrow> (if after \<noteq> [] then check_vma_overlap vma (hd after) else Some ());
     Some (mm\<lparr>mmap_list := before @ vma # after, map_count := map_count mm + 1\<rparr>)
   }"

text \<open>\<open>mm_destroy\<close> gives the areas to \<^verbatim>\<open>kfree\<close>, in this order, and then the structure itself.\<close>

definition mm_destroy :: "mm_struct \<Rightarrow> vma_struct list option" where
  "mm_destroy mm = do { kassert (mm_count mm = 0); Some (mmap_list mm) }"

definition mm_map :: "bool \<Rightarrow> mm_struct \<Rightarrow> u64 \<Rightarrow> u64 \<Rightarrow> u32 \<Rightarrow> (int \<times> vma_struct option \<times> mm_struct) option" where
  "mm_map kmalloc_ok mm addr len flags =
     (let start = ROUNDDOWN addr PGSIZE; end = ROUNDUP (addr + len) PGSIZE in
      if \<not> USER_ACCESS start end then Some (- E_INVAL, None, mm)
      else
        let (found, mm1) = find_vma mm start in
        if (case found of Some v \<Rightarrow> end > vm_start v | None \<Rightarrow> False) then Some (- E_INVAL, None, mm1)
        else case vma_create kmalloc_ok start end flags of
               None \<Rightarrow> Some (- E_NO_MEM, None, mm1)
             | Some vma \<Rightarrow> do {
                 mm2 \<leftarrow> insert_vma_struct mm1 vma;
                 Some (0, Some vma, mm2)
               })"

section \<open>Copying and releasing an address space\<close>

text \<open>The areas of \<open>from\<close>, last to first; \<open>ok\<close> is \<^verbatim>\<open>kmalloc\<close>'s answer for the copy of an area.\<close>

fun dup_mmap_loop :: "(vma_struct \<Rightarrow> bool) \<Rightarrow> nat \<Rightarrow> nat \<Rightarrow> vma_struct list \<Rightarrow> mm_struct \<times> vm_st \<Rightarrow> (int \<times> mm_struct \<times> vm_st) option" where
  "dup_mmap_loop ok todir fromdir [] (to, s) = Some (0, to, s)"
| "dup_mmap_loop ok todir fromdir (vma # vmas) (to, s) =
     (case vma_create (ok vma) (vm_start vma) (vm_end vma) (vm_flags vma) of
        None \<Rightarrow> Some (- E_NO_MEM, to, s)
      | Some nvma \<Rightarrow> do {
          to1 \<leftarrow> insert_vma_struct to nvma;
          (ret, s1) \<leftarrow> copy_range todir fromdir (vm_start vma) (vm_end vma) s;
          if ret \<noteq> 0 then Some (- E_NO_MEM, to1, s1) else dup_mmap_loop ok todir fromdir vmas (to1, s1)
        })"

definition dup_mmap :: "(vma_struct \<Rightarrow> bool) \<Rightarrow> mm_struct \<Rightarrow> mm_struct \<Rightarrow> vm_st \<Rightarrow> (int \<times> mm_struct \<times> vm_st) option" where
  "dup_mmap ok to from s = do {
     todir \<leftarrow> pgdir to;
     fromdir \<leftarrow> pgdir from;
     dup_mmap_loop ok todir fromdir (rev (mmap_list from)) (to, s)
   }"

fun for_vmas :: "(vma_struct \<Rightarrow> vm_st \<Rightarrow> vm_st option) \<Rightarrow> vma_struct list \<Rightarrow> vm_st \<Rightarrow> vm_st option" where
  "for_vmas f [] s = Some s"
| "for_vmas f (v # vs) s = f v s \<bind> for_vmas f vs"

definition exit_mmap :: "mm_struct \<Rightarrow> vm_st \<Rightarrow> vm_st option" where
  "exit_mmap mm s = do {
     kassert (mm_count mm = 0);
     dir \<leftarrow> pgdir mm;
     s1 \<leftarrow> for_vmas (\<lambda>v. unmap_range dir (vm_start v) (vm_end v)) (mmap_list mm) s;
     for_vmas (\<lambda>v. exit_range dir (vm_start v) (vm_end v) True) (mmap_list mm) s1
   }"

section \<open>User pointers\<close>

partial_function (option) user_check_loop :: "mm_struct \<Rightarrow> u64 \<Rightarrow> u64 \<Rightarrow> bool \<Rightarrow> (bool \<times> mm_struct) option" where
  "user_check_loop mm start end write =
     (if start < end then
        (let (found, mm1) = find_vma mm start in
         case found of
           None \<Rightarrow> Some (False, mm1)
         | Some vma \<Rightarrow>
             if start < vm_start vma then Some (False, mm1)
             else if vm_flags vma AND (if write then VM_WRITE else VM_READ) = 0 then Some (False, mm1)
             else if write \<and> vm_flags vma AND VM_STACK \<noteq> 0 \<and> start < vm_start vma + PGSIZE then Some (False, mm1)
             else user_check_loop mm1 (vm_end vma) end write)
      else Some (True, mm))"

definition user_mem_check :: "mm_struct option \<Rightarrow> u64 \<Rightarrow> u64 \<Rightarrow> bool \<Rightarrow> (bool \<times> mm_struct option) option" where
  "user_mem_check mmo addr len write =
     (case mmo of
        Some mm \<Rightarrow>
          if \<not> USER_ACCESS addr (addr + len) then Some (False, mmo)
          else user_check_loop mm addr (addr + len) write \<bind> (\<lambda>(b, mm1). Some (b, Some mm1))
      | None \<Rightarrow> Some (KERN_ACCESS addr (addr + len), None))"

definition copy_from_user :: "mm_struct option \<Rightarrow> u64 \<Rightarrow> u64 \<Rightarrow> u64 \<Rightarrow> bool \<Rightarrow> mem \<Rightarrow> (bool \<times> mm_struct option \<times> mem) option" where
  "copy_from_user mmo dst src len writable m = do {
     (ok, mm1) \<leftarrow> user_mem_check mmo src len writable;
     Some (ok, mm1, if ok then memcpy (unat dst) (unat src) (unat len) m else m)
   }"

definition copy_to_user :: "mm_struct option \<Rightarrow> u64 \<Rightarrow> u64 \<Rightarrow> u64 \<Rightarrow> mem \<Rightarrow> (bool \<times> mm_struct option \<times> mem) option" where
  "copy_to_user mmo dst src len m = do {
     (ok, mm1) \<leftarrow> user_mem_check mmo dst len True;
     Some (ok, mm1, if ok then memcpy (unat dst) (unat src) (unat len) m else m)
   }"

partial_function (option) copy_string_loop ::
    "mm_struct option \<Rightarrow> u64 \<Rightarrow> u64 \<Rightarrow> u64 \<Rightarrow> u64 \<Rightarrow> mem \<Rightarrow> (bool \<times> mm_struct option \<times> mem) option" where
  "copy_string_loop mmo dst src maxn part0 m =
     (let part = (if part0 > maxn then maxn else part0) in do {
        (ok, mm1) \<leftarrow> user_mem_check mmo src part False;
        if \<not> ok then Some (False, mm1, m)
        else
          let alen = strnlen m (unat src) (unat part) in
          if alen < unat part then Some (True, mm1, memcpy (unat dst) (unat src) (alen + 1) m)
          else if part = maxn then Some (False, mm1, m)
          else copy_string_loop mm1 (dst + part) (src + part) (maxn - part) PGSIZE
                 (memcpy (unat dst) (unat src) (unat part) m)
      })"

definition copy_string :: "mm_struct option \<Rightarrow> u64 \<Rightarrow> u64 \<Rightarrow> u64 \<Rightarrow> mem \<Rightarrow> (bool \<times> mm_struct option \<times> mem) option" where
  "copy_string mmo dst src maxn m = copy_string_loop mmo dst src maxn (ROUNDDOWN (src + PGSIZE) PGSIZE - src) m"

declare user_check_loop.simps [code] copy_string_loop.simps [code]

section \<open>Page faults\<close>

text \<open>The result is the return value, the address space (whose cache may change) and the memory.\<close>

definition do_pgfault :: "mm_struct \<Rightarrow> u64 \<Rightarrow> swap_st \<Rightarrow> (int \<times> mm_struct \<times> swap_st) option" where
  "do_pgfault mm addr0 s =
     (let (found, mm1) = find_vma mm addr0 in
      case found of
        None \<Rightarrow> Some (- E_INVAL, mm1, s)
      | Some vma \<Rightarrow>
          if vm_start vma > addr0 then Some (- E_INVAL, mm1, s)
          else do {
            let perm = (if vm_flags vma AND VM_WRITE \<noteq> 0 then PTE_U OR READ_WRITE else PTE_U);
            let addr = ROUNDDOWN addr0 PGSIZE;
            dir \<leftarrow> pgdir mm1;
            (pp, v1) \<leftarrow> get_pte dir addr True (vm s);
            let s1 = s\<lparr>vm := v1\<rparr>;
            (case pp of
               None \<Rightarrow> Some (- E_NO_MEM, mm1, s1)
             | Some ptep \<Rightarrow>
                 if read_pte ptep v1 = 0 then do {
                   (page, v2) \<leftarrow> pgdir_alloc_page dir addr perm v1;
                   Some (if page = None then - E_NO_MEM else 0, mm1, s1\<lparr>vm := v2\<rparr>)
                 }
                 else if swap_init_ok v1 then do {
                   (ret, page, s2) \<leftarrow> swap_in dir addr s1;
                   if ret \<noteq> 0 then Some (ret, mm1, s2)
                   else do {
                     (ret2, v3) \<leftarrow> page_insert dir page addr perm (vm s2);
                     s4 \<leftarrow> fifo_map_swappable page (s2\<lparr>vm := v3\<rparr>);
                     Some (0, mm1, s4\<lparr>pra_vaddr := (pra_vaddr s4)(page := addr)\<rparr>)
                   }
                 }
                 else Some (- E_NO_MEM, mm1, s1))
          })"

section \<open>The list of areas\<close>

definition vma_list_ok :: "vma_struct list \<Rightarrow> bool" where
  "vma_list_ok vs \<longleftrightarrow> sorted_wrt (\<lambda>v w. vm_end v \<le> vm_start w) vs \<and> (\<forall>v\<in>set vs. vm_start v < vm_end v \<and> vm_end v \<le> USERTOP)"

text \<open>Areas are sorted, disjoint, nonempty and in user space, are counted, and the cache is one of them.\<close>

definition mm_ok :: "mm_struct \<Rightarrow> bool" where
  "mm_ok mm \<longleftrightarrow> vma_list_ok (mmap_list mm) \<and> map_count mm = int (length (mmap_list mm)) \<and>
     (\<forall>c. mmap_cache mm = Some c \<longrightarrow> c \<in> set (mmap_list mm))"

lemma vma_unique:
  assumes "vma_list_ok vs" "v \<in> set vs" "w \<in> set vs" "vma_has a v" "vma_has a w"
  shows "v = w"
  using assms
proof (induction vs)
  case (Cons u vs)
  have "\<not> (vma_has a u \<and> vma_has a x)" if "x \<in> set vs" for x
  proof -
    have "vm_end u \<le> vm_start x" using Cons.prems(1) that by (simp add: vma_list_ok_def)
    then show ?thesis by (auto simp: vma_has_def not_le word_less_nat_alt word_le_nat_alt)
  qed
  moreover have "vma_list_ok vs" using Cons.prems(1) by (simp add: vma_list_ok_def)
  ultimately show ?case using Cons.IH Cons.prems by auto
qed simp

lemma find_unique:
  assumes "vma_list_ok vs" "v \<in> set vs" "vma_has a v"
  shows "find (vma_has a) vs = Some v"
proof (cases "find (vma_has a) vs")
  case None
  then show ?thesis using assms by (auto simp: find_None_iff)
next
  case (Some w)
  then have "w \<in> set vs" "vma_has a w" by (auto simp: find_Some_iff)
  then show ?thesis using Some vma_unique [OF assms(1,2) _ assms(3)] by simp
qed

lemma find_vma_ok:
  assumes "mm_ok mm"
  obtains mm' where "find_vma mm addr = (find (vma_has addr) (mmap_list mm), mm')" "mm_ok mm'"
    "mmap_list mm' = mmap_list mm" "pgdir mm' = pgdir mm" "mm_count mm' = mm_count mm"
proof -
  have ok: "vma_list_ok (mmap_list mm)" and c: "\<And>c. mmap_cache mm = Some c \<Longrightarrow> c \<in> set (mmap_list mm)"
    using assms by (auto simp: mm_ok_def)
  have "fst (find_vma mm addr) = find (vma_has addr) (mmap_list mm)"
    using c find_unique [OF ok, of _ addr] by (auto simp: find_vma_def Let_def split: option.split)
  moreover have "find (vma_has addr) (mmap_list mm) = Some v \<Longrightarrow> v \<in> set (mmap_list mm)" for v
    by (auto simp: find_Some_iff)
  moreover have "snd (find_vma mm addr) =
      (if fst (find_vma mm addr) \<noteq> None then mm\<lparr>mmap_cache := fst (find_vma mm addr)\<rparr> else mm)"
    by (simp add: find_vma_def Let_def)
  ultimately have "find_vma mm addr = (find (vma_has addr) (mmap_list mm),
      if find (vma_has addr) (mmap_list mm) \<noteq> None then mm\<lparr>mmap_cache := find (vma_has addr) (mmap_list mm)\<rparr> else mm)"
    "mm_ok (if find (vma_has addr) (mmap_list mm) \<noteq> None then mm\<lparr>mmap_cache := find (vma_has addr) (mmap_list mm)\<rparr> else mm)"
    using assms by (auto simp: mm_ok_def prod_eq_iff)
  then show thesis by (rule that) auto
qed

text \<open>
  C19. The cache of \<open>find_vma\<close> is transparent: the result is what a search of the list without the cache
  gives, which is the one area that holds the address, and none exactly if no area does; only the cache
  changes, and it stays an area of the list.
\<close>

theorem find_vma_is_lookup:
  assumes "mm_ok mm" "find_vma mm addr = (found, mm')"
  shows "found = find (vma_has addr) (mmap_list mm) \<and>
    (\<forall>v. found = Some v \<longleftrightarrow> v \<in> set (mmap_list mm) \<and> vm_start v \<le> addr \<and> addr < vm_end v) \<and>
    mm_ok mm' \<and> mmap_list mm' = mmap_list mm"
proof -
  have ok: "vma_list_ok (mmap_list mm)" using assms(1) by (simp add: mm_ok_def)
  have "found = find (vma_has addr) (mmap_list mm) \<and> mm_ok mm' \<and> mmap_list mm' = mmap_list mm"
    by (rule find_vma_ok [OF assms(1), of addr]) (use assms(2) in auto)
  moreover have "find (vma_has addr) (mmap_list mm) = Some v \<longleftrightarrow> v \<in> set (mmap_list mm) \<and> vma_has addr v" for v
    using find_unique [OF ok, of v addr] by (auto simp: find_Some_iff)
  ultimately show ?thesis by (simp add: vma_has_def)
qed

definition example_mm :: mm_struct where
  "example_mm = \<lparr>mmap_list = [\<lparr>vm_start = 0x200000, vm_end = 0x204000, vm_flags = 3\<rparr>,
     \<lparr>vm_start = 0x300000, vm_end = 0x301000, vm_flags = 1\<rparr>],
     mmap_cache = Some \<lparr>vm_start = 0x300000, vm_end = 0x301000, vm_flags = 1\<rparr>,
     pgdir = Some 0, map_count = 2, mm_count = 1\<rparr>"

lemma example_mm_ok: "mm_ok example_mm"
  by (simp add: mm_ok_def vma_list_ok_def example_mm_def USERTOP_def)

theorem find_vma_is_lookup_witness:
  "fst (find_vma example_mm 0x203FFF) = Some \<lparr>vm_start = 0x200000, vm_end = 0x204000, vm_flags = 3\<rparr>"
  using find_vma_is_lookup [OF example_mm_ok, of "0x203FFF" "fst (find_vma example_mm 0x203FFF)" "snd (find_vma example_mm 0x203FFF)"]
  by (simp add: example_mm_def vma_has_def)

section \<open>Adding areas\<close>

definition vma_disjoint :: "vma_struct \<Rightarrow> vma_struct \<Rightarrow> bool" where
  "vma_disjoint v w \<longleftrightarrow> vm_end v \<le> vm_start w \<or> vm_end w \<le> vm_start v"

lemma vma_list_before:
  assumes "vma_list_ok vs" "v \<in> set (takeWhile (\<lambda>v. \<not> vm_start v > a) vs)"
  shows "vm_end v \<le> vm_end (last (takeWhile (\<lambda>v. \<not> vm_start v > a) vs))"
  using assms
proof (induction vs)
  case (Cons u vs)
  let ?tw = "takeWhile (\<lambda>v. \<not> vm_start v > a) vs"
  have ok: "vma_list_ok vs" "\<And>x. x \<in> set vs \<Longrightarrow> vm_end u \<le> vm_start x \<and> vm_start x < vm_end x"
    using Cons.prems(1) by (auto simp: vma_list_ok_def)
  have u: "\<not> vm_start u > a" using Cons.prems(2) by (auto split: if_split_asm)
  show ?case
  proof (cases "?tw = []")
    case True
    then show ?thesis using Cons.prems(2) u by simp
  next
    case False
    have "last ?tw \<in> set vs" using False by (meson last_in_set set_takeWhileD)
    then have "vm_end u \<le> vm_end (last ?tw)" using ok(2) by (meson order_trans less_imp_le)
    then show ?thesis using Cons.IH [OF ok(1)] Cons.prems(2) u False by auto
  qed
qed simp

lemma vma_list_after:
  assumes "vma_list_ok vs" "v \<in> set (dropWhile (\<lambda>v. \<not> vm_start v > a) vs)"
  shows "vm_start (hd (dropWhile (\<lambda>v. \<not> vm_start v > a) vs)) \<le> vm_start v"
proof -
  let ?dw = "dropWhile (\<lambda>v. \<not> vm_start v > a) vs"
  have "vma_list_ok ?dw"
    using assms(1) by (auto simp: vma_list_ok_def sorted_wrt_dropWhile dest: set_dropWhileD)
  then show ?thesis using assms(2)
    by (cases ?dw) (auto simp: vma_list_ok_def intro: order_trans less_imp_le)
qed

text \<open>\<open>insert_vma_struct\<close> succeeds exactly for an area that overlaps no other.\<close>

lemma insert_vma_struct_ok:
  assumes ok: "mm_ok mm" and v: "vm_start vma < vm_end vma" "vm_end vma \<le> USERTOP"
  shows "if \<forall>w\<in>set (mmap_list mm). vma_disjoint vma w
    then \<exists>mm'. insert_vma_struct mm vma = Some mm' \<and> mm_ok mm' \<and> set (mmap_list mm') = insert vma (set (mmap_list mm)) \<and>
      pgdir mm' = pgdir mm \<and> mm_count mm' = mm_count mm
    else insert_vma_struct mm vma = None"
proof -
  let ?P = "\<lambda>v. \<not> vm_start v > vm_start vma"
  define bf af where "bf = takeWhile ?P (mmap_list mm)" and "af = dropWhile ?P (mmap_list mm)"
  have vs: "mmap_list mm = bf @ af" by (simp add: bf_def af_def)
  have lok: "vma_list_ok (mmap_list mm)" using ok by (simp add: mm_ok_def)
  have ne: "vm_start w < vm_end w" "vm_end w \<le> USERTOP" if "w \<in> set (bf @ af)" for w
    using lok that unfolding vs by (auto simp: vma_list_ok_def)
  have bf: "vm_start w \<le> vm_start vma" "vm_end w \<le> vm_end (last bf)" if "w \<in> set bf" for w
    using that vma_list_before [OF lok, of w "vm_start vma"] set_takeWhileD [of w ?P "mmap_list mm"] by (auto simp: bf_def)
  have hd_af: "vm_start vma < vm_start (hd af)" if "af \<noteq> []"
    using hd_dropWhile [of ?P "mmap_list mm"] that by (simp add: af_def)
  have af: "vm_start (hd af) \<le> vm_start w" if "w \<in> set af" for w
    using that vma_list_after [OF lok, of w "vm_start vma"] by (simp add: af_def)
  have cb: "check_vma_overlap (last bf) vma = (if vm_end (last bf) \<le> vm_start vma then Some () else None)" if "bf \<noteq> []"
    using that ne [of "last bf"] v by (simp add: check_vma_overlap_def)
  have ca: "check_vma_overlap vma (hd af) = (if vm_end vma \<le> vm_start (hd af) then Some () else None)" if "af \<noteq> []"
    using that ne [of "hd af"] v by (simp add: check_vma_overlap_def)
  let ?good = "(bf \<noteq> [] \<longrightarrow> vm_end (last bf) \<le> vm_start vma) \<and> (af \<noteq> [] \<longrightarrow> vm_end vma \<le> vm_start (hd af))"
  have ev: "insert_vma_struct mm vma = (if ?good
      then Some (mm\<lparr>mmap_list := bf @ vma # af, map_count := map_count mm + 1\<rparr>) else None)"
    using v cb ca unfolding insert_vma_struct_def bf_def [symmetric] af_def [symmetric] by (auto simp: Let_def)
  have all: "(\<forall>w\<in>set (mmap_list mm). vma_disjoint vma w) \<longleftrightarrow> ?good"
  proof
    assume d: "\<forall>w\<in>set (mmap_list mm). vma_disjoint vma w"
    have "vm_end (last bf) \<le> vm_start vma" if b: "bf \<noteq> []"
    proof -
      have "vma_disjoint vma (last bf)" using d b unfolding vs by simp
      then show ?thesis using bf(1) [of "last bf"] b v by (auto simp: vma_disjoint_def word_le_nat_alt word_less_nat_alt)
    qed
    moreover have "vm_end vma \<le> vm_start (hd af)" if a: "af \<noteq> []"
    proof -
      have "vma_disjoint vma (hd af)" using d a unfolding vs by simp
      then show ?thesis using hd_af ne [of "hd af"] a by (auto simp: vma_disjoint_def word_le_nat_alt word_less_nat_alt)
    qed
    ultimately show ?good by blast
  next
    assume g: ?good
    show "\<forall>w\<in>set (mmap_list mm). vma_disjoint vma w"
    proof
      fix w assume "w \<in> set (mmap_list mm)"
      then consider "w \<in> set bf" | "w \<in> set af" unfolding vs by auto
      then show "vma_disjoint vma w"
      proof cases
        case 1
        then show ?thesis using bf(2) [OF 1] g by (auto simp: vma_disjoint_def intro: order_trans)
      next
        case 2
        then show ?thesis using af [OF 2] g by (auto simp: vma_disjoint_def intro: order_trans)
      qed
    qed
  qed
  have "vma_list_ok (bf @ vma # af)" if g: ?good
  proof -
    have "vm_end w \<le> vm_start vma" if "w \<in> set bf" for w using bf(2) [OF that] g that by (auto intro: order_trans)
    moreover have "vm_end vma \<le> vm_start w" if "w \<in> set af" for w using af [OF that] g that by (auto intro: order_trans)
    ultimately show ?thesis using lok v unfolding vs by (auto simp: vma_list_ok_def sorted_wrt_append)
  qed
  then show ?thesis using ev all ok vs by (auto simp: mm_ok_def)
qed

text \<open>
  C20. \<open>mm_map\<close> on a well-formed address space.  A range outside user space, or whose start lies in
  an area, is refused with \<^verbatim>\<open>-E_INVAL\<close>; a range that is free is added as one area (or refused with
  \<^verbatim>\<open>-E_NO_MEM\<close>), and the areas stay sorted, disjoint and counted; but a range that starts in a gap and reaches
  into a later area is not refused: the kernel panics in \<open>insert_vma_struct\<close>.
\<close>

theorem mm_map_outcomes:
  assumes "mm_ok mm" "start = ROUNDDOWN addr PGSIZE" "end = ROUNDUP (addr + len) PGSIZE"
  shows "if \<not> USER_ACCESS start end \<or> (\<exists>w\<in>set (mmap_list mm). vm_start w \<le> start \<and> start < vm_end w)
    then \<exists>mm'. mm_map ok mm addr len flags = Some (- E_INVAL, None, mm') \<and> mm_ok mm' \<and> mmap_list mm' = mmap_list mm
    else if \<not> ok then \<exists>mm'. mm_map ok mm addr len flags = Some (- E_NO_MEM, None, mm') \<and> mm_ok mm' \<and> mmap_list mm' = mmap_list mm
    else if \<exists>w\<in>set (mmap_list mm). start < vm_start w \<and> vm_start w < end then mm_map ok mm addr len flags = None
    else \<exists>vma mm'. mm_map ok mm addr len flags = Some (0, Some vma, mm') \<and> mm_ok mm' \<and>
      set (mmap_list mm') = insert vma (set (mmap_list mm)) \<and> vm_start vma = start \<and> vm_end vma = end \<and> vm_flags vma = flags"
proof -
  obtain mm1 where f: "find_vma mm start = (find (vma_has start) (mmap_list mm), mm1)" "mm_ok mm1" "mmap_list mm1 = mmap_list mm"
    by (rule find_vma_ok [OF assms(1), of start]) blast
  show ?thesis
  proof (cases "USER_ACCESS start end")
    case False
    then show ?thesis using assms by (simp add: mm_map_def Let_def)
  next
    case True
    then have lt: "start < end" "end \<le> USERTOP" by (auto simp: USER_ACCESS_def)
    show ?thesis
    proof (cases "find (vma_has start) (mmap_list mm)")
      case (Some w)
      then have w: "w \<in> set (mmap_list mm)" "vma_has start w" by (auto simp: find_Some_iff)
      then have "vm_start w < end" using lt by (auto simp: vma_has_def)
      then have "mm_map ok mm addr len flags = Some (- E_INVAL, None, mm1)"
        using True Some f(1) assms(2,3) by (simp add: mm_map_def Let_def)
      then show ?thesis using w f by (auto simp: vma_has_def)
    next
      case None
      then have nin: "\<not> (\<exists>w\<in>set (mmap_list mm). vm_start w \<le> start \<and> start < vm_end w)"
        by (auto simp: find_None_iff vma_has_def)
      let ?v = "\<lparr>vm_start = start, vm_end = end, vm_flags = flags\<rparr>"
      have ev: "mm_map ok mm addr len flags = (if \<not> ok then Some (- E_NO_MEM, None, mm1)
          else insert_vma_struct mm1 ?v \<bind> (\<lambda>mm2. Some (0, Some ?v, mm2)))"
        using True None f(1) assms(2,3) by (simp add: mm_map_def Let_def vma_create_def)
      have dj: "(\<forall>w\<in>set (mmap_list mm). vma_disjoint ?v w) \<longleftrightarrow> \<not> (\<exists>w\<in>set (mmap_list mm). start < vm_start w \<and> vm_start w < end)"
      proof -
        have "vma_disjoint ?v w \<longleftrightarrow> \<not> (start < vm_start w \<and> vm_start w < end)" if w: "w \<in> set (mmap_list mm)" for w
        proof -
          have "vm_start w < vm_end w" using assms(1) w by (simp add: mm_ok_def vma_list_ok_def)
          moreover have "\<not> (vm_start w \<le> start \<and> start < vm_end w)" using nin w by blast
          ultimately show ?thesis using lt by (auto simp: vma_disjoint_def word_le_nat_alt word_less_nat_alt)
        qed
        then show ?thesis by blast
      qed
      show ?thesis
        using insert_vma_struct_ok [OF f(2), of ?v] True nin ev lt f dj by (auto split: if_split_asm)
    qed
  qed
qed

theorem mm_map_outcomes_witness:
  "(\<exists>vma mm'. mm_map True example_mm 0x204010 0x2000 1 = Some (0, Some vma, mm') \<and> vm_start vma = 0x204000 \<and> vm_end vma = 0x207000) \<and>
   mm_map True example_mm 0x2FF000 0x2000 1 = None"
proof -
  have a: "ROUNDDOWN 0x204010 PGSIZE = (0x204000 :: u64)" "ROUNDUP (0x204010 + 0x2000) PGSIZE = (0x207000 :: u64)"
    "ROUNDDOWN 0x2FF000 PGSIZE = (0x2FF000 :: u64)" "ROUNDUP (0x2FF000 + 0x2000) PGSIZE = (0x301000 :: u64)"
    by (simp_all add: ROUNDDOWN_def ROUNDUP_def PGSIZE_def)
  show ?thesis
    using mm_map_outcomes [OF example_mm_ok a(1,2) [symmetric], of True 1]
      mm_map_outcomes [OF example_mm_ok a(3,4) [symmetric], of True 1]
    by (simp add: example_mm_def USER_ACCESS_def USERBASE_def USERTOP_def) blast
qed

section \<open>User pointers are checked byte by byte\<close>

text \<open>
  \<open>accessible mm write a\<close>: address \<open>a\<close> lies in an area that allows the access, and a write not in the
  lowest page of a stack area.
\<close>

definition accessible :: "mm_struct \<Rightarrow> bool \<Rightarrow> u64 \<Rightarrow> bool" where
  "accessible mm write a \<longleftrightarrow> (\<exists>v\<in>set (mmap_list mm). vm_start v \<le> a \<and> a < vm_end v \<and>
     vm_flags v AND (if write then VM_WRITE else VM_READ) \<noteq> 0 \<and>
     (write \<and> vm_flags v AND VM_STACK \<noteq> 0 \<longrightarrow> vm_start v + PGSIZE \<le> a))"

lemma accessible_in:
  assumes "vma_list_ok (mmap_list mm)" "v \<in> set (mmap_list mm)" "vma_has a v"
  shows "accessible mm write a \<longleftrightarrow> vm_flags v AND (if write then VM_WRITE else VM_READ) \<noteq> 0 \<and>
    (write \<and> vm_flags v AND VM_STACK \<noteq> 0 \<longrightarrow> vm_start v + PGSIZE \<le> a)"
  using vma_unique [OF assms(1,2) _ assms(3)] assms(2,3) unfolding accessible_def vma_has_def by metis

lemma user_check_loop_ok:
  assumes "mm_ok mm"
  shows "\<exists>mm'. user_check_loop mm start end write = Some ((\<forall>a. start \<le> a \<longrightarrow> a < end \<longrightarrow> accessible mm write a), mm') \<and>
    mm_ok mm' \<and> mmap_list mm' = mmap_list mm"
  using assms
proof (induction "unat end - unat start" arbitrary: start mm rule: less_induct)
  case less
  show ?case
  proof (cases "start < end")
    case False
    then show ?thesis using less.prems by (subst user_check_loop.simps) (auto simp: not_less)
  next
    case True
    obtain mm1 where f: "find_vma mm start = (find (vma_has start) (mmap_list mm), mm1)" "mm_ok mm1" "mmap_list mm1 = mmap_list mm"
      by (rule find_vma_ok [OF less.prems, of start]) blast
    have lok: "vma_list_ok (mmap_list mm)" using less.prems by (simp add: mm_ok_def)
    have acc1: "accessible mm1 write = accessible mm write" using f(3) by (simp add: accessible_def fun_eq_iff)
    have stop: ?thesis if "user_check_loop mm start end write = Some (False, mm1)" "\<not> accessible mm write start"
      using that True f by (intro exI [of _ mm1]) auto
    show ?thesis
    proof (cases "find (vma_has start) (mmap_list mm)")
      case None
      then have "\<not> accessible mm write start" by (auto simp: find_None_iff vma_has_def accessible_def)
      then show ?thesis using None f(1) True by (intro stop) (subst user_check_loop.simps, simp)
    next
      case (Some v)
      then have v: "v \<in> set (mmap_list mm)" "vma_has start v" by (auto simp: find_Some_iff)
      note ai = accessible_in [OF lok v]
      have le: "\<not> start < vm_start v" "start < vm_end v" using v(2) by (auto simp: vma_has_def)
      let ?bad = "vm_flags v AND (if write then VM_WRITE else VM_READ) = 0 \<or>
        write \<and> vm_flags v AND VM_STACK \<noteq> 0 \<and> start < vm_start v + PGSIZE"
      have ev: "user_check_loop mm start end write = (if ?bad then Some (False, mm1) else user_check_loop mm1 (vm_end v) end write)"
        by (subst user_check_loop.simps) (use True f(1) Some le(1) in auto)
      show ?thesis
      proof (cases ?bad)
        case True
        then show ?thesis using ev ai by (intro stop) (auto simp: not_le)
      next
        case False
        have rest: "accessible mm write a" if "start \<le> a" "a < vm_end v" for a
        proof -
          have "vma_has a v" using that v(2) by (auto simp: vma_has_def intro: order_trans)
          from accessible_in [OF lok v(1) this] show ?thesis
            using False that(1) by (auto simp: not_less intro: order_trans)
        qed
        have "unat end - unat (vm_end v) < unat end - unat start" using le(2) True by (simp add: word_less_nat_alt)
        from less.hyps [OF this f(2)] obtain mm' where
          mm': "user_check_loop mm1 (vm_end v) end write = Some ((\<forall>a. vm_end v \<le> a \<longrightarrow> a < end \<longrightarrow> accessible mm1 write a), mm')"
          "mm_ok mm'" "mmap_list mm' = mmap_list mm1" by blast
        have "(\<forall>a. start \<le> a \<longrightarrow> a < end \<longrightarrow> accessible mm write a) \<longleftrightarrow> (\<forall>a. vm_end v \<le> a \<longrightarrow> a < end \<longrightarrow> accessible mm write a)"
          using rest le(2) by (meson linorder_not_le order_less_imp_le order_trans)
        then show ?thesis using ev False mm' f(3) acc1 by auto
      qed
    qed
  qed
qed

text \<open>
  C21. \<open>user_mem_check\<close> returns for every argument, and it accepts a range exactly if it is a nonempty range of user
  space (which rules out wrap-around) every byte of which is accessible: in an area with the
  right permission, and for writing not in the guard page of a stack.  It changes nothing but the cache.
\<close>

theorem user_mem_check_exact:
  assumes "mm_ok mm"
  shows "\<exists>mm'. user_mem_check (Some mm) addr len write =
      Some (USER_ACCESS addr (addr + len) \<and> (\<forall>a. addr \<le> a \<longrightarrow> a < addr + len \<longrightarrow> accessible mm write a), Some mm') \<and>
    mm_ok mm' \<and> mmap_list mm' = mmap_list mm"
  using user_check_loop_ok [OF assms, of addr "addr + len" "write"] assms by (auto simp: user_mem_check_def)

theorem user_mem_check_exact_witness:
  "(\<exists>mm'. user_mem_check (Some example_mm) 0x203000 0x1000 True = Some (True, Some mm')) \<and>
   (\<exists>mm'. user_mem_check (Some example_mm) 0x203000 0x1001 False = Some (False, Some mm'))"
proof -
  have "accessible example_mm True a" if "0x203000 \<le> a" "a < 0x204000" for a
  proof -
    have "0x200000 \<le> a" using that(1) by (rule order_trans [rotated]) simp
    then show ?thesis using that by (simp add: accessible_def example_mm_def VM_WRITE_def VM_STACK_def)
  qed
  moreover have "\<not> (\<forall>a\<ge>0x203000. a < 0x204001 \<longrightarrow> accessible example_mm False a)"
    by (simp add: accessible_def example_mm_def) (rule exI [of _ "0x204000"], simp)
  ultimately show ?thesis
    using user_mem_check_exact [OF example_mm_ok, of "0x203000" "0x1000" True]
      user_mem_check_exact [OF example_mm_ok, of "0x203000" "0x1001" False]
    by (auto simp: USER_ACCESS_def USERBASE_def USERTOP_def)
qed

section \<open>Demand paging\<close>

lemma vpn_ROUNDDOWN:
  assumes "addr < USERTOP"
  shows "vpn (ROUNDDOWN addr PGSIZE) = vpn addr" "PDX1 (ROUNDDOWN addr PGSIZE) < 511"
proof -
  have le: "ROUNDDOWN addr PGSIZE < USERTOP" using ROUNDDOWN_le assms by (rule order_le_less_trans)
  have "unat (ROUNDDOWN addr PGSIZE) = unat addr div 4096 * 4096"
    by (simp add: unat_ROUNDDOWN PGSIZE_def minus_mod_eq_div_mult)
  then show "vpn (ROUNDDOWN addr PGSIZE) = vpn addr" by (simp add: vpn_eq_iff [OF le assms])
  show "PDX1 (ROUNDDOWN addr PGSIZE) < 511" by (rule user_PDX1 [OF le])
qed

lemma pgdir_alloc_page_ok:
  assumes fo: "forest s R F" and r: "r \<in> R" and la: "PDX1 la < 511" and mem: "3 \<le> card F"
    and inv: "\<not> valid (pte_of (frames s) r la)"
  obtains page s' F' where "pgdir_alloc_page r la perm s = Some (Some page, s')" "page \<in> F" "page \<notin> F'" "F' \<subseteq> F" "forest s' R F'"
    "\<And>r' la'. r' \<in> R \<Longrightarrow> PDX1 la' < 511 \<Longrightarrow> pte_of (frames s') r' la' =
       (if r' = r \<and> vpn la' = vpn la then pte_create (page2ppn page) (PTE_V OR perm) else pte_of (frames s) r' la')"
proof -
  have "F \<noteq> {}" using mem by auto
  then obtain f m where a: "alloc_pages 1 s = Some (Some f, s\<lparr>pmm := m\<rparr>)" "f \<in> F" "frame_inv (s\<lparr>pmm := m\<rparr>) (F - {f})"
    using alloc_page_spec [OF forestD(1) [OF fo]] by blast
  have fo1: "forest (s\<lparr>pmm := m\<rparr>) R (F - {f})" by (rule forest_frames_cong [OF fo _ a(3)]) auto
  have c: "2 \<le> card (F - {f})" using mem forest_finite [OF fo] a(2) by simp
  obtain s' F' where P: "page_insert r f la perm (s\<lparr>pmm := m\<rparr>) = Some (0, s')" "forest s' R F'" "F' \<subseteq> F - {f}"
    "\<And>r' la'. r' \<in> R \<Longrightarrow> PDX1 la' < 511 \<Longrightarrow> pte_of (frames s') r' la' =
       (if r' = r \<and> vpn la' = vpn la then pte_create (page2ppn f) (PTE_V OR perm) else pte_of (frames (s\<lparr>pmm := m\<rparr>)) r' la')"
    by (rule page_insert_fresh [OF fo1 r la c, of f perm]) (use inv in auto)
  have "pgdir_alloc_page r la perm s = Some (Some f, s')" using a(1) P(1) by (simp add: pgdir_alloc_page_def)
  then show thesis using a(2) P by (intro that [of f s' F']) auto
qed

text \<open>
  C22. Demand paging: a fault at an address in no area returns \<^verbatim>\<open>-E_INVAL\<close> and changes no memory;
  a fault at an untouched page of an area, with five free frames, returns 0 and maps exactly that page,
  to a frame that was free; no other mapping of any address space changes.  The entry is valid and user accessible, and it is readable and
  writable if the area is writable.  For an area without \<^verbatim>\<open>VM_WRITE\<close> the entry has none of the bits \<^verbatim>\<open>R\<close>, \<^verbatim>\<open>W\<close> and \<^verbatim>\<open>X\<close>, also if the
  area is readable or executable: the code does not look at \<^verbatim>\<open>VM_READ\<close> and \<^verbatim>\<open>VM_EXEC\<close>.
\<close>

theorem do_pgfault_maps_page:
  assumes mm: "mm_ok mm" "pgdir mm = Some r" and fo: "forest (vm s) R F" and r: "r \<in> R" and mem: "5 \<le> card F"
    and pte: "pte_of (frames (vm s)) r addr = 0"
  shows "case find (vma_has addr) (mmap_list mm) of
      None \<Rightarrow> \<exists>mm'. do_pgfault mm addr s = Some (- E_INVAL, mm', s)
    | Some vma \<Rightarrow> \<exists>mm' s' page F'. do_pgfault mm addr s = Some (0, mm', s') \<and> mm_ok mm' \<and> mmap_list mm' = mmap_list mm \<and>
        forest (vm s') R F' \<and> page \<in> F \<and> page \<notin> F' \<and>
        pte_of (frames (vm s')) r addr =
          pte_create (page2ppn page) (PTE_V OR (if vm_flags vma AND VM_WRITE \<noteq> 0 then PTE_U OR READ_WRITE else PTE_U)) \<and>
        (\<forall>r'\<in>R. \<forall>la. PDX1 la < 511 \<longrightarrow> (r', vpn la) \<noteq> (r, vpn addr) \<longrightarrow>
           pte_of (frames (vm s')) r' la = pte_of (frames (vm s)) r' la)"
proof -
  obtain mm1 where f: "find_vma mm addr = (find (vma_has addr) (mmap_list mm), mm1)" "mm_ok mm1" "mmap_list mm1 = mmap_list mm"
    "pgdir mm1 = pgdir mm" by (rule find_vma_ok [OF mm(1), of addr]) blast
  show ?thesis
  proof (cases "find (vma_has addr) (mmap_list mm)")
    case None
    then show ?thesis using f(1) by (simp add: do_pgfault_def)
  next
    case (Some vma)
    then have v: "vma \<in> set (mmap_list mm)" "vma_has addr vma" by (auto simp: find_Some_iff)
    then have us: "addr < USERTOP"
      using mm(1) by (auto simp: mm_ok_def vma_list_ok_def vma_has_def intro: order_less_le_trans)
    define la where "la = ROUNDDOWN addr PGSIZE"
    define perm where "perm = (if vm_flags vma AND VM_WRITE \<noteq> 0 then PTE_U OR READ_WRITE else PTE_U)"
    have la: "vpn la = vpn addr" "PDX1 la < 511" using vpn_ROUNDDOWN [OF us] by (simp_all add: la_def)
    obtain t v1 F1 where g: "get_pte r la True (vm s) = Some (Some (t, PTX la), v1)" "card F \<le> card F1 + 2" "grows R F (vm s) F1 v1"
      "tbl (frames v1) r [PDX1 la, PDX0 la] = Some t"
      by (rule get_pte_create [OF fo r la(2) forest_finite [OF fo]]) (use mem in auto)
    have same: "pte_of (frames v1) r' la' = pte_of (frames (vm s)) r' la'" if "r' \<in> R" "PDX1 la' < 511" for r' la'
      using g(3) that by (simp add: grows_def)
    have z: "pte_of (frames v1) r la = 0" using same [OF r la(2)] pte pte_of_vpn [OF la(1)] by simp
    have fo1: "forest v1 R F1" "F1 \<subseteq> F" using g(3) by (auto simp: grows_def)
    have c3: "3 \<le> card F1" using g(2) mem by simp
    obtain page v2 F' where p: "pgdir_alloc_page r la perm v1 = Some (Some page, v2)" "page \<in> F1" "page \<notin> F'" "forest v2 R F'"
      "\<And>r' la'. r' \<in> R \<Longrightarrow> PDX1 la' < 511 \<Longrightarrow> pte_of (frames v2) r' la' =
         (if r' = r \<and> vpn la' = vpn la then pte_create (page2ppn page) (PTE_V OR perm) else pte_of (frames v1) r' la')"
      by (rule pgdir_alloc_page_ok [OF fo1(1) r la(2) c3, of perm]) (use z in \<open>auto simp: valid_def\<close>)
    have "\<not> vm_start vma > addr" using v(2) by (auto simp: vma_has_def)
    then have "do_pgfault mm addr s = Some (0, mm1, s\<lparr>vm := v2\<rparr>)"
      using f(1,4) Some mm(2) g(1) read_pte_of [OF g(4)] z p(1)
      by (simp add: do_pgfault_def la_def [symmetric] perm_def [symmetric])
    moreover have "pte_of (frames v2) r addr = pte_create (page2ppn page) (PTE_V OR perm)"
      using p(5) [OF r user_PDX1 [OF us]] la(1) by simp
    moreover have "pte_of (frames v2) r' la' = pte_of (frames (vm s)) r' la'"
      if "r' \<in> R" "PDX1 la' < 511" "(r', vpn la') \<noteq> (r, vpn addr)" for r' la'
      using p(5) [OF that(1,2)] same [OF that(1,2)] that(3) la(1) by auto
    ultimately show ?thesis
      using Some f(2,3) p(2-4) fo1(2)
      by (simp add: perm_def [symmetric])
        (intro exI [of _ mm1] exI [of _ "s\<lparr>vm := v2\<rparr>"] exI [of _ page] exI [of _ F'], auto)
  qed
qed

theorem do_pgfault_maps_page_witness:
  "\<exists>mm' s' page. do_pgfault example_mm 0x201234 \<lparr>vm = example_vm example_frames, pra_list = [], pra_vaddr = (\<lambda>_. 0),
       slots = (\<lambda>_ _. 0), max_swap_offset = 7\<rparr> = Some (0, mm', s') \<and> page \<in> {4..<10} \<and>
    pte_of (frames (vm s')) 0 0x201234 = pte_create (page2ppn page) (PTE_V OR PTE_U OR READ_WRITE)"
proof -
  let ?s = "\<lparr>vm = example_vm example_frames, pra_list = [], pra_vaddr = (\<lambda>_. 0), slots = (\<lambda>_ _. 0), max_swap_offset = 7\<rparr>"
  have fo: "forest (vm ?s) {0} {4..<10}" using example_forest by simp
  have d: "pgdir example_mm = Some 0" by (simp add: example_mm_def)
  have "frames (vm ?s) = example_frames" by (simp add: example_vm_def)
  then have "pte_of (frames (vm ?s)) 0 0x201234 = 0" by (simp add: example_pte vpn_def indices)
  moreover have "find (vma_has 0x201234) (mmap_list example_mm) = Some \<lparr>vm_start = 0x200000, vm_end = 0x204000, vm_flags = 3\<rparr>"
    by (simp add: example_mm_def vma_has_def)
  ultimately show ?thesis
    using do_pgfault_maps_page [OF example_mm_ok d fo, of "0x201234"] by (simp add: VM_WRITE_def) blast
qed

end
