(* ===== verification/Bitmap.thy ===== *)
theory Bitmap
  imports Prelude
begin

text \<open>
  \<^verbatim>\<open>kern/fs/sfs/bitmap.c\<close>: the block bitmap of the file system, an array of 32-bit words in which a
  set bit is a free block.  The answers of \<^verbatim>\<open>kmalloc\<close> are arguments.  The
  bitmap is shown to be a set of free indices with lowest-first allocation, which is the
  interface \<open>block_allocator\<close> the file system uses.
\<close>

definition WORD_BITS :: nat where "WORD_BITS = 32"

record bitmap =
  nbits :: u32
  nwords :: u32
  bmap :: "u32 list"

definition bit_mask :: "nat \<Rightarrow> u32" where
  "bit_mask offset = push_bit offset 1"

text \<open>The loop that clears the bits after the last block: \<open>overbits\<close> up to \<open>WORD_BITS\<close>.\<close>

definition clear_overbits :: "nat \<Rightarrow> u32 \<Rightarrow> u32" where
  "clear_overbits overbits w = fold (\<lambda>b w. w XOR bit_mask b) [overbits..<WORD_BITS] w"

definition bitmap_create :: "bool \<Rightarrow> bool \<Rightarrow> u32 \<Rightarrow> bitmap option option" where
  "bitmap_create mem_bitmap mem_map nb = do {
     kassert (nb \<noteq> 0 \<and> unat nb + WORD_BITS > unat nb);
     if \<not> mem_bitmap then Some None
     else do {
       let nw = (unat nb + WORD_BITS - 1) div WORD_BITS;
       if \<not> mem_map then Some None
       else do {
         let m = replicate nw (- 1);
         if unat nb \<noteq> nw * WORD_BITS
         then do {
           let ix = nw - 1;
           let overbits = unat nb - ix * WORD_BITS;
           kassert (unat nb div WORD_BITS = ix);
           kassert (overbits > 0 \<and> overbits < WORD_BITS);
           Some (Some \<lparr>nbits = nb, nwords = of_nat nw, bmap = m[ix := clear_overbits overbits (m ! ix)]\<rparr>)
         }
         else Some (Some \<lparr>nbits = nb, nwords = of_nat nw, bmap = m\<rparr>)
       }
     }
   }"

fun bitmap_scan :: "nat \<Rightarrow> u32 list \<Rightarrow> (nat \<times> nat) option option" where
  "bitmap_scan ix [] = Some None"
| "bitmap_scan ix (w # ws) =
     (if w \<noteq> 0
      then (case find (\<lambda>offset. w AND bit_mask offset \<noteq> 0) [0..<WORD_BITS] of
              Some offset \<Rightarrow> Some (Some (ix, offset))
            | None \<Rightarrow> None)
      else bitmap_scan (Suc ix) ws)"

definition bitmap_alloc :: "bitmap \<Rightarrow> (int \<times> u32 option \<times> bitmap) option" where
  "bitmap_alloc bm = do {
     r \<leftarrow> bitmap_scan 0 (take (unat (nwords bm)) (bmap bm));
     (case r of None \<Rightarrow> Some (- E_NO_MEM, None, bm)
      | Some (ix, offset) \<Rightarrow>
          Some (0, Some (of_nat (ix * WORD_BITS + offset)),
                bm\<lparr>bmap := (bmap bm)[ix := (bmap bm ! ix) XOR bit_mask offset]\<rparr>))
   }"

definition bitmap_translate :: "bitmap \<Rightarrow> u32 \<Rightarrow> (nat \<times> u32) option" where
  "bitmap_translate bm index = do {
     kassert (index < nbits bm);
     Some (unat index div WORD_BITS, bit_mask (unat index mod WORD_BITS))
   }"

definition bitmap_test :: "bitmap \<Rightarrow> u32 \<Rightarrow> bool option" where
  "bitmap_test bm index = do {
     (ix, mask) \<leftarrow> bitmap_translate bm index;
     Some (bmap bm ! ix AND mask \<noteq> 0)
   }"

definition bitmap_free :: "bitmap \<Rightarrow> u32 \<Rightarrow> bitmap option" where
  "bitmap_free bm index = do {
     (ix, mask) \<leftarrow> bitmap_translate bm index;
     kassert (bmap bm ! ix AND mask = 0);
     Some (bm\<lparr>bmap := (bmap bm)[ix := bmap bm ! ix OR mask]\<rparr>)
   }"

definition bitmap_getdata :: "bitmap \<Rightarrow> u32 list \<times> nat" where
  "bitmap_getdata bm = (bmap bm, 4 * unat (nwords bm))"

section \<open>The bitmap as a set of free indices\<close>

definition free_bits :: "u32 list \<Rightarrow> nat set" where
  "free_bits ws = {i. i < WORD_BITS * length ws \<and> bit (ws ! (i div WORD_BITS)) (i mod WORD_BITS)}"

definition bm_ok :: "bitmap \<Rightarrow> bool" where
  "bm_ok bm \<longleftrightarrow> length (bmap bm) = unat (nwords bm) \<and> unat (nbits bm) \<le> WORD_BITS * length (bmap bm) \<and>
     (\<forall>i\<in>free_bits (bmap bm). i < unat (nbits bm))"

definition bm_free :: "bitmap \<Rightarrow> nat set" where
  "bm_free bm = free_bits (bmap bm)"

lemma and_mask: "o' < 32 \<Longrightarrow> w AND bit_mask o' \<noteq> 0 \<longleftrightarrow> bit w o'" for w :: u32
  unfolding bit_eq_iff [of "w AND bit_mask o'" 0] by (auto simp: bit_mask_def bit_simps)

lemma bit_xor_mask: "n < 32 \<Longrightarrow> o' < 32 \<Longrightarrow> bit (w XOR bit_mask o') n \<longleftrightarrow> (if n = o' then \<not> bit w n else bit w n)" for w :: u32
  by (auto simp: bit_mask_def bit_simps)

lemma bit_or_mask: "n < 32 \<Longrightarrow> o' < 32 \<Longrightarrow> bit (w OR bit_mask o') n \<longleftrightarrow> n = o' \<or> bit w n" for w :: u32
  by (auto simp: bit_mask_def bit_simps)

lemma find_lowest:
  fixes w :: u32
  assumes "w \<noteq> 0"
  shows "\<exists>o'<32. find (\<lambda>offset. w AND bit_mask offset \<noteq> 0) [0..<WORD_BITS] = Some o' \<and> bit w o' \<and> (\<forall>j<o'. \<not> bit w j)"
proof -
  obtain n where n: "bit w n" "n < 32" using assms bit_eq_iff [of w 0] by (auto dest: bit_imp_le_length)
  then have "find (\<lambda>offset. w AND bit_mask offset \<noteq> 0) [0..<WORD_BITS] \<noteq> None"
    using and_mask [OF n(2), of w] by (auto simp: find_None_iff WORD_BITS_def)
  then obtain o' where f: "find (\<lambda>offset. w AND bit_mask offset \<noteq> 0) [0..<WORD_BITS] = Some o'" by auto
  then have "o' < 32" "w AND bit_mask o' \<noteq> 0" "\<forall>j<o'. w AND bit_mask j = 0"
    by (auto simp: find_Some_iff WORD_BITS_def)
  then show ?thesis
    using f and_mask [of _ w] by (intro exI [of _ o']) (auto, meson less_trans)
qed

lemma free_bits_Cons:
  "free_bits (w # ws) = {i. i < 32 \<and> bit w i} \<union> (\<lambda>i. i + 32) ` free_bits ws"
proof -
  have "i \<in> free_bits (w # ws) \<longleftrightarrow> i \<in> {i. i < 32 \<and> bit w i} \<union> (\<lambda>i. i + 32) ` free_bits ws" for i
  proof (cases "i < 32")
    case True
    then show ?thesis by (auto simp: free_bits_def WORD_BITS_def)
  next
    case False
    then obtain j where j: "i = j + 32" by (metis le_add_diff_inverse2 not_less)
    have "(j + 32) div 32 = Suc (j div 32)" "(j + 32) mod 32 = j mod 32" by auto
    then show ?thesis unfolding j by (auto simp: free_bits_def WORD_BITS_def)
  qed
  then show ?thesis by blast
qed

lemma bitmap_scan_spec:
  "bitmap_scan ix ws = (if free_bits ws = {} then Some None
     else Some (Some (ix + Min (free_bits ws) div 32, Min (free_bits ws) mod 32)))"
proof (induction ws arbitrary: ix)
  case Nil
  then show ?case by (simp add: free_bits_def)
next
  case (Cons w ws)
  show ?case
  proof (cases "w = 0")
    case True
    have fin: "finite (free_bits ws)" by (simp add: free_bits_def)
    have eq: "free_bits (0 # ws) = (\<lambda>i. i + 32) ` free_bits ws" by (simp add: free_bits_Cons)
    have "Min ((\<lambda>i. i + 32) ` free_bits ws) = Min (free_bits ws) + 32" if "free_bits ws \<noteq> {}"
      using that fin by (intro Min_eqI) (auto simp: Min_le_iff)
    then show ?thesis using True Cons.IH [of "Suc ix"] by (auto simp: eq)
  next
    case False
    then obtain o' where o': "o' < 32" "find (\<lambda>offset. w AND bit_mask offset \<noteq> 0) [0..<WORD_BITS] = Some o'"
      "bit w o'" "\<forall>j<o'. \<not> bit w j" using find_lowest by blast
    have "finite (free_bits (w # ws))" by (simp add: free_bits_def)
    then have "Min (free_bits (w # ws)) = o'"
      using o' unfolding free_bits_Cons by (intro Min_eqI) (auto simp: not_less [symmetric])
    moreover have "free_bits (w # ws) \<noteq> {}" using o' by (auto simp: free_bits_Cons)
    ultimately show ?thesis using False o' by simp
  qed
qed

lemma free_bits_update:
  assumes "i < WORD_BITS * length ws"
  shows "free_bits (ws[i div WORD_BITS := f (ws ! (i div WORD_BITS))]) =
    {j. j < WORD_BITS * length ws \<and> (if j div WORD_BITS = i div WORD_BITS then bit (f (ws ! (i div WORD_BITS))) (j mod WORD_BITS)
       else j \<in> free_bits ws)}"
proof -
  have "i div WORD_BITS < length ws" using assms by (simp add: WORD_BITS_def)
  then have "(ws[i div WORD_BITS := f (ws ! (i div WORD_BITS))] ! k) = (if k = i div WORD_BITS
      then f (ws ! (i div WORD_BITS)) else ws ! k)" for k
    by (simp add: nth_list_update)
  then show ?thesis unfolding free_bits_def by (simp del: nth_list_update)
qed

lemma div_mod_eq_iff: "j div WORD_BITS = i div WORD_BITS \<and> j mod WORD_BITS = i mod WORD_BITS \<longleftrightarrow> j = i"
  by (metis div_mult_mod_eq)

lemma mod_WORD_BITS: "n mod WORD_BITS < 32"
  by (simp add: WORD_BITS_def)

lemma free_bits_xor:
  assumes "i \<in> free_bits ws"
  shows "free_bits (ws[i div WORD_BITS := ws ! (i div WORD_BITS) XOR bit_mask (i mod WORD_BITS)]) = free_bits ws - {i}"
proof -
  have i: "i < WORD_BITS * length ws" "bit (ws ! (i div WORD_BITS)) (i mod WORD_BITS)" using assms by (auto simp: free_bits_def)
  have mem: "j \<in> free_bits ws - {i} \<longleftrightarrow> j < WORD_BITS * length ws \<and> (if j div WORD_BITS = i div WORD_BITS
      then bit (ws ! (i div WORD_BITS) XOR bit_mask (i mod WORD_BITS)) (j mod WORD_BITS) else j \<in> free_bits ws)" for j
  proof (cases "j div WORD_BITS = i div WORD_BITS")
    case True
    then have "j = i \<longleftrightarrow> j mod WORD_BITS = i mod WORD_BITS" using div_mod_eq_iff [of j i] by simp
    with True i(2) show ?thesis
      using bit_xor_mask [of "j mod WORD_BITS" "i mod WORD_BITS" "ws ! (i div WORD_BITS)"]
      by (auto simp: free_bits_def mod_WORD_BITS)
  qed (use i in \<open>auto simp: free_bits_def\<close>)
  show ?thesis unfolding free_bits_update [OF i(1), of "\<lambda>w. w XOR bit_mask (i mod WORD_BITS)"]
    by (rule set_eqI) (simp only: mem_Collect_eq mem)
qed

lemma free_bits_or:
  assumes "i < WORD_BITS * length ws"
  shows "free_bits (ws[i div WORD_BITS := ws ! (i div WORD_BITS) OR bit_mask (i mod WORD_BITS)]) = insert i (free_bits ws)"
proof -
  have mem: "j \<in> insert i (free_bits ws) \<longleftrightarrow> j < WORD_BITS * length ws \<and> (if j div WORD_BITS = i div WORD_BITS
      then bit (ws ! (i div WORD_BITS) OR bit_mask (i mod WORD_BITS)) (j mod WORD_BITS) else j \<in> free_bits ws)" for j
  proof (cases "j div WORD_BITS = i div WORD_BITS")
    case True
    then have "j = i \<longleftrightarrow> j mod WORD_BITS = i mod WORD_BITS" using div_mod_eq_iff [of j i] by simp
    with True assms show ?thesis
      using bit_or_mask [of "j mod WORD_BITS" "i mod WORD_BITS" "ws ! (i div WORD_BITS)"]
      by (auto simp: free_bits_def mod_WORD_BITS)
  qed (use assms in \<open>auto simp: free_bits_def\<close>)
  show ?thesis unfolding free_bits_update [OF assms, of "\<lambda>w. w OR bit_mask (i mod WORD_BITS)"]
    by (rule set_eqI) (simp only: mem_Collect_eq mem)
qed

lemma bitmap_alloc_ok:
  assumes "bm_ok bm" "bm_free bm \<noteq> {}"
  shows "\<exists>bm'. bitmap_alloc bm = Some (0, Some (of_nat (Min (bm_free bm))), bm') \<and> bm_ok bm' \<and>
    bm_free bm' = bm_free bm - {Min (bm_free bm)} \<and> nbits bm' = nbits bm"
proof -
  let ?m = "Min (bm_free bm)"
  have fin: "finite (bm_free bm)" by (simp add: bm_free_def free_bits_def)
  have m: "?m \<in> free_bits (bmap bm)" using Min_in [OF fin assms(2)] by (simp add: bm_free_def)
  let ?bm = "bm\<lparr>bmap := (bmap bm)[?m div 32 := (bmap bm ! (?m div 32)) XOR bit_mask (?m mod 32)]\<rparr>"
  have "bitmap_alloc bm = Some (0, Some (of_nat ?m), ?bm)"
    using assms by (simp add: bitmap_alloc_def bm_ok_def bitmap_scan_spec bm_free_def WORD_BITS_def
        del: of_nat_add of_nat_mult)
  moreover have fb: "bm_free ?bm = bm_free bm - {?m}"
    using free_bits_xor [OF m] by (simp add: bm_free_def WORD_BITS_def)
  moreover have "bm_ok ?bm" using assms(1) fb by (auto simp: bm_ok_def bm_free_def)
  ultimately show ?thesis by auto
qed

lemma bitmap_alloc_full: "bm_ok bm \<Longrightarrow> bm_free bm = {} \<Longrightarrow> bitmap_alloc bm = Some (- E_NO_MEM, None, bm)"
  by (simp add: bitmap_alloc_def bm_ok_def bitmap_scan_spec bm_free_def)

lemma bitmap_test_ok: "bm_ok bm \<Longrightarrow> i < nbits bm \<Longrightarrow> bitmap_test bm i = Some (unat i \<in> bm_free bm)"
  by (auto simp: bitmap_test_def bitmap_translate_def bm_free_def free_bits_def bm_ok_def and_mask WORD_BITS_def word_less_nat_alt)

lemma bitmap_free_ok:
  assumes "bm_ok bm" "i < nbits bm" "unat i \<notin> bm_free bm"
  shows "\<exists>bm'. bitmap_free bm i = Some bm' \<and> bm_ok bm' \<and> bm_free bm' = insert (unat i) (bm_free bm) \<and> nbits bm' = nbits bm"
proof -
  have i: "unat i < WORD_BITS * length (bmap bm)" using assms(1,2) by (auto simp: bm_ok_def word_less_nat_alt)
  let ?bm = "bm\<lparr>bmap := (bmap bm)[unat i div WORD_BITS := bmap bm ! (unat i div WORD_BITS) OR bit_mask (unat i mod WORD_BITS)]\<rparr>"
  have z: "bmap bm ! (unat i div WORD_BITS) AND bit_mask (unat i mod WORD_BITS) = 0"
    using assms(3) i and_mask [of "unat i mod WORD_BITS"] by (auto simp: bm_free_def free_bits_def WORD_BITS_def)
  have "bitmap_free bm i = Some ?bm"
    using assms(2) z by (simp add: bitmap_free_def bitmap_translate_def)
  moreover have fb: "bm_free ?bm = insert (unat i) (bm_free bm)"
    using free_bits_or [OF i] by (simp add: bm_free_def)
  moreover have "bm_ok ?bm" using assms(1,2) fb by (auto simp: bm_ok_def bm_free_def word_less_nat_alt)
  ultimately show ?thesis by auto
qed

lemma clear_overbits_bit:
  "overbits \<le> 32 \<Longrightarrow> n < 32 \<Longrightarrow> bit (clear_overbits overbits w) n \<longleftrightarrow> (if n < overbits then bit w n else \<not> bit w n)"
proof (induction "32 - overbits" arbitrary: overbits w)
  case 0
  then show ?case by (simp add: clear_overbits_def WORD_BITS_def)
next
  case (Suc k)
  then have "[overbits..<WORD_BITS] = overbits # [Suc overbits..<WORD_BITS]" by (simp add: WORD_BITS_def upt_conv_Cons)
  then have "clear_overbits overbits w = clear_overbits (Suc overbits) (w XOR bit_mask overbits)"
    by (simp add: clear_overbits_def)
  moreover have "k = 32 - Suc overbits" "Suc overbits \<le> 32" using Suc.hyps(2) by auto
  ultimately show ?case
    using Suc.hyps(1) [of "Suc overbits" "w XOR bit_mask overbits"] Suc.prems by (auto simp: bit_xor_mask less_Suc_eq)
qed

lemma bitmap_create_ok:
  assumes "nb \<noteq> 0"
  shows "\<exists>bm. bitmap_create True True nb = Some (Some bm) \<and> bm_ok bm \<and> bm_free bm = {0..<unat nb} \<and> nbits bm = nb"
proof -
  define n nw where "n = unat nb" and "nw = (n + 31) div 32"
  have n: "0 < n" "n < 2 ^ 32" using assms unsigned_less [of nb, where ?'a = nat] by (simp_all add: n_def unat_gt_0)
  then have nw: "unat (of_nat nw :: u32) = nw" "n \<le> 32 * nw" "0 < nw" by (auto simp: nw_def unat_of_nat)
  have nwd: "(unat nb + WORD_BITS - 1) div WORD_BITS = nw" by (simp add: n_def nw_def WORD_BITS_def)
  show ?thesis
  proof (cases "n = nw * 32")
    case True
    let ?bm = "\<lparr>nbits = nb, nwords = of_nat nw, bmap = replicate nw (- 1)\<rparr>"
    have "free_bits (replicate nw (- 1)) = {0..<n}"
      using True by (auto simp: free_bits_def WORD_BITS_def)
    then have "bm_ok ?bm" "bm_free ?bm = {0..<unat nb}"
      using nw by (auto simp: bm_ok_def bm_free_def WORD_BITS_def n_def)
    moreover have "bitmap_create True True nb = Some (Some ?bm)"
      using assms True unfolding bitmap_create_def nwd Let_def by (simp add: WORD_BITS_def flip: n_def)
    ultimately show ?thesis by auto
  next
    case False
    have split: "n = n div 32 * 32 + n mod 32" by simp
    have "(n + 31) div 32 = n div 32 + (n mod 32 + 31) div 32"
      by (subst split, subst add.assoc, subst div_mult_self3) simp_all
    moreover have "(n mod 32 + 31) div 32 = (if n mod 32 = 0 then 0 else 1)"
    proof (cases "n mod 32 = 0")
      case False
      then have "n mod 32 + 31 = 32 + (n mod 32 - 1)" "n mod 32 - 1 < 32" by simp_all
      then show ?thesis using False by simp
    qed simp
    ultimately have nwq: "nw = n div 32 + (if n mod 32 = 0 then 0 else 1)" by (simp add: nw_def)
    then have ix: "nw - 1 = n div 32" "n mod 32 > 0" using False split by (auto split: if_splits)
    have ov: "n - (nw - 1) * 32 = n mod 32" unfolding ix(1) by (simp add: minus_div_mult_eq_mod)
    let ?m = "(replicate nw (- 1))[n div 32 := clear_overbits (n mod 32) (- 1)]"
    let ?bm = "\<lparr>nbits = nb, nwords = of_nat nw, bmap = ?m\<rparr>"
    have lt: "n div 32 < nw" using ix(1) nw(3) by linarith
    have mem: "i \<in> free_bits ?m \<longleftrightarrow> i < n" for i
    proof -
      have "i < 32 * nw \<and> bit (?m ! (i div 32)) (i mod 32) \<longleftrightarrow>
          i < 32 * nw \<and> (i div 32 = n div 32 \<longrightarrow> i mod 32 < n mod 32)"
        using lt by (auto simp: nth_list_update clear_overbits_bit)
      also have "\<dots> \<longleftrightarrow> i < n"
      proof (cases "i div 32 = n div 32")
        case True
        have "i = n div 32 * 32 + i mod 32" using True by (metis div_mult_mod_eq)
        then have "i < n \<longleftrightarrow> i mod 32 < n mod 32" using split by linarith
        moreover have "i < 32 * nw" using True lt by (simp add: less_mult_imp_div_less div_less_iff_less_mult [symmetric])
        ultimately show ?thesis using True by simp
      next
        case ne: False
        have "i < 32 * nw \<longleftrightarrow> i div 32 < nw" by (simp add: div_less_iff_less_mult mult.commute)
        also have "\<dots> \<longleftrightarrow> i div 32 < n div 32" using ne ix nw(3) by auto
        also have "\<dots> \<longleftrightarrow> i < n" using ne div_le_mono [of i n 32] div_le_mono [of n i 32] by (meson le_neq_implies_less nat_less_le not_le)
        finally show ?thesis using ne by simp
      qed
      finally show ?thesis by (simp add: free_bits_def WORD_BITS_def)
    qed
    have "free_bits ?m = {0..<n}" by (rule set_eqI) (simp only: mem atLeastLessThan_iff, simp)
    then have fb: "free_bits ?m = {0..<unat nb}" by (simp add: n_def)
    have "bm_ok ?bm" "bm_free ?bm = {0..<unat nb}"
      using nw(1,2) unfolding bm_ok_def bm_free_def bitmap.simps fb by (simp_all add: WORD_BITS_def n_def)
    moreover have "bitmap_create True True nb = Some (Some ?bm)"
      using assms False ix ov lt unfolding bitmap_create_def nwd Let_def by (simp add: WORD_BITS_def flip: n_def)
    ultimately show ?thesis by auto
  qed
qed

section \<open>The contract of a block allocator\<close>

locale block_allocator =
  fixes ok :: "'b \<Rightarrow> bool" and avail :: "'b \<Rightarrow> nat set" and cap :: "'b \<Rightarrow> nat"
    and alloc :: "'b \<Rightarrow> (nat \<times> 'b) option" and release :: "nat \<Rightarrow> 'b \<Rightarrow> 'b option"
  assumes avail_cap: "ok b \<Longrightarrow> avail b \<subseteq> {..<cap b}"
    and alloc_some: "ok b \<Longrightarrow> avail b \<noteq> {} \<Longrightarrow>
      \<exists>i b'. alloc b = Some (i, b') \<and> i \<in> avail b \<and> ok b' \<and> avail b' = avail b - {i} \<and> cap b' = cap b"
    and alloc_none: "ok b \<Longrightarrow> avail b = {} \<Longrightarrow> alloc b = None"
    and release_ok: "ok b \<Longrightarrow> i < cap b \<Longrightarrow> i \<notin> avail b \<Longrightarrow>
      \<exists>b'. release i b = Some b' \<and> ok b' \<and> avail b' = insert i (avail b) \<and> cap b' = cap b"
begin

fun alloc_n :: "nat \<Rightarrow> 'b \<Rightarrow> (nat list \<times> 'b) option" where
  "alloc_n 0 b = Some ([], b)"
| "alloc_n (Suc n) b = alloc b \<bind> (\<lambda>(i, b1). alloc_n n b1 \<bind> (\<lambda>(is, b2). Some (i # is, b2)))"

lemma alloc_n_distinct:
  "ok b \<Longrightarrow> n \<le> card (avail b) \<Longrightarrow> finite (avail b) \<Longrightarrow>
   \<exists>is b'. alloc_n n b = Some (is, b') \<and> length is = n \<and> distinct is \<and> set is \<subseteq> avail b \<and> ok b' \<and>
     avail b' = avail b - set is \<and> cap b' = cap b"
proof (induction n arbitrary: b)
  case (Suc n)
  then have "avail b \<noteq> {}" by auto
  with alloc_some [OF Suc.prems(1)] obtain i b1 where
    a: "alloc b = Some (i, b1)" "i \<in> avail b" "ok b1" "avail b1 = avail b - {i}" "cap b1 = cap b" by blast
  have "n \<le> card (avail b1)" "finite (avail b1)" using a(2,4) Suc.prems(2,3) by auto
  from Suc.IH [OF a(3) this] obtain js b2 where
    "alloc_n n b1 = Some (js, b2)" "length js = n" "distinct js" "set js \<subseteq> avail b1" "ok b2"
    "avail b2 = avail b1 - set js" "cap b2 = cap b1" by blast
  with a show ?case by (auto intro!: exI [of _ "i # js"])
qed auto

lemma alloc_release:
  assumes "ok b" "alloc b = Some (i, b1)"
  shows "\<exists>b2. release i b1 = Some b2 \<and> ok b2 \<and> avail b2 = avail b"
proof -
  have ne: "avail b \<noteq> {}" using alloc_none [OF assms(1)] assms(2) by auto
  with alloc_some [OF assms(1)] assms(2) have
    a: "i \<in> avail b" "ok b1" "avail b1 = avail b - {i}" "cap b1 = cap b" by auto
  have "i < cap b1" using avail_cap [OF assms(1)] a(1,4) by auto
  from release_ok [OF a(2) this] a show ?thesis by auto
qed

end

definition bm_alloc :: "bitmap \<Rightarrow> (nat \<times> bitmap) option" where
  "bm_alloc bm = (case bitmap_alloc bm of Some (r, Some i, bm') \<Rightarrow> Some (unat i, bm') | _ \<Rightarrow> None)"

definition bm_release :: "nat \<Rightarrow> bitmap \<Rightarrow> bitmap option" where
  "bm_release i bm = bitmap_free bm (of_nat i)"

interpretation bma: block_allocator bm_ok bm_free "\<lambda>bm. unat (nbits bm)" bm_alloc bm_release
proof
  fix b i
  assume ok: "bm_ok b"
  show sub: "bm_free b \<subseteq> {..<unat (nbits b)}" using ok by (auto simp: bm_ok_def bm_free_def)
  show "bm_free b = {} \<Longrightarrow> bm_alloc b = None" using bitmap_alloc_full [OF ok] by (simp add: bm_alloc_def)
  show "\<exists>i b'. bm_alloc b = Some (i, b') \<and> i \<in> bm_free b \<and> bm_ok b' \<and> bm_free b' = bm_free b - {i} \<and>
      unat (nbits b') = unat (nbits b)" if ne: "bm_free b \<noteq> {}"
  proof -
    have m: "Min (bm_free b) \<in> bm_free b" using ne by (intro Min_in) (simp_all add: bm_free_def free_bits_def)
    then have "unat (of_nat (Min (bm_free b)) :: u32) = Min (bm_free b)"
      using sub unsigned_less [of "nbits b", where ?'a = nat] by (force simp: unat_of_nat)
    then show ?thesis using bitmap_alloc_ok [OF ok ne] m by (auto simp: bm_alloc_def)
  qed
  show "\<exists>b'. bm_release i b = Some b' \<and> bm_ok b' \<and> bm_free b' = insert i (bm_free b) \<and>
      unat (nbits b') = unat (nbits b)" if "i < unat (nbits b)" "i \<notin> bm_free b"
  proof -
    have "unat (of_nat i :: u32) = i"
      using that(1) unsigned_less [of "nbits b", where ?'a = nat] by (simp add: unat_of_nat)
    then show ?thesis
      using bitmap_free_ok [OF ok, of "of_nat i"] that by (auto simp: bm_release_def word_less_nat_alt)
  qed
qed

text \<open>
  C12. The bitmap is a set of free indices: a new bitmap has exactly the indices below \<open>nbits\<close>,
  padding bits excluded; allocation takes the lowest free index and fails with \<open>-E_NO_MEM\<close> exactly when none is
  left; \<open>bitmap_free\<close> adds an index in use and \<open>bitmap_test\<close> reads membership.
\<close>

theorem bitmap_refines_set:
  assumes "bm_ok bm" "i < nbits bm" "nb \<noteq> 0"
  shows "(\<exists>b0. bitmap_create True True nb = Some (Some b0) \<and> bm_ok b0 \<and> bm_free b0 = {0..<unat nb}) \<and>
    (if bm_free bm = {} then bitmap_alloc bm = Some (- E_NO_MEM, None, bm)
     else \<exists>bm'. bitmap_alloc bm = Some (0, Some (of_nat (Min (bm_free bm))), bm') \<and> bm_ok bm' \<and>
       bm_free bm' = bm_free bm - {Min (bm_free bm)}) \<and>
    bitmap_test bm i = Some (unat i \<in> bm_free bm) \<and>
    (if unat i \<in> bm_free bm then bitmap_free bm i = None
     else \<exists>bm'. bitmap_free bm i = Some bm' \<and> bm_ok bm' \<and> bm_free bm' = insert (unat i) (bm_free bm))"
proof -
  have "bitmap_free bm i = None" if "unat i \<in> bm_free bm"
    using bitmap_test_ok [OF assms(1,2)] that assms(2)
    by (auto simp: bitmap_test_def bitmap_free_def bitmap_translate_def)
  moreover note bitmap_test_ok [OF assms(1,2)] bitmap_alloc_full [OF assms(1)]
  ultimately show ?thesis
    using bitmap_create_ok [OF assms(3)] bitmap_alloc_ok [OF assms(1)] bitmap_free_ok [OF assms(1,2)]
    by auto
qed

theorem bitmap_refines_set_witness:
  "\<exists>bm'. bitmap_alloc \<lparr>nbits = 3, nwords = 1, bmap = [6]\<rparr> = Some (0, Some 1, bm') \<and> bm_free bm' = {2}"
proof -
  have "i \<in> free_bits [6] \<longleftrightarrow> i \<in> {1, 2}" for i
  proof (cases "i < 32")
    case True
    then have "i \<in> set [0..<32]" by simp
    then show ?thesis by (auto simp: free_bits_def WORD_BITS_def upt_rec bit_numeral_word_iff)
  qed (auto simp: free_bits_def WORD_BITS_def)
  then have f: "free_bits [6] = {1, 2}" by blast
  show ?thesis
    using bitmap_refines_set [of "\<lparr>nbits = 3, nwords = 1, bmap = [6]\<rparr>" 0 1] by (auto simp: bm_ok_def bm_free_def f WORD_BITS_def)
qed

text \<open>
  Successive allocations never collide: from a bitmap with at least \<open>n\<close> free indices, \<open>n\<close> calls of
  \<open>bitmap_alloc\<close> succeed with \<open>n\<close> distinct indices that were free, and exactly these are in use afterwards.
\<close>

lemma bitmap_allocs_distinct:
  assumes "bm_ok bm" "n \<le> card (bm_free bm)"
  shows "\<exists>is bm'. bma.alloc_n n bm = Some (is, bm') \<and> length is = n \<and> distinct is \<and> set is \<subseteq> bm_free bm \<and>
    bm_ok bm' \<and> bm_free bm' = bm_free bm - set is"
proof -
  have "finite (bm_free bm)" by (simp add: bm_free_def free_bits_def)
  from bma.alloc_n_distinct [OF assms this] show ?thesis by blast
qed

lemma bitmap_allocs_distinct_example:
  "\<exists>bm is bm'. bitmap_create True True 40 = Some (Some bm) \<and> bma.alloc_n 33 bm = Some (is, bm') \<and> distinct is \<and> length is = 33"
proof -
  obtain bm where bm: "bitmap_create True True 40 = Some (Some bm)" "bm_ok bm" "bm_free bm = {0..<40}"
    using bitmap_create_ok [of 40] by auto
  with bitmap_allocs_distinct [OF bm(2), of 33] show ?thesis by auto
qed

end
