(* ===== verification/Printfmt.thy ===== *)
theory Printfmt
  imports CString
begin

text \<open>
  \<^verbatim>\<open>libs/printfmt.c\<close>: the formatter behind \<^verbatim>\<open>cprintf\<close> and \<^verbatim>\<open>snprintf\<close>.  The output is the list of
  characters given to \<^verbatim>\<open>putch\<close>; the format string is a list whose end is the terminator; the
  variable arguments are a list of 64-bit values and strings, and reading a missing
  argument or one of the wrong kind has no value.  The main property is that
  \<^verbatim>\<open>strtol\<close> reads back what is printed.
\<close>

datatype va_val = VInt u64 | VStr "u8 list option"

definition bytes :: "string \<Rightarrow> u8 list" where
  "bytes s = map of_char s"

definition error_string :: "int \<Rightarrow> string option" where
  "error_string e =
     (if e = E_UNSPECIFIED then Some ''unspecified error''
      else if e = E_BAD_PROC then Some ''bad process''
      else if e = E_INVAL then Some ''invalid parameter''
      else if e = E_NO_MEM then Some ''out of memory''
      else if e = E_NO_FREE_PROC then Some ''out of processes''
      else if e = E_FAULT then Some ''segmentation fault''
      else if e = E_INVAL_ELF then Some ''invalid elf file''
      else if e = E_KILLED then Some ''process is killed''
      else if e = E_PANIC then Some ''panic failure''
      else if e = E_NO_DEV then Some ''no such device''
      else if e = E_NA_DEV then Some ''device not available''
      else if e = E_BUSY then Some ''device/file is busy''
      else if e = E_NOENT then Some ''no such file or directory''
      else if e = E_ISDIR then Some ''is a directory''
      else if e = E_NOTDIR then Some ''not a directory''
      else if e = E_XDEV then Some ''cross device link''
      else if e = E_UNIMP then Some ''unimplemented feature''
      else if e = E_SEEK then Some ''illegal seek''
      else if e = E_MAX_OPEN then Some ''too many files are open''
      else if e = E_EXISTS then Some ''file or directory already exists''
      else if e = E_NOTEMPTY then Some ''directory is not empty''
      else None)"

definition digit_char :: "nat \<Rightarrow> u8" where
  "digit_char d = (if d < 10 then of_nat (48 + d) else of_nat (87 + d))"

text \<open>\<open>printnum\<close>: \<open>None\<close> when the recursion never ends (a base below 2).\<close>

partial_function (option) printnum :: "u64 \<Rightarrow> nat \<Rightarrow> int \<Rightarrow> u8 \<Rightarrow> u8 list option" where
  "printnum num base width padc =
     (let result = num div of_nat base; md = unat num mod base in
      (if unat num \<ge> base then printnum result base (width - 1) padc
       else Some (replicate (nat (width - 1)) padc)) \<bind> (\<lambda>out. Some (out @ [digit_char md])))"

fun va_int :: "va_val list \<Rightarrow> (int \<times> va_val list) option" where
  "va_int (VInt v # vs) = Some (sint (ucast v :: u32), vs)"
| "va_int vs = None"

fun getuint :: "nat \<Rightarrow> va_val list \<Rightarrow> (u64 \<times> va_val list) option" where
  "getuint lflag (VInt v # vs) = Some (if lflag \<ge> 1 then v else ucast (ucast v :: u32), vs)"
| "getuint lflag vs = None"

fun getint :: "nat \<Rightarrow> va_val list \<Rightarrow> (u64 \<times> va_val list) option" where
  "getint lflag (VInt v # vs) = Some (if lflag \<ge> 1 then v else scast (ucast v :: u32), vs)"
| "getint lflag vs = None"

fun print_str :: "bool \<Rightarrow> u8 list \<Rightarrow> int \<Rightarrow> int \<Rightarrow> u8 list \<times> int" where
  "print_str alt [] precision width = ([], width)"
| "print_str alt (ch # p) precision width =
     (if ch \<noteq> 0 \<and> (precision < 0 \<or> precision - 1 \<ge> 0)
      then (let (out, w) = print_str alt p (if precision < 0 then precision else precision - 1) (width - 1)
            in ((if alt \<and> (ch < 32 \<or> ch > 126) then 63 else ch) # out, w))
      else ([], width))"

text \<open>The whole case \<^verbatim>\<open>%s\<close>: padding on the left, the characters, padding on the right.\<close>

definition put_string :: "u8 list option \<Rightarrow> int \<Rightarrow> int \<Rightarrow> u8 \<Rightarrow> bool \<Rightarrow> u8 list" where
  "put_string p0 width precision padc alt =
     (let p = (case p0 of None \<Rightarrow> bytes ''(null)'' | Some p \<Rightarrow> p);
          str = takeWhile (\<lambda>c. c \<noteq> 0) p;
          len = (if precision < 0 then length str else min (nat precision) (length str));
          padl = (if width > 0 \<and> padc \<noteq> 45 then nat (width - int len) else 0);
          width1 = (if width > 0 \<and> padc \<noteq> 45 then min (width - int len) 0 else width);
          (out, width2) = print_str alt p precision width1
      in replicate padl padc @ out @ replicate (nat width2) 32)"

fun width_digits :: "int \<Rightarrow> u8 list \<Rightarrow> int \<times> u8 list" where
  "width_digits precision [] = (precision, [])"
| "width_digits precision (c # fmt) =
     (if 48 \<le> c \<and> c \<le> 57 then width_digits (precision * 10 + int (unat c) - 48) fmt else (precision, c # fmt))"

lemma width_digits_length: "length (snd (width_digits p fmt)) \<le> length fmt"
  by (induction p fmt rule: width_digits.induct) auto

text \<open>The case \<^verbatim>\<open>%e\<close>; negating the least \<^verbatim>\<open>int\<close> is undefined.\<close>

definition put_error :: "int \<Rightarrow> u8 list option" where
  "put_error err0 =
     (if err0 = - (2 ^ 31) then None
      else let err = (if err0 < 0 then - err0 else err0) in
      (case (if err > MAXERROR then None else error_string err) of
         None \<Rightarrow> printnum (of_int err) 10 (- 1) 32 \<bind> (\<lambda>d. Some (bytes ''error '' @ d))
       | Some p \<Rightarrow> Some (bytes p)))"

text \<open>
  The cases of the switch that print: the output, whether the character is a known one (the
  \<^verbatim>\<open>default\<close> case prints a percent sign and goes back), and the arguments left.
\<close>

definition convert :: "u8 \<Rightarrow> u8 \<Rightarrow> int \<Rightarrow> int \<Rightarrow> nat \<Rightarrow> bool \<Rightarrow> va_val list \<Rightarrow> (u8 list \<times> bool \<times> va_val list) option" where
  "convert ch padc width precision lflag alt ap =
     (if ch = 99 then va_int ap \<bind> (\<lambda>(c, ap1). Some ([word_of_int c], True, ap1))
      else if ch = 101 then va_int ap \<bind> (\<lambda>(e, ap1). put_error e \<bind> (\<lambda>out. Some (out, True, ap1)))
      else if ch = 115 then
        (case ap of VStr p # ap1 \<Rightarrow> Some (put_string p width precision padc alt, True, ap1) | _ \<Rightarrow> None)
      else if ch = 100 then
        getint lflag ap \<bind> (\<lambda>(num, ap1).
          (if sint num < 0 then printnum (- num) 10 width padc \<bind> (\<lambda>d. Some (45 # d))
           else printnum num 10 width padc) \<bind> (\<lambda>out. Some (out, True, ap1)))
      else if ch = 117 then getuint lflag ap \<bind> (\<lambda>(num, ap1). printnum num 10 width padc \<bind> (\<lambda>out. Some (out, True, ap1)))
      else if ch = 111 then getuint lflag ap \<bind> (\<lambda>(num, ap1). printnum num 8 width padc \<bind> (\<lambda>out. Some (out, True, ap1)))
      else if ch = 112 then
        getuint 1 ap \<bind> (\<lambda>(num, ap1). printnum num 16 width padc \<bind> (\<lambda>out. Some (48 # 120 # out, True, ap1)))
      else if ch = 120 then getuint lflag ap \<bind> (\<lambda>(num, ap1). printnum num 16 width padc \<bind> (\<lambda>out. Some (out, True, ap1)))
      else if ch = 37 then Some ([37], True, ap)
      else Some ([37], False, ap))"

text \<open>
  One escape sequence: from \<^verbatim>\<open>reswitch\<close> with the padding character, width, precision and flags read so
  far; \<open>start\<close> is the format just after the \<^verbatim>\<open>%\<close>, to which an unknown sequence goes back.
  The result is the output, the rest of the format and the rest of the arguments.
\<close>

function directive ::
  "u8 list \<Rightarrow> u8 list \<Rightarrow> u8 \<Rightarrow> int \<Rightarrow> int \<Rightarrow> nat \<Rightarrow> bool \<Rightarrow> va_val list \<Rightarrow> (u8 list \<times> u8 list \<times> va_val list) option" where
  "directive start [] padc width precision lflag alt ap = Some ([37], start, ap)"
| "directive start (ch # fmt) padc width precision lflag alt ap =
     (if ch = 45 then directive start fmt 45 width precision lflag alt ap
      else if ch = 48 then directive start fmt 48 width precision lflag alt ap
      else if 49 \<le> ch \<and> ch \<le> 57 then
        (let pr = fst (width_digits (int (unat ch) - 48) fmt);
             fmt1 = snd (width_digits (int (unat ch) - 48) fmt) in
         if width < 0 then directive start fmt1 padc pr (- 1) lflag alt ap
         else directive start fmt1 padc width pr lflag alt ap)
      else if ch = 42 then
        (case va_int ap of
           None \<Rightarrow> None
         | Some (pr, ap1) \<Rightarrow>
             if width < 0 then directive start fmt padc pr (- 1) lflag alt ap1
             else directive start fmt padc width pr lflag alt ap1)
      else if ch = 46 then directive start fmt padc (if width < 0 then 0 else width) precision lflag alt ap
      else if ch = 35 then directive start fmt padc width precision lflag True ap
      else if ch = 108 then directive start fmt padc width precision (lflag + 1) alt ap
      else convert ch padc width precision lflag alt ap \<bind> (\<lambda>(out, known, ap1).
             Some (out, if known then fmt else start, ap1)))"
  by pat_completeness auto
termination
  by (relation "measure (\<lambda>(_, fmt, _). length fmt)")
     (simp_all add: le_imp_less_Suc width_digits_length)

lemma directive_length:
  "directive start fmt padc width precision lflag alt ap = Some (out, fmt', ap') \<Longrightarrow> length fmt \<le> length start \<Longrightarrow>
   length fmt' \<le> length start"
proof (induction start fmt padc width precision lflag alt ap rule: directive.induct)
  case (2 start ch fmt padc width precision lflag alt ap)
  have wd: "length (snd (width_digits (int (unat ch) - 48) fmt)) \<le> length start"
    using width_digits_length [of "int (unat ch) - 48" fmt] 2(11) by simp
  show ?case
    using 2 wd
    by (simp add: bind_Some_iff Let_def split: if_split_asm prod.split_asm option.split_asm) auto
qed simp

function vprintfmt :: "u8 list \<Rightarrow> va_val list \<Rightarrow> u8 list option" where
  "vprintfmt [] ap = Some []"
| "vprintfmt (ch # fmt) ap =
     (if ch \<noteq> 37 then if ch = 0 then Some [] else vprintfmt fmt ap \<bind> (\<lambda>out. Some (ch # out))
      else case directive fmt fmt 32 (- 1) (- 1) 0 False ap of
             None \<Rightarrow> None
           | Some (d, fmt', ap') \<Rightarrow> vprintfmt fmt' ap' \<bind> (\<lambda>out. Some (d @ out)))"
  by pat_completeness auto
termination
  by (relation "measure (\<lambda>(fmt, _). length fmt)") (auto dest: directive_length)

definition printfmt :: "u8 list \<Rightarrow> va_val list \<Rightarrow> u8 list option" where
  "printfmt fmt ap = vprintfmt fmt ap"

record sprintbuf =
  sb_buf :: nat
  sb_ebuf :: nat
  sb_cnt :: int

definition sprintputch :: "u8 \<Rightarrow> sprintbuf \<times> mem \<Rightarrow> sprintbuf \<times> mem" where
  "sprintputch ch = (\<lambda>(b, m).
     let b1 = b\<lparr>sb_cnt := sb_cnt b + 1\<rparr> in
     if sb_buf b1 < sb_ebuf b1 then (b1\<lparr>sb_buf := sb_buf b1 + 1\<rparr>, m(sb_buf b1 := ch)) else (b1, m))"

definition vsnprintf :: "nat \<Rightarrow> nat \<Rightarrow> u8 list \<Rightarrow> va_val list \<Rightarrow> mem \<Rightarrow> (int \<times> mem) option" where
  "vsnprintf str sz fmt ap m =
     (let b = \<lparr>sb_buf = str, sb_ebuf = str + sz - 1, sb_cnt = 0\<rparr> in
      if str = 0 \<or> sb_buf b > sb_ebuf b then Some (- E_INVAL, m)
      else do {
        out \<leftarrow> vprintfmt fmt ap;
        let (b1, m1) = fold sprintputch out (b, m);
        Some (sb_cnt b1, m1(sb_buf b1 := 0))
      })"

definition snprintf :: "nat \<Rightarrow> nat \<Rightarrow> u8 list \<Rightarrow> va_val list \<Rightarrow> mem \<Rightarrow> (int \<times> mem) option" where
  "snprintf str sz fmt ap m = vsnprintf str sz fmt ap m"

section \<open>Numbers\<close>

definition of_digits :: "nat \<Rightarrow> nat list \<Rightarrow> nat" where
  "of_digits base ds = foldl (\<lambda>a d. a * base + d) 0 ds"

lemma printnum_digits:
  assumes "2 \<le> base" "base \<le> 16"
  shows "\<exists>ds. printnum num base width padc = Some (replicate (nat (width - int (length ds))) padc @ map digit_char ds) \<and>
    ds \<noteq> [] \<and> (\<forall>d \<in> set ds. d < base) \<and> of_digits base ds = unat num"
proof (induction "unat num" arbitrary: num width rule: less_induct)
  case less
  have ub: "unat (of_nat base :: u64) = base"
    using assms by (simp add: unat_of_nat)
  have dv: "unat (num div of_nat base) = unat num div base"
    by (simp add: unat_div_distrib ub)
  show ?case
  proof (cases "unat num \<ge> base")
    case True
    have "unat (num div of_nat base) < unat num"
      unfolding dv using True assms(1) by simp
    from less [OF this, of "width - 1"] obtain ds where ds:
      "printnum (num div of_nat base) base (width - 1) padc =
         Some (replicate (nat (width - 1 - int (length ds))) padc @ map digit_char ds)"
      "ds \<noteq> []" "\<forall>d \<in> set ds. d < base" "of_digits base ds = unat num div base"
      unfolding dv by blast
    have "printnum num base width padc =
        Some (replicate (nat (width - int (length (ds @ [unat num mod base])))) padc @ map digit_char (ds @ [unat num mod base]))"
      using True by (subst printnum.simps) (simp add: ds(1) Let_def algebra_simps)
    moreover have "of_digits base (ds @ [unat num mod base]) = unat num"
      using ds(4) by (simp add: of_digits_def)
    ultimately show ?thesis
      using ds(3) assms(1) by (intro exI [of _ "ds @ [unat num mod base]"]) auto
  next
    case False
    then have "printnum num base width padc =
        Some (replicate (nat (width - int (length [unat num]))) padc @ map digit_char [unat num])"
      by (subst printnum.simps) (simp add: Let_def)
    then show ?thesis
      using False by (intro exI [of _ "[unat num]"]) (simp add: of_digits_def)
  qed
qed

lemma unat_digit_char: "d < 16 \<Longrightarrow> unat (digit_char d) = (if d < 10 then 48 + d else 87 + d)"
  unfolding digit_char_def
  by (simp only: if_distrib [of unat] unat_of_nat) (simp add: take_bit_nat_def)

lemma digit_val_digit_char: "d < 16 \<Longrightarrow> digit_val (digit_char d) = Some d"
  unfolding digit_val_def Let_def by (simp add: unat_digit_char)

lemma strtol_digits_of_digits:
  assumes "cstr m s (map digit_char ds)" "\<forall>d \<in> set ds. d < base" "base \<le> 16"
  shows "strtol_digits m s base (of_nat v) =
    Some (of_nat (foldl (\<lambda>a d. a * base + d) v ds), s + length ds)"
  using assms
proof (induction ds arbitrary: s v)
  case Nil
  then show ?case by (subst strtol_digits.simps) (simp add: digit_val_def)
next
  case (Cons d ds)
  have "digit_val (m s) = Some d"
    using Cons.prems digit_val_digit_char [of d] by simp
  then have "strtol_digits m s base (of_nat v) = strtol_digits m (s + 1) base (of_nat (v * base + d))"
    using Cons.prems(2) by (subst strtol_digits.simps) simp
  also have "\<dots> = Some (of_nat (foldl (\<lambda>a d. a * base + d) (v * base + d) ds), s + 1 + length ds)"
    by (rule Cons.IH) (use Cons.prems in auto)
  finally show ?case by simp
qed

lemma skip_blanks_none: "m s \<noteq> 32 \<Longrightarrow> m s \<noteq> 9 \<Longrightarrow> skip_blanks m s = Some s"
  by (subst skip_blanks.simps) simp

lemma digit_char_neq:
  assumes "d < 16"
  shows "digit_char d \<noteq> 32 \<and> digit_char d \<noteq> 9 \<and> digit_char d \<noteq> 43 \<and> digit_char d \<noteq> 45 \<and> digit_char d \<noteq> 120 \<and>
    digit_char d \<noteq> 0"
  using unat_digit_char [OF assms] assms by (auto split: if_split_asm)

lemma strtol_number:
  assumes "cstr m s (map digit_char ds)" "ds \<noteq> []" "\<forall>d \<in> set ds. d < base" "base \<le> 16" "base \<noteq> 0"
  shows "strtol m s base = Some (of_nat (of_digits base ds), s + length ds)"
proof -
  from assms(2) obtain d ds' where ds: "ds = d # ds'" by (cases ds) auto
  have ms: "m s = digit_char d" and d: "d < 16"
    using assms(1,3,4) ds by auto
  have nx: "m (s + 1) \<noteq> 120"
    using assms(1,3,4) ds by (cases ds') (auto simp: digit_char_neq)
  have "strtol_digits m s base 0 = Some (of_nat (of_digits base ds), s + length ds)"
    using strtol_digits_of_digits [OF assms(1,3,4), of 0] by (simp add: of_digits_def)
  then show ?thesis
    using digit_char_neq [OF d] nx assms(5) by (simp add: strtol_def ms skip_blanks_none)
qed

lemma strtol_negative:
  assumes "cstr m s (45 # map digit_char ds)" "ds \<noteq> []" "\<forall>d \<in> set ds. d < 10"
  shows "strtol m s 10 = Some (- of_nat (of_digits 10 ds), s + 1 + length ds)"
proof -
  have "strtol_digits m (s + 1) 10 0 = Some (of_nat (of_digits 10 ds), s + 1 + length ds)"
    using strtol_digits_of_digits [of m "s + 1" ds 10 0] assms by (simp add: of_digits_def)
  then show ?thesis
    using assms(1) by (simp add: strtol_def skip_blanks_none)
qed

lemma digit_chars_nonzero: "\<forall>d \<in> set ds. d < b \<Longrightarrow> b \<le> 16 \<Longrightarrow> 0 \<notin> set (map digit_char ds)"
  using digit_char_neq by fastforce

lemma printnum_round_trip:
  assumes "2 \<le> b" "b \<le> 16"
  shows "\<exists>out. printnum v b (- 1) 32 = Some out \<and> 0 \<notin> set out \<and>
    (\<forall>m p. cstr m p out \<longrightarrow> strtol m p b = Some (v, p + length out))"
proof -
  obtain ds where ds: "printnum v b (- 1) 32 = Some (map digit_char ds)" "ds \<noteq> []"
    "\<forall>d \<in> set ds. d < b" "of_digits b ds = unat v"
    using printnum_digits [OF assms, of v "- 1" 32] by auto
  have "strtol m p b = Some (v, p + length (map digit_char ds))" if "cstr m p (map digit_char ds)" for m p
    using strtol_number [OF that ds(2,3)] assms by (simp add: ds(4))
  then show ?thesis
    using digit_chars_nonzero [OF ds(3) assms(2)] ds(1) by auto
qed

lemma printnum_negative_round_trip:
  "\<exists>out. printnum (- v) 10 (- 1) 32 = Some out \<and> 0 \<notin> set out \<and>
    (\<forall>m p. cstr m p (45 # out) \<longrightarrow> strtol m p 10 = Some (v, p + 1 + length out))"
proof -
  obtain ds where ds: "printnum (- v) 10 (- 1) 32 = Some (map digit_char ds)" "ds \<noteq> []"
    "\<forall>d \<in> set ds. d < 10" "of_digits 10 ds = unat (- v)"
    using printnum_digits [of 10 "- v" "- 1" 32] by auto
  have "strtol m p 10 = Some (v, p + 1 + length (map digit_char ds))" if "cstr m p (45 # map digit_char ds)" for m p
    using strtol_negative [OF that ds(2,3)] by (simp add: ds(4))
  then show ?thesis
    using digit_chars_nonzero [OF ds(3)] ds(1) by auto
qed

text \<open>
  C14. What \<^verbatim>\<open>%lld\<close>, \<^verbatim>\<open>%llx\<close> and \<^verbatim>\<open>%llo\<close> print for a 64-bit value, \<^verbatim>\<open>strtol\<close> reads back in base 10, 16 and 8:
  the formatter returns for every value, the printed text is a string (it holds no terminator),
  and from any memory that holds it \<^verbatim>\<open>strtol\<close> returns the value, including the least signed one,
  and stops at the end of the text.
\<close>

theorem printf_strtol_round_trip:
  assumes "(conv, base) \<in> {(''%lld'', 10), (''%llx'', 16), (''%llo'', 8)}"
  shows "\<exists>out. vprintfmt (bytes conv) [VInt v] = Some out \<and> 0 \<notin> set out \<and>
    (\<forall>m p. cstr m p out \<longrightarrow> strtol m p base = Some (v, p + length out))"
proof -
  consider (dec) "conv = ''%lld''" "base = 10" "sint v \<ge> 0" | (neg) "conv = ''%lld''" "base = 10" "sint v < 0"
    | (hex) "conv = ''%llx''" "base = 16" | (octal) "conv = ''%llo''" "base = 8"
    using assms by force
  then show ?thesis
  proof cases
    case dec
    then show ?thesis
      using printnum_round_trip [of 10 v] by (auto simp: bytes_def convert_def)
  next
    case neg
    from printnum_negative_round_trip [of v] obtain out where out: "printnum (- v) 10 (- 1) 32 = Some out" "0 \<notin> set out"
      "\<And>m p. cstr m p (45 # out) \<Longrightarrow> strtol m p 10 = Some (v, p + 1 + length out)" by blast
    show ?thesis
      using neg out by (intro exI [of _ "45 # out"]) (simp add: bytes_def convert_def)
  next
    case hex
    then show ?thesis
      using printnum_round_trip [of 16 v] by (auto simp: bytes_def convert_def)
  next
    case octal
    then show ?thesis
      using printnum_round_trip [of 8 v] by (auto simp: bytes_def convert_def)
  qed
qed

theorem printf_strtol_round_trip_witness:
  "\<exists>out. vprintfmt (bytes ''%lld'') [VInt (- 42)] = Some out \<and> 0 \<notin> set out \<and>
    (\<forall>m p. cstr m p out \<longrightarrow> strtol m p 10 = Some (- 42, p + length out))"
  using printf_strtol_round_trip [of "''%lld''" 10 "- 42"] by simp

section \<open>Printing into a buffer\<close>

lemma fold_sprintputch:
  assumes "fold sprintputch out (b, m) = (b', m')" "sb_buf b \<le> sb_ebuf b"
  shows "sb_cnt b' = sb_cnt b + int (length out) \<and> sb_buf b' = sb_buf b + min (length out) (sb_ebuf b - sb_buf b) \<and>
    (\<forall>a. m' a = (if sb_buf b \<le> a \<and> a < sb_buf b' then out ! (a - sb_buf b) else m a))"
  using assms
proof (induction out arbitrary: b m)
  case (Cons c out)
  show ?case
  proof (cases "sb_buf b < sb_ebuf b")
    case True
    define b1 where "b1 = b\<lparr>sb_cnt := sb_cnt b + 1, sb_buf := sb_buf b + 1\<rparr>"
    have st: "sprintputch c (b, m) = (b1, m(sb_buf b := c))"
      using True by (simp add: sprintputch_def b1_def)
    have fd: "fold sprintputch out (b1, m(sb_buf b := c)) = (b', m')"
      using Cons.prems(1) st by simp
    have *: "sb_cnt b' = sb_cnt b1 + int (length out) \<and> sb_buf b' = sb_buf b1 + min (length out) (sb_ebuf b1 - sb_buf b1) \<and>
        (\<forall>a. m' a = (if sb_buf b1 \<le> a \<and> a < sb_buf b' then out ! (a - sb_buf b1) else (m(sb_buf b := c)) a))"
      by (rule Cons.IH [OF fd]) (use True in \<open>simp add: b1_def\<close>)
    have "m' a = (if sb_buf b \<le> a \<and> a < sb_buf b' then (c # out) ! (a - sb_buf b) else m a)" for a
      using * by (cases "a = sb_buf b") (auto simp: b1_def nth_Cons')
    then show ?thesis using * True by (simp add: b1_def)
  next
    case False
    have "sb_buf b = sb_ebuf b" using False Cons.prems(2) by simp
    moreover have "fold sprintputch out (b\<lparr>sb_cnt := sb_cnt b + 1\<rparr>, m) = (b', m')"
      using Cons.prems(1) False by (simp add: sprintputch_def [of c])
    from Cons.IH [OF this] have "sb_cnt b' = sb_cnt b + 1 + int (length out)"
      "sb_buf b' = sb_buf b + min (length out) (sb_ebuf b - sb_buf b)"
      "\<And>a. m' a = (if sb_buf b \<le> a \<and> a < sb_buf b' then out ! (a - sb_buf b) else m a)"
      using Cons.prems(2) by simp_all
    ultimately show ?thesis by (auto split: if_split_asm)
  qed
qed auto

lemma cstr_of_nth:
  "0 \<notin> set xs \<Longrightarrow> (\<And>i. i < length xs \<Longrightarrow> m (p + i) = xs ! i) \<Longrightarrow> m (p + length xs) = 0 \<Longrightarrow> cstr m p xs"
proof (induction xs arbitrary: p)
  case (Cons x xs)
  have "cstr m (p + 1) xs"
    by (rule Cons.IH) (use Cons.prems(1,3) Cons.prems(2) [of "Suc _"] in auto)
  then show ?case using Cons.prems(1) Cons.prems(2) [of 0] by auto
qed simp

text \<open>
  C15. \<^verbatim>\<open>snprintf\<close> into a buffer of \<open>sz > 0\<close> bytes returns the length of the whole output, leaves in the buffer
  the longest prefix of it that fits, terminated, and writes no byte outside the buffer; without a buffer
  it returns \<^verbatim>\<open>-E_INVAL\<close> and writes nothing.
\<close>

theorem snprintf_bounded:
  assumes "vprintfmt fmt ap = Some out" "0 \<notin> set out" "0 < str" "0 < sz"
  shows "(\<exists>m'. snprintf str sz fmt ap m = Some (int (length out), m') \<and> cstr m' str (take (sz - 1) out) \<and>
      (\<forall>a. a \<notin> {str..<str + sz} \<longrightarrow> m' a = m a)) \<and>
    snprintf str 0 fmt ap m = Some (- E_INVAL, m) \<and> snprintf 0 sz fmt ap m = Some (- E_INVAL, m)"
proof -
  define b where "b = \<lparr>sb_buf = str, sb_ebuf = str + sz - 1, sb_cnt = 0\<rparr>"
  obtain b' m1 where f: "fold sprintputch out (b, m) = (b', m1)" by fastforce
  have F: "sb_cnt b' = int (length out)" "sb_buf b' = str + min (length out) (sz - 1)"
    "\<And>a. m1 a = (if str \<le> a \<and> a < sb_buf b' then out ! (a - str) else m a)"
    using fold_sprintputch [OF f] assms(4) by (simp_all add: b_def)
  have le: "\<not> str + sz - Suc 0 < str" using assms(4) by linarith
  have "snprintf str sz fmt ap m = Some (int (length out), m1(sb_buf b' := 0))"
    using assms f F(1) le by (simp add: snprintf_def vsnprintf_def b_def)
  moreover have "cstr (m1(sb_buf b' := 0)) str (take (sz - 1) out)"
    by (rule cstr_of_nth) (use assms(2) F in \<open>auto simp: min.commute dest: in_set_takeD\<close>)
  moreover have "(m1(sb_buf b' := 0)) a = m a" if "a \<notin> {str..<str + sz}" for a
    using that F assms(4) by auto
  ultimately show ?thesis
    using assms(3) by (auto simp: snprintf_def vsnprintf_def)
qed

theorem snprintf_bounded_witness:
  "\<exists>m'. snprintf 100 4 (bytes ''abcde'') [] (\<lambda>_. 7) = Some (5, m') \<and> cstr m' 100 (bytes ''abc'') \<and> m' 104 = 7"
  using snprintf_bounded [of "bytes ''abcde''" "[]" "bytes ''abcde''" 100 4 "\<lambda>_. 7"]
  by (simp add: bytes_def) auto

end
