(* ===== verification/Disk.thy ===== *)
theory Disk
  imports CString "HOL-Library.Signed_Division"
begin

text \<open>
  The block layer: I/O buffers (\<^verbatim>\<open>kern/fs/iobuf.c\<close>), the memory disk
  (\<^verbatim>\<open>kern/driver/ramdisk.c\<close>), the disk interface (\<^verbatim>\<open>kern/driver/ide.c\<close>) and the
  driver of the root disk (\<^verbatim>\<open>kern/fs/devs/dev_disk0.c\<close>), on the byte-addressed kernel memory of theory
  CString: a memory disk is a region of this memory, at the address the linker gives the image.  Sizes
  and offsets are words of the source's width.  A lock taken twice by the same thread never returns, which
  is the value \<open>None\<close>.
\<close>

section \<open>I/O buffers\<close>

record iobuf =
  io_base :: nat
  io_offset :: u64
  io_len :: u64
  io_resid :: u64

definition iobuf_used :: "iobuf \<Rightarrow> u64" where
  "iobuf_used iob = io_len iob - io_resid iob"

definition iobuf_init :: "nat \<Rightarrow> u64 \<Rightarrow> u64 \<Rightarrow> iobuf" where
  "iobuf_init base len offset = \<lparr>io_base = base, io_offset = offset, io_len = len, io_resid = len\<rparr>"

definition iobuf_skip :: "iobuf \<Rightarrow> u64 \<Rightarrow> iobuf option" where
  "iobuf_skip iob n = do {
     kassert (io_resid iob \<ge> n);
     Some (iob\<lparr>io_base := io_base iob + unat n, io_offset := io_offset iob + n, io_resid := io_resid iob - n\<rparr>)
   }"

text \<open>The results of the two move functions: return code, number of bytes moved, buffer and memory.\<close>

definition iobuf_move :: "iobuf \<Rightarrow> nat \<Rightarrow> u64 \<Rightarrow> bool \<Rightarrow> mem \<Rightarrow> (int \<times> u64 \<times> iobuf \<times> mem) option" where
  "iobuf_move iob data len m2b m = do {
     let alen = (if io_resid iob > len then len else io_resid iob);
     (iob', m', len') \<leftarrow>
       (if alen > 0 then do {
          let (src, dst) = (if m2b then (data, io_base iob) else (io_base iob, data));
          let m' = memmove dst src (unat alen) m;
          iob' \<leftarrow> iobuf_skip iob alen;
          Some (iob', m', len - alen)
        } else Some (iob, m, len));
     Some (if len' = 0 then 0 else - E_NO_MEM, alen, iob', m')
   }"

definition iobuf_move_zeros :: "iobuf \<Rightarrow> u64 \<Rightarrow> mem \<Rightarrow> (int \<times> u64 \<times> iobuf \<times> mem) option" where
  "iobuf_move_zeros iob len m = do {
     let alen = (if io_resid iob > len then len else io_resid iob);
     (iob', m', len') \<leftarrow>
       (if alen > 0 then do {
          let m' = memset (io_base iob) 0 (unat alen) m;
          iob' \<leftarrow> iobuf_skip iob alen;
          Some (iob', m', len - alen)
        } else Some (iob, m, len));
     Some (if len' = 0 then 0 else - E_NO_MEM, alen, iob', m')
   }"

section \<open>The memory disk and the disk interface\<close>

definition SECTSIZE :: u64 where "SECTSIZE = 512"
definition SWAP_DEV_NO :: nat where "SWAP_DEV_NO = 1"
definition DISK0_DEV_NO :: nat where "DISK0_DEV_NO = 2"
definition MAX_IDE :: nat where "MAX_IDE = 4"
definition MAX_NSECS :: u64 where "MAX_NSECS = 128"
definition MAX_DISK_NSECS :: u64 where "MAX_DISK_NSECS = 0x10000000"

text \<open>Both function pointers of a valid device are those of the memory disk.\<close>

record ide_device =
  ide_valid :: bool
  ide_sets :: u32
  ide_size :: u32
  iobase :: u64

record blk_st =
  kmem :: mem
  ide_devices :: "nat \<Rightarrow> ide_device"
  disk0_buffer :: nat
  disk0_locked :: bool

definition check_initrd :: "u64 \<Rightarrow> u64 \<Rightarrow> bool" where
  "check_initrd initrd_begin initrd_end \<longleftrightarrow> initrd_begin \<noteq> initrd_end"

definition ramdisk_read :: "ide_device \<Rightarrow> u64 \<Rightarrow> nat \<Rightarrow> u64 \<Rightarrow> mem \<Rightarrow> int \<times> mem" where
  "ramdisk_read dev secno dst nsecs m =
     (let n = min nsecs (ucast (ide_size dev) - secno)
      in (0, memcpy dst (unat (iobase dev + secno * SECTSIZE)) (unat (n * SECTSIZE)) m))"

definition ramdisk_write :: "ide_device \<Rightarrow> u64 \<Rightarrow> nat \<Rightarrow> u64 \<Rightarrow> mem \<Rightarrow> int \<times> mem" where
  "ramdisk_write dev secno src nsecs m =
     (let n = min nsecs (ucast (ide_size dev) - secno)
      in (0, memcpy (unat (iobase dev + secno * SECTSIZE)) src (unat (n * SECTSIZE)) m))"

text \<open>The images are linked into the kernel; \<open>img\<close> gives the bounds of the image of each device number.\<close>

definition ramdisk_init :: "(nat \<Rightarrow> (u64 \<times> u64) option) \<Rightarrow> nat \<Rightarrow> ide_device option" where
  "ramdisk_init img devno =
     (case img devno of None \<Rightarrow> None
      | Some (b, e) \<Rightarrow>
          Some (if check_initrd b e
                then \<lparr>ide_valid = True, ide_sets = - 1, ide_size = ucast (e - b) div 512, iobase = b\<rparr>
                else \<lparr>ide_valid = False, ide_sets = 0, ide_size = 0, iobase = 0\<rparr>))"

definition ide_device_valid :: "nat \<Rightarrow> 'a blk_st_scheme \<Rightarrow> bool" where
  "ide_device_valid ideno s \<longleftrightarrow> ideno < MAX_IDE \<and> ide_valid (ide_devices s ideno)"

definition ide_device_size :: "nat \<Rightarrow> 'a blk_st_scheme \<Rightarrow> u64" where
  "ide_device_size ideno s = (if ide_device_valid ideno s then ucast (ide_size (ide_devices s ideno)) else 0)"

definition ide_init :: "u64 \<times> u64 \<Rightarrow> u64 \<times> u64 \<Rightarrow> 'a blk_st_scheme \<Rightarrow> 'a blk_st_scheme option" where
  "ide_init swap_img sfs_img s = do {
     let img = (\<lambda>n. if n = SWAP_DEV_NO then Some swap_img else if n = DISK0_DEV_NO then Some sfs_img else None);
     let s0 = s\<lparr>ide_devices := (\<lambda>i. if i < MAX_IDE then (ide_devices s i)\<lparr>ide_valid := False\<rparr> else ide_devices s i)\<rparr>;
     d1 \<leftarrow> ramdisk_init img SWAP_DEV_NO;
     let s1 = s0\<lparr>ide_devices := (ide_devices s0)(SWAP_DEV_NO := d1)\<rparr>;
     kassert (ide_device_valid SWAP_DEV_NO s1);
     d2 \<leftarrow> ramdisk_init img DISK0_DEV_NO;
     let s2 = s1\<lparr>ide_devices := (ide_devices s1)(DISK0_DEV_NO := d2)\<rparr>;
     kassert (ide_device_valid DISK0_DEV_NO s2);
     Some s2
   }"

definition ide_read_secs :: "nat \<Rightarrow> u32 \<Rightarrow> nat \<Rightarrow> u64 \<Rightarrow> 'a blk_st_scheme \<Rightarrow> (int \<times> 'a blk_st_scheme) option" where
  "ide_read_secs ideno secno dst nsecs s = do {
     kassert (nsecs \<le> MAX_NSECS \<and> ide_device_valid ideno s);
     kassert (ucast secno < MAX_DISK_NSECS \<and> ucast secno + nsecs \<le> MAX_DISK_NSECS);
     let (r, m) = ramdisk_read (ide_devices s ideno) (ucast secno) dst nsecs (kmem s);
     Some (r, s\<lparr>kmem := m\<rparr>)
   }"

definition ide_write_secs :: "nat \<Rightarrow> u32 \<Rightarrow> nat \<Rightarrow> u64 \<Rightarrow> 'a blk_st_scheme \<Rightarrow> (int \<times> 'a blk_st_scheme) option" where
  "ide_write_secs ideno secno src nsecs s = do {
     kassert (nsecs \<le> MAX_NSECS \<and> ide_device_valid ideno s);
     kassert (ucast secno < MAX_DISK_NSECS \<and> ucast secno + nsecs \<le> MAX_DISK_NSECS);
     let (r, m) = ramdisk_write (ide_devices s ideno) (ucast secno) src nsecs (kmem s);
     Some (r, s\<lparr>kmem := m\<rparr>)
   }"

section \<open>The driver of the root disk\<close>

definition DISK0_BLKSIZE :: u64 where "DISK0_BLKSIZE = 4096"
definition DISK0_BUFSIZE :: u64 where "DISK0_BUFSIZE = 4 * DISK0_BLKSIZE"
definition DISK0_BLK_NSECT :: u32 where "DISK0_BLK_NSECT = 8"

definition lock_disk0 :: "'a blk_st_scheme \<Rightarrow> 'a blk_st_scheme option" where
  "lock_disk0 s = (if disk0_locked s then None else Some (s\<lparr>disk0_locked := True\<rparr>))"

definition unlock_disk0 :: "'a blk_st_scheme \<Rightarrow> 'a blk_st_scheme" where
  "unlock_disk0 s = s\<lparr>disk0_locked := False\<rparr>"

definition disk0_read_blks_nolock :: "u32 \<Rightarrow> u32 \<Rightarrow> 'a blk_st_scheme \<Rightarrow> 'a blk_st_scheme option" where
  "disk0_read_blks_nolock blkno nblks s = do {
     let sectno = blkno * DISK0_BLK_NSECT;
     let nsecs = nblks * DISK0_BLK_NSECT;
     (r, s') \<leftarrow> ide_read_secs DISK0_DEV_NO sectno (disk0_buffer s) (ucast nsecs) s;
     if r \<noteq> 0 then None else Some s'
   }"

definition disk0_write_blks_nolock :: "u32 \<Rightarrow> u32 \<Rightarrow> 'a blk_st_scheme \<Rightarrow> 'a blk_st_scheme option" where
  "disk0_write_blks_nolock blkno nblks s = do {
     let sectno = blkno * DISK0_BLK_NSECT;
     let nsecs = nblks * DISK0_BLK_NSECT;
     (r, s') \<leftarrow> ide_write_secs DISK0_DEV_NO sectno (disk0_buffer s) (ucast nsecs) s;
     if r \<noteq> 0 then None else Some s'
   }"

partial_function (option) disk0_loop ::
  "bool \<Rightarrow> u32 \<Rightarrow> u64 \<Rightarrow> iobuf \<Rightarrow> 'a blk_st_scheme \<Rightarrow> (iobuf \<times> 'a blk_st_scheme) option" where
  "disk0_loop wr blkno resid iob s =
     (if resid = 0 then Some (iob, s)
      else if wr then do {
        (r, copied, iob1, m1) \<leftarrow> iobuf_move iob (disk0_buffer s) DISK0_BUFSIZE False (kmem s);
        kassert (copied \<noteq> 0 \<and> copied \<le> resid \<and> copied mod DISK0_BLKSIZE = 0);
        let nblks = ucast (copied div DISK0_BLKSIZE);
        s1 \<leftarrow> disk0_write_blks_nolock blkno nblks (s\<lparr>kmem := m1\<rparr>);
        disk0_loop wr (blkno + nblks) (resid - copied) iob1 s1
      } else do {
        let alen = (if DISK0_BUFSIZE > resid then resid else DISK0_BUFSIZE);
        let nblks = ucast (alen div DISK0_BLKSIZE);
        s1 \<leftarrow> disk0_read_blks_nolock blkno nblks s;
        (r, copied, iob1, m1) \<leftarrow> iobuf_move iob (disk0_buffer s1) alen True (kmem s1);
        kassert (copied = alen \<and> copied mod DISK0_BLKSIZE = 0);
        disk0_loop wr (blkno + nblks) (resid - copied) iob1 (s1\<lparr>kmem := m1\<rparr>)
      })"

declare disk0_loop.simps [code]

text \<open>\<open>offset\<close> is signed, so its division truncates towards zero; the block numbers are 32-bit words.\<close>

definition disk0_io :: "u64 \<Rightarrow> iobuf \<Rightarrow> bool \<Rightarrow> 'a blk_st_scheme \<Rightarrow> (int \<times> iobuf \<times> 'a blk_st_scheme) option" where
  "disk0_io d_blocks iob wr s =
     (let offset = sint (io_offset iob); resid = io_resid iob;
          blkno = word_of_int (offset sdiv 4096) :: u32;
          nblks = ucast (resid div DISK0_BLKSIZE) :: u32
      in if offset smod 4096 \<noteq> 0 \<or> resid mod DISK0_BLKSIZE \<noteq> 0 then Some (- E_INVAL, iob, s)
         else if ucast (blkno + nblks) > d_blocks then Some (- E_INVAL, iob, s)
         else if nblks = 0 then Some (0, iob, s)
         else do {
           s1 \<leftarrow> lock_disk0 s;
           (iob', s2) \<leftarrow> disk0_loop wr blkno resid iob s1;
           Some (0, iob', unlock_disk0 s2)
         })"

definition disk0_open :: "u32 \<Rightarrow> int" where "disk0_open open_flags = 0"
definition disk0_close :: int where "disk0_close = 0"
definition disk0_ioctl :: "int \<Rightarrow> int" where "disk0_ioctl op = - E_UNIMP"

text \<open>\<open>kbuf\<close> is the answer of \<^verbatim>\<open>kmalloc\<close>; the result is the number of blocks of the device.\<close>

definition disk0_device_init :: "nat option \<Rightarrow> 'a blk_st_scheme \<Rightarrow> (u64 \<times> u64 \<times> 'a blk_st_scheme) option" where
  "disk0_device_init kbuf s = do {
     kassert (ide_device_valid DISK0_DEV_NO s);
     let d_blocks = ide_device_size DISK0_DEV_NO s div ucast DISK0_BLK_NSECT;
     b \<leftarrow> kbuf;
     Some (d_blocks, DISK0_BLKSIZE, s\<lparr>disk0_locked := False, disk0_buffer := b\<rparr>)
   }"

section \<open>Transfers between memory and disk\<close>

text \<open>
  \<open>disk_at s b n\<close>: the root disk is valid and its image of \<open>n\<close> sectors lies at the address \<open>b\<close>, inside the
  64-bit address space and within the size the interface supports.
\<close>

definition disk_at :: "'a blk_st_scheme \<Rightarrow> nat \<Rightarrow> nat \<Rightarrow> bool" where
  "disk_at s b n \<longleftrightarrow> ide_valid (ide_devices s DISK0_DEV_NO) \<and> b = unat (iobase (ide_devices s DISK0_DEV_NO)) \<and>
     n = unat (ide_size (ide_devices s DISK0_DEV_NO)) \<and> b + n * 512 < 2 ^ 64 \<and> n \<le> 0x10000000"

definition region :: "nat \<Rightarrow> nat \<Rightarrow> nat set" where
  "region a n = {a..<a + n}"

lemma in_region [simp]: "x \<in> region a n \<longleftrightarrow> a \<le> x \<and> x < a + n"
  by (simp add: region_def)

lemma region_disjoint_mono:
  "region a n \<inter> X = {} \<Longrightarrow> a \<le> b \<Longrightarrow> b + k \<le> a + n \<Longrightarrow> region b k \<inter> X = {}"
  by (auto simp: region_def disjoint_iff)

lemma region_subset: "a \<le> b \<Longrightarrow> b + k \<le> a + n \<Longrightarrow> region b k \<subseteq> region a n"
  by (auto simp: region_def)

lemma disk_at_kmem [simp]: "disk_at (s\<lparr>kmem := m\<rparr>) b n = disk_at s b n"
  "disk_at (s\<lparr>disk0_locked := x\<rparr>) b n = disk_at s b n"
  by (simp_all add: disk_at_def)

lemma ucast_of_nat_u32: "n < 2 ^ 32 \<Longrightarrow> ucast (of_nat n :: u32) = (of_nat n :: u64)"
  by (simp add: unsigned_of_nat take_bit_nat_eq_self)

lemma unat_of_nat_u64: "n < 2 ^ 64 \<Longrightarrow> unat (of_nat n :: u64) = n"
  by (simp add: unsigned_of_nat take_bit_nat_eq_self)

lemma of_nat_mono_u64: "m \<le> n \<Longrightarrow> n < 2 ^ 64 \<Longrightarrow> (of_nat m :: u64) \<le> of_nat n"
  by (simp add: word_le_nat_alt unat_of_nat_u64)

text \<open>The sectors of \<open>j\<close> whole blocks: nothing wraps and nothing is cut off at the end of the disk.\<close>

lemma disk_sectors:
  assumes "disk_at s b n" "(blk + j) * 8 \<le> n" "0 < j" "j \<le> 4"
  shows "ucast (of_nat j * DISK0_BLK_NSECT) \<le> MAX_NSECS" (is ?A)
    "ucast (of_nat blk * DISK0_BLK_NSECT) < MAX_DISK_NSECS" (is ?B)
    "ucast (of_nat blk * DISK0_BLK_NSECT) + ucast (of_nat j * DISK0_BLK_NSECT) \<le> MAX_DISK_NSECS" (is ?C)
    "unat (iobase (ide_devices s DISK0_DEV_NO) + ucast (of_nat blk * DISK0_BLK_NSECT) * SECTSIZE) = b + blk * 4096" (is ?D)
    "unat (min (ucast (of_nat j * DISK0_BLK_NSECT)) (ucast (ide_size (ide_devices s DISK0_DEV_NO))
        - ucast (of_nat blk * DISK0_BLK_NSECT)) * SECTSIZE) = j * 4096" (is ?E)
proof -
  have n: "n \<le> 0x10000000" and b: "b + n * 512 < 2 ^ 64" and bb: "b = unat (iobase (ide_devices s DISK0_DEV_NO))"
    and nn: "n = unat (ide_size (ide_devices s DISK0_DEV_NO))"
    using assms(1) by (simp_all add: disk_at_def)
  have bl: "blk * 8 < n" "blk * 8 + j * 8 \<le> n" using assms(2,3) by simp_all
  have j: "ucast (of_nat j * DISK0_BLK_NSECT :: u32) = (of_nat (j * 8) :: u64)"
    using ucast_of_nat_u32 [of "j * 8"] assms(4) by (simp add: DISK0_BLK_NSECT_def)
  have k: "ucast (of_nat blk * DISK0_BLK_NSECT :: u32) = (of_nat (blk * 8) :: u64)"
    using ucast_of_nat_u32 [of "blk * 8"] bl n by (simp add: DISK0_BLK_NSECT_def)
  have s: "ucast (ide_size (ide_devices s DISK0_DEV_NO)) = (of_nat n :: u64)"
    by (simp add: nn)
  show ?A using assms(4) unfolding j MAX_NSECS_def
    by (simp add: word_le_nat_alt unat_of_nat_u64 [of "j * 8", simplified])
  show ?B using bl n unfolding k MAX_DISK_NSECS_def
    by (simp add: word_less_nat_alt unat_of_nat_u64 [of "blk * 8", simplified])
  have "of_nat (blk * 8) + of_nat (j * 8) = (of_nat (blk * 8 + j * 8) :: u64)" by simp
  moreover have "unat (of_nat (blk * 8 + j * 8) :: u64) = blk * 8 + j * 8" using bl n by (intro unat_of_nat_u64) simp
  ultimately show ?C using bl n unfolding j k MAX_DISK_NSECS_def by (simp only: word_le_nat_alt) simp
  have "iobase (ide_devices s DISK0_DEV_NO) + of_nat (blk * 8) * SECTSIZE = of_nat (b + blk * 4096)"
    by (simp add: bb SECTSIZE_def)
  then show ?D unfolding k using b bl unat_of_nat_u64 [of "b + blk * 4096"] by simp
  have "of_nat n - of_nat (blk * 8) = (of_nat (n - blk * 8) :: u64)" using bl by (simp add: of_nat_diff)
  moreover have "(of_nat (j * 8) :: u64) \<le> of_nat (n - blk * 8)"
    using bl n by (intro of_nat_mono_u64) auto
  ultimately have "min (of_nat (j * 8)) (of_nat n - of_nat (blk * 8)) = (of_nat (j * 8) :: u64)"
    by (simp only: min_absorb1)
  moreover have "of_nat (j * 8) * SECTSIZE = (of_nat (j * 4096) :: u64)" by (simp add: SECTSIZE_def)
  ultimately show ?E unfolding j k s using assms(4) unat_of_nat_u64 [of "j * 4096"] by (simp only:) simp
qed

lemma disk0_write_blks_eq:
  assumes "disk_at s b n" "(blk + j) * 8 \<le> n" "0 < j" "j \<le> 4"
  shows "disk0_write_blks_nolock (of_nat blk) (of_nat j) s =
     Some (s\<lparr>kmem := memcpy (b + blk * 4096) (disk0_buffer s) (j * 4096) (kmem s)\<rparr>)"
  using disk_sectors [OF assms] assms(1)
  by (simp add: disk0_write_blks_nolock_def ide_write_secs_def ramdisk_write_def Let_def ide_device_valid_def
      disk_at_def MAX_IDE_def DISK0_DEV_NO_def)

lemma disk0_read_blks_eq:
  assumes "disk_at s b n" "(blk + j) * 8 \<le> n" "0 < j" "j \<le> 4"
  shows "disk0_read_blks_nolock (of_nat blk) (of_nat j) s =
     Some (s\<lparr>kmem := memcpy (disk0_buffer s) (b + blk * 4096) (j * 4096) (kmem s)\<rparr>)"
  using disk_sectors [OF assms] assms(1)
  by (simp add: disk0_read_blks_nolock_def ide_read_secs_def ramdisk_read_def Let_def ide_device_valid_def
      disk_at_def MAX_IDE_def DISK0_DEV_NO_def)

lemma iobuf_move_eq:
  assumes "0 < len" "len \<le> io_resid iob"
  shows "iobuf_move iob data len m2b m = Some (0, len,
    iob\<lparr>io_base := io_base iob + unat len, io_offset := io_offset iob + len, io_resid := io_resid iob - len\<rparr>,
    if m2b then memmove (io_base iob) data (unat len) m else memmove data (io_base iob) (unat len) m)"
  using assms by (auto simp: iobuf_move_def iobuf_skip_def Let_def)

lemma iobuf_move_all:
  assumes "0 < io_resid iob" "io_resid iob \<le> len"
  shows "\<exists>r. iobuf_move iob data len m2b m = Some (r, io_resid iob,
    iob\<lparr>io_base := io_base iob + unat (io_resid iob), io_offset := io_offset iob + io_resid iob, io_resid := 0\<rparr>,
    if m2b then memmove (io_base iob) data (unat (io_resid iob)) m else memmove data (io_base iob) (unat (io_resid iob)) m)"
proof -
  have "(if io_resid iob > len then len else io_resid iob) = io_resid iob" using assms(2) by (simp add: leD)
  then show ?thesis using assms(1) by (auto simp: iobuf_move_def iobuf_skip_def Let_def)
qed

text \<open>The size of one transfer of the loop: at most four blocks.\<close>

lemma disk0_chunk:
  assumes "unat resid = k * 4096" "0 < k" "j = min k 4" "copied = (of_nat (j * 4096) :: u64)"
  shows "unat copied = j * 4096" "copied \<noteq> 0" "0 < copied" "copied \<le> resid" "copied mod DISK0_BLKSIZE = 0"
    "ucast (copied div DISK0_BLKSIZE) = (of_nat j :: u32)" "unat (resid - copied) = (k - j) * 4096"
    "copied = (if DISK0_BUFSIZE > resid then resid else DISK0_BUFSIZE)" "0 < j" "j \<le> 4" "resid \<noteq> 0"
proof -
  show j: "0 < j" "j \<le> 4" using assms by simp_all
  show c: "unat copied = j * 4096" using j assms(4) unat_of_nat_u64 [of "j * 4096"] by simp
  show nz: "copied \<noteq> 0" "0 < copied" using c j by (auto simp: word_less_nat_alt)
  show le: "copied \<le> resid" using c assms by (simp add: word_le_nat_alt)
  show "copied mod DISK0_BLKSIZE = 0"
    using c by (simp add: word_unat_eq_iff unat_mod_distrib DISK0_BLKSIZE_def)
  have "unat (copied div DISK0_BLKSIZE) = j" using c by (simp add: unat_div_distrib DISK0_BLKSIZE_def)
  then have "of_nat (unat (copied div DISK0_BLKSIZE)) = (of_nat j :: u64)" by simp
  then have "copied div DISK0_BLKSIZE = of_nat j" by simp
  then show "ucast (copied div DISK0_BLKSIZE) = (of_nat j :: u32)"
    using j(2) by (simp add: unsigned_of_nat take_bit_nat_eq_self)
  show "unat (resid - copied) = (k - j) * 4096" using unat_sub [OF le] c assms by (simp add: diff_mult_distrib)
  show "copied = (if DISK0_BUFSIZE > resid then resid else DISK0_BUFSIZE)"
    using c assms(1,3) by (auto simp: DISK0_BUFSIZE_def DISK0_BLKSIZE_def word_less_nat_alt word_unat_eq_iff min_def)
  show "resid \<noteq> 0" using assms(1,2) by auto
qed

definition advance :: "iobuf \<Rightarrow> u64 \<Rightarrow> iobuf" where
  "advance iob n = iob\<lparr>io_base := io_base iob + unat n, io_offset := io_offset iob + n, io_resid := io_resid iob - n\<rparr>"

lemma advance_simps [simp]:
  "io_base (advance iob n) = io_base iob + unat n" "io_resid (advance iob n) = io_resid iob - n"
  "io_len (advance iob n) = io_len iob"
  by (simp_all add: advance_def)

lemma advance_advance:
  assumes "j \<le> n" shows "advance (advance iob j) (n - j) = advance iob n"
proof -
  have "unat j + unat (n - j) = unat n" using unat_sub [OF assms] assms by (simp add: word_le_nat_alt)
  then show ?thesis by (simp add: advance_def)
qed

lemma advance_0 [simp]: "advance iob 0 = iob"
  by (simp add: advance_def)

lemma disk0_write_step:
  assumes "disk_at s b n" "(blk + k) * 8 \<le> n" "unat resid = k * 4096" "0 < k" "j = min k 4" "copied = (of_nat (j * 4096) :: u64)"
    "io_resid iob = resid"
  shows "disk0_loop True (of_nat blk) resid iob s =
    disk0_loop True (of_nat (blk + j)) (resid - copied) (advance iob copied)
      (s\<lparr>kmem := memcpy (b + blk * 4096) (disk0_buffer s) (j * 4096) (memmove (disk0_buffer s) (io_base iob) (j * 4096) (kmem s))\<rparr>)"
proof -
  note ch = disk0_chunk [OF assms(3-6)]
  have mv: "\<exists>r. iobuf_move iob (disk0_buffer s) DISK0_BUFSIZE False (kmem s) =
      Some (r, copied, advance iob copied, memmove (disk0_buffer s) (io_base iob) (unat copied) (kmem s))"
  proof (cases "DISK0_BUFSIZE > resid")
    case True
    then show ?thesis using iobuf_move_all [of iob DISK0_BUFSIZE "disk0_buffer s" False "kmem s"] ch(3,8) assms(7) by (simp add: advance_def)
  next
    case False
    then show ?thesis
      using iobuf_move_eq [of DISK0_BUFSIZE iob] ch assms(7) by (simp add: advance_def DISK0_BUFSIZE_def DISK0_BLKSIZE_def)
  qed
  then obtain r where "iobuf_move iob (disk0_buffer s) DISK0_BUFSIZE False (kmem s) =
      Some (r, copied, advance iob copied, memmove (disk0_buffer s) (io_base iob) (j * 4096) (kmem s))"
    using ch(1) by auto
  moreover have "(blk + j) * 8 \<le> n" using assms(2,5) by simp
  moreover have "disk0_write_blks_nolock (of_nat blk) (of_nat j) (s\<lparr>kmem := m\<rparr>) =
      Some (s\<lparr>kmem := memcpy (b + blk * 4096) (disk0_buffer s) (j * 4096) m\<rparr>)" for m
    using disk0_write_blks_eq [of "s\<lparr>kmem := m\<rparr>" b n blk j] ch(9,10) assms(1) calculation(2) by simp
  ultimately show ?thesis using ch(2-6,9-) by (subst disk0_loop.simps) (simp add: Let_def)
qed

lemma disk0_read_step:
  assumes "disk_at s b n" "(blk + k) * 8 \<le> n" "unat resid = k * 4096" "0 < k" "j = min k 4" "copied = (of_nat (j * 4096) :: u64)"
    "io_resid iob = resid"
  shows "disk0_loop False (of_nat blk) resid iob s =
    disk0_loop False (of_nat (blk + j)) (resid - copied) (advance iob copied)
      (s\<lparr>kmem := memmove (io_base iob) (disk0_buffer s) (j * 4096) (memcpy (disk0_buffer s) (b + blk * 4096) (j * 4096) (kmem s))\<rparr>)"
proof -
  note ch = disk0_chunk [OF assms(3-6)]
  have "(blk + j) * 8 \<le> n" using assms(2,5) by simp
  moreover have "iobuf_move iob d copied True m = Some (0, copied, advance iob copied, memmove (io_base iob) d (j * 4096) m)" for d m
    using iobuf_move_eq [of copied iob] ch assms(7) by (simp add: advance_def)
  ultimately show ?thesis using ch(2-6,9-) assms(1) disk0_read_blks_eq [of s b n blk j]
    by (subst disk0_loop.simps) (simp add: ch(8) [symmetric] Let_def)
qed

text \<open>
  \<open>apart s iob k b n\<close>: the caller's buffer of \<open>k\<close> blocks, the driver's buffer and the disk image do not overlap.
\<close>

definition apart :: "'a blk_st_scheme \<Rightarrow> iobuf \<Rightarrow> nat \<Rightarrow> nat \<Rightarrow> nat \<Rightarrow> bool" where
  "apart s iob k b n \<longleftrightarrow> region (io_base iob) (k * 4096) \<inter> region b (n * 512) = {} \<and>
     region (io_base iob) (k * 4096) \<inter> region (disk0_buffer s) 16384 = {} \<and>
     region (disk0_buffer s) 16384 \<inter> region b (n * 512) = {}"

lemma apart_advance:
  assumes "apart s iob k b n" "j \<le> k" "unat c = j * 4096"
  shows "apart (s\<lparr>kmem := m\<rparr>) (advance iob c) (k - j) b n"
proof -
  have "region (io_base (advance iob c)) ((k - j) * 4096) \<subseteq> region (io_base iob) (k * 4096)"
    using assms(2,3) by (intro region_subset) (auto simp: diff_mult_distrib)
  then show ?thesis using assms(1) unfolding apart_def by (simp del: advance_simps) blast
qed

text \<open>One transfer through the driver's buffer copies \<open>j\<close> blocks; \<open>D\<close> is its destination, \<open>S\<close> its source.\<close>

lemma bounce_spec:
  assumes "region S n \<inter> region B m = {}" "region D n \<inter> region B m = {}" "region S n \<inter> region D n = {}" "n \<le> m"
    "a \<notin> region B m"
  shows "memcpy D B n (memmove B S n mm) a = (if a \<in> region D n then mm (S + (a - D)) else mm a)" (is ?W)
    "memmove D B n (memcpy B S n mm) a = (if a \<in> region D n then mm (S + (a - D)) else mm a)" (is ?R)
proof -
  have 1: "\<not> (B < D \<and> D < B + n)" if "0 < n"
  proof
    assume "B < D \<and> D < B + n"
    then have "D \<in> region D n \<inter> region B m" using that assms(4) by simp
    then show False using assms(2) by simp
  qed
  have 2: "\<not> (S < B \<and> B < S + n)" if "0 < n"
  proof
    assume "S < B \<and> B < S + n"
    then have "B \<in> region S n \<inter> region B m" using that assms(4) by simp
    then show False using assms(1) by simp
  qed
  have mv: "memmove d s n mm = (\<lambda>a. if a \<in> {d..<d + n} then mm (s + (a - d)) else mm a)" for d s mm
    by (simp add: memmove_def copy_up_spec copy_down_spec)
  have c1: "memcpy D B n mm = memmove D B n mm" "memcpy B S n mm = memmove B S n mm" for mm
    using 1 2 by (cases "n = 0"; simp add: memmove_def memcpy_def copy_up_spec copy_down_spec)+
  show ?W ?R using assms(4,5) by (auto simp: c1 mv)
qed

lemma disk0_loop_spec:
  assumes "disk_at s b n" "(blk + k) * 8 \<le> n" "unat resid = k * 4096" "io_resid iob = resid" "apart s iob k b n"
    "S = (if wr then io_base iob else b + blk * 4096)" "D = (if wr then b + blk * 4096 else io_base iob)"
  shows "\<exists>m'. disk0_loop wr (of_nat blk) resid iob s = Some (advance iob resid, s\<lparr>kmem := m'\<rparr>) \<and>
    (\<forall>a. a \<notin> region (disk0_buffer s) 16384 \<longrightarrow>
       m' a = (if a \<in> region D (k * 4096) then kmem s (S + (a - D)) else kmem s a))"
  using assms
proof (induction k arbitrary: blk resid iob s S D rule: less_induct)
  case (less k)
  show ?case
  proof (cases "k = 0")
    case True
    then have "resid = 0" using less.prems(3) by (simp add: unat_eq_zero)
    then show ?thesis using True by (subst disk0_loop.simps) (auto intro!: exI [of _ "kmem s"])
  next
    case False
    define j where "j = min k 4"
    define c :: u64 where "c = of_nat (j * 4096)"
    have k: "0 < k" using False by simp
    note ch = disk0_chunk [OF less.prems(3) k j_def c_def]
    have jk: "j \<le> k" by (simp add: j_def)
    define m1 where "m1 = (if wr then memcpy D (disk0_buffer s) (j * 4096) (memmove (disk0_buffer s) S (j * 4096) (kmem s))
      else memmove D (disk0_buffer s) (j * 4096) (memcpy (disk0_buffer s) S (j * 4096) (kmem s)))"
    have step: "disk0_loop wr (of_nat blk) resid iob s =
        disk0_loop wr (of_nat (blk + j)) (resid - c) (advance iob c) (s\<lparr>kmem := m1\<rparr>)"
      using disk0_write_step [OF less.prems(1-3) k j_def c_def less.prems(4)]
        disk0_read_step [OF less.prems(1-3) k j_def c_def less.prems(4)]
      by (cases wr) (simp_all add: m1_def less.prems(6,7))
    have dsk: "region (b + blk * 4096) (k * 4096) \<subseteq> region b (n * 512)"
      using less.prems(2) by (intro region_subset) auto
    have dj: "region S (k * 4096) \<inter> region D (k * 4096) = {}" "region S (k * 4096) \<inter> region (disk0_buffer s) 16384 = {}"
        "region D (k * 4096) \<inter> region (disk0_buffer s) 16384 = {}"
      using less.prems(5) dsk unfolding apart_def less.prems(6,7) by (auto split: if_splits)
    have sub: "region x (j * 4096) \<subseteq> region x (k * 4096)" for x using jk by (intro region_subset) auto
    have m1: "m1 a = (if a \<in> region D (j * 4096) then kmem s (S + (a - D)) else kmem s a)"
      if "a \<notin> region (disk0_buffer s) 16384" for a
    proof -
      have "region S (j * 4096) \<inter> region (disk0_buffer s) 16384 = {}" "region D (j * 4096) \<inter> region (disk0_buffer s) 16384 = {}"
        "region S (j * 4096) \<inter> region D (j * 4096) = {}" using dj sub by blast+
      from bounce_spec [OF this _ that] show ?thesis using ch(10) by (simp add: m1_def)
    qed
    obtain m' where m': "disk0_loop wr (of_nat (blk + j)) (resid - c) (advance iob c) (s\<lparr>kmem := m1\<rparr>) =
        Some (advance (advance iob c) (resid - c), s\<lparr>kmem := m1, kmem := m'\<rparr>)"
      and m'_spec: "\<And>a. a \<notin> region (disk0_buffer s) 16384 \<Longrightarrow>
        m' a = (if a \<in> region (D + j * 4096) ((k - j) * 4096) then m1 (S + j * 4096 + (a - (D + j * 4096))) else m1 a)"
    proof -
      have "S + j * 4096 = (if wr then io_base (advance iob c) else b + (blk + j) * 4096)"
        "D + j * 4096 = (if wr then b + (blk + j) * 4096 else io_base (advance iob c))"
        using ch(1) by (simp_all add: less.prems(6,7) add_mult_distrib)
      moreover have "k - j < k" "(blk + j + (k - j)) * 8 \<le> n" using less.prems(2) jk ch(9) by simp_all
      ultimately show thesis
        using less.IH [of "k - j" "s\<lparr>kmem := m1\<rparr>" "blk + j" "resid - c" "advance iob c" "S + j * 4096" "D + j * 4096"]
          less.prems(1,4) ch(7) apart_advance [OF less.prems(5) jk ch(1)] that by auto
    qed
    have "m' a = (if a \<in> region D (k * 4096) then kmem s (S + (a - D)) else kmem s a)"
      if a: "a \<notin> region (disk0_buffer s) 16384" for a
    proof (cases "a \<in> region (D + j * 4096) ((k - j) * 4096)")
      case True
      then have d: "j * 4096 \<le> a - D" "a - D < k * 4096" "D \<le> a" using jk by (auto simp: diff_mult_distrib)
      then have "S + (a - D) \<in> region S (k * 4096)" unfolding in_region by linarith
      then have "S + (a - D) \<notin> region (disk0_buffer s) 16384" "S + (a - D) \<notin> region D (j * 4096)"
        using dj sub by blast+
      moreover have "S + j * 4096 + (a - (D + j * 4096)) = S + (a - D)" using d by simp
      ultimately show ?thesis using m'_spec [OF a] True m1 d by auto
    next
      case False
      then show ?thesis using m'_spec [OF a] m1 [OF a] jk by (auto simp: diff_mult_distrib)
    qed
    then show ?thesis using step m' by (auto simp: advance_advance [OF ch(4)])
  qed
qed

lemma disk0_block_number:
  assumes "sint (io_offset iob) = int blk * 4096"
  shows "sint (io_offset iob) smod 4096 = 0" "word_of_int (sint (io_offset iob) sdiv 4096) = (of_nat blk :: u32)"
  using assms by (simp_all add: signed_modulo_int_def signed_divide_int_def sgn_mult abs_mult)

lemma disk0_io_spec:
  assumes "disk_at s b n" "\<not> disk0_locked s" "sint (io_offset iob) = int blk * 4096"
    "unat (io_resid iob) = k * 4096" "blk + k \<le> n div 8" "apart s iob k b n"
    "S = (if wr then io_base iob else b + blk * 4096)" "D = (if wr then b + blk * 4096 else io_base iob)"
  shows "\<exists>m'. disk0_io (of_nat (n div 8)) iob wr s = Some (0, advance iob (io_resid iob), s\<lparr>kmem := m'\<rparr>) \<and>
    (\<forall>a. a \<notin> region (disk0_buffer s) 16384 \<longrightarrow>
       m' a = (if a \<in> region D (k * 4096) then kmem s (S + (a - D)) else kmem s a))"
proof -
  have n: "n \<le> 0x10000000" using assms(1) by (simp add: disk_at_def)
  have bk: "blk + k \<le> 0x2000000" using n assms(5) div_le_mono [of n "0x10000000" 8] by simp
  have nb: "ucast (io_resid iob div DISK0_BLKSIZE) = (of_nat k :: u32)"
  proof -
    have "unat (io_resid iob div DISK0_BLKSIZE) = k" using assms(4) by (simp add: unat_div_distrib DISK0_BLKSIZE_def)
    then have "of_nat (unat (io_resid iob div DISK0_BLKSIZE)) = (of_nat k :: u64)" by simp
    then show ?thesis using bk by (simp add: unsigned_of_nat take_bit_nat_eq_self)
  qed
  have md: "io_resid iob mod DISK0_BLKSIZE = 0"
    using assms(4) by (simp add: word_unat_eq_iff unat_mod_distrib DISK0_BLKSIZE_def)
  have fit: "\<not> ucast (of_nat blk + of_nat k :: u32) > (of_nat (n div 8) :: u64)"
  proof -
    have "ucast (of_nat (blk + k) :: u32) = (of_nat (blk + k) :: u64)" using bk by (intro ucast_of_nat_u32) simp
    moreover have "(of_nat (blk + k) :: u64) \<le> of_nat (n div 8)" using assms(5) n by (intro of_nat_mono_u64) auto
    ultimately show ?thesis by simp
  qed
  show ?thesis
  proof (cases "k = 0")
    case True
    then have "io_resid iob = 0" using assms(4) by (simp add: unat_eq_zero)
    then show ?thesis using True fit disk0_block_number [OF assms(3)] nb
      by (auto simp: disk0_io_def Let_def intro!: exI [of _ "kmem s"])
  next
    case False
    have "(of_nat k :: u32) \<noteq> 0" using False bk by (auto simp: word_of_nat_eq_0_iff dest: dvd_imp_le)
    moreover have "(blk + k) * 8 \<le> n" using assms(5) by simp
    moreover have "apart (s\<lparr>disk0_locked := True\<rparr>) iob k b n" using assms(6) by (simp add: apart_def)
    ultimately obtain m' where m': "disk0_loop wr (of_nat blk) (io_resid iob) iob (s\<lparr>disk0_locked := True\<rparr>) =
        Some (advance iob (io_resid iob), s\<lparr>disk0_locked := True, kmem := m'\<rparr>)"
      "\<forall>a. a \<notin> region (disk0_buffer s) 16384 \<longrightarrow> m' a = (if a \<in> region D (k * 4096) then kmem s (S + (a - D)) else kmem s a)"
      using disk0_loop_spec [of "s\<lparr>disk0_locked := True\<rparr>" b n blk k "io_resid iob" iob S wr D] assms(1,4,7,8) by auto
    have "s\<lparr>kmem := m', disk0_locked := False\<rparr> = s\<lparr>kmem := m'\<rparr>" using assms(2) by (cases s) simp
    then show ?thesis using m' fit disk0_block_number [OF assms(3)] nb md assms(2) \<open>(of_nat k :: u32) \<noteq> 0\<close>
      by (intro exI [of _ m']) (simp add: disk0_io_def Let_def lock_disk0_def unlock_disk0_def)
  qed
qed

text \<open>
  C23. Disk round trip.  Writing \<open>k\<close> whole blocks within the disk through the root disk's driver
  returns 0 with the whole buffer consumed and the lock released, and reading the same blocks into another buffer
  returns exactly the bytes written, for every \<open>k\<close>, although the driver moves at most four blocks at a time
  through its own buffer; every other byte of the disk and of memory outside the two buffers is unchanged.
\<close>

theorem disk0_write_read:
  assumes "disk_at s b n" "\<not> disk0_locked s" "unat (io_resid src) = k * 4096" "io_resid dst = io_resid src"
    "sint (io_offset src) = int blk * 4096" "io_offset dst = io_offset src" "blk + k \<le> n div 8"
    "apart s src k b n" "apart s dst k b n"
  shows "\<exists>s1 s2. disk0_io (of_nat (n div 8)) src True s = Some (0, advance src (io_resid src), s1) \<and>
    disk0_io (of_nat (n div 8)) dst False s1 = Some (0, advance dst (io_resid dst), s2) \<and> \<not> disk0_locked s2 \<and>
    (\<forall>i < k * 4096. kmem s2 (io_base dst + i) = kmem s (io_base src + i)) \<and>
    (\<forall>i < k * 4096. kmem s2 (b + blk * 4096 + i) = kmem s (io_base src + i)) \<and>
    (\<forall>a. a \<notin> region (disk0_buffer s) 16384 \<and> a \<notin> region (io_base dst) (k * 4096) \<and>
         a \<notin> region (b + blk * 4096) (k * 4096) \<longrightarrow> kmem s2 a = kmem s a)"
proof -
  let ?B = "region (disk0_buffer s) 16384" and ?d = "b + blk * 4096"
  obtain m1 where w: "disk0_io (of_nat (n div 8)) src True s = Some (0, advance src (io_resid src), s\<lparr>kmem := m1\<rparr>)"
    and m1: "\<And>a. a \<notin> ?B \<Longrightarrow> m1 a = (if a \<in> region ?d (k * 4096) then kmem s (io_base src + (a - ?d)) else kmem s a)"
    using disk0_io_spec [OF assms(1,2,5,3,7,8), of "io_base src" True ?d] by auto
  obtain m2 where r: "disk0_io (of_nat (n div 8)) dst False (s\<lparr>kmem := m1\<rparr>) = Some (0, advance dst (io_resid dst), s\<lparr>kmem := m2\<rparr>)"
    and m2: "\<And>a. a \<notin> ?B \<Longrightarrow> m2 a = (if a \<in> region (io_base dst) (k * 4096) then m1 (?d + (a - io_base dst)) else m1 a)"
    using disk0_io_spec [of "s\<lparr>kmem := m1\<rparr>" b n dst blk k ?d False "io_base dst"] assms by (auto simp: apart_def)
  have "region ?d (k * 4096) \<subseteq> region b (n * 512)" using assms(7) by (intro region_subset) auto
  then have dj: "region ?d (k * 4096) \<inter> ?B = {}" "region (io_base dst) (k * 4096) \<inter> ?B = {}"
      "region ?d (k * 4096) \<inter> region (io_base dst) (k * 4096) = {}"
    using assms(8,9) unfolding apart_def by blast+
  have d: "?d + i \<notin> ?B" "io_base dst + i \<notin> ?B" "?d + i \<notin> region (io_base dst) (k * 4096)" if "i < k * 4096" for i
  proof -
    have "?d + i \<in> region ?d (k * 4096)" "io_base dst + i \<in> region (io_base dst) (k * 4096)" using that by simp_all
    then show "?d + i \<notin> ?B" "io_base dst + i \<notin> ?B" "?d + i \<notin> region (io_base dst) (k * 4096)" using dj by blast+
  qed
  have "m2 (io_base dst + i) = kmem s (io_base src + i)" "m2 (?d + i) = kmem s (io_base src + i)" if "i < k * 4096" for i
    using m2 [OF d(2) [OF that]] m2 [OF d(1) [OF that]] m1 [OF d(1) [OF that]] d(3) [OF that] that by auto
  moreover have "m2 a = kmem s a" if "a \<notin> ?B" "a \<notin> region (io_base dst) (k * 4096)" "a \<notin> region ?d (k * 4096)" for a
    using m2 [OF that(1)] m1 [OF that(1)] that(2,3) by (simp only: if_False)
  ultimately show ?thesis using w r assms(2)
    by (intro exI [of _ "s\<lparr>kmem := m1\<rparr>"] exI [of _ "s\<lparr>kmem := m2\<rparr>"]) (simp del: in_region)
qed

definition example_disk :: blk_st where
  "example_disk = \<lparr>kmem = (\<lambda>a. of_nat (a mod 251)),
     ide_devices = (\<lambda>_. \<lparr>ide_valid = True, ide_sets = 0, ide_size = 64, iobase = 0x100000\<rparr>),
     disk0_buffer = 0x200000, disk0_locked = False\<rparr>"

theorem disk0_write_read_witness:
  "\<exists>s1 s2. disk0_io 8 (iobuf_init 0x300000 0x5000 0x2000) True example_disk =
       Some (0, advance (iobuf_init 0x300000 0x5000 0x2000) 0x5000, s1) \<and>
     disk0_io 8 (iobuf_init 0x400000 0x5000 0x2000) False s1 =
       Some (0, advance (iobuf_init 0x400000 0x5000 0x2000) 0x5000, s2) \<and> kmem s2 0x404fff = 93"
proof -
  have a: "apart example_disk (iobuf_init 0x300000 0x5000 0x2000) 5 0x100000 64"
    "apart example_disk (iobuf_init 0x400000 0x5000 0x2000) 5 0x100000 64"
    by (auto simp: apart_def region_def disjoint_iff example_disk_def iobuf_init_def)
  have d: "disk_at example_disk 0x100000 64" by (simp add: disk_at_def example_disk_def)
  obtain s1 s2 where "disk0_io 8 (iobuf_init 0x300000 0x5000 0x2000) True example_disk =
       Some (0, advance (iobuf_init 0x300000 0x5000 0x2000) 0x5000, s1)"
     "disk0_io 8 (iobuf_init 0x400000 0x5000 0x2000) False s1 =
       Some (0, advance (iobuf_init 0x400000 0x5000 0x2000) 0x5000, s2)"
     "\<forall>i < 5 * 4096. kmem s2 (0x400000 + i) = kmem example_disk (0x300000 + i)"
    using disk0_write_read [OF d _ _ _ _ _ _ a, of 2] by (auto simp: example_disk_def iobuf_init_def)
  moreover have "kmem s2 (0x400000 + 0x4fff) = kmem example_disk (0x300000 + 0x4fff)" by (rule calculation(3) [rule_format]) simp
  ultimately show ?thesis by (auto simp: example_disk_def)
qed

end
