(* ===== verification/Inode.thy ===== *)
theory Inode
  imports Disk
begin

text \<open>
  The objects of the file system layer: inodes with their reference and open counts
  (\<^verbatim>\<open>kern/fs/vfs/inode.c\<close>, \<^verbatim>\<open>inode.h\<close>), devices (\<^verbatim>\<open>kern/fs/devs/dev.h\<close>), open files and the files of a process
  (\<^verbatim>\<open>kern/fs/file.h\<close>, \<^verbatim>\<open>fs.h\<close>), and the state they live in, which extends the block layer's.

  The tables of function pointers (\<^verbatim>\<open>struct inode_ops\<close>, \<^verbatim>\<open>struct fs\<close>) are records of functions on the
  state; a NULL entry is \<open>None\<close>.  An inode and a mounted file system name their table by a number, and the
  argument \<open>T\<close> of the operations maps the number to the table.
\<close>

section \<open>Data\<close>

datatype inode_type = inode_type_device_info | inode_type_sfs_inode_info

text \<open>The driver functions of a device are named by a number, like the tables of inodes.\<close>

record device =
  d_blocks :: u64
  d_blocksize :: u64
  d_driver :: nat

record inode =
  in_type :: inode_type
  in_device :: device
  ref_count :: int
  open_count :: int
  in_fs :: "ptr option"
  in_ops :: "nat option"

record stat =
  st_mode :: u32
  st_nlinks :: u64
  st_blocks :: u64
  st_size :: u64

datatype file_status = FD_NONE | FD_INIT | FD_OPENED | FD_CLOSED

record file_t =
  f_status :: file_status
  f_readable :: bool
  f_writable :: bool
  f_fd :: int
  f_pos :: u64
  f_node :: "ptr option"
  f_open_count :: int

record files_struct =
  pwd :: "ptr option"
  fd_array :: "file_t list"
  files_count :: int

record vfs_dev_t =
  devname :: string
  devnode :: "ptr option"
  dev_fs :: "ptr option"
  mountable :: bool

text \<open>
  The semaphores of the layer are all binary; the running thread holds those for which \<open>locks\<close> is true.
  \<open>console\<close> is the output of \<^verbatim>\<open>cputchar\<close>, and \<open>filesp\<close> is \<^verbatim>\<open>current->filesp\<close>.
\<close>

datatype fs_lock = bootfs_sem | vdev_list_sem | files_sem ptr

record fs_st = blk_st +
  inodes :: "ptr \<rightharpoonup> inode"
  files :: "ptr \<rightharpoonup> files_struct"
  filesp :: "ptr option"
  bootfs_node :: "ptr option"
  vdev_list :: "vfs_dev_t list"
  locks :: "fs_lock \<Rightarrow> bool"
  console :: "u8 list"

definition fs_down :: "fs_lock \<Rightarrow> 'a fs_st_scheme \<Rightarrow> 'a fs_st_scheme option" where
  "fs_down l s = (if locks s l then None else Some (s\<lparr>locks := (locks s)(l := True)\<rparr>))"

definition fs_up :: "fs_lock \<Rightarrow> 'a fs_st_scheme \<Rightarrow> 'a fs_st_scheme" where
  "fs_up l s = s\<lparr>locks := (locks s)(l := False)\<rparr>"

section \<open>Tables of operations\<close>

record 'w inode_ops =
  op_magic :: u64
  op_open :: "(ptr \<Rightarrow> u32 \<Rightarrow> 'w \<Rightarrow> (int \<times> 'w) option) option"
  op_close :: "(ptr \<Rightarrow> 'w \<Rightarrow> (int \<times> 'w) option) option"
  op_read :: "(ptr \<Rightarrow> iobuf \<Rightarrow> 'w \<Rightarrow> (int \<times> iobuf \<times> 'w) option) option"
  op_write :: "(ptr \<Rightarrow> iobuf \<Rightarrow> 'w \<Rightarrow> (int \<times> iobuf \<times> 'w) option) option"
  op_fstat :: "(ptr \<Rightarrow> 'w \<Rightarrow> (int \<times> stat \<times> 'w) option) option"
  op_fsync :: "(ptr \<Rightarrow> 'w \<Rightarrow> (int \<times> 'w) option) option"
  op_namefile :: "(ptr \<Rightarrow> iobuf \<Rightarrow> 'w \<Rightarrow> (int \<times> iobuf \<times> 'w) option) option"
  op_getdirentry :: "(ptr \<Rightarrow> iobuf \<Rightarrow> 'w \<Rightarrow> (int \<times> iobuf \<times> 'w) option) option"
  op_reclaim :: "(ptr \<Rightarrow> 'w \<Rightarrow> (int \<times> 'w) option) option"
  op_gettype :: "(ptr \<Rightarrow> 'w \<Rightarrow> (int \<times> u32 \<times> 'w) option) option"
  op_tryseek :: "(ptr \<Rightarrow> u64 \<Rightarrow> 'w \<Rightarrow> (int \<times> 'w) option) option"
  op_truncate :: "(ptr \<Rightarrow> u64 \<Rightarrow> 'w \<Rightarrow> (int \<times> 'w) option) option"
  op_create :: "(ptr \<Rightarrow> string \<Rightarrow> bool \<Rightarrow> 'w \<Rightarrow> (int \<times> ptr option \<times> 'w) option) option"
  op_lookup :: "(ptr \<Rightarrow> string \<Rightarrow> 'w \<Rightarrow> (int \<times> ptr option \<times> 'w) option) option"
  op_ioctl :: "(ptr \<Rightarrow> int \<Rightarrow> ptr \<Rightarrow> 'w \<Rightarrow> (int \<times> 'w) option) option"

record 'w fs_ops =
  fs_sync :: "ptr \<Rightarrow> 'w \<Rightarrow> (int \<times> 'w) option"
  fs_get_root :: "ptr \<Rightarrow> 'w \<Rightarrow> (ptr option \<times> 'w) option"
  fs_unmount :: "ptr \<Rightarrow> 'w \<Rightarrow> (int \<times> 'w) option"
  fs_cleanup :: "ptr \<Rightarrow> 'w \<Rightarrow> 'w option"

record 'w vtab =
  vt_inode :: "nat \<Rightarrow> 'w inode_ops"
  vt_fs :: "ptr \<Rightarrow> 'w fs_ops"

section \<open>Inodes\<close>

definition MAX_INODE_COUNT :: int where "MAX_INODE_COUNT = 0x10000"
definition VOP_MAGIC :: u64 where "VOP_MAGIC = 0x8c4ba476"

definition upd_inode :: "ptr \<Rightarrow> (inode \<Rightarrow> inode) \<Rightarrow> 'a fs_st_scheme \<Rightarrow> 'a fs_st_scheme" where
  "upd_inode p f s = s\<lparr>inodes := (inodes s)(p := map_option f (inodes s p))\<rparr>"

text \<open>\<open>k\<close> is the answer of \<^verbatim>\<open>kmalloc\<close>; the other fields of the new object are not initialised, here they get values \<open>u\<close>.\<close>

definition alloc_inode :: "inode_type \<Rightarrow> inode \<Rightarrow> ptr option \<Rightarrow> 'a fs_st_scheme \<Rightarrow> ptr option \<times> 'a fs_st_scheme" where
  "alloc_inode type u k s =
     (case k of None \<Rightarrow> (None, s) | Some p \<Rightarrow> (Some p, s\<lparr>inodes := (inodes s)(p \<mapsto> u\<lparr>in_type := type\<rparr>)\<rparr>))"

definition inode_ref_inc :: "ptr \<Rightarrow> 'a fs_st_scheme \<Rightarrow> 'a fs_st_scheme option" where
  "inode_ref_inc p s = do { n \<leftarrow> inodes s p; Some (upd_inode p (\<lambda>i. i\<lparr>ref_count := ref_count i + 1\<rparr>) s) }"

definition inode_open_inc :: "ptr \<Rightarrow> 'a fs_st_scheme \<Rightarrow> 'a fs_st_scheme option" where
  "inode_open_inc p s = do { n \<leftarrow> inodes s p; Some (upd_inode p (\<lambda>i. i\<lparr>open_count := open_count i + 1\<rparr>) s) }"

definition inode_init :: "ptr \<Rightarrow> nat \<Rightarrow> ptr option \<Rightarrow> 'a fs_st_scheme \<Rightarrow> 'a fs_st_scheme option" where
  "inode_init p ops fs s =
     inode_ref_inc p (upd_inode p (\<lambda>i. i\<lparr>ref_count := 0, open_count := 0, in_ops := Some ops, in_fs := fs\<rparr>) s)"

definition inode_kill :: "ptr \<Rightarrow> 'a fs_st_scheme \<Rightarrow> 'a fs_st_scheme option" where
  "inode_kill p s = do {
     n \<leftarrow> inodes s p;
     kassert (ref_count n = 0);
     kassert (open_count n = 0);
     Some (s\<lparr>inodes := (inodes s)(p := None)\<rparr>)
   }"

definition inode_check :: "inode \<Rightarrow> bool" where
  "inode_check n \<longleftrightarrow> in_ops n \<noteq> None \<and> ref_count n \<ge> open_count n \<and> open_count n \<ge> 0 \<and>
     ref_count n < MAX_INODE_COUNT \<and> open_count n < MAX_INODE_COUNT"

text \<open>\<open>vop_op\<close> is the macro \<^verbatim>\<open>__vop_op\<close>: the checks before every call, and the function to call.\<close>

definition vop_op :: "'a fs_st_scheme vtab \<Rightarrow> ('a fs_st_scheme inode_ops \<Rightarrow> 'f option) \<Rightarrow> ptr \<Rightarrow> 'a fs_st_scheme \<Rightarrow> 'f option" where
  "vop_op T sel p s = do {
     n \<leftarrow> inodes s p;
     o1 \<leftarrow> in_ops n;
     f \<leftarrow> sel (vt_inode T o1);
     kassert (op_magic (vt_inode T o1) = VOP_MAGIC);
     kassert (inode_check n);
     Some f
   }"

definition inode_ref_dec :: "'a fs_st_scheme vtab \<Rightarrow> ptr \<Rightarrow> 'a fs_st_scheme \<Rightarrow> 'a fs_st_scheme option" where
  "inode_ref_dec T p s = do {
     n \<leftarrow> inodes s p;
     kassert (ref_count n > 0);
     let s1 = upd_inode p (\<lambda>i. i\<lparr>ref_count := ref_count i - 1\<rparr>) s;
     if ref_count n - 1 = 0
     then do { f \<leftarrow> vop_op T op_reclaim p s1; (ret, s2) \<leftarrow> f p s1; Some s2 }
     else Some s1
   }"

definition inode_open_dec :: "'a fs_st_scheme vtab \<Rightarrow> ptr \<Rightarrow> 'a fs_st_scheme \<Rightarrow> 'a fs_st_scheme option" where
  "inode_open_dec T p s = do {
     n \<leftarrow> inodes s p;
     kassert (open_count n > 0);
     let s1 = upd_inode p (\<lambda>i. i\<lparr>open_count := open_count i - 1\<rparr>) s;
     if open_count n - 1 = 0
     then do { f \<leftarrow> vop_op T op_close p s1; (ret, s2) \<leftarrow> f p s1; Some s2 }
     else Some s1
   }"

end
