(* ===== verification/Vfs.thy ===== *)
theory Vfs
  imports Inode
begin

text \<open>
  The file-system independent layer (\<^verbatim>\<open>kern/fs/vfs\<close>): the device list (\<^verbatim>\<open>vfsdev.c\<close>), the boot file system
  (\<^verbatim>\<open>vfs.c\<close>), working directories (\<^verbatim>\<open>vfspath.c\<close>), path names (\<^verbatim>\<open>vfslookup.c\<close>) and opening and closing
  (\<^verbatim>\<open>vfsfile.c\<close>).  Calls into a file system go through the table \<open>T\<close>.  A path is a mutable buffer: \<^verbatim>\<open>get_device\<close>
  cuts it at the colon, so the functions that parse a path also return what the buffer holds afterwards.
\<close>

section \<open>Devices and mounted file systems\<close>

definition FS_MAX_DNAME_LEN :: nat where "FS_MAX_DNAME_LEN = 31"

definition lock_vdev_list :: "'a fs_st_scheme \<Rightarrow> 'a fs_st_scheme option" where
  "lock_vdev_list = fs_down vdev_list_sem"

definition unlock_vdev_list :: "'a fs_st_scheme \<Rightarrow> 'a fs_st_scheme" where
  "unlock_vdev_list = fs_up vdev_list_sem"

definition vfs_devlist_init :: "'a fs_st_scheme \<Rightarrow> 'a fs_st_scheme" where
  "vfs_devlist_init s = s\<lparr>vdev_list := [], locks := (locks s)(vdev_list_sem := False)\<rparr>"

fun cleanup_loop :: "'a fs_st_scheme vtab \<Rightarrow> vfs_dev_t list \<Rightarrow> 'a fs_st_scheme \<Rightarrow> 'a fs_st_scheme option" where
  "cleanup_loop T [] s = Some s"
| "cleanup_loop T (d # ds) s =
     (case dev_fs d of None \<Rightarrow> cleanup_loop T ds s
      | Some fs \<Rightarrow> fs_cleanup (vt_fs T fs) fs s \<bind> cleanup_loop T ds)"

definition vfs_cleanup :: "'a fs_st_scheme vtab \<Rightarrow> 'a fs_st_scheme \<Rightarrow> 'a fs_st_scheme option" where
  "vfs_cleanup T s =
     (if vdev_list s \<noteq> [] then do {
        s1 \<leftarrow> lock_vdev_list s;
        s2 \<leftarrow> cleanup_loop T (vdev_list s1) s1;
        Some (unlock_vdev_list s2)
      } else Some s)"

definition vfs_get_root :: "'a fs_st_scheme vtab \<Rightarrow> string \<Rightarrow> 'a fs_st_scheme \<Rightarrow> (int \<times> ptr option \<times> 'a fs_st_scheme) option" where
  "vfs_get_root T name s =
     (if vdev_list s = [] then Some (- E_NO_DEV, None, s)
      else do {
        s1 \<leftarrow> lock_vdev_list s;
        (ret, found, s2) \<leftarrow>
          (case find (\<lambda>d. devname d = name) (vdev_list s1) of
             None \<Rightarrow> Some (- E_NO_DEV, None, s1)
           | Some d \<Rightarrow> do {
               (found, s2) \<leftarrow>
                 (case dev_fs d of
                    Some fs \<Rightarrow> fs_get_root (vt_fs T fs) fs s1
                  | None \<Rightarrow> if \<not> mountable d
                            then do { p \<leftarrow> devnode d; s2 \<leftarrow> inode_ref_inc p s1; Some (Some p, s2) }
                            else Some (None, s1));
               Some (if found \<noteq> None then 0 else - E_NA_DEV, found, s2)
             });
        Some (ret, found, unlock_vdev_list s2)
      })"

definition vfs_get_devname :: "ptr \<Rightarrow> 'a fs_st_scheme \<Rightarrow> string option" where
  "vfs_get_devname fs s = map_option devname (find (\<lambda>d. dev_fs d = Some fs) (vdev_list s))"

text \<open>As in the source, the result is true when there is no conflict.\<close>

definition check_devname_conflict :: "string \<Rightarrow> 'a fs_st_scheme \<Rightarrow> bool" where
  "check_devname_conflict name s \<longleftrightarrow> find (\<lambda>d. devname d = name) (vdev_list s) = None"

text \<open>\<open>ks\<close> and \<open>kd\<close> tell whether the two \<^verbatim>\<open>kmalloc\<close> calls (the copy of the name, the list entry) succeed.\<close>

definition vfs_do_add ::
  "bool \<Rightarrow> bool \<Rightarrow> string \<Rightarrow> ptr option \<Rightarrow> ptr option \<Rightarrow> bool \<Rightarrow> 'a fs_st_scheme \<Rightarrow> (int \<times> 'a fs_st_scheme) option" where
  "vfs_do_add ks kd name dnode fs mnt s = do {
     kassert ((dnode = None \<and> \<not> mnt) \<or>
       (case dnode of None \<Rightarrow> False | Some p \<Rightarrow> map_option in_type (inodes s p) = Some inode_type_device_info));
     if length name > FS_MAX_DNAME_LEN then Some (- E_TOO_BIG, s)
     else if \<not> ks then Some (- E_NO_MEM, s)
     else if \<not> kd then Some (- E_NO_MEM, s)
     else do {
       s1 \<leftarrow> lock_vdev_list s;
       if \<not> check_devname_conflict name s1 then Some (- E_EXISTS, unlock_vdev_list s1)
       else do {
         let d = \<lparr>devname = name, devnode = dnode, dev_fs = fs, mountable = mnt\<rparr>;
         Some (0, unlock_vdev_list (s1\<lparr>vdev_list := d # vdev_list s1\<rparr>))
       }
     }
   }"

definition vfs_add_fs :: "bool \<Rightarrow> bool \<Rightarrow> string \<Rightarrow> ptr \<Rightarrow> 'a fs_st_scheme \<Rightarrow> (int \<times> 'a fs_st_scheme) option" where
  "vfs_add_fs ks kd name fs s = vfs_do_add ks kd name None (Some fs) False s"

definition vfs_add_dev :: "bool \<Rightarrow> bool \<Rightarrow> string \<Rightarrow> ptr option \<Rightarrow> bool \<Rightarrow> 'a fs_st_scheme \<Rightarrow> (int \<times> 'a fs_st_scheme) option" where
  "vfs_add_dev ks kd name dnode mnt s = vfs_do_add ks kd name dnode None mnt s"

text \<open>The entry found is named by its index in the list.\<close>

fun find_index :: "('x \<Rightarrow> bool) \<Rightarrow> 'x list \<Rightarrow> nat option" where
  "find_index P [] = None"
| "find_index P (x # xs) = (if P x then Some 0 else map_option Suc (find_index P xs))"

definition find_mount :: "string \<Rightarrow> 'a fs_st_scheme \<Rightarrow> nat option" where
  "find_mount name s = find_index (\<lambda>d. mountable d \<and> devname d = name) (vdev_list s)"

definition set_dev_fs :: "nat \<Rightarrow> ptr option \<Rightarrow> 'a fs_st_scheme \<Rightarrow> 'a fs_st_scheme" where
  "set_dev_fs i fs s = s\<lparr>vdev_list := (vdev_list s)[i := (vdev_list s ! i)\<lparr>dev_fs := fs\<rparr>]\<rparr>"

definition vfs_mount ::
  "(ptr \<Rightarrow> 'a fs_st_scheme \<Rightarrow> (int \<times> ptr option \<times> 'a fs_st_scheme) option) \<Rightarrow> string \<Rightarrow> 'a fs_st_scheme \<Rightarrow>
   (int \<times> 'a fs_st_scheme) option" where
  "vfs_mount mountfunc name s = do {
     s1 \<leftarrow> lock_vdev_list s;
     case find_mount name s1 of None \<Rightarrow> Some (- E_NO_DEV, unlock_vdev_list s1)
     | Some i \<Rightarrow>
         (if dev_fs (vdev_list s1 ! i) \<noteq> None then Some (- E_BUSY, unlock_vdev_list s1)
          else do {
            p \<leftarrow> devnode (vdev_list s1 ! i);
            n \<leftarrow> inodes s1 p;
            kassert (in_type n = inode_type_device_info);
            (ret, fs, s2) \<leftarrow> mountfunc p s1;
            kassert (ret = 0 \<longrightarrow> fs \<noteq> None);
            Some (ret, unlock_vdev_list (if ret = 0 then set_dev_fs i fs s2 else s2))
          })
   }"

definition vfs_unmount :: "'a fs_st_scheme vtab \<Rightarrow> string \<Rightarrow> 'a fs_st_scheme \<Rightarrow> (int \<times> 'a fs_st_scheme) option" where
  "vfs_unmount T name s = do {
     s1 \<leftarrow> lock_vdev_list s;
     case find_mount name s1 of None \<Rightarrow> Some (- E_NO_DEV, unlock_vdev_list s1)
     | Some i \<Rightarrow>
         (case dev_fs (vdev_list s1 ! i) of None \<Rightarrow> Some (- E_INVAL, unlock_vdev_list s1)
          | Some fs \<Rightarrow> do {
              (ret, s2) \<leftarrow> fs_sync (vt_fs T fs) fs s1;
              if ret \<noteq> 0 then Some (ret, unlock_vdev_list s2)
              else do {
                (ret2, s3) \<leftarrow> fs_unmount (vt_fs T fs) fs s2;
                Some (ret2, unlock_vdev_list (if ret2 = 0 then set_dev_fs i None s3 else s3))
              }
            })
   }"

fun unmount_all_loop :: "'a fs_st_scheme vtab \<Rightarrow> nat list \<Rightarrow> 'a fs_st_scheme \<Rightarrow> 'a fs_st_scheme option" where
  "unmount_all_loop T [] s = Some s"
| "unmount_all_loop T (i # is) s =
     (let d = vdev_list s ! i
      in case dev_fs d of
           Some fs \<Rightarrow>
             if mountable d then do {
               (ret, s1) \<leftarrow> fs_sync (vt_fs T fs) fs s;
               if ret \<noteq> 0 then unmount_all_loop T is s1
               else do {
                 (ret2, s2) \<leftarrow> fs_unmount (vt_fs T fs) fs s1;
                 unmount_all_loop T is (if ret2 \<noteq> 0 then s2 else set_dev_fs i None s2)
               }
             } else unmount_all_loop T is s
         | None \<Rightarrow> unmount_all_loop T is s)"

definition vfs_unmount_all :: "'a fs_st_scheme vtab \<Rightarrow> 'a fs_st_scheme \<Rightarrow> (int \<times> 'a fs_st_scheme) option" where
  "vfs_unmount_all T s =
     (if vdev_list s \<noteq> [] then do {
        s1 \<leftarrow> lock_vdev_list s;
        s2 \<leftarrow> unmount_all_loop T [0..<length (vdev_list s1)] s1;
        Some (0, unlock_vdev_list s2)
      } else Some (0, s))"

section \<open>The boot file system and working directories\<close>

definition vfs_init :: "'a fs_st_scheme \<Rightarrow> 'a fs_st_scheme" where
  "vfs_init s = vfs_devlist_init (s\<lparr>locks := (locks s)(bootfs_sem := False)\<rparr>)"

definition lock_bootfs :: "'a fs_st_scheme \<Rightarrow> 'a fs_st_scheme option" where
  "lock_bootfs = fs_down bootfs_sem"

definition unlock_bootfs :: "'a fs_st_scheme \<Rightarrow> 'a fs_st_scheme" where
  "unlock_bootfs = fs_up bootfs_sem"

definition change_bootfs :: "'a fs_st_scheme vtab \<Rightarrow> ptr option \<Rightarrow> 'a fs_st_scheme \<Rightarrow> 'a fs_st_scheme option" where
  "change_bootfs T p s = do {
     s1 \<leftarrow> lock_bootfs s;
     let old = bootfs_node s1;
     let s2 = unlock_bootfs (s1\<lparr>bootfs_node := p\<rparr>);
     case old of None \<Rightarrow> Some s2 | Some q \<Rightarrow> inode_ref_dec T q s2
   }"

definition vfs_get_bootfs :: "'a fs_st_scheme \<Rightarrow> (int \<times> ptr option \<times> 'a fs_st_scheme) option" where
  "vfs_get_bootfs s =
     (case bootfs_node s of None \<Rightarrow> Some (- E_NOENT, None, s)
      | Some _ \<Rightarrow> do {
          s1 \<leftarrow> lock_bootfs s;
          case bootfs_node s1 of None \<Rightarrow> Some (- E_NOENT, None, unlock_bootfs s1)
          | Some p \<Rightarrow> do { s2 \<leftarrow> inode_ref_inc p s1; Some (0, Some p, unlock_bootfs s2) }
        })"

text \<open>A process without files dereferences NULL, which is the value \<open>None\<close>.\<close>

definition get_cwd_nolock :: "'a fs_st_scheme \<Rightarrow> ptr option option" where
  "get_cwd_nolock s = do { q \<leftarrow> filesp s; fs \<leftarrow> files s q; Some (pwd fs) }"

definition set_cwd_nolock :: "ptr option \<Rightarrow> 'a fs_st_scheme \<Rightarrow> 'a fs_st_scheme option" where
  "set_cwd_nolock p s = do { q \<leftarrow> filesp s; fs \<leftarrow> files s q; Some (s\<lparr>files := (files s)(q \<mapsto> fs\<lparr>pwd := p\<rparr>)\<rparr>) }"

definition lock_files :: "ptr \<Rightarrow> 'a fs_st_scheme \<Rightarrow> 'a fs_st_scheme option" where
  "lock_files q = fs_down (files_sem q)"

definition unlock_files :: "ptr \<Rightarrow> 'a fs_st_scheme \<Rightarrow> 'a fs_st_scheme" where
  "unlock_files q = fs_up (files_sem q)"

definition lock_cfs :: "'a fs_st_scheme \<Rightarrow> 'a fs_st_scheme option" where
  "lock_cfs s = do { q \<leftarrow> filesp s; lock_files q s }"

definition unlock_cfs :: "'a fs_st_scheme \<Rightarrow> 'a fs_st_scheme option" where
  "unlock_cfs s = do { q \<leftarrow> filesp s; Some (unlock_files q s) }"

definition vfs_get_curdir :: "'a fs_st_scheme \<Rightarrow> (int \<times> ptr option \<times> 'a fs_st_scheme) option" where
  "vfs_get_curdir s = do {
     c \<leftarrow> get_cwd_nolock s;
     case c of None \<Rightarrow> Some (- E_NOENT, None, s)
     | Some p \<Rightarrow> do { s1 \<leftarrow> inode_ref_inc p s; Some (0, Some p, s1) }
   }"

definition S_IFMT :: u32 where "S_IFMT = 0x7000"
definition S_IFDIR :: u32 where "S_IFDIR = 0x2000"
definition S_IFCHR :: u32 where "S_IFCHR = 0x4000"
definition S_IFBLK :: u32 where "S_IFBLK = 0x5000"

definition S_ISDIR :: "u32 \<Rightarrow> bool" where "S_ISDIR mode \<longleftrightarrow> mode AND S_IFMT = S_IFDIR"

definition vfs_set_curdir :: "'a fs_st_scheme vtab \<Rightarrow> ptr option \<Rightarrow> 'a fs_st_scheme \<Rightarrow> (int \<times> 'a fs_st_scheme) option" where
  "vfs_set_curdir T dir s = do {
     s1 \<leftarrow> lock_cfs s;
     old \<leftarrow> get_cwd_nolock s1;
     (ret, s5) \<leftarrow>
       (if old = dir then Some (0, s1)
        else do {
          (ret, s3) \<leftarrow>
            (case dir of None \<Rightarrow> Some (0, s1)
             | Some p \<Rightarrow> do {
                 f \<leftarrow> vop_op T op_gettype p s1;
                 (ret, type, s2) \<leftarrow> f p s1;
                 if ret \<noteq> 0 then Some (ret, s2)
                 else if \<not> S_ISDIR type then Some (- E_NOTDIR, s2)
                 else do { s3 \<leftarrow> inode_ref_inc p s2; Some (0, s3) }
               });
          if ret \<noteq> 0 then Some (ret, s3)
          else do {
            s4 \<leftarrow> set_cwd_nolock dir s3;
            s5 \<leftarrow> (case old of None \<Rightarrow> Some s4 | Some q \<Rightarrow> inode_ref_dec T q s4);
            Some (0, s5)
          }
        });
     s6 \<leftarrow> unlock_cfs s5;
     Some (ret, s6)
   }"

section \<open>Path names\<close>

text \<open>
  The results of \<open>get_device\<close>: return code, rest of the path, start inode, contents of the path buffer, state.
\<close>

definition get_device :: "'a fs_st_scheme vtab \<Rightarrow> string \<Rightarrow> 'a fs_st_scheme \<Rightarrow>
    (int \<times> string \<times> ptr option \<times> string \<times> 'a fs_st_scheme) option" where
  "get_device T path s =
     (let i = length (takeWhile (\<lambda>c. c \<noteq> CHR '':'' \<and> c \<noteq> CHR ''/'') path);
          colon = i < length path \<and> path ! i = CHR '':'';
          slash = i < length path \<and> path ! i = CHR ''/''
      in if \<not> colon \<and> \<not> (slash \<and> i = 0) then do {
           (ret, p, s1) \<leftarrow> vfs_get_curdir s;
           Some (ret, path, p, path, s1)
         }
         else if colon \<and> i > 0 then do {
           (ret, p, s1) \<leftarrow> vfs_get_root T (take i path) s;
           Some (ret, dropWhile (\<lambda>c. c = CHR ''/'') (drop (i + 1) path), p, take i path, s1)
         }
         else do {
           (ret, p, s1) \<leftarrow>
             (if slash then vfs_get_bootfs s
              else do {
                (ret, q, s1) \<leftarrow> vfs_get_curdir s;
                if ret \<noteq> 0 then Some (ret, None, s1)
                else do {
                  q1 \<leftarrow> q;
                  n \<leftarrow> inodes s1 q1;
                  fs \<leftarrow> in_fs n;
                  (root, s2) \<leftarrow> fs_get_root (vt_fs T fs) fs s1;
                  s3 \<leftarrow> inode_ref_dec T q1 s2;
                  Some (0, root, s3)
                }
              });
           Some (ret, dropWhile (\<lambda>c. c = CHR ''/'') (drop 1 path), p, path, s1)
         })"

definition vfs_lookup :: "'a fs_st_scheme vtab \<Rightarrow> string \<Rightarrow> 'a fs_st_scheme \<Rightarrow>
    (int \<times> ptr option \<times> string \<times> 'a fs_st_scheme) option" where
  "vfs_lookup T path s = do {
     (ret, sub, p, buf, s1) \<leftarrow> get_device T path s;
     if ret \<noteq> 0 then Some (ret, None, buf, s1)
     else if sub \<noteq> [] then do {
       q \<leftarrow> p;
       f \<leftarrow> vop_op T op_lookup q s1;
       (ret2, r, s2) \<leftarrow> f q sub s1;
       s3 \<leftarrow> inode_ref_dec T q s2;
       Some (ret2, r, buf, s3)
     }
     else Some (0, p, buf, s1)
   }"

definition vfs_lookup_parent :: "'a fs_st_scheme vtab \<Rightarrow> string \<Rightarrow> 'a fs_st_scheme \<Rightarrow>
    (int \<times> ptr option \<times> string \<times> string \<times> 'a fs_st_scheme) option" where
  "vfs_lookup_parent T path s = do {
     (ret, sub, p, buf, s1) \<leftarrow> get_device T path s;
     if ret \<noteq> 0 then Some (ret, None, [], buf, s1) else Some (0, p, sub, buf, s1)
   }"

definition vfs_chdir :: "'a fs_st_scheme vtab \<Rightarrow> string \<Rightarrow> 'a fs_st_scheme \<Rightarrow> (int \<times> string \<times> 'a fs_st_scheme) option" where
  "vfs_chdir T path s = do {
     (ret, p, buf, s1) \<leftarrow> vfs_lookup T path s;
     if ret = 0 then do {
       (ret2, s2) \<leftarrow> vfs_set_curdir T p s1;
       q \<leftarrow> p;
       s3 \<leftarrow> inode_ref_dec T q s2;
       Some (ret2, buf, s3)
     } else Some (ret, buf, s1)
   }"

definition vfs_set_bootfs :: "'a fs_st_scheme vtab \<Rightarrow> string option \<Rightarrow> 'a fs_st_scheme \<Rightarrow> (int \<times> 'a fs_st_scheme) option" where
  "vfs_set_bootfs T fsname s =
     (case fsname of None \<Rightarrow> do { s1 \<leftarrow> change_bootfs T None s; Some (0, s1) }
      | Some name \<Rightarrow>
          (case dropWhile (\<lambda>c. c \<noteq> CHR '':'') name of
             [c] \<Rightarrow> do {
               (ret, buf, s1) \<leftarrow> vfs_chdir T name s;
               if ret \<noteq> 0 then Some (ret, s1)
               else do {
                 (ret2, p, s2) \<leftarrow> vfs_get_curdir s1;
                 if ret2 \<noteq> 0 then Some (ret2, s2)
                 else do { s3 \<leftarrow> change_bootfs T p s2; Some (0, s3) }
               }
             }
           | _ \<Rightarrow> Some (- E_INVAL, s)))"

text \<open>\<open>iobuf_puts\<close> is \<^verbatim>\<open>iobuf_move\<close> into the buffer from an object \<open>bs\<close> outside the modelled memory (the device name, a local variable).\<close>

definition iobuf_puts :: "iobuf \<Rightarrow> string \<Rightarrow> mem \<Rightarrow> (int \<times> iobuf \<times> mem) option" where
  "iobuf_puts iob bs m = do {
     let len = of_nat (length bs);
     let alen = (if io_resid iob > len then len else io_resid iob);
     let m' = (\<lambda>a. if io_base iob \<le> a \<and> a < io_base iob + unat alen then of_char (bs ! (a - io_base iob)) else m a);
     iob' \<leftarrow> iobuf_skip iob alen;
     Some (if len - alen = 0 then 0 else - E_NO_MEM, iob', m')
   }"

definition vfs_getcwd :: "'a fs_st_scheme vtab \<Rightarrow> iobuf \<Rightarrow> 'a fs_st_scheme \<Rightarrow> (int \<times> iobuf \<times> 'a fs_st_scheme) option" where
  "vfs_getcwd T iob s = do {
     (ret, p, s1) \<leftarrow> vfs_get_curdir s;
     if ret \<noteq> 0 then Some (ret, iob, s1)
     else do {
       q \<leftarrow> p;
       n \<leftarrow> inodes s1 q;
       fs \<leftarrow> in_fs n;
       name \<leftarrow> vfs_get_devname fs s1;
       (r1, iob1, m1) \<leftarrow> iobuf_puts iob name (kmem s1);
       let s2 = s1\<lparr>kmem := m1\<rparr>;
       (ret3, iob3, s3) \<leftarrow>
         (if r1 \<noteq> 0 then Some (r1, iob1, s2)
          else do {
            (r2, iob2, m2) \<leftarrow> iobuf_puts iob1 '':'' (kmem s2);
            let s2 = s2\<lparr>kmem := m2\<rparr>;
            if r2 \<noteq> 0 then Some (r2, iob2, s2)
            else do { f \<leftarrow> vop_op T op_namefile q s2; f q iob2 s2 }
          });
       s4 \<leftarrow> inode_ref_dec T q s3;
       Some (ret3, iob3, s4)
     }
   }"

section \<open>Opening and closing\<close>

definition O_RDONLY :: u32 where "O_RDONLY = 0"
definition O_WRONLY :: u32 where "O_WRONLY = 1"
definition O_RDWR :: u32 where "O_RDWR = 2"
definition O_CREAT :: u32 where "O_CREAT = 4"
definition O_EXCL :: u32 where "O_EXCL = 8"
definition O_TRUNC :: u32 where "O_TRUNC = 0x10"
definition O_APPEND :: u32 where "O_APPEND = 0x20"
definition O_ACCMODE :: u32 where "O_ACCMODE = 3"

lemmas o_defs = O_RDONLY_def O_WRONLY_def O_RDWR_def O_CREAT_def O_EXCL_def O_TRUNC_def O_APPEND_def O_ACCMODE_def

definition vfs_close :: "'a fs_st_scheme vtab \<Rightarrow> ptr \<Rightarrow> 'a fs_st_scheme \<Rightarrow> 'a fs_st_scheme option" where
  "vfs_close T p s = do { s1 \<leftarrow> inode_open_dec T p s; inode_ref_dec T p s1 }"

text \<open>The result of \<^verbatim>\<open>vop_create\<close> is overwritten by that of \<^verbatim>\<open>vop_open\<close> before it is looked at.\<close>

definition vfs_open :: "'a fs_st_scheme vtab \<Rightarrow> string \<Rightarrow> u32 \<Rightarrow> 'a fs_st_scheme \<Rightarrow> (int \<times> ptr option \<times> 'a fs_st_scheme) option" where
  "vfs_open T path open_flags s =
     (let acc = open_flags AND O_ACCMODE; can_write = (acc = O_WRONLY \<or> acc = O_RDWR);
          excl = (open_flags AND O_EXCL \<noteq> 0); create = (open_flags AND O_CREAT \<noteq> 0);
          trunc = (open_flags AND O_TRUNC \<noteq> 0)
      in if \<not> (acc = O_RDONLY \<or> can_write) then Some (- E_INVAL, None, s)
         else if trunc \<and> \<not> can_write then Some (- E_INVAL, None, s)
         else do {
           (ret, p, buf, s1) \<leftarrow> vfs_lookup T path s;
           (ret2, p2, s2) \<leftarrow>
             (if ret \<noteq> 0 then
                (if ret = - 16 \<and> create then do {
                   (ret2, dir, name, buf2, s2) \<leftarrow> vfs_lookup_parent T buf s1;
                   if ret2 \<noteq> 0 then Some (ret2, None, s2)
                   else do {
                     d \<leftarrow> dir;
                     f \<leftarrow> vop_op T op_create d s2;
                     (_, p2, s3) \<leftarrow> f d name excl s2;
                     Some (0, p2, s3)
                   }
                 } else Some (ret, None, s1))
              else if excl \<and> create then Some (- E_EXISTS, None, s1)
              else Some (0, p, s1));
           if ret2 \<noteq> 0 then Some (ret2, None, s2)
           else do {
             q \<leftarrow> p2;
             f \<leftarrow> vop_op T op_open q s2;
             (ret3, s3) \<leftarrow> f q open_flags s2;
             if ret3 \<noteq> 0 then do { s4 \<leftarrow> inode_ref_dec T q s3; Some (ret3, None, s4) }
             else do {
               s4 \<leftarrow> inode_open_inc q s3;
               if trunc \<or> create then do {
                 g \<leftarrow> vop_op T op_truncate q s4;
                 (ret5, s5) \<leftarrow> g q 0 s4;
                 if ret5 \<noteq> 0 then do {
                   s6 \<leftarrow> inode_open_dec T q s5;
                   s7 \<leftarrow> inode_ref_dec T q s6;
                   Some (ret5, None, s7)
                 }
                 else Some (0, Some q, s5)
               }
               else Some (0, Some q, s4)
             }
           }
         })"

definition vfs_unlink :: "string \<Rightarrow> int" where "vfs_unlink path = - E_UNIMP"
definition vfs_rename :: "string \<Rightarrow> string \<Rightarrow> int" where "vfs_rename old_path new_path = - E_UNIMP"
definition vfs_link :: "string \<Rightarrow> string \<Rightarrow> int" where "vfs_link old_path new_path = - E_UNIMP"
definition vfs_symlink :: "string \<Rightarrow> string \<Rightarrow> int" where "vfs_symlink old_path new_path = - E_UNIMP"
definition vfs_readlink :: "string \<Rightarrow> iobuf \<Rightarrow> int" where "vfs_readlink path iob = - E_UNIMP"
definition vfs_mkdir :: "string \<Rightarrow> int" where "vfs_mkdir path = - E_UNIMP"

end
