(* ===== verification/File.thy ===== *)
theory File
  imports Vfs
begin

text \<open>
  Open files (\<^verbatim>\<open>kern/fs/file.c\<close>, \<^verbatim>\<open>file.h\<close>) and the files of a process (\<^verbatim>\<open>kern/fs/fs.c\<close>, \<^verbatim>\<open>fs.h\<close>).  A
  \<^verbatim>\<open>struct file *\<close> is the address of the \<^verbatim>\<open>files_struct\<close> with an index into its table.  An operation on an open file
  acquires the entry, calls into the file system and releases the entry; the call goes through \<open>T\<close> and may
  change every part of the state, so the code after it reads the entry again.
\<close>

section \<open>The table of open files\<close>

text \<open>\<^verbatim>\<open>sizeof(struct files_struct)\<close> is 48 and \<^verbatim>\<open>sizeof(struct file)\<close> is 56 (\<^verbatim>\<open>bool\<close> is a \<^verbatim>\<open>long long\<close> here).\<close>

definition FILES_STRUCT_BUFSIZE :: nat where "FILES_STRUCT_BUFSIZE = 4096 - 48"
definition FILES_STRUCT_NENTRY :: nat where "FILES_STRUCT_NENTRY = FILES_STRUCT_BUFSIZE div 56"
definition NO_FD :: int where "NO_FD = - 0x9527"

lemma FILES_STRUCT_NENTRY [simp]: "FILES_STRUCT_NENTRY = 72"
  by (simp add: FILES_STRUCT_NENTRY_def FILES_STRUCT_BUFSIZE_def)

definition testfd :: "int \<Rightarrow> bool" where
  "testfd i \<longleftrightarrow> 0 \<le> i \<and> i < int FILES_STRUCT_NENTRY"

definition file_at :: "ptr \<Rightarrow> nat \<Rightarrow> 'a fs_st_scheme \<Rightarrow> file_t option" where
  "file_at q i s = do {
     fs \<leftarrow> files s q;
     if i < length (fd_array fs) then Some (fd_array fs ! i) else None
   }"

definition upd_file :: "ptr \<Rightarrow> nat \<Rightarrow> (file_t \<Rightarrow> file_t) \<Rightarrow> 'a fs_st_scheme \<Rightarrow> 'a fs_st_scheme" where
  "upd_file q i f s =
     s\<lparr>files := (files s)(q := map_option (\<lambda>fs. fs\<lparr>fd_array := (fd_array fs)[i := f (fd_array fs ! i)]\<rparr>) (files s q))\<rparr>"

definition get_fd_array :: "'a fs_st_scheme \<Rightarrow> ptr option" where
  "get_fd_array s = do { q \<leftarrow> filesp s; fs \<leftarrow> files s q; kassert (files_count fs > 0); Some q }"

text \<open>\<open>us\<close> is what the new memory held before.\<close>

definition fd_array_init :: "file_t list \<Rightarrow> file_t list" where
  "fd_array_init us = map (\<lambda>i. (us ! i)\<lparr>f_open_count := 0, f_status := FD_NONE, f_fd := int i\<rparr>) [0..<FILES_STRUCT_NENTRY]"

definition fd_array_alloc :: "int \<Rightarrow> 'a fs_st_scheme \<Rightarrow> (int \<times> (ptr \<times> nat) option \<times> 'a fs_st_scheme) option" where
  "fd_array_alloc i s = do {
     q \<leftarrow> get_fd_array s;
     fs \<leftarrow> files s q;
     let found = (\<lambda>j. do {
       kassert (f_open_count (fd_array fs ! j) = 0);
       Some (0, Some (q, j), upd_file q j (\<lambda>f. f\<lparr>f_status := FD_INIT, f_node := None\<rparr>) s)
     });
     if i = NO_FD then
       (case find_index (\<lambda>f. f_status f = FD_NONE) (take FILES_STRUCT_NENTRY (fd_array fs)) of
          None \<Rightarrow> Some (- E_MAX_OPEN, None, s) | Some j \<Rightarrow> found j)
     else if testfd i then
       (if f_status (fd_array fs ! nat i) = FD_NONE then found (nat i) else Some (- E_BUSY, None, s))
     else Some (- E_INVAL, None, s)
   }"

definition fd_array_free :: "'a fs_st_scheme vtab \<Rightarrow> ptr \<Rightarrow> nat \<Rightarrow> 'a fs_st_scheme \<Rightarrow> 'a fs_st_scheme option" where
  "fd_array_free T q i s = do {
     f \<leftarrow> file_at q i s;
     kassert (f_status f = FD_INIT \<or> f_status f = FD_CLOSED);
     kassert (f_open_count f = 0);
     s1 \<leftarrow> (if f_status f = FD_CLOSED then do { p \<leftarrow> f_node f; vfs_close T p s } else Some s);
     Some (upd_file q i (\<lambda>f. f\<lparr>f_status := FD_NONE\<rparr>) s1)
   }"

definition fd_array_acquire :: "ptr \<Rightarrow> nat \<Rightarrow> 'a fs_st_scheme \<Rightarrow> 'a fs_st_scheme option" where
  "fd_array_acquire q i s = do {
     f \<leftarrow> file_at q i s;
     kassert (f_status f = FD_OPENED);
     Some (upd_file q i (\<lambda>f. f\<lparr>f_open_count := f_open_count f + 1\<rparr>) s)
   }"

definition fd_array_release :: "'a fs_st_scheme vtab \<Rightarrow> ptr \<Rightarrow> nat \<Rightarrow> 'a fs_st_scheme \<Rightarrow> 'a fs_st_scheme option" where
  "fd_array_release T q i s = do {
     f \<leftarrow> file_at q i s;
     kassert (f_status f = FD_OPENED \<or> f_status f = FD_CLOSED);
     kassert (f_open_count f > 0);
     let s1 = upd_file q i (\<lambda>f. f\<lparr>f_open_count := f_open_count f - 1\<rparr>) s;
     if f_open_count f - 1 = 0 then fd_array_free T q i s1 else Some s1
   }"

definition fd_array_open :: "ptr \<Rightarrow> nat \<Rightarrow> 'a fs_st_scheme \<Rightarrow> 'a fs_st_scheme option" where
  "fd_array_open q i s = do {
     f \<leftarrow> file_at q i s;
     kassert (f_status f = FD_INIT \<and> f_node f \<noteq> None);
     Some (upd_file q i (\<lambda>f. f\<lparr>f_status := FD_OPENED, f_open_count := f_open_count f + 1\<rparr>) s)
   }"

definition fd_array_close :: "'a fs_st_scheme vtab \<Rightarrow> ptr \<Rightarrow> nat \<Rightarrow> 'a fs_st_scheme \<Rightarrow> 'a fs_st_scheme option" where
  "fd_array_close T q i s = do {
     f \<leftarrow> file_at q i s;
     kassert (f_status f = FD_OPENED);
     kassert (f_open_count f > 0);
     let s1 = upd_file q i (\<lambda>f. f\<lparr>f_status := FD_CLOSED, f_open_count := f_open_count f - 1\<rparr>) s;
     if f_open_count f - 1 = 0 then fd_array_free T q i s1 else Some s1
   }"

definition fd_array_dup :: "ptr \<Rightarrow> nat \<Rightarrow> ptr \<Rightarrow> nat \<Rightarrow> 'a fs_st_scheme \<Rightarrow> 'a fs_st_scheme option" where
  "fd_array_dup q1 i1 q2 i2 s = do {
     t \<leftarrow> file_at q1 i1 s;
     f \<leftarrow> file_at q2 i2 s;
     kassert (f_status t = FD_INIT \<and> f_status f = FD_OPENED);
     let s1 = upd_file q1 i1 (\<lambda>t. t\<lparr>f_pos := f_pos f, f_readable := f_readable f, f_writable := f_writable f\<rparr>) s;
     p \<leftarrow> f_node f;
     s2 \<leftarrow> inode_ref_inc p s1;
     s3 \<leftarrow> inode_open_inc p s2;
     fd_array_open q1 i1 (upd_file q1 i1 (\<lambda>t. t\<lparr>f_node := Some p\<rparr>) s3)
   }"

text \<open>The result of \<open>fd2file\<close> is the entry, if the descriptor is open; the code returns \<^verbatim>\<open>-E_INVAL\<close> otherwise.\<close>

definition fd2file :: "int \<Rightarrow> 'a fs_st_scheme \<Rightarrow> (ptr \<times> nat) option option" where
  "fd2file i s =
     (if testfd i then do {
        q \<leftarrow> get_fd_array s;
        f \<leftarrow> file_at q (nat i) s;
        Some (if f_status f = FD_OPENED \<and> f_fd f = i then Some (q, nat i) else None)
      } else Some None)"

section \<open>Operations on descriptors\<close>

definition file_testfd :: "int \<Rightarrow> bool \<Rightarrow> bool \<Rightarrow> 'a fs_st_scheme \<Rightarrow> bool option" where
  "file_testfd i rd wr s = do {
     e \<leftarrow> fd2file i s;
     case e of None \<Rightarrow> Some False
     | Some (q, j) \<Rightarrow> do {
         f \<leftarrow> file_at q j s;
         Some (\<not> (rd \<and> \<not> f_readable f) \<and> \<not> (wr \<and> \<not> f_writable f))
       }
   }"

text \<open>The second half of \<^verbatim>\<open>file_open\<close>: the entry \<open>(q, i)\<close> is initialised and \<open>n\<close> is the opened inode.\<close>

definition file_open_node ::
  "'a fs_st_scheme vtab \<Rightarrow> ptr \<Rightarrow> nat \<Rightarrow> ptr \<Rightarrow> u32 \<Rightarrow> bool \<Rightarrow> bool \<Rightarrow> 'a fs_st_scheme \<Rightarrow> (int \<times> 'a fs_st_scheme) option" where
  "file_open_node T q i n open_flags rd wr s2 = do {
     let s3 = upd_file q i (\<lambda>f. f\<lparr>f_pos := 0\<rparr>) s2;
     (ret4, s4) \<leftarrow>
       (if open_flags AND O_APPEND \<noteq> 0 then do {
          g \<leftarrow> vop_op T op_fstat n s3;
          (r, st, s4) \<leftarrow> g n s3;
          if r \<noteq> 0 then do { s5 \<leftarrow> vfs_close T n s4; s6 \<leftarrow> fd_array_free T q i s5; Some (r, s6) }
          else Some (0, upd_file q i (\<lambda>f. f\<lparr>f_pos := st_size st\<rparr>) s4)
        } else Some (0, s3));
     if ret4 \<noteq> 0 then Some (ret4, s4)
     else do {
       s5 \<leftarrow> fd_array_open q i (upd_file q i (\<lambda>f. f\<lparr>f_node := Some n, f_readable := rd, f_writable := wr\<rparr>) s4);
       f \<leftarrow> file_at q i s5;
       Some (f_fd f, s5)
     }
   }"

definition file_open :: "'a fs_st_scheme vtab \<Rightarrow> string \<Rightarrow> u32 \<Rightarrow> 'a fs_st_scheme \<Rightarrow> (int \<times> 'a fs_st_scheme) option" where
  "file_open T path open_flags s =
     (let acc = open_flags AND O_ACCMODE;
          rd = (acc = O_RDONLY \<or> acc = O_RDWR); wr = (acc = O_WRONLY \<or> acc = O_RDWR)
      in if \<not> (rd \<or> wr) then Some (- E_INVAL, s)
         else do {
           (ret, e, s1) \<leftarrow> fd_array_alloc NO_FD s;
           if ret \<noteq> 0 then Some (ret, s1)
           else do {
             (q, i) \<leftarrow> e;
             (ret2, p, s2) \<leftarrow> vfs_open T path open_flags s1;
             if ret2 \<noteq> 0 then do { s3 \<leftarrow> fd_array_free T q i s2; Some (ret2, s3) }
             else do { n \<leftarrow> p; file_open_node T q i n open_flags rd wr s2 }
           }
         })"

definition file_close :: "'a fs_st_scheme vtab \<Rightarrow> int \<Rightarrow> 'a fs_st_scheme \<Rightarrow> (int \<times> 'a fs_st_scheme) option" where
  "file_close T i s = do {
     e \<leftarrow> fd2file i s;
     case e of None \<Rightarrow> Some (- E_INVAL, s)
     | Some (q, j) \<Rightarrow> do { s1 \<leftarrow> fd_array_close T q j s; Some (0, s1) }
   }"

text \<open>\<^verbatim>\<open>sizeof(kpu_buff)\<close>; the results are the return code, the number of bytes reported, and the state.\<close>

definition sizeof_kpu_buff :: u64 where "sizeof_kpu_buff = 48"

definition file_read :: "'a fs_st_scheme vtab \<Rightarrow> int \<Rightarrow> nat \<Rightarrow> u64 \<Rightarrow> 'a fs_st_scheme \<Rightarrow> (int \<times> u64 \<times> 'a fs_st_scheme) option" where
  "file_read T i base len s = do {
     e \<leftarrow> fd2file i s;
     case e of None \<Rightarrow> Some (- E_INVAL, 0, s)
     | Some (q, j) \<Rightarrow> do {
         f \<leftarrow> file_at q j s;
         if \<not> f_readable f then Some (- E_INVAL, 0, s)
         else do {
           s1 \<leftarrow> fd_array_acquire q j s;
           p \<leftarrow> f_node f;
           g \<leftarrow> vop_op T op_read p s1;
           (ret, iob, s2) \<leftarrow> g p (iobuf_init base len (f_pos f)) s1;
           let copied = iobuf_used iob;
           f2 \<leftarrow> file_at q j s2;
           let s3 = (if f_status f2 = FD_OPENED then upd_file q j (\<lambda>f. f\<lparr>f_pos := f_pos f + copied\<rparr>) s2 else s2);
           s4 \<leftarrow> fd_array_release T q j s3;
           Some (ret, if i = 2 then sizeof_kpu_buff else copied, s4)
         }
       }
   }"

definition file_write :: "'a fs_st_scheme vtab \<Rightarrow> int \<Rightarrow> nat \<Rightarrow> u64 \<Rightarrow> 'a fs_st_scheme \<Rightarrow> (int \<times> u64 \<times> 'a fs_st_scheme) option" where
  "file_write T i base len s = do {
     e \<leftarrow> fd2file i s;
     case e of None \<Rightarrow> Some (- E_INVAL, 0, s)
     | Some (q, j) \<Rightarrow> do {
         f \<leftarrow> file_at q j s;
         if \<not> f_writable f then Some (- E_INVAL, 0, s)
         else do {
           s1 \<leftarrow> fd_array_acquire q j s;
           p \<leftarrow> f_node f;
           g \<leftarrow> vop_op T op_write p s1;
           (ret, iob, s2) \<leftarrow> g p (iobuf_init base len (f_pos f)) s1;
           let copied = iobuf_used iob;
           f2 \<leftarrow> file_at q j s2;
           let s3 = (if f_status f2 = FD_OPENED then upd_file q j (\<lambda>f. f\<lparr>f_pos := f_pos f + copied\<rparr>) s2 else s2);
           s4 \<leftarrow> fd_array_release T q j s3;
           Some (ret, copied, s4)
         }
       }
   }"

definition LSEEK_SET :: int where "LSEEK_SET = 0"
definition LSEEK_CUR :: int where "LSEEK_CUR = 1"
definition LSEEK_END :: int where "LSEEK_END = 2"

definition file_seek :: "'a fs_st_scheme vtab \<Rightarrow> int \<Rightarrow> u64 \<Rightarrow> int \<Rightarrow> 'a fs_st_scheme \<Rightarrow> (int \<times> 'a fs_st_scheme) option" where
  "file_seek T i off whence s = do {
     e \<leftarrow> fd2file i s;
     case e of None \<Rightarrow> Some (- E_INVAL, s)
     | Some (q, j) \<Rightarrow> do {
         f \<leftarrow> file_at q j s;
         s1 \<leftarrow> fd_array_acquire q j s;
         (ret, off2, s2) \<leftarrow>
           (if whence = LSEEK_SET then Some (0, off, s1)
            else if whence = LSEEK_CUR then Some (0, off + f_pos f, s1)
            else if whence = LSEEK_END then do {
              p \<leftarrow> f_node f;
              g \<leftarrow> vop_op T op_fstat p s1;
              (r, st, s2) \<leftarrow> g p s1;
              Some (r, if r = 0 then off + st_size st else off, s2)
            } else Some (- E_INVAL, off, s1));
         (ret3, s3) \<leftarrow>
           (if ret = 0 then do {
              f2 \<leftarrow> file_at q j s2;
              p \<leftarrow> f_node f2;
              g \<leftarrow> vop_op T op_tryseek p s2;
              (r, s3) \<leftarrow> g p off2 s2;
              Some (r, if r = 0 then upd_file q j (\<lambda>f. f\<lparr>f_pos := off2\<rparr>) s3 else s3)
            } else Some (ret, s2));
         s4 \<leftarrow> fd_array_release T q j s3;
         Some (ret3, s4)
       }
   }"

definition file_fstat :: "'a fs_st_scheme vtab \<Rightarrow> int \<Rightarrow> 'a fs_st_scheme \<Rightarrow> (int \<times> stat option \<times> 'a fs_st_scheme) option" where
  "file_fstat T i s = do {
     e \<leftarrow> fd2file i s;
     case e of None \<Rightarrow> Some (- E_INVAL, None, s)
     | Some (q, j) \<Rightarrow> do {
         f \<leftarrow> file_at q j s;
         s1 \<leftarrow> fd_array_acquire q j s;
         p \<leftarrow> f_node f;
         g \<leftarrow> vop_op T op_fstat p s1;
         (ret, st, s2) \<leftarrow> g p s1;
         s3 \<leftarrow> fd_array_release T q j s2;
         Some (ret, Some st, s3)
       }
   }"

definition file_fsync :: "'a fs_st_scheme vtab \<Rightarrow> int \<Rightarrow> 'a fs_st_scheme \<Rightarrow> (int \<times> 'a fs_st_scheme) option" where
  "file_fsync T i s = do {
     e \<leftarrow> fd2file i s;
     case e of None \<Rightarrow> Some (- E_INVAL, s)
     | Some (q, j) \<Rightarrow> do {
         f \<leftarrow> file_at q j s;
         s1 \<leftarrow> fd_array_acquire q j s;
         p \<leftarrow> f_node f;
         g \<leftarrow> vop_op T op_fsync p s1;
         (ret, s2) \<leftarrow> g p s1;
         s3 \<leftarrow> fd_array_release T q j s2;
         Some (ret, s3)
       }
   }"

text \<open>The directory entry is given by the address of its name buffer, 256 bytes, and its offset, which is also a result.\<close>

definition file_getdirentry :: "'a fs_st_scheme vtab \<Rightarrow> int \<Rightarrow> nat \<Rightarrow> u64 \<Rightarrow> 'a fs_st_scheme \<Rightarrow> (int \<times> u64 \<times> 'a fs_st_scheme) option" where
  "file_getdirentry T i name offset s = do {
     e \<leftarrow> fd2file i s;
     case e of None \<Rightarrow> Some (- E_INVAL, offset, s)
     | Some (q, j) \<Rightarrow> do {
         f \<leftarrow> file_at q j s;
         s1 \<leftarrow> fd_array_acquire q j s;
         p \<leftarrow> f_node f;
         g \<leftarrow> vop_op T op_getdirentry p s1;
         (ret, iob, s2) \<leftarrow> g p (iobuf_init name 256 offset) s1;
         s3 \<leftarrow> fd_array_release T q j s2;
         Some (ret, if ret = 0 then offset + iobuf_used iob else offset, s3)
       }
   }"

definition file_dup :: "int \<Rightarrow> int \<Rightarrow> 'a fs_st_scheme \<Rightarrow> (int \<times> 'a fs_st_scheme) option" where
  "file_dup fd1 fd2 s = do {
     e1 \<leftarrow> fd2file fd1 s;
     case e1 of None \<Rightarrow> Some (- E_INVAL, s)
     | Some (q1, j1) \<Rightarrow> do {
         (ret, e2, s1) \<leftarrow> fd_array_alloc fd2 s;
         if ret \<noteq> 0 then Some (ret, s1)
         else do {
           (q2, j2) \<leftarrow> e2;
           s2 \<leftarrow> fd_array_dup q2 j2 q1 j1 s1;
           f \<leftarrow> file_at q2 j2 s2;
           Some (f_fd f, s2)
         }
       }
   }"

section \<open>The files of a process\<close>

text \<open>\<open>k\<close> is the answer of \<^verbatim>\<open>kmalloc\<close>, \<open>us\<close> the previous contents of the memory.\<close>

definition files_create :: "ptr option \<Rightarrow> file_t list \<Rightarrow> 'a fs_st_scheme \<Rightarrow> ptr option \<times> 'a fs_st_scheme" where
  "files_create k us s =
     (case k of None \<Rightarrow> (None, s)
      | Some q \<Rightarrow> (Some q, s\<lparr>files := (files s)(q \<mapsto> \<lparr>pwd = None, fd_array = fd_array_init us, files_count = 0\<rparr>),
                            locks := (locks s)(files_sem q := False)\<rparr>))"

fun destroy_loop :: "'a fs_st_scheme vtab \<Rightarrow> ptr \<Rightarrow> nat list \<Rightarrow> 'a fs_st_scheme \<Rightarrow> 'a fs_st_scheme option" where
  "destroy_loop T q [] s = Some s"
| "destroy_loop T q (i # is) s = do {
     f \<leftarrow> file_at q i s;
     s1 \<leftarrow> (if f_status f = FD_OPENED then fd_array_close T q i s else Some s);
     f1 \<leftarrow> file_at q i s1;
     kassert (f_status f1 = FD_NONE);
     destroy_loop T q is s1
   }"

definition files_destroy :: "'a fs_st_scheme vtab \<Rightarrow> ptr \<Rightarrow> 'a fs_st_scheme \<Rightarrow> 'a fs_st_scheme option" where
  "files_destroy T q s = do {
     fs \<leftarrow> files s q;
     kassert (files_count fs = 0);
     s1 \<leftarrow> (case pwd fs of None \<Rightarrow> Some s | Some p \<Rightarrow> inode_ref_dec T p s);
     s2 \<leftarrow> destroy_loop T q [0..<FILES_STRUCT_NENTRY] s1;
     Some (s2\<lparr>files := (files s2)(q := None)\<rparr>)
   }"

fun closeall_loop :: "'a fs_st_scheme vtab \<Rightarrow> ptr \<Rightarrow> nat list \<Rightarrow> 'a fs_st_scheme \<Rightarrow> 'a fs_st_scheme option" where
  "closeall_loop T q [] s = Some s"
| "closeall_loop T q (i # is) s = do {
     f \<leftarrow> file_at q i s;
     s1 \<leftarrow> (if f_status f = FD_OPENED then fd_array_close T q i s else Some s);
     closeall_loop T q is s1
   }"

definition files_closeall :: "'a fs_st_scheme vtab \<Rightarrow> ptr \<Rightarrow> 'a fs_st_scheme \<Rightarrow> 'a fs_st_scheme option" where
  "files_closeall T q s = do {
     fs \<leftarrow> files s q;
     kassert (files_count fs > 0);
     closeall_loop T q [2..<FILES_STRUCT_NENTRY] s
   }"

fun dup_files_loop :: "ptr \<Rightarrow> ptr \<Rightarrow> nat list \<Rightarrow> 'a fs_st_scheme \<Rightarrow> 'a fs_st_scheme option" where
  "dup_files_loop to from [] s = Some s"
| "dup_files_loop to from (i # is) s = do {
     f \<leftarrow> file_at from i s;
     s1 \<leftarrow> (if f_status f = FD_OPENED
           then fd_array_dup to i from i (upd_file to i (\<lambda>t. t\<lparr>f_status := FD_INIT\<rparr>) s)
           else Some s);
     dup_files_loop to from is s1
   }"

definition dup_files :: "ptr \<Rightarrow> ptr \<Rightarrow> 'a fs_st_scheme \<Rightarrow> (int \<times> 'a fs_st_scheme) option" where
  "dup_files to from s = do {
     t \<leftarrow> files s to;
     f \<leftarrow> files s from;
     kassert (files_count t = 0 \<and> files_count f > 0);
     let s1 = s\<lparr>files := (files s)(to \<mapsto> t\<lparr>pwd := pwd f\<rparr>)\<rparr>;
     s2 \<leftarrow> (case pwd f of None \<Rightarrow> Some s1 | Some p \<Rightarrow> inode_ref_inc p s1);
     s3 \<leftarrow> dup_files_loop to from [0..<FILES_STRUCT_NENTRY] s2;
     Some (0, s3)
   }"

definition files_count_inc :: "ptr \<Rightarrow> 'a fs_st_scheme \<Rightarrow> 'a fs_st_scheme" where
  "files_count_inc q s = s\<lparr>files := (files s)(q := map_option (\<lambda>fs. fs\<lparr>files_count := files_count fs + 1\<rparr>) (files s q))\<rparr>"

definition files_count_dec :: "ptr \<Rightarrow> 'a fs_st_scheme \<Rightarrow> 'a fs_st_scheme" where
  "files_count_dec q s = s\<lparr>files := (files s)(q := map_option (\<lambda>fs. fs\<lparr>files_count := files_count fs - 1\<rparr>) (files s q))\<rparr>"

end
