(* ===== verification/Proc.thy ===== *)
theory Proc
  imports Timer Vmm File
begin

text \<open>
  The process manager, \<^verbatim>\<open>kern/process/proc.c\<close> with \<^verbatim>\<open>proc.h\<close> and \<^verbatim>\<open>libs/hash.c\<close>: process identifiers, the process list,
  the hash lists and the family links, \<open>do_fork\<close>, \<open>do_exit\<close>, \<open>do_wait\<close>, \<open>do_kill\<close>, \<open>do_sleep\<close> and \<open>proc_init\<close>.

  The state extends the scheduler's by the process tables and by the memory manager's and the file system's state.
  \<open>proc_heap\<close> holds the addresses of the allocated process structures.  A function that ends in \<open>schedule()\<close> is
  modelled up to and with that call; the code that runs when the process continues is a function of its own.
  What \<^verbatim>\<open>kmalloc\<close> answers is an argument.
\<close>

section \<open>State\<close>

record context_t =
  c_ra :: u64
  c_sp :: u64
  c_s :: "nat \<Rightarrow> u64"

record trapframe =
  gpr_sp :: u64
  gpr_s0 :: u64
  gpr_s1 :: u64
  gpr_a0 :: u64
  gpr_other :: "nat \<Rightarrow> u64"
  tf_status :: u64
  tf_epc :: u64
  tf_tval :: u64
  tf_cause :: u64

record 'w proc_st = sched_st +
  proc_list :: "ptr list"
  hash_list :: "u32 \<Rightarrow> ptr list"
  nr_process :: int
  next_safe :: int
  last_pid :: int
  initproc :: "ptr option"
  proc_heap :: "ptr set"
  contexts :: "ptr \<Rightarrow> context_t"
  tf_ptrs :: "ptr \<Rightarrow> u64"
  tframes :: "u64 \<Rightarrow> trapframe"
  mms :: "ptr \<rightharpoonup> mm_struct"
  mm_locked :: "ptr \<Rightarrow> int option"
  swp :: swap_st
  fsys :: "'w fs_st_scheme"
  boot_cr3 :: u64
  boot_pgdir :: nat

abbreviation proc_of :: "ptr \<Rightarrow> 'w proc_st \<Rightarrow> proc_struct" where
  "proc_of p s \<equiv> procs s p"

definition with_vm :: "(vm_st \<Rightarrow> vm_st option) \<Rightarrow> 'w proc_st \<Rightarrow> 'w proc_st option" where
  "with_vm f s = do { v \<leftarrow> f (vm (swp s)); Some (s\<lparr>swp := (swp s)\<lparr>vm := v\<rparr>\<rparr>) }"

definition HASH_SHIFT :: nat where "HASH_SHIFT = 10"
definition HASH_LIST_SIZE :: nat where "HASH_LIST_SIZE = 2 ^ HASH_SHIFT"
definition PROC_NAME_LEN :: nat where "PROC_NAME_LEN = 15"
definition KSTACKPAGE :: nat where "KSTACKPAGE = 8"
definition KSTACKSIZE :: u64 where "KSTACKSIZE = of_nat KSTACKPAGE * PGSIZE"
definition CLONE_VM :: u32 where "CLONE_VM = 0x100"
definition CLONE_FS :: u32 where "CLONE_FS = 0x800"

definition pid_hashfn :: "int \<Rightarrow> u32" where
  "pid_hashfn x = hash32 (word_of_int x) HASH_SHIFT"

section \<open>Process structures\<close>

text \<open>
  \<open>alloc_proc\<close>: \<open>k\<close> is the answer of \<^verbatim>\<open>kmalloc\<close>.  The exit code is the only modelled field the code leaves as it finds it in
  the new memory.
\<close>

definition alloc_proc :: "ptr option \<Rightarrow> 'w proc_st \<Rightarrow> ptr option \<times> 'w proc_st" where
  "alloc_proc k s =
     (case k of None \<Rightarrow> (None, s)
      | Some p \<Rightarrow> (Some p, s\<lparr>
          procs := (procs s)(p := (alloc_proc_init (boot_cr3 s))\<lparr>p_exit_code := p_exit_code (proc_of p s)\<rparr>),
          pools := (pools s)\<lparr>sparent := (sparent (pools s))(p := None), sleft := (sleft (pools s))(p := None),
            sright := (sright (pools s))(p := None)\<rparr>,
          contexts := (contexts s)(p := \<lparr>c_ra = 0, c_sp = 0, c_s = \<lambda>_. 0\<rparr>),
          tf_ptrs := (tf_ptrs s)(p := 0),
          proc_heap := insert p (proc_heap s)\<rparr>))"

definition kfree_proc :: "ptr \<Rightarrow> 'w proc_st \<Rightarrow> 'w proc_st option" where
  "kfree_proc p s = do { kassert (p \<in> proc_heap s); Some (s\<lparr>proc_heap := proc_heap s - {p}\<rparr>) }"

text \<open>Copying 15 bytes of the name into the zeroed array of 16; \<open>name\<close> is the C string, the bytes past its end are not looked at.\<close>

definition set_proc_name :: "ptr \<Rightarrow> string \<Rightarrow> 'w proc_st \<Rightarrow> 'w proc_st" where
  "set_proc_name p name = upd_proc p (\<lambda>q. q\<lparr>p_name := take PROC_NAME_LEN name\<rparr>)"

definition get_proc_name :: "ptr \<Rightarrow> 'w proc_st \<Rightarrow> string" where
  "get_proc_name p s = take PROC_NAME_LEN (p_name (proc_of p s))"

section \<open>Family links\<close>

definition set_links :: "ptr \<Rightarrow> 'w proc_st \<Rightarrow> 'w proc_st option" where
  "set_links p s = do {
     let s1 = upd_proc p (\<lambda>q. q\<lparr>p_yptr := None\<rparr>) (s\<lparr>proc_list := p # proc_list s\<rparr>);
     par \<leftarrow> p_parent (proc_of p s1);
     let s2 = upd_proc p (\<lambda>q. q\<lparr>p_optr := p_cptr (proc_of par s1)\<rparr>) s1;
     let s3 = (case p_optr (proc_of p s2) of None \<Rightarrow> s2 | Some older \<Rightarrow> upd_proc older (\<lambda>q. q\<lparr>p_yptr := Some p\<rparr>) s2);
     let s4 = upd_proc par (\<lambda>q. q\<lparr>p_cptr := Some p\<rparr>) s3;
     Some (s4\<lparr>nr_process := nr_process s4 + 1\<rparr>)
   }"

definition remove_links :: "ptr \<Rightarrow> 'w proc_st \<Rightarrow> 'w proc_st option" where
  "remove_links p s = do {
     let s1 = s\<lparr>proc_list := remove1 p (proc_list s)\<rparr>;
     let s2 = (case p_optr (proc_of p s1) of None \<Rightarrow> s1
               | Some older \<Rightarrow> upd_proc older (\<lambda>q. q\<lparr>p_yptr := p_yptr (proc_of p s1)\<rparr>) s1);
     s3 \<leftarrow> (case p_yptr (proc_of p s2) of
             Some younger \<Rightarrow> Some (upd_proc younger (\<lambda>q. q\<lparr>p_optr := p_optr (proc_of p s2)\<rparr>) s2)
           | None \<Rightarrow> do { par \<leftarrow> p_parent (proc_of p s2);
                        Some (upd_proc par (\<lambda>q. q\<lparr>p_cptr := p_optr (proc_of p s2)\<rparr>) s2) });
     Some (s3\<lparr>nr_process := nr_process s3 - 1\<rparr>)
   }"

section \<open>Process identifiers\<close>

text \<open>
  The \<^verbatim>\<open>while\<close> loop of \<open>get_pid\<close>: the flag of the result is true where the source jumps back to \<^verbatim>\<open>repeat\<close>, the numbers are
  \<^verbatim>\<open>last_pid\<close> and \<^verbatim>\<open>next_safe\<close>.
\<close>

fun pid_walk :: "(ptr \<Rightarrow> int) \<Rightarrow> ptr list \<Rightarrow> int \<Rightarrow> int \<Rightarrow> bool \<times> int \<times> int" where
  "pid_walk pid [] l n = (False, l, n)"
| "pid_walk pid (p # ps) l n =
     (if pid p = l
      then (if l + 1 \<ge> n then (True, if l + 1 \<ge> MAX_PID then 1 else l + 1, MAX_PID) else pid_walk pid ps (l + 1) n)
      else if pid p > l \<and> n > pid p then pid_walk pid ps l (pid p)
      else pid_walk pid ps l n)"

partial_function (option) pid_repeat :: "(ptr \<Rightarrow> int) \<Rightarrow> ptr list \<Rightarrow> int \<Rightarrow> int \<Rightarrow> (int \<times> int) option" where
  "pid_repeat pid ps l n =
     (case pid_walk pid ps l n of (again, l', n') \<Rightarrow> if again then pid_repeat pid ps l' n' else Some (l', n'))"

declare pid_repeat.simps [code]

definition get_pid :: "'w proc_st \<Rightarrow> (int \<times> 'w proc_st) option" where
  "get_pid s =
     (let l = last_pid s + 1;
          inside = (\<lambda>l. do {
            (l', n') \<leftarrow> pid_repeat (\<lambda>p. p_pid (proc_of p s)) (proc_list s) l MAX_PID;
            Some (l', s\<lparr>last_pid := l', next_safe := n'\<rparr>)
          })
      in if l \<ge> MAX_PID then inside 1
         else if l \<ge> next_safe s then inside l
         else Some (l, s\<lparr>last_pid := l\<rparr>))"

definition hash_proc :: "ptr \<Rightarrow> 'w proc_st \<Rightarrow> 'w proc_st" where
  "hash_proc p s = (let h = pid_hashfn (p_pid (proc_of p s)) in s\<lparr>hash_list := (hash_list s)(h := p # hash_list s h)\<rparr>)"

text \<open>\<open>list_del\<close> takes the entry out of the list it is on; that is the list of its hash value, since the pid of a process does not change.\<close>

definition unhash_proc :: "ptr \<Rightarrow> 'w proc_st \<Rightarrow> 'w proc_st" where
  "unhash_proc p s = (let h = pid_hashfn (p_pid (proc_of p s)) in s\<lparr>hash_list := (hash_list s)(h := remove1 p (hash_list s h))\<rparr>)"

definition find_proc :: "int \<Rightarrow> 'w proc_st \<Rightarrow> ptr option" where
  "find_proc pid s =
     (if 0 < pid \<and> pid < MAX_PID then find (\<lambda>p. p_pid (proc_of p s) = pid) (hash_list s (pid_hashfn pid)) else None)"

section \<open>Memory of a process\<close>

definition setup_kstack :: "ptr \<Rightarrow> 'w proc_st \<Rightarrow> (int \<times> 'w proc_st) option" where
  "setup_kstack p s = do {
     (pg, v) \<leftarrow> alloc_pages KSTACKPAGE (vm (swp s));
     let s1 = s\<lparr>swp := (swp s)\<lparr>vm := v\<rparr>\<rparr>;
     case pg of None \<Rightarrow> Some (- E_NO_MEM, s1)
     | Some page \<Rightarrow> do { kva \<leftarrow> page2kva page; Some (0, upd_proc p (\<lambda>q. q\<lparr>p_kstack := kva\<rparr>) s1) }
   }"

definition put_kstack :: "ptr \<Rightarrow> 'w proc_st \<Rightarrow> 'w proc_st option" where
  "put_kstack p s = do { page \<leftarrow> kva2page (p_kstack (proc_of p s)); with_vm (free_pages page KSTACKPAGE) s }"

definition setup_pgdir :: "ptr \<Rightarrow> 'w proc_st \<Rightarrow> (int \<times> 'w proc_st) option" where
  "setup_pgdir m s = do {
     (pg, v) \<leftarrow> alloc_pages 1 (vm (swp s));
     let s1 = s\<lparr>swp := (swp s)\<lparr>vm := v\<rparr>\<rparr>;
     case pg of None \<Rightarrow> Some (- E_NO_MEM, s1)
     | Some page \<Rightarrow> do {
         f \<leftarrow> KADDR (page2pa page);
         let v1 = v\<lparr>frames := (frames v)(f := (\<lambda>_. 0)(511 := frames v (boot_pgdir s) 511))\<rparr>;
         v2 \<leftarrow> setup_kernel_io_mapping f v1;
         mm \<leftarrow> mms s m;
         Some (0, s1\<lparr>swp := (swp s)\<lparr>vm := v2\<rparr>, mms := (mms s)(m \<mapsto> mm\<lparr>pgdir := Some f\<rparr>)\<rparr>)
       }
   }"

definition put_pgdir :: "ptr \<Rightarrow> 'w proc_st \<Rightarrow> 'w proc_st option" where
  "put_pgdir m s = do {
     mm \<leftarrow> mms s m;
     dir \<leftarrow> pgdir mm;
     s1 \<leftarrow> with_vm (free_kernel_io_mapping dir) s;
     with_vm (free_pages dir 1) s1
   }"

definition proc_mm_destroy :: "ptr \<Rightarrow> 'w proc_st \<Rightarrow> 'w proc_st option" where
  "proc_mm_destroy m s = do { mm \<leftarrow> mms s m; mm_destroy mm; Some (s\<lparr>mms := (mms s)(m := None)\<rparr>) }"

definition proc_exit_mmap :: "ptr \<Rightarrow> 'w proc_st \<Rightarrow> 'w proc_st option" where
  "proc_exit_mmap m s = do { mm \<leftarrow> mms s m; with_vm (exit_mmap mm) s }"

text \<open>\<open>down\<close> on a held \<^verbatim>\<open>mm_sem\<close> would block.\<close>

definition lock_mm :: "ptr \<Rightarrow> 'w proc_st \<Rightarrow> 'w proc_st option" where
  "lock_mm m s = do {
     kassert (mm_locked s m = None);
     Some (s\<lparr>mm_locked := (mm_locked s)(m := Some (case current s of None \<Rightarrow> 0 | Some c \<Rightarrow> p_pid (proc_of c s)))\<rparr>)
   }"

definition unlock_mm :: "ptr \<Rightarrow> 'w proc_st \<Rightarrow> 'w proc_st" where
  "unlock_mm m s = s\<lparr>mm_locked := (mm_locked s)(m := None)\<rparr>"

definition mm_count_add :: "ptr \<Rightarrow> int \<Rightarrow> 'w proc_st \<Rightarrow> 'w proc_st" where
  "mm_count_add m d s = s\<lparr>mms := (mms s)(m := map_option (\<lambda>mm. mm\<lparr>mm_count := mm_count mm + d\<rparr>) (mms s m))\<rparr>"

text \<open>The end of \<open>copy_mm\<close>, from the label \<^verbatim>\<open>good_mm\<close>.\<close>

definition good_mm :: "ptr \<Rightarrow> ptr \<Rightarrow> 'w proc_st \<Rightarrow> (int \<times> 'w proc_st) option" where
  "good_mm m p s = do {
     mm \<leftarrow> mms s m;
     dir \<leftarrow> pgdir mm;
     Some (0, upd_proc p (\<lambda>q. q\<lparr>p_mm := Some m, p_cr3 := page2pa dir\<rparr>) (mm_count_add m 1 s))
   }"

text \<open>\<open>k\<close> is the address \<^verbatim>\<open>kmalloc\<close> gives the \<^verbatim>\<open>mm_struct\<close>, \<open>okv\<close> says for which areas it has memory.\<close>

definition copy_mm :: "ptr option \<Rightarrow> (vma_struct \<Rightarrow> bool) \<Rightarrow> u32 \<Rightarrow> ptr \<Rightarrow> 'w proc_st \<Rightarrow> (int \<times> 'w proc_st) option" where
  "copy_mm k okv clone_flags p s = do {
     cur \<leftarrow> current s;
     case p_mm (proc_of cur s) of None \<Rightarrow> Some (0, s)
     | Some oldm \<Rightarrow>
         if clone_flags AND CLONE_VM \<noteq> 0 then good_mm oldm p s
         else (case mm_create (k \<noteq> None) (swp s) of
           (None, sw) \<Rightarrow> Some (- E_NO_MEM, s\<lparr>swp := sw\<rparr>)
         | (Some mm0, sw) \<Rightarrow> do {
             m \<leftarrow> k;
             let s1 = s\<lparr>swp := sw, mms := (mms s)(m \<mapsto> mm0), mm_locked := (mm_locked s)(m := None)\<rparr>;
             (ret, s2) \<leftarrow> setup_pgdir m s1;
             if ret \<noteq> 0 then do { s3 \<leftarrow> proc_mm_destroy m s2; Some (- E_NO_MEM, s3) }
             else do {
               s3 \<leftarrow> lock_mm oldm s2;
               mm \<leftarrow> mms s3 m;
               old \<leftarrow> mms s3 oldm;
               (ret2, mm2, v) \<leftarrow> dup_mmap okv mm old (vm (swp s3));
               let s4 = unlock_mm oldm (s3\<lparr>mms := (mms s3)(m \<mapsto> mm2), swp := (swp s3)\<lparr>vm := v\<rparr>\<rparr>);
               if ret2 \<noteq> 0 then do {
                 s5 \<leftarrow> proc_exit_mmap m s4;
                 s6 \<leftarrow> put_pgdir m s5;
                 s7 \<leftarrow> proc_mm_destroy m s6;
                 Some (ret2, s7)
               } else good_mm m p s4
             }
           })
   }"

text \<open>\<^verbatim>\<open>sizeof(struct trapframe)\<close> is 288; \<open>forkret\<close> is the address of the first kernel code of a new thread.\<close>

definition copy_thread :: "u64 \<Rightarrow> ptr \<Rightarrow> u64 \<Rightarrow> trapframe \<Rightarrow> 'w proc_st \<Rightarrow> 'w proc_st" where
  "copy_thread forkret p esp tf s =
     (let t = p_kstack (proc_of p s) + KSTACKSIZE - 288 in
      s\<lparr>tf_ptrs := (tf_ptrs s)(p := t),
        tframes := (tframes s)(t := tf\<lparr>gpr_a0 := 0, gpr_sp := (if esp = 0 then t else esp)\<rparr>),
        contexts := (contexts s)(p := (contexts s p)\<lparr>c_ra := forkret, c_sp := t\<rparr>)\<rparr>)"

section \<open>Files of a process\<close>

definition with_fs :: "('w fs_st_scheme \<Rightarrow> 'w fs_st_scheme option) \<Rightarrow> 'w proc_st \<Rightarrow> 'w proc_st option" where
  "with_fs f s = do { w \<leftarrow> f (fsys s); Some (s\<lparr>fsys := w\<rparr>) }"

definition good_files_struct :: "ptr \<Rightarrow> ptr \<Rightarrow> 'w proc_st \<Rightarrow> int \<times> 'w proc_st" where
  "good_files_struct q p s = (0, upd_proc p (\<lambda>r. r\<lparr>p_filesp := Some q\<rparr>) (s\<lparr>fsys := files_count_inc q (fsys s)\<rparr>))"

definition copy_files ::
  "'w fs_st_scheme vtab \<Rightarrow> ptr option \<Rightarrow> file_t list \<Rightarrow> u32 \<Rightarrow> ptr \<Rightarrow> 'w proc_st \<Rightarrow> (int \<times> 'w proc_st) option" where
  "copy_files T k us clone_flags p s = do {
     cur \<leftarrow> current s;
     oldq \<leftarrow> p_filesp (proc_of cur s);
     if clone_flags AND CLONE_FS \<noteq> 0 then Some (good_files_struct oldq p s)
     else (case files_create k us (fsys s) of
       (None, w) \<Rightarrow> Some (- E_NO_MEM, s\<lparr>fsys := w\<rparr>)
     | (Some q, w) \<Rightarrow> do {
         (ret, w2) \<leftarrow> dup_files q oldq w;
         let s2 = s\<lparr>fsys := w2\<rparr>;
         if ret \<noteq> 0 then do { s3 \<leftarrow> with_fs (files_destroy T q) s2; Some (ret, s3) }
         else Some (good_files_struct q p s2)
       })
   }"

definition put_files :: "'w fs_st_scheme vtab \<Rightarrow> ptr \<Rightarrow> 'w proc_st \<Rightarrow> 'w proc_st option" where
  "put_files T p s =
     (case p_filesp (proc_of p s) of None \<Rightarrow> Some s
      | Some q \<Rightarrow> do {
          let s1 = s\<lparr>fsys := files_count_dec q (fsys s)\<rparr>;
          fs \<leftarrow> files (fsys s1) q;
          if files_count fs = 0 then with_fs (files_destroy T q) s1 else Some s1
        })"

section \<open>fork\<close>

text \<open>The answers of the kernel allocator during one \<open>do_fork\<close>, and the address of \<open>forkret\<close>.\<close>

record fork_env =
  k_proc :: "ptr option"
  k_files :: "ptr option"
  k_file_mem :: "file_t list"
  k_mm :: "ptr option"
  k_vma :: "vma_struct \<Rightarrow> bool"
  forkret_addr :: u64

text \<open>The second half of \<open>do_fork\<close>: the child's memory, files and stack are there, and it is entered into the tables and woken.\<close>

definition fork_publish :: "ptr \<Rightarrow> 'w proc_st \<Rightarrow> (int \<times> 'w proc_st) option" where
  "fork_publish p s = do {
     (pid, s1) \<leftarrow> get_pid s;
     let s2 = hash_proc p (upd_proc p (\<lambda>q. q\<lparr>p_pid := pid\<rparr>) s1);
     s3 \<leftarrow> set_links p s2;
     s4 \<leftarrow> wakeup_proc default_sched_class p s3;
     Some (p_pid (proc_of p s4), s4)
   }"

text \<open>\<open>do_fork\<close> from \<open>setup_kstack\<close> on, with the exits that undo what was done; \<open>p\<close> is the allocated child.\<close>

definition fork_child :: "'w fs_st_scheme vtab \<Rightarrow> fork_env \<Rightarrow> u32 \<Rightarrow> u64 \<Rightarrow> trapframe \<Rightarrow> ptr \<Rightarrow> 'w proc_st \<Rightarrow> (int \<times> 'w proc_st) option" where
  "fork_child T e clone_flags stack tf p s = do {
     (r1, s1) \<leftarrow> setup_kstack p s;
     if r1 \<noteq> 0 then do { s2 \<leftarrow> kfree_proc p s1; Some (- E_NO_MEM, s2) }
     else do {
       (r2, s2) \<leftarrow> copy_files T (k_files e) (k_file_mem e) clone_flags p s1;
       if r2 \<noteq> 0 then do { s3 \<leftarrow> put_kstack p s2; s4 \<leftarrow> kfree_proc p s3; Some (- E_NO_MEM, s4) }
       else do {
         (r3, s3) \<leftarrow> copy_mm (k_mm e) (k_vma e) clone_flags p s2;
         if r3 \<noteq> 0 then do {
           s4 \<leftarrow> put_files T p s3; s5 \<leftarrow> put_kstack p s4; s6 \<leftarrow> kfree_proc p s5; Some (- E_NO_MEM, s6)
         }
         else fork_publish p (copy_thread (forkret_addr e) p stack tf s3)
       }
     }
   }"

definition do_fork :: "'w fs_st_scheme vtab \<Rightarrow> fork_env \<Rightarrow> u32 \<Rightarrow> u64 \<Rightarrow> trapframe \<Rightarrow> 'w proc_st \<Rightarrow> (int \<times> 'w proc_st) option" where
  "do_fork T e clone_flags stack tf s =
     (if nr_process s \<ge> MAX_PROCESS then Some (- E_NO_FREE_PROC, s)
      else (case alloc_proc (k_proc e) s of
        (None, s1) \<Rightarrow> Some (- E_NO_MEM, s1)
      | (Some p, s1) \<Rightarrow> do {
          cur \<leftarrow> current s1;
          let s2 = upd_proc p (\<lambda>q. q\<lparr>p_parent := Some cur\<rparr>) s1;
          kassert (p_wait_state (proc_of cur s2) = 0);
          fork_child T e clone_flags stack tf p s2
        }))"

definition SSTATUS_SIE :: u64 where "SSTATUS_SIE = 0x2"
definition SSTATUS_SPIE :: u64 where "SSTATUS_SPIE = 0x20"
definition SSTATUS_SPP :: u64 where "SSTATUS_SPP = 0x100"

definition kernel_thread ::
  "'w fs_st_scheme vtab \<Rightarrow> fork_env \<Rightarrow> u64 \<Rightarrow> u64 \<Rightarrow> u64 \<Rightarrow> u64 \<Rightarrow> u32 \<Rightarrow> 'w proc_st \<Rightarrow> (int \<times> 'w proc_st) option" where
  "kernel_thread T e sstatus kernel_thread_entry fn arg clone_flags s =
     do_fork T e (clone_flags OR CLONE_VM) 0
       \<lparr>gpr_sp = 0, gpr_s0 = fn, gpr_s1 = arg, gpr_a0 = 0, gpr_other = (\<lambda>_. 0),
        tf_status = (sstatus OR SSTATUS_SPP OR SSTATUS_SPIE) AND NOT SSTATUS_SIE,
        tf_epc = kernel_thread_entry, tf_tval = 0, tf_cause = 0\<rparr> s"

section \<open>exit, wait, kill\<close>

text \<open>The pointer updates of one iteration of the loop of \<open>do_exit\<close> that gives the children of \<open>cur\<close> to \<open>init\<close>.\<close>

definition adopt_one :: "ptr \<Rightarrow> ptr \<Rightarrow> ptr \<Rightarrow> 'w proc_st \<Rightarrow> 'w proc_st" where
  "adopt_one cur init p s =
     (let s1 = upd_proc cur (\<lambda>q. q\<lparr>p_cptr := p_optr (proc_of p s)\<rparr>) s;
          s2 = upd_proc p (\<lambda>q. q\<lparr>p_yptr := None, p_optr := p_cptr (proc_of init s1)\<rparr>) s1;
          s3 = (case p_optr (proc_of p s2) of None \<Rightarrow> s2 | Some older \<Rightarrow> upd_proc older (\<lambda>q. q\<lparr>p_yptr := Some p\<rparr>) s2)
      in upd_proc init (\<lambda>q. q\<lparr>p_cptr := Some p\<rparr>) (upd_proc p (\<lambda>q. q\<lparr>p_parent := Some init\<rparr>) s3))"

partial_function (option) adopt_loop :: "ptr \<Rightarrow> ptr \<Rightarrow> 'w proc_st \<Rightarrow> 'w proc_st option" where
  "adopt_loop cur init s =
     (case p_cptr (proc_of cur s) of None \<Rightarrow> Some s
      | Some p \<Rightarrow> do {
          let s4 = adopt_one cur init p s;
          s5 \<leftarrow> (if p_state (proc_of p s4) = PROC_ZOMBIE \<and> p_wait_state (proc_of init s4) = WT_CHILD
                then wakeup_proc default_sched_class init s4 else Some s4);
          adopt_loop cur init s5
        })"

declare adopt_loop.simps [code]

text \<open>The first part of \<open>do_exit\<close>: the memory and, if there was memory, the files.\<close>

definition exit_resources :: "'w fs_st_scheme vtab \<Rightarrow> ptr \<Rightarrow> 'w proc_st \<Rightarrow> 'w proc_st option" where
  "exit_resources T cur s =
     (case p_mm (proc_of cur s) of None \<Rightarrow> Some s
      | Some m \<Rightarrow> do {
          let s1 = mm_count_add m (- 1) (s\<lparr>cr3_reg := boot_cr3 s\<rparr>);
          mm \<leftarrow> mms s1 m;
          s2 \<leftarrow> (if mm_count mm = 0
                then do { a \<leftarrow> proc_exit_mmap m s1; b \<leftarrow> put_pgdir m a; proc_mm_destroy m b }
                else Some s1);
          put_files T cur (upd_proc cur (\<lambda>q. q\<lparr>p_mm := None\<rparr>) s2)
        })"

definition exit_relations :: "ptr \<Rightarrow> 'w proc_st \<Rightarrow> 'w proc_st option" where
  "exit_relations cur s = do {
     par \<leftarrow> p_parent (proc_of cur s);
     s1 \<leftarrow> (if p_wait_state (proc_of par s) = WT_CHILD then wakeup_proc default_sched_class par s else Some s);
     if p_cptr (proc_of cur s1) = None then Some s1 else do { init \<leftarrow> initproc s1; adopt_loop cur init s1 }
   }"

definition do_exit :: "'w fs_st_scheme vtab \<Rightarrow> int \<Rightarrow> 'w proc_st \<Rightarrow> 'w proc_st option" where
  "do_exit T error_code s = do {
     cur \<leftarrow> current s;
     kassert (cur \<noteq> idleproc s);
     kassert (Some cur \<noteq> initproc s);
     s1 \<leftarrow> exit_resources T cur s;
     s2 \<leftarrow> exit_relations cur (upd_proc cur (\<lambda>q. q\<lparr>p_state := PROC_ZOMBIE, p_exit_code := error_code\<rparr>) s1);
     schedule default_sched_class s2
   }"

text \<open>
  One pass of \<open>do_wait\<close> over the children: the first zombie found, or whether there is a child at all.  The walk over the
  siblings follows \<^verbatim>\<open>optr\<close>.
\<close>

datatype wait_scan = Found ptr | Has_kid | No_kid

partial_function (option) sibling_scan :: "(ptr \<Rightarrow> proc_struct) \<Rightarrow> ptr option \<Rightarrow> bool \<Rightarrow> wait_scan option" where
  "sibling_scan P po haskid =
     (case po of None \<Rightarrow> Some (if haskid then Has_kid else No_kid)
      | Some p \<Rightarrow> if p_state (P p) = PROC_ZOMBIE then Some (Found p) else sibling_scan P (p_optr (P p)) True)"

declare sibling_scan.simps [code]

definition wait_scan_pass :: "int \<Rightarrow> ptr \<Rightarrow> 'w proc_st \<Rightarrow> wait_scan option" where
  "wait_scan_pass pid cur s =
     (if pid \<noteq> 0
      then Some (case find_proc pid s of
             Some p \<Rightarrow> if p_parent (proc_of p s) = Some cur
                       then (if p_state (proc_of p s) = PROC_ZOMBIE then Found p else Has_kid) else No_kid
           | None \<Rightarrow> No_kid)
      else sibling_scan (procs s) (p_cptr (proc_of cur s)) False)"

text \<open>Storing an \<^verbatim>\<open>int\<close> through a user pointer, low byte first.\<close>

definition store_int :: "u64 \<Rightarrow> int \<Rightarrow> 'w proc_st \<Rightarrow> 'w proc_st" where
  "store_int a v s = s\<lparr>fsys := (fsys s)\<lparr>kmem := (\<lambda>x. if unat a \<le> x \<and> x < unat a + 4
     then ucast (drop_bit (8 * (x - unat a)) (word_of_int v :: u32)) else kmem (fsys s) x)\<rparr>\<rparr>"

definition wait_found :: "u64 option \<Rightarrow> ptr \<Rightarrow> 'w proc_st \<Rightarrow> 'w proc_st option" where
  "wait_found code_store p s = do {
     kassert (p \<noteq> idleproc s \<and> Some p \<noteq> initproc s);
     let s1 = (case code_store of None \<Rightarrow> s | Some a \<Rightarrow> store_int a (p_exit_code (proc_of p s)) s);
     s2 \<leftarrow> remove_links p (unhash_proc p s1);
     s3 \<leftarrow> put_kstack p s2;
     kfree_proc p s3
   }"

datatype wait_result = Returned int | Blocked

text \<open>The loop of \<open>do_wait\<close> from \<^verbatim>\<open>repeat\<close> to the next \<open>schedule()\<close> or the return.\<close>

definition wait_repeat :: "int \<Rightarrow> u64 option \<Rightarrow> 'w proc_st \<Rightarrow> (wait_result \<times> 'w proc_st) option" where
  "wait_repeat pid code_store s = do {
     cur \<leftarrow> current s;
     r \<leftarrow> wait_scan_pass pid cur s;
     (case r of
        Found p \<Rightarrow> do { s1 \<leftarrow> wait_found code_store p s; Some (Returned 0, s1) }
      | Has_kid \<Rightarrow> do {
          s1 \<leftarrow> schedule default_sched_class (upd_proc cur (\<lambda>q. q\<lparr>p_state := PROC_SLEEPING, p_wait_state := WT_CHILD\<rparr>) s);
          Some (Blocked, s1)
        }
      | No_kid \<Rightarrow> Some (Returned (- E_BAD_PROC), s))
   }"

definition do_wait :: "int \<Rightarrow> u64 option \<Rightarrow> 'w proc_st \<Rightarrow> (wait_result \<times> 'w proc_st) option" where
  "do_wait pid code_store s = do {
     cur \<leftarrow> current s;
     (case code_store of None \<Rightarrow> wait_repeat pid code_store s
      | Some a \<Rightarrow> do {
          let m = p_mm (proc_of cur s);
          (ok, mm1) \<leftarrow> user_mem_check (m \<bind> mms s) a 4 True;
          let s1 = (case m of None \<Rightarrow> s | Some q \<Rightarrow> s\<lparr>mms := (mms s)(q := mm1)\<rparr>);
          if ok then wait_repeat pid code_store s1 else Some (Returned (- E_INVAL), s1)
        })
   }"

text \<open>What a waiting process does when it runs again.\<close>

definition wait_resume :: "'w fs_st_scheme vtab \<Rightarrow> int \<Rightarrow> u64 option \<Rightarrow> 'w proc_st \<Rightarrow> (wait_result \<times> 'w proc_st) option" where
  "wait_resume T pid code_store s = do {
     cur \<leftarrow> current s;
     if p_flags (proc_of cur s) AND PF_EXITING \<noteq> 0
     then do { s1 \<leftarrow> do_exit T (- E_KILLED) s; Some (Blocked, s1) }
     else wait_repeat pid code_store s
   }"

definition do_kill :: "int \<Rightarrow> 'w proc_st \<Rightarrow> (int \<times> 'w proc_st) option" where
  "do_kill pid s =
     (case find_proc pid s of None \<Rightarrow> Some (- E_INVAL, s)
      | Some p \<Rightarrow>
          if p_flags (proc_of p s) AND PF_EXITING = 0
          then do {
            let s1 = upd_proc p (\<lambda>q. q\<lparr>p_flags := p_flags q OR PF_EXITING\<rparr>) s;
            s2 \<leftarrow> (if p_wait_state (proc_of p s1) AND WT_INTERRUPTED \<noteq> 0 then wakeup_proc default_sched_class p s1 else Some s1);
            Some (0, s2)
          }
          else Some (- E_KILLED, s))"

definition do_yield :: "'w proc_st \<Rightarrow> (int \<times> 'w proc_st) option" where
  "do_yield s = do { cur \<leftarrow> current s; Some (0, upd_proc cur (\<lambda>q. q\<lparr>p_need_resched := True\<rparr>) s) }"

definition lab6_set_priority :: "u32 \<Rightarrow> 'w proc_st \<Rightarrow> 'w proc_st option" where
  "lab6_set_priority priority s = do {
     cur \<leftarrow> current s;
     Some (upd_proc cur (\<lambda>q. q\<lparr>p_lab6_priority := (if priority = 0 then 1 else priority)\<rparr>) s)
   }"

text \<open>
  \<open>do_sleep\<close> up to and with \<open>schedule()\<close>, and what follows it; \<open>t\<close> is the address of the timer on the kernel stack.  The
  flag says whether the process gave up the processor.
\<close>

definition do_sleep :: "ptr \<Rightarrow> u32 \<Rightarrow> 'w proc_st \<Rightarrow> (bool \<times> 'w proc_st) option" where
  "do_sleep t time s =
     (if time = 0 then Some (False, s)
      else do {
        cur \<leftarrow> current s;
        let s1 = timer_init t cur (sint time) s;
        s2 \<leftarrow> add_timer t (upd_proc cur (\<lambda>q. q\<lparr>p_state := PROC_SLEEPING, p_wait_state := WT_TIMER\<rparr>) s1);
        s3 \<leftarrow> schedule default_sched_class s2;
        Some (True, s3)
      })"

definition sleep_resume :: "ptr \<Rightarrow> 'w proc_st \<Rightarrow> int \<times> 'w proc_st" where
  "sleep_resume t s = (0, del_timer t s)"

section \<open>Start\<close>

text \<open>One iteration of \<open>cpu_idle\<close>.\<close>

definition cpu_idle_step :: "'w proc_st \<Rightarrow> 'w proc_st option" where
  "cpu_idle_step s = do {
     cur \<leftarrow> current s;
     if p_need_resched (proc_of cur s) then schedule default_sched_class s else Some s
   }"

text \<open>
  \<open>ki\<close> and \<open>kf\<close> are the answers of \<^verbatim>\<open>kmalloc\<close> for the idle process and its files, \<open>e1\<close> and \<open>e2\<close> those of the two forks.
\<close>

definition proc_init ::
  "'w fs_st_scheme vtab \<Rightarrow> ptr option \<Rightarrow> ptr option \<Rightarrow> file_t list \<Rightarrow> fork_env \<Rightarrow> fork_env \<Rightarrow> u64 \<Rightarrow> u64 \<Rightarrow> u64 \<Rightarrow> u64 \<Rightarrow> u64 \<Rightarrow>
   'w proc_st \<Rightarrow> 'w proc_st option" where
  "proc_init T ki kf us e1 e2 sstatus entry bootstack init_main kpu_task_ctrl s = do {
     let s0 = s\<lparr>proc_list := [], hash_list := (\<lambda>_. [])\<rparr>;
     let (i, s1) = alloc_proc ki s0;
     idle \<leftarrow> i;
     let s2 = upd_proc idle (\<lambda>q. q\<lparr>p_pid := 0, p_state := PROC_RUNNABLE, p_kstack := bootstack, p_need_resched := True\<rparr>)
       (s1\<lparr>idleproc := idle\<rparr>);
     let (f, w) = files_create kf us (fsys s2);
     q \<leftarrow> f;
     let s3 = upd_proc idle (\<lambda>r. r\<lparr>p_filesp := Some q\<rparr>) (s2\<lparr>fsys := files_count_inc q w\<rparr>);
     let s4 = set_proc_name idle ''idle'' s3;
     let s5 = s4\<lparr>nr_process := nr_process s4 + 1, current := Some idle\<rparr>;
     (pid, s6) \<leftarrow> kernel_thread T e1 sstatus entry init_main 0 0 s5;
     kassert (pid > 0);
     (pid2, s7) \<leftarrow> kernel_thread T e2 sstatus entry kpu_task_ctrl 0 0 s6;
     kassert (pid > 0);
     init \<leftarrow> find_proc pid s7;
     let s8 = set_proc_name init ''init'' (s7\<lparr>initproc := Some init\<rparr>);
     kpu \<leftarrow> find_proc pid2 s8;
     let s9 = set_proc_name kpu ''kpu controller'' (s8\<lparr>kpu_task_ctrl_proc := Some kpu\<rparr>);
     kassert (p_pid (proc_of idle s9) = 0);
     kassert (p_pid (proc_of init s9) = 1);
     Some s9
   }"

end
