(* ===== verification/Sysfile.thy ===== *)
theory Sysfile
  imports Proc
begin

text \<open>
  The file system calls, \<^verbatim>\<open>kern/fs/sysfile.c\<close>: they move paths and data between the caller's address space and kernel buffers
  and call the file layer.  During one call there is one address space; its bytes are \<open>kmem\<close> of the file system's state, at
  user and kernel addresses alike.  \<open>k\<close> is always the address \<^verbatim>\<open>kmalloc\<close> gives the buffer, \<open>None\<close> if it fails.
  The messages that the code prints with \<^verbatim>\<open>cprintf\<close> are not part of the state.
\<close>

section \<open>Access to the caller's memory and files\<close>

definition IOBUF_SIZE :: u64 where "IOBUF_SIZE = 4096"
definition FS_MAX_FPATH_LEN :: nat where "FS_MAX_FPATH_LEN = 4095"
definition FS_MAX_FNAME_LEN :: nat where "FS_MAX_FNAME_LEN = 255"

text \<open>The file layer finds the files of the running process in \<open>filesp\<close>.\<close>

definition fs_call :: "('w fs_st_scheme \<Rightarrow> ('r \<times> 'w fs_st_scheme) option) \<Rightarrow> 'w proc_st \<Rightarrow> ('r \<times> 'w proc_st) option" where
  "fs_call f s = do {
     cur \<leftarrow> current s;
     (r, w) \<leftarrow> f ((fsys s)\<lparr>filesp := p_filesp (proc_of cur s)\<rparr>);
     Some (r, s\<lparr>fsys := w\<rparr>)
   }"

definition lock_current_mm :: "'w proc_st \<Rightarrow> 'w proc_st option" where
  "lock_current_mm s = do { cur \<leftarrow> current s; case p_mm (proc_of cur s) of None \<Rightarrow> Some s | Some m \<Rightarrow> lock_mm m s }"

definition unlock_current_mm :: "'w proc_st \<Rightarrow> 'w proc_st option" where
  "unlock_current_mm s = do { cur \<leftarrow> current s; Some (case p_mm (proc_of cur s) of None \<Rightarrow> s | Some m \<Rightarrow> unlock_mm m s) }"

text \<open>A copy routine of \<^verbatim>\<open>vmm.c\<close> run on the memory map of the caller between \<open>lock_mm\<close> and \<open>unlock_mm\<close>.\<close>

definition with_mm ::
  "(mm_struct option \<Rightarrow> mem \<Rightarrow> (bool \<times> mm_struct option \<times> mem) option) \<Rightarrow> 'w proc_st \<Rightarrow> (bool \<times> 'w proc_st) option" where
  "with_mm f s = do {
     s1 \<leftarrow> lock_current_mm s;
     cur \<leftarrow> current s1;
     let m = p_mm (proc_of cur s1);
     (ok, mm1, mem1) \<leftarrow> f (m \<bind> mms s1) (kmem (fsys s1));
     let s2 = (case m of None \<Rightarrow> s1 | Some q \<Rightarrow> s1\<lparr>mms := (mms s1)(q := mm1)\<rparr>);
     s3 \<leftarrow> unlock_current_mm (s2\<lparr>fsys := (fsys s2)\<lparr>kmem := mem1\<rparr>\<rparr>);
     Some (ok, s3)
   }"

text \<open>The C string at an address, and what a returned \<^verbatim>\<open>size_t\<close> becomes as an \<^verbatim>\<open>int\<close>.\<close>

definition path_at :: "u64 \<Rightarrow> 'w proc_st \<Rightarrow> string" where
  "path_at a s = map (\<lambda>b. char_of (unat b)) (takeWhile (\<lambda>b. b \<noteq> 0) (map (\<lambda>i. kmem (fsys s) (unat a + i)) [0..<Suc FS_MAX_FPATH_LEN]))"

definition int_of_size :: "u64 \<Rightarrow> int" where
  "int_of_size n = sint (ucast n :: u32)"

section \<open>Paths\<close>

definition copy_path :: "u64 option \<Rightarrow> u64 \<Rightarrow> 'w proc_st \<Rightarrow> (int \<times> u64 option \<times> 'w proc_st) option" where
  "copy_path k from s =
     (case k of None \<Rightarrow> Some (- E_NO_MEM, None, s)
      | Some buffer \<Rightarrow> do {
          (ok, s1) \<leftarrow> with_mm (\<lambda>mm. copy_string mm buffer from (of_nat (FS_MAX_FPATH_LEN + 1))) s;
          Some (if ok then (0, Some buffer, s1) else (- E_INVAL, None, s1))
        })"

definition sysfile_open :: "'w fs_st_scheme vtab \<Rightarrow> u64 option \<Rightarrow> u64 \<Rightarrow> u32 \<Rightarrow> 'w proc_st \<Rightarrow> (int \<times> 'w proc_st) option" where
  "sysfile_open T k path open_flags s = do {
     (ret, p, s1) \<leftarrow> copy_path k path s;
     if ret \<noteq> 0 then Some (ret, s1)
     else do { b \<leftarrow> p; fs_call (file_open T (path_at b s1) open_flags) s1 }
   }"

definition sysfile_chdir :: "'w fs_st_scheme vtab \<Rightarrow> u64 option \<Rightarrow> u64 \<Rightarrow> 'w proc_st \<Rightarrow> (int \<times> 'w proc_st) option" where
  "sysfile_chdir T k path s = do {
     (ret, p, s1) \<leftarrow> copy_path k path s;
     if ret \<noteq> 0 then Some (ret, s1)
     else do {
       b \<leftarrow> p;
       fs_call (\<lambda>w. do { (r, buf, w1) \<leftarrow> vfs_chdir T (path_at b s1) w; Some (r, w1) }) s1
     }
   }"

definition sysfile_unlink :: "u64 option \<Rightarrow> u64 \<Rightarrow> 'w proc_st \<Rightarrow> (int \<times> 'w proc_st) option" where
  "sysfile_unlink k path s = do {
     (ret, p, s1) \<leftarrow> copy_path k path s;
     if ret \<noteq> 0 then Some (ret, s1) else do { b \<leftarrow> p; Some (vfs_unlink (path_at b s1), s1) }
   }"

text \<open>\<open>sysfile_link\<close> and \<open>sysfile_rename\<close> copy two paths.\<close>

definition two_paths :: "(string \<Rightarrow> string \<Rightarrow> int) \<Rightarrow> u64 option \<Rightarrow> u64 option \<Rightarrow> u64 \<Rightarrow> u64 \<Rightarrow> 'w proc_st \<Rightarrow> (int \<times> 'w proc_st) option" where
  "two_paths f k1 k2 path1 path2 s = do {
     (ret, p, s1) \<leftarrow> copy_path k1 path1 s;
     if ret \<noteq> 0 then Some (ret, s1)
     else do {
       (ret2, q, s2) \<leftarrow> copy_path k2 path2 s1;
       if ret2 \<noteq> 0 then Some (ret2, s2)
       else do { a \<leftarrow> p; b \<leftarrow> q; Some (f (path_at a s2) (path_at b s2), s2) }
     }
   }"

definition sysfile_link :: "u64 option \<Rightarrow> u64 option \<Rightarrow> u64 \<Rightarrow> u64 \<Rightarrow> 'w proc_st \<Rightarrow> (int \<times> 'w proc_st) option" where
  "sysfile_link = two_paths vfs_link"

definition sysfile_rename :: "u64 option \<Rightarrow> u64 option \<Rightarrow> u64 \<Rightarrow> u64 \<Rightarrow> 'w proc_st \<Rightarrow> (int \<times> 'w proc_st) option" where
  "sysfile_rename = two_paths vfs_rename"

section \<open>Descriptors\<close>

definition sysfile_close :: "'w fs_st_scheme vtab \<Rightarrow> int \<Rightarrow> 'w proc_st \<Rightarrow> (int \<times> 'w proc_st) option" where
  "sysfile_close T fd = fs_call (file_close T fd)"

definition sysfile_seek :: "'w fs_st_scheme vtab \<Rightarrow> int \<Rightarrow> u64 \<Rightarrow> int \<Rightarrow> 'w proc_st \<Rightarrow> (int \<times> 'w proc_st) option" where
  "sysfile_seek T fd pos whence = fs_call (file_seek T fd pos whence)"

definition sysfile_fsync :: "'w fs_st_scheme vtab \<Rightarrow> int \<Rightarrow> 'w proc_st \<Rightarrow> (int \<times> 'w proc_st) option" where
  "sysfile_fsync T fd = fs_call (file_fsync T fd)"

definition sysfile_dup :: "int \<Rightarrow> int \<Rightarrow> 'w proc_st \<Rightarrow> (int \<times> 'w proc_st) option" where
  "sysfile_dup fd1 fd2 = fs_call (file_dup fd1 fd2)"

definition sysfile_pipe :: int where "sysfile_pipe = - E_UNIMP"
definition sysfile_mkfifo :: int where "sysfile_mkfifo = - E_UNIMP"

definition fd_allows :: "int \<Rightarrow> bool \<Rightarrow> bool \<Rightarrow> 'w proc_st \<Rightarrow> bool option" where
  "fd_allows fd rd wr s = do {
     cur \<leftarrow> current s;
     file_testfd fd rd wr ((fsys s)\<lparr>filesp := p_filesp (proc_of cur s)\<rparr>)
   }"

text \<open>The loop of \<open>sysfile_read\<close>; the result is \<^verbatim>\<open>ret\<close> and \<^verbatim>\<open>copied\<close>.\<close>

partial_function (option) sysread_loop ::
    "'w fs_st_scheme vtab \<Rightarrow> int \<Rightarrow> u64 \<Rightarrow> u64 \<Rightarrow> u64 \<Rightarrow> u64 \<Rightarrow> 'w proc_st \<Rightarrow> (int \<times> u64 \<times> 'w proc_st) option" where
  "sysread_loop T fd buffer base len copied s =
     (if len = 0 then Some (0, copied, s)
      else do {
        ((ret, alen0), s1) \<leftarrow> fs_call (\<lambda>w. do {
          (r, n, w1) \<leftarrow> file_read T fd (unat buffer) (if IOBUF_SIZE > len then len else IOBUF_SIZE) w;
          Some ((r, n), w1)
        }) s;
        let alen = (if fd = 2 then len else alen0);
        if alen = 0 then Some (ret, copied, s1)
        else do {
          (ok, s2) \<leftarrow> with_mm (\<lambda>mm. copy_to_user mm base buffer alen) s1;
          if ok then do {
            kassert (len \<ge> alen);
            if ret \<noteq> 0 then Some (ret, copied + alen, s2)
            else sysread_loop T fd buffer (base + alen) (len - alen) (copied + alen) s2
          }
          else Some (if ret = 0 then - E_INVAL else ret, copied, s2)
        }
      })"

definition sysfile_read :: "'w fs_st_scheme vtab \<Rightarrow> u64 option \<Rightarrow> int \<Rightarrow> u64 \<Rightarrow> u64 \<Rightarrow> 'w proc_st \<Rightarrow> (int \<times> 'w proc_st) option" where
  "sysfile_read T k fd base len s =
     (if len = 0 then Some (0, s)
      else do {
        ok \<leftarrow> fd_allows fd True False s;
        if \<not> ok then Some (- E_INVAL, s)
        else (case k of None \<Rightarrow> Some (- E_NO_MEM, s)
          | Some buffer \<Rightarrow> do {
              (ret, copied, s1) \<leftarrow> sysread_loop T fd buffer base len 0 s;
              Some (if copied \<noteq> 0 then int_of_size copied else ret, s1)
            })
      })"

text \<open>The loop of \<open>sysfile_write\<close>: only descriptors 1 and 2 are ever written.\<close>

partial_function (option) syswrite_loop ::
    "'w fs_st_scheme vtab \<Rightarrow> int \<Rightarrow> u64 \<Rightarrow> u64 \<Rightarrow> u64 \<Rightarrow> u64 \<Rightarrow> 'w proc_st \<Rightarrow> (int \<times> u64 \<times> 'w proc_st) option" where
  "syswrite_loop T fd buffer base len copied s =
     (if len = 0 then Some (0, copied, s)
      else do {
        let alen0 = (if IOBUF_SIZE > len then len else IOBUF_SIZE);
        (ok, s1) \<leftarrow> with_mm (\<lambda>mm. copy_from_user mm buffer base alen0 False) s;
        if \<not> ok then Some (- E_INVAL, copied, s1)
        else if fd = 1 \<or> fd = 2 then do {
          ((ret, alen), s2) \<leftarrow> fs_call (\<lambda>w. do {
            (r, n, w1) \<leftarrow> file_write T fd (unat buffer) alen0 w;
            Some ((r, n), w1)
          }) s1;
          kassert (alen \<noteq> 0 \<longrightarrow> len \<ge> alen);
          if ret \<noteq> 0 \<or> alen = 0 then Some (ret, copied + alen, s2)
          else syswrite_loop T fd buffer (base + alen) (len - alen) (copied + alen) s2
        }
        else syswrite_loop T fd buffer base len copied s1
      })"

declare sysread_loop.simps [code] syswrite_loop.simps [code]

definition sysfile_write :: "'w fs_st_scheme vtab \<Rightarrow> u64 option \<Rightarrow> int \<Rightarrow> u64 \<Rightarrow> u64 \<Rightarrow> 'w proc_st \<Rightarrow> (int \<times> 'w proc_st) option" where
  "sysfile_write T k fd base len s =
     (if len = 0 then Some (0, s)
      else do {
        ok \<leftarrow> fd_allows fd False True s;
        if \<not> ok then Some (- E_INVAL, s)
        else (case k of None \<Rightarrow> Some (- E_NO_MEM, s)
          | Some buffer \<Rightarrow> do {
              (ret, copied, s1) \<leftarrow> syswrite_loop T fd buffer base len 0 s;
              Some (if copied \<noteq> 0 then int_of_size copied else ret, s1)
            })
      })"

section \<open>Structures copied out\<close>

text \<open>\<open>n\<close> bytes of a word, low byte first.\<close>

definition store_bytes :: "nat \<Rightarrow> nat \<Rightarrow> u64 \<Rightarrow> mem \<Rightarrow> mem" where
  "store_bytes a n v m = (\<lambda>x. if a \<le> x \<and> x < a + n then ucast (drop_bit (8 * (x - a)) v) else m x)"

definition load_u64 :: "nat \<Rightarrow> mem \<Rightarrow> u64" where
  "load_u64 a m = word_of_int (\<Sum>i<8. uint (m (a + i)) * 2 ^ (8 * i))"

text \<open>\<^verbatim>\<open>struct stat\<close> in memory: 32 bytes, with padding after the mode.\<close>

definition store_stat :: "nat \<Rightarrow> stat \<Rightarrow> mem \<Rightarrow> mem" where
  "store_stat a st m = store_bytes (a + 24) 8 (st_size st) (store_bytes (a + 16) 8 (st_blocks st)
     (store_bytes (a + 8) 8 (st_nlinks st) (store_bytes a 4 (ucast (st_mode st)) m)))"

text \<open>\<open>local\<close> is the address of the structure on the kernel stack.\<close>

definition sysfile_fstat :: "'w fs_st_scheme vtab \<Rightarrow> u64 \<Rightarrow> int \<Rightarrow> u64 \<Rightarrow> 'w proc_st \<Rightarrow> (int \<times> 'w proc_st) option" where
  "sysfile_fstat T local fd user_stat s = do {
     ((ret, st), s1) \<leftarrow> fs_call (\<lambda>w. do { (r, st, w1) \<leftarrow> file_fstat T fd w; Some ((r, st), w1) }) s;
     if ret \<noteq> 0 then Some (ret, s1)
     else do {
       v \<leftarrow> st;
       let s2 = s1\<lparr>fsys := (fsys s1)\<lparr>kmem := store_stat (unat local) v (kmem (fsys s1))\<rparr>\<rparr>;
       (ok, s3) \<leftarrow> with_mm (\<lambda>mm. copy_to_user mm user_stat local 32) s2;
       Some (if ok then 0 else - E_INVAL, s3)
     }
   }"

definition sysfile_getcwd :: "'w fs_st_scheme vtab \<Rightarrow> u64 \<Rightarrow> u64 \<Rightarrow> 'w proc_st \<Rightarrow> (int \<times> 'w proc_st) option" where
  "sysfile_getcwd T buf len s =
     (if len = 0 then Some (- E_INVAL, s)
      else do {
        s1 \<leftarrow> lock_current_mm s;
        cur \<leftarrow> current s1;
        let m = p_mm (proc_of cur s1);
        (ok, mm1) \<leftarrow> user_mem_check (m \<bind> mms s1) buf len True;
        let s2 = (case m of None \<Rightarrow> s1 | Some q \<Rightarrow> s1\<lparr>mms := (mms s1)(q := mm1)\<rparr>);
        (ret, s3) \<leftarrow> (if ok then fs_call (\<lambda>w. do {
              (r, iob, w1) \<leftarrow> vfs_getcwd T (iobuf_init (unat buf) len 0) w; Some (r, w1)
            }) s2
          else Some (- E_INVAL, s2));
        s4 \<leftarrow> unlock_current_mm s3;
        Some (ret, s4)
      })"

text \<open>\<^verbatim>\<open>struct dirent\<close> is the offset, 8 bytes, followed by the name, 256 bytes.\<close>

definition sysfile_getdirentry :: "'w fs_st_scheme vtab \<Rightarrow> u64 option \<Rightarrow> int \<Rightarrow> u64 \<Rightarrow> 'w proc_st \<Rightarrow> (int \<times> 'w proc_st) option" where
  "sysfile_getdirentry T k fd user_dirent s =
     (case k of None \<Rightarrow> Some (- E_NO_MEM, s)
      | Some d \<Rightarrow> do {
          (ok, s1) \<leftarrow> with_mm (\<lambda>mm. copy_from_user mm d user_dirent 8 True) s;
          if \<not> ok then Some (- E_INVAL, s1)
          else do {
            ((ret, off), s2) \<leftarrow> fs_call (\<lambda>w. do {
              (r, off, w1) \<leftarrow> file_getdirentry T fd (unat d + 8) (load_u64 (unat d) (kmem (fsys s1))) w;
              Some ((r, off), w1)
            }) s1;
            let s3 = s2\<lparr>fsys := (fsys s2)\<lparr>kmem := store_bytes (unat d) 8 off (kmem (fsys s2))\<rparr>\<rparr>;
            if ret \<noteq> 0 then Some (ret, s3)
            else do {
              (ok2, s4) \<leftarrow> with_mm (\<lambda>mm. copy_to_user mm user_dirent d (of_nat (8 + FS_MAX_FNAME_LEN + 1))) s3;
              Some (if ok2 then 0 else - E_INVAL, s4)
            }
          }
        })"

end
