(* ===== verification/FileInv.thy ===== *)
theory FileInv
  imports File
begin

text \<open>
  Accounting of inodes.  The open count of an inode is the number of table entries that refer to it, and its
  reference count is this number plus the working directories, the boot file system and the references held
  elsewhere.  \<open>acct oo rr s\<close> says so up to two debts, \<open>oo\<close> opens and \<open>rr\<close> references per inode, so that every
  operation has one rule that says how it moves the debts; an operation that leaks nothing gives back the debts it
  started with.  What the layer below promises, is the locale \<open>inode_layer\<close>.
\<close>

section \<open>Counting\<close>

definition used :: "file_t \<Rightarrow> ptr \<Rightarrow> bool" where
  "used f p \<longleftrightarrow> f_open_count f > 0 \<and> f_node f = Some p"

definition n_used :: "files_struct \<Rightarrow> ptr \<Rightarrow> int" where
  "n_used fs p = (\<Sum>f\<leftarrow>fd_array fs. of_bool (used f p))"

definition topens :: "'a fs_st_scheme \<Rightarrow> ptr \<Rightarrow> int" where
  "topens s p = (\<Sum>q\<in>dom (files s). n_used (the (files s q)) p)"

definition tpwds :: "'a fs_st_scheme \<Rightarrow> ptr \<Rightarrow> int" where
  "tpwds s p = (\<Sum>q\<in>dom (files s). of_bool (pwd (the (files s q)) = Some p))"

definition refs :: "'a fs_st_scheme \<Rightarrow> ptr \<Rightarrow> int" where
  "refs s p = topens s p + tpwds s p + of_bool (bootfs_node s = Some p)"

definition counts :: "'a fs_st_scheme \<Rightarrow> ptr \<rightharpoonup> int \<times> int" where
  "counts s p = map_option (\<lambda>n. (ref_count n, open_count n)) (inodes s p)"

definition acct :: "(ptr \<Rightarrow> int) \<Rightarrow> (ptr \<Rightarrow> int) \<Rightarrow> 'a fs_st_scheme \<Rightarrow> bool" where
  "acct oo rr s \<longleftrightarrow> finite (dom (files s)) \<and>
     (\<forall>p rc oc. counts s p = Some (rc, oc) \<longrightarrow> oc = topens s p + oo p \<and> rc = refs s p + rr p) \<and>
     (\<forall>p. counts s p = None \<longrightarrow> refs s p = 0 \<and> oo p = 0 \<and> rr p = 0)"

lemma acct_counts:
  assumes "acct oo rr s" "counts s p = Some (rc, oc)"
  shows "oc = topens s p + oo p" "rc = refs s p + rr p"
  using assms by (simp_all add: acct_def)

lemma acct_missing:
  assumes "acct oo rr s" "counts s p = None"
  shows "refs s p = 0" "oo p = 0" "rr p = 0"
  using assms by (simp_all add: acct_def)

definition bump :: "(ptr \<Rightarrow> int) \<Rightarrow> ptr \<Rightarrow> int \<Rightarrow> ptr \<Rightarrow> int" where
  "bump f p k = f(p := f p + k)"

lemma bump_simps [simp]:
  "bump f p 0 = f" "bump (bump f p j) p k = bump f p (j + k)" "bump f p k p = f p + k"
  "q \<noteq> p \<Longrightarrow> bump f p k q = f q"
  by (auto simp: bump_def)

lemma bump_swap: "bump (bump (bump f p 1) q k) p (- 1) = bump f q k"
  by (auto simp: bump_def fun_eq_iff)

lemma n_used_nonneg [simp]: "0 \<le> n_used fs p"
  unfolding n_used_def by (rule sum_list_nonneg) auto

lemma n_used_0:
  assumes "\<forall>f \<in> set (fd_array fs). \<not> used f p" shows "n_used fs p = 0"
proof -
  have "(\<Sum>f\<leftarrow>xs. of_bool (used f p)) = (0 :: int)" if "\<forall>f \<in> set xs. \<not> used f p" for xs
    using that by (induction xs) auto
  then show ?thesis using assms by (simp add: n_used_def)
qed

lemma topens_nonneg [simp]: "0 \<le> topens s p"
  unfolding topens_def by (rule sum_nonneg) auto

lemma tpwds_nonneg [simp]: "0 \<le> tpwds s p"
  unfolding tpwds_def by (rule sum_nonneg) auto

lemma topens_le_refs: "topens s p \<le> refs s p"
  by (simp add: refs_def)

lemma tpwds_le_refs: "tpwds s p \<le> refs s p"
  using topens_nonneg [of s p] unfolding refs_def by (cases "bootfs_node s = Some p") simp_all

section \<open>What calls into a file system may change\<close>

definition frame :: "'a fs_st_scheme \<Rightarrow> 'a fs_st_scheme \<Rightarrow> bool" where
  "frame s s' \<longleftrightarrow> files s' = files s \<and> filesp s' = filesp s \<and> bootfs_node s' = bootfs_node s \<and>
     vdev_list s' = vdev_list s \<and> locks s' = locks s"

lemma frame_refl [simp]: "frame s s"
  by (simp add: frame_def)

lemma frame_trans: "frame s s' \<Longrightarrow> frame s' s'' \<Longrightarrow> frame s s''"
  by (simp add: frame_def)

lemma frame_counting:
  assumes "frame s s'" shows "topens s' p = topens s p" "refs s' p = refs s p"
  using assms by (simp_all add: frame_def topens_def refs_def tpwds_def)

text \<open>\<open>gains q s s'\<close>: the inode \<open>q\<close>, if any, has one more reference, or is new with one; nothing else is counted differently.\<close>

definition gains :: "ptr option \<Rightarrow> 'a fs_st_scheme \<Rightarrow> 'a fs_st_scheme \<Rightarrow> bool" where
  "gains q s s' \<longleftrightarrow> frame s s' \<and>
     counts s' = (case q of None \<Rightarrow> counts s
       | Some p \<Rightarrow> (counts s)(p \<mapsto> (case counts s p of None \<Rightarrow> (1, 0) | Some (rc, oc) \<Rightarrow> (rc + 1, oc))))"

definition quiet :: "'a fs_st_scheme \<Rightarrow> 'a fs_st_scheme \<Rightarrow> bool" where
  "quiet s s' \<longleftrightarrow> gains None s s'"

definition reclaims :: "ptr \<Rightarrow> 'a fs_st_scheme \<Rightarrow> 'a fs_st_scheme \<Rightarrow> bool" where
  "reclaims p s s' \<longleftrightarrow> frame s s' \<and> (counts s' = counts s \<or> counts s' = (counts s)(p := None))"

lemma quiet_refl [simp]: "quiet s s"
  by (simp add: quiet_def gains_def)

lemma quiet_frame: "quiet s s' \<Longrightarrow> frame s s'"
  by (simp add: quiet_def gains_def)

definition gift :: "(ptr \<Rightarrow> int) \<Rightarrow> ptr option \<Rightarrow> ptr \<Rightarrow> int" where
  "gift rr q = (case q of None \<Rightarrow> rr | Some p \<Rightarrow> bump rr p 1)"

lemma gift_simps [simp]: "gift rr None = rr" "gift rr (Some p) = bump rr p 1"
  by (simp_all add: gift_def)

lemma gains_acct:
  assumes "gains q s s'" "acct oo rr s"
  shows "acct oo (gift rr q) s'" "frame s s'"
proof -
  show fr: "frame s s'" using assms(1) by (simp add: gains_def)
  note c = frame_counting [OF fr]
  have f: "files s' = files s" using fr by (simp add: frame_def)
  show "acct oo (gift rr q) s'"
  proof (cases q)
    case None
    then show ?thesis using assms c f by (simp add: gains_def acct_def)
  next
    case (Some a)
    have fin: "finite (dom (files s))"
      and ex: "\<And>p rc oc. counts s p = Some (rc, oc) \<Longrightarrow> oc = topens s p + oo p \<and> rc = refs s p + rr p"
      and no: "\<And>p. counts s p = None \<Longrightarrow> refs s p = 0 \<and> oo p = 0 \<and> rr p = 0"
      using assms(2) by (auto simp: acct_def)
    have z: "topens s p = 0" if "refs s p = 0" for p using that topens_le_refs [of s p] topens_nonneg [of s p] by linarith
    have cs: "counts s' = (counts s)(a \<mapsto> (case counts s a of None \<Rightarrow> (1, 0) | Some (rc, oc) \<Rightarrow> (rc + 1, oc)))"
      using assms(1) Some by (simp add: gains_def)
    have "oc = topens s p + oo p \<and> rc = refs s p + bump rr a 1 p" if "counts s' p = Some (rc, oc)" for p rc oc
      using that ex [of p] no [of p] z [of p] by (cases "p = a") (auto simp: cs split: option.splits)
    moreover have "refs s p = 0 \<and> oo p = 0 \<and> bump rr a 1 p = 0" if "counts s' p = None" for p
      using that no [of p] by (cases "p = a") (auto simp: cs)
    ultimately show ?thesis using fin by (simp add: acct_def c f Some)
  qed
qed

lemma quiet_acct: "quiet s s' \<Longrightarrow> acct oo rr s \<Longrightarrow> acct oo rr s'"
  using gains_acct(1) [of None s s' oo rr] by (simp add: quiet_def)

lemma inode_ref_inc_gains: "inode_ref_inc p s = Some s' \<Longrightarrow> gains (Some p) s s'"
  by (auto simp: inode_ref_inc_def bind_Some_iff gains_def frame_def counts_def upd_inode_def fun_eq_iff)

lemma inode_open_inc_acct:
  assumes "inode_open_inc p s = Some s'" "acct oo rr s"
  shows "acct (bump oo p 1) rr s'" "frame s s'"
proof -
  show fr: "frame s s'" using assms(1) by (auto simp: inode_open_inc_def bind_Some_iff frame_def upd_inode_def)
  obtain n where n: "inodes s p = Some n" "s' = upd_inode p (\<lambda>i. i\<lparr>open_count := open_count i + 1\<rparr>) s"
    using assms(1) by (auto simp: inode_open_inc_def bind_Some_iff)
  have cs: "counts s' = (counts s)(p \<mapsto> (ref_count n, open_count n + 1))" and cn: "counts s p = Some (ref_count n, open_count n)"
    using n by (auto simp: counts_def upd_inode_def fun_eq_iff)
  show "acct (bump oo p 1) rr s'" unfolding acct_def
  proof (intro conjI allI impI)
    show "finite (dom (files s'))" using assms(2) fr by (simp add: acct_def frame_def)
  next
    fix q rc oc assume "counts s' q = Some (rc, oc)"
    then show "oc = topens s' q + bump oo p 1 q" "rc = refs s' q + rr q"
      using assms(2) cs cn by (auto simp: acct_def frame_counting [OF fr] bump_def split: if_splits)
  next
    fix q assume "counts s' q = None"
    then show "refs s' q = 0" "bump oo p 1 q = 0" "rr q = 0"
      using assms(2) cs by (auto simp: acct_def frame_counting [OF fr] bump_def split: if_splits)
  qed
qed

section \<open>Changing table entries\<close>

definition file_ok :: "nat \<Rightarrow> file_t \<Rightarrow> bool" where
  "file_ok i f \<longleftrightarrow> f_fd f = int i \<and> f_open_count f \<ge> 0 \<and> (f_open_count f > 0 \<longrightarrow> f_node f \<noteq> None) \<and>
     (f_open_count f > 0 \<longleftrightarrow> f_status f = FD_OPENED \<or> f_status f = FD_CLOSED)"

definition tabs_ok :: "'a fs_st_scheme \<Rightarrow> bool" where
  "tabs_ok s \<longleftrightarrow> (\<forall>q fs. files s q = Some fs \<longrightarrow> length (fd_array fs) = FILES_STRUCT_NENTRY \<and>
     (\<forall>i < FILES_STRUCT_NENTRY. file_ok i (fd_array fs ! i)))"

lemma tabs_ok_frame: "frame s s' \<Longrightarrow> tabs_ok s' = tabs_ok s"
  by (simp add: tabs_ok_def frame_def)

lemma file_at_frame: "frame s s' \<Longrightarrow> file_at q i s' = file_at q i s"
  by (simp add: file_at_def frame_def)

lemma file_at_ok: "tabs_ok s \<Longrightarrow> file_at q i s = Some f \<Longrightarrow> file_ok i f"
  by (auto simp: tabs_ok_def file_at_def bind_Some_iff split: if_splits)

lemma file_atD:
  assumes "file_at q i s = Some f"
  obtains fs where "files s q = Some fs" "i < length (fd_array fs)" "f = fd_array fs ! i"
  using assms by (auto simp: file_at_def bind_Some_iff split: if_splits)

lemma file_at_upd:
  assumes "file_at q i s = Some f" shows "file_at q i (upd_file q i g s) = Some (g f)"
  using assms by (auto simp: file_at_def upd_file_def bind_Some_iff split: if_splits)

lemma tabs_ok_upd:
  assumes "tabs_ok s" "file_at q i s = Some f" "file_ok i (g f)" shows "tabs_ok (upd_file q i g s)"
  unfolding tabs_ok_def
proof (intro allI impI conjI)
  fix q' fs' assume a: "files (upd_file q i g s) q' = Some fs'"
  obtain fs where fs: "files s q = Some fs" "i < length (fd_array fs)" "f = fd_array fs ! i"
    using assms(2) by (rule file_atD)
  show "length (fd_array fs') = FILES_STRUCT_NENTRY"
    using a assms(1) fs by (auto simp: upd_file_def tabs_ok_def split: if_splits)
  fix j assume j: "j < FILES_STRUCT_NENTRY"
  show "file_ok j (fd_array fs' ! j)"
    using a assms(1,3) fs j by (cases "q' = q"; cases "j = i") (auto simp: upd_file_def tabs_ok_def)
qed

lemma sum_list_map_update:
  "i < length xs \<Longrightarrow> sum_list (map h (xs[i := y])) = sum_list (map h xs) + h y - (h (xs ! i) :: int)"
proof (induction xs arbitrary: i)
  case (Cons x xs)
  then show ?case by (cases i) auto
qed simp

lemma upd_file_counting:
  assumes "finite (dom (files s))" "file_at q i s = Some f"
  shows "topens (upd_file q i g s) p = topens s p + (of_bool (used (g f) p) - of_bool (used f p))" (is ?A)
    "refs (upd_file q i g s) p = refs s p + (of_bool (used (g f) p) - of_bool (used f p))" (is ?B)
proof -
  obtain fs where fs: "files s q = Some fs" "i < length (fd_array fs)" "f = fd_array fs ! i"
    using assms(2) by (rule file_atD)
  let ?s = "upd_file q i g s"
  have d: "dom (files ?s) = dom (files s)" "q \<in> dom (files s)" using fs by (auto simp: upd_file_def)
  have o: "files ?s q' = files s q'" if "q' \<noteq> q" for q' using that by (simp add: upd_file_def)
  have n: "n_used (the (files ?s q)) p = n_used fs p + (of_bool (used (g f) p) - of_bool (used f p))"
    using fs by (simp add: upd_file_def n_used_def sum_list_map_update)
  show A: ?A unfolding topens_def d(1)
    using n fs by (subst (1 2) sum.remove [OF assms(1) d(2)]) (simp add: o)
  have "tpwds ?s p = tpwds s p" unfolding tpwds_def d(1)
    by (rule sum.cong) (use fs in \<open>auto simp: upd_file_def\<close>)
  then show ?B using A by (simp add: refs_def upd_file_def)
qed

lemma upd_file_acct:
  assumes "acct oo rr s" "file_at q i s = Some f"
  shows "(\<And>p. used (g f) p = used f p) \<Longrightarrow> acct oo rr (upd_file q i g s)"
    "used f a \<Longrightarrow> f_open_count (g f) = 0 \<Longrightarrow> acct (bump oo a 1) (bump rr a 1) (upd_file q i g s)"
    "f_open_count f = 0 \<Longrightarrow> used (g f) a \<Longrightarrow> counts s a \<noteq> None \<Longrightarrow> acct (bump oo a (- 1)) (bump rr a (- 1)) (upd_file q i g s)"
proof -
  let ?s = "upd_file q i g s"
  let ?d = "\<lambda>p. of_bool (used (g f) p) - of_bool (used f p) :: int"
  have fin: "finite (dom (files s))" using assms(1) by (simp add: acct_def)
  note c = upd_file_counting [OF fin assms(2), of g]
  have cs: "counts ?s = counts s" by (simp add: counts_def upd_file_def fun_eq_iff)
  have dm: "dom (files ?s) = dom (files s)" using assms(2) by (auto simp: upd_file_def file_at_def bind_Some_iff split: if_splits)
  have main: "acct (\<lambda>p. oo p - ?d p) (\<lambda>p. rr p - ?d p) ?s" if "\<And>p. counts s p = None \<Longrightarrow> ?d p = 0"
    using assms(1) that unfolding acct_def c cs dm by auto
  have u: "used f a \<Longrightarrow> used f p \<Longrightarrow> p = a" "used (g f) a \<Longrightarrow> used (g f) p \<Longrightarrow> p = a" for p a by (auto simp: used_def)
  show "acct oo rr ?s" if "\<And>p. used (g f) p = used f p" using main that by simp
  show "acct (bump oo a 1) (bump rr a 1) ?s" if "used f a" "f_open_count (g f) = 0"
  proof -
    have d: "?d p = (if p = a then - 1 else 0)" for p using that u by (auto simp: used_def)
    have "topens ?s a = topens s a - 1" unfolding c(1) d by simp
    moreover have "0 \<le> topens ?s a" by simp
    ultimately have "0 < topens s a" by linarith
    then have "refs s a \<noteq> 0" using topens_le_refs [of s a] by linarith
    then have "counts s a \<noteq> None" using acct_missing(1) [OF assms(1)] by blast
    then have "acct (\<lambda>p. oo p - ?d p) (\<lambda>p. rr p - ?d p) ?s" using d by (intro main) (auto split: if_splits)
    moreover have "(\<lambda>p. oo p - ?d p) = bump oo a 1" "(\<lambda>p. rr p - ?d p) = bump rr a 1"
      unfolding d by (auto simp: bump_def fun_eq_iff)
    ultimately show ?thesis by simp
  qed
  show "acct (bump oo a (- 1)) (bump rr a (- 1)) ?s" if "f_open_count f = 0" "used (g f) a" "counts s a \<noteq> None"
  proof -
    have d: "?d p = (if p = a then 1 else 0)" for p using that u by (auto simp: used_def)
    then have "acct (\<lambda>p. oo p - ?d p) (\<lambda>p. rr p - ?d p) ?s" using that(3) by (intro main) (auto split: if_splits)
    moreover have "(\<lambda>p. oo p - ?d p) = bump oo a (- 1)" "(\<lambda>p. rr p - ?d p) = bump rr a (- 1)"
      unfolding d by (auto simp: bump_def fun_eq_iff)
    ultimately show ?thesis by simp
  qed
qed

text \<open>Steps that keep every account; the table operations and the descriptor operations are composed of them.\<close>

definition keeps :: "'a fs_st_scheme \<Rightarrow> 'a fs_st_scheme \<Rightarrow> bool" where
  "keeps s s' \<longleftrightarrow> (\<forall>oo rr. (\<forall>p. 0 \<le> rr p) \<longrightarrow> acct oo rr s \<longrightarrow> tabs_ok s \<longrightarrow> acct oo rr s' \<and> tabs_ok s')"

lemma keeps_refl [simp]: "keeps s s"
  by (simp add: keeps_def)

lemma keeps_trans: "keeps s s' \<Longrightarrow> keeps s' s'' \<Longrightarrow> keeps s s''"
  unfolding keeps_def by blast

lemma keepsI:
  "(\<And>oo rr. acct oo rr s \<Longrightarrow> tabs_ok s \<Longrightarrow> (\<And>p. 0 \<le> rr p) \<Longrightarrow> acct oo rr s' \<and> tabs_ok s') \<Longrightarrow> keeps s s'"
  by (simp add: keeps_def)

lemma quiet_trans: "quiet s s' \<Longrightarrow> quiet s' s'' \<Longrightarrow> quiet s s''"
  by (auto simp: quiet_def gains_def frame_def)

lemma keeps_quiet: "quiet s s' \<Longrightarrow> keeps s s'"
  by (rule keepsI) (simp add: quiet_acct tabs_ok_frame [OF quiet_frame])

section \<open>Steps that call no file system\<close>

lemma fs_down_up:
  "fs_down l s = Some s1 \<Longrightarrow> acct oo rr s1 = acct oo rr s"
  "acct oo rr (fs_up l s) = acct oo rr s" "tabs_ok (fs_up l s) = tabs_ok s"
  by (auto simp: fs_down_def fs_up_def acct_def counts_def topens_def refs_def tpwds_def tabs_ok_def split: if_splits)


lemma fs_down_up_frame:
  assumes "fs_down l s = Some s1" "frame s1 s2" shows "frame s (fs_up l s2)"
  using assms by (auto simp: fs_down_def fs_up_def frame_def fun_eq_iff split: if_splits)


lemma vfs_get_curdir_acct:
  assumes "vfs_get_curdir s = Some (ret, q, s')" "acct oo rr s"
  shows "acct oo (gift rr q) s'" "frame s s'" "ret = 0 \<longleftrightarrow> q \<noteq> None"
  using assms gains_acct [OF inode_ref_inc_gains]
  by (auto simp: vfs_get_curdir_def bind_Some_iff err_defs split: option.splits)


lemma vfs_get_bootfs_acct:
  assumes "vfs_get_bootfs s = Some (ret, q, s')" "acct oo rr s"
  shows "acct oo (gift rr q) s' \<and> frame s s' \<and> (ret = 0 \<longleftrightarrow> q \<noteq> None)"
proof (cases "bootfs_node s")
  case None
  then show ?thesis using assms by (simp add: vfs_get_bootfs_def err_defs)
next
  case (Some p)
  then obtain s1 s2 where s: "fs_down bootfs_sem s = Some s1" "inode_ref_inc p s1 = Some s2"
      "s' = fs_up bootfs_sem s2" "ret = 0" "q = Some p"
    using assms(1) by (auto simp: vfs_get_bootfs_def bind_Some_iff lock_bootfs_def unlock_bootfs_def fs_down_def split: if_splits)
  then have "acct oo rr s1" using fs_down_up(1) assms(2) by blast
  note g = gains_acct [OF inode_ref_inc_gains [OF s(2)] this]
  show ?thesis using g fs_down_up_frame [OF s(1) g(2)] s by (simp add: fs_down_up)
qed


lemma fd_array_acquire_acct:
  assumes "fd_array_acquire q i s = Some s'" "acct oo rr s" "tabs_ok s"
  shows "acct oo rr s' \<and> tabs_ok s' \<and> (\<exists>f. file_at q i s' = Some f \<and> f_open_count f \<ge> 2)"
proof -
  let ?g = "\<lambda>f. f\<lparr>f_open_count := f_open_count f + 1\<rparr>"
  obtain f where f: "file_at q i s = Some f" "f_status f = FD_OPENED" "s' = upd_file q i ?g s"
    using assms(1) by (auto simp: fd_array_acquire_def bind_Some_iff split: if_splits)
  have ok: "file_ok i f" using file_at_ok assms(3) f(1) .
  then have "f_open_count f \<ge> 1" "file_ok i (?g f)" using f(2) by (auto simp: file_ok_def)
  then show ?thesis using upd_file_acct(1) [OF assms(2) f(1), of ?g] tabs_ok_upd [OF assms(3) f(1), of ?g]
      file_at_upd [OF f(1), of ?g] f(3) by (auto simp: used_def)
qed


lemma upd_pos_acct:
  assumes "acct oo rr s" "tabs_ok s"
  shows "acct oo rr (upd_file q i (\<lambda>f. f\<lparr>f_pos := v f\<rparr>) s) \<and> tabs_ok (upd_file q i (\<lambda>f. f\<lparr>f_pos := v f\<rparr>) s)"
    (is "?A (upd_file q i ?g s) \<and> _")
proof (cases "file_at q i s")
  case None
  have "upd_file q i ?g s = s"
  proof (cases "files s q")
    case (Some fs)
    with None have "\<not> i < length (fd_array fs)" by (auto simp: file_at_def split: if_splits)
    then have "(files s)(q \<mapsto> fs\<lparr>fd_array := (fd_array fs)[i := ?g (fd_array fs ! i)]\<rparr>) = files s"
      using Some by (auto simp: fun_eq_iff list_update_beyond)
    then show ?thesis using Some by (simp add: upd_file_def)
  qed (simp add: upd_file_def fun_upd_idem)
  then show ?thesis using assms by simp
next
  case (Some f)
  have "file_ok i (?g f)" using file_at_ok [OF assms(2) Some] by (auto simp: file_ok_def)
  then show ?thesis
    using upd_file_acct(1) [OF assms(1) Some, of ?g] tabs_ok_upd [OF assms(2) Some, of ?g] by (simp add: used_def)
qed


lemma keepsD: "keeps s s' \<Longrightarrow> acct oo rr s \<Longrightarrow> tabs_ok s \<Longrightarrow> (\<And>p. 0 \<le> rr p) \<Longrightarrow> acct oo rr s' \<and> tabs_ok s'"
  unfolding keeps_def by blast


lemma find_index_SomeD: "find_index P xs = Some i \<Longrightarrow> i < length xs \<and> P (xs ! i)"
  by (induction xs arbitrary: i) (auto split: if_splits)


lemma upd_unused:
  assumes "tabs_ok s" "file_at q i s = Some f" "f_open_count f = 0" "f_open_count (g f) = 0" "f_fd (g f) = f_fd f"
    "f_status (g f) = FD_NONE \<or> f_status (g f) = FD_INIT"
  shows "keeps s (upd_file q i g s)" "tabs_ok (upd_file q i g s)"
proof -
  have "file_ok i (g f)" using file_at_ok [OF assms(1,2)] assms(3-6) by (auto simp: file_ok_def)
  then show tk: "tabs_ok (upd_file q i g s)" by (rule tabs_ok_upd [OF assms(1,2)])
  show "keeps s (upd_file q i g s)"
    by (rule keepsI) (use upd_file_acct(1) [OF _ assms(2), of _ _ g] tk assms(3,4) in \<open>auto simp: used_def\<close>)
qed


lemma fd_array_alloc_keeps:
  assumes "fd_array_alloc k s = Some (r, e, s')" "tabs_ok s"
  shows "keeps s s' \<and> (if r = 0 then \<exists>q i f. e = Some (q, i) \<and> file_at q i s' = Some f \<and> f_status f = FD_INIT \<and>
    f_open_count f = 0 \<and> f_fd f = int i else s' = s)"
proof -
  obtain q fs where q: "get_fd_array s = Some q" "files s q = Some fs"
    using assms(1) by (auto simp: fd_array_alloc_def bind_Some_iff)
  have len: "length (fd_array fs) = FILES_STRUCT_NENTRY" using assms(2) q(2) by (auto simp: tabs_ok_def)
  let ?g = "\<lambda>f. f\<lparr>f_status := FD_INIT, f_node := None\<rparr>"
  consider "r \<noteq> 0" "s' = s" | i where "i < FILES_STRUCT_NENTRY" "r = 0" "e = Some (q, i)" "f_open_count (fd_array fs ! i) = 0"
      "s' = upd_file q i ?g s"
  proof -
    have tk: "nat k < FILES_STRUCT_NENTRY" if "testfd k" using that by (auto simp: testfd_def)
    show thesis
      using assms(1) q find_index_SomeD [of "\<lambda>f. f_status f = FD_NONE" "take FILES_STRUCT_NENTRY (fd_array fs)"] len
        that tk by (auto simp: fd_array_alloc_def Let_def err_defs split: option.splits if_splits)
  qed
  then show ?thesis
  proof cases
    case 2
    have at: "file_at q i s = Some (fd_array fs ! i)" using 2(1) q(2) len by (simp add: file_at_def)
    have "f_fd (fd_array fs ! i) = int i" using file_at_ok [OF assms(2) at] by (simp add: file_ok_def)
    then show ?thesis using upd_unused [OF assms(2) at 2(4), of ?g] file_at_upd [OF at, of ?g] 2 by auto
  qed simp
qed


lemma fd_array_open_acct:
  assumes "fd_array_open q i s = Some s'" "acct (bump oo p 1) (bump rr p 1) s" "tabs_ok s" "0 \<le> rr p"
    "file_at q i s = Some f" "f_node f = Some p" "f_open_count f = 0"
  shows "acct oo rr s' \<and> tabs_ok s'"
proof -
  let ?g = "\<lambda>f. f\<lparr>f_status := FD_OPENED, f_open_count := f_open_count f + 1\<rparr>"
  have s': "s' = upd_file q i ?g s" using assms(1,5) by (auto simp: fd_array_open_def split: if_splits)
  have "counts s p \<noteq> None" using acct_missing(3) [OF assms(2), of p] assms(4) by (auto simp del: not_None_eq)
  then have "acct oo rr s'" using upd_file_acct(3) [OF assms(2,5,7), of ?g p] assms(6,7) by (simp add: s' used_def)
  moreover have "file_ok i (?g f)" using file_at_ok [OF assms(3,5)] assms(6,7) by (auto simp: file_ok_def)
  ultimately show ?thesis using tabs_ok_upd [OF assms(3,5), of ?g] s' by simp
qed


lemma fd_array_dup_acct:
  assumes "fd_array_dup q i q' i' s = Some s'" "acct oo rr s" "tabs_ok s" "\<And>p. 0 \<le> rr p"
    "file_at q i s = Some t" "f_open_count t = 0"
  shows "acct oo rr s' \<and> tabs_ok s'"
proof -
  let ?g = "\<lambda>f t. t\<lparr>f_pos := f_pos f, f_readable := f_readable f, f_writable := f_writable f\<rparr>"
  obtain f p s2 s3 where f: "file_at q' i' s = Some f" "f_status t = FD_INIT" "f_node f = Some p"
    and s: "inode_ref_inc p (upd_file q i (?g f) s) = Some s2" "inode_open_inc p s2 = Some s3"
      "fd_array_open q i (upd_file q i (\<lambda>t. t\<lparr>f_node := Some p\<rparr>) s3) = Some s'"
    using assms(1,5) by (auto simp: fd_array_dup_def bind_Some_iff Let_def split: if_splits)
  note u1 = upd_unused [OF assms(3,5,6), of "?g f"]
  have a1: "acct oo rr (upd_file q i (?g f) s)" using u1(1) assms(2,3,4,6) f(2) by (simp add: keeps_def)
  note a2 = gains_acct [OF inode_ref_inc_gains [OF s(1)] a1]
  note a3 = inode_open_inc_acct [OF s(2) a2(1)]
  have fr: "frame (upd_file q i (?g f) s) s3" by (rule frame_trans [OF a2(2) a3(2)])
  have at3: "file_at q i s3 = Some (?g f t)" using file_at_frame [OF fr] file_at_upd [OF assms(5)] by simp
  have tk3: "tabs_ok s3" using tabs_ok_frame [OF fr] u1(2) assms(6) f(2) by simp
  let ?h = "\<lambda>t. t\<lparr>f_node := Some p\<rparr>"
  note u4 = upd_unused [OF tk3 at3, of ?h]
  have a4: "acct (bump oo p 1) (bump rr p 1) (upd_file q i ?h s3)"
    using upd_file_acct(1) [OF a3(1) at3, of ?h] assms(6) by (simp add: used_def)
  show ?thesis
    by (rule fd_array_open_acct [OF s(3) a4 _ assms(4) file_at_upd [OF at3]]) (use u4(2) assms(6) f(2) in simp_all)
qed


lemma file_dup_keeps:
  assumes "file_dup i j s = Some (r, s')"
  shows "keeps s s'"
proof (rule keepsI)
  fix oo rr assume a: "acct oo rr s" "tabs_ok s" "\<And>p. 0 \<le> rr p"
  consider "s' = s" | ret e s1 where "fd_array_alloc j s = Some (ret, e, s1)" "ret \<noteq> 0" "s' = s1"
    | q1 j1 s1 q2 j2 where "fd_array_alloc j s = Some (0, Some (q2, j2), s1)" "fd_array_dup q2 j2 q1 j1 s1 = Some s'"
    using assms by (auto simp: file_dup_def bind_Some_iff split: option.splits if_splits)
  then show "acct oo rr s' \<and> tabs_ok s'"
  proof cases
    case 1
    then show ?thesis using a by simp
  next
    case 2
    then show ?thesis using fd_array_alloc_keeps [OF 2(1) a(2)] a by simp
  next
    case 3
    then obtain f where f: "keeps s s1" "file_at q2 j2 s1 = Some f" "f_open_count f = 0"
      using fd_array_alloc_keeps [OF 3(1) a(2)] by auto
    then have "acct oo rr s1 \<and> tabs_ok s1" using a unfolding keeps_def by blast
    then show ?thesis by (intro fd_array_dup_acct [OF 3(2) _ _ a(3) f(2,3)]) simp_all
  qed
qed

section \<open>The contract of the layer below\<close>

locale inode_layer =
  fixes T :: "'a fs_st_scheme vtab"
  assumes open_law: "op_open (vt_inode T k) = Some f1 \<Longrightarrow> f1 p fl s = Some (r, s') \<Longrightarrow> quiet s s'"
    and close_law: "op_close (vt_inode T k) = Some f2 \<Longrightarrow> f2 p s = Some (r, s') \<Longrightarrow> quiet s s'"
    and read_law: "op_read (vt_inode T k) = Some f3 \<Longrightarrow> f3 p iob s = Some (r, iob', s') \<Longrightarrow> quiet s s'"
    and write_law: "op_write (vt_inode T k) = Some f3 \<Longrightarrow> f3 p iob s = Some (r, iob', s') \<Longrightarrow> quiet s s'"
    and fstat_law: "op_fstat (vt_inode T k) = Some f4 \<Longrightarrow> f4 p s = Some (r, st, s') \<Longrightarrow> quiet s s'"
    and fsync_law: "op_fsync (vt_inode T k) = Some f2 \<Longrightarrow> f2 p s = Some (r, s') \<Longrightarrow> quiet s s'"
    and getdirentry_law: "op_getdirentry (vt_inode T k) = Some f3 \<Longrightarrow> f3 p iob s = Some (r, iob', s') \<Longrightarrow> quiet s s'"
    and gettype_law: "op_gettype (vt_inode T k) = Some f7 \<Longrightarrow> f7 p s = Some (r, ty, s') \<Longrightarrow> quiet s s'"
    and tryseek_law: "op_tryseek (vt_inode T k) = Some f5 \<Longrightarrow> f5 p off s = Some (r, s') \<Longrightarrow> quiet s s'"
    and truncate_law: "op_truncate (vt_inode T k) = Some f5 \<Longrightarrow> f5 p off s = Some (r, s') \<Longrightarrow> quiet s s'"
    and reclaim_law: "op_reclaim (vt_inode T k) = Some f2 \<Longrightarrow> f2 p s = Some (r, s') \<Longrightarrow> reclaims p s s'"
    and lookup_law: "op_lookup (vt_inode T k) = Some f6 \<Longrightarrow> f6 p path s = Some (r, q, s') \<Longrightarrow>
      gains (if r = 0 then q else None) s s'"
    and get_root_law: "fs_get_root (vt_fs T fs) fs s = Some (q, s') \<Longrightarrow> gains q s s'"
begin

lemma vop_opD:
  assumes "vop_op T sel p s = Some f"
  shows "\<exists>n k. inodes s p = Some n \<and> in_ops n = Some k \<and> sel (vt_inode T k) = Some f \<and> inode_check n"
  using assms by (auto simp: vop_op_def bind_Some_iff split: if_splits)

lemma vop_laws:
  "vop_op T op_open p s0 = Some f1 \<Longrightarrow> f1 p fl s = Some (r, s') \<Longrightarrow> quiet s s'"
  "vop_op T op_close p s0 = Some f2 \<Longrightarrow> f2 p s = Some (r, s') \<Longrightarrow> quiet s s'"
  "vop_op T op_read p s0 = Some f3 \<Longrightarrow> f3 p iob s = Some (r, iob', s') \<Longrightarrow> quiet s s'"
  "vop_op T op_write p s0 = Some f3 \<Longrightarrow> f3 p iob s = Some (r, iob', s') \<Longrightarrow> quiet s s'"
  "vop_op T op_fstat p s0 = Some f4 \<Longrightarrow> f4 p s = Some (r, st, s') \<Longrightarrow> quiet s s'"
  "vop_op T op_fsync p s0 = Some f2 \<Longrightarrow> f2 p s = Some (r, s') \<Longrightarrow> quiet s s'"
  "vop_op T op_getdirentry p s0 = Some f3 \<Longrightarrow> f3 p iob s = Some (r, iob', s') \<Longrightarrow> quiet s s'"
  "vop_op T op_tryseek p s0 = Some f5 \<Longrightarrow> f5 p off s = Some (r, s') \<Longrightarrow> quiet s s'"
  "vop_op T op_truncate p s0 = Some f5 \<Longrightarrow> f5 p off s = Some (r, s') \<Longrightarrow> quiet s s'"
  "vop_op T op_lookup p s0 = Some f6 \<Longrightarrow> f6 p path s = Some (r, q, s') \<Longrightarrow> gains (if r = 0 then q else None) s s'"
  by (auto dest!: vop_opD dest: open_law close_law read_law write_law fstat_law fsync_law getdirentry_law tryseek_law
      truncate_law lookup_law)

lemma inode_open_dec_acct:
  assumes "inode_open_dec T p s = Some s'" "acct oo rr s"
  shows "acct (bump oo p (- 1)) rr s'" "frame s s'"
proof -
  obtain n where n: "inodes s p = Some n" using assms(1) by (auto simp: inode_open_dec_def bind_Some_iff)
  define s1 where "s1 = upd_inode p (\<lambda>i. i\<lparr>open_count := open_count i - 1\<rparr>) s"
  have q: "quiet s1 s'"
    using assms(1) n vop_laws(2) by (auto simp: inode_open_dec_def bind_Some_iff s1_def Let_def split: if_splits)
  have fr: "frame s s1" by (simp add: s1_def frame_def upd_inode_def)
  have cs: "counts s1 = (counts s)(p \<mapsto> (ref_count n, open_count n - 1))" and cn: "counts s p = Some (ref_count n, open_count n)"
    using n by (auto simp: counts_def upd_inode_def fun_eq_iff s1_def)
  have "acct (bump oo p (- 1)) rr s1" unfolding acct_def
  proof (intro conjI allI impI)
    show "finite (dom (files s1))" using assms(2) fr by (simp add: acct_def frame_def)
  next
    fix q rc oc assume "counts s1 q = Some (rc, oc)"
    then show "oc = topens s1 q + bump oo p (- 1) q" "rc = refs s1 q + rr q"
      using assms(2) cs cn by (auto simp: acct_def frame_counting [OF fr] bump_def split: if_splits)
  next
    fix q assume "counts s1 q = None"
    then show "refs s1 q = 0" "bump oo p (- 1) q = 0" "rr q = 0"
      using assms(2) cs by (auto simp: acct_def frame_counting [OF fr] bump_def split: if_splits)
  qed
  then show "acct (bump oo p (- 1)) rr s'" by (rule quiet_acct [OF q])
  show "frame s s'" by (rule frame_trans [OF fr quiet_frame [OF q]])
qed

lemma inode_ref_dec_acct:
  assumes "inode_ref_dec T p s = Some s'" "acct oo rr s" "rr p \<ge> 1"
  shows "acct oo (bump rr p (- 1)) s'" "frame s s'"
proof -
  obtain n where n: "inodes s p = Some n" using assms(1) by (auto simp: inode_ref_dec_def bind_Some_iff)
  define s1 where "s1 = upd_inode p (\<lambda>i. i\<lparr>ref_count := ref_count i - 1\<rparr>) s"
  have fr: "frame s s1" by (simp add: s1_def frame_def upd_inode_def)
  have cs: "counts s1 = (counts s)(p \<mapsto> (ref_count n - 1, open_count n))" and cn: "counts s p = Some (ref_count n, open_count n)"
    using n by (auto simp: counts_def upd_inode_def fun_eq_iff s1_def)
  have a1: "acct oo (bump rr p (- 1)) s1" unfolding acct_def
  proof (intro conjI allI impI)
    show "finite (dom (files s1))" using assms(2) fr by (simp add: acct_def frame_def)
  next
    fix q rc oc assume "counts s1 q = Some (rc, oc)"
    then show "oc = topens s1 q + oo q" "rc = refs s1 q + bump rr p (- 1) q"
      using assms(2) cs cn by (auto simp: acct_def frame_counting [OF fr] bump_def split: if_splits)
  next
    fix q assume "counts s1 q = None"
    then show "refs s1 q = 0" "oo q = 0" "bump rr p (- 1) q = 0"
      using assms(2) cs by (auto simp: acct_def frame_counting [OF fr] bump_def split: if_splits)
  qed
  show "acct oo (bump rr p (- 1)) s'" "frame s s'"
  proof -
    consider "s' = s1" | f r where "ref_count n - 1 = 0" "vop_op T op_reclaim p s1 = Some f" "f p s1 = Some (r, s')"
      using assms(1) n by (auto simp: inode_ref_dec_def bind_Some_iff s1_def Let_def split: if_splits)
    then have "acct oo (bump rr p (- 1)) s' \<and> frame s s'"
    proof cases
      case 1
      then show ?thesis using a1 fr by simp
    next
      case 2
      then have rc: "reclaims p s1 s'" by (auto dest!: vop_opD dest: reclaim_law)
      then have fr': "frame s1 s'" by (simp add: reclaims_def)
      obtain n1 where n1: "inodes s1 p = Some n1" "inode_check n1" using vop_opD [OF 2(2)] by blast
      then have "counts s1 p = Some (ref_count n1, open_count n1)" by (simp add: counts_def)
      then have eq: "ref_count n1 = 0" "open_count n1 = open_count n" using cs 2(1) by auto
      then have z: "open_count n1 = topens s1 p + oo p" "0 = refs s1 p + (rr p - 1)"
        using acct_counts [OF a1, of p] cs 2(1) by simp_all
      have "refs s1 p \<ge> 0" using topens_le_refs [of s1 p] topens_nonneg [of s1 p] by linarith
      then have r0: "refs s1 p = 0" "rr p = 1" using z(2) assms(3) by linarith+
      have "topens s1 p = 0" using r0(1) topens_le_refs [of s1 p] topens_nonneg [of s1 p] by linarith
      then have o0: "oo p = 0" using z(1) n1(2) eq by (simp add: inode_check_def)
      have "acct oo (bump rr p (- 1)) s'"
      proof (cases "counts s' = counts s1")
        case True
        then have "quiet s1 s'" using fr' by (simp add: quiet_def gains_def)
        then show ?thesis using a1 by (rule quiet_acct)
      next
        case False
        then have cs': "counts s' = (counts s1)(p := None)" using rc by (auto simp: reclaims_def)
        have fin: "finite (dom (files s'))" using a1 fr' by (simp add: acct_def frame_def)
        have "refs s1 p = 0 \<and> oo p = 0 \<and> bump rr p (- 1) p = 0" using r0 o0 by simp
        then show ?thesis using a1 cs' fin unfolding acct_def frame_counting [OF fr']
          by (auto simp del: bump_simps split: if_splits)
      qed
      then show ?thesis using frame_trans [OF fr fr'] by simp
    qed
    then show "acct oo (bump rr p (- 1)) s'" "frame s s'" by simp_all
  qed
qed

lemma vfs_close_acct:
  assumes "vfs_close T p s = Some s'" "acct oo rr s" "rr p \<ge> 1"
  shows "acct (bump oo p (- 1)) (bump rr p (- 1)) s'" "frame s s'"
proof -
  obtain s1 where s1: "inode_open_dec T p s = Some s1" "inode_ref_dec T p s1 = Some s'"
    using assms(1) by (auto simp: vfs_close_def bind_Some_iff)
  note d = inode_open_dec_acct [OF s1(1) assms(2)]
  note e = inode_ref_dec_acct [OF s1(2) d(1) assms(3)]
  show "acct (bump oo p (- 1)) (bump rr p (- 1)) s'" by (rule e)
  show "frame s s'" by (rule frame_trans [OF d(2) e(2)])
qed

lemma vfs_get_root_acct:
  assumes "vfs_get_root T name s = Some (ret, q, s')" "acct oo rr s"
  shows "acct oo (gift rr q) s' \<and> frame s s' \<and> (ret = 0 \<longleftrightarrow> q \<noteq> None)"
proof (cases "vdev_list s = []")
  case True
  then show ?thesis using assms by (simp add: vfs_get_root_def err_defs)
next
  case False
  then obtain s1 s2 where s: "fs_down vdev_list_sem s = Some s1" "s' = fs_up vdev_list_sem s2"
    and b: "gains q s1 s2" and r: "ret = 0 \<longleftrightarrow> q \<noteq> None"
    using assms(1)
    by (auto simp: vfs_get_root_def lock_vdev_list_def unlock_vdev_list_def err_defs quiet_refl [unfolded quiet_def]
        dest!: inode_ref_inc_gains get_root_law split: Option.bind_split_asm option.splits if_splits)
  have "acct oo rr s1" using fs_down_up(1) [OF s(1)] assms(2) by blast
  note g = gains_acct [OF b this]
  show ?thesis using g fs_down_up_frame [OF s(1) g(2)] s r by (simp add: fs_down_up)
qed

lemma get_device_acct:
  assumes "get_device T path s = Some (ret, sub, q, buf, s')" "acct oo rr s" "\<And>p. 0 \<le> rr p"
  shows "acct oo (if ret = 0 then gift rr q else rr) s' \<and> frame s s'"
proof -
  have k: "acct oo (if ret = 0 then gift rr q else rr) s' \<and> frame s s'"
    if "acct oo (gift rr q) s' \<and> frame s s' \<and> (ret = 0 \<longleftrightarrow> q \<noteq> None)"
    using that by (cases q) (auto split: if_splits)
  consider (cur) "vfs_get_curdir s = Some (ret, q, s')" | (root) name where "vfs_get_root T name s = Some (ret, q, s')"
    | (boot) "vfs_get_bootfs s = Some (ret, q, s')" | (err) d where "vfs_get_curdir s = Some (ret, d, s')" "ret \<noteq> 0" "q = None"
    | (colon) d fs s1 s2 where "vfs_get_curdir s = Some (0, Some d, s1)"
      "fs_get_root (vt_fs T fs) fs s1 = Some (q, s2)" "inode_ref_dec T d s2 = Some s'" "ret = 0"
    using assms(1) by (auto simp: get_device_def Let_def bind_Some_iff split: if_splits)
  then show ?thesis
  proof cases
    case cur
    then show ?thesis using vfs_get_curdir_acct [OF cur assms(2)] k by simp
  next
    case root
    then show ?thesis using vfs_get_root_acct [OF root assms(2)] k by simp
  next
    case boot
    then show ?thesis using vfs_get_bootfs_acct [OF boot assms(2)] k by simp
  next
    case err
    then show ?thesis using vfs_get_curdir_acct [OF err(1) assms(2)] by (cases d) auto
  next
    case colon
    note a = vfs_get_curdir_acct [OF colon(1) assms(2)]
    note b = gains_acct [OF get_root_law [OF colon(2)] a(1)]
    have "gift (gift rr (Some d)) q d \<ge> 1" using assms(3) [of d] by (cases q) (auto simp: bump_def)
    note c = inode_ref_dec_acct [OF colon(3) b(1) this]
    have "bump (gift (gift rr (Some d)) q) d (- 1) = gift rr q" by (cases q) (simp_all add: bump_swap)
    then show ?thesis using c colon(4) frame_trans [OF frame_trans [OF a(2) b(2)] c(2)] by simp
  qed
qed

lemma vfs_lookup_acct:
  assumes "vfs_lookup T path s = Some (ret, q, buf, s')" "acct oo rr s" "\<And>p. 0 \<le> rr p"
  shows "acct oo (if ret = 0 then gift rr q else rr) s' \<and> frame s s'"
proof -
  obtain r1 sub d s1 where g: "get_device T path s = Some (r1, sub, d, buf, s1)"
    using assms(1) by (auto simp: vfs_lookup_def bind_Some_iff split: if_splits)
  note a = get_device_acct [OF g assms(2,3)]
  consider (err) "r1 \<noteq> 0" "ret = r1" "s' = s1" | (whole) "r1 = 0" "ret = 0" "q = d" "s' = s1"
    | (sub) p f s2 where "r1 = 0" "d = Some p" "vop_op T op_lookup p s1 = Some f" "f p sub s1 = Some (ret, q, s2)"
      "inode_ref_dec T p s2 = Some s'"
    using assms(1) g by (auto simp: vfs_lookup_def bind_Some_iff split: if_splits)
  then show ?thesis
  proof cases
    case sub
    have a1: "acct oo (bump rr p 1) s1" "frame s s1" using a sub(1,2) by simp_all
    let ?q = "if ret = 0 then q else None"
    note b = gains_acct [OF vop_laws(10) [OF sub(3,4)] a1(1)]
    have "gift (bump rr p 1) ?q p \<ge> 1" using assms(3) [of p] by (cases ?q) (auto simp: bump_def)
    note c = inode_ref_dec_acct [OF sub(5) b(1) this]
    have "bump (gift (bump rr p 1) ?q) p (- 1) = gift rr ?q" by (cases ?q) (simp_all add: bump_swap)
    then show ?thesis using c frame_trans [OF frame_trans [OF a1(2) b(2)] c(2)] by auto
  qed (use a in auto)
qed

text \<open>Opening without \<^verbatim>\<open>O_CREAT\<close>: on success the caller holds one open and one reference, on failure nothing.\<close>

lemma vfs_open_acct:
  assumes "vfs_open T path fl s = Some (ret, q, s')" "acct oo rr s" "\<And>p. 0 \<le> rr p" "fl AND O_CREAT = 0"
  shows "frame s s' \<and> (if ret = 0 then \<exists>p. q = Some p \<and> acct (bump oo p 1) (bump rr p 1) s' else acct oo rr s')"
proof -
  consider (inval) "ret \<noteq> 0" "s' = s"
    | (look) r p buf s1 where "vfs_lookup T path s = Some (r, p, buf, s1)" "r \<noteq> 0" "ret = r" "s' = s1"
    | (opn) p buf s1 f r3 s3 where "vfs_lookup T path s = Some (0, Some p, buf, s1)" "vop_op T op_open p s1 = Some f"
      "f p fl s1 = Some (r3, s3)" "if r3 \<noteq> 0 then inode_ref_dec T p s3 = Some s' \<and> ret = r3
        else (\<exists>s4. inode_open_inc p s3 = Some s4 \<and> (s' = s4 \<and> ret = 0 \<and> q = Some p \<or>
          (\<exists>g r5 s5. vop_op T op_truncate p s4 = Some g \<and> g p 0 s4 = Some (r5, s5) \<and>
            (if r5 \<noteq> 0 then \<exists>s6. inode_open_dec T p s5 = Some s6 \<and> inode_ref_dec T p s6 = Some s' \<and> ret = r5
             else s' = s5 \<and> ret = 0 \<and> q = Some p))))"
    using assms(1,4)
    by (auto simp: vfs_open_def Let_def bind_Some_iff err_defs split: if_splits)
  then show ?thesis
  proof cases
    case inval
    then show ?thesis using assms(2) by simp
  next
    case look
    then show ?thesis using vfs_lookup_acct [OF look(1) assms(2,3)] by simp
  next
    case opn
    have a: "acct oo (bump rr p 1) s1" "frame s s1" using vfs_lookup_acct [OF opn(1) assms(2,3)] by simp_all
    note qo = vop_laws(1) [OF opn(2,3)]
    note b = quiet_acct [OF qo a(1)] and fb = frame_trans [OF a(2) quiet_frame [OF qo]]
    have ge: "bump rr p 1 p \<ge> 1" using assms(3) [of p] by simp
    show ?thesis
    proof (cases "r3 = 0")
      case False
      then have "inode_ref_dec T p s3 = Some s'" "ret \<noteq> 0" using opn(4) by simp_all
      then show ?thesis using inode_ref_dec_acct [OF _ b ge] frame_trans [OF fb] by auto
    next
      case True
      then obtain s4 where s4: "inode_open_inc p s3 = Some s4" and alt: "s' = s4 \<and> ret = 0 \<and> q = Some p \<or>
          (\<exists>g r5 s5. vop_op T op_truncate p s4 = Some g \<and> g p 0 s4 = Some (r5, s5) \<and>
            (if r5 \<noteq> 0 then \<exists>s6. inode_open_dec T p s5 = Some s6 \<and> inode_ref_dec T p s6 = Some s' \<and> ret = r5
             else s' = s5 \<and> ret = 0 \<and> q = Some p))" using opn(4) by auto
      note c = inode_open_inc_acct [OF s4 b] and fc = frame_trans [OF fb inode_open_inc_acct(2) [OF s4 b]]
      from alt show ?thesis
      proof (elim disjE exE conjE)
        fix g r5 s5 assume g: "vop_op T op_truncate p s4 = Some g" "g p 0 s4 = Some (r5, s5)"
          and k: "if r5 \<noteq> 0 then \<exists>s6. inode_open_dec T p s5 = Some s6 \<and> inode_ref_dec T p s6 = Some s' \<and> ret = r5
             else s' = s5 \<and> ret = 0 \<and> q = Some p"
        note qt = vop_laws(9) [OF g]
        note d = quiet_acct [OF qt c(1)] and fd = frame_trans [OF fc quiet_frame [OF qt]]
        show ?thesis
        proof (cases "r5 = 0")
          case True
          then show ?thesis using k d fd by simp
        next
          case False
          then obtain s6 where s6: "inode_open_dec T p s5 = Some s6" "inode_ref_dec T p s6 = Some s'" "ret \<noteq> 0"
            using k by auto
          note e = inode_open_dec_acct [OF s6(1) d]
          note f = inode_ref_dec_acct [OF s6(2) e(1) ge]
          show ?thesis using f frame_trans [OF fd frame_trans [OF e(2) f(2)]] s6(3) by simp
        qed
      qed (use c fc in simp)
    qed
  qed
qed

section \<open>Rules of the table operations\<close>

text \<open>The last release of an entry closes its inode: the debt of the entry pays for it.\<close>

lemma drop_entry:
  assumes "acct oo rr s" "tabs_ok s" "\<And>p. 0 \<le> rr p" "file_at q i s = Some f" "f_open_count f = 1"
    "g f = f\<lparr>f_status := FD_CLOSED, f_open_count := 0\<rparr>" "fd_array_free T q i (upd_file q i g s) = Some s'"
  shows "acct oo rr s' \<and> tabs_ok s'"
proof -
  have ok: "file_ok i f" using file_at_ok assms(2,4) .
  then obtain p where p: "f_node f = Some p" using assms(5) by (auto simp: file_ok_def)
  let ?s = "upd_file q i g s"
  have at: "file_at q i ?s = Some (g f)" by (rule file_at_upd [OF assms(4)])
  obtain s1 where s1: "vfs_close T p ?s = Some s1" "s' = upd_file q i (\<lambda>f. f\<lparr>f_status := FD_NONE\<rparr>) s1"
    using assms(6,7) at p by (auto simp: fd_array_free_def bind_Some_iff split: if_splits)
  have a: "acct (bump oo p 1) (bump rr p 1) ?s"
    using upd_file_acct(2) [OF assms(1,4)] p assms(5,6) by (simp add: used_def)
  have "bump rr p 1 p \<ge> 1" using assms(3) [of p] by simp
  note c = vfs_close_acct [OF s1(1) a this]
  have at1: "file_at q i s1 = Some (g f)" using at file_at_frame [OF c(2)] by simp
  have "acct oo rr s'" unfolding s1(2)
    using upd_file_acct(1) [OF c(1) at1] assms(6) by (simp add: used_def)
  moreover have "s' = upd_file q i (\<lambda>_. f\<lparr>f_open_count := 0, f_status := FD_NONE\<rparr>) (s1\<lparr>files := files s\<rparr>)"
  proof -
    obtain fs where fs: "files s q = Some fs" "i < length (fd_array fs)" "f = fd_array fs ! i" using assms(4) by (rule file_atD)
    have "files s1 = files ?s" using c(2) by (simp add: frame_def)
    then show ?thesis using fs assms(6) unfolding s1(2) by (simp add: upd_file_def)
  qed
  moreover have "tabs_ok (s1\<lparr>files := files s\<rparr>)" "file_at q i (s1\<lparr>files := files s\<rparr>) = Some f"
    using assms(2,4) by (simp_all add: tabs_ok_def file_at_def)
  moreover have "file_ok i (f\<lparr>f_open_count := 0, f_status := FD_NONE\<rparr>)" using ok by (simp add: file_ok_def)
  ultimately show ?thesis using tabs_ok_upd by metis
qed

lemma fd_array_close_acct:
  assumes "fd_array_close T q i s = Some s'" "acct oo rr s" "tabs_ok s" "\<And>p. 0 \<le> rr p"
  shows "acct oo rr s' \<and> tabs_ok s'"
proof -
  obtain f where f: "file_at q i s = Some f" "f_status f = FD_OPENED" "f_open_count f > 0"
    using assms(1) by (auto simp: fd_array_close_def bind_Some_iff split: if_splits)
  let ?g = "\<lambda>f. f\<lparr>f_status := FD_CLOSED, f_open_count := f_open_count f - 1\<rparr>"
  show ?thesis
  proof (cases "f_open_count f = 1")
    case True
    then have free: "fd_array_free T q i (upd_file q i ?g s) = Some s'" using assms(1) f by (simp add: fd_array_close_def)
    show ?thesis by (rule drop_entry [OF assms(2-4) f(1) True _ free]) (simp add: True)
  next
    case False
    then have "s' = upd_file q i ?g s" using assms(1) f by (simp add: fd_array_close_def)
    moreover have "file_ok i (?g f)" using file_at_ok [OF assms(3) f(1)] f False by (auto simp: file_ok_def)
    ultimately show ?thesis
      using upd_file_acct(1) [OF assms(2) f(1), of ?g] tabs_ok_upd [OF assms(3) f(1), of ?g] f(3) False
      by (simp add: used_def)
  qed
qed

lemma fd_array_release_acct:
  assumes "fd_array_release T q i s = Some s'" "acct oo rr s" "tabs_ok s" "\<And>p. 0 \<le> rr p"
  shows "acct oo rr s' \<and> tabs_ok s'"
proof -
  obtain f where f: "file_at q i s = Some f" "f_status f = FD_OPENED \<or> f_status f = FD_CLOSED" "f_open_count f > 0"
    using assms(1) by (auto simp: fd_array_release_def bind_Some_iff split: if_splits)
  let ?g = "\<lambda>f. f\<lparr>f_open_count := f_open_count f - 1\<rparr>"
  show ?thesis
  proof (cases "f_open_count f = 1")
    case True
    then have free: "fd_array_free T q i (upd_file q i ?g s) = Some s'" using assms(1) f by (simp add: fd_array_release_def)
    then have "f_status (?g f) = FD_CLOSED"
      using file_at_upd [OF f(1), of ?g] f(2) by (auto simp: fd_array_free_def bind_Some_iff split: if_splits)
    then have "?g f = f\<lparr>f_status := FD_CLOSED, f_open_count := 0\<rparr>" using True by simp
    then show ?thesis by (rule drop_entry [OF assms(2-4) f(1) True _ free])
  next
    case False
    then have "s' = upd_file q i ?g s" using assms(1) f by (simp add: fd_array_release_def)
    moreover have "file_ok i (?g f)" using file_at_ok [OF assms(3) f(1)] f False by (auto simp: file_ok_def)
    ultimately show ?thesis
      using upd_file_acct(1) [OF assms(2) f(1), of ?g] tabs_ok_upd [OF assms(3) f(1), of ?g] f(3) False
      by (simp add: used_def)
  qed
qed

lemma keeps_table_ops:
  "fd_array_acquire q i s = Some s' \<Longrightarrow> keeps s s'"
  "fd_array_release T q i s = Some s' \<Longrightarrow> keeps s s'"
  "fd_array_close T q i s = Some s' \<Longrightarrow> keeps s s'"
  "keeps s (upd_file q i (\<lambda>f. f\<lparr>f_pos := v f\<rparr>) s)"
  by (rule keepsI; simp add: fd_array_acquire_acct fd_array_release_acct fd_array_close_acct upd_pos_acct)+

lemma file_close_keeps: "file_close T i s = Some (r, s') \<Longrightarrow> keeps s s'"
  by (auto simp: file_close_def bind_Some_iff keeps_table_ops split: option.splits)

text \<open>An operation on an open file: acquire, call, perhaps move the position, release.\<close>

lemma keeps_call:
  assumes "fd_array_acquire q i s = Some s1" "quiet s1 s2" "s3 = s2 \<or> s3 = upd_file q i (\<lambda>f. f\<lparr>f_pos := v f\<rparr>) s2"
    "fd_array_release T q i s3 = Some s4"
  shows "keeps s s4"
proof -
  have "keeps s2 s3" using assms(3) keeps_table_ops(4) by auto
  with keeps_table_ops(1) [OF assms(1)] keeps_quiet [OF assms(2)] keeps_table_ops(2) [OF assms(4)]
  show ?thesis by (blast intro: keeps_trans)
qed

lemmas keeps_call_stay = keeps_call [OF _ _ disjI1 [OF refl]]
lemmas keeps_call_pos = keeps_call [OF _ _ disjI2 [OF refl]]

lemma file_read_keeps: "file_read T i base len s = Some (r, n, s') \<Longrightarrow> keeps s s'"
  by (auto simp: file_read_def Let_def split: Option.bind_split_asm option.splits if_splits;
      drule (1) vop_laws(3); auto intro: keeps_call_stay keeps_call_pos)

lemma file_write_keeps: "file_write T i base len s = Some (r, n, s') \<Longrightarrow> keeps s s'"
  by (auto simp: file_write_def bind_Some_iff Let_def split: option.splits if_splits intro: keeps_call dest!: vop_laws(4))

lemma file_fstat_keeps: "file_fstat T i s = Some (r, st, s') \<Longrightarrow> keeps s s'"
  by (auto simp: file_fstat_def bind_Some_iff split: option.splits intro: keeps_call dest!: vop_laws(5))

lemma file_fsync_keeps: "file_fsync T i s = Some (r, s') \<Longrightarrow> keeps s s'"
  by (auto simp: file_fsync_def bind_Some_iff split: option.splits intro: keeps_call dest!: vop_laws(6))

lemma file_getdirentry_keeps: "file_getdirentry T i a off s = Some (r, n, s') \<Longrightarrow> keeps s s'"
  by (auto simp: file_getdirentry_def bind_Some_iff split: option.splits intro: keeps_call dest!: vop_laws(7))

lemma file_seek_keeps: "file_seek T i off whence s = Some (r, s') \<Longrightarrow> keeps s s'"
  by (auto simp: file_seek_def split: Option.bind_split_asm option.splits if_splits;
      (drule (1) vop_laws(5))?; (drule (1) vop_laws(8))?;
      auto intro: keeps_call_stay keeps_call_pos [OF _ quiet_trans] keeps_call_stay [OF _ quiet_trans] keeps_call_stay [OF _ quiet_refl]
        keeps_call_pos [OF _ quiet_refl] keeps_call_pos)

section \<open>Opening and duplicating\<close>

lemma fd_array_free_unused:
  assumes "fd_array_free T q i s = Some s'" "tabs_ok s" "file_at q i s = Some f" "f_status f = FD_INIT" "f_open_count f = 0"
  shows "keeps s s'"
  using upd_unused(1) [OF assms(2,3), of "\<lambda>f. f\<lparr>f_status := FD_NONE\<rparr>"] assms
  by (auto simp: fd_array_free_def bind_Some_iff split: if_splits)

lemma file_open_node_acct:
  assumes "file_open_node T q i n fl rd wr s = Some (r, s')" "acct (bump oo n 1) (bump rr n 1) s" "tabs_ok s" "\<And>p. 0 \<le> rr p"
    "file_at q i s = Some f" "f_status f = FD_INIT" "f_open_count f = 0"
  shows "acct oo rr s' \<and> tabs_ok s'"
proof -
  let ?z = "\<lambda>v f. f\<lparr>f_pos := v\<rparr>" and ?n = "\<lambda>f. f\<lparr>f_node := Some n, f_readable := rd, f_writable := wr\<rparr>"
  let ?s = "upd_file q i (?z 0) s" and ?A = "acct (bump oo n 1) (bump rr n 1)"
  have a1: "?A ?s \<and> tabs_ok ?s" using upd_pos_acct [OF assms(2,3), of q i "\<lambda>_. 0"] .
  have at1: "file_at q i ?s = Some (?z 0 f)" by (rule file_at_upd [OF assms(5)])
  have fin: "acct oo rr s' \<and> tabs_ok s'"
    if o: "fd_array_open q i (upd_file q i ?n s4) = Some s'" and s4: "?A s4 \<and> tabs_ok s4" "file_at q i s4 = Some f4"
      "f_status f4 = FD_INIT" "f_open_count f4 = 0" for s4 f4
  proof -
    have "?A (upd_file q i ?n s4)" using upd_file_acct(1) [OF _ s4(2), of _ _ ?n] s4 by (simp add: used_def)
    then show ?thesis
      by (rule fd_array_open_acct [OF o _ _ assms(4) file_at_upd [OF s4(2)]]) (use upd_unused(2) [OF _ s4(2), of ?n] s4 in simp_all)
  qed
  show ?thesis
  proof (cases "fl AND O_APPEND = 0")
    case True
    then have "fd_array_open q i (upd_file q i ?n ?s) = Some s'"
      using assms(1) by (auto simp: file_open_node_def Let_def bind_Some_iff)
    then show ?thesis using fin [OF _ a1 at1] assms(6,7) by simp
  next
    case False
    then obtain g rs st s4 where g: "vop_op T op_fstat n ?s = Some g" "g n ?s = Some (rs, st, s4)"
      using assms(1) by (auto simp: file_open_node_def Let_def split: Option.bind_split_asm)
    have qs: "quiet ?s s4" by (rule vop_laws(5) [OF g])
    have a4: "?A s4 \<and> tabs_ok s4" "file_at q i s4 = Some (?z 0 f)"
      using keepsD [OF keeps_quiet [OF qs]] quiet_acct [OF qs] tabs_ok_frame [OF quiet_frame [OF qs]] a1
        file_at_frame [OF quiet_frame [OF qs]] at1 by simp_all
    show ?thesis
    proof (cases "rs = 0")
      case True
      then have "fd_array_open q i (upd_file q i ?n (upd_file q i (?z (st_size st)) s4)) = Some s'"
        using assms(1) g False by (auto simp: file_open_node_def Let_def bind_Some_iff)
      moreover have "?A (upd_file q i (?z (st_size st)) s4) \<and> tabs_ok (upd_file q i (?z (st_size st)) s4)"
        using upd_pos_acct [OF conjunct1 [OF a4(1)] conjunct2 [OF a4(1)], of q i "\<lambda>_. st_size st"] .
      ultimately show ?thesis using fin [OF _ _ file_at_upd [OF a4(2)]] assms(6,7) by simp
    next
      case rs: False
      then obtain s5 where s5: "vfs_close T n s4 = Some s5" "fd_array_free T q i s5 = Some s'"
        using assms(1) g False by (auto simp: file_open_node_def Let_def split: Option.bind_split_asm if_splits)
      have "bump rr n 1 n \<ge> 1" using assms(4) [of n] by simp
      note a5 = vfs_close_acct [OF s5(1) conjunct1 [OF a4(1)] this]
      have tk5: "tabs_ok s5" "file_at q i s5 = Some (?z 0 f)"
        using tabs_ok_frame [OF a5(2)] file_at_frame [OF a5(2)] a4 by simp_all
      have "keeps s5 s'" by (rule fd_array_free_unused [OF s5(2) tk5]) (simp_all add: assms(6,7))
      then show ?thesis using keepsD [OF _ _ tk5(1) assms(4)] a5(1) by simp
    qed
  qed
qed

lemma file_open_keeps:
  assumes "file_open T path fl s = Some (r, s')" "fl AND O_CREAT = 0"
  shows "keeps s s'"
proof (rule keepsI)
  fix oo rr assume a: "acct oo rr s" "tabs_ok s" "\<And>p. 0 \<le> rr p"
  consider (early) "s' = s" | (full) ret e s1 where "fd_array_alloc NO_FD s = Some (ret, e, s1)" "ret \<noteq> 0" "s' = s1"
    | (vfs) q i s1 r2 p s2 where "fd_array_alloc NO_FD s = Some (0, Some (q, i), s1)"
      "vfs_open T path fl s1 = Some (r2, p, s2)" "r2 \<noteq> 0" "fd_array_free T q i s2 = Some s'"
    | (ok) q i s1 n s2 rd wr where "fd_array_alloc NO_FD s = Some (0, Some (q, i), s1)"
      "vfs_open T path fl s1 = Some (0, Some n, s2)" "file_open_node T q i n fl rd wr s2 = Some (r, s')"
    using assms(1) by (auto simp: file_open_def Let_def split: Option.bind_split_asm option.splits if_splits)
  then show "acct oo rr s' \<and> tabs_ok s'"
  proof cases
    case early
    then show ?thesis using a by simp
  next
    case full
    then show ?thesis using fd_array_alloc_keeps [OF full(1) a(2)] a by simp
  next
    case vfs
    obtain f where f: "keeps s s1" "file_at q i s1 = Some f" "f_status f = FD_INIT" "f_open_count f = 0"
      using fd_array_alloc_keeps [OF vfs(1) a(2)] by auto
    note a1 = keepsD [OF f(1) a]
    have v: "frame s1 s2" "acct oo rr s2" using vfs_open_acct [OF vfs(2) conjunct1 [OF a1] a(3) assms(2)] vfs(3) by simp_all
    have tk: "tabs_ok s2" "file_at q i s2 = Some f" using a1 f(2) tabs_ok_frame [OF v(1)] file_at_frame [OF v(1)] by simp_all
    show ?thesis by (rule keepsD [OF fd_array_free_unused [OF vfs(4) tk f(3,4)] v(2) tk(1) a(3)])
  next
    case ok
    obtain f where f: "keeps s s1" "file_at q i s1 = Some f" "f_status f = FD_INIT" "f_open_count f = 0"
      using fd_array_alloc_keeps [OF ok(1) a(2)] by auto
    note a1 = keepsD [OF f(1) a]
    have v: "frame s1 s2" "acct (bump oo n 1) (bump rr n 1) s2" using vfs_open_acct [OF ok(2) conjunct1 [OF a1] a(3) assms(2)] by simp_all
    have tk: "tabs_ok s2" "file_at q i s2 = Some f" using a1 f(2) tabs_ok_frame [OF v(1)] file_at_frame [OF v(1)] by simp_all
    show ?thesis by (rule file_open_node_acct [OF ok(3) v(2) tk(1) a(3) tk(2) f(3,4)])
  qed
qed

end

section \<open>Sequences of descriptor operations\<close>

datatype fd_op = Open string u32 | Close int | Read int nat u64 | Write int nat u64 | Seek int u64 int
  | Fstat int | Fsync int | Getdirentry int nat u64 | Dup int int

fun fd_run :: "'a fs_st_scheme vtab \<Rightarrow> fd_op \<Rightarrow> 'a fs_st_scheme \<Rightarrow> 'a fs_st_scheme option" where
  "fd_run T (Open path fl) s = map_option snd (file_open T path fl s)"
| "fd_run T (Close i) s = map_option snd (file_close T i s)"
| "fd_run T (Read i a n) s = map_option (snd \<circ> snd) (file_read T i a n s)"
| "fd_run T (Write i a n) s = map_option (snd \<circ> snd) (file_write T i a n s)"
| "fd_run T (Seek i off w) s = map_option snd (file_seek T i off w s)"
| "fd_run T (Fstat i) s = map_option (snd \<circ> snd) (file_fstat T i s)"
| "fd_run T (Fsync i) s = map_option snd (file_fsync T i s)"
| "fd_run T (Getdirentry i a off) s = map_option (snd \<circ> snd) (file_getdirentry T i a off s)"
| "fd_run T (Dup i j) s = map_option snd (file_dup i j s)"

fun fd_runs :: "'a fs_st_scheme vtab \<Rightarrow> fd_op list \<Rightarrow> 'a fs_st_scheme \<Rightarrow> 'a fs_st_scheme option" where
  "fd_runs T [] s = Some s"
| "fd_runs T (op # ops) s = fd_run T op s \<bind> fd_runs T ops"

definition no_create :: "fd_op \<Rightarrow> bool" where
  "no_create op = (case op of Open path fl \<Rightarrow> fl AND O_CREAT = 0 | _ \<Rightarrow> True)"

context inode_layer
begin

lemma fd_run_keeps: "fd_run T op s = Some s' \<Longrightarrow> no_create op \<Longrightarrow> keeps s s'"
  by (cases op) (auto simp: no_create_def file_close_keeps file_dup_keeps intro: file_open_keeps file_read_keeps
      file_write_keeps file_seek_keeps file_fstat_keeps file_fsync_keeps file_getdirentry_keeps)

lemma fd_runs_keeps: "fd_runs T ops s = Some s' \<Longrightarrow> list_all no_create ops \<Longrightarrow> keeps s s'"
  by (induction ops arbitrary: s) (auto simp: bind_Some_iff intro: keeps_trans fd_run_keeps)

end

section \<open>Sharing the files of a process\<close>

text \<open>What \<open>dup_files\<close> makes of an entry \<open>t\<close> of the new table, given the entry \<open>f\<close> of the old one.\<close>

definition dup_entry :: "file_t \<Rightarrow> file_t \<Rightarrow> file_t" where
  "dup_entry f t = (if f_status f = FD_OPENED
     then t\<lparr>f_pos := f_pos f, f_readable := f_readable f, f_writable := f_writable f, f_node := f_node f,
            f_status := FD_OPENED, f_open_count := 1\<rparr> else t)"

lemma file_at_upd_other: "q' \<noteq> q \<or> i' \<noteq> i \<Longrightarrow> file_at q' i' (upd_file q i g s) = file_at q' i' s"
  by (cases "files s q'") (auto simp: file_at_def upd_file_def)

lemma upd_file_upd_file:
  "upd_file q i g (upd_file q i h s) = upd_file q i (\<lambda>f. g (h f)) s" if "i < length (fd_array (the (files s q)))" "files s q \<noteq> None"
  using that by (auto simp: upd_file_def)

lemma acct_inode_exists:
  assumes "acct oo rr s" "file_at q i s = Some f" "used f p"
  shows "inodes s p \<noteq> None"
proof -
  let ?s = "upd_file q i (\<lambda>f. f\<lparr>f_open_count := 0\<rparr>) s"
  have fin: "finite (dom (files s))" using assms(1) by (simp add: acct_def)
  have "topens ?s p = topens s p - 1"
    using upd_file_counting(1) [OF fin assms(2), of "\<lambda>f. f\<lparr>f_open_count := 0\<rparr>" p] assms(3) by (simp add: used_def)
  moreover have "0 \<le> topens ?s p" by simp
  ultimately have "refs s p \<noteq> 0" using topens_le_refs [of s p] by linarith
  then have "counts s p \<noteq> None" using acct_missing(1) [OF assms(1)] by blast
  then show ?thesis by (auto simp: counts_def)
qed

lemma dup_files_step:
  assumes "acct oo rr s" "tabs_ok s" "\<And>p. 0 \<le> rr p" "to \<noteq> from" "file_at from i s = Some f" "f_status f = FD_OPENED"
    "file_at to i s = Some t" "f_open_count t = 0"
  shows "\<exists>s'. fd_array_dup to i from i (upd_file to i (\<lambda>t. t\<lparr>f_status := FD_INIT\<rparr>) s) = Some s' \<and> acct oo rr s' \<and> tabs_ok s' \<and>
    files s' = files (upd_file to i (dup_entry f) s) \<and> bootfs_node s' = bootfs_node s"
proof -
  let ?s = "upd_file to i (\<lambda>t. t\<lparr>f_status := FD_INIT\<rparr>) s"
  have at: "file_at from i ?s = Some f" "file_at to i ?s = Some (t\<lparr>f_status := FD_INIT\<rparr>)"
    using assms(4,5) by (auto simp: file_at_upd_other file_at_upd [OF assms(7)])
  obtain p where p: "f_node f = Some p" "f_open_count f > 0"
    using file_at_ok [OF assms(2,5)] assms(6) by (auto simp: file_ok_def)
  then obtain n where n: "inodes s p = Some n" using acct_inode_exists [OF assms(1,5)] by (auto simp: used_def)
  obtain fs where fs: "files s to = Some fs" "i < length (fd_array fs)" "t = fd_array fs ! i" using assms(7) by (rule file_atD)
  have "\<exists>s'. fd_array_dup to i from i ?s = Some s' \<and> files s' = files (upd_file to i (dup_entry f) s) \<and> bootfs_node s' = bootfs_node s"
    using at p n fs assms(6,8) unfolding fd_array_dup_def inode_ref_inc_def inode_open_inc_def fd_array_open_def
    by (simp add: file_at_def upd_inode_def upd_file_def dup_entry_def)
  then obtain s' where s': "fd_array_dup to i from i ?s = Some s'" "files s' = files (upd_file to i (dup_entry f) s)"
    "bootfs_node s' = bootfs_node s" by blast
  note u = upd_unused [OF assms(2,7,8), of "\<lambda>t. t\<lparr>f_status := FD_INIT\<rparr>"]
  have a: "acct oo rr ?s" "tabs_ok ?s" using keepsD [OF u(1) assms(1-3)] assms(8) by simp_all
  have "acct oo rr s' \<and> tabs_ok s'" by (rule fd_array_dup_acct [OF s'(1) a assms(3) at(2)]) (simp add: assms(8))
  then show ?thesis using s' by blast
qed

lemma file_at_cong: "files s' = files s \<Longrightarrow> file_at q i s' = file_at q i s"
  by (simp add: file_at_def)

lemma dup_files_loop_spec:
  assumes "acct oo rr s" "tabs_ok s" "\<And>p. 0 \<le> rr p" "to \<noteq> from" "distinct is"
    "\<And>i. i \<in> set is \<Longrightarrow> file_at from i s = Some (F i)" "\<And>i. i \<in> set is \<Longrightarrow> file_at to i s = Some (G i) \<and> f_open_count (G i) = 0"
  shows "\<exists>s'. dup_files_loop to from is s = Some s' \<and> acct oo rr s' \<and> tabs_ok s' \<and>
    (\<forall>q. q \<noteq> to \<longrightarrow> files s' q = files s q) \<and> (\<forall>i \<in> set is. file_at to i s' = Some (dup_entry (F i) (G i))) \<and>
    (\<forall>i. i \<notin> set is \<longrightarrow> file_at to i s' = file_at to i s) \<and> map_option pwd (files s' to) = map_option pwd (files s to)"
  using assms
proof (induction "is" arbitrary: s)
  case (Cons i js)
  have fi: "file_at from i s = Some (F i)" and ti: "file_at to i s = Some (G i)" "f_open_count (G i) = 0" using Cons.prems by auto
  obtain s1 where s1: "(if f_status (F i) = FD_OPENED then fd_array_dup to i from i (upd_file to i (\<lambda>t. t\<lparr>f_status := FD_INIT\<rparr>) s)
        else Some s) = Some s1" "acct oo rr s1" "tabs_ok s1" "files s1 = files (upd_file to i (dup_entry (F i)) s)"
  proof (cases "f_status (F i) = FD_OPENED")
    case True
    then show thesis using dup_files_step [OF Cons.prems(1-4) fi True ti] that by auto
  next
    case False
    obtain fs where "files s to = Some fs" "i < length (fd_array fs)" "G i = fd_array fs ! i" using ti(1) by (rule file_atD)
    then have "files (upd_file to i (dup_entry (F i)) s) = files s" using False
      by (auto simp: upd_file_def dup_entry_def fun_eq_iff)
    then show thesis using that [of s] False Cons.prems(1,2) by simp
  qed
  have at1: "file_at from j s1 = file_at from j s" "j \<noteq> i \<Longrightarrow> file_at to j s1 = file_at to j s"
      "file_at to i s1 = Some (dup_entry (F i) (G i))" for j
    unfolding file_at_cong [OF s1(4)] using Cons.prems(4) by (auto simp: file_at_upd_other file_at_upd [OF ti(1)])
  obtain s2 where s2: "dup_files_loop to from js s1 = Some s2" "acct oo rr s2" "tabs_ok s2" "\<forall>q. q \<noteq> to \<longrightarrow> files s2 q = files s1 q"
      "\<forall>j \<in> set js. file_at to j s2 = Some (dup_entry (F j) (G j))" "\<forall>j. j \<notin> set js \<longrightarrow> file_at to j s2 = file_at to j s1"
      "map_option pwd (files s2 to) = map_option pwd (files s1 to)"
    using Cons.IH [OF s1(2,3) Cons.prems(3,4)] Cons.prems(5-7) at1 by (fastforce)
  have "files s1 q = files s q" if "q \<noteq> to" for q using s1(4) that by (simp add: upd_file_def)
  moreover have "map_option pwd (files s1 to) = map_option pwd (files s to)"
    unfolding s1(4) by (cases "files s to") (simp_all add: upd_file_def)
  ultimately show ?case using s1(1) s2 fi at1 Cons.prems(5) by auto
qed simp

lemma file_at_table:
  "tabs_ok s \<Longrightarrow> files s q = Some fs \<Longrightarrow> i < FILES_STRUCT_NENTRY \<Longrightarrow> file_at q i s = Some (fd_array fs ! i)"
  by (auto simp: file_at_def tabs_ok_def)

lemma set_pwd_acct:
  assumes "acct oo rr s" "files s q = Some fs" "pwd fs = None" "\<And>p. pw = Some p \<Longrightarrow> inodes s p \<noteq> None"
  shows "acct oo (case pw of None \<Rightarrow> rr | Some p \<Rightarrow> bump rr p (- 1)) (s\<lparr>files := (files s)(q \<mapsto> fs\<lparr>pwd := pw\<rparr>)\<rparr>)"
proof -
  let ?s = "s\<lparr>files := (files s)(q \<mapsto> fs\<lparr>pwd := pw\<rparr>)\<rparr>"
  have fin: "finite (dom (files s))" using assms(1) by (simp add: acct_def)
  have d: "dom (files ?s) = dom (files s)" "q \<in> dom (files s)" using assms(2) by auto
  have o: "topens ?s p = topens s p" for p
    unfolding topens_def d(1) by (rule sum.cong) (use assms(2) in \<open>auto simp: n_used_def\<close>)
  have "tpwds ?s p = tpwds s p + of_bool (pw = Some p)" for p
    unfolding tpwds_def d(1) using assms(2,3) by (subst (1 2) sum.remove [OF fin d(2)]) simp
  then have r: "refs ?s p = refs s p + of_bool (pw = Some p)" for p by (simp add: refs_def o)
  have c: "counts ?s = counts s" by (simp add: counts_def fun_eq_iff)
  have n: "\<exists>a b. counts s p = Some (a, b)" if "pw = Some p" for p using assms(4) [OF that] by (auto simp: counts_def)
  show ?thesis using assms(1) n fin unfolding acct_def o r c d(1)
    by (auto simp: bump_def split: option.splits)
qed

text \<open>
  C25. \<open>dup_files\<close>, used by \<^verbatim>\<open>fork\<close>, always succeeds on a fresh table: it never panics, the child gets the
  working directory and, at the same descriptors, every open file of the parent with the same position, mode and inode
  and one open of its own; nothing else changes, and every inode is again counted exactly.
\<close>

theorem dup_files_shares_files:
  assumes "acct (\<lambda>_. 0) held s" "tabs_ok s" "\<And>p. 0 \<le> held p" "to \<noteq> from"
    "files s to = Some t" "files_count t = 0" "pwd t = None" "\<forall>e \<in> set (fd_array t). f_open_count e = 0"
    "files s from = Some f" "files_count f > 0"
  shows "\<exists>s' t'. dup_files to from s = Some (0, s') \<and> acct (\<lambda>_. 0) held s' \<and> tabs_ok s' \<and> files s' to = Some t' \<and>
    pwd t' = pwd f \<and> (\<forall>i < FILES_STRUCT_NENTRY. fd_array t' ! i = dup_entry (fd_array f ! i) (fd_array t ! i)) \<and>
    (\<forall>q. q \<noteq> to \<longrightarrow> files s' q = files s q)"
proof -
  define s1 where "s1 = s\<lparr>files := (files s)(to \<mapsto> t\<lparr>pwd := pwd f\<rparr>)\<rparr>"
  have ex: "inodes s p \<noteq> None" if "pwd f = Some p" for p
  proof -
    have "from \<in> dom (files s)" "finite (dom (files s))" using assms(1,9) by (auto simp: acct_def)
    then have "of_bool (pwd (the (files s from)) = Some p) \<le> tpwds s p" unfolding tpwds_def by (intro member_le_sum) auto
    then have "refs s p \<noteq> 0" using that assms(9) tpwds_le_refs [of s p] by auto
    then have "counts s p \<noteq> None" using acct_missing(1) [OF assms(1)] by blast
    then show ?thesis by (auto simp: counts_def)
  qed
  have a1: "acct (\<lambda>_. 0) (case pwd f of None \<Rightarrow> held | Some p \<Rightarrow> bump held p (- 1)) s1"
    unfolding s1_def by (rule set_pwd_acct [OF assms(1,5,7)]) (rule ex)
  obtain s2 where s2: "(case pwd f of None \<Rightarrow> Some s1 | Some p \<Rightarrow> inode_ref_inc p s1) = Some s2"
    "acct (\<lambda>_. 0) held s2" "files s2 = files s1"
  proof (cases "pwd f")
    case None
    then show thesis using that a1 by simp
  next
    case (Some p)
    then obtain n where "inodes s1 p = Some n" using ex by (auto simp: s1_def)
    then obtain s2 where i: "inode_ref_inc p s1 = Some s2" by (simp add: inode_ref_inc_def)
    from gains_acct [OF inode_ref_inc_gains [OF i] a1] show thesis using that [of s2] Some i by (simp add: frame_def)
  qed
  have tk2: "tabs_ok s2" using assms(2,5) s2(3) by (auto simp: tabs_ok_def s1_def)
  have fl: "files s2 to = Some (t\<lparr>pwd := pwd f\<rparr>)" "files s2 from = Some f" using s2(3) assms(4,9) by (simp_all add: s1_def)
  have lt: "length (fd_array t) = FILES_STRUCT_NENTRY" using assms(2,5) by (auto simp: tabs_ok_def)
  have "\<exists>s'. dup_files_loop to from [0..<FILES_STRUCT_NENTRY] s2 = Some s' \<and> acct (\<lambda>_. 0) held s' \<and> tabs_ok s' \<and>
    (\<forall>q. q \<noteq> to \<longrightarrow> files s' q = files s2 q) \<and>
    (\<forall>i \<in> set [0..<FILES_STRUCT_NENTRY]. file_at to i s' = Some (dup_entry (fd_array f ! i) (fd_array t ! i))) \<and>
    (\<forall>i. i \<notin> set [0..<FILES_STRUCT_NENTRY] \<longrightarrow> file_at to i s' = file_at to i s2) \<and>
    map_option pwd (files s' to) = map_option pwd (files s2 to)"
    by (rule dup_files_loop_spec [OF s2(2) tk2 assms(3,4)])
      (use file_at_table [OF tk2 fl(1)] file_at_table [OF tk2 fl(2)] assms(8) lt in \<open>simp_all del: upt_Suc FILES_STRUCT_NENTRY\<close>)
  then obtain s' where s': "dup_files_loop to from [0..<FILES_STRUCT_NENTRY] s2 = Some s'" "acct (\<lambda>_. 0) held s'" "tabs_ok s'"
    "\<forall>q. q \<noteq> to \<longrightarrow> files s' q = files s2 q"
    "\<forall>i < FILES_STRUCT_NENTRY. file_at to i s' = Some (dup_entry (fd_array f ! i) (fd_array t ! i))"
    "map_option pwd (files s' to) = map_option pwd (files s2 to)" by auto
  then obtain t' where t': "files s' to = Some t'" "pwd t' = pwd f" using fl(1) by auto
  have "\<forall>i < FILES_STRUCT_NENTRY. fd_array t' ! i = dup_entry (fd_array f ! i) (fd_array t ! i)"
    using s'(5) file_at_table [OF s'(3) t'(1)] by auto
  moreover have "\<forall>q. q \<noteq> to \<longrightarrow> files s' q = files s q" using s'(4) s2(3) by (simp add: s1_def)
  moreover have "dup_files to from s = Some (0, s')"
    using assms(5,6,9,10) s2(1) s'(1) by (simp add: dup_files_def s1_def [symmetric] del: FILES_STRUCT_NENTRY)
  ultimately show ?thesis using s' t' by blast
qed

end
