(* ===== verification/Dev.thy ===== *)
theory Dev
  imports FileInv
begin

text \<open>
  Devices as files: the inode operations of devices (\<^verbatim>\<open>kern/fs/devs/dev.c\<close>) and the drivers of standard input
  (\<^verbatim>\<open>dev_stdin.c\<close>), standard output (\<^verbatim>\<open>dev_stdout.c\<close>) and the root disk (the end of \<^verbatim>\<open>dev_disk0.c\<close>).  The functions of
  \<^verbatim>\<open>struct device\<close> are a table \<open>D\<close> of drivers.  The state extends the file system's by the ring buffer of standard
  input, whose positions are natural numbers here (the code's are 64-bit and count characters typed since boot).  A
  read of standard input that would wait for a key is the value \<open>None\<close>.  The device layer satisfies the contract
  \<open>inode_layer\<close>.
\<close>

record dev_st = fs_st +
  stdin_buffer :: "nat \<Rightarrow> u8"
  p_rpos :: nat
  p_wpos :: nat

record 'w device_ops =
  d_open :: "device \<Rightarrow> u32 \<Rightarrow> 'w \<Rightarrow> (int \<times> 'w) option"
  d_close :: "device \<Rightarrow> 'w \<Rightarrow> (int \<times> 'w) option"
  d_io :: "device \<Rightarrow> iobuf \<Rightarrow> bool \<Rightarrow> 'w \<Rightarrow> (int \<times> iobuf \<times> 'w) option"
  d_ioctl :: "device \<Rightarrow> int \<Rightarrow> ptr \<Rightarrow> 'w \<Rightarrow> (int \<times> 'w) option"

section \<open>The inode operations of devices\<close>

definition vop_device :: "ptr \<Rightarrow> 'a fs_st_scheme \<Rightarrow> device option" where
  "vop_device p s = do { n \<leftarrow> inodes s p; kassert (in_type n = inode_type_device_info); Some (in_device n) }"

definition dev_open :: "(nat \<Rightarrow> 'a fs_st_scheme device_ops) \<Rightarrow> ptr \<Rightarrow> u32 \<Rightarrow> 'a fs_st_scheme \<Rightarrow> (int \<times> 'a fs_st_scheme) option" where
  "dev_open D p open_flags s =
     (if open_flags AND (O_CREAT OR O_TRUNC OR O_EXCL OR O_APPEND) \<noteq> 0 then Some (- E_INVAL, s)
      else do { d \<leftarrow> vop_device p s; d_open (D (d_driver d)) d open_flags s })"

definition dev_close :: "(nat \<Rightarrow> 'a fs_st_scheme device_ops) \<Rightarrow> ptr \<Rightarrow> 'a fs_st_scheme \<Rightarrow> (int \<times> 'a fs_st_scheme) option" where
  "dev_close D p s = do { d \<leftarrow> vop_device p s; d_close (D (d_driver d)) d s }"

definition dev_read :: "(nat \<Rightarrow> 'a fs_st_scheme device_ops) \<Rightarrow> ptr \<Rightarrow> iobuf \<Rightarrow> 'a fs_st_scheme \<Rightarrow> (int \<times> iobuf \<times> 'a fs_st_scheme) option" where
  "dev_read D p iob s = do { d \<leftarrow> vop_device p s; d_io (D (d_driver d)) d iob False s }"

definition dev_write :: "(nat \<Rightarrow> 'a fs_st_scheme device_ops) \<Rightarrow> ptr \<Rightarrow> iobuf \<Rightarrow> 'a fs_st_scheme \<Rightarrow> (int \<times> iobuf \<times> 'a fs_st_scheme) option" where
  "dev_write D p iob s = do { d \<leftarrow> vop_device p s; d_io (D (d_driver d)) d iob True s }"

definition dev_ioctl :: "(nat \<Rightarrow> 'a fs_st_scheme device_ops) \<Rightarrow> ptr \<Rightarrow> int \<Rightarrow> ptr \<Rightarrow> 'a fs_st_scheme \<Rightarrow> (int \<times> 'a fs_st_scheme) option" where
  "dev_ioctl D p op data s = do { d \<leftarrow> vop_device p s; d_ioctl (D (d_driver d)) d op data s }"

definition dev_gettype :: "ptr \<Rightarrow> 'a fs_st_scheme \<Rightarrow> (int \<times> u32 \<times> 'a fs_st_scheme) option" where
  "dev_gettype p s = do { d \<leftarrow> vop_device p s; Some (0, if d_blocks d > 0 then S_IFBLK else S_IFCHR, s) }"

text \<open>The call of \<^verbatim>\<open>vop_gettype\<close> in \<^verbatim>\<open>dev_fstat\<close> is a call of \<^verbatim>\<open>dev_gettype\<close>, because the inode's table is this one.\<close>

definition dev_fstat :: "ptr \<Rightarrow> 'a fs_st_scheme \<Rightarrow> (int \<times> stat \<times> 'a fs_st_scheme) option" where
  "dev_fstat p s = do {
     n \<leftarrow> inodes s p;
     kassert (inode_check n);
     (ret, mode, s1) \<leftarrow> dev_gettype p s;
     d \<leftarrow> vop_device p s1;
     Some (0, \<lparr>st_mode = mode, st_nlinks = 1, st_blocks = d_blocks d, st_size = d_blocks d * d_blocksize d\<rparr>, s1)
   }"

definition dev_tryseek :: "ptr \<Rightarrow> u64 \<Rightarrow> 'a fs_st_scheme \<Rightarrow> (int \<times> 'a fs_st_scheme) option" where
  "dev_tryseek p off s = do {
     d \<leftarrow> vop_device p s;
     Some (if d_blocks d > 0 \<and> off mod d_blocksize d = 0 \<and> 0 \<le> sint off \<and> off < d_blocks d * d_blocksize d
           then 0 else - E_INVAL, s)
   }"

definition dev_lookup :: "ptr \<Rightarrow> string \<Rightarrow> 'a fs_st_scheme \<Rightarrow> (int \<times> ptr option \<times> 'a fs_st_scheme) option" where
  "dev_lookup p path s =
     (if path \<noteq> [] then Some (- E_NOENT, None, s)
      else do { s1 \<leftarrow> inode_ref_inc p s; Some (0, Some p, s1) })"

definition dev_node_ops :: "(nat \<Rightarrow> 'a fs_st_scheme device_ops) \<Rightarrow> 'a fs_st_scheme inode_ops" where
  "dev_node_ops D = \<lparr>op_magic = VOP_MAGIC, op_open = Some (dev_open D), op_close = Some (dev_close D),
     op_read = Some (dev_read D), op_write = Some (dev_write D), op_fstat = Some dev_fstat, op_fsync = None,
     op_namefile = None, op_getdirentry = None, op_reclaim = None, op_gettype = Some dev_gettype,
     op_tryseek = Some dev_tryseek, op_truncate = None, op_create = None, op_lookup = Some dev_lookup,
     op_ioctl = Some (dev_ioctl D)\<rparr>"

text \<open>\<open>0\<close> names the table \<open>dev_node_ops\<close>.\<close>

definition dev_create_inode :: "inode \<Rightarrow> ptr option \<Rightarrow> 'a fs_st_scheme \<Rightarrow> (ptr option \<times> 'a fs_st_scheme) option" where
  "dev_create_inode u k s =
     (case alloc_inode inode_type_device_info u k s of
        (None, s1) \<Rightarrow> Some (None, s1)
      | (Some p, s1) \<Rightarrow> do { s2 \<leftarrow> inode_init p 0 None s1; Some (Some p, s2) })"

section \<open>Standard output\<close>

definition stdout_open :: "u32 \<Rightarrow> int" where
  "stdout_open open_flags = (if open_flags \<noteq> O_WRONLY then - E_INVAL else 0)"

definition stdout_close :: int where "stdout_close = 0"
definition stdout_ioctl :: "int \<Rightarrow> int" where "stdout_ioctl op = - E_INVAL"

definition stdout_io :: "iobuf \<Rightarrow> bool \<Rightarrow> 'a fs_st_scheme \<Rightarrow> int \<times> iobuf \<times> 'a fs_st_scheme" where
  "stdout_io iob wr s =
     (if wr then (0, iob\<lparr>io_resid := 0\<rparr>,
        s\<lparr>console := console s @ map (\<lambda>i. kmem s (io_base iob + i)) [0..<unat (io_resid iob)]\<rparr>)
      else (- E_INVAL, iob, s))"

section \<open>Standard input\<close>

definition STDIN_BUFSIZE :: nat where "STDIN_BUFSIZE = 4096"

definition dev_stdin_write :: "u8 \<Rightarrow> 'a dev_st_scheme \<Rightarrow> 'a dev_st_scheme" where
  "dev_stdin_write c s =
     (if c \<noteq> 0 then
        let s1 = s\<lparr>stdin_buffer := (stdin_buffer s)(p_wpos s mod STDIN_BUFSIZE := c)\<rparr>
        in if p_wpos s - p_rpos s < STDIN_BUFSIZE then s1\<lparr>p_wpos := p_wpos s + 1\<rparr> else s1
      else s)"

fun dev_stdin_read :: "nat \<Rightarrow> nat \<Rightarrow> 'a dev_st_scheme \<Rightarrow> 'a dev_st_scheme option" where
  "dev_stdin_read buf 0 s = Some s"
| "dev_stdin_read buf (Suc n) s =
     (if p_rpos s < p_wpos s
      then dev_stdin_read (buf + 1) n
             (s\<lparr>kmem := (kmem s)(buf := stdin_buffer s (p_rpos s mod STDIN_BUFSIZE)), p_rpos := p_rpos s + 1\<rparr>)
      else None)"

definition stdin_open :: "u32 \<Rightarrow> int" where
  "stdin_open open_flags = (if open_flags \<noteq> O_RDONLY then - E_INVAL else 0)"

definition stdin_close :: int where "stdin_close = 0"
definition stdin_ioctl :: "int \<Rightarrow> int" where "stdin_ioctl op = - E_INVAL"

text \<open>The number of characters read is the return code, an \<^verbatim>\<open>int\<close>.\<close>

definition stdin_io :: "iobuf \<Rightarrow> bool \<Rightarrow> 'a dev_st_scheme \<Rightarrow> (int \<times> iobuf \<times> 'a dev_st_scheme) option" where
  "stdin_io iob wr s =
     (if \<not> wr then do {
        s1 \<leftarrow> dev_stdin_read (io_base iob) (unat (io_resid iob)) s;
        let ret = sint (ucast (io_resid iob) :: 32 word);
        Some (ret, if ret > 0 then iob\<lparr>io_resid := io_resid iob - word_of_int ret\<rparr> else iob, s1)
      } else Some (- E_INVAL, iob, s))"

text \<open>\<^verbatim>\<open>dev_intr\<close>: \<open>c\<close> is the word read from the UART's data register.\<close>

definition dev_intr :: "u32 \<Rightarrow> 'a dev_st_scheme \<Rightarrow> 'a dev_st_scheme" where
  "dev_intr c s = (if c \<le> 0xFF then dev_stdin_write (ucast c) s else s)"

section \<open>The drivers, and their registration at boot\<close>

definition stdin_drv :: nat where "stdin_drv = 0"
definition stdout_drv :: nat where "stdout_drv = 1"
definition disk0_drv :: nat where "disk0_drv = 2"

definition kernel_drivers :: "nat \<Rightarrow> 'a dev_st_scheme device_ops" where
  "kernel_drivers k =
     (if k = stdin_drv then \<lparr>d_open = (\<lambda>d fl s. Some (stdin_open fl, s)), d_close = (\<lambda>d s. Some (stdin_close, s)),
        d_io = (\<lambda>d. stdin_io), d_ioctl = (\<lambda>d op data s. Some (stdin_ioctl op, s))\<rparr>
      else if k = stdout_drv then \<lparr>d_open = (\<lambda>d fl s. Some (stdout_open fl, s)), d_close = (\<lambda>d s. Some (stdout_close, s)),
        d_io = (\<lambda>d iob wr s. Some (stdout_io iob wr s)), d_ioctl = (\<lambda>d op data s. Some (stdout_ioctl op, s))\<rparr>
      else \<lparr>d_open = (\<lambda>d fl s. Some (disk0_open fl, s)), d_close = (\<lambda>d s. Some (disk0_close, s)),
        d_io = (\<lambda>d. disk0_io (d_blocks d)), d_ioctl = (\<lambda>d op data s. Some (disk0_ioctl op, s))\<rparr>)"

definition set_device :: "ptr \<Rightarrow> device \<Rightarrow> 'a fs_st_scheme \<Rightarrow> 'a fs_st_scheme" where
  "set_device p d s = upd_inode p (\<lambda>n. n\<lparr>in_device := d\<rparr>) s"

definition stdout_device_init :: device where
  "stdout_device_init = \<lparr>d_blocks = 0, d_blocksize = 1, d_driver = stdout_drv\<rparr>"

definition stdin_device_init :: "'a dev_st_scheme \<Rightarrow> device \<times> 'a dev_st_scheme" where
  "stdin_device_init s = (\<lparr>d_blocks = 0, d_blocksize = 1, d_driver = stdin_drv\<rparr>, s\<lparr>p_rpos := 0, p_wpos := 0\<rparr>)"

text \<open>\<open>k\<close>, \<open>ks\<close>, \<open>kd\<close> and \<open>kbuf\<close> are the answers of \<^verbatim>\<open>kmalloc\<close>; failures panic.\<close>

definition dev_init_stdout :: "inode \<Rightarrow> ptr option \<Rightarrow> bool \<Rightarrow> bool \<Rightarrow> 'a fs_st_scheme \<Rightarrow> 'a fs_st_scheme option" where
  "dev_init_stdout u k ks kd s = do {
     (np, s1) \<leftarrow> dev_create_inode u k s;
     p \<leftarrow> np;
     (ret, s2) \<leftarrow> vfs_add_dev ks kd ''stdout'' (Some p) False (set_device p stdout_device_init s1);
     if ret \<noteq> 0 then None else Some s2
   }"

definition dev_init_stdin :: "inode \<Rightarrow> ptr option \<Rightarrow> bool \<Rightarrow> bool \<Rightarrow> 'a dev_st_scheme \<Rightarrow> 'a dev_st_scheme option" where
  "dev_init_stdin u k ks kd s = do {
     (np, s1) \<leftarrow> dev_create_inode u k s;
     p \<leftarrow> np;
     let (d, s2) = stdin_device_init s1;
     (ret, s3) \<leftarrow> vfs_add_dev ks kd ''stdin'' (Some p) False (set_device p d s2);
     if ret \<noteq> 0 then None else Some s3
   }"

definition dev_init_disk0 :: "inode \<Rightarrow> ptr option \<Rightarrow> nat option \<Rightarrow> bool \<Rightarrow> bool \<Rightarrow> 'a fs_st_scheme \<Rightarrow> 'a fs_st_scheme option" where
  "dev_init_disk0 u k kbuf ks kd s = do {
     (np, s1) \<leftarrow> dev_create_inode u k s;
     p \<leftarrow> np;
     (n, sz, s2) \<leftarrow> disk0_device_init kbuf s1;
     (ret, s3) \<leftarrow> vfs_add_dev ks kd ''disk0'' (Some p) True (set_device p \<lparr>d_blocks = n, d_blocksize = sz, d_driver = disk0_drv\<rparr> s2);
     if ret \<noteq> 0 then None else Some s3
   }"

text \<open>The operations that are in use before a file system is mounted: every inode is a device's.\<close>

definition dev_vtab :: "'a dev_st_scheme vtab" where
  "dev_vtab = \<lparr>vt_inode = (\<lambda>_. dev_node_ops kernel_drivers),
     vt_fs = (\<lambda>_. \<lparr>fs_sync = (\<lambda>_ _. None), fs_get_root = (\<lambda>_ _. None), fs_unmount = (\<lambda>_ _. None), fs_cleanup = (\<lambda>_ _. None)\<rparr>)\<rparr>"

section \<open>The contract\<close>

lemma quietI:
  "files s' = files s \<Longrightarrow> filesp s' = filesp s \<Longrightarrow> bootfs_node s' = bootfs_node s \<Longrightarrow> vdev_list s' = vdev_list s \<Longrightarrow>
   locks s' = locks s \<Longrightarrow> inodes s' = inodes s \<Longrightarrow> quiet s s'"
  by (simp add: quiet_def gains_def frame_def counts_def fun_eq_iff)

lemma dev_stdin_read_quiet: "dev_stdin_read buf n s = Some s' \<Longrightarrow> quiet s s'"
proof (induction buf n s rule: dev_stdin_read.induct)
  case (2 buf n s)
  let ?s = "s\<lparr>kmem := (kmem s)(buf := stdin_buffer s (p_rpos s mod STDIN_BUFSIZE)), p_rpos := p_rpos s + 1\<rparr>"
  have "quiet s ?s" by (rule quietI) simp_all
  then show ?case using 2 quiet_trans [of s ?s s'] by (auto split: if_splits)
qed simp

lemma blk_quiet:
  "disk0_read_blks_nolock b n s = Some s' \<Longrightarrow> quiet s s'"
  "disk0_write_blks_nolock b n s = Some s' \<Longrightarrow> quiet s s'"
  by (rule quietI; auto simp: disk0_read_blks_nolock_def disk0_write_blks_nolock_def ide_read_secs_def ide_write_secs_def
      bind_Some_iff Let_def split: if_splits prod.splits)+

lemma quiet_kmem [simp]: "quiet s (s\<lparr>kmem := m\<rparr>)"
  by (rule quietI) simp_all

lemma blk_kmem_quiet:
  "disk0_write_blks_nolock b n (s\<lparr>kmem := m\<rparr>) = Some s' \<Longrightarrow> quiet s s'"
  "disk0_read_blks_nolock b n s = Some s' \<Longrightarrow> quiet s (s'\<lparr>kmem := m\<rparr>)"
  using blk_quiet quiet_trans quiet_kmem by blast+

lemma disk0_loop_quiet:
  assumes "disk0_loop wr b r iob s = Some x"
  shows "quiet s (snd x)"
proof (rule disk0_loop.raw_induct [where P = "\<lambda>wr b r iob s x. quiet s (snd x)", rotated, OF assms], goal_cases)
  case (1 f wr b r iob s x)
  then show ?case
    by (auto simp: Let_def split: if_splits Option.bind_split_asm prod.splits
        dest!: blk_kmem_quiet(1) blk_kmem_quiet(2) 1(1) intro: quiet_trans)
qed

lemma disk0_io_quiet: "disk0_io n iob wr s = Some (r, iob', s') \<Longrightarrow> quiet s s'"
proof -
  assume a: "disk0_io n iob wr s = Some (r, iob', s')"
  have l: "quiet s s1" if "lock_disk0 s = Some s1" for s1 using that by (auto simp: lock_disk0_def intro: quietI split: if_splits)
  have u: "quiet s1 (unlock_disk0 s1)" for s1 :: "'a fs_st_scheme" by (simp add: unlock_disk0_def quietI)
  show ?thesis using a
    by (auto simp: disk0_io_def Let_def bind_Some_iff split: if_splits
        dest!: l disk0_loop_quiet intro: quiet_trans [OF quiet_trans [OF _ _] u])
qed

lemma driver_laws:
  "d_open (kernel_drivers k) d fl s = Some (r, s') \<Longrightarrow> quiet s s'"
  "d_close (kernel_drivers k) d s = Some (r, s') \<Longrightarrow> quiet s s'"
  "d_io (kernel_drivers k) d iob wr s = Some (r, iob', s') \<Longrightarrow> quiet s s'"
  by (auto simp: kernel_drivers_def stdin_io_def stdout_io_def bind_Some_iff Let_def split: if_splits
      dest!: dev_stdin_read_quiet disk0_io_quiet intro: quietI)

lemma dev_tryseek_quiet: "dev_tryseek p off s = Some (r, s') \<Longrightarrow> s' = s"
  by (auto simp: dev_tryseek_def bind_Some_iff)

interpretation dev: inode_layer dev_vtab
proof (unfold_locales, goal_cases)
  case (12 k f6 p path s r q s')
  then show ?case
    by (auto simp: dev_vtab_def dev_node_ops_def dev_lookup_def bind_Some_iff quiet_refl [unfolded quiet_def]
        dest: inode_ref_inc_gains split: if_splits)
qed (auto simp: dev_vtab_def dev_node_ops_def dev_open_def dev_close_def dev_read_def dev_write_def dev_fstat_def
    dev_gettype_def bind_Some_iff dest: driver_laws dest!: dev_tryseek_quiet split: if_splits)

section \<open>Accounts of descriptors\<close>

text \<open>
  C24. Descriptor operations leak nothing.  Over every file system that keeps the contract of the layer,
  every sequence of opening (without creation), closing, reading, writing, seeking, examining, syncing, listing and
  duplicating keeps the tables well formed and every inode counted exactly: its open count is the number of entries in
  use, its reference count this number plus working directories, boot file system and what others hold.
\<close>

theorem descriptor_operations_keep_accounts:
  assumes "inode_layer T" "acct (\<lambda>_. 0) held s" "tabs_ok s" "\<And>p. 0 \<le> held p"
    "list_all no_create ops" "fd_runs T ops s = Some s'"
  shows "acct (\<lambda>_. 0) held s' \<and> tabs_ok s'"
  using keepsD [OF inode_layer.fd_runs_keeps [OF assms(1,6,5)] assms(2-4)] .

text \<open>A machine after boot: standard input and output are registered and one process has a fresh table.\<close>

definition blank_inode :: inode where
  "blank_inode = \<lparr>in_type = inode_type_sfs_inode_info, in_device = \<lparr>d_blocks = 0, d_blocksize = 0, d_driver = 0\<rparr>,
     ref_count = 0, open_count = 0, in_fs = None, in_ops = None\<rparr>"

definition blank_file :: file_t where
  "blank_file = \<lparr>f_status = FD_CLOSED, f_readable = False, f_writable = False, f_fd = 0, f_pos = 0, f_node = None, f_open_count = 7\<rparr>"

definition cold_dev :: dev_st where
  "cold_dev = \<lparr>kmem = (\<lambda>a. of_nat (a mod 100) + 33), ide_devices = (\<lambda>_. \<lparr>ide_valid = False, ide_sets = 0, ide_size = 0, iobase = 0\<rparr>),
     disk0_buffer = 0, disk0_locked = False, inodes = (\<lambda>_. None), files = (\<lambda>_. None), filesp = Some 100, bootfs_node = None,
     vdev_list = [], locks = (\<lambda>_. False), console = [], stdin_buffer = (\<lambda>_. 0), p_rpos = 0, p_wpos = 0\<rparr>"

definition boot_dev :: "dev_st option" where
  "boot_dev = do {
     s1 \<leftarrow> dev_init_stdin blank_inode (Some 1) True True (vfs_init cold_dev);
     s2 \<leftarrow> dev_init_stdout blank_inode (Some 2) True True s1;
     Some (files_count_inc 100 (snd (files_create (Some 100) (replicate 72 blank_file) s2)))
   }"

definition example_dev :: dev_st where
  "example_dev = the boot_dev"

definition dev_inode :: "nat \<Rightarrow> inode" where
  "dev_inode drv = \<lparr>in_type = inode_type_device_info, in_device = \<lparr>d_blocks = 0, d_blocksize = 1, d_driver = drv\<rparr>,
     ref_count = 1, open_count = 0, in_fs = None, in_ops = Some 0\<rparr>"

definition fresh_table :: "file_t list" where
  "fresh_table = fd_array_init (replicate 72 blank_file)"

lemma example_dev_eq:
  "inodes example_dev = [1 \<mapsto> dev_inode stdin_drv, 2 \<mapsto> dev_inode stdout_drv]"
  "files example_dev = [100 \<mapsto> \<lparr>pwd = None, fd_array = fresh_table, files_count = 1\<rparr>]"
  "bootfs_node example_dev = None" "filesp example_dev = Some 100"
  "vdev_list example_dev = [\<lparr>devname = ''stdout'', devnode = Some 2, dev_fs = None, mountable = False\<rparr>,
     \<lparr>devname = ''stdin'', devnode = Some 1, dev_fs = None, mountable = False\<rparr>]"
  by (simp_all add: example_dev_def boot_dev_def cold_dev_def vfs_init_def vfs_devlist_init_def dev_init_stdin_def dev_init_stdout_def
      dev_create_inode_def alloc_inode_def inode_init_def inode_ref_inc_def upd_inode_def vfs_add_dev_def vfs_do_add_def
      lock_vdev_list_def unlock_vdev_list_def fs_down_def fs_up_def check_devname_conflict_def stdin_device_init_def
      stdout_device_init_def set_device_def blank_inode_def FS_MAX_DNAME_LEN_def files_create_def files_count_inc_def
      fresh_table_def dev_inode_def fun_eq_iff)

lemma fresh_table_entry:
  "length fresh_table = 72" "i < 72 \<Longrightarrow> fresh_table ! i = blank_file\<lparr>f_open_count := 0, f_status := FD_NONE, f_fd := int i\<rparr>"
  by (simp_all add: fresh_table_def fd_array_init_def)

text \<open>The device list holds one reference to each device.\<close>

definition dev_refs :: "ptr \<Rightarrow> int" where
  "dev_refs p = (if p = 1 \<or> p = 2 then 1 else 0)"

lemma dev_refs_nonneg: "0 \<le> dev_refs p"
  by (simp add: dev_refs_def)

lemma example_dev_ok:
  "acct (\<lambda>_. 0) dev_refs example_dev" "tabs_ok example_dev"
proof -
  have "n_used \<lparr>pwd = None, fd_array = fresh_table, files_count = 1\<rparr> p = 0" for p
    by (rule n_used_0) (use fresh_table_entry in \<open>auto simp: in_set_conv_nth used_def\<close>)
  then have "topens example_dev p = 0" "refs example_dev p = 0" for p
    by (simp_all add: topens_def refs_def tpwds_def example_dev_eq)
  then show "acct (\<lambda>_. 0) dev_refs example_dev"
    by (auto simp: acct_def counts_def example_dev_eq dev_inode_def dev_refs_def split: if_splits)
  show "tabs_ok example_dev" using fresh_table_entry by (auto simp: tabs_ok_def example_dev_eq file_ok_def)
qed

theorem descriptor_operations_keep_accounts_witness:
  "\<exists>s'. fd_runs dev_vtab [Open ''stdout:'' 1, Write 0 5 1, Close 0] example_dev = Some s' \<and>
     acct (\<lambda>_. 0) dev_refs s' \<and> tabs_ok s'"
proof -
  let ?ops = "[Open ''stdout:'' 1, Write 0 5 1, Close 0]"
  have "fd_runs dev_vtab ?ops example_dev \<noteq> None" by code_simp
  then obtain s' where s': "fd_runs dev_vtab ?ops example_dev = Some s'" by blast
  have "list_all no_create ?ops" by (simp add: no_create_def O_CREAT_def)
  from descriptor_operations_keep_accounts [OF dev.inode_layer_axioms example_dev_ok dev_refs_nonneg this s'] s' show ?thesis by simp
qed

section \<open>Path names with a device\<close>

lemma get_device_colon:
  assumes "name \<noteq> []" "\<forall>c \<in> set name. c \<noteq> CHR '':'' \<and> c \<noteq> CHR ''/''"
  shows "get_device T (name @ CHR '':'' # rest) s = do {
      (ret, p, s1) \<leftarrow> vfs_get_root T name s;
      Some (ret, dropWhile (\<lambda>c. c = CHR ''/'') rest, p, name, s1) }"
proof -
  have "takeWhile (\<lambda>c. c \<noteq> CHR '':'' \<and> c \<noteq> CHR ''/'') (name @ CHR '':'' # rest) = name"
    using assms(2) by (simp add: takeWhile_append)
  then show ?thesis using assms(1) by (simp add: get_device_def)
qed

text \<open>
  A defect of path names with a device.  Looking up \<open>name:rest\<close> cuts the caller's buffer at the colon, so the second
  parse of this buffer, which \<^verbatim>\<open>vfs_open\<close> makes to create a missing file, sees only \<open>name\<close>: it answers with the
  current directory and the device's name as the name of the new file, whatever the device and the path were.
\<close>

lemma lookup_cuts_device_path:
  assumes "name \<noteq> []" "\<forall>c \<in> set name. c \<noteq> CHR '':'' \<and> c \<noteq> CHR ''/''"
    "vfs_lookup T (name @ CHR '':'' # rest) s = Some (ret, q, buf, s1)"
    "get_cwd_nolock s1 = Some (Some d)" "inodes s1 d \<noteq> None"
  shows "\<exists>s2. vfs_lookup_parent T buf s1 = Some (0, Some d, name, name, s2)"
proof -
  have buf: "buf = name" using assms(3) unfolding vfs_lookup_def get_device_colon [OF assms(1,2)]
    by (auto split: Option.bind_split_asm if_splits)
  have tw: "takeWhile (\<lambda>c. c \<noteq> CHR '':'' \<and> c \<noteq> CHR ''/'') name = name" using assms(2) by simp
  obtain n where n: "inodes s1 d = Some n" using assms(5) by blast
  show ?thesis unfolding buf vfs_lookup_parent_def get_device_def Let_def tw
    using assms(4) n by (simp add: vfs_get_curdir_def inode_ref_inc_def)
qed

definition example_cwd :: dev_st where
  "example_cwd = example_dev\<lparr>files := [100 \<mapsto> \<lparr>pwd = Some 1, fd_array = fresh_table, files_count = 1\<rparr>]\<rparr>"

lemma lookup_cuts_device_path_example:
  "\<exists>s1 s2. vfs_lookup dev_vtab ''stdout:x'' example_cwd = Some (- 16, None, ''stdout'', s1) \<and>
     vfs_lookup_parent dev_vtab ''stdout'' s1 = Some (0, Some 1, ''stdout'', ''stdout'', s2)"
proof -
  define x where "x = vfs_lookup dev_vtab ''stdout:x'' example_cwd"
  have "(case x of None \<Rightarrow> False | Some (r, q, buf, s1) \<Rightarrow>
      r = - 16 \<and> q = None \<and> buf = ''stdout'' \<and> get_cwd_nolock s1 = Some (Some 1) \<and> inodes s1 1 \<noteq> None)"
    unfolding x_def by code_simp
  then obtain s1 where s1: "x = Some (- 16, None, ''stdout'', s1)" "get_cwd_nolock s1 = Some (Some 1)" "inodes s1 1 \<noteq> None"
    by (cases x) (auto simp del: not_None_eq)
  have l: "vfs_lookup dev_vtab (''stdout'' @ CHR '':'' # ''x'') example_cwd = Some (- 16, None, ''stdout'', s1)"
    using s1(1) by (simp add: x_def del: One_nat_def)
  have "\<exists>s2. vfs_lookup_parent dev_vtab ''stdout'' s1 = Some (0, Some 1, ''stdout'', ''stdout'', s2)"
    by (rule lookup_cuts_device_path [OF _ _ l s1(2,3)]) simp_all
  then show ?thesis using s1(1) unfolding x_def by blast
qed

section \<open>Console input and output\<close>

definition stdin_ok :: "'a dev_st_scheme \<Rightarrow> bool" where
  "stdin_ok s \<longleftrightarrow> p_rpos s \<le> p_wpos s \<and> p_wpos s - p_rpos s \<le> STDIN_BUFSIZE"

definition stdin_chars :: "'a dev_st_scheme \<Rightarrow> u8 list" where
  "stdin_chars s = map (\<lambda>i. stdin_buffer s (i mod STDIN_BUFSIZE)) [p_rpos s..<p_wpos s]"

lemma stdin_chars_length: "length (stdin_chars s) = p_wpos s - p_rpos s"
  by (simp add: stdin_chars_def)

text \<open>Distinct positions of the window use distinct cells of the ring.\<close>

lemma ring_cells:
  assumes "r \<le> i" "i < w" "w - r \<le> STDIN_BUFSIZE" "i mod STDIN_BUFSIZE = w mod STDIN_BUFSIZE"
  shows "i = r \<and> w - r = STDIN_BUFSIZE"
proof -
  have "STDIN_BUFSIZE dvd w - i" using assms(2,4) by (metis less_imp_le mod_eq_dvd_iff_nat)
  then have "STDIN_BUFSIZE \<le> w - i" using assms(2) by (simp add: dvd_imp_le)
  then show ?thesis using assms(1-3) by auto
qed

lemma stdin_write_chars:
  assumes "stdin_ok s" "c \<noteq> 0"
  shows "stdin_ok (dev_stdin_write c s)" (is ?A)
    "stdin_chars (dev_stdin_write c s) = (if length (stdin_chars s) < STDIN_BUFSIZE then stdin_chars s @ [c] else c # tl (stdin_chars s))"
    (is ?B)
proof -
  let ?r = "p_rpos s" and ?w = "p_wpos s"
  have ok: "?r \<le> ?w" "?w - ?r \<le> STDIN_BUFSIZE" using assms(1) by (simp_all add: stdin_ok_def)
  show ?A using ok assms(2) by (auto simp: dev_stdin_write_def stdin_ok_def Let_def)
  show ?B
  proof (cases "?w - ?r < STDIN_BUFSIZE")
    case True
    have "i mod STDIN_BUFSIZE \<noteq> ?w mod STDIN_BUFSIZE" if "i \<in> set [?r..<?w]" for i
      using ring_cells [of ?r i ?w] ok True that by auto
    then show ?thesis using True assms(2) ok
      by (auto simp: dev_stdin_write_def stdin_chars_def)
  next
    case False
    then have w: "?w = ?r + STDIN_BUFSIZE" using ok by simp
    have r: "?r < ?w" using w by (simp add: STDIN_BUFSIZE_def)
    have "i mod STDIN_BUFSIZE \<noteq> ?w mod STDIN_BUFSIZE" if "i \<in> set [Suc ?r..<?w]" for i
      using ring_cells [of ?r i ?w] ok that by auto
    moreover have "?w mod STDIN_BUFSIZE = ?r mod STDIN_BUFSIZE" using w by simp
    ultimately show ?thesis using False assms(2) r
      by (auto simp: dev_stdin_write_def stdin_chars_def upt_conv_Cons)
  qed
qed

lemma stdin_read_chars:
  assumes "stdin_ok s"
  shows "n \<le> length (stdin_chars s) \<Longrightarrow> \<exists>s'. dev_stdin_read buf n s = Some s' \<and> stdin_ok s' \<and> stdin_chars s' = drop n (stdin_chars s) \<and>
      kmem s' = (\<lambda>a. if buf \<le> a \<and> a < buf + n then stdin_chars s ! (a - buf) else kmem s a)"
    "n > length (stdin_chars s) \<Longrightarrow> dev_stdin_read buf n s = None"
proof -
  show "\<exists>s'. dev_stdin_read buf n s = Some s' \<and> stdin_ok s' \<and> stdin_chars s' = drop n (stdin_chars s) \<and>
      kmem s' = (\<lambda>a. if buf \<le> a \<and> a < buf + n then stdin_chars s ! (a - buf) else kmem s a)" if "n \<le> length (stdin_chars s)"
    using assms that
  proof (induction n arbitrary: buf s)
    case (Suc n)
    let ?s = "s\<lparr>kmem := (kmem s)(buf := stdin_buffer s (p_rpos s mod STDIN_BUFSIZE)), p_rpos := p_rpos s + 1\<rparr>"
    have lt: "p_rpos s < p_wpos s" using Suc.prems(2) by (simp add: stdin_chars_length)
    then have cs: "stdin_chars s = stdin_buffer s (p_rpos s mod STDIN_BUFSIZE) # stdin_chars ?s"
      by (simp add: stdin_chars_def upt_conv_Cons)
    have "stdin_ok ?s" "n \<le> length (stdin_chars ?s)" using Suc.prems lt by (auto simp: stdin_ok_def stdin_chars_length)
    from Suc.IH [OF this, of "buf + 1"] obtain s' where s': "dev_stdin_read (buf + 1) n ?s = Some s'" "stdin_ok s'"
      "stdin_chars s' = drop n (stdin_chars ?s)"
      "kmem s' = (\<lambda>a. if buf + 1 \<le> a \<and> a < buf + 1 + n then stdin_chars ?s ! (a - (buf + 1)) else kmem ?s a)" by blast
    have "stdin_chars s ! (a - buf) = stdin_chars ?s ! (a - (buf + 1))" if "buf + 1 \<le> a" for a
    proof -
      have "a - buf = Suc (a - (buf + 1))" using that by simp
      then show ?thesis unfolding cs by (simp only: nth_Cons_Suc)
    qed
    then have "kmem s' = (\<lambda>a. if buf \<le> a \<and> a < buf + Suc n then stdin_chars s ! (a - buf) else kmem s a)"
      unfolding s'(4) using cs by (auto simp: fun_eq_iff)
    then show ?case using s' lt cs by simp
  qed (auto simp: fun_eq_iff)
  show "dev_stdin_read buf n s = None" if "n > length (stdin_chars s)"
    using that
  proof (induction n arbitrary: buf s)
    case (Suc n)
    then show ?case by (auto simp: stdin_chars_length)
  qed simp
qed

text \<open>
  C26. Standard input is a queue of at most 4096 characters: a key is appended, a read of \<open>n\<close> characters waits until
  there are \<open>n\<close> and then moves the oldest \<open>n\<close> into the buffer, in order and nothing else.  When the queue is full a
  key is not dropped: it replaces the oldest character that has not been read.
\<close>

theorem stdin_is_queue:
  assumes "stdin_ok s"
  shows "(c \<noteq> 0 \<longrightarrow> stdin_ok (dev_stdin_write c s) \<and> stdin_chars (dev_stdin_write c s) =
        (if length (stdin_chars s) < STDIN_BUFSIZE then stdin_chars s @ [c] else c # tl (stdin_chars s))) \<and>
    (if n \<le> length (stdin_chars s)
     then \<exists>s'. dev_stdin_read buf n s = Some s' \<and> stdin_ok s' \<and> stdin_chars s' = drop n (stdin_chars s) \<and>
            kmem s' = (\<lambda>a. if buf \<le> a \<and> a < buf + n then stdin_chars s ! (a - buf) else kmem s a)
     else dev_stdin_read buf n s = None)"
  using stdin_write_chars [OF assms] stdin_read_chars [OF assms] by simp

theorem stdin_is_queue_witness:
  "stdin_chars (dev_stdin_write 97 cold_dev) = [97]"
proof -
  have z: "stdin_ok cold_dev" "stdin_chars cold_dev = []" by (simp_all add: stdin_ok_def cold_dev_def stdin_chars_def)
  have "stdin_chars (dev_stdin_write 97 cold_dev) = stdin_chars cold_dev @ [97]"
    using stdin_is_queue [OF z(1), THEN conjunct1, of 97] z(2) by (simp add: STDIN_BUFSIZE_def)
  then show ?thesis using z(2) by simp
qed

text \<open>
  Writing to standard output.  On a descriptor that is open for writing on the console, \<open>file_write\<close> never
  panics, prints exactly the bytes of the buffer, in order, reports them all as written and moves the position; apart
  from the console and this position the state is unchanged, the counts included.
\<close>

lemma stdout_write_prints:
  assumes "tabs_ok s" "fd2file i s = Some (Some (q, j))" "file_at q j s = Some f" "f_writable f" "f_node f = Some p"
    "inodes s p = Some n" "inode_check n" "in_type n = inode_type_device_info" "d_driver (in_device n) = stdout_drv"
  shows "file_write dev_vtab i base len s = Some (0, len,
    upd_file q j (\<lambda>f. f\<lparr>f_pos := f_pos f + len\<rparr>)
      (s\<lparr>console := console s @ map (\<lambda>k. kmem s (base + k)) [0..<unat len]\<rparr>))"
proof -
  have st: "f_status f = FD_OPENED"
    using assms(2,3) by (auto simp: fd2file_def split: if_splits Option.bind_split_asm)
  have ok: "f_status f = FD_OPENED" "f_open_count f > 0" using st file_at_ok [OF assms(1,3)] by (simp_all add: file_ok_def)
  obtain k where k: "in_ops n = Some k" using assms(7) by (auto simp: inode_check_def)
  obtain fs where fs: "files s q = Some fs" "j < length (fd_array fs)" "f = fd_array fs ! j" using assms(3) by (rule file_atD)
  let ?a = "\<lambda>f. f\<lparr>f_open_count := f_open_count f + 1\<rparr>"
  let ?s1 = "upd_file q j ?a s"
  let ?s2 = "?s1\<lparr>console := console s @ map (\<lambda>k. kmem s (base + k)) [0..<unat len]\<rparr>"
  have acq: "fd_array_acquire q j s = Some ?s1" using assms(3) ok by (simp add: fd_array_acquire_def)
  have op: "vop_op dev_vtab op_write p ?s1 = Some (dev_write kernel_drivers)"
    using assms(6,7) k by (simp add: vop_op_def upd_file_def dev_vtab_def dev_node_ops_def)
  have io: "dev_write kernel_drivers p (iobuf_init base len (f_pos f)) ?s1 = Some (0, iobuf_init base len (f_pos f)\<lparr>io_resid := 0\<rparr>, ?s2)"
    using assms(6,8,9) by (simp add: dev_write_def vop_device_def upd_file_def kernel_drivers_def stdout_io_def iobuf_init_def
        stdin_drv_def stdout_drv_def)
  have used: "iobuf_used (iobuf_init base len (f_pos f)\<lparr>io_resid := 0\<rparr>) = len" by (simp add: iobuf_used_def iobuf_init_def)
  have at2: "file_at q j ?s2 = Some (?a f)" using fs by (simp add: file_at_def upd_file_def)
  have rel: "fd_array_release dev_vtab q j (upd_file q j (\<lambda>f. f\<lparr>f_pos := f_pos f + len\<rparr>) ?s2) = Some
      (upd_file q j (\<lambda>f. f\<lparr>f_pos := f_pos f + len\<rparr>) (s\<lparr>console := console s @ map (\<lambda>k. kmem s (base + k)) [0..<unat len]\<rparr>))"
    using fs ok by (simp add: fd_array_release_def file_at_def upd_file_def)
  show ?thesis using assms(2-5) acq op io at2 rel used ok
    by (simp add: file_write_def Let_def)
qed

text \<open>The same machine with descriptor 0 open on the console and a second, fresh table at address 200.\<close>

definition console_entry :: file_t where
  "console_entry = \<lparr>f_status = FD_OPENED, f_readable = False, f_writable = True, f_fd = 0, f_pos = 7, f_node = Some 2, f_open_count = 1\<rparr>"

definition example_console :: dev_st where
  "example_console = example_dev\<lparr>inodes := [1 \<mapsto> dev_inode stdin_drv, 2 \<mapsto> (dev_inode stdout_drv)\<lparr>ref_count := 2, open_count := 1\<rparr>],
     files := [100 \<mapsto> \<lparr>pwd = None, fd_array = fresh_table[0 := console_entry], files_count = 1\<rparr>,
               200 \<mapsto> \<lparr>pwd = None, fd_array = fresh_table, files_count = 0\<rparr>]\<rparr>"

lemma example_console_ok:
  "acct (\<lambda>_. 0) dev_refs example_console" "tabs_ok example_console"
proof -
  have z: "(\<Sum>f\<leftarrow>fresh_table. of_bool (used f p)) = (0 :: int)" for p
  proof -
    have "\<forall>f \<in> set fresh_table. \<not> used f p" using fresh_table_entry by (auto simp: in_set_conv_nth used_def)
    then show ?thesis using n_used_0 [of "\<lparr>pwd = None, fd_array = fresh_table, files_count = 0\<rparr>" p] by (simp add: n_used_def)
  qed
  have u: "n_used \<lparr>pwd = None, fd_array = fresh_table[0 := console_entry], files_count = c\<rparr> p = of_bool (p = 2)"
      "n_used \<lparr>pwd = None, fd_array = fresh_table, files_count = c\<rparr> p = 0" for p c
    using z [of p] by (simp_all add: n_used_def sum_list_map_update fresh_table_entry)
      (auto simp: used_def console_entry_def blank_file_def)
  have d: "dom (files example_console) = {100, 200}" by (auto simp: example_console_def)
  have "topens example_console p = of_bool (p = 2)" "tpwds example_console p = 0" for p
    unfolding topens_def tpwds_def d by (simp_all add: example_console_def u)
  then show "acct (\<lambda>_. 0) dev_refs example_console"
    by (auto simp: acct_def refs_def counts_def d example_console_def example_dev_eq dev_inode_def dev_refs_def split: if_splits)
  have "file_ok i (fresh_table[0 := console_entry] ! i)" "file_ok i (fresh_table ! i)" if "i < 72" for i
    using that fresh_table_entry by (cases "i = 0"; simp add: file_ok_def console_entry_def)+
  then show "tabs_ok example_console" by (auto simp: tabs_ok_def example_console_def fresh_table_entry split: if_splits)
qed

theorem dup_files_shares_files_witness:
  "\<exists>s' t'. dup_files 200 100 example_console = Some (0, s') \<and> acct (\<lambda>_. 0) dev_refs s' \<and>
     files s' 200 = Some t' \<and> f_node (fd_array t' ! 0) = Some 2 \<and> f_pos (fd_array t' ! 0) = 7"
proof -
  let ?t = "\<lparr>pwd = None, fd_array = fresh_table, files_count = 0\<rparr>"
  let ?f = "\<lparr>pwd = None, fd_array = fresh_table[0 := console_entry], files_count = 1\<rparr>"
  have fl: "files example_console 200 = Some ?t" "files example_console 100 = Some ?f" by (simp_all add: example_console_def)
  have cl: "\<forall>e \<in> set (fd_array ?t). f_open_count e = 0" using fresh_table_entry by (auto simp: in_set_conv_nth)
  obtain s' t' where s': "dup_files 200 100 example_console = Some (0, s')" "acct (\<lambda>_. 0) dev_refs s'"
    "files s' 200 = Some t'" "\<forall>i < FILES_STRUCT_NENTRY. fd_array t' ! i = dup_entry (fd_array ?f ! i) (fd_array ?t ! i)"
    using dup_files_shares_files [OF example_console_ok dev_refs_nonneg _ fl(1) _ _ cl fl(2)] by auto
  from s'(4) [rule_format, of 0] have "f_node (fd_array t' ! 0) = Some 2 \<and> f_pos (fd_array t' ! 0) = 7"
    using fresh_table_entry by (simp add: dup_entry_def console_entry_def)
  then show ?thesis using s' by blast
qed

lemma stdout_write_example:
  "\<exists>s'. file_write dev_vtab 0 64 3 example_console = Some (0, 3, s') \<and> console s' = [97, 98, 99]"
proof -
  have fl: "files example_console 100 = Some \<lparr>pwd = None, fd_array = fresh_table[0 := console_entry], files_count = 1\<rparr>"
    "filesp example_console = Some 100" by (simp_all add: example_console_def example_dev_eq)
  have at: "file_at 100 0 example_console = Some console_entry"
    using fl fresh_table_entry(1) by (auto simp: file_at_def simp flip: length_greater_0_conv)
  have fd: "fd2file 0 example_console = Some (Some (100, 0))"
    using fl at by (simp add: fd2file_def testfd_def get_fd_array_def console_entry_def)
  have p: "inodes example_console 2 = Some ((dev_inode stdout_drv)\<lparr>ref_count := 2, open_count := 1\<rparr>)" by (simp add: example_console_def)
  have c: "kmem example_console = (\<lambda>a. of_nat (a mod 100) + 33)" "console example_console = []"
    by (simp_all add: example_console_def example_dev_def boot_dev_def cold_dev_def vfs_init_def vfs_devlist_init_def dev_init_stdin_def
      dev_init_stdout_def dev_create_inode_def alloc_inode_def inode_init_def inode_ref_inc_def upd_inode_def vfs_add_dev_def
      vfs_do_add_def lock_vdev_list_def unlock_vdev_list_def fs_down_def fs_up_def check_devname_conflict_def stdin_device_init_def
      stdout_device_init_def set_device_def blank_inode_def FS_MAX_DNAME_LEN_def files_create_def files_count_inc_def)
  have "file_write dev_vtab 0 64 3 example_console = Some (0, 3,
      upd_file 100 0 (\<lambda>f. f\<lparr>f_pos := f_pos f + 3\<rparr>)
        (example_console\<lparr>console := console example_console @ map (\<lambda>k. kmem example_console (64 + k)) [0..<unat (3 :: u64)]\<rparr>))"
    by (rule stdout_write_prints [OF example_console_ok(2) fd at _ _ p])
      (simp_all add: console_entry_def dev_inode_def inode_check_def MAX_INODE_COUNT_def)
  then show ?thesis using c by (simp add: upd_file_def upt_rec)
qed

end
