(* ===== verification/ProcInv.thy ===== *)
theory ProcInv
  imports Proc
begin

text \<open>
  Properties of the process manager: \<open>get_pid\<close> always finds a pid that no process has; the process list, the hash lists,
  the family links, the process counter and the set of allocated structures agree with each other, and
  fork, exit, wait and kill keep them in agreement.
\<close>

section \<open>Process identifiers\<close>

lemma pid_walk_spec:
  assumes "pid_walk pid ps l n = (again, l', n')" "1 \<le> l" "l < n" "n \<le> MAX_PID"
  shows "(\<not> again \<longrightarrow> l \<le> l' \<and> l' < n' \<and> n' \<le> n \<and> (\<forall>p\<in>set ps. \<not> (l' \<le> pid p \<and> pid p < n'))) \<and>
    (again \<longrightarrow> n' = MAX_PID \<and> (\<exists>m. l < m \<and> m \<le> n \<and> {l..<m} \<subseteq> pid ` set ps \<and> l' = (if m \<ge> MAX_PID then 1 else m)))"
  using assms
proof (induction pid ps l n arbitrary: l' n' rule: pid_walk.induct)
  case (1 pid l n)
  then show ?case by auto
next
  case (2 pid p ps l n)
  show ?case
  proof (cases "pid p = l")
    case eq: True
    show ?thesis
    proof (cases "l + 1 \<ge> n")
      case True
      then have "{l..<l + 1} \<subseteq> pid ` set (p # ps)" using eq by auto
      then show ?thesis using True eq 2(4-) by (auto intro!: exI [of _ "l + 1"])
    next
      case False
      have IH: "(\<not> again \<longrightarrow> l + 1 \<le> l' \<and> l' < n' \<and> n' \<le> n \<and> (\<forall>p\<in>set ps. \<not> (l' \<le> pid p \<and> pid p < n'))) \<and>
        (again \<longrightarrow> n' = MAX_PID \<and> (\<exists>m. l + 1 < m \<and> m \<le> n \<and> {l + 1..<m} \<subseteq> pid ` set ps \<and> l' = (if m \<ge> MAX_PID then 1 else m)))"
        using 2(1) [OF eq False] 2(4-) False eq by auto
      have grow: "{l..<m} \<subseteq> pid ` set (p # ps)" if "{l + 1..<m} \<subseteq> pid ` set ps" for m
      proof
        fix x assume "x \<in> {l..<m}"
        then show "x \<in> pid ` set (p # ps)" using that eq by (cases "x = l") (auto simp: subset_iff)
      qed
      show ?thesis
      proof (cases again)
        case True
        with IH obtain m where "l + 1 < m" "m \<le> n" "{l + 1..<m} \<subseteq> pid ` set ps" "l' = (if m \<ge> MAX_PID then 1 else m)" "n' = MAX_PID"
          by blast
        then show ?thesis using True grow [of m] by (auto intro!: exI [of _ m])
      next
        case f: False
        then show ?thesis using IH eq by auto
      qed
    qed
  next
    case ne: False
    show ?thesis
    proof (cases "pid p > l \<and> n > pid p")
      case True
      then have "pid_walk pid ps l (pid p) = (again, l', n')" using 2(4) ne by simp
      note IH = 2(2) [OF ne True this 2(5)]
      show ?thesis
      proof (cases again)
        case a: True
        with IH True 2(7) obtain m where "l < m" "m \<le> pid p" "{l..<m} \<subseteq> pid ` set ps" "l' = (if m \<ge> MAX_PID then 1 else m)"
          "n' = MAX_PID" by force
        then show ?thesis using a True by (auto intro!: exI [of _ m])
      next
        case False
        then show ?thesis using IH True 2(7) by auto
      qed
    next
      case False
      then have "pid_walk pid ps l n = (again, l', n')" using 2(4) ne by (auto split: if_splits)
      from 2(3) [OF ne False this 2(5-)] False ne show ?thesis by (cases again) auto
    qed
  qed
qed

lemma pid_repeat_returns:
  assumes "1 \<le> l" "l < n" "n \<le> MAX_PID" "1 \<le> f" "f < MAX_PID" "f \<notin> pid ` set ps"
  shows "\<exists>l' n'. pid_repeat pid ps l n = Some (l', n') \<and> 1 \<le> l' \<and> l' < n' \<and> n' \<le> MAX_PID \<and>
    (\<forall>p\<in>set ps. \<not> (l' \<le> pid p \<and> pid p < n'))"
  using assms(1-3)
proof (induction "nat (if l \<le> f then f - l else f + MAX_PID - l)" arbitrary: l n rule: less_induct)
  case less
  obtain again l1 n1 where w: "pid_walk pid ps l n = (again, l1, n1)" by (cases "pid_walk pid ps l n") auto
  note sp = pid_walk_spec [OF w less(2-4)]
  show ?case
  proof (cases again)
    case False
    then show ?thesis using sp w less(2-4) by (subst pid_repeat.simps) auto
  next
    case True
    then obtain m where m: "l < m" "m \<le> n" "{l..<m} \<subseteq> pid ` set ps" "l1 = (if m \<ge> MAX_PID then 1 else m)" "n1 = MAX_PID"
      using sp by blast
    have f: "\<not> (l \<le> f \<and> f < m)" using m(3) assms(6) by (meson atLeastLessThan_iff subsetD)
    have "nat (if l1 \<le> f then f - l1 else f + MAX_PID - l1) < nat (if l \<le> f then f - l else f + MAX_PID - l)"
      using f m(1,2,4) less(2-4) assms(4,5) by (auto split: if_splits)
    moreover have "1 \<le> l1" "l1 < n1" "n1 \<le> MAX_PID" using m less(2) by (auto simp: MAX_PID_def MAX_PROCESS_def)
    ultimately obtain l' n' where "pid_repeat pid ps l1 n1 = Some (l', n')" "1 \<le> l'" "l' < n'" "n' \<le> MAX_PID"
      "\<forall>p\<in>set ps. \<not> (l' \<le> pid p \<and> pid p < n')"
      using less(1) by blast
    then show ?thesis using True w by (subst pid_repeat.simps) auto
  qed
qed

text \<open>No process has a pid strictly between the two static variables of \<open>get_pid\<close>.\<close>

definition pid_gap :: "'w proc_st \<Rightarrow> bool" where
  "pid_gap s \<longleftrightarrow> 1 \<le> last_pid s \<and> last_pid s \<le> MAX_PID \<and> next_safe s \<le> MAX_PID \<and>
     (\<forall>p\<in>set (proc_list s). \<not> (last_pid s < p_pid (proc_of p s) \<and> p_pid (proc_of p s) < next_safe s))"

definition pids :: "'w proc_st \<Rightarrow> int set" where
  "pids s = (\<lambda>p. p_pid (proc_of p s)) ` set (proc_list s)"

lemma free_pid_exists:
  assumes "int (length (proc_list s)) < MAX_PID - 1"
  shows "\<exists>f. 1 \<le> f \<and> f < MAX_PID \<and> f \<notin> pids s"
proof (rule ccontr)
  assume "\<not> ?thesis"
  then have "{1..<MAX_PID} \<subseteq> pids s" by auto
  then have "card {1..<MAX_PID} \<le> card (pids s)" by (intro card_mono) (auto simp: pids_def)
  also have "\<dots> \<le> length (proc_list s)"
    unfolding pids_def by (meson card_image_le card_length finite_set order_trans)
  finally show False using assms by simp
qed

lemma get_pid_ok:
  assumes "pid_gap s" "int (length (proc_list s)) < MAX_PID - 1"
  shows "\<exists>pid n. get_pid s = Some (pid, s\<lparr>last_pid := pid, next_safe := n\<rparr>) \<and> 1 \<le> pid \<and> pid < MAX_PID \<and>
    pid \<notin> pids s \<and> n \<le> MAX_PID \<and> (\<forall>q\<in>pids s. \<not> (pid < q \<and> q < n))"
proof -
  let ?pid = "\<lambda>p. p_pid (proc_of p s)"
  obtain f where f: "1 \<le> f" "f < MAX_PID" "f \<notin> ?pid ` set (proc_list s)"
    using free_pid_exists [OF assms(2)] by (auto simp: pids_def)
  have inside: "\<exists>pid n. pid_repeat ?pid (proc_list s) l MAX_PID = Some (pid, n) \<and> 1 \<le> pid \<and> pid < MAX_PID \<and>
      pid \<notin> pids s \<and> n \<le> MAX_PID \<and> (\<forall>q\<in>pids s. \<not> (pid < q \<and> q < n))" if l: "1 \<le> l" "l < MAX_PID" for l
    using pid_repeat_returns [OF l order_refl f] by (fastforce simp: pids_def)
  let ?l = "last_pid s + 1"
  have l: "1 \<le> ?l" "(1::int) < MAX_PID" using assms(1) by (auto simp: pid_gap_def MAX_PID_def MAX_PROCESS_def)
  consider "?l \<ge> MAX_PID" | "?l < MAX_PID" "?l \<ge> next_safe s" | "?l < MAX_PID" "?l < next_safe s" by linarith
  then show ?thesis
  proof cases
    case 1
    with inside [OF order_refl l(2)] show ?thesis by (auto simp: get_pid_def)
  next
    case 2
    with inside [OF l(1) 2(1)] show ?thesis by (auto simp: get_pid_def)
  next
    case 3
    then have "get_pid s = Some (?l, s\<lparr>last_pid := ?l, next_safe := next_safe s\<rparr>)" by (simp add: get_pid_def Let_def)
    moreover have "?l \<notin> pids s" "\<forall>q\<in>pids s. \<not> (?l < q \<and> q < next_safe s)"
      using 3 assms(1) by (auto simp: pids_def pid_gap_def)
    moreover have "next_safe s \<le> MAX_PID" using assms(1) by (simp add: pid_gap_def)
    ultimately show ?thesis using 3(1) l(1) by blast
  qed
qed

lemma upd_proc_ext [simp]:
  "proc_list (upd_proc p f s) = proc_list s" "hash_list (upd_proc p f s) = hash_list s"
  "nr_process (upd_proc p f s) = nr_process s" "next_safe (upd_proc p f s) = next_safe s"
  "last_pid (upd_proc p f s) = last_pid s" "initproc (upd_proc p f s) = initproc s"
  "proc_heap (upd_proc p f s) = proc_heap s" "mms (upd_proc p f s) = mms s" "swp (upd_proc p f s) = swp s"
  "fsys (upd_proc p f s) = fsys s"
  by (simp_all add: upd_proc_def)

section \<open>Lists of siblings\<close>

text \<open>
  The children of a process, youngest first, from the pointer \<open>c\<close> up to the pointer \<open>d\<close>: \<open>optr\<close> leads to the next older one,
  \<open>yptr\<close> back, starting with \<open>y\<close>.
\<close>

fun sib_seg :: "(ptr \<Rightarrow> proc_struct) \<Rightarrow> ptr option \<Rightarrow> ptr option \<Rightarrow> ptr list \<Rightarrow> ptr option \<Rightarrow> bool" where
  "sib_seg P y c [] d \<longleftrightarrow> c = d"
| "sib_seg P y c (k # ks) d \<longleftrightarrow> c = Some k \<and> p_yptr (P k) = y \<and> sib_seg P (Some k) (p_optr (P k)) ks d"

lemma sib_seg_append:
  "sib_seg P y c (xs @ ys) d \<longleftrightarrow>
     (\<exists>m. sib_seg P y c xs m \<and> sib_seg P (if xs = [] then y else Some (last xs)) m ys d)"
  by (induction xs arbitrary: y c) auto

lemma sib_seg_cong:
  assumes "\<And>k. k \<in> set xs \<Longrightarrow> p_yptr (Q k) = p_yptr (P k) \<and> p_optr (Q k) = p_optr (P k)"
  shows "sib_seg Q y c xs d \<longleftrightarrow> sib_seg P y c xs d"
  using assms by (induction xs arbitrary: y c) auto

lemma sib_seg_head: "sib_seg P y c xs None \<Longrightarrow> c = (case xs of [] \<Rightarrow> None | k # _ \<Rightarrow> Some k)"
  by (cases xs) auto

lemma sib_seg_head_in: "sib_seg P y (Some k) xs None \<Longrightarrow> k \<in> set xs"
  by (cases xs) auto

lemma sib_neighbours:
  "sib_seg P None c (xs @ p # ys) None \<Longrightarrow> distinct (xs @ p # ys) \<Longrightarrow> p_optr (P p) \<noteq> Some p \<and> p_yptr (P p) \<noteq> Some p"
  using sib_seg_head_in [of P "Some p" p ys] last_in_set [of xs] by (auto simp: sib_seg_append)

text \<open>Entering a process at the head.\<close>

lemma sib_seg_push:
  assumes "sib_seg P None c xs None" "p \<notin> set xs" "distinct xs"
    and "p_yptr (Q p) = None" "p_optr (Q p) = c"
    and "\<And>k. k \<in> set xs \<Longrightarrow> p_optr (Q k) = p_optr (P k) \<and> p_yptr (Q k) = (if Some k = c then Some p else p_yptr (P k))"
  shows "sib_seg Q None (Some p) (p # xs) None"
proof (cases xs)
  case Nil
  then show ?thesis using assms by simp
next
  case (Cons k ks)
  have "sib_seg Q (Some k) (p_optr (P k)) ks None \<longleftrightarrow> sib_seg P (Some k) (p_optr (P k)) ks None"
    using assms(1,3,6) Cons by (intro sib_seg_cong) auto
  then show ?thesis using assms Cons by auto
qed

text \<open>Taking a process out.\<close>

lemma sib_seg_remove:
  assumes "sib_seg P None c (xs @ p # ys) None" "distinct (xs @ p # ys)"
    and "\<And>k. k \<in> set (xs @ ys) \<Longrightarrow> p_yptr (Q k) = (if Some k = p_optr (P p) then p_yptr (P p) else p_yptr (P k)) \<and>
      p_optr (Q k) = (if Some k = p_yptr (P p) then p_optr (P p) else p_optr (P k))"
  shows "sib_seg Q None (if p_yptr (P p) = None then p_optr (P p) else c) (xs @ ys) None"
proof -
  let ?y = "if xs = [] then None else Some (last xs)"
  obtain m where m: "sib_seg P None c xs (Some p)" "p_yptr (P p) = ?y" "sib_seg P (Some p) (p_optr (P p)) ys None"
    using assms(1) by (auto simp: sib_seg_append)
  have ys: "sib_seg Q ?y (p_optr (P p)) ys None"
  proof (cases ys)
    case Nil
    then show ?thesis using m(3) by simp
  next
    case (Cons k ks)
    have "sib_seg Q (Some k) (p_optr (P k)) ks None \<longleftrightarrow> sib_seg P (Some k) (p_optr (P k)) ks None"
      using assms(2,3) m Cons last_in_set [of xs] by (intro sib_seg_cong) (auto simp: disjoint_iff split: if_splits)
    moreover have "p_optr (Q k) = p_optr (P k)"
      using assms(2,3) m(2) Cons last_in_set [of xs] by (auto split: if_splits)
    ultimately show ?thesis using m(3) assms(3) [of k] Cons m(2) by auto
  qed
  show ?thesis
  proof (cases xs rule: rev_cases)
    case Nil
    then show ?thesis using ys m by simp
  next
    case (snoc zs z)
    have "sib_seg Q None c zs (Some z) \<longleftrightarrow> sib_seg P None c zs (Some z)"
      using assms(2,3) m(2,3) snoc by (intro sib_seg_cong) (cases ys; auto split: if_splits)
    moreover have "p_yptr (Q z) = p_yptr (P z)" "p_optr (Q z) = p_optr (P p)"
      using assms(2,3) m(2,3) snoc by (cases ys; auto split: if_splits)+
    ultimately show ?thesis using m(1,2) ys snoc by (auto simp: sib_seg_append)
  qed
qed

section \<open>The invariant\<close>

definition known :: "'w proc_st \<Rightarrow> ptr set" where
  "known s = insert (idleproc s) (set (proc_list s))"

text \<open>
  \<open>X\<close> holds the structures that are allocated and not yet listed, or no longer: the process list has no duplicates, the
  allocated structures are the idle process and the listed ones, they are counted, every listed process has its own pid
  in range and is on the hash list of that pid and on no other.
\<close>

definition table_inv :: "ptr set \<Rightarrow> 'w proc_st \<Rightarrow> bool" where
  "table_inv X s \<longleftrightarrow> distinct (proc_list s) \<and> idleproc s \<notin> set (proc_list s) \<and>
     proc_heap s = known s \<union> X \<and> known s \<inter> X = {} \<and> nr_process s = int (length (proc_list s)) + 1 \<and>
     (\<forall>p\<in>set (proc_list s). 1 \<le> p_pid (proc_of p s) \<and> p_pid (proc_of p s) < MAX_PID) \<and>
     inj_on (\<lambda>p. p_pid (proc_of p s)) (set (proc_list s)) \<and>
     (\<forall>h. distinct (hash_list s h) \<and> set (hash_list s h) = {p \<in> set (proc_list s). pid_hashfn (p_pid (proc_of p s)) = h}) \<and>
     pid_gap s"

text \<open>\<open>kids\<close> gives the children of every process, as the code's pointers link them.\<close>

definition family :: "'w proc_st \<Rightarrow> (ptr \<Rightarrow> ptr list) \<Rightarrow> bool" where
  "family s kids \<longleftrightarrow> (\<forall>p\<in>known s. sib_seg (procs s) None (p_cptr (proc_of p s)) (kids p) None \<and> distinct (kids p) \<and>
     set (kids p) = {k \<in> set (proc_list s). p_parent (proc_of k s) = Some p})"

text \<open>
  Every listed process has a parent, which lists it; a zombie, unless it is in \<open>C\<close>, has no children; the init process is a
  child of the idle process, and neither is a zombie.
\<close>

definition family_inv :: "ptr set \<Rightarrow> 'w proc_st \<Rightarrow> bool" where
  "family_inv C s \<longleftrightarrow> (\<exists>kids. family s kids) \<and> (\<forall>p\<in>set (proc_list s). \<exists>q\<in>known s. q \<noteq> p \<and> p_parent (proc_of p s) = Some q) \<and>
     (\<forall>p\<in>known s. p_state (proc_of p s) = PROC_ZOMBIE \<longrightarrow> p_cptr (proc_of p s) = None \<or> p \<in> C) \<and>
     (\<forall>i. initproc s = Some i \<longrightarrow> i \<in> set (proc_list s) \<and> p_parent (proc_of i s) = Some (idleproc s) \<and>
        p_state (proc_of i s) \<noteq> PROC_ZOMBIE) \<and>
     p_state (proc_of (idleproc s) s) \<noteq> PROC_ZOMBIE"

definition proc_inv :: "ptr set \<Rightarrow> 'w proc_st \<Rightarrow> bool" where
  "proc_inv X s \<longleftrightarrow> table_inv X s \<and> family_inv {} s"

text \<open>Steps that leave the tables alone.\<close>

definition lnk :: "proc_struct \<Rightarrow> int \<times> ptr option \<times> ptr option \<times> ptr option \<times> ptr option" where
  "lnk p = (p_pid p, p_parent p, p_cptr p, p_yptr p, p_optr p)"

definition tab_eq :: "'w proc_st \<Rightarrow> 'w proc_st \<Rightarrow> bool" where
  "tab_eq s s' \<longleftrightarrow> (\<forall>p. lnk (proc_of p s') = lnk (proc_of p s)) \<and> idleproc s' = idleproc s \<and> proc_list s' = proc_list s \<and>
     hash_list s' = hash_list s \<and> nr_process s' = nr_process s \<and> next_safe s' = next_safe s \<and> last_pid s' = last_pid s \<and>
     initproc s' = initproc s \<and> proc_heap s' = proc_heap s"

lemma tab_eq_refl [simp]: "tab_eq s s"
  by (simp add: tab_eq_def)

lemma tab_eq_trans [trans]: "tab_eq s s' \<Longrightarrow> tab_eq s' s'' \<Longrightarrow> tab_eq s s''"
  by (simp add: tab_eq_def)

lemma tab_eqD:
  assumes "tab_eq s s'"
  shows "p_pid (proc_of p s') = p_pid (proc_of p s)" "p_parent (proc_of p s') = p_parent (proc_of p s)"
    "p_cptr (proc_of p s') = p_cptr (proc_of p s)" "p_yptr (proc_of p s') = p_yptr (proc_of p s)"
    "p_optr (proc_of p s') = p_optr (proc_of p s)"
    "idleproc s' = idleproc s" "proc_list s' = proc_list s" "hash_list s' = hash_list s" "nr_process s' = nr_process s"
    "next_safe s' = next_safe s" "last_pid s' = last_pid s" "initproc s' = initproc s" "proc_heap s' = proc_heap s"
  using assms by (simp_all add: tab_eq_def lnk_def)

lemma known_tab: "tab_eq s s' \<Longrightarrow> known s' = known s"
  by (simp add: known_def tab_eqD)

lemma table_inv_cong:
  assumes "table_inv X s" "\<And>p. p_pid (proc_of p s') = p_pid (proc_of p s)"
    "idleproc s' = idleproc s" "proc_list s' = proc_list s" "hash_list s' = hash_list s" "nr_process s' = nr_process s"
    "next_safe s' = next_safe s" "last_pid s' = last_pid s" "proc_heap s' = proc_heap s"
  shows "table_inv X s'"
  using assms by (simp add: table_inv_def pid_gap_def known_def)

lemma table_inv_tab: "tab_eq s s' \<Longrightarrow> table_inv X s \<Longrightarrow> table_inv X s'"
  by (rule table_inv_cong) (simp_all add: tab_eqD)

lemma family_tab: "tab_eq s s' \<Longrightarrow> family s kids \<Longrightarrow> family s' kids"
  using sib_seg_cong [of _ "procs s'" "procs s"] by (simp add: family_def known_tab tab_eqD)

text \<open>The zombies after the step have no children, and the two first processes are not among them.\<close>

lemma family_inv_tab:
  assumes "tab_eq s s'" "family_inv C s"
    and "\<And>p. p \<in> known s \<Longrightarrow> p_state (proc_of p s') = PROC_ZOMBIE \<Longrightarrow> p_state (proc_of p s) = PROC_ZOMBIE"
  shows "family_inv C s'"
proof -
  obtain kids where "family s kids" using assms(2) by (auto simp: family_inv_def)
  then have "\<exists>kids. family s' kids" using family_tab [OF assms(1)] by blast
  moreover have "i \<in> known s" if "initproc s = Some i" for i using that assms(2) by (auto simp: family_inv_def known_def)
  moreover have "idleproc s \<in> known s" by (simp add: known_def)
  ultimately show ?thesis
    using assms(2) assms(3) by (auto simp: family_inv_def known_tab [OF assms(1)] tab_eqD [OF assms(1)])
qed

lemma proc_inv_tab:
  assumes "proc_inv X s" "tab_eq s s'"
    and "\<And>p. p \<in> known s \<Longrightarrow> p_state (proc_of p s') = PROC_ZOMBIE \<Longrightarrow> p_state (proc_of p s) = PROC_ZOMBIE"
  shows "proc_inv X s'"
  using assms table_inv_tab family_inv_tab unfolding proc_inv_def by blast

section \<open>What the scheduler and the resource operations leave alone\<close>

lemma stride_enqueue_frame: "stride_enqueue p s = Some s' \<Longrightarrow> sched_frame {p} s s'"
  by (auto simp: stride_enqueue_def Let_def sched_frame_def core_eq_def upd_proc_def bind_Some_iff split: if_splits)

lemma stride_dequeue_frame: "stride_dequeue p s = Some s' \<Longrightarrow> sched_frame {} s s'"
  by (auto simp: stride_dequeue_def sched_frame_def bind_Some_iff split: if_splits)

lemma stride_pick_frame: "stride_pick_next s = (n, s') \<Longrightarrow> sched_frame (set_option n) s s'"
  by (auto simp: stride_pick_next_def sched_frame_def core_eq_def upd_proc_def split: option.splits)

lemmas stride_frames = stride_enqueue_frame stride_dequeue_frame stride_pick_frame

lemma stride_class_sel:
  "sc_enqueue default_sched_class = stride_enqueue" "sc_dequeue default_sched_class = stride_dequeue"
  "sc_pick_next default_sched_class = stride_pick_next"
  by (simp_all add: default_sched_class_def)

lemma sched_frame_tab: "sched_frame P s s' \<Longrightarrow> tab_eq s s'"
proof -
  assume f: "sched_frame P s s'"
  have "sched_st.more s' = sched_st.more s" by (rule sched_frameD(10) [OF f])
  then show ?thesis
    using sched_frame_core [OF f] sched_frameD(2) [OF f] by (cases s; cases s') (auto simp: tab_eq_def lnk_def)
qed

lemma upd_proc_tab:
  "(\<And>q. lnk (f q) = lnk q) \<Longrightarrow> tab_eq s (upd_proc p f s)"
  by (simp add: tab_eq_def upd_proc_def)

lemma wakeup_tab:
  assumes "wakeup_proc default_sched_class p s = Some s'"
  shows "tab_eq s s' \<and> current s' = current s \<and> p_state (proc_of p s) \<noteq> PROC_ZOMBIE \<and>
    (\<forall>q. p_state (proc_of q s') = (if q = p then PROC_RUNNABLE else p_state (proc_of q s)))"
proof (cases "p_state (proc_of p s) = PROC_RUNNABLE")
  case True
  then show ?thesis using assms by (auto simp: wakeup_proc_def)
next
  case False
  let ?s1 = "upd_proc p (\<lambda>p. p\<lparr>p_state := PROC_RUNNABLE, p_wait_state := 0\<rparr>) s"
  have s1: "tab_eq s ?s1" by (rule upd_proc_tab) (simp add: lnk_def)
  have "sched_frame {p} ?s1 s'" if "stride_enqueue p ?s1 = Some s'" using stride_frames(1) [OF that] .
  moreover have "sched_frame {p} ?s1 ?s1" by (simp add: sched_frame_def)
  ultimately have f: "sched_frame {p} ?s1 s'" "p_state (proc_of p s) \<noteq> PROC_ZOMBIE"
    using assms False
    by (auto simp: wakeup_proc_def sched_class_enqueue_def stride_class_sel Let_def split: if_splits simp del: upd_proc_simps)
  then show ?thesis
    using tab_eq_trans [OF s1 sched_frame_tab [OF f(1)]] sched_frameD(1) [OF f(1)] sched_frame_core(1) [OF f(1)] by simp
qed

lemma schedule_tab:
  assumes "schedule default_sched_class s = Some s'"
  shows "tab_eq s s' \<and> (\<forall>q. p_state (proc_of q s') = p_state (proc_of q s))"
proof -
  obtain c where c: "current s = Some c" using assms by (auto simp: schedule_def bind_Some_iff)
  let ?s1 = "upd_proc c (\<lambda>p. p\<lparr>p_need_resched := False\<rparr>) s"
  obtain s2 where s2: "(if p_state (procs ?s1 c) = PROC_RUNNABLE then sched_class_enqueue default_sched_class c ?s1 else Some ?s1) = Some s2"
    using assms c by (auto simp: schedule_def bind_Some_iff Let_def simp del: upd_proc_simps)
  obtain nx s3 where s3: "stride_pick_next s2 = (nx, s3)" by fastforce
  obtain s4 where s4: "(case nx of Some n \<Rightarrow> stride_dequeue n s3 | None \<Rightarrow> Some s3) = Some s4"
    using assms c s2 s3 unfolding schedule_def
    by (auto simp: bind_Some_iff sched_class_pick_next_def sched_class_dequeue_def stride_class_sel Let_def
        split: option.splits simp del: upd_proc_simps)
  obtain n where s': "s' = proc_run n (upd_proc n (\<lambda>p. p\<lparr>p_runs := p_runs p + 1\<rparr>) s4)"
    using assms c s2 s3 s4 unfolding schedule_def
    by (auto simp: bind_Some_iff sched_class_pick_next_def sched_class_dequeue_def stride_class_sel Let_def
        split: option.splits simp del: upd_proc_simps)
  have refl: "sched_frame P s s" for P and s :: "'w proc_st" by (simp add: sched_frame_def)
  have "sched_frame {c} s ?s1" by (simp add: sched_frame_def upd_proc_def core_eq_def)
  moreover have f2: "sched_frame {c} ?s1 s2"
    using s2 stride_frames(1) [of c ?s1 s2] refl [of "{c}" ?s1]
    by (auto simp: sched_class_enqueue_def stride_class_sel split: if_splits simp del: upd_proc_simps)
  moreover have f3: "sched_frame (set_option nx) s2 s3" by (rule stride_frames(3) [OF s3])
  moreover have f4: "sched_frame {} s3 s4"
    using s4 stride_frames(2) refl by (cases nx) auto
  ultimately have t: "tab_eq s s4" "\<forall>q. p_state (proc_of q s4) = p_state (proc_of q s)"
    by (blast intro: sched_frame_tab tab_eq_trans) (metis sched_frame_core(1) \<open>sched_frame {c} s ?s1\<close> f2 f3 f4)
  have "tab_eq s4 s'" unfolding s' by (simp add: tab_eq_def proc_run_def upd_proc_def lnk_def)
  then show ?thesis using t tab_eq_trans by (auto simp: s')
qed

text \<open>Resource operations also keep the running process and the states.\<close>

definition mild :: "'w proc_st \<Rightarrow> 'w proc_st \<Rightarrow> bool" where
  "mild s s' \<longleftrightarrow> tab_eq s s' \<and> current s' = current s \<and> (\<forall>q. p_state (proc_of q s') = p_state (proc_of q s) \<and>
     p_wait_state (proc_of q s') = p_wait_state (proc_of q s))"

lemma mild_trans [trans]: "mild s s' \<Longrightarrow> mild s' s'' \<Longrightarrow> mild s s''"
  by (auto simp: mild_def intro: tab_eq_trans)

lemmas mild_defs = mild_def tab_eq_def lnk_def upd_proc_def

lemma mild_refl [simp]: "mild s s"
  by (simp add: mild_def)

lemma with_vm_mild: "with_vm f s = Some s' \<Longrightarrow> mild s s'"
  by (auto simp: with_vm_def mild_defs bind_Some_iff)

lemma with_fs_mild: "with_fs f s = Some s' \<Longrightarrow> mild s s'"
  by (auto simp: with_fs_def mild_defs bind_Some_iff)

lemma setup_kstack_mild: "setup_kstack p s = Some (r, s') \<Longrightarrow> mild s s'"
  by (auto simp: setup_kstack_def mild_defs bind_Some_iff Let_def split: option.splits)

lemma put_kstack_mild: "put_kstack p s = Some s' \<Longrightarrow> mild s s'"
  by (auto simp: put_kstack_def bind_Some_iff dest: with_vm_mild)

lemma setup_pgdir_mild: "setup_pgdir m s = Some (r, s') \<Longrightarrow> mild s s'"
  by (auto simp: setup_pgdir_def mild_defs bind_Some_iff Let_def split: option.splits)

lemma put_pgdir_mild: "put_pgdir m s = Some s' \<Longrightarrow> mild s s'"
  by (auto simp: put_pgdir_def bind_Some_iff dest!: with_vm_mild elim: mild_trans)

lemma mm_ops_mild:
  "proc_mm_destroy m s = Some s' \<Longrightarrow> mild s s'"
  "proc_exit_mmap m s = Some s' \<Longrightarrow> mild s s'"
  "lock_mm m s = Some s' \<Longrightarrow> mild s s'"
  "good_mm m p s = Some (r, s') \<Longrightarrow> mild s s'"
  "mild s (unlock_mm m s)" "mild s (mm_count_add m d s)" "mild s (s\<lparr>mms := a, swp := b\<rparr>)"
  "mild s (s\<lparr>swp := b, mms := a, mm_locked := l\<rparr>)" "mild s (s\<lparr>swp := b\<rparr>)" "mild s (s\<lparr>fsys := w\<rparr>)" "mild s (s\<lparr>mms := a\<rparr>)"
  "mild s (copy_thread fr p esp tf s)"
  by (auto simp: proc_mm_destroy_def proc_exit_mmap_def lock_mm_def good_mm_def unlock_mm_def mm_count_add_def
      copy_thread_def Let_def mild_defs bind_Some_iff with_vm_def split: if_splits)

lemma mild_upd [simp]:
  "mild (s\<lparr>swp := a\<rparr>) t \<longleftrightarrow> mild s t" "mild (s\<lparr>mms := b\<rparr>) t \<longleftrightarrow> mild s t" "mild (s\<lparr>mm_locked := l\<rparr>) t \<longleftrightarrow> mild s t"
  "mild (s\<lparr>fsys := w\<rparr>) t \<longleftrightarrow> mild s t" "mild (unlock_mm m s) t \<longleftrightarrow> mild s t" "mild (mm_count_add m d s) t \<longleftrightarrow> mild s t"
  "mild (s\<lparr>cr3_reg := c\<rparr>) t \<longleftrightarrow> mild s t"
  by (simp_all add: mild_defs unlock_mm_def mm_count_add_def)

lemma mild_upd_mm [simp]: "mild (upd_proc p (p_mm_update f) s) t \<longleftrightarrow> mild s t"
  by (auto simp: mild_defs)

lemma copy_mm_mild:
  assumes "copy_mm k okv fl p s = Some (r, s')" shows "mild s s'"
  using assms unfolding copy_mm_def
  by (auto simp: Let_def mm_create_def mm_ops_mild(9) split: Option.bind_split_asm option.splits if_splits prod.splits
      dest!: mm_ops_mild(1-4) setup_pgdir_mild put_pgdir_mild; meson mild_trans)

lemma good_files_mild: "good_files_struct q p s = (r, s') \<Longrightarrow> mild s s'"
  by (auto simp: good_files_struct_def mild_defs)

lemma put_files_mild: "put_files T p s = Some s' \<Longrightarrow> mild s s'"
  by (auto simp: put_files_def Let_def bind_Some_iff split: option.splits if_splits
      dest!: with_fs_mild intro: mm_ops_mild(10) mild_trans)

lemma copy_files_mild: "copy_files T k us fl p s = Some (r, s') \<Longrightarrow> mild s s'"
  unfolding copy_files_def
  by (auto simp: Let_def split: Option.bind_split_asm option.splits if_splits prod.splits
      dest!: with_fs_mild good_files_mild intro: mm_ops_mild(10) mild_trans)

section \<open>Entering and removing a process\<close>

lemma set_links_spec:
  assumes "p_parent (proc_of p s) = Some par" "par \<noteq> p" "p_cptr (proc_of par s) \<noteq> Some p"
  shows "\<exists>P. set_links p s = Some (s\<lparr>procs := P, proc_list := p # proc_list s, nr_process := nr_process s + 1\<rparr>) \<and>
    (\<forall>q. p_pid (P q) = p_pid (proc_of q s) \<and> p_parent (P q) = p_parent (proc_of q s) \<and> p_state (P q) = p_state (proc_of q s) \<and>
      p_cptr (P q) = (if q = par then Some p else p_cptr (proc_of q s)) \<and>
      p_yptr (P q) = (if q = p then None else if Some q = p_cptr (proc_of par s) then Some p else p_yptr (proc_of q s)) \<and>
      p_optr (P q) = (if q = p then p_cptr (proc_of par s) else p_optr (proc_of q s)))"
  by (rule exI [of _ "procs (the (set_links p s))"])
    (use assms in \<open>cases s; auto simp: set_links_def upd_proc_def Let_def split: option.splits\<close>)

lemma remove_links_spec:
  assumes "p_parent (proc_of p s) = Some par" "p_optr (proc_of p s) \<noteq> Some p" "p_yptr (proc_of p s) \<noteq> Some p"
  shows "\<exists>P. remove_links p s = Some (s\<lparr>procs := P, proc_list := remove1 p (proc_list s), nr_process := nr_process s - 1\<rparr>) \<and>
    (\<forall>q. p_pid (P q) = p_pid (proc_of q s) \<and> p_parent (P q) = p_parent (proc_of q s) \<and> p_state (P q) = p_state (proc_of q s) \<and>
      p_cptr (P q) = (if q = par \<and> p_yptr (proc_of p s) = None then p_optr (proc_of p s) else p_cptr (proc_of q s)) \<and>
      p_yptr (P q) = (if Some q = p_optr (proc_of p s) then p_yptr (proc_of p s) else p_yptr (proc_of q s)) \<and>
      p_optr (P q) = (if Some q = p_yptr (proc_of p s) then p_optr (proc_of p s) else p_optr (proc_of q s)))"
  by (rule exI [of _ "procs (the (remove_links p s))"])
    (use assms in \<open>cases s; auto simp: remove_links_def upd_proc_def Let_def split: option.splits\<close>)

lemma proc_inv_new:
  assumes "proc_inv {} s" "p \<notin> proc_heap s" "\<And>q. q \<noteq> p \<Longrightarrow> proc_of q s' = proc_of q s" "idleproc s' = idleproc s"
    "proc_list s' = proc_list s" "hash_list s' = hash_list s" "nr_process s' = nr_process s" "next_safe s' = next_safe s"
    "last_pid s' = last_pid s" "initproc s' = initproc s" "proc_heap s' = insert p (proc_heap s)"
  shows "proc_inv {p} s'"
proof -
  have np: "p \<notin> known s" "p \<notin> set (proc_list s)" "p \<noteq> idleproc s"
    using assms(1,2) by (auto simp: proc_inv_def table_inv_def known_def)
  have k: "known s' = known s" using assms by (simp add: known_def)
  have eq: "proc_of q s' = proc_of q s" if "q \<in> known s" for q using that np(1) by (intro assms(3)) auto
  then have eql: "proc_of q s' = proc_of q s" if "q \<in> set (proc_list s)" for q using that by (simp add: known_def)
  have inj: "inj_on (\<lambda>q. p_pid (proc_of q s')) (set (proc_list s)) \<longleftrightarrow> inj_on (\<lambda>q. p_pid (proc_of q s)) (set (proc_list s))"
    by (rule inj_on_cong) (simp add: eql)
  have sel: "{q \<in> set (proc_list s). pid_hashfn (p_pid (proc_of q s')) = h} =
      {q \<in> set (proc_list s). pid_hashfn (p_pid (proc_of q s)) = h}" for h
    using eql by auto
  have "table_inv {p} s'"
    using assms(1) np unfolding proc_inv_def table_inv_def pid_gap_def k assms(4-) inj sel by (auto simp: eql)
  moreover have "family_inv {} s'"
  proof -
    obtain kids where f: "family s kids" using assms(1) by (auto simp: proc_inv_def family_inv_def)
    have "family s' kids"
      unfolding family_def k
    proof
      fix q assume q: "q \<in> known s"
      have "set (kids q) \<subseteq> set (proc_list s)" using f q by (auto simp: family_def)
      then have "sib_seg (procs s') None c (kids q) None \<longleftrightarrow> sib_seg (procs s) None c (kids q) None" for c
        using eql by (intro sib_seg_cong) (auto simp: subset_iff)
      then show "sib_seg (procs s') None (p_cptr (proc_of q s')) (kids q) None \<and> distinct (kids q) \<and>
          set (kids q) = {k \<in> set (proc_list s'). p_parent (proc_of k s') = Some q}"
        using f q eql eq by (auto simp: family_def assms(5))
    qed
    moreover have "idleproc s \<in> known s" by (simp add: known_def)
    ultimately show ?thesis
      using assms(1) eql eq unfolding proc_inv_def family_inv_def k assms(4-) by (auto simp: assms(3) np)
  qed
  ultimately show ?thesis by (simp add: proc_inv_def)
qed

text \<open>Giving the new process \<open>p\<close> its pid and entering it.\<close>

lemma publish_tables:
  assumes inv: "table_inv {p} s" and len: "int (length (proc_list s)) < MAX_PID - 1"
    and g: "get_pid s = Some (pid, s1)"
    and s2: "s2 = hash_proc p (upd_proc p (\<lambda>q. q\<lparr>p_pid := pid\<rparr>) s1)"
    and s3: "s3 = s2\<lparr>procs := P, proc_list := p # proc_list s, nr_process := nr_process s + 1\<rparr>"
    and pids: "\<And>q. p_pid (P q) = p_pid (proc_of q s2)"
  shows "table_inv {} s3"
proof -
  have gap: "pid_gap s" using inv by (simp add: table_inv_def)
  obtain n where g1: "s1 = s\<lparr>last_pid := pid, next_safe := n\<rparr>" "1 \<le> pid" "pid < MAX_PID" "pid \<notin> pids s" "n \<le> MAX_PID"
    "\<forall>q\<in>pids s. \<not> (pid < q \<and> q < n)"
    using get_pid_ok [OF gap len] g by auto
  have np: "p \<notin> set (proc_list s)" "p \<noteq> idleproc s" using inv by (auto simp: table_inv_def known_def)
  have pid: "p_pid (P q) = (if q = p then pid else p_pid (proc_of q s))" for q
    using pids g1(1) by (simp add: s2 hash_proc_def Let_def)
  have k: "known s3 = insert p (known s)" using g1(1) by (auto simp: known_def s3 s2 hash_proc_def Let_def)
  have "pid_gap s3"
    using gap g1 np by (auto simp: pid_gap_def s3 pid pids_def s2 hash_proc_def Let_def)
  moreover have "inj_on (\<lambda>q. p_pid (P q)) (set (p # proc_list s))"
    using inv g1(4) np by (auto simp: table_inv_def inj_on_def pid pids_def)
  moreover have "distinct (hash_list s3 h) \<and> set (hash_list s3 h) = {q \<in> set (p # proc_list s). pid_hashfn (p_pid (P q)) = h}" for h
  proof -
    have d: "distinct (hash_list s h)" "set (hash_list s h) = {q \<in> set (proc_list s). pid_hashfn (p_pid (proc_of q s)) = h}"
      using inv by (simp_all add: table_inv_def)
    have "hash_list s3 h = (if h = pid_hashfn pid then p # hash_list s h else hash_list s h)"
      using g1(1) by (simp add: s3 s2 hash_proc_def Let_def)
    then show ?thesis using d np by (auto simp: pid)
  qed
  moreover have "\<forall>q\<in>set (p # proc_list s). 1 \<le> p_pid (P q) \<and> p_pid (P q) < MAX_PID"
    using inv g1(2,3) by (auto simp: table_inv_def pid)
  moreover have "proc_heap s3 = known s3"
    unfolding k using inv g1(1) by (auto simp: table_inv_def s3 s2 hash_proc_def Let_def)
  moreover have "idleproc s3 = idleproc s" "nr_process s3 = nr_process s + 1"
    using g1(1) by (auto simp: s3 s2 hash_proc_def Let_def)
  ultimately show ?thesis
    using inv np unfolding table_inv_def by (simp add: s3)
qed

text \<open>Linking \<open>p\<close> as the youngest child of \<open>par\<close>.\<close>

lemma publish_family:
  assumes inv: "family_inv {} s" and p: "p \<notin> known s" "p_parent (proc_of p s) = Some par" "p_cptr (proc_of p s) = None"
      "p_state (proc_of p s) \<noteq> PROC_ZOMBIE"
    and par: "par \<in> known s" "p_state (proc_of par s) \<noteq> PROC_ZOMBIE"
    and s': "proc_list s' = p # proc_list s" "idleproc s' = idleproc s" "initproc s' = initproc s"
    and P: "\<And>q. p_parent (proc_of q s') = p_parent (proc_of q s) \<and> p_state (proc_of q s') = p_state (proc_of q s) \<and>
      p_cptr (proc_of q s') = (if q = par then Some p else p_cptr (proc_of q s)) \<and>
      p_yptr (proc_of q s') = (if q = p then None else if Some q = p_cptr (proc_of par s) then Some p else p_yptr (proc_of q s)) \<and>
      p_optr (proc_of q s') = (if q = p then p_cptr (proc_of par s) else p_optr (proc_of q s))"
  shows "family_inv {} s'"
proof -
  obtain kids where f: "family s kids" using inv by (auto simp: family_inv_def)
  have k: "known s' = insert p (known s)" by (auto simp: known_def s')
  have np: "p \<notin> set (proc_list s)" "p \<noteq> par" using p par by (auto simp: known_def)
  have kp: "sib_seg (procs s) None (p_cptr (proc_of q s)) (kids q) None" "distinct (kids q)"
    "set (kids q) = {k \<in> set (proc_list s). p_parent (proc_of k s) = Some q}" if "q \<in> known s" for q
    using f that by (auto simp: family_def)
  have nokid: "\<not> (k \<in> set (proc_list s) \<and> p_parent (proc_of k s) = Some p)" for k
    using inv p(1) by (auto simp: family_inv_def)
  define kids' where "kids' = kids(par := p # kids par, p := [])"
  have "family s' kids'"
    unfolding family_def k
  proof
    fix q assume q: "q \<in> insert p (known s)"
    consider "q = p" | "q = par" "q \<noteq> p" | "q \<noteq> p" "q \<noteq> par" "q \<in> known s" using q by blast
    then show "sib_seg (procs s') None (p_cptr (proc_of q s')) (kids' q) None \<and> distinct (kids' q) \<and>
        set (kids' q) = {k \<in> set (proc_list s'). p_parent (proc_of k s') = Some q}"
    proof cases
      case 1
      then show ?thesis using P np p(2,3) nokid by (auto simp: kids'_def s')
    next
      case 2
      have "sib_seg (procs s') None (Some p) (p # kids par) None"
        by (rule sib_seg_push [OF kp(1) [OF par(1)]]) (use kp(2,3) [OF par(1)] P np in auto)
      then show ?thesis using 2 P kp(2,3) [OF par(1)] np p(2) by (auto simp: kids'_def s')
    next
      case 3
      have "k \<in> set (kids par)" if "Some k = p_cptr (proc_of par s)" for k
        using sib_seg_head [OF kp(1) [OF par(1)]] that by (auto split: list.splits)
      then have "Some k \<noteq> p_cptr (proc_of par s)" if "k \<in> set (kids q)" for k
        using kp(3) [OF par(1)] kp(3) [OF 3(3)] that 3(2) by auto
      then have "sib_seg (procs s') None c (kids q) None \<longleftrightarrow> sib_seg (procs s) None c (kids q) None" for c
        using P kp(3) [OF 3(3)] np by (intro sib_seg_cong) auto
      then show ?thesis using 3 P kp [OF 3(3)] p(2) by (auto simp: kids'_def s')
    qed
  qed
  moreover have "\<forall>q\<in>set (proc_list s'). \<exists>r\<in>known s'. r \<noteq> q \<and> p_parent (proc_of q s') = Some r"
    using inv P p(2) par(1) np(2) unfolding k by (auto simp: family_inv_def s')
  moreover have "\<forall>q\<in>known s'. p_state (proc_of q s') = PROC_ZOMBIE \<longrightarrow> p_cptr (proc_of q s') = None"
    using inv P p(3,4) par(2) unfolding k by (auto simp: family_inv_def)
  ultimately show ?thesis using inv P unfolding family_inv_def by (auto simp: s')
qed

text \<open>Unlinking a process without children.\<close>

lemma remove_tables:
  assumes inv: "table_inv {} s" and p: "p \<in> set (proc_list s)"
    and s': "s' = (unhash_proc p s)\<lparr>procs := P, proc_list := remove1 p (proc_list s), nr_process := nr_process s - 1\<rparr>"
    and pids: "\<And>q. p_pid (P q) = p_pid (proc_of q s)"
  shows "table_inv {p} s'"
proof -
  have d: "distinct (proc_list s)" "idleproc s \<noteq> p" using inv p by (auto simp: table_inv_def)
  have k: "known s' = known s - {p}"
    using d by (auto simp: known_def s' unhash_proc_def Let_def)
  have "distinct (hash_list s' h) \<and> set (hash_list s' h) = {q \<in> set (proc_list s'). pid_hashfn (p_pid (proc_of q s')) = h}" for h
  proof -
    have dh: "distinct (hash_list s h)" "set (hash_list s h) = {q \<in> set (proc_list s). pid_hashfn (p_pid (proc_of q s)) = h}"
      using inv by (simp_all add: table_inv_def)
    have "hash_list s' h = remove1 p (hash_list s h)"
      using dh(2) p by (auto simp: s' unhash_proc_def Let_def remove1_idem)
    then show ?thesis using dh d pids by (auto simp: s')
  qed
  moreover have "pid_gap s'"
    using inv d pids by (auto simp: table_inv_def pid_gap_def s' unhash_proc_def Let_def)
  moreover have "proc_heap s' = known s' \<union> {p}"
    unfolding k using inv p by (auto simp: table_inv_def s' unhash_proc_def Let_def known_def)
  moreover have "nr_process s' = int (length (proc_list s')) + 1"
  proof -
    obtain n where "length (proc_list s) = Suc n" using p by (cases "proc_list s") auto
    then show ?thesis using inv p by (simp add: table_inv_def s' length_remove1)
  qed
  moreover have "inj_on (\<lambda>q. p_pid (proc_of q s')) (set (proc_list s'))"
    using inv d pids by (simp add: table_inv_def s' inj_on_def)
  moreover have "known s' \<inter> {p} = {}" "idleproc s' = idleproc s" unfolding k by (auto simp: s' unhash_proc_def Let_def)
  moreover have "proc_list s' = remove1 p (proc_list s)" "procs s' = P" by (simp_all add: s')
  ultimately show ?thesis
    using inv d pids unfolding table_inv_def by simp
qed

lemma remove_family:
  assumes inv: "family_inv {} s" and d: "distinct (proc_list s)" "idleproc s \<notin> set (proc_list s)"
    and p: "p \<in> set (proc_list s)" "p_parent (proc_of p s) = Some par" "p_cptr (proc_of p s) = None" "Some p \<noteq> initproc s"
    and s': "proc_list s' = remove1 p (proc_list s)" "idleproc s' = idleproc s" "initproc s' = initproc s"
    and P: "\<And>q. p_parent (proc_of q s') = p_parent (proc_of q s) \<and> p_state (proc_of q s') = p_state (proc_of q s) \<and>
      p_cptr (proc_of q s') = (if q = par \<and> p_yptr (proc_of p s) = None then p_optr (proc_of p s) else p_cptr (proc_of q s)) \<and>
      p_yptr (proc_of q s') = (if Some q = p_optr (proc_of p s) then p_yptr (proc_of p s) else p_yptr (proc_of q s)) \<and>
      p_optr (proc_of q s') = (if Some q = p_yptr (proc_of p s) then p_optr (proc_of p s) else p_optr (proc_of q s))"
  shows "family_inv {} s'"
proof -
  obtain kids where f: "family s kids" using inv by (auto simp: family_inv_def)
  have k: "known s' = known s - {p}" using d p(1) by (auto simp: known_def s')
  have kp: "sib_seg (procs s) None (p_cptr (proc_of q s)) (kids q) None" "distinct (kids q)"
    "set (kids q) = {k \<in> set (proc_list s). p_parent (proc_of k s) = Some q}" if "q \<in> known s" for q
    using f that by (auto simp: family_def)
  have par: "par \<in> known s" using inv p(1,2) by (auto simp: family_inv_def)
  have "p \<in> set (kids par)" using kp(3) [OF par] p(1,2) by simp
  then obtain xs ys where sp: "kids par = xs @ p # ys" by (meson split_list)
  have nokid: "set (kids p) = {}"
    using kp(1) [of p] sib_seg_head [of "procs s" None None "kids p"] p(1,3) by (auto simp: known_def split: list.splits)
  then have nokid': "p_parent (proc_of q s) \<noteq> Some p" if "q \<in> set (proc_list s)" for q
    using kp(3) [of p] p(1) that by (auto simp: known_def)
  define kids' where "kids' = kids(par := xs @ ys)"
  have mem: "k \<in> set (kids par)" if "Some k = p_yptr (proc_of p s) \<or> Some k = p_optr (proc_of p s)" for k
    using kp(1) [OF par] that unfolding sp sib_seg_append by (cases ys) (auto split: if_splits)
  have "family s' kids'"
    unfolding family_def k
  proof
    fix q assume q: "q \<in> known s - {p}"
    show "sib_seg (procs s') None (p_cptr (proc_of q s')) (kids' q) None \<and> distinct (kids' q) \<and>
        set (kids' q) = {k \<in> set (proc_list s'). p_parent (proc_of k s') = Some q}"
    proof (cases "q = par")
      case True
      have "sib_seg (procs s') None (if p_yptr (proc_of p s) = None then p_optr (proc_of p s) else p_cptr (proc_of par s)) (xs @ ys) None"
        by (rule sib_seg_remove [of "procs s" _ xs p ys]) (use kp [OF par] sp P in auto)
      then show ?thesis using True P kp(2,3) [OF par] sp d by (auto simp: kids'_def s')
    next
      case False
      have "k \<notin> set (kids par)" if "k \<in> set (kids q)" for k
        using kp(3) [OF par] kp(3) [of q] q that False by auto
      then have "sib_seg (procs s') None c (kids q) None \<longleftrightarrow> sib_seg (procs s) None c (kids q) None" for c
        using P mem by (intro sib_seg_cong) metis
      then show ?thesis using False P kp [of q] q p(2) d by (auto simp: kids'_def s')
    qed
  qed
  moreover have "\<forall>q\<in>set (proc_list s'). \<exists>r\<in>known s'. r \<noteq> q \<and> p_parent (proc_of q s') = Some r"
    using inv P nokid' d unfolding k by (fastforce simp: family_inv_def s')
  moreover have "\<forall>q\<in>known s'. p_state (proc_of q s') = PROC_ZOMBIE \<longrightarrow> p_cptr (proc_of q s') = None"
  proof -
    have "p_cptr (proc_of par s) \<noteq> None" using kp(1) [OF par] sp sib_seg_head by (cases xs) auto
    then show ?thesis using inv P unfolding k by (auto simp: family_inv_def)
  qed
  ultimately show ?thesis using inv P p(4) d unfolding family_inv_def by (auto simp: s')
qed

section \<open>Handing the children to init\<close>

lemma adopt_one_frame [simp]:
  "current (adopt_one cur init p s) = current s" "idleproc (adopt_one cur init p s) = idleproc s"
  "proc_list (adopt_one cur init p s) = proc_list s" "hash_list (adopt_one cur init p s) = hash_list s"
  "nr_process (adopt_one cur init p s) = nr_process s" "next_safe (adopt_one cur init p s) = next_safe s"
  "last_pid (adopt_one cur init p s) = last_pid s" "initproc (adopt_one cur init p s) = initproc s"
  "proc_heap (adopt_one cur init p s) = proc_heap s" "run_q (adopt_one cur init p s) = run_q s"
  "pools (adopt_one cur init p s) = pools s"
  "p_pid (proc_of q (adopt_one cur init p s)) = p_pid (proc_of q s)"
  "p_state (proc_of q (adopt_one cur init p s)) = p_state (proc_of q s)"
  "p_wait_state (proc_of q (adopt_one cur init p s)) = p_wait_state (proc_of q s)"
  "p_lab6_stride (proc_of q (adopt_one cur init p s)) = p_lab6_stride (proc_of q s)"
  "p_rq (proc_of q (adopt_one cur init p s)) = p_rq (proc_of q s)"
  by (auto simp: adopt_one_def Let_def split: option.splits)

lemma adopt_one_links:
  assumes "cur \<noteq> init" "p \<noteq> cur" "p \<noteq> init" "p_cptr (proc_of init s) \<noteq> Some p"
  shows "p_parent (proc_of q (adopt_one cur init p s)) = (if q = p then Some init else p_parent (proc_of q s))"
    "p_cptr (proc_of q (adopt_one cur init p s)) =
       (if q = cur then p_optr (proc_of p s) else if q = init then Some p else p_cptr (proc_of q s))"
    "p_yptr (proc_of q (adopt_one cur init p s)) =
       (if q = p then None else if Some q = p_cptr (proc_of init s) then Some p else p_yptr (proc_of q s))"
    "p_optr (proc_of q (adopt_one cur init p s)) = (if q = p then p_cptr (proc_of init s) else p_optr (proc_of q s))"
  using assms by (auto simp: adopt_one_def Let_def split: option.splits)

text \<open>The tables of \<open>s'\<close> when the children \<open>ks\<close> of \<open>cur\<close> have joined the children \<open>js\<close> of \<open>init\<close>.\<close>

definition adopted :: "ptr \<Rightarrow> ptr \<Rightarrow> ptr list \<Rightarrow> ptr list \<Rightarrow> 'w proc_st \<Rightarrow> 'w proc_st \<Rightarrow> bool" where
  "adopted cur init ks js s s' \<longleftrightarrow>
     current s' = current s \<and> idleproc s' = idleproc s \<and> proc_list s' = proc_list s \<and> hash_list s' = hash_list s \<and>
     nr_process s' = nr_process s \<and> next_safe s' = next_safe s \<and> last_pid s' = last_pid s \<and> initproc s' = initproc s \<and>
     proc_heap s' = proc_heap s \<and>
     (\<forall>q. p_pid (proc_of q s') = p_pid (proc_of q s) \<and>
        p_parent (proc_of q s') = (if q \<in> set ks then Some init else p_parent (proc_of q s)) \<and>
        (q \<noteq> cur \<longrightarrow> q \<noteq> init \<longrightarrow> p_cptr (proc_of q s') = p_cptr (proc_of q s)) \<and>
        (q \<notin> set (ks @ js) \<longrightarrow> p_yptr (proc_of q s') = p_yptr (proc_of q s) \<and> p_optr (proc_of q s') = p_optr (proc_of q s)) \<and>
        (q \<noteq> init \<longrightarrow> p_state (proc_of q s') = p_state (proc_of q s))) \<and>
     p_cptr (proc_of cur s') = None \<and> sib_seg (procs s') None (p_cptr (proc_of init s')) (rev ks @ js) None \<and>
     p_state (proc_of init s') \<in> {p_state (proc_of init s), PROC_RUNNABLE}"

lemma adopt_step:
  assumes "cur \<noteq> init" "init \<notin> set (k # ks)" "cur \<notin> set (k # ks)" "distinct ((k # ks) @ js)"
    "sib_seg (procs s) y (p_cptr (proc_of cur s)) (k # ks) None" "sib_seg (procs s) None (p_cptr (proc_of init s)) js None"
    and s5: "(if p_state (proc_of k (adopt_one cur init k s)) = PROC_ZOMBIE \<and> p_wait_state (proc_of init (adopt_one cur init k s)) = WT_CHILD
      then wakeup_proc default_sched_class init (adopt_one cur init k s) else Some (adopt_one cur init k s)) = Some s5"
  shows "sib_seg (procs s5) (Some k) (p_cptr (proc_of cur s5)) ks None \<and>
    sib_seg (procs s5) None (p_cptr (proc_of init s5)) (k # js) None \<and>
    (adopted cur init ks (k # js) s5 s' \<longrightarrow> adopted cur init (k # ks) js s s')"
proof -
  let ?s4 = "adopt_one cur init k s"
  have hd: "j \<in> set js" if "p_cptr (proc_of init s) = Some j" for j
    using sib_seg_head_in [of "procs s" None j js] assms(6) that by simp
  have ne: "k \<noteq> cur" "k \<noteq> init" "p_cptr (proc_of init s) \<noteq> Some k" "k \<notin> set js" "distinct js"
    using assms(2-4) hd by auto
  note L = adopt_one_links [OF assms(1) ne(1-3)]
  have t5: "tab_eq ?s4 s5 \<and> current s5 = current ?s4 \<and> (\<forall>q. q \<noteq> init \<longrightarrow> p_state (proc_of q s5) = p_state (proc_of q ?s4)) \<and>
      p_state (proc_of init s5) \<in> {p_state (proc_of init ?s4), PROC_RUNNABLE}"
    using s5 wakeup_tab [of init ?s4 s5] by (auto split: if_splits)
  note T = tab_eqD [OF conjunct1 [OF t5]]
  have "sib_seg (procs ?s4) (Some k) (p_optr (proc_of k s)) ks None \<longleftrightarrow> sib_seg (procs s) (Some k) (p_optr (proc_of k s)) ks None"
    using assms(4) hd by (intro sib_seg_cong) (auto simp: L disjoint_iff)
  then have seg1: "sib_seg (procs s5) (Some k) (p_cptr (proc_of cur s5)) ks None"
    using assms(5) sib_seg_cong [of ks "procs s5" "procs ?s4"] by (simp add: T L)
  have "sib_seg (procs ?s4) None (Some k) (k # js) None"
    by (rule sib_seg_push [OF assms(6)]) (use ne in \<open>auto simp: L\<close>)
  moreover have "sib_seg (procs s5) None (Some k) (k # js) None \<longleftrightarrow> sib_seg (procs ?s4) None (Some k) (k # js) None"
    by (rule sib_seg_cong) (simp add: T)
  ultimately have seg2: "sib_seg (procs s5) None (p_cptr (proc_of init s5)) (k # js) None"
    using assms(1) by (simp add: T L)
  have "adopted cur init (k # ks) js s s'" if "adopted cur init ks (k # js) s5 s'"
    using that t5 ne(1,2) assms(1) hd unfolding adopted_def by (auto simp: T L split: if_splits)
  then show ?thesis using seg1 seg2 by blast
qed

lemma adopt_loop_spec:
  assumes "adopt_loop cur init s = Some s'" "cur \<noteq> init" "init \<notin> set ks" "cur \<notin> set ks" "distinct (ks @ js)"
    "sib_seg (procs s) y (p_cptr (proc_of cur s)) ks None" "sib_seg (procs s) None (p_cptr (proc_of init s)) js None"
  shows "adopted cur init ks js s s'"
  using assms
proof (induction ks arbitrary: s y js)
  case Nil
  then show ?case by (subst (asm) adopt_loop.simps) (auto simp: adopted_def)
next
  case (Cons k ks)
  let ?s4 = "adopt_one cur init k s"
  have c: "p_cptr (proc_of cur s) = Some k" using Cons.prems(6) by simp
  obtain s5 where s5: "(if p_state (proc_of k ?s4) = PROC_ZOMBIE \<and> p_wait_state (proc_of init ?s4) = WT_CHILD
      then wakeup_proc default_sched_class init ?s4 else Some ?s4) = Some s5" "adopt_loop cur init s5 = Some s'"
    using Cons.prems(1) by (subst (asm) adopt_loop.simps) (auto simp: c bind_Some_iff Let_def)
  note st = adopt_step [OF Cons.prems(2-7) s5(1), of s']
  then have "adopted cur init ks (k # js) s5 s'"
    using Cons.prems(3-5) by (intro Cons.IH [OF s5(2) Cons.prems(2), of "k # js" "Some k"]) auto
  then show ?case using st by blast
qed

lemma adopt_family:
  assumes "family s kids" "adopted cur init (kids cur) (kids init) s s'" "cur \<in> known s" "init \<in> known s" "cur \<noteq> init"
  shows "family s' (kids(cur := [], init := rev (kids cur) @ kids init))"
proof -
  have kp: "sib_seg (procs s) None (p_cptr (proc_of q s)) (kids q) None" "distinct (kids q)"
    "set (kids q) = {k \<in> set (proc_list s). p_parent (proc_of k s) = Some q}" if "q \<in> known s" for q
    using assms(1) that by (auto simp: family_def)
  note ad = assms(2) [unfolded adopted_def]
  have k: "known s' = known s" using ad by (simp add: known_def)
  have par: "p_parent (proc_of q s') = (if q \<in> set (kids cur) then Some init else p_parent (proc_of q s))" for q
    using ad by blast
  show ?thesis
    unfolding family_def k
  proof
    fix q assume q: "q \<in> known s"
    let ?kids = "kids(cur := [], init := rev (kids cur) @ kids init)"
    have pl: "proc_list s' = proc_list s" using ad by blast
    consider "q = cur" | "q = init" | "q \<noteq> cur" "q \<noteq> init" by blast
    then show "sib_seg (procs s') None (p_cptr (proc_of q s')) (?kids q) None \<and> distinct (?kids q) \<and>
        set (?kids q) = {k \<in> set (proc_list s'). p_parent (proc_of k s') = Some q}"
    proof cases
      case 1
      have "p_cptr (proc_of cur s') = None" using ad by blast
      then show ?thesis using 1 assms(5) kp(3) [OF assms(3)] par by (auto simp: pl)
    next
      case 2
      have "sib_seg (procs s') None (p_cptr (proc_of init s')) (rev (kids cur) @ kids init) None" using ad by blast
      moreover have "set (kids cur) \<inter> set (kids init) = {}"
        using kp(3) [OF assms(3)] kp(3) [OF assms(4)] assms(5) by auto
      ultimately show ?thesis
        using 2 kp(2,3) [OF assms(3)] kp(2,3) [OF assms(4)] par by (auto simp: pl)
    next
      case 3
      have "k \<notin> set (kids cur @ kids init)" if "k \<in> set (kids q)" for k
        using kp(3) [OF q] kp(3) [OF assms(3)] kp(3) [OF assms(4)] that 3 by auto
      then have "sib_seg (procs s') None c (kids q) None \<longleftrightarrow> sib_seg (procs s) None c (kids q) None" for c
        using ad by (intro sib_seg_cong) blast
      moreover have "p_cptr (proc_of q s') = p_cptr (proc_of q s)" using ad 3 by blast
      ultimately show ?thesis using 3 kp [OF q] kp(3) [OF assms(3)] par by (auto simp: pl)
    qed
  qed
qed

lemma exit_relations_inv:
  assumes "exit_relations cur s = Some s'" "table_inv X s" "family_inv {cur} s" "cur \<in> set (proc_list s)" "initproc s \<noteq> Some cur"
  shows "proc_inv X s'"
proof -
  obtain par s1 where s1: "p_parent (proc_of cur s) = Some par"
    "(if p_wait_state (proc_of par s) = WT_CHILD then wakeup_proc default_sched_class par s else Some s) = Some s1"
    "(if p_cptr (proc_of cur s1) = None then Some s1 else do { init \<leftarrow> initproc s1; adopt_loop cur init s1 }) = Some s'"
    using assms(1) by (auto simp: exit_relations_def bind_Some_iff)
  have w: "tab_eq s s1 \<and> (\<forall>q. p_state (proc_of q s1) = PROC_ZOMBIE \<longrightarrow> p_state (proc_of q s) = PROC_ZOMBIE)"
    using s1(2) wakeup_tab [of par s s1] by (auto split: if_splits)
  have T: "table_inv X s1" and F: "family_inv {cur} s1"
    using table_inv_tab [OF conjunct1 [OF w] assms(2)] family_inv_tab [OF conjunct1 [OF w] assms(3)] w by auto
  note E = tab_eqD [OF conjunct1 [OF w]]
  show ?thesis
  proof (cases "p_cptr (proc_of cur s1) = None")
    case True
    then show ?thesis using s1(3) T F by (auto simp: proc_inv_def family_inv_def)
  next
    case False
    then obtain init where init: "initproc s1 = Some init" "adopt_loop cur init s1 = Some s'"
      using s1(3) by (auto simp: bind_Some_iff)
    obtain kids where f: "family s1 kids" using F by (auto simp: family_inv_def)
    have i: "init \<in> set (proc_list s1)" "p_parent (proc_of init s1) = Some (idleproc s1)" "p_state (proc_of init s1) \<noteq> PROC_ZOMBIE"
      using F init by (auto simp: family_inv_def)
    have ne: "cur \<noteq> init" "cur \<noteq> idleproc s1" "cur \<in> known s1" "init \<in> known s1"
      using assms(2,4,5) init i E by (auto simp: table_inv_def known_def)
    have kp: "sib_seg (procs s1) None (p_cptr (proc_of q s1)) (kids q) None" "distinct (kids q)"
      "set (kids q) = {k \<in> set (proc_list s1). p_parent (proc_of k s1) = Some q}" if "q \<in> known s1" for q
      using f that by (auto simp: family_def)
    have loop: "cur \<notin> set (kids cur)"
      using F kp(3) [OF ne(3)] by (auto simp: family_inv_def)
    have ad: "adopted cur init (kids cur) (kids init) s1 s'"
      using kp(1-3) [OF ne(3)] kp(1-3) [OF ne(4)] i(2) ne(1,2) loop
      by (intro adopt_loop_spec [OF init(2) ne(1)]) auto
    note A = ad [unfolded adopted_def]
    have "table_inv X s'"
      by (rule table_inv_cong [OF T]) (use A in blast)+
    moreover have "family_inv {} s'"
    proof -
      have st: "p_state (proc_of q s') = PROC_ZOMBIE \<Longrightarrow> p_state (proc_of q s1) = PROC_ZOMBIE \<and> q \<noteq> init" for q
      proof -
        have "p_state (proc_of init s') \<noteq> PROC_ZOMBIE" using A i(3) by (metis insertE proc_state.distinct(11) singletonD)
        moreover have "q \<noteq> init \<Longrightarrow> p_state (proc_of q s') = p_state (proc_of q s1)" using A by blast
        ultimately show "p_state (proc_of q s') = PROC_ZOMBIE \<Longrightarrow> p_state (proc_of q s1) = PROC_ZOMBIE \<and> q \<noteq> init" by metis
      qed
      have cp: "p_cptr (proc_of q s') = (if q = cur then None else p_cptr (proc_of q s1))" if "q \<noteq> init" for q
        using A that by auto
      have k: "known s' = known s1" "proc_list s' = proc_list s1" "initproc s' = initproc s1" "idleproc s' = idleproc s1"
        using A by (auto simp: known_def)
      have par: "p_parent (proc_of q s') = (if q \<in> set (kids cur) then Some init else p_parent (proc_of q s1))" for q
        using A by blast
      have nk: "init \<notin> set (kids cur)" using kp(3) [OF ne(3)] i(2) ne(2) by auto
      have "\<exists>kids. family s' kids" using adopt_family [OF f ad ne(3,4,1)] by blast
      moreover have "\<forall>p\<in>set (proc_list s'). \<exists>q\<in>known s'. q \<noteq> p \<and> p_parent (proc_of p s') = Some q"
        using F ne(4) nk unfolding k par by (auto simp: family_inv_def)
      ultimately show ?thesis
        using F st cp par nk init(1) unfolding family_inv_def k by auto
    qed
    ultimately show ?thesis by (simp add: proc_inv_def)
  qed
qed

section \<open>Finding processes\<close>

lemma find_proc_exact:
  assumes "table_inv X s"
  shows "find_proc pid s = Some p \<longleftrightarrow> p \<in> set (proc_list s) \<and> p_pid (proc_of p s) = pid"
proof
  assume "find_proc pid s = Some p"
  then show "p \<in> set (proc_list s) \<and> p_pid (proc_of p s) = pid"
    using assms by (auto simp: find_proc_def table_inv_def find_Some_iff split: if_splits dest!: nth_mem)
next
  assume p: "p \<in> set (proc_list s) \<and> p_pid (proc_of p s) = pid"
  then have r: "0 < pid" "pid < MAX_PID" "p \<in> set (hash_list s (pid_hashfn pid))"
    using assms by (auto simp: table_inv_def)
  then obtain q where q: "find (\<lambda>p. p_pid (proc_of p s) = pid) (hash_list s (pid_hashfn pid)) = Some q"
    using p by (cases "find (\<lambda>p. p_pid (proc_of p s) = pid) (hash_list s (pid_hashfn pid))") (auto simp: find_None_iff)
  then have "q \<in> set (hash_list s (pid_hashfn pid))" "p_pid (proc_of q s) = pid" by (auto simp: find_Some_iff)
  then have "q = p" using p assms by (auto simp: table_inv_def inj_on_def)
  then show "find_proc pid s = Some p" using q r by (simp add: find_proc_def)
qed

lemma sibling_scan_spec:
  "sib_seg P y c ks None \<Longrightarrow> sibling_scan P c b =
     Some (case find (\<lambda>p. p_state (P p) = PROC_ZOMBIE) ks of Some p \<Rightarrow> Found p
           | None \<Rightarrow> if b \<or> ks \<noteq> [] then Has_kid else No_kid)"
  by (induction ks arbitrary: y c b; subst sibling_scan.simps) auto

text \<open>The processes \<open>do_wait pid\<close> of \<open>cur\<close> waits for.\<close>

definition awaited :: "int \<Rightarrow> ptr \<Rightarrow> 'w proc_st \<Rightarrow> ptr set" where
  "awaited pid cur s = {p \<in> set (proc_list s). p_parent (proc_of p s) = Some cur \<and> (pid \<noteq> 0 \<longrightarrow> p_pid (proc_of p s) = pid)}"

lemma wait_scan_ok:
  assumes "proc_inv X s" "cur \<in> known s"
  shows "\<exists>r. wait_scan_pass pid cur s = Some r \<and> (case r of
      Found p \<Rightarrow> p \<in> awaited pid cur s \<and> p_state (proc_of p s) = PROC_ZOMBIE
    | Has_kid \<Rightarrow> awaited pid cur s \<noteq> {} \<and> (\<forall>p\<in>awaited pid cur s. p_state (proc_of p s) \<noteq> PROC_ZOMBIE)
    | No_kid \<Rightarrow> awaited pid cur s = {})"
proof (cases "pid = 0")
  case True
  obtain kids where "family s kids" using assms(1) by (auto simp: proc_inv_def family_inv_def)
  then have k: "sib_seg (procs s) None (p_cptr (proc_of cur s)) (kids cur) None" "set (kids cur) = awaited pid cur s"
    using assms(2) True by (auto simp: family_def awaited_def)
  show ?thesis
    using sibling_scan_spec [OF k(1), of False] k(2) True
    by (auto simp: wait_scan_pass_def find_None_iff find_Some_iff split: option.splits)
next
  case False
  have f: "find_proc pid s = Some p \<longleftrightarrow> p \<in> set (proc_list s) \<and> p_pid (proc_of p s) = pid" for p
    using assms(1) find_proc_exact by (auto simp: proc_inv_def)
  have uniq: "p = q" if "p \<in> set (proc_list s)" "q \<in> set (proc_list s)" "p_pid (proc_of p s) = p_pid (proc_of q s)" for p q
    using assms(1) that by (auto simp: proc_inv_def table_inv_def inj_on_def)
  show ?thesis
  proof (cases "find_proc pid s")
    case None
    then have "awaited pid cur s = {}" using f False by (auto simp: awaited_def)
    then show ?thesis using None False by (auto simp: wait_scan_pass_def)
  next
    case (Some p)
    then have "awaited pid cur s = (if p_parent (proc_of p s) = Some cur then {p} else {})"
      using f [of p] uniq False by (auto simp: awaited_def)
    then show ?thesis using Some False by (auto simp: wait_scan_pass_def)
  qed
qed

section \<open>Every operation keeps the invariant\<close>

lemma proc_heap_upd: "known (s\<lparr>proc_heap := h\<rparr>) = known s" "family_inv C (s\<lparr>proc_heap := h\<rparr>) = family_inv C s"
  by (simp_all add: family_inv_def family_def known_def)

lemma kfree_proc_inv:
  assumes "kfree_proc p s = Some s'" "proc_inv {p} s" shows "proc_inv {} s'"
proof -
  have s': "s' = s\<lparr>proc_heap := proc_heap s - {p}\<rparr>" using assms(1) by (auto simp: kfree_proc_def split: if_splits)
  have "proc_heap s' = known s'"
    using assms(2) by (auto simp: s' proc_heap_upd proc_inv_def table_inv_def)
  then show ?thesis using assms(2) by (simp add: s' proc_inv_def table_inv_def proc_heap_upd pid_gap_def)
qed

lemma mild_inv: "mild s s' \<Longrightarrow> proc_inv X s \<Longrightarrow> proc_inv X s'"
  by (auto simp: mild_def intro: proc_inv_tab)

lemma wakeup_inv:
  assumes "wakeup_proc default_sched_class p s = Some s'" "proc_inv X s"
  shows "proc_inv X s'"
proof (rule proc_inv_tab [OF assms(2)])
  note t = wakeup_tab [OF assms(1)]
  show "tab_eq s s'" using t by blast
  show "p_state (proc_of q s') = PROC_ZOMBIE \<Longrightarrow> p_state (proc_of q s) = PROC_ZOMBIE" for q
    using t by (cases "q = p") auto
qed

lemma schedule_inv: "schedule default_sched_class s = Some s' \<Longrightarrow> proc_inv X s \<Longrightarrow> proc_inv X s'"
  using schedule_tab [of s s'] by (auto elim!: proc_inv_tab)

lemma upd_proc_inv:
  assumes "proc_inv X s" "\<And>q. lnk (f q) = lnk q" "p_state (f (proc_of p s)) \<noteq> PROC_ZOMBIE"
  shows "proc_inv X (upd_proc p f s)"
  by (rule proc_inv_tab [OF assms(1) upd_proc_tab]) (use assms(2,3) in \<open>auto split: if_splits\<close>)

lemma fork_publish_inv:
  assumes "fork_publish p s = Some (r, s')" "proc_inv {p} s" "nr_process s < MAX_PROCESS"
    "p_parent (proc_of p s) = Some par" "par \<in> known s" "p_state (proc_of par s) \<noteq> PROC_ZOMBIE"
    "p_cptr (proc_of p s) = None" "p_state (proc_of p s) = PROC_UNINIT"
  shows "proc_inv {} s' \<and> proc_list s' = p # proc_list s \<and> p_pid (proc_of p s') = r \<and> 0 < r \<and>
    p_parent (proc_of p s') = Some par \<and> p_state (proc_of p s') = PROC_RUNNABLE \<and> current s' = current s \<and>
    idleproc s' = idleproc s \<and> initproc s' = initproc s \<and>
    (\<forall>q\<in>known s. p_parent (proc_of q s') = p_parent (proc_of q s) \<and> p_state (proc_of q s') = p_state (proc_of q s) \<and>
      p_pid (proc_of q s') = p_pid (proc_of q s))"
proof -
  have np: "p \<notin> known s" "p \<noteq> par" using assms(2,5) by (auto simp: proc_inv_def table_inv_def)
  have len: "int (length (proc_list s)) < MAX_PID - 1"
    using assms(2,3) by (auto simp: proc_inv_def table_inv_def MAX_PID_def MAX_PROCESS_def)
  obtain pid s1 s3 where g: "get_pid s = Some (pid, s1)"
    and s3: "set_links p (hash_proc p (upd_proc p (\<lambda>q. q\<lparr>p_pid := pid\<rparr>) s1)) = Some s3"
    and w: "wakeup_proc default_sched_class p s3 = Some s'" and r: "r = p_pid (proc_of p s')"
    using assms(1) by (auto simp: fork_publish_def bind_Some_iff Let_def)
  obtain n where g1: "s1 = s\<lparr>last_pid := pid, next_safe := n\<rparr>" "1 \<le> pid"
    using get_pid_ok [OF _ len] g assms(2) by (auto simp: proc_inv_def table_inv_def)
  define s2 where "s2 = hash_proc p (upd_proc p (\<lambda>q. q\<lparr>p_pid := pid\<rparr>) s1)"
  have s2: "p_parent (proc_of q s2) = p_parent (proc_of q s)" "p_cptr (proc_of q s2) = p_cptr (proc_of q s)"
    "p_yptr (proc_of q s2) = p_yptr (proc_of q s)" "p_optr (proc_of q s2) = p_optr (proc_of q s)"
    "p_state (proc_of q s2) = p_state (proc_of q s)" "proc_list s2 = proc_list s" "idleproc s2 = idleproc s"
    "initproc s2 = initproc s" "nr_process s2 = nr_process s" "current s2 = current s" for q
    using g1(1) by (auto simp: s2_def hash_proc_def Let_def)
  obtain kids where "family s kids" using assms(2) by (auto simp: proc_inv_def family_inv_def)
  then have "sib_seg (procs s) None (p_cptr (proc_of par s)) (kids par) None" "set (kids par) \<subseteq> set (proc_list s)"
    using assms(5) by (auto simp: family_def)
  then have nc: "p_cptr (proc_of par s) \<noteq> Some p"
    using np(1) sib_seg_head_in [of "procs s" None p "kids par"] by (auto simp: known_def)
  obtain P where P: "s3 = s2\<lparr>procs := P, proc_list := p # proc_list s, nr_process := nr_process s + 1\<rparr>"
    "\<And>q. p_pid (P q) = p_pid (proc_of q s2)"
    "\<And>q. p_parent (P q) = p_parent (proc_of q s) \<and> p_state (P q) = p_state (proc_of q s) \<and>
      p_cptr (P q) = (if q = par then Some p else p_cptr (proc_of q s)) \<and>
      p_yptr (P q) = (if q = p then None else if Some q = p_cptr (proc_of par s) then Some p else p_yptr (proc_of q s)) \<and>
      p_optr (P q) = (if q = p then p_cptr (proc_of par s) else p_optr (proc_of q s))"
    using set_links_spec [of s2 p par] s3 assms(4) np(2) nc unfolding s2_def [symmetric] by (auto simp: s2)
  have "table_inv {} s3"
    using publish_tables [OF _ len g s2_def P(1)] P(2) assms(2) by (auto simp: proc_inv_def)
  moreover have "family_inv {} s3"
    using assms(2) by (intro publish_family [of s p par s3] np(1) assms(4-7)) (use P assms(8) in \<open>auto simp: proc_inv_def s2\<close>)
  ultimately have inv: "proc_inv {} s3" by (simp add: proc_inv_def)
  note t = wakeup_tab [OF w]
  have "proc_inv {} s'" by (rule wakeup_inv [OF w inv])
  moreover have "p_pid (proc_of p s3) = pid"
    using P(1,2) by (simp add: s2_def hash_proc_def Let_def)
  moreover have "p_pid (proc_of q s3) = p_pid (proc_of q s)" if "q \<noteq> p" for q
    using P(1,2) that g1(1) by (simp add: s2_def hash_proc_def Let_def)
  ultimately show ?thesis
    using t tab_eqD [OF conjunct1 [OF t]] P g1(2) r assms(4) np(1) s2(7,8,10) by auto
qed

lemma fork_child_cases:
  assumes "fork_child T e fl stk tf p s = Some (r, s')"
  obtains t where "mild s t" "kfree_proc p t = Some s'" "r = - E_NO_MEM"
  | t where "mild s t" "fork_publish p t = Some (r, s')"
  using assms unfolding fork_child_def
  by (auto split: Option.bind_split_asm if_splits prod.splits
      dest!: setup_kstack_mild copy_files_mild copy_mm_mild put_kstack_mild put_files_mild;
      metis mild_trans mm_ops_mild(12))

lemma do_fork_inv:
  assumes "do_fork T e fl stk tf s = Some (r, s')" "proc_inv {} s" "current s = Some cur" "cur \<in> known s"
    "p_state (proc_of cur s) \<noteq> PROC_ZOMBIE" "\<And>p. k_proc e = Some p \<Longrightarrow> p \<notin> proc_heap s"
  shows "proc_inv {} s' \<and> (if r > 0 then \<exists>p. k_proc e = Some p \<and> proc_list s' = p # proc_list s \<and> p_pid (proc_of p s') = r \<and>
      p_parent (proc_of p s') = Some cur \<and> p_state (proc_of p s') = PROC_RUNNABLE
    else r \<in> {- E_NO_FREE_PROC, - E_NO_MEM} \<and> proc_list s' = proc_list s) \<and>
    current s' = current s \<and> idleproc s' = idleproc s \<and> initproc s' = initproc s \<and>
    (\<forall>q\<in>known s. p_parent (proc_of q s') = p_parent (proc_of q s) \<and> p_state (proc_of q s') = p_state (proc_of q s) \<and>
      p_pid (proc_of q s') = p_pid (proc_of q s))"
proof (cases "nr_process s \<ge> MAX_PROCESS \<or> k_proc e = None")
  case True
  then show ?thesis using assms(1,2) by (auto simp: do_fork_def alloc_proc_def err_defs split: if_splits)
next
  case False
  then obtain p where p: "k_proc e = Some p" and nr: "nr_process s < MAX_PROCESS" by auto
  define s2 where "s2 = upd_proc p (\<lambda>q. q\<lparr>p_parent := Some cur\<rparr>) (snd (alloc_proc (Some p) s))"
  have i2: "proc_inv {p} s2"
    by (rule proc_inv_new [OF assms(2) assms(6) [OF p]]) (simp_all add: s2_def alloc_proc_def)
  have ne: "cur \<noteq> p" using assms(2,4) assms(6) [OF p] by (auto simp: proc_inv_def table_inv_def)
  have l2: "p_parent (proc_of p s2) = Some cur" "p_cptr (proc_of p s2) = None" "p_state (proc_of p s2) = PROC_UNINIT"
    "nr_process s2 = nr_process s" "proc_list s2 = proc_list s" "known s2 = known s" "proc_of cur s2 = proc_of cur s"
    "current s2 = current s" "idleproc s2 = idleproc s" "initproc s2 = initproc s"
    using ne by (auto simp: s2_def alloc_proc_def alloc_proc_init_def known_def)
  have np: "p \<notin> known s" using assms(2) assms(6) [OF p] by (auto simp: proc_inv_def table_inv_def)
  have k2: "proc_of q s2 = proc_of q s" if "q \<in> known s" for q
    using that np by (auto simp: s2_def alloc_proc_def)
  have "fork_child T e fl stk tf p s2 = Some (r, s')"
    using assms(1,3) nr unfolding do_fork_def p by (auto simp: alloc_proc_def s2_def Let_def bind_Some_iff split: if_splits)
  then show ?thesis
  proof (cases rule: fork_child_cases)
    case (1 t)
    have "proc_inv {} s'" by (rule kfree_proc_inv [OF 1(2) mild_inv [OF 1(1) i2]])
    moreover have "proc_list s' = proc_list s" "current s' = current s" "idleproc s' = idleproc s" "initproc s' = initproc s"
      "\<forall>q\<in>known s. p_parent (proc_of q s') = p_parent (proc_of q s) \<and> p_state (proc_of q s') = p_state (proc_of q s) \<and>
        p_pid (proc_of q s') = p_pid (proc_of q s)"
      using 1 l2 k2 by (auto simp: kfree_proc_def mild_def tab_eq_def lnk_def split: if_splits)
    ultimately show ?thesis using 1(3) by (simp add: err_defs)
  next
    case (2 t)
    note E = tab_eqD [OF conjunct1 [OF 2(1) [unfolded mild_def]]]
    have st: "p_state (proc_of q t) = p_state (proc_of q s2)" "current t = current s2" "known t = known s2" for q
      using 2(1) known_tab [of s2 t] by (auto simp: mild_def)
    show ?thesis
      using fork_publish_inv [OF 2(2) mild_inv [OF 2(1) i2], of cur] nr l2 assms(4,5) p k2 by (simp add: E st)
  qed
qed

lemma exit_resources_mild: "exit_resources T cur s = Some s' \<Longrightarrow> mild s s'"
  unfolding exit_resources_def
  by (auto simp: Let_def split: option.splits Option.bind_split_asm if_splits
      dest!: mm_ops_mild(1,2) put_pgdir_mild put_files_mild; meson mild_trans)

lemma zombie_family_inv:
  assumes "proc_inv {} s" "cur \<noteq> idleproc s" "Some cur \<noteq> initproc s"
  shows "family_inv {cur} (upd_proc cur (\<lambda>q. q\<lparr>p_state := PROC_ZOMBIE, p_exit_code := code\<rparr>) s)"
proof -
  let ?z = "upd_proc cur (\<lambda>q. q\<lparr>p_state := PROC_ZOMBIE, p_exit_code := code\<rparr>) s"
  have t: "tab_eq s ?z" by (rule upd_proc_tab) (simp add: lnk_def)
  obtain kids where "family s kids" using assms(1) by (auto simp: proc_inv_def family_inv_def)
  then have "family ?z kids" by (rule family_tab [OF t])
  then show ?thesis using assms known_tab [OF t] unfolding proc_inv_def family_inv_def by auto
qed

lemma parent_alive:
  assumes "proc_inv {} s" "p \<in> set (proc_list s)" "p_parent (proc_of p s) = Some par"
  shows "par \<in> known s" "par \<noteq> p" "p_state (proc_of par s) \<noteq> PROC_ZOMBIE"
proof -
  have fi: "family_inv {} s" using assms(1) by (simp add: proc_inv_def)
  then show par: "par \<in> known s" "par \<noteq> p" using assms(2,3) by (auto simp: family_inv_def)
  obtain kids where "family s kids" using fi by (auto simp: family_inv_def)
  then have k: "sib_seg (procs s) None (p_cptr (proc_of par s)) (kids par) None" "p \<in> set (kids par)"
    using par(1) assms(2,3) by (auto simp: family_def)
  then have "p_cptr (proc_of par s) \<noteq> None" by (cases "kids par") auto
  then show "p_state (proc_of par s) \<noteq> PROC_ZOMBIE" using fi par(1) by (auto simp: family_inv_def)
qed

lemma do_exit_inv:
  assumes "do_exit T code s = Some s'" "proc_inv {} s" "current s = Some cur" "cur \<in> known s"
  shows "proc_inv {} s'"
proof -
  let ?f = "\<lambda>q. q\<lparr>p_state := PROC_ZOMBIE, p_exit_code := code\<rparr>"
  obtain s1 s2 where s: "cur \<noteq> idleproc s" "Some cur \<noteq> initproc s" "exit_resources T cur s = Some s1"
    "exit_relations cur (upd_proc cur ?f s1) = Some s2" "schedule default_sched_class s2 = Some s'"
    using assms(1,3) by (auto simp: do_exit_def bind_Some_iff split: if_splits)
  have m: "mild s s1" by (rule exit_resources_mild [OF s(3)])
  have i1: "proc_inv {} s1" by (rule mild_inv [OF m assms(2)])
  note E = tab_eqD [OF conjunct1 [OF m [unfolded mild_def]]]
  have t: "tab_eq s1 (upd_proc cur ?f s1)" by (rule upd_proc_tab) (simp add: lnk_def)
  have T: "table_inv {} (upd_proc cur ?f s1)" using table_inv_tab [OF t] i1 by (simp add: proc_inv_def)
  have F: "family_inv {cur} (upd_proc cur ?f s1)" using i1 s(1,2) by (intro zombie_family_inv) (simp_all add: E)
  have "cur \<in> set (proc_list s1)" using assms(4) s(1) by (auto simp: known_def E)
  then have "proc_inv {} s2"
    using exit_relations_inv [OF s(4) T F] s(2) by (auto simp: E)
  then show ?thesis by (rule schedule_inv [OF s(5)])
qed

lemma wait_found_inv:
  assumes "wait_found cs p s = Some s'" "proc_inv {} s" "p \<in> set (proc_list s)" "p_state (proc_of p s) = PROC_ZOMBIE"
  shows "proc_inv {} s' \<and> proc_list s' = remove1 p (proc_list s)"
proof -
  define s1 where "s1 = (case cs of None \<Rightarrow> s | Some a \<Rightarrow> store_int a (p_exit_code (proc_of p s)) s)"
  obtain s2 s3 where s: "p \<noteq> idleproc s" "Some p \<noteq> initproc s" "remove_links p (unhash_proc p s1) = Some s2"
    "put_kstack p s2 = Some s3" "kfree_proc p s3 = Some s'"
    using assms(1) by (auto simp: wait_found_def s1_def bind_Some_iff Let_def split: if_splits)
  have m: "mild s s1" by (auto simp: s1_def store_int_def mild_defs split: option.splits)
  have i1: "proc_inv {} s1" by (rule mild_inv [OF m assms(2)])
  note E = tab_eqD [OF conjunct1 [OF m [unfolded mild_def]]]
  have p: "p \<in> set (proc_list s1)" "p_state (proc_of p s1) = PROC_ZOMBIE" "Some p \<noteq> initproc s1"
    using assms(3,4) m s(2) by (auto simp: E mild_def)
  have TF: "table_inv {} s1" "family_inv {} s1" using i1 by (auto simp: proc_inv_def)
  have cp: "p_cptr (proc_of p s1) = None" using TF(2) p by (auto simp: family_inv_def known_def)
  obtain par where par: "p_parent (proc_of p s1) = Some par" "par \<in> known s1" using TF(2) p(1) by (auto simp: family_inv_def)
  obtain kids where "family s1 kids" using TF(2) by (auto simp: family_inv_def)
  then have k: "sib_seg (procs s1) None (p_cptr (proc_of par s1)) (kids par) None" "distinct (kids par)" "p \<in> set (kids par)"
    using par p(1) by (auto simp: family_def)
  then obtain xs ys where "kids par = xs @ p # ys" by (meson split_list)
  then have nb: "p_optr (proc_of p s1) \<noteq> Some p" "p_yptr (proc_of p s1) \<noteq> Some p"
    using sib_neighbours [of "procs s1" _ xs p ys] k by auto
  have u: "procs (unhash_proc p s1) = procs s1" "proc_list (unhash_proc p s1) = proc_list s1"
    "nr_process (unhash_proc p s1) = nr_process s1" "idleproc (unhash_proc p s1) = idleproc s1"
    "initproc (unhash_proc p s1) = initproc s1"
    by (auto simp: unhash_proc_def Let_def)
  obtain P where P: "s2 = (unhash_proc p s1)\<lparr>procs := P, proc_list := remove1 p (proc_list s1), nr_process := nr_process s1 - 1\<rparr>"
    "\<And>q. p_pid (P q) = p_pid (proc_of q s1)"
    "\<And>q. p_parent (P q) = p_parent (proc_of q s1) \<and> p_state (P q) = p_state (proc_of q s1) \<and>
      p_cptr (P q) = (if q = par \<and> p_yptr (proc_of p s1) = None then p_optr (proc_of p s1) else p_cptr (proc_of q s1)) \<and>
      p_yptr (P q) = (if Some q = p_optr (proc_of p s1) then p_yptr (proc_of p s1) else p_yptr (proc_of q s1)) \<and>
      p_optr (P q) = (if Some q = p_yptr (proc_of p s1) then p_optr (proc_of p s1) else p_optr (proc_of q s1))"
    using remove_links_spec [of "unhash_proc p s1" p par] s(3) par(1) nb by (auto simp: u)
  have "table_inv {p} s2" by (rule remove_tables [OF TF(1) p(1) P(1,2)])
  moreover have "family_inv {} s2"
    using TF(1) by (intro remove_family [OF TF(2) _ _ p(1) par(1) cp p(3)]) (use P in \<open>auto simp: table_inv_def u\<close>)
  ultimately have "proc_inv {p} s2" by (simp add: proc_inv_def)
  moreover have m3: "mild s2 s3" by (rule put_kstack_mild [OF s(4)])
  ultimately have "proc_inv {} s'" using kfree_proc_inv [OF s(5) mild_inv] by blast
  moreover have "proc_list s' = remove1 p (proc_list s)"
    using s(5) m3 P(1) by (auto simp: kfree_proc_def E mild_def tab_eq_def split: if_splits)
  ultimately show ?thesis ..
qed

lemma wait_repeat_inv:
  assumes "wait_repeat pid cs s = Some (r, s')" "proc_inv {} s" "current s = Some cur" "cur \<in> known s"
  shows "proc_inv {} s'"
proof -
  obtain w where w: "wait_scan_pass pid cur s = Some w" "(case w of
      Found p \<Rightarrow> p \<in> awaited pid cur s \<and> p_state (proc_of p s) = PROC_ZOMBIE
    | Has_kid \<Rightarrow> awaited pid cur s \<noteq> {} \<and> (\<forall>p\<in>awaited pid cur s. p_state (proc_of p s) \<noteq> PROC_ZOMBIE)
    | No_kid \<Rightarrow> awaited pid cur s = {})"
    using wait_scan_ok [OF assms(2,4)] by blast
  show ?thesis
  proof (cases w)
    case (Found p)
    then show ?thesis
      using assms(1-3) w wait_found_inv [of cs p s s'] by (auto simp: wait_repeat_def awaited_def bind_Some_iff)
  next
    case Has_kid
    let ?s1 = "upd_proc cur (\<lambda>q. q\<lparr>p_state := PROC_SLEEPING, p_wait_state := WT_CHILD\<rparr>) s"
    have "schedule default_sched_class ?s1 = Some s'"
      using Has_kid assms(1,3) w(1) by (auto simp: wait_repeat_def bind_Some_iff)
    moreover have "proc_inv {} ?s1" by (rule upd_proc_inv [OF assms(2)]) (simp_all add: lnk_def)
    ultimately show ?thesis by (rule schedule_inv)
  next
    case No_kid
    then show ?thesis using assms(1-3) w(1) by (auto simp: wait_repeat_def)
  qed
qed

lemma do_wait_inv:
  assumes "do_wait pid cs s = Some (r, s')" "proc_inv {} s" "current s = Some cur" "cur \<in> known s"
  shows "proc_inv {} s'"
proof (cases cs)
  case None
  then show ?thesis using assms wait_repeat_inv by (auto simp: do_wait_def)
next
  case (Some a)
  define s1 where "s1 mm = (case p_mm (proc_of cur s) of None \<Rightarrow> s | Some q \<Rightarrow> s\<lparr>mms := (mms s)(q := mm)\<rparr>)" for mm
  have m: "mild s (s1 mm)" for mm by (auto simp: s1_def mild_defs split: option.splits)
  have k: "known (s1 mm) = known s" "current (s1 mm) = current s" for mm
    by (auto simp: s1_def known_def split: option.splits)
  obtain ok mm where "(if ok then wait_repeat pid cs (s1 mm) else Some (Returned (- E_INVAL), s1 mm)) = Some (r, s')"
    using assms(1,3) Some unfolding s1_def by (auto simp: do_wait_def bind_Some_iff Let_def simp del: if_split)
  then show ?thesis
    using wait_repeat_inv [of pid cs "s1 mm" r s' cur] mild_inv [OF m assms(2), of mm] assms(3,4) k [of mm] by (auto split: if_splits)
qed

lemma do_kill_inv:
  assumes "do_kill pid s = Some (r, s')" "proc_inv {} s"
  shows "proc_inv {} s'"
proof (cases "find_proc pid s")
  case None
  then show ?thesis using assms by (simp add: do_kill_def)
next
  case (Some p)
  let ?f = "\<lambda>q. q\<lparr>p_flags := p_flags q OR PF_EXITING\<rparr>"
  have "mild s (upd_proc p ?f s)" by (auto simp: mild_defs)
  from mild_inv [OF this assms(2)] show ?thesis
    using assms Some by (auto simp: do_kill_def bind_Some_iff Let_def split: if_splits dest!: wakeup_inv)
qed

end
