(* ===== verification/ProcLife.thy ===== *)
theory ProcLife
  imports ProcInv
begin

text \<open>
  The process manager over time: the operations as a step relation, the invariant along its runs from \<open>proc_init\<close> on,
  and the properties of pids, waiting and exiting.
\<close>

section \<open>Sequences of operations\<close>

definition runs :: "'w proc_st \<Rightarrow> ptr \<Rightarrow> bool" where
  "runs s cur \<longleftrightarrow> current s = Some cur \<and> cur \<in> known s \<and> p_state (proc_of cur s) = PROC_RUNNABLE"

text \<open>
  One operation of the process manager.  A system call is made by a listed process or the idle process while it runs;
  \<^verbatim>\<open>kmalloc\<close> does not return memory that is in use.
\<close>

inductive proc_step :: "'w fs_st_scheme vtab \<Rightarrow> 'w proc_st \<Rightarrow> 'w proc_st \<Rightarrow> bool" for T where
  fork: "runs s cur \<Longrightarrow> (\<And>p. k_proc e = Some p \<Longrightarrow> p \<notin> proc_heap s) \<Longrightarrow>
    do_fork T e fl stk tf s = Some (r, s') \<Longrightarrow> proc_step T s s'"
| exit: "runs s cur \<Longrightarrow> do_exit T code s = Some s' \<Longrightarrow> proc_step T s s'"
| wait: "runs s cur \<Longrightarrow> do_wait pid cs s = Some (w, s') \<Longrightarrow> proc_step T s s'"
| wait_again: "runs s cur \<Longrightarrow> wait_resume T pid cs s = Some (w, s') \<Longrightarrow> proc_step T s s'"
| kill: "runs s cur \<Longrightarrow> do_kill pid s = Some (r, s') \<Longrightarrow> proc_step T s s'"
| yield: "runs s cur \<Longrightarrow> do_yield s = Some (r, s') \<Longrightarrow> proc_step T s s'"
| priority: "runs s cur \<Longrightarrow> lab6_set_priority pr s = Some s' \<Longrightarrow> proc_step T s s'"
| sleep: "runs s cur \<Longrightarrow> do_sleep t time s = Some (b, s') \<Longrightarrow> proc_step T s s'"
| sleep_again: "runs s cur \<Longrightarrow> sleep_resume t s = (r, s') \<Longrightarrow> proc_step T s s'"
| switch: "schedule default_sched_class s = Some s' \<Longrightarrow> proc_step T s s'"

lemma timer_ops_mild:
  "mild s (timer_init t p e s)" "add_timer t s = Some s' \<Longrightarrow> mild s s'" "mild s (del_timer t s)"
  by (auto simp: timer_init_def add_timer_def del_timer_def mild_defs Let_def bind_Some_iff split: if_splits option.splits prod.splits)

lemma proc_step_inv: "proc_step T s s' \<Longrightarrow> proc_inv {} s \<Longrightarrow> proc_inv {} s'"
proof (induction rule: proc_step.induct)
  case (fork s cur e fl stk tf r s')
  then show ?case using do_fork_inv [OF fork(3,4), of cur] by (auto simp: runs_def)
next
  case (wait_again s cur pid cs w s')
  then show ?case
    by (auto simp: wait_resume_def runs_def bind_Some_iff split: if_splits intro: do_exit_inv wait_repeat_inv)
next
  case (sleep s cur t time b s')
  show ?case
  proof (cases "time = 0")
    case False
    let ?s1 = "timer_init t cur (sint time) s"
    let ?s2 = "upd_proc cur (\<lambda>q. q\<lparr>p_state := PROC_SLEEPING, p_wait_state := WT_TIMER\<rparr>) ?s1"
    obtain s3 where s3: "add_timer t ?s2 = Some s3" "schedule default_sched_class s3 = Some s'"
      using sleep False by (auto simp: do_sleep_def runs_def bind_Some_iff)
    have "proc_inv {} ?s1" by (rule mild_inv [OF timer_ops_mild(1) sleep(3)])
    then have "proc_inv {} ?s2" by (rule upd_proc_inv) (simp_all add: lnk_def)
    then have "proc_inv {} s3" by (rule mild_inv [OF timer_ops_mild(2) [OF s3(1)]])
    then show ?thesis by (rule schedule_inv [OF s3(2)])
  qed (use sleep in \<open>simp add: do_sleep_def\<close>)
qed (auto simp: runs_def do_yield_def lab6_set_priority_def sleep_resume_def lnk_def
    intro: do_exit_inv do_wait_inv do_kill_inv schedule_inv mild_inv [OF timer_ops_mild(3)] upd_proc_inv)

section \<open>The first processes\<close>

text \<open>The static variables before \<open>proc_init\<close>, with their initialisers.\<close>

definition boot_st :: "'w proc_st \<Rightarrow> bool" where
  "boot_st s \<longleftrightarrow> nr_process s = 0 \<and> last_pid s = MAX_PID \<and> next_safe s = MAX_PID \<and> initproc s = None \<and> proc_heap s = {}"

lemma idle_inv:
  assumes "proc_list s = []" "hash_list s = (\<lambda>_. [])" "nr_process s = 1" "last_pid s = MAX_PID" "next_safe s = MAX_PID"
    "initproc s = None" "proc_heap s = {idleproc s}" "p_cptr (proc_of (idleproc s) s) = None"
    "p_state (proc_of (idleproc s) s) = PROC_RUNNABLE"
  shows "proc_inv {} s"
proof -
  have "family s (\<lambda>_. [])" using assms by (simp add: family_def known_def)
  then show ?thesis
    using assms by (auto simp: proc_inv_def table_inv_def family_inv_def known_def pid_gap_def MAX_PID_def MAX_PROCESS_def)
qed

lemma name_inv: "proc_inv X s \<Longrightarrow> proc_inv X (set_proc_name p n s)"
  by (rule mild_inv) (auto simp: set_proc_name_def mild_defs)

lemma initproc_inv:
  assumes "proc_inv X s" "i \<in> set (proc_list s)" "p_parent (proc_of i s) = Some (idleproc s)" "p_state (proc_of i s) \<noteq> PROC_ZOMBIE"
  shows "proc_inv X (s\<lparr>initproc := Some i\<rparr>)"
  using assms by (simp add: proc_inv_def table_inv_def family_inv_def family_def known_def pid_gap_def)

lemma kpu_inv: "proc_inv X s \<Longrightarrow> proc_inv X (s\<lparr>kpu_task_ctrl_proc := k\<rparr>)"
  by (rule mild_inv) (auto simp: mild_defs)

lemma proc_init_inv:
  assumes "boot_st s" "distinct [ki, k_proc e1, k_proc e2]"
    and "proc_init T ki kf us e1 e2 sstatus entry bootstack init_main kpu_task_ctrl s = Some s'"
  shows "proc_inv {} s'"
proof -
  obtain idle q s5 pid s6 pid2 s7 init kpu where
    ki: "ki = Some idle" and s5: "s5 = (let s2 = upd_proc idle (\<lambda>q. q\<lparr>p_pid := 0, p_state := PROC_RUNNABLE, p_kstack := bootstack, p_need_resched := True\<rparr>)
        ((snd (alloc_proc ki (s\<lparr>proc_list := [], hash_list := (\<lambda>_. [])\<rparr>)))\<lparr>idleproc := idle\<rparr>);
        s4 = set_proc_name idle ''idle'' (upd_proc idle (\<lambda>r. r\<lparr>p_filesp := Some q\<rparr>) (s2\<lparr>fsys := files_count_inc q (snd (files_create kf us (fsys s2)))\<rparr>))
        in s4\<lparr>nr_process := nr_process s4 + 1, current := Some idle\<rparr>)"
    and f1: "kernel_thread T e1 sstatus entry init_main 0 0 s5 = Some (pid, s6)" "pid > 0"
    and f2: "kernel_thread T e2 sstatus entry kpu_task_ctrl 0 0 s6 = Some (pid2, s7)"
    and i: "find_proc pid s7 = Some init"
    and s': "s' = set_proc_name kpu ''kpu controller'' ((set_proc_name init ''init'' (s7\<lparr>initproc := Some init\<rparr>))\<lparr>kpu_task_ctrl_proc := Some kpu\<rparr>)"
    using assms(3) by (auto simp: proc_init_def bind_Some_iff Let_def alloc_proc_def files_create_def split: option.splits if_splits)
  have c5: "current s5 = Some idle" "idleproc s5 = idle" "proc_heap s5 = {idle}" "proc_list s5 = []"
    "p_state (proc_of idle s5) = PROC_RUNNABLE" "known s5 = {idle}"
    using assms(1) by (auto simp: s5 Let_def ki alloc_proc_def set_proc_name_def boot_st_def known_def)
  have "proc_inv {} s5"
    by (rule idle_inv) (use assms(1) in \<open>auto simp: s5 Let_def ki alloc_proc_def set_proc_name_def boot_st_def alloc_proc_init_def\<close>)
  moreover have "p \<notin> proc_heap s5" if "k_proc e1 = Some p" for p using that c5(3) assms(2) ki by auto
  ultimately obtain p1 where p1: "proc_inv {} s6" "k_proc e1 = Some p1" "proc_list s6 = [p1]" "p_pid (proc_of p1 s6) = pid"
    "p_parent (proc_of p1 s6) = Some idle" "p_state (proc_of p1 s6) = PROC_RUNNABLE" "current s6 = Some idle" "idleproc s6 = idle"
    using do_fork_inv [OF f1(1) [unfolded kernel_thread_def] _ c5(1)] c5 f1(2) by auto
  have k6: "known s6 = {idle, p1}" using p1 by (auto simp: known_def)
  have nz: "p_state (proc_of idle s6) \<noteq> PROC_ZOMBIE" using p1(1,8) by (auto simp: proc_inv_def family_inv_def)
  have h6: "proc_heap s6 = {idle, p1}" using p1(1) k6 by (auto simp: proc_inv_def table_inv_def)
  have "p \<notin> proc_heap s6" if "k_proc e2 = Some p" for p using that h6 p1(2) assms(2) ki by auto
  then have r2: "proc_inv {} s7" "p_parent (proc_of p1 s7) = Some idle" "p_state (proc_of p1 s7) \<noteq> PROC_ZOMBIE" "p1 \<in> set (proc_list s7)"
    "idleproc s7 = idle" "p_pid (proc_of p1 s7) = pid"
    using do_fork_inv [OF f2 [unfolded kernel_thread_def] p1(1) p1(7) _ nz] k6 p1 by (auto split: if_splits)
  have "find_proc pid s7 = Some p1" using r2 find_proc_exact [of "{}" s7] by (simp add: proc_inv_def)
  then have "init = p1" using i by simp
  then show ?thesis unfolding s' using r2 by (intro name_inv kpu_inv initproc_inv) auto
qed

section \<open>Adoption always ends\<close>

text \<open>
  The run queue holds the runnable processes, and the init process may join it: then the loop that hands the children
  over returns, and if one of them is a zombie, the init process, waiting for children, is woken.
\<close>

definition wake_ready :: "ptr \<Rightarrow> 'w proc_st \<Rightarrow> bool" where
  "wake_ready init s \<longleftrightarrow> stride_rep (runnable_set s) s \<and> p_state (proc_of init s) \<noteq> PROC_ZOMBIE \<and>
     (p_state (proc_of init s) \<noteq> PROC_RUNNABLE \<longrightarrow> stride_fits (runnable_set s) s init)"

lemma adopt_one_ready: "wake_ready init (adopt_one cur init p s) \<longleftrightarrow> wake_ready init s"
proof -
  have r: "runnable_set (adopt_one cur init p s) = runnable_set s" by (simp add: runnable_set_def)
  have "stride_rep A (adopt_one cur init p s) \<longleftrightarrow> stride_rep A s" for A
    by (rule iffI; erule stride.rep_frame) simp_all
  moreover have "stride_fits A (adopt_one cur init p s) init \<longleftrightarrow> stride_fits A s init" for A
    by (rule iffI; erule stride.fits_cong) simp_all
  ultimately show ?thesis by (simp add: wake_ready_def r)
qed

lemma wake_ready_wakeup:
  assumes "wake_ready init s"
  shows "\<exists>s'. wakeup_proc default_sched_class init s = Some s' \<and> wake_ready init s' \<and> p_state (proc_of init s') = PROC_RUNNABLE \<and>
    (\<forall>q. q \<noteq> init \<longrightarrow> proc_of q s' = proc_of q s)"
  using stride.wakeup_ok [of s init] assms unfolding wake_ready_def by auto

lemma adopt_loop_returns:
  assumes "wake_ready init s" "cur \<noteq> init" "init \<notin> set ks" "cur \<notin> set ks" "distinct (ks @ js)"
    "sib_seg (procs s) y (p_cptr (proc_of cur s)) ks None" "sib_seg (procs s) None (p_cptr (proc_of init s)) js None"
  shows "\<exists>s'. adopt_loop cur init s = Some s' \<and> wake_ready init s' \<and>
    ((p_state (proc_of init s) = PROC_RUNNABLE \<or> p_wait_state (proc_of init s) = WT_CHILD \<and>
      (\<exists>k\<in>set ks. p_state (proc_of k s) = PROC_ZOMBIE)) \<longrightarrow> p_state (proc_of init s') = PROC_RUNNABLE)"
  using assms
proof (induction ks arbitrary: s y js)
  case Nil
  then show ?case by (subst adopt_loop.simps) auto
next
  case (Cons k ks)
  let ?s4 = "adopt_one cur init k s"
  have c: "p_cptr (proc_of cur s) = Some k" using Cons.prems(6) by simp
  note st = adopt_step [OF Cons.prems(2-7)]
  obtain s5 where s5: "(if p_state (proc_of k ?s4) = PROC_ZOMBIE \<and> p_wait_state (proc_of init ?s4) = WT_CHILD
      then wakeup_proc default_sched_class init ?s4 else Some ?s4) = Some s5" "wake_ready init s5"
    "\<And>q. q \<noteq> init \<Longrightarrow> p_state (proc_of q s5) = p_state (proc_of q s)"
    "p_state (proc_of init s) = PROC_RUNNABLE \<or> p_state (proc_of k s) = PROC_ZOMBIE \<and> p_wait_state (proc_of init s) = WT_CHILD \<Longrightarrow>
      p_state (proc_of init s5) = PROC_RUNNABLE"
    "p_state (proc_of init s5) = PROC_RUNNABLE \<or> p_wait_state (proc_of init s5) = p_wait_state (proc_of init s)"
  proof (cases "p_state (proc_of k s) = PROC_ZOMBIE \<and> p_wait_state (proc_of init s) = WT_CHILD")
    case True
    obtain t where t: "wakeup_proc default_sched_class init ?s4 = Some t" "wake_ready init t" "p_state (proc_of init t) = PROC_RUNNABLE"
      "\<forall>q. q \<noteq> init \<longrightarrow> proc_of q t = proc_of q ?s4"
      using wake_ready_wakeup [of init ?s4] Cons.prems(1) adopt_one_ready by blast
    show ?thesis by (rule that [of t]) (use True t in auto)
  next
    case False
    then show ?thesis using Cons.prems(1) adopt_one_ready by (intro that [of ?s4]) auto
  qed
  have seg: "sib_seg (procs s5) (Some k) (p_cptr (proc_of cur s5)) ks None"
    "sib_seg (procs s5) None (p_cptr (proc_of init s5)) (k # js) None"
    using st [OF s5(1)] by auto
  obtain s' where s': "adopt_loop cur init s5 = Some s'" "wake_ready init s'"
    "p_state (proc_of init s5) = PROC_RUNNABLE \<or> p_wait_state (proc_of init s5) = WT_CHILD \<and>
      (\<exists>k\<in>set ks. p_state (proc_of k s5) = PROC_ZOMBIE) \<Longrightarrow> p_state (proc_of init s') = PROC_RUNNABLE"
    using Cons.IH [OF s5(2) Cons.prems(2) _ _ _ seg] Cons.prems(3-5) by auto
  have "adopt_loop cur init s = Some s'"
    using s5(1) s'(1) by (subst adopt_loop.simps) (simp add: c Let_def)
  moreover have "p_state (proc_of q s5) = p_state (proc_of q s)" if "q \<in> set ks" for q
    using that Cons.prems(3) by (intro s5(3)) auto
  ultimately show ?case
    using s' s5(4,5) by (metis set_ConsD)
qed

section \<open>Properties\<close>

text \<open>
  C28. \<open>get_pid\<close> returns: while fewer than 8191 processes are listed, its search over the process list ends, with a pid
  between 1 and 8191 that no listed process has.  When the process that receives the pid is put on the list, the
  interval that \<open>last_pid\<close> and \<open>next_safe\<close> remember is again free of pids, so the next calls may use it.
\<close>

theorem get_pid_fresh:
  assumes "pid_gap s" "int (length (proc_list s)) < MAX_PID - 1" "p \<notin> set (proc_list s)"
  shows "\<exists>pid s'. get_pid s = Some (pid, s') \<and> 1 \<le> pid \<and> pid < MAX_PID \<and> pid \<notin> pids s \<and>
    pid_gap (upd_proc p (\<lambda>q. q\<lparr>p_pid := pid\<rparr>) (s'\<lparr>proc_list := p # proc_list s\<rparr>))"
proof -
  obtain pid n where g: "get_pid s = Some (pid, s\<lparr>last_pid := pid, next_safe := n\<rparr>)" "1 \<le> pid" "pid < MAX_PID"
    "pid \<notin> pids s" "n \<le> MAX_PID" "\<forall>q\<in>pids s. \<not> (pid < q \<and> q < n)"
    using get_pid_ok [OF assms(1,2)] by blast
  then show ?thesis using assms(3) by (fastforce simp: pid_gap_def pids_def upd_proc_def)
qed

definition family_member :: "int \<Rightarrow> ptr option \<Rightarrow> ptr option \<Rightarrow> proc_state \<Rightarrow> u32 \<Rightarrow> proc_struct" where
  "family_member pid par kid st w = (alloc_proc_init 0)\<lparr>p_pid := pid, p_parent := par, p_cptr := kid, p_state := st, p_wait_state := w\<rparr>"

definition example_family :: "unit proc_st" where
  "example_family = \<lparr>
     procs = (\<lambda>p. if p = 0 then family_member 0 None (Some 1) PROC_RUNNABLE 0
       else if p = 1 then family_member 1 (Some 0) (Some 2) PROC_SLEEPING WT_CHILD
       else if p = 2 then family_member 2 (Some 1) (Some 3) PROC_RUNNABLE 0
       else if p = 3 then family_member 3 (Some 2) None PROC_ZOMBIE 0 else alloc_proc_init 0),
     current = Some 2, cr3_reg = 0, idleproc = 0,
     run_q = \<lparr>proc_num = 0, max_time_slice = 5, lab6_run_pool = None\<rparr>,
     pools = \<lparr>sparent = \<lambda>_. None, sleft = \<lambda>_. None, sright = \<lambda>_. None\<rparr>,
     timers = (\<lambda>_. \<lparr>t_expires = 1, t_proc = None\<rparr>), timer_list = [], kpu_task_ctrl_proc = None,
     proc_list = [3, 2, 1], hash_list = (\<lambda>h. filter (\<lambda>p. pid_hashfn (int p) = h) [3, 2, 1]), nr_process = 4,
     next_safe = MAX_PID, last_pid = 3, initproc = Some 1, proc_heap = {0, 1, 2, 3},
     contexts = (\<lambda>_. \<lparr>c_ra = 0, c_sp = 0, c_s = \<lambda>_. 0\<rparr>), tf_ptrs = (\<lambda>_. 0),
     tframes = (\<lambda>_. \<lparr>gpr_sp = 0, gpr_s0 = 0, gpr_s1 = 0, gpr_a0 = 0, gpr_other = \<lambda>_. 0, tf_status = 0, tf_epc = 0, tf_tval = 0,
       tf_cause = 0\<rparr>),
     mms = Map.empty, mm_locked = (\<lambda>_. None),
     swp = \<lparr>vm = example_vm (\<lambda>_ _. 0), pra_list = [], pra_vaddr = (\<lambda>_. 0), slots = (\<lambda>_ _. 0), max_swap_offset = 16\<rparr>,
     fsys = \<lparr>kmem = (\<lambda>_. 0), ide_devices = (\<lambda>_. \<lparr>ide_valid = False, ide_sets = 0, ide_size = 0, iobase = 0\<rparr>), disk0_buffer = 0,
       disk0_locked = False, inodes = Map.empty, files = Map.empty, filesp = None, bootfs_node = None, vdev_list = [],
       locks = (\<lambda>_. False), console = []\<rparr>,
     boot_cr3 = 0, boot_pgdir = 0\<rparr>"

lemma example_family_inv: "proc_inv {} example_family"
proof -
  let ?kids = "\<lambda>p::ptr. if p = 0 then [1] else if p = 1 then [2] else if p = 2 then [3] else []"
  have k: "known example_family = {0, 1, 2, 3}" by (auto simp: known_def example_family_def)
  have "family example_family ?kids"
    unfolding family_def k by (auto simp: example_family_def family_member_def alloc_proc_init_def)
  moreover have "table_inv {} example_family"
    unfolding table_inv_def k
    by (auto simp: example_family_def family_member_def alloc_proc_init_def inj_on_def pid_gap_def MAX_PID_def MAX_PROCESS_def)
  ultimately show ?thesis
    unfolding proc_inv_def family_inv_def k by (auto simp: example_family_def family_member_def alloc_proc_init_def)
qed

theorem get_pid_fresh_witness:
  "\<exists>pid s'. get_pid example_family = Some (pid, s') \<and> 1 \<le> pid \<and> pid < MAX_PID \<and> pid \<notin> pids example_family \<and>
    pid_gap (upd_proc 9 (\<lambda>q. q\<lparr>p_pid := pid\<rparr>) (s'\<lparr>proc_list := 9 # proc_list example_family\<rparr>))"
proof (rule get_pid_fresh)
  show "pid_gap example_family" using example_family_inv by (simp add: proc_inv_def table_inv_def)
  show "int (length (proc_list example_family)) < MAX_PID - 1" "9 \<notin> set (proc_list example_family)"
    by (simp_all add: example_family_def MAX_PID_def MAX_PROCESS_def)
qed

text \<open>
  C29. \<open>proc_init\<close> establishes and every operation keeps the agreement of the process manager's tables.  In whatever order the processes fork, exit, wait, kill, sleep and yield and the scheduler switches
  between them: the allocated process structures are exactly the idle process and
  those on the process list, counted by \<open>nr_process\<close>; every listed process has a pid of its own and is on the hash list of
  that pid only; \<open>cptr\<close>, \<open>optr\<close> and \<open>yptr\<close> link the children of every process, which are the processes that name it as their
  parent; every listed process has a parent that exists; zombies have no children.
\<close>

theorem process_tables_invariant:
  "(boot_st s0 \<and> distinct [ki, k_proc e1, k_proc e2] \<and>
      proc_init T ki kf us e1 e2 sstatus entry bootstack init_main kpu_task_ctrl s0 = Some s \<longrightarrow> proc_inv {} s) \<and>
   (proc_inv {} s \<and> (proc_step T)\<^sup>*\<^sup>* s s' \<longrightarrow> proc_inv {} s')"
proof -
  have "(proc_step T)\<^sup>*\<^sup>* s s' \<Longrightarrow> proc_inv {} s \<Longrightarrow> proc_inv {} s'"
    by (induction rule: rtranclp_induct) (blast intro: proc_step_inv)+
  then show ?thesis using proc_init_inv by blast
qed

theorem process_tables_invariant_witness:
  "\<exists>T s'. (proc_step T)\<^sup>*\<^sup>* example_family s' \<and> current s' = Some 1 \<and> p_cptr (proc_of 1 s') = Some 3 \<and> proc_inv {} s'"
proof -
  fix T
  obtain s' where s': "do_exit T 0 example_family = Some s'" "current s' = Some 1" "p_cptr (proc_of 1 s') = Some 3"
  proof -
    have "case do_exit T 0 example_family of Some s \<Rightarrow> current s = Some 1 \<and> p_cptr (proc_of 1 s) = Some 3 | None \<Rightarrow> False"
      by code_simp
    then show ?thesis using that by (auto split: option.splits)
  qed
  have "runs example_family 2"
    by (simp add: runs_def known_def example_family_def family_member_def)
  then have st: "(proc_step T)\<^sup>*\<^sup>* example_family s'" using s'(1) by (blast intro: proc_step.exit)
  from example_family_inv st have "proc_inv {} s'"
    by (blast intro: process_tables_invariant [THEN conjunct2, THEN mp])
  then show ?thesis using st s' by blast
qed

text \<open>
  C30. \<open>do_wait\<close>'s search always ends and is right: it finds a zombie child that the caller waits for, any child if the pid is
  zero and otherwise the one with that pid, if there is one; it goes to sleep only if there is such a child and none is a
  zombie; and it reports \<^verbatim>\<open>-E_BAD_PROC\<close> only if there is none.
\<close>

theorem wait_scan_exact:
  assumes "proc_inv {} s" "cur \<in> known s"
  shows "\<exists>r. wait_scan_pass pid cur s = Some r \<and> (case r of
      Found p \<Rightarrow> p \<in> awaited pid cur s \<and> p_state (proc_of p s) = PROC_ZOMBIE
    | Has_kid \<Rightarrow> awaited pid cur s \<noteq> {} \<and> (\<forall>p\<in>awaited pid cur s. p_state (proc_of p s) \<noteq> PROC_ZOMBIE)
    | No_kid \<Rightarrow> awaited pid cur s = {})"
  by (rule wait_scan_ok [OF assms])

theorem wait_scan_exact_witness: "wait_scan_pass 3 2 example_family = Some (Found 3) \<and> 3 \<in> awaited 3 2 example_family"
proof -
  have w: "wait_scan_pass 3 2 example_family = Some (Found 3)" by code_simp
  have "2 \<in> known example_family" by (simp add: known_def example_family_def)
  from wait_scan_exact [OF example_family_inv this, of 3] w show ?thesis by auto
qed

text \<open>The loop over the children, run for a process that is already marked as a zombie and still has its children.\<close>

lemma adopt_all:
  assumes fi: "family_inv {cur} s" and fam: "family s kids" and i0: "initproc s = Some init"
    and c: "cur \<in> known s" "cur \<noteq> init" "cur \<noteq> idleproc s" and w: "wake_ready init s"
  shows "\<exists>s'. adopt_loop cur init s = Some s' \<and> adopted cur init (kids cur) (kids init) s s' \<and>
    family s' (kids(cur := [], init := rev (kids cur) @ kids init)) \<and> stride_rep (runnable_set s') s' \<and>
    ((p_state (proc_of init s) = PROC_RUNNABLE \<or> p_wait_state (proc_of init s) = WT_CHILD \<and>
      (\<exists>k\<in>set (kids cur). p_state (proc_of k s) = PROC_ZOMBIE)) \<longrightarrow> p_state (proc_of init s') = PROC_RUNNABLE)"
proof -
  have i: "init \<in> known s" "p_parent (proc_of init s) = Some (idleproc s)"
    using fi i0 by (auto simp: family_inv_def known_def)
  have kp: "sib_seg (procs s) None (p_cptr (proc_of q s)) (kids q) None" "distinct (kids q)"
    "set (kids q) = {k \<in> set (proc_list s). p_parent (proc_of k s) = Some q}" if "q \<in> known s" for q
    using fam that by (auto simp: family_def)
  have "cur \<notin> set (kids cur)" "init \<notin> set (kids cur)" "distinct (kids cur @ kids init)"
    using fi kp(2,3) [OF c(1)] kp(2,3) [OF i(1)] i(2) c(2,3) by (auto simp: family_inv_def)
  note pre = c(2) this(2,1,3) kp(1) [OF c(1)] kp(1) [OF i(1)]
  obtain s' where s': "adopt_loop cur init s = Some s'" "wake_ready init s'"
    "(p_state (proc_of init s) = PROC_RUNNABLE \<or> p_wait_state (proc_of init s) = WT_CHILD \<and>
      (\<exists>k\<in>set (kids cur). p_state (proc_of k s) = PROC_ZOMBIE)) \<longrightarrow> p_state (proc_of init s') = PROC_RUNNABLE"
    using adopt_loop_returns [OF w pre] by blast
  have ad: "adopted cur init (kids cur) (kids init) s s'" by (rule adopt_loop_spec [OF s'(1) pre])
  show ?thesis
    using s' ad adopt_family [OF fam ad c(1) i(1) c(2)] by (auto simp: wake_ready_def)
qed

text \<open>The step before it: the parent, if it waits for a child, is woken.\<close>

lemma wake_parent:
  assumes "stride_rep (runnable_set s) s" "strides_close W s" "insert par (runnable_set s) \<subseteq> W" "p_state (proc_of par s) \<noteq> PROC_ZOMBIE"
  shows "\<exists>s'. (if p_wait_state (proc_of par s) = WT_CHILD then wakeup_proc default_sched_class par s else Some s) = Some s' \<and>
    tab_eq s s' \<and> stride_rep (runnable_set s') s' \<and> strides_close W s' \<and> runnable_set s' \<subseteq> W \<and>
    (p_wait_state (proc_of par s) = WT_CHILD \<longrightarrow> p_state (proc_of par s') = PROC_RUNNABLE) \<and>
    (p_wait_state (proc_of par s) \<noteq> WT_CHILD \<longrightarrow> proc_of par s' = proc_of par s) \<and> (\<forall>q. q \<noteq> par \<longrightarrow> proc_of q s' = proc_of q s)"
proof (cases "p_wait_state (proc_of par s) = WT_CHILD")
  case True
  obtain s' where s': "wakeup_proc default_sched_class par s = Some s'" "stride_rep (runnable_set s') s'"
    "p_state (proc_of par s') = PROC_RUNNABLE" "current s' = current s" "idleproc s' = idleproc s"
    "\<forall>q. q \<noteq> par \<longrightarrow> proc_of q s' = proc_of q s" "p_lab6_stride (proc_of par s') = p_lab6_stride (proc_of par s)"
    by (rule wakeup_stride [OF assms(1,4,2,3)]) blast
  have "p_lab6_stride (proc_of q s') = p_lab6_stride (proc_of q s)" for q using s'(6,7) by (cases "q = par") simp_all
  then have "strides_close W s'" using assms(2) by (simp add: strides_close_def stride_window_def)
  moreover have "runnable_set s' \<subseteq> insert par (runnable_set s)"
  proof
    fix q assume "q \<in> runnable_set s'"
    then show "q \<in> insert par (runnable_set s)" using s'(4-6) by (cases "q = par") (simp_all add: runnable_set_def)
  qed
  ultimately show ?thesis
    using True s' wakeup_tab [OF s'(1)] assms(3) by (intro exI [of _ s']) auto
qed (use assms in auto)

text \<open>
  C31. When a process exits (\<open>do_exit\<close>, from the line that makes it a zombie to the call of the scheduler), its parent, if it waits for a child,
  is runnable afterwards.  The loop over its children ends, whatever their number, and hands all of them to the init
  process: the children of init are then the orphans, youngest last, followed by its own, and the exiting process, a zombie, has none.
  If one of the orphans is a zombie and init waits for a child, init is runnable afterwards too.  The run queue still
  holds exactly the runnable processes.  (The strides of the runnable processes, of the parent and of init lie in one window.)
\<close>

theorem orphans_go_to_init:
  fixes s :: "'w proc_st" and cur :: ptr and code :: int
  defines "z \<equiv> upd_proc cur (\<lambda>q. q\<lparr>p_state := PROC_ZOMBIE, p_exit_code := code\<rparr>) s"
  assumes "proc_inv {} s" "family s kids" "initproc s = Some init" "current s = Some cur" "cur \<in> set (proc_list s)" "cur \<noteq> init"
    and "p_parent (proc_of cur s) = Some par" "stride_rep (runnable_set s) s" "strides_close W s" "{init, par} \<union> runnable_set s \<subseteq> W"
  shows "\<exists>s'. exit_relations cur z = Some s' \<and> family s' (kids(cur := [], init := rev (kids cur) @ kids init)) \<and>
    proc_list s' = proc_list s \<and> known s' = known s \<and> p_state (proc_of cur s') = PROC_ZOMBIE \<and>
    (p_wait_state (proc_of par s) = WT_CHILD \<longrightarrow> p_state (proc_of par s') = PROC_RUNNABLE) \<and>
    (p_wait_state (proc_of init s) = WT_CHILD \<and> (\<exists>k\<in>set (kids cur). p_state (proc_of k s) = PROC_ZOMBIE) \<longrightarrow>
      p_state (proc_of init s') = PROC_RUNNABLE) \<and>
    stride_rep (runnable_set s') s'"
proof -
  let ?z = z
  have fi: "family_inv {} s" and kn: "cur \<in> known s" "cur \<noteq> idleproc s"
    using assms(2,6) by (auto simp: proc_inv_def known_def table_inv_def)
  have z: "proc_of cur ?z = (proc_of cur s)\<lparr>p_state := PROC_ZOMBIE, p_exit_code := code\<rparr>" "\<And>q. q \<noteq> cur \<Longrightarrow> proc_of q ?z = proc_of q s"
    "run_q ?z = run_q s" "pools ?z = pools s" "current ?z = current s" "idleproc ?z = idleproc s" "tab_eq s ?z"
    by (auto simp: z_def tab_eq_def lnk_def)
  have str: "p_lab6_stride (proc_of q ?z) = p_lab6_stride (proc_of q s)" "p_rq (proc_of q ?z) = p_rq (proc_of q s)" for q
    using z(1,2) by (cases "q = cur"; simp)+
  have rz: "runnable_set ?z = runnable_set s"
    using assms(5) z(2,5,6) by (auto simp: runnable_set_def)
  have par: "par \<in> known s" "par \<noteq> cur" "p_state (proc_of par s) \<noteq> PROC_ZOMBIE"
    by (rule parent_alive [OF assms(2,6,8)])+
  have rep: "stride_rep (runnable_set ?z) ?z" unfolding rz by (rule stride.rep_frame [OF assms(9)]) (simp_all add: z str)
  have cl: "strides_close W ?z" using assms(10) by (simp add: strides_close_def stride_window_def str)
  obtain s1 where s1: "(if p_wait_state (proc_of par ?z) = WT_CHILD then wakeup_proc default_sched_class par ?z else Some ?z) = Some s1"
    "tab_eq ?z s1" "stride_rep (runnable_set s1) s1" "strides_close W s1" "runnable_set s1 \<subseteq> W"
    "p_wait_state (proc_of par s) = WT_CHILD \<longrightarrow> p_state (proc_of par s1) = PROC_RUNNABLE"
    "p_wait_state (proc_of par s) \<noteq> WT_CHILD \<longrightarrow> proc_of par s1 = proc_of par s" "\<forall>q. q \<noteq> par \<longrightarrow> proc_of q s1 = proc_of q ?z"
    using wake_parent [OF rep cl, of par] assms(11) par(2,3) unfolding rz z(2) [OF par(2)] by blast
  have t1: "tab_eq s s1" by (rule tab_eq_trans [OF z(7) s1(2)])
  have fam: "family s1 kids" by (rule family_tab [OF t1 assms(3)])
  have fi1: "family_inv {cur} s1"
  proof (rule family_inv_tab [OF s1(2)])
    show "family_inv {cur} ?z" unfolding z_def using zombie_family_inv [OF assms(2) kn(2)] assms(4,7) by simp
    show "p_state (proc_of q ?z) = PROC_ZOMBIE" if "p_state (proc_of q s1) = PROC_ZOMBIE" for q
      using that s1(6-8) z(2) [OF par(2)] by (cases "q = par"; cases "p_wait_state (proc_of par s) = WT_CHILD") auto
  qed
  have "p_state (proc_of init s1) \<noteq> PROC_ZOMBIE" using fi1 assms(4) by (simp add: family_inv_def tab_eqD [OF t1])
  then have w1: "wake_ready init s1"
    using s1(3) strides_close_fits [OF s1(4), of init "runnable_set s1"] s1(5) assms(11) by (simp add: wake_ready_def)
  obtain s' where s': "adopt_loop cur init s1 = Some s'" "adopted cur init (kids cur) (kids init) s1 s'"
    "family s' (kids(cur := [], init := rev (kids cur) @ kids init))" "stride_rep (runnable_set s') s'"
    "(p_state (proc_of init s1) = PROC_RUNNABLE \<or> p_wait_state (proc_of init s1) = WT_CHILD \<and>
      (\<exists>k\<in>set (kids cur). p_state (proc_of k s1) = PROC_ZOMBIE)) \<longrightarrow> p_state (proc_of init s') = PROC_RUNNABLE"
    using adopt_all [OF fi1 fam, of init] w1 kn assms(4,7) by (auto simp: tab_eqD [OF t1] known_tab [OF t1])
  have ex: "exit_relations cur ?z = Some s'"
  proof -
    have "s1 = s'" if "p_cptr (proc_of cur s1) = None" using s'(1) that by (subst (asm) adopt_loop.simps) simp
    then show ?thesis using s1(1) s'(1) assms(4,8) by (simp add: exit_relations_def tab_eqD [OF z(7)] tab_eqD [OF t1])
  qed
  note ad = s'(2) [unfolded adopted_def]
  have st: "p_state (proc_of q s') = p_state (proc_of q s1)" if "q \<noteq> init" for q using ad that by blast
  have si: "p_state (proc_of init s1) = PROC_RUNNABLE \<Longrightarrow> p_state (proc_of init s') = PROC_RUNNABLE" using s'(5) by blast
  have "p_state (proc_of cur s') = PROC_ZOMBIE" using st [OF assms(7)] s1(8) par(2) z(1) by auto
  moreover have "proc_list s' = proc_list s" "known s' = known s" using ad by (simp_all add: known_def tab_eqD [OF t1])
  moreover have "p_state (proc_of par s') = PROC_RUNNABLE" if "p_wait_state (proc_of par s) = WT_CHILD"
    using that s1(6) st [of par] si by (cases "par = init") auto
  moreover have "p_state (proc_of init s') = PROC_RUNNABLE"
    if iw: "p_wait_state (proc_of init s) = WT_CHILD" and k: "k \<in> set (kids cur)" "p_state (proc_of k s) = PROC_ZOMBIE" for k
  proof (cases "init = par")
    case True
    then show ?thesis using iw s1(6) si by simp
  next
    case False
    have "proc_of init s1 = proc_of init s" using False s1(8) z(2) assms(7) by simp
    moreover have "k \<noteq> par" using k(2) par(3) by auto
    then have "p_state (proc_of k s1) = PROC_ZOMBIE" using k(2) s1(8) z by (cases "k = cur") auto
    ultimately show ?thesis using s'(5) iw k(1) by auto
  qed
  ultimately show ?thesis using ex s'(3,4) by blast
qed

theorem orphans_go_to_init_witness:
  "\<exists>s'. exit_relations 2 (upd_proc 2 (\<lambda>q. q\<lparr>p_state := PROC_ZOMBIE, p_exit_code := 0\<rparr>) example_family) = Some s' \<and>
    p_state (proc_of 1 s') = PROC_RUNNABLE \<and> p_cptr (proc_of 1 s') = Some 3 \<and> p_cptr (proc_of 2 s') = None"
proof -
  let ?kids = "\<lambda>p::ptr. if p = 0 then [1] else if p = 1 then [2] else if p = 2 then [3] else []"
  have k: "known example_family = {0, 1, 2, 3}" by (auto simp: known_def example_family_def)
  have r: "runnable_set example_family = {}"
    by (auto simp: runnable_set_def example_family_def family_member_def alloc_proc_init_def split: if_splits)
  have f: "family example_family ?kids"
    unfolding family_def k by (auto simp: example_family_def family_member_def alloc_proc_init_def)
  have rep: "stride_rep (runnable_set example_family) example_family"
    unfolding r by (rule stride_rep_empty) (simp_all add: example_family_def)
  have c: "strides_close {1} example_family"
    by (auto simp: strides_close_def stride_window_def intro!: exI [of _ "p_lab6_stride (proc_of 1 example_family)"])
  have e: "initproc example_family = Some 1" "current example_family = Some 2" "2 \<in> set (proc_list example_family)"
    "p_parent (proc_of 2 example_family) = Some 1" "p_wait_state (proc_of 1 example_family) = WT_CHILD"
    by (simp_all add: example_family_def family_member_def)
  obtain s' where s': "exit_relations 2 (upd_proc 2 (\<lambda>q. q\<lparr>p_state := PROC_ZOMBIE, p_exit_code := 0\<rparr>) example_family) = Some s'"
    "family s' (?kids(2 := [], 1 := rev (?kids 2) @ ?kids 1))" "p_state (proc_of 1 s') = PROC_RUNNABLE" "known s' = known example_family"
    using orphans_go_to_init [OF example_family_inv f e(1-3) _ e(4) rep c, of 0] e(5) by (auto simp: r)
  then show ?thesis by (auto simp: family_def k)
qed

end
