(* ===== verification/SyscallIO.thy ===== *)
theory SyscallIO
  imports Sysfile Dev ProcLife
begin

text \<open>
  Properties of the write system call, from the caller's memory through the memory map, the kernel buffer and the file layer
  to the device.
\<close>

section \<open>Copying from the caller\<close>

text \<open>The running process \<open>cur\<close> has the memory map \<open>mm\<close>, which nobody has locked.\<close>

definition user_ctx :: "'w proc_st \<Rightarrow> ptr \<Rightarrow> ptr \<Rightarrow> mm_struct \<Rightarrow> bool" where
  "user_ctx s cur m mm \<longleftrightarrow> current s = Some cur \<and> p_mm (proc_of cur s) = Some m \<and> mms s m = Some mm \<and> mm_ok mm \<and> mm_locked s m = None"

text \<open>The \<open>n\<close> bytes at \<open>base\<close> are user memory that the process may read.\<close>

definition user_readable :: "vma_struct list \<Rightarrow> u64 \<Rightarrow> u64 \<Rightarrow> bool" where
  "user_readable vmas base n \<longleftrightarrow> USER_ACCESS base (base + n) \<and> (\<forall>mm. mmap_list mm = vmas \<longrightarrow>
     (\<forall>a. base \<le> a \<longrightarrow> a < base + n \<longrightarrow> accessible mm False a))"

lemma user_readable_bounds:
  assumes "user_readable vmas base n"
  shows "unat (base + n) = unat base + unat n" "unat base + unat n \<le> 0x80000000"
proof -
  have *: "base < base + n" "base + n \<le> USERTOP" using assms by (auto simp: user_readable_def USER_ACCESS_def)
  then show "unat (base + n) = unat base + unat n" by (metis less_imp_le unat_plus_simple)
  then show "unat base + unat n \<le> 0x80000000" using *(2) by (simp add: USERTOP_def word_le_nat_alt)
qed

lemma user_readable_part:
  assumes "user_readable vmas base n" "unat d + unat k \<le> unat n" "k \<noteq> 0"
  shows "user_readable vmas (base + d) k"
proof -
  note b = user_readable_bounds [OF assms(1)]
  have d: "unat (base + d) = unat base + unat d" using b assms(2) by (simp add: unat_word_ariths)
  have dk: "unat (base + d + k) = unat base + unat d + unat k" using b d assms(2) by (simp add: unat_word_ariths)
  have k: "unat k > 0" using assms(3) by (simp add: unat_gt_0)
  have "USER_ACCESS (base + d) (base + d + k)"
    using assms(1,2) b d dk k by (auto simp: user_readable_def USER_ACCESS_def word_le_nat_alt word_less_nat_alt USERTOP_def)
  moreover have "accessible mm False a" if "mmap_list mm = vmas" "base + d \<le> a" "a < base + d + k" for mm a
  proof -
    have "base \<le> a" "a < base + n" using that b d dk assms(2) by (auto simp: word_le_nat_alt word_less_nat_alt)
    then show ?thesis using assms(1) that(1) by (auto simp: user_readable_def)
  qed
  ultimately show ?thesis by (simp add: user_readable_def)
qed

lemma copy_in_ok:
  assumes "user_ctx s cur m mm" "user_readable (mmap_list mm) base n"
  shows "\<exists>mm'. with_mm (\<lambda>mm. copy_from_user mm buffer base n False) s = Some (True, s\<lparr>mms := (mms s)(m \<mapsto> mm'),
      fsys := (fsys s)\<lparr>kmem := memcpy (unat buffer) (unat base) (unat n) (kmem (fsys s))\<rparr>\<rparr>) \<and>
    mm_ok mm' \<and> mmap_list mm' = mmap_list mm"
proof -
  obtain mm' where u: "user_check_loop mm base (base + n) False = Some (True, mm')" "mm_ok mm'" "mmap_list mm' = mmap_list mm"
    using user_check_loop_ok [of mm base "base + n" False] assms by (auto simp: user_ctx_def user_readable_def)
  have l: "(mm_locked s)(m := None) = mm_locked s" using assms(1) by (auto simp: user_ctx_def)
  have "with_mm (\<lambda>mm. copy_from_user mm buffer base n False) s = Some (True, s\<lparr>mms := (mms s)(m \<mapsto> mm'),
      fsys := (fsys s)\<lparr>kmem := memcpy (unat buffer) (unat base) (unat n) (kmem (fsys s))\<rparr>\<rparr>)"
    using assms u l by (simp add: with_mm_def lock_current_mm_def unlock_current_mm_def lock_mm_def unlock_mm_def copy_from_user_def
        user_mem_check_def user_ctx_def user_readable_def Let_def)
  then show ?thesis using u by blast
qed

lemma user_ctx_upd:
  "user_ctx s cur m mm \<Longrightarrow> mm_ok mm' \<Longrightarrow> user_ctx (s\<lparr>mms := (mms s)(m \<mapsto> mm'), fsys := w\<rparr>) cur m mm'"
  by (simp add: user_ctx_def)

section \<open>Descriptors other than 1 and 2\<close>

lemma other_fd_loop:
  assumes "syswrite_loop T fd buffer base len copied s = Some r"
  shows "fd \<noteq> 1 \<Longrightarrow> fd \<noteq> 2 \<Longrightarrow> len \<noteq> 0 \<Longrightarrow> user_ctx s cur m mm \<Longrightarrow> user_readable (mmap_list mm) base len \<Longrightarrow> False"
proof -
  have "\<forall>mm. fd \<noteq> 1 \<longrightarrow> fd \<noteq> 2 \<longrightarrow> len \<noteq> 0 \<longrightarrow> user_ctx s cur m mm \<longrightarrow> user_readable (mmap_list mm) base len \<longrightarrow> False"
  proof (rule syswrite_loop.raw_induct [where P = "\<lambda>T fd buffer base len copied s r. \<forall>mm. fd \<noteq> 1 \<longrightarrow> fd \<noteq> 2 \<longrightarrow> len \<noteq> 0 \<longrightarrow>
      user_ctx s cur m mm \<longrightarrow> user_readable (mmap_list mm) base len \<longrightarrow> False", OF _ assms], intro allI impI, goal_cases)
    case (1 loop T fd buffer base len copied s r mm)
    let ?n = "if IOBUF_SIZE > len then len else IOBUF_SIZE"
    have n: "?n \<noteq> 0" "unat ?n \<le> unat len" using 1(5) by (auto simp: IOBUF_SIZE_def word_le_nat_alt not_less)
    have "user_readable (mmap_list mm) base ?n"
      using user_readable_part [OF 1(7), of 0 ?n] n by simp
    from copy_in_ok [OF 1(6) this, of buffer] obtain mm' w where
      c: "with_mm (\<lambda>mm. copy_from_user mm buffer base ?n False) s = Some (True, s\<lparr>mms := (mms s)(m \<mapsto> mm'), fsys := w\<rparr>)"
      "mm_ok mm'" "mmap_list mm' = mmap_list mm" by blast
    have "loop T fd buffer base len copied (s\<lparr>mms := (mms s)(m \<mapsto> mm'), fsys := w\<rparr>) = Some r"
      using 1(2-5) c(1) by (simp add: Let_def)
    from 1(1) [OF this, rule_format, of mm'] 1(3-5,7) user_ctx_upd [OF 1(6) c(2), of w] c(3) show False by simp
  qed
  then show "fd \<noteq> 1 \<Longrightarrow> fd \<noteq> 2 \<Longrightarrow> len \<noteq> 0 \<Longrightarrow> user_ctx s cur m mm \<Longrightarrow> user_readable (mmap_list mm) base len \<Longrightarrow> False"
    by blast
qed

section \<open>Writing to the console\<close>

text \<open>Descriptor \<open>i\<close> is open for writing on the console.\<close>

definition console_fd :: "'a dev_st_scheme \<Rightarrow> int \<Rightarrow> ptr \<Rightarrow> nat \<Rightarrow> bool" where
  "console_fd w i q j \<longleftrightarrow> tabs_ok w \<and> fd2file i w = Some (Some (q, j)) \<and>
     (\<exists>f p n. file_at q j w = Some f \<and> f_writable f \<and> f_node f = Some p \<and> inodes w p = Some n \<and> inode_check n \<and>
        in_type n = inode_type_device_info \<and> d_driver (in_device n) = stdout_drv)"

lemma console_fd_kmem [simp]: "console_fd (w\<lparr>kmem := m\<rparr>) i q j = console_fd w i q j"
  by (simp add: console_fd_def tabs_ok_def fd2file_def file_at_def get_fd_array_def)

lemma console_fd_console [simp]: "console_fd (w\<lparr>console := c\<rparr>) i q j = console_fd w i q j"
  by (simp add: console_fd_def tabs_ok_def fd2file_def file_at_def get_fd_array_def)

lemma console_fd_pos:
  assumes "console_fd w i q j"
  shows "console_fd (upd_file q j (\<lambda>f. f\<lparr>f_pos := g f\<rparr>) w) i q j"
proof -
  obtain f p n where f: "tabs_ok w" "fd2file i w = Some (Some (q, j))" "file_at q j w = Some f" "f_writable f" "f_node f = Some p"
    "inodes w p = Some n" "inode_check n" "in_type n = inode_type_device_info" "d_driver (in_device n) = stdout_drv"
    using assms by (auto simp: console_fd_def)
  have "tabs_ok (upd_file q j (\<lambda>f. f\<lparr>f_pos := g f\<rparr>) w)"
    using f(1,3) file_at_ok [OF f(1,3)] by (intro tabs_ok_upd) (auto simp: file_ok_def)
  moreover have at: "file_at q j (upd_file q j (\<lambda>f. f\<lparr>f_pos := g f\<rparr>) w) = Some (f\<lparr>f_pos := g f\<rparr>)"
    by (rule file_at_upd [OF f(3)])
  moreover have "fd2file i (upd_file q j (\<lambda>f. f\<lparr>f_pos := g f\<rparr>) w) = Some (Some (q, j))"
  proof -
    have "get_fd_array (upd_file q j (\<lambda>f. f\<lparr>f_pos := g f\<rparr>) w) = get_fd_array w"
      by (auto simp: get_fd_array_def upd_file_def split: Option.bind_splits)
    then show ?thesis using f(2,3) at by (auto simp: fd2file_def bind_Some_iff split: if_splits)
  qed
  ultimately show ?thesis using f by (auto simp: console_fd_def upd_file_def)
qed

text \<open>The state of the file layer as the running process sees it.\<close>

definition fs_view :: "'w proc_st \<Rightarrow> ptr \<Rightarrow> 'w fs_st_scheme" where
  "fs_view s cur = (fsys s)\<lparr>filesp := p_filesp (proc_of cur s)\<rparr>"

lemma console_chunk:
  assumes "current s = Some cur" "console_fd (fs_view s cur) i q j"
  shows "\<exists>w. fs_call (\<lambda>w. do { (r, n, w1) \<leftarrow> file_write dev_vtab i buf len w; Some ((r, n), w1) }) s =
      Some ((0, len), s\<lparr>fsys := w\<rparr>) \<and> console_fd (fs_view (s\<lparr>fsys := w\<rparr>) cur) i q j \<and> kmem w = kmem (fsys s) \<and>
      console w = console (fsys s) @ map (\<lambda>k. kmem (fsys s) (buf + k)) [0..<unat len]"
proof -
  let ?v = "fs_view s cur"
  define w where "w = upd_file q j (\<lambda>f. f\<lparr>f_pos := f_pos f + len\<rparr>)
    (?v\<lparr>console := console ?v @ map (\<lambda>k. kmem ?v (buf + k)) [0..<unat len]\<rparr>)"
  have "file_write dev_vtab i buf len ?v = Some (0, len, w)"
    using assms(2) stdout_write_prints [of ?v i q j] by (auto simp: console_fd_def w_def)
  then have "fs_call (\<lambda>w. do { (r, n, w1) \<leftarrow> file_write dev_vtab i buf len w; Some ((r, n), w1) }) s = Some ((0, len), s\<lparr>fsys := w\<rparr>)"
    using assms(1) by (simp add: fs_call_def flip: fs_view_def)
  moreover have "console_fd w i q j" using assms(2) unfolding w_def by (intro console_fd_pos) simp
  moreover have "fs_view (s\<lparr>fsys := w\<rparr>) cur = w" "kmem w = kmem (fsys s)"
    "console w = console (fsys s) @ map (\<lambda>k. kmem (fsys s) (buf + k)) [0..<unat len]"
    by (simp_all add: fs_view_def w_def upd_file_def)
  ultimately show ?thesis by auto
qed

lemma console_loop:
  assumes "user_ctx s cur m mm" "len \<noteq> 0 \<Longrightarrow> user_readable (mmap_list mm) base len" "console_fd (fs_view s cur) 1 q j"
    "0x80000000 \<le> unat buffer"
  shows "\<exists>s'. syswrite_loop dev_vtab 1 buffer base len copied s = Some (0, copied + len, s') \<and>
    console (fsys s') = console (fsys s) @ map (\<lambda>k. kmem (fsys s) (unat base + k)) [0..<unat len] \<and>
    (\<forall>a. a < unat buffer \<or> unat buffer + 4096 \<le> a \<longrightarrow> kmem (fsys s') a = kmem (fsys s) a)"
  using assms
proof (induction "unat len" arbitrary: len base copied s mm rule: less_induct)
  case less
  show ?case
  proof (cases "len = 0")
    case True
    then show ?thesis by (subst syswrite_loop.simps) simp
  next
    case False
    note rd = less.prems(2) [OF False]
    note b = user_readable_bounds [OF rd]
    define n where "n = (if IOBUF_SIZE > len then len else IOBUF_SIZE)"
    have n: "n \<noteq> 0" "unat n \<le> unat len" "unat n \<le> 4096" "n \<le> len"
      using False by (auto simp: n_def IOBUF_SIZE_def word_le_nat_alt not_less word_less_nat_alt)
    have "user_readable (mmap_list mm) base n" using user_readable_part [OF rd, of 0 n] n by simp
    from copy_in_ok [OF less.prems(1) this, of buffer] obtain mm' where
      c: "with_mm (\<lambda>mm. copy_from_user mm buffer base n False) s = Some (True, s\<lparr>mms := (mms s)(m \<mapsto> mm'),
          fsys := (fsys s)\<lparr>kmem := memcpy (unat buffer) (unat base) (unat n) (kmem (fsys s))\<rparr>\<rparr>)"
      "mm_ok mm'" "mmap_list mm' = mmap_list mm" by blast
    define w where "w = (fsys s)\<lparr>kmem := memcpy (unat buffer) (unat base) (unat n) (kmem (fsys s))\<rparr>"
    define s1 where "s1 = s\<lparr>mms := (mms s)(m \<mapsto> mm'), fsys := w\<rparr>"
    have km: "kmem w a = (if unat buffer \<le> a \<and> a < unat buffer + unat n then kmem (fsys s) (unat base + (a - unat buffer))
        else kmem (fsys s) a)" for a
      using b n less.prems(4) by (auto simp: w_def memcpy_def copy_up_spec)
    have cur: "current s1 = Some cur" using less.prems(1) by (simp add: s1_def user_ctx_def)
    have "fs_view s1 cur = (fs_view s cur)\<lparr>kmem := kmem w\<rparr>" by (simp add: fs_view_def s1_def w_def)
    then have "console_fd (fs_view s1 cur) 1 q j" using less.prems(3) by simp
    from console_chunk [OF cur this, of "unat buffer" n] obtain w2 where
      fw: "fs_call (\<lambda>w. do { (r, n, w1) \<leftarrow> file_write dev_vtab 1 (unat buffer) n w; Some ((r, n), w1) }) s1 =
        Some ((0, n), s1\<lparr>fsys := w2\<rparr>)" "console_fd (fs_view (s1\<lparr>fsys := w2\<rparr>) cur) 1 q j" "kmem w2 = kmem (fsys s1)"
        "console w2 = console (fsys s1) @ map (\<lambda>k. kmem (fsys s1) (unat buffer + k)) [0..<unat n]" by blast
    have out: "console w2 = console (fsys s) @ map (\<lambda>k. kmem (fsys s) (unat base + k)) [0..<unat n]"
      unfolding fw(4) s1_def by (simp add: km) (simp add: w_def)
    have step: "syswrite_loop dev_vtab 1 buffer base len copied s =
        syswrite_loop dev_vtab 1 buffer (base + n) (len - n) (copied + n) (s1\<lparr>fsys := w2\<rparr>)"
      using False c(1) fw(1) n by (subst syswrite_loop.simps) (simp add: Let_def n_def [symmetric] s1_def w_def)
    have ln: "unat (len - n) = unat len - unat n" using n(4) by (rule unat_sub)
    have bn: "unat (base + n) = unat base + unat n" using b n by (simp add: unat_word_ariths)
    have "unat (len - n) < unat len" using n(1) ln False by (simp add: unat_gt_0)
    moreover have "user_ctx (s1\<lparr>fsys := w2\<rparr>) cur m mm'"
      using user_ctx_upd [OF less.prems(1) c(2), of w2] by (simp add: s1_def)
    moreover have "user_readable (mmap_list mm') (base + n) (len - n)" if "len - n \<noteq> 0"
      unfolding c(3) using user_readable_part [OF rd, of n "len - n"] n ln that by simp
    ultimately obtain s' where s': "syswrite_loop dev_vtab 1 buffer (base + n) (len - n) (copied + n) (s1\<lparr>fsys := w2\<rparr>) =
        Some (0, copied + n + (len - n), s')"
      "console (fsys s') = console w2 @ map (\<lambda>k. kmem w2 (unat (base + n) + k)) [0..<unat (len - n)]"
      "\<forall>a. a < unat buffer \<or> unat buffer + 4096 \<le> a \<longrightarrow> kmem (fsys s') a = kmem w2 a"
      using less.hyps [of "len - n" "s1\<lparr>fsys := w2\<rparr>" mm' "base + n" "copied + n"] fw(2) less.prems(4) by auto
    have user: "kmem w2 a = kmem (fsys s) a" if "a < unat buffer \<or> unat buffer + 4096 \<le> a" for a
      using that n(3) by (auto simp: fw(3) s1_def km)
    have "map (\<lambda>k. kmem w2 (unat (base + n) + k)) [0..<unat (len - n)] =
        map (\<lambda>k. kmem (fsys s) (unat base + k)) [unat n..<unat len]"
      using b less.prems(4) n by (intro nth_equalityI) (auto simp: bn ln add.assoc intro!: user [OF disjI1])
    then have "console (fsys s') = console (fsys s) @ map (\<lambda>k. kmem (fsys s) (unat base + k)) [0..<unat len]"
      using s'(2) out n(2) upt_add_eq_append [of 0 "unat n" "unat len - unat n"] by simp
    then show ?thesis using s' step user by auto
  qed
qed

section \<open>Properties\<close>

text \<open>
  C27. The write system call on standard output.  If descriptor 1 is open for writing on the console and the caller may read
  the \<open>len\<close> bytes at \<open>base\<close>, the call returns, whatever the length: it copies them through its buffer of 4096 bytes, prints
  exactly these bytes in order, and reports \<open>len\<close>; apart from the buffer, memory is unchanged.
\<close>

theorem sysfile_write_prints:
  assumes "user_ctx s cur m mm" "user_readable (mmap_list mm) base len" "console_fd (fs_view s cur) 1 q j"
    "0x80000000 \<le> unat buffer"
  shows "\<exists>s'. sysfile_write dev_vtab (Some buffer) 1 base len s = Some (int_of_size len, s') \<and>
    console (fsys s') = console (fsys s) @ map (\<lambda>k. kmem (fsys s) (unat base + k)) [0..<unat len] \<and>
    (\<forall>a. a < unat buffer \<or> unat buffer + 4096 \<le> a \<longrightarrow> kmem (fsys s') a = kmem (fsys s) a)"
proof -
  have len: "len \<noteq> 0" using assms(2) by (auto simp: user_readable_def USER_ACCESS_def)
  have cur: "current s = Some cur" using assms(1) by (simp add: user_ctx_def)
  have "file_testfd 1 False True (fs_view s cur) = Some True"
    using assms(3) by (auto simp: console_fd_def file_testfd_def)
  then have "fd_allows 1 False True s = Some True" using cur by (simp add: fd_allows_def flip: fs_view_def)
  then show ?thesis
    using console_loop [OF assms(1) _ assms(3,4), of len base 0] assms(2) len by (auto simp: sysfile_write_def)
qed

text \<open>
  C32. The write system call on any other descriptor never returns: if the descriptor is open for writing and the caller's
  bytes are readable, the loop neither writes nor advances.
\<close>

theorem sysfile_write_hangs:
  assumes "user_ctx s cur m mm" "user_readable (mmap_list mm) base len" "fd \<noteq> 1" "fd \<noteq> 2" "fd_allows fd False True s = Some True"
  shows "sysfile_write T (Some buffer) fd base len s = None"
proof -
  have len: "len \<noteq> 0" using assms(2) by (auto simp: user_readable_def USER_ACCESS_def)
  have "syswrite_loop T fd buffer base len 0 s = None"
    using other_fd_loop [of T fd buffer base len 0 s] assms(1-4) len by (cases "syswrite_loop T fd buffer base len 0 s") blast+
  then show ?thesis using assms(5) len by (simp add: sysfile_write_def)
qed

text \<open>A process with the memory map of \<open>example_mm\<close> and descriptors 0 and 1 open on the console.\<close>

definition example_caller :: "unit dev_st_ext proc_st" where
  "example_caller = \<lparr>
     procs = (\<lambda>p. (alloc_proc_init 0)\<lparr>p_pid := 1, p_state := PROC_RUNNABLE, p_mm := Some 50, p_filesp := Some 100\<rparr>),
     current = Some 1, cr3_reg = 0, idleproc = 0,
     run_q = \<lparr>proc_num = 0, max_time_slice = 5, lab6_run_pool = None\<rparr>,
     pools = \<lparr>sparent = \<lambda>_. None, sleft = \<lambda>_. None, sright = \<lambda>_. None\<rparr>,
     timers = (\<lambda>_. \<lparr>t_expires = 1, t_proc = None\<rparr>), timer_list = [], kpu_task_ctrl_proc = None,
     proc_list = [1], hash_list = (\<lambda>_. []), nr_process = 2, next_safe = MAX_PID, last_pid = 1, initproc = Some 1, proc_heap = {0, 1},
     contexts = (\<lambda>_. \<lparr>c_ra = 0, c_sp = 0, c_s = \<lambda>_. 0\<rparr>), tf_ptrs = (\<lambda>_. 0),
     tframes = (\<lambda>_. \<lparr>gpr_sp = 0, gpr_s0 = 0, gpr_s1 = 0, gpr_a0 = 0, gpr_other = \<lambda>_. 0, tf_status = 0, tf_epc = 0, tf_tval = 0,
       tf_cause = 0\<rparr>),
     mms = [50 \<mapsto> example_mm], mm_locked = (\<lambda>_. None),
     swp = \<lparr>vm = example_vm (\<lambda>_ _. 0), pra_list = [], pra_vaddr = (\<lambda>_. 0), slots = (\<lambda>_ _. 0), max_swap_offset = 16\<rparr>,
     fsys = example_console\<lparr>files := [100 \<mapsto> \<lparr>pwd = None,
       fd_array = fresh_table[0 := console_entry, 1 := console_entry\<lparr>f_fd := 1\<rparr>], files_count = 1\<rparr>]\<rparr>,
     boot_cr3 = 0, boot_pgdir = 0\<rparr>"

lemma example_caller_ctx: "user_ctx example_caller 1 50 example_mm" "user_readable (mmap_list example_mm) 0x200000 5000"
proof -
  show "user_ctx example_caller 1 50 example_mm" by (simp add: user_ctx_def example_caller_def example_mm_ok)
  have "accessible mm False a" if "mmap_list mm = mmap_list example_mm" "0x200000 \<le> a" "a < 0x201388" for mm a
  proof -
    have "a < 0x204000" using that(3) by (rule less_trans) simp
    then show ?thesis using that by (simp add: accessible_def example_mm_def VM_READ_def)
  qed
  then show "user_readable (mmap_list example_mm) 0x200000 5000"
    by (simp add: user_readable_def USER_ACCESS_def USERBASE_def USERTOP_def)
qed

lemma example_caller_fd:
  assumes "i = 0 \<or> i = 1"
  shows "console_fd (fs_view example_caller 1) (int i) 100 i"
proof -
  let ?w = "fs_view example_caller 1"
  have fl: "files ?w 100 = Some \<lparr>pwd = None, fd_array = fresh_table[0 := console_entry, 1 := console_entry\<lparr>f_fd := 1\<rparr>], files_count = 1\<rparr>"
    "\<And>q. q \<noteq> 100 \<Longrightarrow> files ?w q = None" "filesp ?w = Some 100"
    by (simp_all add: fs_view_def example_caller_def)
  have at: "file_at 100 i ?w = Some (console_entry\<lparr>f_fd := int i\<rparr>)"
    using fl(1) fresh_table_entry(1) assms by (auto simp: file_at_def console_entry_def)
  have "fd2file (int i) ?w = Some (Some (100, i))"
    using fl at assms by (auto simp: fd2file_def testfd_def get_fd_array_def console_entry_def)
  moreover have "tabs_ok ?w"
    unfolding tabs_ok_def
  proof (intro allI impI)
    fix q fs assume "files ?w q = Some fs"
    then have fs: "fs = \<lparr>pwd = None, fd_array = fresh_table[0 := console_entry, 1 := console_entry\<lparr>f_fd := 1\<rparr>], files_count = 1\<rparr>"
      using fl by (cases "q = 100") auto
    show "length (fd_array fs) = FILES_STRUCT_NENTRY \<and> (\<forall>k<FILES_STRUCT_NENTRY. file_ok k (fd_array fs ! k))"
      using fresh_table_entry by (auto simp: fs nth_list_update file_ok_def console_entry_def)
  qed
  moreover have "inodes ?w 2 = Some ((dev_inode stdout_drv)\<lparr>ref_count := 2, open_count := 1\<rparr>)"
    by (simp add: fs_view_def example_caller_def example_console_def)
  ultimately show ?thesis
    unfolding console_fd_def using at by (auto simp: console_entry_def dev_inode_def inode_check_def MAX_INODE_COUNT_def)
qed

theorem sysfile_write_prints_witness:
  "\<exists>s'. sysfile_write dev_vtab (Some 0xFFFFFFFFC0400000) 1 0x200000 5000 example_caller = Some (5000, s') \<and>
    length (console (fsys s')) = length (console (fsys example_caller)) + 5000"
proof -
  have "console_fd (fs_view example_caller 1) 1 100 1" using example_caller_fd [of 1] by simp
  from sysfile_write_prints [OF example_caller_ctx this, of "0xFFFFFFFFC0400000"] show ?thesis
    by (auto simp: int_of_size_def)
qed

theorem sysfile_write_hangs_witness:
  "sysfile_write dev_vtab (Some 0xFFFFFFFFC0400000) 0 0x200000 5000 example_caller = None"
proof (rule sysfile_write_hangs [OF example_caller_ctx])
  have "file_testfd 0 False True (fs_view example_caller 1) = Some True"
    using example_caller_fd [of 0] by (auto simp: console_fd_def file_testfd_def)
  then show "fd_allows 0 False True example_caller = Some True"
    by (simp add: fd_allows_def example_caller_def fs_view_def)
qed simp_all

end
