(* ===== verification/Kmalloc.thy ===== *)
theory Kmalloc
  imports PageTable
begin

text \<open>
  The kernel heap, \<^verbatim>\<open>kern/mm/kmalloc.c\<close>: the SLOB allocator, a ring of free blocks in which allocation is first fit from
  where the last operation ended, and the list of blocks of whole pages.  A \<^verbatim>\<open>slob_t *\<close> is the address divided by the unit
  of 16 bytes, the size of \<^verbatim>\<open>slob_t\<close>, so pointer arithmetic is addition; the unit count and the link that a block's first
  16 bytes hold are two maps.  The structures of \<open>bigblocks\<close> are given as a list with the unit each of them lies at; the fields they share
  their memory with, the units and the link of the block, are set again before they are read.
\<close>

section \<open>State\<close>

definition SLOB_UNIT :: nat where "SLOB_UNIT = 16"
definition PAGE_SIZE :: nat where "PAGE_SIZE = 4096"
definition SLOB_UNITS :: "nat \<Rightarrow> nat" where "SLOB_UNITS n = (n + SLOB_UNIT - 1) div SLOB_UNIT"

record bigblock =
  bb_at :: nat
  bb_order :: nat
  bb_pages :: nat

record slob_st =
  kvm :: vm_st
  s_units :: "nat \<Rightarrow> nat"
  s_next :: "nat \<Rightarrow> nat"
  slobfree :: nat
  bigblocks :: "bigblock list"

definition set_units :: "nat \<Rightarrow> nat \<Rightarrow> slob_st \<Rightarrow> slob_st" where
  "set_units b n s = s\<lparr>s_units := (s_units s)(b := n)\<rparr>"

definition set_next :: "nat \<Rightarrow> nat \<Rightarrow> slob_st \<Rightarrow> slob_st" where
  "set_next b n s = s\<lparr>s_next := (s_next s)(b := n)\<rparr>"

definition slob_init_arena :: "nat \<Rightarrow> vm_st \<Rightarrow> slob_st" where
  "slob_init_arena arena v = \<lparr>kvm = v, s_units = (\<lambda>_. 0)(arena := 1), s_next = (\<lambda>_. 0)(arena := arena), slobfree = arena, bigblocks = []\<rparr>"

section \<open>Pages\<close>

text \<open>The result is the unit at which the pages start.\<close>

definition slob_get_free_pages :: "nat \<Rightarrow> slob_st \<Rightarrow> (nat option \<times> slob_st) option" where
  "slob_get_free_pages order s = do {
     (pg, v) \<leftarrow> alloc_pages (2 ^ order) (kvm s);
     case pg of None \<Rightarrow> Some (None, s\<lparr>kvm := v\<rparr>)
     | Some page \<Rightarrow> do { kva \<leftarrow> page2kva page; Some (Some (unat kva div SLOB_UNIT), s\<lparr>kvm := v\<rparr>) }
   }"

definition slob_free_pages :: "nat \<Rightarrow> nat \<Rightarrow> slob_st \<Rightarrow> slob_st option" where
  "slob_free_pages b order s = do {
     page \<leftarrow> kva2page (of_nat (b * SLOB_UNIT));
     v \<leftarrow> free_pages page (2 ^ order) (kvm s);
     Some (s\<lparr>kvm := v\<rparr>)
   }"

section \<open>The ring of free blocks\<close>

text \<open>The search for the place of \<open>b\<close>: between two neighbours, or where the ring wraps.\<close>

definition slob_here :: "nat \<Rightarrow> nat \<Rightarrow> (nat \<Rightarrow> nat) \<Rightarrow> bool" where
  "slob_here b cur nx \<longleftrightarrow> (b > cur \<and> b < nx cur) \<or> (cur \<ge> nx cur \<and> (b > cur \<or> b < nx cur))"

partial_function (option) slob_place :: "nat \<Rightarrow> (nat \<Rightarrow> nat) \<Rightarrow> nat \<Rightarrow> nat option" where
  "slob_place b nx cur = (if slob_here b cur nx then Some cur else slob_place b nx (nx cur))"

text \<open>\<open>sz\<close> is zero if the block knows its size.\<close>

definition slob_free :: "nat \<Rightarrow> nat \<Rightarrow> slob_st \<Rightarrow> slob_st option" where
  "slob_free b sz s = (if b = 0 then Some s else do {
     let s1 = (if sz \<noteq> 0 then set_units b (SLOB_UNITS sz) s else s);
     cur \<leftarrow> slob_place b (s_next s1) (slobfree s1);
     let s2 = (if b + s_units s1 b = s_next s1 cur
               then set_next b (s_next s1 (s_next s1 cur)) (set_units b (s_units s1 b + s_units s1 (s_next s1 cur)) s1)
               else set_next b (s_next s1 cur) s1);
     let s3 = (if cur + s_units s2 cur = b
               then set_next cur (s_next s2 b) (set_units cur (s_units s2 cur + s_units s2 b) s2)
               else set_next cur b s2);
     Some (s3\<lparr>slobfree := cur\<rparr>)
   })"

text \<open>Taking \<open>units\<close> from the block \<open>cur\<close>, which has enough; \<open>delta\<close> units are left in front for the alignment.\<close>

definition slob_take :: "nat \<Rightarrow> nat \<Rightarrow> nat \<Rightarrow> nat \<Rightarrow> slob_st \<Rightarrow> nat \<times> slob_st" where
  "slob_take units delta prev0 cur0 s =
     (let (prev, cur, s1) = (if delta \<noteq> 0
            then (cur0, cur0 + delta,
                  set_units cur0 delta (set_next cur0 (cur0 + delta)
                    (set_next (cur0 + delta) (s_next s cur0) (set_units (cur0 + delta) (s_units s cur0 - delta) s))))
            else (prev0, cur0, s));
          s2 = (if s_units s1 cur = units then set_next prev (s_next s1 cur) s1
                else (let f = cur + units;
                          t1 = set_next prev f s1;
                          t2 = set_units f (s_units t1 cur - units) t1;
                          t3 = set_next f (s_next t2 cur) t2
                      in set_units cur units t3))
      in (cur, s2\<lparr>slobfree := prev\<rparr>))"

text \<open>Units skipped at the front of \<open>cur\<close> so that the block starts at a multiple of \<open>align\<close> bytes.\<close>

definition slob_delta :: "nat \<Rightarrow> nat \<Rightarrow> nat" where
  "slob_delta align cur = (if align \<noteq> 0
     then ((cur * SLOB_UNIT + align - 1) div align * align - cur * SLOB_UNIT) div SLOB_UNIT else 0)"

partial_function (option) slob_alloc_loop :: "nat \<Rightarrow> nat \<Rightarrow> nat \<Rightarrow> nat \<Rightarrow> nat \<Rightarrow> slob_st \<Rightarrow> (nat option \<times> slob_st) option" where
  "slob_alloc_loop sz align units prev cur s =
     (if s_units s cur \<ge> units + slob_delta align cur
      then (let (b, s1) = slob_take units (slob_delta align cur) prev cur s in Some (Some b, s1))
      else if cur = slobfree s
      then (if sz = PAGE_SIZE then Some (None, s)
            else do {
              (pg, s1) \<leftarrow> slob_get_free_pages 0 s;
              case pg of None \<Rightarrow> Some (None, s1)
              | Some p \<Rightarrow> do {
                  s2 \<leftarrow> slob_free p PAGE_SIZE s1;
                  slob_alloc_loop sz align units (slobfree s2) (s_next s2 (slobfree s2)) s2
                }
            })
      else slob_alloc_loop sz align units cur (s_next s cur) s)"

declare slob_place.simps [code] slob_alloc_loop.simps [code]

definition slob_alloc :: "nat \<Rightarrow> nat \<Rightarrow> slob_st \<Rightarrow> (nat option \<times> slob_st) option" where
  "slob_alloc sz align s = do {
     kassert (sz + SLOB_UNIT < PAGE_SIZE);
     slob_alloc_loop sz align (SLOB_UNITS sz) (slobfree s) (s_next s (slobfree s)) s
   }"

section \<open>kmalloc and kfree\<close>

text \<open>\<^verbatim>\<open>sizeof(bigblock_t)\<close> is 24.  The argument of \<open>find_order\<close> is an \<^verbatim>\<open>int\<close>, so the size is cut to 32 bits on the way.\<close>

function find_order :: "int \<Rightarrow> nat" where
  "find_order sz = (if sz > 4096 then find_order (sz div 2) + 1 else 0)"
  by pat_completeness auto
termination by (relation "measure nat") auto

declare find_order.simps [simp del]

definition sizeof_bigblock :: nat where "sizeof_bigblock = 24"

text \<open>Results of \<open>kmalloc\<close> and arguments of \<open>kfree\<close> are units.\<close>

definition kmalloc :: "nat \<Rightarrow> slob_st \<Rightarrow> (nat option \<times> slob_st) option" where
  "kmalloc sz s =
     (if sz < PAGE_SIZE - SLOB_UNIT
      then do { (m, s1) \<leftarrow> slob_alloc (sz + SLOB_UNIT) 0 s; Some (map_option Suc m, s1) }
      else do {
        let order = find_order (sint (of_nat sz :: u32));
        (bb, s1) \<leftarrow> slob_alloc sizeof_bigblock 0 s;
        case bb of None \<Rightarrow> Some (None, s1)
        | Some b \<Rightarrow> do {
            (pg, s2) \<leftarrow> slob_get_free_pages order s1;
            case pg of
              Some p \<Rightarrow> Some (Some p, s2\<lparr>bigblocks := \<lparr>bb_at = b, bb_order = order, bb_pages = p\<rparr> # bigblocks s2\<rparr>)
            | None \<Rightarrow> do { s3 \<leftarrow> slob_free b sizeof_bigblock s2; Some (None, s3) }
          }
      })"

definition kfree :: "nat option \<Rightarrow> slob_st \<Rightarrow> slob_st option" where
  "kfree blk s =
     (case blk of None \<Rightarrow> Some s
      | Some b \<Rightarrow>
          (case (if b * SLOB_UNIT mod PAGE_SIZE = 0 then find (\<lambda>bb. bb_pages bb = b) (bigblocks s) else None) of
             Some bb \<Rightarrow> do {
               s1 \<leftarrow> slob_free_pages b (bb_order bb) (s\<lparr>bigblocks := remove1 bb (bigblocks s)\<rparr>);
               slob_free (bb_at bb) sizeof_bigblock s1
             }
           | None \<Rightarrow> slob_free (b - 1) 0 s))"

definition ksize :: "nat option \<Rightarrow> slob_st \<Rightarrow> nat" where
  "ksize blk s =
     (case blk of None \<Rightarrow> 0
      | Some b \<Rightarrow>
          (case (if b * SLOB_UNIT mod PAGE_SIZE = 0 then find (\<lambda>bb. bb_pages bb = b) (bigblocks s) else None) of
             Some bb \<Rightarrow> PAGE_SIZE * 2 ^ bb_order bb
           | None \<Rightarrow> s_units s (b - 1) * SLOB_UNIT))"

definition slob_allocated :: nat where "slob_allocated = 0"
definition kallocated :: nat where "kallocated = slob_allocated"

end
