(* ===== verification/KmallocInv.thy ===== *)
theory KmallocInv
  imports Kmalloc
begin

text \<open>
  The kernel heap keeps its blocks apart.  The free blocks form a ring of disjoint blocks that contains the arena; a block being
  freed always finds its place in the ring and is merged with the neighbours it touches; a block being allocated is found in the
  ring, or in the ring as it is after a fresh page was freed into it.  The heap invariant adds the blocks in use and the frames
  that all blocks lie in.
\<close>

section \<open>Rings\<close>

primrec slinks :: "(nat \<Rightarrow> nat) \<Rightarrow> nat \<Rightarrow> nat list \<Rightarrow> nat \<Rightarrow> bool" where
  "slinks nx a [] z \<longleftrightarrow> nx a = z"
| "slinks nx a (b # bs) z \<longleftrightarrow> nx a = b \<and> slinks nx b bs z"

definition ring :: "(nat \<Rightarrow> nat) \<Rightarrow> nat \<Rightarrow> nat list \<Rightarrow> bool" where
  "ring nx a bs \<longleftrightarrow> slinks nx a bs a \<and> distinct (a # bs)"

lemma slinks_append: "slinks nx a (xs @ b # ys) z \<longleftrightarrow> slinks nx a xs b \<and> slinks nx b ys z"
  by (induction xs arbitrary: a) auto

lemma slinks_cong: "(\<And>x. x \<in> set (a # bs) \<Longrightarrow> nx' x = nx x) \<Longrightarrow> slinks nx' a bs z = slinks nx a bs z"
  by (induction bs arbitrary: a) auto

lemma slinks_upd [simp]: "x \<notin> set (a # bs) \<Longrightarrow> slinks (nx(x := v)) a bs z = slinks nx a bs z"
  by (rule slinks_cong) auto

lemma ring_from:
  assumes "ring nx a bs" "x \<in> set (a # bs)"
  obtains cs where "ring nx x cs" "set (x # cs) = set (a # bs)"
proof (cases "x = a")
  case True
  then show thesis using assms that by blast
next
  case False
  then obtain us vs where v: "bs = us @ x # vs" using assms(2) by (auto simp: in_set_conv_decomp)
  have "ring nx x (vs @ a # us)" using assms(1) by (auto simp: ring_def v slinks_append)
  then show thesis by (rule that) (auto simp: v)
qed

lemma ring_next: "ring nx a bs \<Longrightarrow> x \<in> set (a # bs) \<Longrightarrow> nx x \<in> set (a # bs)"
  by (erule ring_from, assumption) (metis list.exhaust list.set_intros(1) list.set_intros(2) ring_def slinks.simps)

lemma ring_last: "slinks nx a bs z \<Longrightarrow> \<exists>p\<in>set (a # bs). nx p = z"
  by (induction bs arbitrary: a) auto

section \<open>The place of a block in the ring\<close>

lemma slinks_cross:
  assumes "slinks nx x bs z" "x < b" "b \<notin> set bs" "b < z"
  shows "\<exists>c\<in>set (x # bs). c < b \<and> b < nx c"
  using assms
proof (induction bs arbitrary: x)
  case (Cons y bs)
  then show ?case by (cases "y < b") auto
qed auto

lemma slob_here_exists:
  assumes r: "ring nx a bs" and b: "b \<notin> set (a # bs)"
  shows "\<exists>c\<in>set (a # bs). slob_here b c nx"
proof -
  let ?R = "set (a # bs)"
  have fin: "finite ?R" "?R \<noteq> {}" by simp_all
  have nb: "nx c \<in> ?R" if "c \<in> ?R" for c using ring_next [OF r that] .
  consider "\<forall>c\<in>?R. c < b" | "\<forall>c\<in>?R. b < c" | x y where "x \<in> ?R" "x < b" "y \<in> ?R" "b < y"
    using b by (metis linorder_neqE_nat)
  then show ?thesis
  proof cases
    case 1
    have m: "Max ?R \<in> ?R" using fin by (rule Max_in)
    then have "nx (Max ?R) \<le> Max ?R" using nb fin by (auto intro: Max_ge)
    then show ?thesis using 1 m by (auto simp: slob_here_def intro!: bexI [of _ "Max ?R"])
  next
    case 2
    have m: "Min ?R \<in> ?R" using fin by (rule Min_in)
    obtain cs where cs: "ring nx (Min ?R) cs" "set (Min ?R # cs) = ?R" by (rule ring_from [OF r m])
    obtain p where p: "p \<in> ?R" "nx p = Min ?R" using ring_last cs unfolding ring_def by metis
    then have "nx p \<le> p" using fin by (simp add: Min_le)
    then show ?thesis using 2 m p by (intro bexI [of _ p]) (auto simp: slob_here_def)
  next
    case 3
    obtain cs where cs: "ring nx x cs" "set (x # cs) = ?R" by (rule ring_from [OF r 3(1)])
    have "y \<in> set (x # cs)" using cs(2) 3(3) by metis
    then obtain us vs where v: "cs = us @ y # vs" using 3 by (auto simp: in_set_conv_decomp)
    have "\<exists>c\<in>set (x # us). c < b \<and> b < nx c"
      by (rule slinks_cross [of _ _ _ y]) (use cs b 3 in \<open>auto simp: ring_def v slinks_append\<close>)
    then obtain c where "c \<in> set (x # us)" "c < b" "b < nx c" by blast
    then show ?thesis using cs(2) by (intro bexI [of _ c]) (auto simp: slob_here_def v)
  qed
qed

lemma slob_place_finds:
  assumes "slinks nx a bs z" "\<exists>c\<in>set (a # bs). slob_here b c nx"
  shows "\<exists>c\<in>set (a # bs). slob_place b nx a = Some c \<and> slob_here b c nx"
  using assms
proof (induction bs arbitrary: a)
  case Nil
  then show ?case by (subst slob_place.simps) simp
next
  case (Cons x bs)
  show ?case
  proof (cases "slob_here b a nx")
    case True
    then show ?thesis by (subst slob_place.simps) simp
  next
    case False
    then have "\<exists>c\<in>set (x # bs). slob_here b c nx" "slinks nx x bs z" "nx a = x" using Cons.prems by auto
    from Cons.IH [OF this(2,1)] show ?thesis using False \<open>nx a = x\<close> by (subst slob_place.simps) auto
  qed
qed

lemma slob_place_spec:
  assumes "ring nx a bs" "b \<notin> set (a # bs)"
  obtains cur cs where "slob_place b nx a = Some cur" "ring nx cur cs" "set (cur # cs) = set (a # bs)" "slob_here b cur nx"
proof -
  obtain cur where cur: "cur \<in> set (a # bs)" "slob_place b nx a = Some cur" "slob_here b cur nx"
    using slob_place_finds slob_here_exists [OF assms] assms(1) unfolding ring_def by metis
  from ring_from [OF assms(1) cur(1)] that cur(2,3) show thesis by metis
qed

section \<open>Blocks apart\<close>

definition ublk :: "(nat \<Rightarrow> nat) \<Rightarrow> nat \<Rightarrow> nat set" where
  "ublk u b = {b..<b + u b}"

definition slots :: "(nat \<Rightarrow> nat) \<Rightarrow> nat set \<Rightarrow> nat set" where
  "slots u R = (\<Union>b\<in>R. ublk u b)"

definition apart :: "(nat \<Rightarrow> nat) \<Rightarrow> nat set \<Rightarrow> bool" where
  "apart u R \<longleftrightarrow> (\<forall>x\<in>R. 0 < u x) \<and> (\<forall>x\<in>R. \<forall>y\<in>R. x \<noteq> y \<longrightarrow> ublk u x \<inter> ublk u y = {})"

lemma apart_lt: "apart u R \<Longrightarrow> x \<in> R \<Longrightarrow> y \<in> R \<Longrightarrow> x < y \<Longrightarrow> x + u x \<le> y"
  unfolding apart_def ublk_def
  by (metis Int_iff add.commute atLeastLessThan_iff empty_iff le_refl less_add_same_cancel2 less_imp_le not_le nat_neq_iff)

lemma apartI:
  assumes "\<And>x. x \<in> R \<Longrightarrow> 0 < u x" "\<And>x y. x \<in> R \<Longrightarrow> y \<in> R \<Longrightarrow> x < y \<Longrightarrow> x + u x \<le> y"
  shows "apart u R"
proof -
  have "ublk u x \<inter> ublk u y = {}" if "x \<in> R" "y \<in> R" "x \<noteq> y" for x y
    using assms(2) [of x y] assms(2) [of y x] that by (cases "x < y") (auto simp: ublk_def)
  then show ?thesis using assms(1) by (simp add: apart_def)
qed

lemma ublk_upd: "ublk (u(b := n)) x = (if x = b then {b..<b + n} else ublk u x)"
  by (simp add: ublk_def)

lemma slots_upd: "b \<notin> R \<Longrightarrow> slots (u(b := n)) R = slots u R"
  unfolding slots_def by (auto simp: ublk_upd)

lemma apart_upd: "b \<notin> R \<Longrightarrow> apart u R \<Longrightarrow> apart (u(b := n)) R"
  by (rule apartI) (auto simp: apart_lt, auto simp: apart_def)

lemma in_slots: "apart u R \<Longrightarrow> x \<in> R \<Longrightarrow> x \<in> slots u R"
  by (auto simp: slots_def ublk_def apart_def)

lemma slots_insert: "slots u (insert b R) = ublk u b \<union> slots u R"
  by (simp add: slots_def)

lemma apart_insert:
  assumes "apart u R" "0 < n" "{b..<b + n} \<inter> slots u R = {}"
  shows "apart (u(b := n)) (insert b R)" "slots (u(b := n)) (insert b R) = slots u R \<union> {b..<b + n}" "b \<notin> R"
proof -
  show bn: "b \<notin> R" using assms in_slots [OF assms(1)] by fastforce
  have "{b..<b + n} \<inter> ublk u x = {}" if "x \<in> R" for x using assms(3) that by (auto simp: slots_def)
  then show "apart (u(b := n)) (insert b R)" using assms(1,2) bn
    by (auto simp: apart_def ublk_upd Int_commute)
  show "slots (u(b := n)) (insert b R) = slots u R \<union> {b..<b + n}"
    using bn by (auto simp: slots_insert ublk_upd slots_upd)
qed

lemma apart_merge:
  assumes a: "apart u R" and xy: "x \<in> R" "y \<in> R" "x \<noteq> y" "x + u x = y"
  shows "apart (u(x := u x + u y)) (R - {y})" "slots (u(x := u x + u y)) (R - {y}) = slots u R"
    "ublk u x \<union> ublk u y = ublk (u(x := u x + u y)) x"
proof -
  show un: "ublk u x \<union> ublk u y = ublk (u(x := u x + u y)) x" using xy(4) by (auto simp: ublk_def)
  have ne: "ublk (u(x := u x + u y)) z = ublk u z" if "z \<noteq> x" for z using that by (simp add: ublk_upd)
  show "apart (u(x := u x + u y)) (R - {y})"
    unfolding apart_def
  proof (intro conjI ballI impI)
    fix z w assume zw: "z \<in> R - {y}" "w \<in> R - {y}" "z \<noteq> w"
    have d: "ublk u p \<inter> ublk u q = {}" if "p \<in> R" "q \<in> R" "p \<noteq> q" for p q
      using a that unfolding apart_def by blast
    have new: "ublk (u(x := u x + u y)) x \<inter> ublk u q = {}" if "q \<in> R - {y}" "q \<noteq> x" for q
      using d [of x q] d [of y q] xy that un by fast
    show "ublk (u(x := u x + u y)) z \<inter> ublk (u(x := u x + u y)) w = {}"
      using new [of z] new [of w] d [of z w] zw ne [of z] ne [of w]
      by (cases "z = x"; cases "w = x") (simp_all add: Int_commute)
  qed (use a in \<open>auto simp: apart_def\<close>)
  have "R = insert x (insert y (R - {x, y}))" using xy by auto
  then have "slots u R = ublk u x \<union> ublk u y \<union> slots u (R - {x, y})" by (metis slots_insert Un_assoc)
  moreover have "R - {y} = insert x (R - {x, y})" using xy by auto
  then have "slots (u(x := u x + u y)) (R - {y}) = ublk (u(x := u x + u y)) x \<union> slots u (R - {x, y})"
    by (simp add: slots_insert slots_upd)
  ultimately show "slots (u(x := u x + u y)) (R - {y}) = slots u R" by (simp add: un)
qed

lemma apart_remove:
  assumes a: "apart u R" and x: "x \<in> R"
  shows "apart u (R - {x})" "slots u (R - {x}) = slots u R - ublk u x"
proof -
  show "apart u (R - {x})" using a by (simp add: apart_def)
  have d: "ublk u x \<inter> slots u (R - {x}) = {}" using a x by (auto simp: apart_def slots_def)
  have "slots u R = ublk u x \<union> slots u (R - {x})" using slots_insert [of u x "R - {x}"] x by (simp add: insert_absorb)
  then show "slots u (R - {x}) = slots u R - ublk u x" using d by blast
qed

lemma apart_split:
  assumes a: "apart u R" and x: "x \<in> R" "0 < k" "k < u x"
  shows "apart (u(x + k := u x - k)) (insert (x + k) (R - {x}))"
    "slots (u(x + k := u x - k)) (insert (x + k) (R - {x})) = slots u R - {x..<x + k}"
proof -
  note sl = apart_remove(2) [OF a x(1)]
  note apart_remove(1) [OF a x(1)]
  moreover have "{x + k..<x + k + (u x - k)} \<subseteq> ublk u x" using x by (auto simp: ublk_def)
  ultimately have "apart (u(x + k := u x - k)) (insert (x + k) (R - {x}))
    \<and> slots (u(x + k := u x - k)) (insert (x + k) (R - {x})) = slots u (R - {x}) \<union> {x + k..<x + k + (u x - k)}"
    using x sl by (intro conjI apart_insert) auto
  moreover have "slots u (R - {x}) \<union> {x + k..<x + k + (u x - k)} = slots u R - {x..<x + k}"
    using sl x in_slots [OF a] by (auto simp: ublk_def slots_def)
  ultimately show "apart (u(x + k := u x - k)) (insert (x + k) (R - {x}))"
    "slots (u(x + k := u x - k)) (insert (x + k) (R - {x})) = slots u R - {x..<x + k}" by simp_all
qed

section \<open>The order of the ring\<close>

text \<open>
  The next block of a block is the least one above it; the next block of the last one is the arena \<open>A\<close>.  No block of the ring
  ends where another begins.
\<close>

definition above :: "nat \<Rightarrow> nat set \<Rightarrow> nat \<Rightarrow> nat \<Rightarrow> bool" where
  "above A R x z \<longleftrightarrow> (z = A \<and> (\<forall>y\<in>R. y \<le> x)) \<or> (x < z \<and> (\<forall>y\<in>R. x < y \<longrightarrow> z \<le> y))"

definition ordered :: "nat \<Rightarrow> (nat \<Rightarrow> nat) \<Rightarrow> nat set \<Rightarrow> bool" where
  "ordered A nx R \<longleftrightarrow> (\<forall>x\<in>R. above A R x (nx x))"

definition gaps :: "(nat \<Rightarrow> nat) \<Rightarrow> nat set \<Rightarrow> bool" where
  "gaps u R \<longleftrightarrow> (\<forall>x\<in>R. x + u x \<notin> R)"

lemma gaps_subset: "gaps u R \<Longrightarrow> S \<subseteq> R \<Longrightarrow> gaps u S"
  by (auto simp: gaps_def)

lemma above_insert: "above A R x z \<Longrightarrow> b \<le> x \<or> x < z \<and> z \<le> b \<Longrightarrow> above A (insert b R) x z"
  by (auto simp: above_def)

lemma above_next: "above A R x z \<Longrightarrow> y \<in> R \<Longrightarrow> x < y \<Longrightarrow> x < z \<and> z \<le> y"
  by (auto simp: above_def)

lemma above_last: "above A R x z \<Longrightarrow> A \<le> x \<Longrightarrow> y \<in> R \<Longrightarrow> z = A \<Longrightarrow> y \<le> x"
  by (auto simp: above_def)

lemma ordered_insert:
  assumes o: "ordered A nx R" and c: "cur \<in> R" "A \<le> cur" "cur < b" "nx cur = A \<or> b < nx cur" "b \<notin> R"
  shows "ordered A (nx(b := nx cur, cur := b)) (insert b R)"
proof -
  have cur: "above A R cur (nx cur)" using o c(1) by (simp add: ordered_def)
  have hi: "b < nx cur \<and> nx cur \<le> y" if "y \<in> R" "cur < y" for y
    using above_next [OF cur that] c(2,4) by auto
  have nb: "above A (insert b R) b (nx cur)"
  proof (cases "nx cur = A")
    case True
    have "y \<le> cur" if "y \<in> R" for y by (rule above_last [OF cur c(2) that True])
    then show ?thesis using True c(3) by (fastforce simp: above_def)
  next
    case False
    have "nx cur \<le> y" if "y \<in> R" "b < y" for y using hi [of y] that c(3) by simp
    then show ?thesis using False c(4) by (auto simp: above_def)
  qed
  have "b \<le> y" if "y \<in> R" "cur < y" for y using hi [OF that] by simp
  then have cb: "above A (insert b R) cur b" using c(3) by (auto simp: above_def)
  have "above A (insert b R) x (nx x)" if x: "x \<in> R" "x \<noteq> cur" for x
  proof (rule above_insert)
    show ax: "above A R x (nx x)" using o x(1) by (simp add: ordered_def)
    show "b \<le> x \<or> x < nx x \<and> nx x \<le> b"
    proof (cases "cur < x")
      case True
      then show ?thesis using hi [OF x(1) True] by simp
    next
      case False
      then show ?thesis using above_next [OF ax c(1)] x(2) c(3) by auto
    qed
  qed
  then show ?thesis using nb cb c(5) by (auto simp: ordered_def)
qed

lemma ordered_remove:
  assumes o: "ordered A nx R" and c: "x \<in> R" "y \<in> R" "nx x = y" "y \<noteq> A"
  shows "ordered A (nx(x := nx y)) (R - {y})"
proof -
  have x: "above A R x y" and y: "above A R y (nx y)" using o c by (auto simp: ordered_def)
  have xy: "x < y" using x c(4) by (auto simp: above_def)
  have le: "w \<le> x" if "w \<in> R" "w < y" for w using above_next [OF x that(1)] that(2) by fastforce
  have "above A (R - {y}) x (nx y)"
  proof (cases "y < nx y")
    case True
    have "nx y \<le> w" if "w \<in> R - {y}" "x < w" for w
    proof -
      have "y < w" using le [of w] that by fastforce
      then show ?thesis using above_next [OF y, of w] that by simp
    qed
    then show ?thesis using xy True by (auto simp: above_def)
  next
    case False
    then have "nx y = A" "\<And>w. w \<in> R \<Longrightarrow> w \<le> y" using y by (auto simp: above_def)
    moreover have "w \<le> x" if "w \<in> R - {y}" for w using le [of w] calculation(2) [of w] that by fastforce
    ultimately show ?thesis by (auto simp: above_def)
  qed
  moreover have "above A (R - {y}) z (nx z)" if "z \<in> R" for z
    using o that by (auto simp: ordered_def above_def)
  ultimately show ?thesis by (simp add: ordered_def)
qed

text \<open>In an ordered ring the search ends between the last block below \<open>b\<close> and the first above it.\<close>

lemma ordered_here:
  assumes o: "ordered A nx R" and c: "cur \<in> R" "A \<le> cur" "A < b" "slob_here b cur nx"
  shows "cur < b" "nx cur = A \<or> b < nx cur" "\<And>y. y \<in> R \<Longrightarrow> y < b \<Longrightarrow> y \<le> cur" "\<And>y. y \<in> R \<Longrightarrow> b < y \<Longrightarrow> b < nx cur \<and> nx cur \<le> y"
proof -
  have cur: "above A R cur (nx cur)" using o c(1) by (simp add: ordered_def)
  show cb: "cur < b" "nx cur = A \<or> b < nx cur"
    using cur c(3,4) unfolding slob_here_def above_def by auto
  have n: "b < nx cur \<and> nx cur \<le> y" if "y \<in> R" "cur < y" for y
    using above_next [OF cur that] cb(2) c(2) by auto
  show "y \<le> cur" if "y \<in> R" "y < b" for y using n [OF that(1)] that(2) by fastforce
  show "b < nx cur \<and> nx cur \<le> y" if "y \<in> R" "b < y" for y using n [OF that(1)] that(2) cb(1) by simp
qed

section \<open>Freeing a block\<close>

definition free_inv :: "nat \<Rightarrow> slob_st \<Rightarrow> nat list \<Rightarrow> bool" where
  "free_inv A s bs \<longleftrightarrow> ring (s_next s) (slobfree s) bs \<and> apart (s_units s) (set (slobfree s # bs))
     \<and> A \<in> set (slobfree s # bs) \<and> s_units s A = 1 \<and> (\<forall>x\<in>set (slobfree s # bs). x \<noteq> A \<longrightarrow> A + 1 < x)
     \<and> ordered A (s_next s) (set (slobfree s # bs)) \<and> gaps (s_units s) (set (slobfree s # bs))"

text \<open>
  What is expected of freeing the \<open>n\<close> units from \<open>b\<close>: the blocks of \<open>R\<close> that touch them become one block with them, the others stay as they are.
\<close>

definition touching :: "(nat \<Rightarrow> nat) \<Rightarrow> nat set \<Rightarrow> nat \<Rightarrow> nat \<Rightarrow> nat set" where
  "touching u R b n = {y \<in> R. y + u y = b \<or> y = b + n}"

definition coalesced :: "(nat \<Rightarrow> nat) \<Rightarrow> nat set \<Rightarrow> nat \<Rightarrow> nat \<Rightarrow> (nat \<Rightarrow> nat) \<Rightarrow> nat set \<Rightarrow> bool" where
  "coalesced u R b n u' R' \<longleftrightarrow> (\<exists>x. R' = insert x (R - touching u R b n) \<and> ublk u' x = {b..<b + n} \<union> slots u (touching u R b n))
     \<and> (\<forall>y\<in>R - touching u R b n. u' y = u y)"

definition free_slots :: "slob_st \<Rightarrow> nat list \<Rightarrow> nat set" where
  "free_slots s bs = slots (s_units s) (set (slobfree s # bs))"

lemma slob_free_ring:
  assumes "ring nx cur cs" "b \<notin> set (cur # cs)" "mn \<Longrightarrow> cs \<noteq> []"
    "nx2 = nx(b := if mn then nx (nx cur) else nx cur)" "nx3 = nx2(cur := if mp then nx2 b else b)"
  shows "ring nx3 cur ((if mp then [] else [b]) @ (if mn then tl cs else cs))"
  using assms
  by (cases cs; cases "tl cs"; cases mp; cases mn) (auto simp: ring_def fun_upd_twist)

lemma slob_free_ordered:
  assumes o: "ordered A nx R" and c: "cur \<in> R" "A \<le> cur" "cur < b" "nx cur = A \<or> b < nx cur" "b \<notin> R" and nb: "nx cur \<in> R" "mn \<Longrightarrow> b < nx cur"
    and nx: "nx2 = nx(b := if mn then nx (nx cur) else nx cur)" "nx3 = nx2(cur := if mp then nx2 b else b)"
    and R3: "R3 = insert b R - (if mn then {nx cur} else {}) - (if mp then {b} else {})"
  shows "ordered A nx3 R3"
proof -
  define n1 where "n1 = nx(b := nx cur, cur := b)"
  define n2 where "n2 = n1(b := if mn then n1 (nx cur) else nx cur)"
  let ?R2 = "insert b R - (if mn then {nx cur} else {})"
  have o1: "ordered A n1 (insert b R)" unfolding n1_def by (rule ordered_insert [OF o c])
  have n1: "n1 b = nx cur" "n1 cur = b" using c by (auto simp: n1_def)
  have o2: "ordered A n2 ?R2"
  proof (cases mn)
    case True
    have "ordered A (n1(b := n1 (nx cur))) (insert b R - {nx cur})"
      by (rule ordered_remove [OF o1]) (use nb c n1 True in auto)
    then show ?thesis using True by (simp add: n2_def)
  next
    case False
    have "n2 = n1" using False n1 by (simp add: n2_def fun_upd_idem)
    then show ?thesis using o1 False by simp
  qed
  have n2: "n2 cur = b" "cur \<in> ?R2" "b \<in> ?R2" using n1 c nb by (auto simp: n2_def)
  have eq: "nx3 = (if mp then n2(cur := n2 b) else n2)"
    using c nb by (auto simp: fun_eq_iff nx n1_def n2_def)
  show ?thesis
  proof (cases mp)
    case True
    then have "R3 = ?R2 - {b}" by (simp add: R3)
    moreover have "ordered A (n2(cur := n2 b)) (?R2 - {b})" by (rule ordered_remove [OF o2]) (use n2 c in auto)
    ultimately show ?thesis using True eq by simp
  qed (use o2 eq R3 in simp)
qed

text \<open>The units and the heads of the ring after \<open>b\<close> has been inserted after \<open>cur\<close> and merged with its neighbours.\<close>

lemma slob_free_units:
  assumes a: "apart u R" and n: "0 < n" "{b..<b + n} \<inter> slots u R = {}" and R: "cur \<in> R" "nb \<in> R" "mn \<Longrightarrow> cur \<noteq> nb"
    and mn: "mn \<longleftrightarrow> b + n = nb" and mp: "mp \<longleftrightarrow> cur + u cur = b"
    and u: "u1 = u(b := n)" "u2 = (if mn then u1(b := u1 b + u1 nb) else u1)" "u3 = (if mp then u2(cur := u2 cur + u2 b) else u2)"
    and R3: "R3 = insert b R - (if mn then {nb} else {}) - (if mp then {b} else {})"
  shows "apart u3 R3" "slots u3 R3 = slots u R \<union> {b..<b + n}" "\<exists>x\<in>R3. {b..<b + n} \<subseteq> ublk u3 x"
    "x \<notin> slots u3 R3 \<Longrightarrow> u3 x = u x"
proof -
  note ins = apart_insert [OF a n, folded u(1)]
  define R2 where "R2 = insert b R - (if mn then {nb} else {})"
  have ne: "b \<noteq> nb" "b \<noteq> cur" "u1 b = n" "u1 cur = u cur" using ins(3) R by (auto simp: u)
  have two: "apart u2 R2 \<and> slots u2 R2 = slots u R \<union> {b..<b + n} \<and> {b..<b + n} \<subseteq> ublk u2 b \<and> b \<in> R2 \<and> cur \<in> R2"
  proof (cases mn)
    case True
    from apart_merge [OF ins(1), of b nb] R ne mn True
    show ?thesis using ins R by (auto simp: u R2_def ublk_def)
  qed (use ins R in \<open>auto simp: R2_def u ublk_def\<close>)
  have "u2 cur = u cur" using ne by (simp add: u)
  have three: "apart u3 R3 \<and> slots u3 R3 = slots u R \<union> {b..<b + n} \<and> (\<exists>x\<in>R3. {b..<b + n} \<subseteq> ublk u3 x)"
  proof (cases mp)
    case True
    note m = apart_merge [of u2 R2 cur b, OF two [THEN conjunct1] _ _ ne(2) [symmetric]]
    have eq: "R3 = R2 - {b}" "u3 = u2(cur := u2 cur + u2 b)" using True by (simp_all add: R3 R2_def u)
    show ?thesis unfolding eq using m two True mp ne \<open>u2 cur = u cur\<close> by (intro conjI bexI [of _ cur]) auto
  next
    case False
    then have "R3 = R2" "u3 = u2" by (simp_all add: R3 R2_def u)
    then show ?thesis using two by auto
  qed
  then show "apart u3 R3" "slots u3 R3 = slots u R \<union> {b..<b + n}" "\<exists>x\<in>R3. {b..<b + n} \<subseteq> ublk u3 x" by simp_all
  show "u3 x = u x" if "x \<notin> slots u3 R3"
    using that three n(1) in_slots [OF a, of cur] R by (auto simp: u)
qed

lemma slob_free_coalesced:
  assumes a: "apart u R" "gaps u R" and n: "0 < n" "{b..<b + n} \<inter> slots u R = {}" and R: "cur \<in> R" "nb \<in> R" "cur < b" "mn \<Longrightarrow> cur \<noteq> nb"
    and pl: "\<And>y. y \<in> R \<Longrightarrow> y < b \<Longrightarrow> y \<le> cur" "\<And>y. y \<in> R \<Longrightarrow> b < y \<Longrightarrow> b < nb \<and> nb \<le> y"
    and mn: "mn \<longleftrightarrow> b + n = nb" and mp: "mp \<longleftrightarrow> cur + u cur = b"
    and u: "u1 = u(b := n)" "u2 = (if mn then u1(b := u1 b + u1 nb) else u1)" "u3 = (if mp then u2(cur := u2 cur + u2 b) else u2)"
    and R3: "R3 = insert b R - (if mn then {nb} else {}) - (if mp then {b} else {})"
  shows "coalesced u R b n u3 R3" "gaps u3 R3"
proof -
  have bR: "b \<notin> R" by (rule apart_insert(3) [OF a(1) n])
  have heads: "y \<notin> {b..<b + n}" if "y \<in> R" for y using n(2) in_slots [OF a(1) that] by blast
  have up: "y = nb" if "y \<in> R" "y = b + n" for y
    using pl(2) [of y] that n(1) heads [OF R(2)] by auto
  have dn: "y = cur" if y: "y \<in> R" "y + u y = b" for y
  proof (rule ccontr)
    assume "y \<noteq> cur"
    moreover have "0 < u y" using a(1) y(1) by (simp add: apart_def)
    ultimately have "y < cur" using pl(1) [of y] y by fastforce
    then show False using apart_lt [OF a(1) y(1) R(1)] y(2) R(3) by simp
  qed
  have T: "touching u R b n = (if mp then {cur} else {}) \<union> (if mn then {nb} else {})"
  proof (rule set_eqI)
    fix y
    have "y \<in> touching u R b n \<longleftrightarrow> (y = cur \<and> mp) \<or> (y = nb \<and> mn)"
      unfolding touching_def mem_Collect_eq mn mp using up [of y] dn [of y] R(1,2) by metis
    then show "y \<in> touching u R b n \<longleftrightarrow> y \<in> (if mp then {cur} else {}) \<union> (if mn then {nb} else {})" by simp
  qed
  define m where "m = (if mp then cur else b)"
  have ne: "b \<noteq> nb" "b \<noteq> cur" "mn \<Longrightarrow> nb \<noteq> cur" using bR R by auto
  have e: "m + u3 m = (if mn then nb + u nb else b + n)"
    using ne mn mp by (cases mp; cases mn) (simp_all add: m_def u)
  have ps: "slots u {x} = {x..<x + u x}" "slots u {} = {}" "slots u (X \<union> Y) = slots u X \<union> slots u Y" for x X Y
    by (simp_all add: slots_def ublk_def)
  have "ublk u3 m = {b..<b + n} \<union> slots u (touching u R b n)"
    unfolding T ps ublk_def e using mn mp R(3) by (cases mp; cases mn) (auto simp: m_def ps)
  note u3m = e this
  have u3: "u3 y = u y" if "y \<in> R" "y \<noteq> m" for y using that bR by (auto simp: m_def u)
  have set: "R3 = insert m (R - touching u R b n)" using bR R ne unfolding T R3 m_def by auto
  have "m \<in> touching u R b n \<or> m \<notin> R" using bR by (auto simp: T m_def)
  then show "coalesced u R b n u3 R3"
    unfolding coalesced_def using set u3m(2) u3 by (intro conjI exI [of _ m]) auto
  have "x + u3 x \<notin> R3" if x: "x \<in> R3" for x
  proof (cases "x = m")
    case True
    have "nb + u nb \<notin> insert b R" if mn using a(2) R(2) mn that n(1) by (auto simp: gaps_def)
    moreover have "b + n \<notin> insert b R" if "\<not> mn" using up [of "b + n"] mn that n(1) by auto
    ultimately show ?thesis using True u3m(1) unfolding R3 by auto
  next
    case False
    then have xR: "x \<in> R" using x set by auto
    have "x + u x \<notin> R" using a(2) xR by (simp add: gaps_def)
    moreover have "x + u x \<noteq> m"
      using dn [OF xR] False mp calculation R(1) by (auto simp: m_def)
    ultimately show ?thesis using u3 [OF xR False] set by auto
  qed
  then show "gaps u3 R3" by (simp add: gaps_def)
qed

lemma slob_free_spec:
  assumes inv: "free_inv A s bs" and n: "n = (if sz \<noteq> 0 then SLOB_UNITS sz else s_units s b)" "0 < n"
    and b: "{b..<b + n} \<inter> free_slots s bs = {}" "A + 1 < b"
  obtains s' bs' where "slob_free b sz s = Some s'" "free_inv A s' bs'" "free_slots s' bs' = free_slots s bs \<union> {b..<b + n}"
    "coalesced (s_units s) (set (slobfree s # bs)) b n (s_units s') (set (slobfree s' # bs'))"
    "\<exists>x\<in>set (slobfree s' # bs'). {b..<b + n} \<subseteq> ublk (s_units s') x"
    "\<And>x. x \<notin> free_slots s' bs' \<Longrightarrow> s_units s' x = s_units s x" "kvm s' = kvm s" "bigblocks s' = bigblocks s"
proof -
  let ?u = "s_units s" and ?nx = "s_next s" and ?R = "set (slobfree s # bs)"
  have I: "ring ?nx (slobfree s) bs" "apart ?u ?R" "A \<in> ?R" "?u A = 1" "\<forall>x\<in>?R. x \<noteq> A \<longrightarrow> A + 1 < x"
    "ordered A ?nx ?R" "gaps ?u ?R"
    using inv by (simp_all add: free_inv_def)
  have bR: "b \<notin> ?R" using apart_insert(3) [OF I(2) n(2)] b(1) by (simp add: free_slots_def)
  obtain cur cs where cur: "slob_place b ?nx (slobfree s) = Some cur" "ring ?nx cur cs" "set (cur # cs) = ?R" "slob_here b cur ?nx"
    by (rule slob_place_spec [OF I(1) bR])
  define mn where "mn \<longleftrightarrow> b + n = ?nx cur"
  define mp where "mp \<longleftrightarrow> cur + ?u cur = b"
  define u1 where "u1 = ?u(b := n)"
  define u2 where "u2 = (if mn then u1(b := u1 b + u1 (?nx cur)) else u1)"
  define u3 where "u3 = (if mp then u2(cur := u2 cur + u2 b) else u2)"
  define nx2 where "nx2 = ?nx(b := if mn then ?nx (?nx cur) else ?nx cur)"
  define nx3 where "nx3 = nx2(cur := if mp then nx2 b else b)"
  let ?cs = "(if mp then [] else [b]) @ (if mn then tl cs else cs)" and ?s' = "s\<lparr>s_units := u3, s_next := nx3, slobfree := cur\<rparr>"
  have ncur: "cur \<in> ?R" "?nx cur \<in> ?R" "b \<noteq> cur" "b \<noteq> ?nx cur"
    using cur(3) ring_next [OF I(1)] bR by auto
  have single: "cs \<noteq> []" if mn
  proof
    assume "cs = []"
    then show False using that cur(2,3) I(3) b(2) by (auto simp: mn_def ring_def)
  qed
  have hd: "?nx cur = hd cs" "cs = hd cs # tl cs" if mn
    using single [OF that] cur(2) by (cases cs; simp add: ring_def)+
  have "(if sz \<noteq> 0 then set_units b (SLOB_UNITS sz) s else s) = s\<lparr>s_units := u1\<rparr>" by (simp add: set_units_def u1_def n(1))
  then have eval: "slob_free b sz s = Some ?s'"
    unfolding slob_free_def mn_def mp_def u2_def u3_def nx2_def nx3_def using ncur b(2) cur(1) u1_def
    by (simp add: Let_def set_units_def set_next_def)
  have set: "set (cur # ?cs) = insert b ?R - (if mn then {?nx cur} else {}) - (if mp then {b} else {})"
    using hd cur(2) bR unfolding cur(3) [symmetric] ring_def by (cases cs; cases mn) auto
  have nA: "\<not> mp" if "cur = A" using that I(4) b(2) by (simp add: mp_def)
  note U = slob_free_units [of ?u ?R n b cur "?nx cur" mn mp u1 u2 u3, OF I(2) n(2) _ ncur(1,2) _ mn_def mp_def u1_def u2_def u3_def set]
  have dis: "{b..<b + n} \<inter> slots ?u ?R = {}" using b(1) by (simp add: free_slots_def)
  have cn: "mn \<Longrightarrow> cur \<noteq> ?nx cur" using hd cur(2) by (cases cs) (auto simp: ring_def)
  have A3: "A \<in> set (cur # ?cs)" "u3 A = 1" "\<forall>x\<in>set (cur # ?cs). x \<noteq> A \<longrightarrow> A + 1 < x"
    unfolding set using I(3-5) b(2) bR nA by (auto simp: mn_def u3_def u2_def u1_def)
  have R3: "ring nx3 cur ?cs"
    by (rule slob_free_ring [OF cur(2) _ single nx2_def nx3_def]) (use bR cur(3) in auto)
  have Ac: "A \<le> cur" "A < b" using I(5) ncur(1) b(2) by fastforce+
  note pl = ordered_here [OF I(6) ncur(1) Ac cur(4)]
  have nb: "b < ?nx cur" if mn using that n(2) by (simp add: mn_def)
  have O3: "ordered A nx3 (set (cur # ?cs))"
    by (rule slob_free_ordered [OF I(6) ncur(1) Ac(1) pl(1,2) bR ncur(2) nb nx2_def nx3_def set])
  note C3 = slob_free_coalesced [OF I(2,7) n(2) dis ncur(1,2) pl(1) cn pl(3,4) mn_def mp_def u1_def u2_def u3_def set]
  show thesis
  proof (rule that [OF eval, of ?cs])
    show "free_inv A ?s' ?cs" using U(1) [OF dis cn] R3 A3 O3 C3(2) by (simp add: free_inv_def)
    show "coalesced ?u ?R b n (s_units ?s') (set (slobfree ?s' # ?cs))" using C3(1) by simp
    show "free_slots ?s' ?cs = free_slots s bs \<union> {b..<b + n}" using U(2) [OF dis cn] by (simp add: free_slots_def)
    show "\<exists>x\<in>set (slobfree ?s' # ?cs). {b..<b + n} \<subseteq> ublk (s_units ?s') x" using U(3) [OF dis cn] by simp
    show "s_units ?s' x = s_units s x" if "x \<notin> free_slots ?s' ?cs" for x
      using U(4) [OF dis cn, of x] that by (simp add: free_slots_def)
  qed simp_all
qed

section \<open>Allocating a block\<close>

lemma slob_split_ordered:
  assumes a: "apart u R" and o: "ordered A nx R" and p: "prev \<in> R" "A \<le> prev" "cur \<in> R" "nx prev = cur" "cur \<noteq> A" "nx cur \<in> R" and k: "0 < k" "k < u cur"
  shows "ordered A ((nx(prev := cur + k))(cur + k := nx cur)) (insert (cur + k) (R - {cur}))"
proof -
  have lt: "prev < cur" using o p by (auto simp: ordered_def above_def)
  have fR: "cur + k \<notin> R" using apart_lt [OF a p(3), of "cur + k"] k by linarith
  have "above A R cur (nx cur)" using o p(3) by (simp add: ordered_def)
  then have "nx cur = A \<or> cur < nx cur" by (auto simp: above_def)
  then have nR: "nx cur = A \<or> cur + k < nx cur" using apart_lt [OF a p(3,6)] k(2) by linarith
  have "ordered A ((nx(prev := nx cur))(cur + k := (nx(prev := nx cur)) prev, prev := cur + k)) (insert (cur + k) (R - {cur}))"
    by (rule ordered_insert [OF ordered_remove [OF o p(1,3,4,5)]]) (use p lt fR nR in auto)
  moreover have "(nx(prev := nx cur))(cur + k := (nx(prev := nx cur)) prev, prev := cur + k) = (nx(prev := cur + k))(cur + k := nx cur)"
    using lt by auto
  ultimately show ?thesis by simp
qed

lemma slob_split_gaps:
  assumes a: "apart u R" and g: "gaps u R" and c: "cur \<in> R" "0 < k" "k < u cur"
  shows "gaps (u(cur + k := u cur - k, cur := k)) (insert (cur + k) (R - {cur}))"
proof -
  have fR: "cur + k \<notin> R" using apart_lt [OF a c(1), of "cur + k"] c by linarith
  have "x + u x \<noteq> cur + k" if x: "x \<in> R" "x \<noteq> cur" for x
    using apart_lt [OF a x(1) c(1)] apart_lt [OF a c(1) x(1)] x(2) c by linarith
  moreover have "cur + u cur \<notin> R" using g c(1) by (simp add: gaps_def)
  ultimately show ?thesis using g c fR by (auto simp: gaps_def)
qed

lemma slob_take_spec:
  assumes inv: "free_inv A s bs" and pc: "prev \<in> set (slobfree s # bs)" "s_next s prev = cur" and u: "2 \<le> units" "units \<le> s_units s cur"
  obtains s' bs' where "slob_take units 0 prev cur s = (cur, s')" "free_inv A s' bs'" "free_slots s' bs' = free_slots s bs - {cur..<cur + units}"
    "{cur..<cur + units} \<subseteq> free_slots s bs" "A + 1 < cur" "s_units s' cur = units"
    "\<And>x. x \<notin> free_slots s bs \<Longrightarrow> s_units s' x = s_units s x" "kvm s' = kvm s" "bigblocks s' = bigblocks s"
proof -
  let ?u = "s_units s" and ?nx = "s_next s" and ?R = "set (slobfree s # bs)"
  have I: "ring ?nx (slobfree s) bs" "apart ?u ?R" "A \<in> ?R" "?u A = 1" "\<forall>x\<in>?R. x \<noteq> A \<longrightarrow> A + 1 < x"
    "ordered A ?nx ?R" "gaps ?u ?R"
    using inv by (simp_all add: free_inv_def)
  have cR: "cur \<in> ?R" "cur \<noteq> A" using ring_next [OF I(1) pc(1)] pc(2) I(4) u by auto
  then have cA: "A + 1 < cur" using I(5) by blast
  obtain es where es: "ring ?nx prev es" "set (prev # es) = ?R" by (rule ring_from [OF I(1) pc(1)])
  then obtain ds where ds: "es = cur # ds" using cR I(3) pc(2) by (cases es) (auto simp: ring_def)
  have R: "?R - {cur} = set (prev # ds)" "prev \<noteq> cur" "cur \<notin> set ds" using es by (auto simp: ds ring_def)
  have sub: "{cur..<cur + units} \<subseteq> free_slots s bs" using cR(1) u by (fastforce simp: free_slots_def slots_def ublk_def)
  have o1: "ordered A (?nx(prev := ?nx cur)) (?R - {cur})"
    by (rule ordered_remove [OF I(6) pc(1) cR(1) pc(2) cR(2)])
  show thesis
  proof (cases "?u cur = units")
    case True
    let ?s' = "s\<lparr>s_next := ?nx(prev := ?nx cur), slobfree := prev\<rparr>"
    have fs: "free_slots ?s' ds = free_slots s bs - {cur..<cur + units}"
      using apart_remove(2) [OF I(2) cR(1)] R(1) True by (simp add: free_slots_def ublk_def)
    show thesis
    proof (rule that [of ?s' ds])
      show "slob_take units 0 prev cur s = (cur, ?s')" using True by (simp add: slob_take_def set_next_def)
      have "ring (?nx(prev := ?nx cur)) prev ds" using es(1) unfolding ds by (cases ds) (auto simp: ring_def)
      moreover have "A \<in> set (prev # ds)" "\<forall>x\<in>set (prev # ds). x \<noteq> A \<longrightarrow> A + 1 < x"
        unfolding R(1) [symmetric] using I(3,5) cR(2) by auto
      moreover have "ordered A (?nx(prev := ?nx cur)) (set (prev # ds))" unfolding R(1) [symmetric] by (rule o1)
      moreover have "gaps ?u (set (prev # ds))" unfolding R(1) [symmetric] by (rule gaps_subset [OF I(7)]) blast
      ultimately show "free_inv A ?s' ds"
        using apart_remove(1) [OF I(2) cR(1)] I(4) unfolding R(1) free_inv_def by simp
    qed (use fs sub cA True in simp_all)
  next
    case False
    then have lt: "0 < units" "units < ?u cur" using u by simp_all
    let ?f = "cur + units"
    let ?u' = "?u(?f := ?u cur - units)"
    let ?s' = "s\<lparr>s_units := ?u'(cur := units), s_next := (?nx(prev := ?f))(?f := ?nx cur), slobfree := prev\<rparr>"
    note sp = apart_split [OF I(2) cR(1) lt]
    have fb: "?f \<in> ublk ?u cur" using lt by (simp add: ublk_def)
    have fR: "?f \<notin> ?R" using apart_lt [OF I(2) cR(1), of ?f] lt by linarith
    have R': "set (prev # ?f # ds) = insert ?f (?R - {cur})" using R by auto
    have nc: "cur \<notin> insert ?f (?R - {cur})" using lt by simp
    have fs: "free_slots ?s' (?f # ds) = free_slots s bs - {cur..<cur + units}"
      unfolding free_slots_def sp(2) [symmetric] R' [symmetric] using slots_upd [OF nc, of ?u' units] R' by simp
    have ap: "apart (?u'(cur := units)) (insert ?f (?R - {cur}))"
      using nc sp(1) by (rule apart_upd)
    show thesis
    proof (rule that [of ?s' "?f # ds"])
      show "slob_take units 0 prev cur s = (cur, ?s')"
      proof -
        have "prev \<noteq> ?f" "cur \<noteq> ?f" "cur \<noteq> prev" using fR pc(1) lt R(2) by auto
        then show ?thesis using False by (simp add: slob_take_def set_next_def set_units_def Let_def)
      qed
      have "ring ((?nx(prev := ?f))(?f := ?nx cur)) prev (?f # ds)"
      proof -
        have "?f \<notin> set (prev # ds)" using fR R(1) by blast
        then show ?thesis using es(1) unfolding ds by (cases ds) (auto simp: ring_def)
      qed
      moreover have "A + 1 < ?f" "?f \<noteq> A" using I(5) cR by fastforce+
      then have "A \<in> set (prev # ?f # ds)" "\<forall>x\<in>set (prev # ?f # ds). x \<noteq> A \<longrightarrow> A + 1 < x" "(?u'(cur := units)) A = 1"
        unfolding R' using I(3-5) cR(2) by auto
      moreover have "ordered A ((?nx(prev := ?f))(?f := ?nx cur)) (set (prev # ?f # ds))" unfolding R'
        by (rule slob_split_ordered [OF I(2,6) pc(1) _ cR(1) pc(2) cR(2) ring_next [OF I(1) cR(1)] lt]) (use I(5) pc(1) in fastforce)
      moreover have "gaps (?u'(cur := units)) (set (prev # ?f # ds))" unfolding R' by (rule slob_split_gaps [OF I(2,7) cR(1) lt])
      ultimately show "free_inv A ?s' (?f # ds)" using ap unfolding R' [symmetric] free_inv_def by simp
      show "s_units ?s' x = s_units s x" if "x \<notin> free_slots s bs" for x
      proof -
        have "?f \<in> free_slots s bs" "cur \<in> free_slots s bs"
          using fb cR(1) in_slots [OF I(2) cR(1)] by (auto simp: free_slots_def slots_def)
        then show ?thesis using that by auto
      qed
    qed (use fs sub cA in simp_all)
  qed
qed

text \<open>One round over the ring: the first block that is large enough is taken, or there is none and the search is back at \<open>slobfree\<close>.\<close>

lemma slob_delta_0 [simp]: "slob_delta 0 cur = 0"
  by (simp add: slob_delta_def)

lemma slob_alloc_round:
  assumes "slinks (s_next s) prev cs (slobfree s)" "slobfree s \<notin> set cs"
  shows "(\<exists>p\<in>set (prev # cs). units \<le> s_units s (s_next s p)
       \<and> slob_alloc_loop sz 0 units prev (s_next s prev) s
         = (let (b, s1) = slob_take units 0 p (s_next s p) s in Some (Some b, s1)))
    \<or> ((\<forall>x\<in>insert (slobfree s) (set cs). s_units s x < units) \<and> (\<exists>p. s_next s p = slobfree s \<and>
        slob_alloc_loop sz 0 units prev (s_next s prev) s = slob_alloc_loop sz 0 units p (slobfree s) s))"
  using assms
proof (induction cs arbitrary: prev)
  case Nil
  then have e: "s_next s prev = slobfree s" by simp
  show ?case
  proof (cases "units \<le> s_units s (slobfree s)")
    case True
    then show ?thesis by (intro disjI1 bexI [of _ prev]) (subst slob_alloc_loop.simps, auto simp: e)
  next
    case False
    then show ?thesis using e by (intro disjI2) auto
  qed
next
  case (Cons c cs)
  then have e: "s_next s prev = c" "slinks (s_next s) c cs (slobfree s)" "slobfree s \<notin> set cs" "c \<noteq> slobfree s" by auto
  show ?case
  proof (cases "units \<le> s_units s c")
    case True
    then show ?thesis by (intro disjI1 bexI [of _ prev]) (subst slob_alloc_loop.simps, auto simp: e)
  next
    case False
    then have go: "slob_alloc_loop sz 0 units prev c s = slob_alloc_loop sz 0 units c (s_next s c) s"
      using e by (subst slob_alloc_loop.simps) simp
    show ?thesis using Cons.IH [OF e(2,3)] False unfolding e(1) go by auto
  qed
qed

section \<open>Pages of the heap\<close>

definition kslot :: "nat \<Rightarrow> nat" where
  "kslot f = 0xFFFFFFFFC000000 + 256 * f"

definition page_slots :: "nat \<Rightarrow> nat set" where
  "page_slots f = {kslot f..<kslot f + 256}"

lemma page2kva_slot:
  assumes "f < npages"
  obtains kva where "page2kva f = Some kva" "unat kva div SLOB_UNIT = kslot f"
proof -
  have b: "f < 0x5FF" using assms by (simp add: npages_def npage_def nbase_def)
  have "page2pa f = of_nat ((f + nbase) * 4096)"
    unfolding page2pa_def page2ppn_def push_bit_of_nat by (simp add: push_bit_nat_def)
  then have "page2pa f + va_pa_offset = of_nat (0xFFFFFFFFC0000000 + 4096 * f)"
    by (simp add: va_pa_offset_def KERNBASE_def nbase_def algebra_simps)
  moreover have "0xFFFFFFFFC0000000 + 4096 * f < 2 ^ 64" using b by simp
  ultimately have "unat (page2pa f + va_pa_offset) = 0xFFFFFFFFC0000000 + 4096 * f"
    by (simp only: unat_of_nat) (simp add: take_bit_nat_eq_self)
  then have "unat (page2pa f + va_pa_offset) div SLOB_UNIT = kslot f" by (simp add: SLOB_UNIT_def kslot_def)
  moreover have "page2kva f = Some (page2pa f + va_pa_offset)"
    using KADDR_page2pa [OF assms] by (simp add: page2kva_def KADDR_def pa2page_def split: if_split_asm)
  ultimately show thesis by (metis that)
qed

lemma page_slots_disjoint: "f \<noteq> g \<Longrightarrow> page_slots f \<inter> page_slots g = {}"
  by (auto simp: page_slots_def kslot_def)

text \<open>The answer of the page allocator, seen from the heap.\<close>

lemma slob_get_free_page_spec:
  assumes "frame_inv (kvm s) F" "F \<noteq> {} \<or> \<not> swap_init_ok (kvm s)"
  obtains "F = {}" "slob_get_free_pages 0 s = Some (None, s)"
  | f v where "f \<in> F" "slob_get_free_pages 0 s = Some (Some (kslot f), s\<lparr>kvm := v\<rparr>)" "frame_inv v (F - {f})"
      "swap_init_ok v = swap_init_ok (kvm s)"
proof (cases "F = {}")
  case True
  then have "slob_get_free_pages 0 s = Some (None, s)"
    using alloc_page_spec [OF assms(1)] assms(2) by (simp add: slob_get_free_pages_def)
  then show thesis using that(1) True by blast
next
  case False
  then obtain f m where f: "alloc_pages 1 (kvm s) = Some (Some f, (kvm s)\<lparr>pmm := m\<rparr>)" "f \<in> F"
    "frame_inv ((kvm s)\<lparr>pmm := m\<rparr>) (F - {f})" using alloc_page_spec [OF assms(1)] by blast
  obtain kva where "page2kva f = Some kva" "unat kva div SLOB_UNIT = kslot f"
    using page2kva_slot frame_inv_bound [OF assms(1) f(2)] .
  then have "slob_get_free_pages 0 s = Some (Some (kslot f), s\<lparr>kvm := (kvm s)\<lparr>pmm := m\<rparr>\<rparr>)"
    using f by (simp add: slob_get_free_pages_def)
  then show thesis using that(2) [OF f(2) _ f(3)] by simp
qed

section \<open>The heap invariant\<close>

text \<open>
  \<open>live\<close> gives the units of every block in use by its head.  All blocks of the heap, and the pages of the large blocks, lie in
  frames that are not free; \<open>A\<close> is the arena, which no block of the heap touches.
\<close>

definition live_slots :: "(nat \<rightharpoonup> nat) \<Rightarrow> nat set" where
  "live_slots live = {x. \<exists>h n. live h = Some n \<and> h \<le> x \<and> x < h + n}"

definition heap_at :: "nat \<Rightarrow> slob_st \<Rightarrow> nat list \<Rightarrow> nat set \<Rightarrow> (nat \<rightharpoonup> nat) \<Rightarrow> bool" where
  "heap_at A s bs F live \<longleftrightarrow> free_inv A s bs
     \<and> live_slots live \<inter> free_slots s bs = {}
     \<and> (\<forall>f\<in>F. page_slots f \<inter> (free_slots s bs \<union> live_slots live \<union> bb_pages ` set (bigblocks s)) = {} \<and> A + 1 < kslot f)
     \<and> bb_pages ` set (bigblocks s) \<inter> (free_slots s bs \<union> live_slots live) = {}
     \<and> frame_inv (kvm s) F
     \<and> (\<forall>h n. live h = Some n \<longrightarrow> 2 \<le> n \<and> s_units s h = n \<and> A + 1 < h)
     \<and> (\<forall>h n k m. live h = Some n \<longrightarrow> live k = Some m \<longrightarrow> h \<noteq> k \<longrightarrow> {h..<h + n} \<inter> {k..<k + m} = {})"

definition heap_inv :: "nat \<Rightarrow> slob_st \<Rightarrow> nat set \<Rightarrow> (nat \<rightharpoonup> nat) \<Rightarrow> bool" where
  "heap_inv A s F live \<longleftrightarrow> (\<exists>bs. heap_at A s bs F live)"

lemma live_head: "live h = Some n \<Longrightarrow> {h..<h + n} \<subseteq> live_slots live"
  unfolding live_slots_def by (rule subsetI, rule CollectI, rule exI [of _ h], rule exI [of _ n]) simp

lemma live_slots_add: "live_slots (live(c \<mapsto> n)) \<subseteq> live_slots live \<union> {c..<c + n}"
  by (auto simp: live_slots_def split: if_split_asm)

lemma live_slots_remove: "live_slots (live(h := None)) \<subseteq> live_slots live"
  by (auto simp: live_slots_def split: if_split_asm)

lemma heap_atD:
  assumes "heap_at A s bs F live"
  shows "free_inv A s bs" "live_slots live \<inter> free_slots s bs = {}"
    "f \<in> F \<Longrightarrow> page_slots f \<inter> (free_slots s bs \<union> live_slots live \<union> bb_pages ` set (bigblocks s)) = {}" "f \<in> F \<Longrightarrow> A + 1 < kslot f"
    "bb_pages ` set (bigblocks s) \<inter> (free_slots s bs \<union> live_slots live) = {}" "frame_inv (kvm s) F"
    "live h = Some n \<Longrightarrow> 2 \<le> n \<and> s_units s h = n \<and> A + 1 < h"
    "live h = Some n \<Longrightarrow> live k = Some m \<Longrightarrow> h \<noteq> k \<Longrightarrow> {h..<h + n} \<inter> {k..<k + m} = {}"
  using assms unfolding heap_at_def by blast+

lemma heap_atI:
  assumes "free_inv A s bs" "live_slots live \<inter> free_slots s bs = {}"
    "\<And>f. f \<in> F \<Longrightarrow> page_slots f \<inter> (free_slots s bs \<union> live_slots live \<union> bb_pages ` set (bigblocks s)) = {}"
    "\<And>f. f \<in> F \<Longrightarrow> A + 1 < kslot f"
    "bb_pages ` set (bigblocks s) \<inter> (free_slots s bs \<union> live_slots live) = {}" "frame_inv (kvm s) F"
    "\<And>h n. live h = Some n \<Longrightarrow> 2 \<le> n \<and> s_units s h = n \<and> A + 1 < h"
    "\<And>h n k m. live h = Some n \<Longrightarrow> live k = Some m \<Longrightarrow> h \<noteq> k \<Longrightarrow> {h..<h + n} \<inter> {k..<k + m} = {}"
  shows "heap_at A s bs F live"
  unfolding heap_at_def by (intro conjI ballI allI impI assms)

lemma heap_at_live: "heap_at A s bs F live \<Longrightarrow> live h = Some n \<Longrightarrow> h \<in> live_slots live"
  using live_head [of live h n] heap_atD(7) [of A s bs F live h n] by auto

lemma heap_at_remove:
  assumes h: "heap_at A s bs F live"
  shows "heap_at A s bs F (live(h := None))"
proof -
  note sub = live_slots_remove [of live h]
  have "page_slots f \<inter> (free_slots s bs \<union> live_slots (live(h := None)) \<union> bb_pages ` set (bigblocks s)) = {}" if "f \<in> F" for f
    using heap_atD(3) [OF h that] sub by blast
  moreover have "bb_pages ` set (bigblocks s) \<inter> (free_slots s bs \<union> live_slots (live(h := None))) = {}"
    "live_slots (live(h := None)) \<inter> free_slots s bs = {}" using heap_atD(2,5) [OF h] sub by blast+
  ultimately show ?thesis using h unfolding heap_at_def by (simp split: if_split_asm)
qed

lemma heap_at_free:
  assumes h: "heap_at A s bs F live" and n: "n = (if sz \<noteq> 0 then SLOB_UNITS sz else s_units s b)" "0 < n" "A + 1 < b"
    and d: "{b..<b + n} \<inter> (free_slots s bs \<union> live_slots live \<union> bb_pages ` set (bigblocks s) \<union> \<Union> (page_slots ` F)) = {}"
  obtains s' bs' where "slob_free b sz s = Some s'" "heap_at A s' bs' F live" "free_slots s' bs' = free_slots s bs \<union> {b..<b + n}"
    "\<exists>x\<in>set (slobfree s' # bs'). n \<le> s_units s' x"
    "coalesced (s_units s) (set (slobfree s # bs)) b n (s_units s') (set (slobfree s' # bs'))"
proof -
  have "free_inv A s bs" "{b..<b + n} \<inter> free_slots s bs = {}" using h d by (auto simp: heap_at_def)
  from slob_free_spec [OF this(1) n(1,2) this(2) n(3)] obtain s' bs' where s': "slob_free b sz s = Some s'" "free_inv A s' bs'"
    "free_slots s' bs' = free_slots s bs \<union> {b..<b + n}" "\<exists>x\<in>set (slobfree s' # bs'). {b..<b + n} \<subseteq> ublk (s_units s') x"
    "\<And>x. x \<notin> free_slots s' bs' \<Longrightarrow> s_units s' x = s_units s x" "kvm s' = kvm s" "bigblocks s' = bigblocks s"
    and co: "coalesced (s_units s) (set (slobfree s # bs)) b n (s_units s') (set (slobfree s' # bs'))" by metis
  have dis: "live_slots live \<inter> free_slots s' bs' = {}" using h d s'(3) by (auto simp: heap_at_def)
  have "heap_at A s' bs' F live"
  proof (rule heap_atI [OF s'(2) dis], unfold s'(6,7))
    fix k m assume k: "live k = Some m"
    show "2 \<le> m \<and> s_units s' k = m \<and> A + 1 < k"
      using heap_atD(7) [OF h k] heap_at_live [OF h k] s'(5) [of k] dis by auto
  next
    fix f assume f: "f \<in> F"
    show "page_slots f \<inter> (free_slots s' bs' \<union> live_slots live \<union> bb_pages ` set (bigblocks s)) = {}"
      using heap_atD(3) [OF h f] d f s'(3) by blast
  next
    show "bb_pages ` set (bigblocks s) \<inter> (free_slots s' bs' \<union> live_slots live) = {}" using heap_atD(5) [OF h] d s'(3) by blast
  qed (rule heap_atD(4,6,8) [OF h]; assumption)+
  moreover obtain x where "x \<in> set (slobfree s' # bs')" "{b..<b + n} \<subseteq> {x..<x + s_units s' x}"
    using s'(4) by (auto simp: ublk_def)
  then have "\<exists>x\<in>set (slobfree s' # bs'). n \<le> s_units s' x"
    using card_mono [of "{x..<x + s_units s' x}" "{b..<b + n}"] by (intro bexI [of _ x]) auto
  ultimately show thesis using that s'(1,3) co by blast
qed

lemma heap_at_take:
  assumes h: "heap_at A s bs F live" and pc: "prev \<in> set (slobfree s # bs)" "s_next s prev = cur" and u: "2 \<le> units" "units \<le> s_units s cur"
  obtains s' bs' where "slob_take units 0 prev cur s = (cur, s')" "heap_at A s' bs' F (live(cur \<mapsto> units))" "{cur..<cur + units} \<inter> live_slots live = {}"
    "swap_init_ok (kvm s') = swap_init_ok (kvm s)"
proof -
  have fi: "free_inv A s bs" using h by (auto simp: heap_at_def)
  from slob_take_spec [OF this pc u] obtain s' bs' where s': "slob_take units 0 prev cur s = (cur, s')" "free_inv A s' bs'"
    "free_slots s' bs' = free_slots s bs - {cur..<cur + units}" "{cur..<cur + units} \<subseteq> free_slots s bs" "A + 1 < cur" "s_units s' cur = units"
    "\<And>x. x \<notin> free_slots s bs \<Longrightarrow> s_units s' x = s_units s x" "kvm s' = kvm s" "bigblocks s' = bigblocks s" by blast
  let ?l = "live(cur \<mapsto> units)"
  have new: "{cur..<cur + units} \<inter> live_slots live = {}" using h s'(4) by (auto simp: heap_at_def)
  have ls: "live_slots ?l \<subseteq> live_slots live \<union> {cur..<cur + units}" by (rule live_slots_add)
  have old: "{a..<a + b} \<subseteq> live_slots live" if "?l a = Some b" "a \<noteq> cur" for a b by (rule live_head) (use that in simp)
  have "heap_at A s' bs' F ?l"
  proof (rule heap_atI [OF s'(2)], unfold s'(8,9))
    fix k m assume k: "?l k = Some m"
    show "2 \<le> m \<and> s_units s' k = m \<and> A + 1 < k"
    proof (cases "k = cur")
      case False
      then show ?thesis using heap_atD(2,7) [OF h] heap_at_live [OF h, of k m] k s'(7) [of k] by auto
    qed (use k s'(5,6) u in auto)
    fix j i assume j: "?l j = Some i" "k \<noteq> j"
    show "{k..<k + m} \<inter> {j..<j + i} = {}"
    proof (cases "k = cur \<or> j = cur")
      case True
      have *: "{cur..<cur + units} \<inter> {a..<a + b} = {}" if "?l a = Some b" "a \<noteq> cur" for a b using old [OF that] new by blast
      show ?thesis
      proof (cases "k = cur")
        case True
        then show ?thesis using * [OF j(1)] k j(2) by auto
      next
        case False
        then show ?thesis using * [OF k] \<open>k = cur \<or> j = cur\<close> j(1) by (auto simp: Int_commute)
      qed
    next
      case False
      then have "live k = Some m" "live j = Some i" using k j(1) by simp_all
      then show ?thesis using heap_atD(8) [OF h] j(2) by blast
    qed
  next
    show "live_slots ?l \<inter> free_slots s' bs' = {}" using heap_atD(2) [OF h] ls s'(3) by blast
    show "bb_pages ` set (bigblocks s) \<inter> (free_slots s' bs' \<union> live_slots ?l) = {}" using heap_atD(5) [OF h] ls s'(3,4) by blast
  next
    fix f assume f: "f \<in> F"
    show "page_slots f \<inter> (free_slots s' bs' \<union> live_slots ?l \<union> bb_pages ` set (bigblocks s)) = {}"
      using heap_atD(3) [OF h f] ls s'(3,4) by blast
  qed (rule heap_atD(4,6,8) [OF h]; assumption)+
  then show thesis using that s'(1,8) new by simp
qed

section \<open>kmalloc and kfree\<close>

text \<open>If the ring has a block that is large enough, the search takes one.\<close>

lemma slob_alloc_fits:
  assumes h: "heap_at A s bs F live" and u: "2 \<le> units" and x: "x \<in> set (slobfree s # bs)" "units \<le> s_units s x"
  obtains c s' where "slob_alloc_loop sz 0 units (slobfree s) (s_next s (slobfree s)) s = Some (Some c, s')"
    "heap_inv A s' F (live(c \<mapsto> units))" "{c..<c + units} \<inter> live_slots live = {}"
proof -
  have "ring (s_next s) (slobfree s) bs" using heap_atD(1) [OF h] by (simp add: free_inv_def)
  then have sl: "slinks (s_next s) (slobfree s) bs (slobfree s)" "slobfree s \<notin> set bs" by (simp_all add: ring_def)
  have "\<not> (\<forall>x\<in>insert (slobfree s) (set bs). s_units s x < units)" using x by (auto simp: not_less)
  then obtain p where p: "p \<in> set (slobfree s # bs)" "units \<le> s_units s (s_next s p)"
    "slob_alloc_loop sz 0 units (slobfree s) (s_next s (slobfree s)) s
       = (let (b, s1) = slob_take units 0 p (s_next s p) s in Some (Some b, s1))"
    using slob_alloc_round [OF sl, of units sz] by blast
  obtain s' bs' where "slob_take units 0 p (s_next s p) s = (s_next s p, s')" "heap_at A s' bs' F (live(s_next s p \<mapsto> units))"
    "{s_next s p..<s_next s p + units} \<inter> live_slots live = {}"
    using heap_at_take [OF h p(1) refl u p(2)] by blast
  then show thesis using that p(3) by (auto simp: heap_inv_def)
qed

text \<open>A frame that was free becomes a block of 256 units, possibly as a part of a larger one.\<close>

lemma heap_at_grow:
  assumes h: "heap_at A s bs F live" and f: "f \<in> F" and v: "frame_inv v (F - {f})"
  obtains s2 bs2 where "slob_free (kslot f) PAGE_SIZE (s\<lparr>kvm := v\<rparr>) = Some s2" "heap_at A s2 bs2 (F - {f}) live"
    "\<exists>x\<in>set (slobfree s2 # bs2). 256 \<le> s_units s2 x"
proof -
  let ?s1 = "s\<lparr>kvm := v\<rparr>"
  have eq: "free_slots ?s1 bs = free_slots s bs" "free_inv A ?s1 bs = free_inv A s bs" by (simp_all add: free_slots_def free_inv_def)
  have h1: "heap_at A ?s1 bs (F - {f}) live"
    using h v unfolding heap_at_def eq by auto
  have "page_slots f \<inter> (free_slots ?s1 bs \<union> live_slots live \<union> bb_pages ` set (bigblocks ?s1)) = {}"
    unfolding eq using heap_atD(3) [OF h f] by simp
  moreover have "page_slots f \<inter> \<Union> (page_slots ` (F - {f})) = {}" using page_slots_disjoint by fastforce
  ultimately have d: "{kslot f..<kslot f + 256} \<inter> (free_slots ?s1 bs \<union> live_slots live \<union> bb_pages ` set (bigblocks ?s1)
      \<union> \<Union> (page_slots ` (F - {f}))) = {}"
    unfolding page_slots_def [of f] by blast
  have n: "256 = (if PAGE_SIZE \<noteq> 0 then SLOB_UNITS PAGE_SIZE else s_units ?s1 (kslot f))" "(0 :: nat) < 256"
    by (simp_all add: SLOB_UNITS_def SLOB_UNIT_def PAGE_SIZE_def)
  show thesis by (rule heap_at_free [OF h1 n heap_atD(4) [OF h f] d]) (rule that)
qed

lemma slob_alloc_spec:
  assumes hi: "heap_inv A s F live" and fr: "F \<noteq> {} \<or> \<not> swap_init_ok (kvm s)" and sz: "16 < sz" "sz + SLOB_UNIT < PAGE_SIZE"
  shows "(F = {} \<and> slob_alloc sz 0 s = Some (None, s)) \<or> (\<exists>c s' F'. F' \<subseteq> F \<and> slob_alloc sz 0 s = Some (Some c, s')
    \<and> heap_inv A s' F' (live(c \<mapsto> SLOB_UNITS sz)) \<and> {c..<c + SLOB_UNITS sz} \<inter> live_slots live = {})"
proof -
  obtain bs where h: "heap_at A s bs F live" using hi by (auto simp: heap_inv_def)
  have u: "2 \<le> SLOB_UNITS sz" "SLOB_UNITS sz \<le> 256" "SLOB_UNITS PAGE_SIZE = 256" "sz \<noteq> PAGE_SIZE"
    using sz by (auto simp: SLOB_UNITS_def SLOB_UNIT_def PAGE_SIZE_def)
  have al: "slob_alloc sz 0 s = slob_alloc_loop sz 0 (SLOB_UNITS sz) (slobfree s) (s_next s (slobfree s)) s"
    using sz(2) by (simp add: slob_alloc_def kassert_def)
  show ?thesis
  proof (cases "\<exists>x\<in>set (slobfree s # bs). SLOB_UNITS sz \<le> s_units s x")
    case True
    then obtain x where x: "x \<in> set (slobfree s # bs)" "SLOB_UNITS sz \<le> s_units s x" by blast
    show ?thesis unfolding al by (rule slob_alloc_fits [OF h u(1) x, of sz]) blast
  next
    case False
    then have less: "\<forall>x\<in>insert (slobfree s) (set bs). s_units s x < SLOB_UNITS sz" by (auto simp: not_le)
    have r: "ring (s_next s) (slobfree s) bs" using heap_atD(1) [OF h] by (simp add: free_inv_def)
    have nx: "s_next s p \<in> set (slobfree s # bs)" if "p \<in> set (slobfree s # bs)" for p by (rule ring_next [OF r that])
    obtain p where "s_next s p = slobfree s"
      and e: "slob_alloc_loop sz 0 (SLOB_UNITS sz) (slobfree s) (s_next s (slobfree s)) s = slob_alloc_loop sz 0 (SLOB_UNITS sz) p (slobfree s) s"
      using slob_alloc_round [of s "slobfree s" bs "SLOB_UNITS sz" sz] r less nx unfolding ring_def
      by (metis distinct.simps(2) leD list.simps(15))
    have e2: "slob_alloc sz 0 s = do {
        (pg, s1) \<leftarrow> slob_get_free_pages 0 s;
        case pg of None \<Rightarrow> Some (None, s1)
        | Some p \<Rightarrow> do {
            s2 \<leftarrow> slob_free p PAGE_SIZE s1;
            slob_alloc_loop sz 0 (SLOB_UNITS sz) (slobfree s2) (s_next s2 (slobfree s2)) s2
          }
      }"
      unfolding al e by (subst slob_alloc_loop.simps) (use less u in simp)
    from heap_atD(6) [OF h] fr show ?thesis
    proof (cases rule: slob_get_free_page_spec)
      case 1
      then show ?thesis unfolding e2 by simp
    next
      case (2 f v)
      obtain s2 bs2 where s2: "slob_free (kslot f) PAGE_SIZE (s\<lparr>kvm := v\<rparr>) = Some s2" "heap_at A s2 bs2 (F - {f}) live"
        "\<exists>x\<in>set (slobfree s2 # bs2). 256 \<le> s_units s2 x" by (rule heap_at_grow [OF h 2(1,3)])
      then obtain x where x: "x \<in> set (slobfree s2 # bs2)" "SLOB_UNITS sz \<le> s_units s2 x" using u(2) le_trans by blast
      obtain c s' where "slob_alloc_loop sz 0 (SLOB_UNITS sz) (slobfree s2) (s_next s2 (slobfree s2)) s2 = Some (Some c, s')"
        "heap_inv A s' (F - {f}) (live(c \<mapsto> SLOB_UNITS sz))" "{c..<c + SLOB_UNITS sz} \<inter> live_slots live = {}"
        by (rule slob_alloc_fits [OF s2(2) u(1) x])
      then show ?thesis unfolding e2 using 2(2) s2(1) by (intro disjI2) (rule exI [of _ c], auto)
    qed
  qed
qed

text \<open>
  C33. While a page can be had, or running out of pages is not fatal, \<open>kmalloc\<close> of 1 to 4063 bytes returns: null, without any
  effect, only if no frame is free, and otherwise a block that is large enough, that overlaps no block in use, and with which the
  heap is again well formed.
\<close>

theorem kmalloc_disjoint:
  assumes "heap_inv A s F live" "F \<noteq> {} \<or> \<not> swap_init_ok (kvm s)" "0 < sz" "sz < 4064"
  shows "(F = {} \<and> kmalloc sz s = Some (None, s)) \<or> (\<exists>h n s' F'. kmalloc sz s = Some (Some (h + 1), s') \<and> F' \<subseteq> F
    \<and> heap_inv A s' F' (live(h \<mapsto> n)) \<and> sz \<le> SLOB_UNIT * (n - 1) \<and> {h..<h + n} \<inter> live_slots live = {})"
proof -
  have "16 < sz + SLOB_UNIT" "sz + SLOB_UNIT + SLOB_UNIT < PAGE_SIZE" "sz < PAGE_SIZE - SLOB_UNIT"
    "sz \<le> SLOB_UNIT * (SLOB_UNITS (sz + SLOB_UNIT) - 1)"
    using assms(3,4) by (simp_all add: SLOB_UNIT_def PAGE_SIZE_def SLOB_UNITS_def)
  then show ?thesis using slob_alloc_spec [OF assms(1,2), of "sz + SLOB_UNIT"] by (auto simp: kmalloc_def)
qed

text \<open>
  C34. \<open>kfree\<close> of a block in use returns.  Exactly the units of the block become free: the free blocks that touch it, below or
  above, become one block with it, and every other free block stays in the ring as it was.  The heap is well formed with the other blocks in
  use as before: the ring is ordered by address and no free block ends where another begins.
\<close>

theorem kfree_releases:
  assumes "heap_at A s bs F live" "live h = Some n"
  shows "\<exists>s' bs'. kfree (Some (h + 1)) s = Some s' \<and> heap_at A s' bs' F (live(h := None)) \<and>
    free_slots s' bs' = free_slots s bs \<union> {h..<h + n} \<and>
    coalesced (s_units s) (set (slobfree s # bs)) h n (s_units s') (set (slobfree s' # bs'))"
proof -
  note a = assms(1)
  note n = heap_atD(7) [OF a assms(2)]
  have in_live: "{h..<h + n} \<subseteq> live_slots live" using assms(2) by (rule live_head)
  have rest: "{h..<h + n} \<inter> live_slots (live(h := None)) = {}"
    using heap_atD(8) [OF a assms(2)] by (fastforce simp: live_slots_def split: if_split_asm)
  have dis: "{h..<h + n} \<inter> (free_slots s bs \<union> live_slots (live(h := None)) \<union> bb_pages ` set (bigblocks s) \<union> \<Union> (page_slots ` F)) = {}"
    using heap_atD(2,3,5) [OF a] in_live rest by blast
  have "h + 1 \<in> {h..<h + n}" using n by simp
  then have "find (\<lambda>bb. bb_pages bb = h + 1) (bigblocks s) = None"
    using heap_atD(5) [OF a] subsetD [OF in_live, of "h + 1"] unfolding find_None_iff by (metis IntI UnCI empty_iff imageI)
  then have kf: "kfree (Some (h + 1)) s = slob_free h 0 s" by (simp add: kfree_def)
  have "n = (if (0 :: nat) \<noteq> 0 then SLOB_UNITS 0 else s_units s h)" "0 < n" "A + 1 < h" using n by auto
  from heap_at_free [OF heap_at_remove [OF a] this dis] show ?thesis unfolding kf by metis
qed

section \<open>An example\<close>

text \<open>A block of five units in use and, directly above it, a free block of three.\<close>

definition example_heap :: slob_st where
  "example_heap = set_next (kslot 1) (kslot 2 + 5) (set_next (kslot 2 + 5) (kslot 1) (set_units (kslot 2 + 5) 3
     (set_units (kslot 2) 5 (slob_init_arena (kslot 1) (example_vm (\<lambda>_ _. 0))))))"

lemma example_heap_simps:
  "slobfree example_heap = kslot 1" "s_next example_heap (kslot 1) = kslot 2 + 5" "s_next example_heap (kslot 2 + 5) = kslot 1"
  "s_units example_heap (kslot 1) = 1" "s_units example_heap (kslot 2 + 5) = 3" "s_units example_heap (kslot 2) = 5"
  "bigblocks example_heap = []" "kvm example_heap = example_vm (\<lambda>_ _. 0)"
  by (simp_all add: example_heap_def slob_init_arena_def set_units_def set_next_def kslot_def)

lemma kslot_12: "kslot 2 = kslot 1 + 256"
  by (simp add: kslot_def)

lemma example_heap_at: "heap_at (kslot 1) example_heap [kslot 2 + 5] {4..<10} [kslot 2 \<mapsto> 5]"
proof (rule heap_atI)
  show "free_inv (kslot 1) example_heap [kslot 2 + 5]"
    by (simp add: free_inv_def ring_def apart_def ordered_def above_def gaps_def ublk_def
        example_heap_def slob_init_arena_def set_units_def set_next_def kslot_def)
  have fs: "free_slots example_heap [kslot 2 + 5] = {kslot 1} \<union> {kslot 2 + 5..<kslot 2 + 8}"
    by (auto simp: free_slots_def slots_def ublk_def example_heap_simps [simplified])
  have ls: "live_slots [kslot 2 \<mapsto> 5] = {kslot 2..<kslot 2 + 5}" by (auto simp: live_slots_def split: if_split_asm)
  show "live_slots [kslot 2 \<mapsto> 5] \<inter> free_slots example_heap [kslot 2 + 5] = {}" unfolding fs ls by (auto simp: kslot_12)
  note b = example_heap_simps(7)
  show "page_slots f \<inter> (free_slots example_heap [kslot 2 + 5] \<union> live_slots [kslot 2 \<mapsto> 5] \<union> bb_pages ` set (bigblocks example_heap)) = {}"
    if "f \<in> {4..<10}" for f using that unfolding fs ls b by (auto simp: page_slots_def kslot_def)
  show "bb_pages ` set (bigblocks example_heap) \<inter> (free_slots example_heap [kslot 2 + 5] \<union> live_slots [kslot 2 \<mapsto> 5]) = {}" by (simp add: b)
  show "frame_inv (kvm example_heap) {4..<10}" using example_frame_inv by (simp add: example_heap_simps)
qed (auto simp: kslot_def example_heap_def slob_init_arena_def set_units_def set_next_def split: if_split_asm)

lemma example_heap_inv: "heap_inv (kslot 1) example_heap {4..<10} [kslot 2 \<mapsto> 5]"
  using example_heap_at unfolding heap_inv_def by blast

theorem kmalloc_disjoint_witness:
  "\<exists>h n s' F'. kmalloc 100 example_heap = Some (Some (h + 1), s') \<and> heap_inv (kslot 1) s' F' [kslot 2 \<mapsto> 5, h \<mapsto> n]
     \<and> 100 \<le> SLOB_UNIT * (n - 1)"
  using kmalloc_disjoint [OF example_heap_inv, of 100] by auto

theorem kfree_releases_witness:
  "\<exists>s' bs' x. kfree (Some (kslot 2 + 1)) example_heap = Some s' \<and> heap_at (kslot 1) s' bs' {4..<10} Map.empty \<and>
     set (slobfree s' # bs') = {kslot 1, x} \<and> ublk (s_units s') x = {kslot 2..<kslot 2 + 8}"
proof -
  have t: "touching (s_units example_heap) (set (slobfree example_heap # [kslot 2 + 5])) (kslot 2) 5 = {kslot 2 + 5}"
    by (auto simp: touching_def example_heap_def slob_init_arena_def set_units_def set_next_def kslot_def)
  have "slots (s_units example_heap) {kslot 2 + 5} = {kslot 2 + 5..<kslot 2 + 8}"
    by (auto simp: slots_def ublk_def example_heap_simps)
  then have u: "{kslot 2..<kslot 2 + 5} \<union> slots (s_units example_heap) {kslot 2 + 5} = {kslot 2..<kslot 2 + 8}" by auto
  have r: "set (slobfree example_heap # [kslot 2 + 5]) - {kslot 2 + 5} = {kslot 1}" by (auto simp: example_heap_simps kslot_12)
  have l: "[kslot 2 \<mapsto> 5](kslot 2 := None) = Map.empty" by auto
  show ?thesis
    using kfree_releases [OF example_heap_at, of "kslot 2" 5] unfolding coalesced_def t u r l by (simp add: insert_commute) metis
qed

text \<open>
  A request for 4064 to 4079 bytes passes the test of \<open>kmalloc\<close> for small blocks but not the assertion of \<open>slob_alloc\<close>.
\<close>

lemma kmalloc_asserts: "4064 \<le> sz \<Longrightarrow> sz < 4080 \<Longrightarrow> kmalloc sz s = None"
  by (simp add: kmalloc_def slob_alloc_def kassert_def SLOB_UNIT_def PAGE_SIZE_def)

text \<open>\<open>find_order\<close> rounds down: 8193 bytes are given the two pages that hold 8192.\<close>

lemma find_order_too_small: "4096 * 2 ^ find_order 8193 < (8193 :: nat)"
  by (simp add: find_order.simps)

end
