(* ===== verification/SfsIO.thy ===== *)
theory SfsIO
  imports Dev Bitmap
begin

text \<open>
  The simple file system, first part: its data on disk and in memory (\<^verbatim>\<open>kern/fs/sfs/sfs.h\<close>), its locks (\<^verbatim>\<open>sfs_lock.c\<close>), the
  transfer of blocks (\<^verbatim>\<open>sfs_io.c\<close>) and, from \<^verbatim>\<open>sfs_inode.c\<close>, the allocation of blocks and the block map of an inode.

  Objects the code copies to and from disk as raw bytes are records here, with functions that give their bytes.  The block buffer
  \<^verbatim>\<open>sfs_buffer\<close> is an address of the modelled memory, because the device transfers from and to it; the data of the bitmap get an
  address for the same reason, and are put there when they are written to disk.  \<open>D\<close> is the table of device drivers.  The
  semaphores are binary; waiting for one that is held is the value \<open>None\<close>.  A \<^verbatim>\<open>struct sfs_fs\<close> is named by the address of the
  \<^verbatim>\<open>struct fs\<close> around it, a \<^verbatim>\<open>struct sfs_inode\<close> by that of its inode.
\<close>

section \<open>Data\<close>

definition SFS_MAGIC :: u32 where "SFS_MAGIC = 0x2f8dbe2a"
definition SFS_BLKSIZE :: nat where "SFS_BLKSIZE = 4096"
definition SFS_NDIRECT :: nat where "SFS_NDIRECT = 12"
definition SFS_MAX_INFO_LEN :: nat where "SFS_MAX_INFO_LEN = 31"
definition SFS_MAX_FNAME_LEN :: nat where "SFS_MAX_FNAME_LEN = 255"
definition SFS_MAX_FILE_SIZE :: u64 where "SFS_MAX_FILE_SIZE = 1024 * 1024 * 128"
definition SFS_BLKN_SUPER :: u32 where "SFS_BLKN_SUPER = 0"
definition SFS_BLKN_ROOT :: u32 where "SFS_BLKN_ROOT = 1"
definition SFS_BLKN_FREEMAP :: u32 where "SFS_BLKN_FREEMAP = 2"
definition SFS_BLKBITS :: nat where "SFS_BLKBITS = SFS_BLKSIZE * 8"
definition SFS_BLK_NENTRY :: nat where "SFS_BLK_NENTRY = SFS_BLKSIZE div 4"
definition SFS_TYPE_FILE :: u16 where "SFS_TYPE_FILE = 1"
definition SFS_TYPE_DIR :: u16 where "SFS_TYPE_DIR = 2"
definition SFS_TYPE_LINK :: u16 where "SFS_TYPE_LINK = 3"

record sfs_super =
  sb_magic :: u32
  sb_blocks :: u32
  sb_unused_blocks :: u32
  sb_info :: "u8 list"

record sfs_disk_inode =
  din_size :: u32
  din_type :: u16
  din_nlinks :: u16
  din_blocks :: u32
  din_direct :: "u32 list"
  din_indirect :: u32

record sfs_disk_entry =
  de_ino :: u32
  de_name :: "u8 list"

record sfs_inode =
  sin_din :: sfs_disk_inode
  sin_ino :: u32
  sin_dirty :: bool
  sin_reclaim_count :: int
  sin_locked :: bool

record sfs_fs =
  sfs_sup :: sfs_super
  sfs_dev :: device
  sfs_freemap :: bitmap
  sfs_freemap_at :: nat
  sfs_super_dirty :: bool
  sfs_buffer :: nat
  sfs_fs_locked :: bool
  sfs_io_locked :: bool
  sfs_inode_list :: "ptr list"
  sfs_hlist :: "nat \<Rightarrow> ptr list"

record sfs_st = dev_st +
  sfss :: "ptr \<rightharpoonup> sfs_fs"
  sins :: "ptr \<rightharpoonup> sfs_inode"

definition SFS_HLIST_SHIFT :: nat where "SFS_HLIST_SHIFT = 10"
definition sin_hashfn :: "u32 \<Rightarrow> nat" where "sin_hashfn x = unat (hash32 x SFS_HLIST_SHIFT)"

definition sfs_freemap_bits :: "sfs_super \<Rightarrow> u32" where
  "sfs_freemap_bits sb = of_nat ((unat (sb_blocks sb) + SFS_BLKBITS - 1) div SFS_BLKBITS * SFS_BLKBITS)"

definition sfs_freemap_blocks :: "sfs_super \<Rightarrow> u32" where
  "sfs_freemap_blocks sb = of_nat ((unat (sb_blocks sb) + SFS_BLKBITS - 1) div SFS_BLKBITS)"

definition upd_sfs :: "ptr \<Rightarrow> (sfs_fs \<Rightarrow> sfs_fs) \<Rightarrow> 'a sfs_st_scheme \<Rightarrow> 'a sfs_st_scheme" where
  "upd_sfs fp f s = s\<lparr>sfss := (sfss s)(fp := map_option f (sfss s fp))\<rparr>"

definition upd_sin :: "ptr \<Rightarrow> (sfs_inode \<Rightarrow> sfs_inode) \<Rightarrow> 'a sfs_st_scheme \<Rightarrow> 'a sfs_st_scheme" where
  "upd_sin np f s = s\<lparr>sins := (sins s)(np := map_option f (sins s np))\<rparr>"

definition upd_din :: "ptr \<Rightarrow> (sfs_disk_inode \<Rightarrow> sfs_disk_inode) \<Rightarrow> 'a sfs_st_scheme \<Rightarrow> 'a sfs_st_scheme" where
  "upd_din np f = upd_sin np (\<lambda>i. i\<lparr>sin_din := f (sin_din i)\<rparr>)"

definition set_dirty :: "ptr \<Rightarrow> bool \<Rightarrow> 'a sfs_st_scheme \<Rightarrow> 'a sfs_st_scheme" where
  "set_dirty np d = upd_sin np (\<lambda>i. i\<lparr>sin_dirty := d\<rparr>)"

section \<open>Bytes of the objects on disk\<close>

definition mem_bytes :: "nat \<Rightarrow> nat \<Rightarrow> mem \<Rightarrow> u8 list" where
  "mem_bytes a n m = map (\<lambda>i. m (a + i)) [0..<n]"

definition mem_put :: "nat \<Rightarrow> u8 list \<Rightarrow> mem \<Rightarrow> mem" where
  "mem_put a bs m = (\<lambda>x. if a \<le> x \<and> x < a + length bs then bs ! (x - a) else m x)"

definition u32_bytes :: "u32 \<Rightarrow> u8 list" where
  "u32_bytes w = [ucast w, ucast (drop_bit 8 w), ucast (drop_bit 16 w), ucast (drop_bit 24 w)]"

definition u16_bytes :: "u16 \<Rightarrow> u8 list" where
  "u16_bytes w = [ucast w, ucast (drop_bit 8 w)]"

definition bytes_u32 :: "u8 list \<Rightarrow> u32" where
  "bytes_u32 bs = ucast (bs ! 0) OR push_bit 8 (ucast (bs ! 1)) OR push_bit 16 (ucast (bs ! 2)) OR push_bit 24 (ucast (bs ! 3))"

definition bytes_u16 :: "u8 list \<Rightarrow> u16" where
  "bytes_u16 bs = ucast (bs ! 0) OR push_bit 8 (ucast (bs ! 1))"

fun bytes_u32s :: "nat \<Rightarrow> u8 list \<Rightarrow> u32 list" where
  "bytes_u32s 0 bs = []"
| "bytes_u32s (Suc n) bs = bytes_u32 bs # bytes_u32s n (drop 4 bs)"

definition super_bytes :: "sfs_super \<Rightarrow> u8 list" where
  "super_bytes b = u32_bytes (sb_magic b) @ u32_bytes (sb_blocks b) @ u32_bytes (sb_unused_blocks b) @ sb_info b"

definition bytes_super :: "u8 list \<Rightarrow> sfs_super" where
  "bytes_super bs = \<lparr>sb_magic = bytes_u32 bs, sb_blocks = bytes_u32 (drop 4 bs), sb_unused_blocks = bytes_u32 (drop 8 bs),
     sb_info = take (SFS_MAX_INFO_LEN + 1) (drop 12 bs)\<rparr>"

definition sizeof_super :: nat where "sizeof_super = 12 + SFS_MAX_INFO_LEN + 1"

definition din_bytes :: "sfs_disk_inode \<Rightarrow> u8 list" where
  "din_bytes d = u32_bytes (din_size d) @ u16_bytes (din_type d) @ u16_bytes (din_nlinks d) @ u32_bytes (din_blocks d)
     @ concat (map u32_bytes (din_direct d)) @ u32_bytes (din_indirect d)"

definition bytes_din :: "u8 list \<Rightarrow> sfs_disk_inode" where
  "bytes_din bs = \<lparr>din_size = bytes_u32 bs, din_type = bytes_u16 (drop 4 bs), din_nlinks = bytes_u16 (drop 6 bs),
     din_blocks = bytes_u32 (drop 8 bs), din_direct = bytes_u32s SFS_NDIRECT (drop 12 bs),
     din_indirect = bytes_u32 (drop (12 + 4 * SFS_NDIRECT) bs)\<rparr>"

definition sizeof_din :: nat where "sizeof_din = 16 + 4 * SFS_NDIRECT"

definition entry_bytes :: "sfs_disk_entry \<Rightarrow> u8 list" where
  "entry_bytes e = u32_bytes (de_ino e) @ de_name e"

definition bytes_entry :: "u8 list \<Rightarrow> sfs_disk_entry" where
  "bytes_entry bs = \<lparr>de_ino = bytes_u32 bs, de_name = take (SFS_MAX_FNAME_LEN + 1) (drop 4 bs)\<rparr>"

definition sfs_dentry_size :: nat where "sfs_dentry_size = SFS_MAX_FNAME_LEN + 1"
definition sizeof_entry :: nat where "sizeof_entry = 4 + sfs_dentry_size"

section \<open>Locks\<close>

definition lock_sfs_fs :: "ptr \<Rightarrow> 'a sfs_st_scheme \<Rightarrow> 'a sfs_st_scheme option" where
  "lock_sfs_fs fp s = do { f \<leftarrow> sfss s fp; if sfs_fs_locked f then None else Some (upd_sfs fp (\<lambda>f. f\<lparr>sfs_fs_locked := True\<rparr>) s) }"

definition lock_sfs_io :: "ptr \<Rightarrow> 'a sfs_st_scheme \<Rightarrow> 'a sfs_st_scheme option" where
  "lock_sfs_io fp s = do { f \<leftarrow> sfss s fp; if sfs_io_locked f then None else Some (upd_sfs fp (\<lambda>f. f\<lparr>sfs_io_locked := True\<rparr>) s) }"

definition unlock_sfs_fs :: "ptr \<Rightarrow> 'a sfs_st_scheme \<Rightarrow> 'a sfs_st_scheme" where
  "unlock_sfs_fs fp = upd_sfs fp (\<lambda>f. f\<lparr>sfs_fs_locked := False\<rparr>)"

definition unlock_sfs_io :: "ptr \<Rightarrow> 'a sfs_st_scheme \<Rightarrow> 'a sfs_st_scheme" where
  "unlock_sfs_io fp = upd_sfs fp (\<lambda>f. f\<lparr>sfs_io_locked := False\<rparr>)"

definition lock_sin :: "ptr \<Rightarrow> 'a sfs_st_scheme \<Rightarrow> 'a sfs_st_scheme option" where
  "lock_sin np s = do { i \<leftarrow> sins s np; if sin_locked i then None else Some (upd_sin np (\<lambda>i. i\<lparr>sin_locked := True\<rparr>) s) }"

definition unlock_sin :: "ptr \<Rightarrow> 'a sfs_st_scheme \<Rightarrow> 'a sfs_st_scheme" where
  "unlock_sin np = upd_sin np (\<lambda>i. i\<lparr>sin_locked := False\<rparr>)"

section \<open>Block transfer\<close>

definition dop_io :: "(nat \<Rightarrow> 'w device_ops) \<Rightarrow> device \<Rightarrow> iobuf \<Rightarrow> bool \<Rightarrow> 'w \<Rightarrow> (int \<times> iobuf \<times> 'w) option" where
  "dop_io D d iob wr s = d_io (D (d_driver d)) d iob wr s"

text \<open>The offset on the device is computed in 32 bits.\<close>

definition sfs_rwblock_nolock ::
  "(nat \<Rightarrow> 'a sfs_st_scheme device_ops) \<Rightarrow> ptr \<Rightarrow> nat \<Rightarrow> u32 \<Rightarrow> bool \<Rightarrow> bool \<Rightarrow> 'a sfs_st_scheme \<Rightarrow> (int \<times> 'a sfs_st_scheme) option" where
  "sfs_rwblock_nolock D fp buf blkno wr check s = do {
     f \<leftarrow> sfss s fp;
     kassert ((blkno \<noteq> 0 \<or> \<not> check) \<and> blkno < sb_blocks (sfs_sup f));
     let iob = iobuf_init buf (of_nat SFS_BLKSIZE) (ucast (blkno * of_nat SFS_BLKSIZE));
     (ret, iob', s1) \<leftarrow> dop_io D (sfs_dev f) iob wr s;
     Some (ret, s1)
   }"

fun sfs_rwblock_loop ::
  "(nat \<Rightarrow> 'a sfs_st_scheme device_ops) \<Rightarrow> ptr \<Rightarrow> nat \<Rightarrow> u32 \<Rightarrow> nat \<Rightarrow> bool \<Rightarrow> 'a sfs_st_scheme \<Rightarrow> (int \<times> 'a sfs_st_scheme) option" where
  "sfs_rwblock_loop D fp buf blkno 0 wr s = Some (0, s)"
| "sfs_rwblock_loop D fp buf blkno (Suc n) wr s = do {
     (ret, s1) \<leftarrow> sfs_rwblock_nolock D fp buf blkno wr True s;
     if ret \<noteq> 0 then Some (ret, s1) else sfs_rwblock_loop D fp (buf + SFS_BLKSIZE) (blkno + 1) n wr s1
   }"

definition sfs_rwblock ::
  "(nat \<Rightarrow> 'a sfs_st_scheme device_ops) \<Rightarrow> ptr \<Rightarrow> nat \<Rightarrow> u32 \<Rightarrow> u32 \<Rightarrow> bool \<Rightarrow> 'a sfs_st_scheme \<Rightarrow> (int \<times> 'a sfs_st_scheme) option" where
  "sfs_rwblock D fp buf blkno nblks wr s = do {
     s1 \<leftarrow> lock_sfs_io fp s;
     (ret, s2) \<leftarrow> sfs_rwblock_loop D fp buf blkno (unat nblks) wr s1;
     Some (ret, unlock_sfs_io fp s2)
   }"

definition sfs_rblock ::
  "(nat \<Rightarrow> 'a sfs_st_scheme device_ops) \<Rightarrow> ptr \<Rightarrow> nat \<Rightarrow> u32 \<Rightarrow> u32 \<Rightarrow> 'a sfs_st_scheme \<Rightarrow> (int \<times> 'a sfs_st_scheme) option" where
  "sfs_rblock D fp buf blkno nblks s = sfs_rwblock D fp buf blkno nblks False s"

definition sfs_wblock ::
  "(nat \<Rightarrow> 'a sfs_st_scheme device_ops) \<Rightarrow> ptr \<Rightarrow> nat \<Rightarrow> u32 \<Rightarrow> u32 \<Rightarrow> 'a sfs_st_scheme \<Rightarrow> (int \<times> 'a sfs_st_scheme) option" where
  "sfs_wblock D fp buf blkno nblks s = sfs_rwblock D fp buf blkno nblks True s"

text \<open>
  \<open>sfs_rbytes\<close> and \<open>sfs_wbytes\<close> are \<^verbatim>\<open>sfs_rbuf\<close> and \<^verbatim>\<open>sfs_wbuf\<close> for an object outside the modelled memory: they return the bytes that
  are copied into it, and take those that are copied out of it.  With a memory address the same code is \<open>sfs_rbuf\<close> and
  \<open>sfs_wbuf\<close>; \<open>src\<close> is read when the copy is made.
\<close>

definition sfs_rbytes ::
  "(nat \<Rightarrow> 'a sfs_st_scheme device_ops) \<Rightarrow> ptr \<Rightarrow> nat \<Rightarrow> u32 \<Rightarrow> nat \<Rightarrow> 'a sfs_st_scheme \<Rightarrow> (int \<times> u8 list \<times> 'a sfs_st_scheme) option" where
  "sfs_rbytes D fp len blkno offset s = do {
     kassert (offset < SFS_BLKSIZE \<and> offset + len \<le> SFS_BLKSIZE);
     f \<leftarrow> sfss s fp;
     s1 \<leftarrow> lock_sfs_io fp s;
     (ret, s2) \<leftarrow> sfs_rwblock_nolock D fp (sfs_buffer f) blkno False True s1;
     Some (ret, mem_bytes (sfs_buffer f + offset) len (kmem s2), unlock_sfs_io fp s2)
   }"

definition sfs_rbuf ::
  "(nat \<Rightarrow> 'a sfs_st_scheme device_ops) \<Rightarrow> ptr \<Rightarrow> nat \<Rightarrow> nat \<Rightarrow> u32 \<Rightarrow> nat \<Rightarrow> 'a sfs_st_scheme \<Rightarrow> (int \<times> 'a sfs_st_scheme) option" where
  "sfs_rbuf D fp buf len blkno offset s = do {
     (ret, bs, s1) \<leftarrow> sfs_rbytes D fp len blkno offset s;
     Some (ret, if ret = 0 then s1\<lparr>kmem := mem_put buf bs (kmem s1)\<rparr> else s1)
   }"

definition sfs_wfrom ::
  "(nat \<Rightarrow> 'a sfs_st_scheme device_ops) \<Rightarrow> ptr \<Rightarrow> (mem \<Rightarrow> u8 list) \<Rightarrow> nat \<Rightarrow> u32 \<Rightarrow> nat \<Rightarrow> 'a sfs_st_scheme \<Rightarrow> (int \<times> 'a sfs_st_scheme) option" where
  "sfs_wfrom D fp src len blkno offset s = do {
     kassert (offset < SFS_BLKSIZE \<and> offset + len \<le> SFS_BLKSIZE);
     f \<leftarrow> sfss s fp;
     s1 \<leftarrow> lock_sfs_io fp s;
     (ret, s2) \<leftarrow> sfs_rwblock_nolock D fp (sfs_buffer f) blkno False True s1;
     (ret2, s3) \<leftarrow> (if ret = 0
        then sfs_rwblock_nolock D fp (sfs_buffer f) blkno True True
               (s2\<lparr>kmem := mem_put (sfs_buffer f + offset) (src (kmem s2)) (kmem s2)\<rparr>)
        else Some (ret, s2));
     Some (ret2, unlock_sfs_io fp s3)
   }"

definition sfs_wbuf ::
  "(nat \<Rightarrow> 'a sfs_st_scheme device_ops) \<Rightarrow> ptr \<Rightarrow> nat \<Rightarrow> nat \<Rightarrow> u32 \<Rightarrow> nat \<Rightarrow> 'a sfs_st_scheme \<Rightarrow> (int \<times> 'a sfs_st_scheme) option" where
  "sfs_wbuf D fp buf len blkno offset s = sfs_wfrom D fp (mem_bytes buf len) len blkno offset s"

definition sfs_wbytes ::
  "(nat \<Rightarrow> 'a sfs_st_scheme device_ops) \<Rightarrow> ptr \<Rightarrow> u8 list \<Rightarrow> u32 \<Rightarrow> nat \<Rightarrow> 'a sfs_st_scheme \<Rightarrow> (int \<times> 'a sfs_st_scheme) option" where
  "sfs_wbytes D fp bs blkno offset s = sfs_wfrom D fp (\<lambda>_. bs) (length bs) blkno offset s"

definition sfs_sync_super :: "(nat \<Rightarrow> 'a sfs_st_scheme device_ops) \<Rightarrow> ptr \<Rightarrow> 'a sfs_st_scheme \<Rightarrow> (int \<times> 'a sfs_st_scheme) option" where
  "sfs_sync_super D fp s = do {
     f \<leftarrow> sfss s fp;
     s1 \<leftarrow> lock_sfs_io fp s;
     let m = mem_put (sfs_buffer f) (super_bytes (sfs_sup f)) (memset (sfs_buffer f) 0 SFS_BLKSIZE (kmem s1));
     (ret, s2) \<leftarrow> sfs_rwblock_nolock D fp (sfs_buffer f) SFS_BLKN_SUPER True False (s1\<lparr>kmem := m\<rparr>);
     Some (ret, unlock_sfs_io fp s2)
   }"

definition sfs_sync_freemap :: "(nat \<Rightarrow> 'a sfs_st_scheme device_ops) \<Rightarrow> ptr \<Rightarrow> 'a sfs_st_scheme \<Rightarrow> (int \<times> 'a sfs_st_scheme) option" where
  "sfs_sync_freemap D fp s = do {
     f \<leftarrow> sfss s fp;
     let m = mem_put (sfs_freemap_at f) (concat (map u32_bytes (fst (bitmap_getdata (sfs_freemap f))))) (kmem s);
     sfs_wblock D fp (sfs_freemap_at f) SFS_BLKN_FREEMAP (sfs_freemap_blocks (sfs_sup f)) (s\<lparr>kmem := m\<rparr>)
   }"

text \<open>The result of the code is not initialised if no block is to be cleared.\<close>

fun sfs_clear_loop ::
  "(nat \<Rightarrow> 'a sfs_st_scheme device_ops) \<Rightarrow> ptr \<Rightarrow> nat \<Rightarrow> u32 \<Rightarrow> nat \<Rightarrow> 'a sfs_st_scheme \<Rightarrow> (int \<times> 'a sfs_st_scheme) option" where
  "sfs_clear_loop D fp buf blkno 0 s = Some (0, s)"
| "sfs_clear_loop D fp buf blkno (Suc n) s = do {
     (ret, s1) \<leftarrow> sfs_rwblock_nolock D fp buf blkno True True s;
     if ret \<noteq> 0 then Some (ret, s1) else sfs_clear_loop D fp buf (blkno + 1) n s1
   }"

definition sfs_clear_block ::
  "(nat \<Rightarrow> 'a sfs_st_scheme device_ops) \<Rightarrow> ptr \<Rightarrow> u32 \<Rightarrow> u32 \<Rightarrow> 'a sfs_st_scheme \<Rightarrow> (int \<times> 'a sfs_st_scheme) option" where
  "sfs_clear_block D fp blkno nblks s = do {
     f \<leftarrow> sfss s fp;
     s1 \<leftarrow> lock_sfs_io fp s;
     kassert (nblks \<noteq> 0);
     (ret, s2) \<leftarrow> sfs_clear_loop D fp (sfs_buffer f) blkno (unat nblks)
        (s1\<lparr>kmem := memset (sfs_buffer f) 0 SFS_BLKSIZE (kmem s1)\<rparr>);
     Some (ret, unlock_sfs_io fp s2)
   }"

section \<open>Allocation of blocks\<close>

definition sfs_block_inuse :: "ptr \<Rightarrow> u32 \<Rightarrow> 'a sfs_st_scheme \<Rightarrow> bool option" where
  "sfs_block_inuse fp ino s = do {
     f \<leftarrow> sfss s fp;
     if ino \<noteq> 0 \<and> ino < sb_blocks (sfs_sup f) then map_option Not (bitmap_test (sfs_freemap f) ino) else None
   }"

definition assert_inuse :: "ptr \<Rightarrow> u32 \<Rightarrow> 'a sfs_st_scheme \<Rightarrow> unit option" where
  "assert_inuse fp ino s = do { b \<leftarrow> sfs_block_inuse fp ino s; kassert b }"

definition sfs_block_alloc :: "(nat \<Rightarrow> 'a sfs_st_scheme device_ops) \<Rightarrow> ptr \<Rightarrow> 'a sfs_st_scheme \<Rightarrow> (int \<times> u32 \<times> 'a sfs_st_scheme) option" where
  "sfs_block_alloc D fp s = do {
     f \<leftarrow> sfss s fp;
     (ret, r, bm) \<leftarrow> bitmap_alloc (sfs_freemap f);
     if ret \<noteq> 0 then Some (ret, 0, s)
     else do {
       ino \<leftarrow> r;
       kassert (sb_unused_blocks (sfs_sup f) > 0);
       let s1 = upd_sfs fp (\<lambda>f. f\<lparr>sfs_freemap := bm, sfs_sup := (sfs_sup f)\<lparr>sb_unused_blocks := sb_unused_blocks (sfs_sup f) - 1\<rparr>,
                                  sfs_super_dirty := True\<rparr>) s;
       assert_inuse fp ino s1;
       (ret2, s2) \<leftarrow> sfs_clear_block D fp ino 1 s1;
       Some (ret2, ino, s2)
     }
   }"

definition sfs_block_free :: "ptr \<Rightarrow> u32 \<Rightarrow> 'a sfs_st_scheme \<Rightarrow> 'a sfs_st_scheme option" where
  "sfs_block_free fp ino s = do {
     assert_inuse fp ino s;
     f \<leftarrow> sfss s fp;
     bm \<leftarrow> bitmap_free (sfs_freemap f) ino;
     Some (upd_sfs fp (\<lambda>f. f\<lparr>sfs_freemap := bm, sfs_sup := (sfs_sup f)\<lparr>sb_unused_blocks := sb_unused_blocks (sfs_sup f) + 1\<rparr>,
                             sfs_super_dirty := True\<rparr>) s)
   }"

section \<open>The block map of an inode\<close>

text \<open>The entry pointer of the code, \<^verbatim>\<open>entp\<close>, is an argument and the second component of the result; the third is \<^verbatim>\<open>*ino_store\<close>.\<close>

definition sub_cleanup :: "ptr \<Rightarrow> u32 \<Rightarrow> u32 \<Rightarrow> int \<Rightarrow> 'a sfs_st_scheme \<Rightarrow> (int \<times> u32 \<times> u32 \<times> 'a sfs_st_scheme) option" where
  "sub_cleanup fp entp ent ret s = do {
     s1 \<leftarrow> (if ent \<noteq> entp then sfs_block_free fp ent s else Some s);
     Some (ret, entp, 0, s1)
   }"

definition sub_create ::
  "(nat \<Rightarrow> 'a sfs_st_scheme device_ops) \<Rightarrow> ptr \<Rightarrow> u32 \<Rightarrow> u32 \<Rightarrow> nat \<Rightarrow> 'a sfs_st_scheme \<Rightarrow> (int \<times> u32 \<times> u32 \<times> 'a sfs_st_scheme) option" where
  "sub_create D fp entp ent offset s = do {
     (ret, ino, s1) \<leftarrow> sfs_block_alloc D fp s;
     if ret \<noteq> 0 then sub_cleanup fp entp ent ret s1
     else do {
       (ret2, s2) \<leftarrow> sfs_wbytes D fp (u32_bytes ino) ent offset s1;
       if ret2 \<noteq> 0 then do { s3 \<leftarrow> sfs_block_free fp ino s2; sub_cleanup fp entp ent ret2 s3 }
       else Some (0, ent, ino, s2)
     }
   }"

definition sfs_bmap_get_sub_nolock ::
  "(nat \<Rightarrow> 'a sfs_st_scheme device_ops) \<Rightarrow> ptr \<Rightarrow> u32 \<Rightarrow> nat \<Rightarrow> bool \<Rightarrow> 'a sfs_st_scheme \<Rightarrow> (int \<times> u32 \<times> u32 \<times> 'a sfs_st_scheme) option" where
  "sfs_bmap_get_sub_nolock D fp entp index create s = do {
     kassert (index < SFS_BLK_NENTRY);
     let offset = index * 4;
     if entp \<noteq> 0 then do {
       (ret, bs, s1) \<leftarrow> sfs_rbytes D fp 4 entp offset s;
       if ret \<noteq> 0 then Some (ret, entp, 0, s1)
       else if bytes_u32 bs \<noteq> 0 \<or> \<not> create then Some (0, entp, bytes_u32 bs, s1)
       else sub_create D fp entp entp offset s1
     }
     else if \<not> create then Some (0, entp, 0, s)
     else do {
       (ret, ent, s1) \<leftarrow> sfs_block_alloc D fp s;
       if ret \<noteq> 0 then Some (ret, entp, 0, s1) else sub_create D fp entp ent offset s1
     }
   }"

definition sfs_bmap_get_nolock ::
  "(nat \<Rightarrow> 'a sfs_st_scheme device_ops) \<Rightarrow> ptr \<Rightarrow> ptr \<Rightarrow> nat \<Rightarrow> bool \<Rightarrow> 'a sfs_st_scheme \<Rightarrow> (int \<times> u32 \<times> 'a sfs_st_scheme) option" where
  "sfs_bmap_get_nolock D fp np index create s = do {
     i \<leftarrow> sins s np;
     let din = sin_din i;
     (ret, ino, s1) \<leftarrow>
       (if index < SFS_NDIRECT then
          (if din_direct din ! index = 0 \<and> create then do {
             (ret, ino, s1) \<leftarrow> sfs_block_alloc D fp s;
             if ret \<noteq> 0 then Some (ret, 0, s1)
             else Some (0, ino, set_dirty np True (upd_din np (\<lambda>d. d\<lparr>din_direct := (din_direct d)[index := ino]\<rparr>) s1))
           }
           else Some (0, din_direct din ! index, s))
        else if index - SFS_NDIRECT < SFS_BLK_NENTRY then do {
          (ret, ent, ino, s1) \<leftarrow> sfs_bmap_get_sub_nolock D fp (din_indirect din) (index - SFS_NDIRECT) create s;
          if ret \<noteq> 0 then Some (ret, 0, s1)
          else if ent \<noteq> din_indirect din then do {
            kassert (din_indirect din = 0);
            Some (0, ino, set_dirty np True (upd_din np (\<lambda>d. d\<lparr>din_indirect := ent\<rparr>) s1))
          }
          else Some (0, ino, s1)
        }
        else None);
     if ret \<noteq> 0 then Some (ret, ino, s1)
     else do {
       (if ino = 0 then Some () else assert_inuse fp ino s1);
       Some (0, ino, s1)
     }
   }"

definition sfs_bmap_free_sub_nolock ::
  "(nat \<Rightarrow> 'a sfs_st_scheme device_ops) \<Rightarrow> ptr \<Rightarrow> u32 \<Rightarrow> nat \<Rightarrow> 'a sfs_st_scheme \<Rightarrow> (int \<times> 'a sfs_st_scheme) option" where
  "sfs_bmap_free_sub_nolock D fp ent index s = do {
     assert_inuse fp ent s;
     kassert (index < SFS_BLK_NENTRY);
     (ret, bs, s1) \<leftarrow> sfs_rbytes D fp 4 ent (index * 4) s;
     if ret \<noteq> 0 then Some (ret, s1)
     else if bytes_u32 bs \<noteq> 0 then do {
       (ret2, s2) \<leftarrow> sfs_wbytes D fp (u32_bytes 0) ent (index * 4) s1;
       if ret2 \<noteq> 0 then Some (ret2, s2) else do { s3 \<leftarrow> sfs_block_free fp (bytes_u32 bs) s2; Some (0, s3) }
     }
     else Some (0, s1)
   }"

definition sfs_bmap_free_nolock ::
  "(nat \<Rightarrow> 'a sfs_st_scheme device_ops) \<Rightarrow> ptr \<Rightarrow> ptr \<Rightarrow> nat \<Rightarrow> 'a sfs_st_scheme \<Rightarrow> (int \<times> 'a sfs_st_scheme) option" where
  "sfs_bmap_free_nolock D fp np index s = do {
     i \<leftarrow> sins s np;
     let din = sin_din i;
     if index < SFS_NDIRECT then
       (if din_direct din ! index \<noteq> 0 then do {
          s1 \<leftarrow> sfs_block_free fp (din_direct din ! index) s;
          Some (0, set_dirty np True (upd_din np (\<lambda>d. d\<lparr>din_direct := (din_direct d)[index := 0]\<rparr>) s1))
        }
        else Some (0, s))
     else if index - SFS_NDIRECT < SFS_BLK_NENTRY \<and> din_indirect din \<noteq> 0
     then sfs_bmap_free_sub_nolock D fp (din_indirect din) (index - SFS_NDIRECT) s
     else Some (0, s)
   }"

definition sfs_bmap_load_nolock ::
  "(nat \<Rightarrow> 'a sfs_st_scheme device_ops) \<Rightarrow> ptr \<Rightarrow> ptr \<Rightarrow> u32 \<Rightarrow> 'a sfs_st_scheme \<Rightarrow> (int \<times> u32 \<times> 'a sfs_st_scheme) option" where
  "sfs_bmap_load_nolock D fp np index s = do {
     i \<leftarrow> sins s np;
     kassert (index \<le> din_blocks (sin_din i));
     let create = (index = din_blocks (sin_din i));
     (ret, ino, s1) \<leftarrow> sfs_bmap_get_nolock D fp np (unat index) create s;
     if ret \<noteq> 0 then Some (ret, 0, s1)
     else do {
       assert_inuse fp ino s1;
       Some (0, ino, if create then upd_din np (\<lambda>d. d\<lparr>din_blocks := din_blocks d + 1\<rparr>) s1 else s1)
     }
   }"

definition sfs_bmap_truncate_nolock ::
  "(nat \<Rightarrow> 'a sfs_st_scheme device_ops) \<Rightarrow> ptr \<Rightarrow> ptr \<Rightarrow> 'a sfs_st_scheme \<Rightarrow> (int \<times> 'a sfs_st_scheme) option" where
  "sfs_bmap_truncate_nolock D fp np s = do {
     i \<leftarrow> sins s np;
     kassert (din_blocks (sin_din i) \<noteq> 0);
     (ret, s1) \<leftarrow> sfs_bmap_free_nolock D fp np (unat (din_blocks (sin_din i) - 1)) s;
     if ret \<noteq> 0 then Some (ret, s1)
     else Some (0, set_dirty np True (upd_din np (\<lambda>d. d\<lparr>din_blocks := din_blocks d - 1\<rparr>) s1))
   }"

section \<open>Bytes in memory\<close>

lemma length_mem_bytes [simp]: "length (mem_bytes a n m) = n"
  by (simp add: mem_bytes_def)

lemma nth_mem_bytes [simp]: "i < n \<Longrightarrow> mem_bytes a n m ! i = m (a + i)"
  by (simp add: mem_bytes_def)

lemma mem_bytes_cong: "(\<And>i. i < n \<Longrightarrow> m (a + i) = m' (a' + i)) \<Longrightarrow> mem_bytes a n m = mem_bytes a' n m'"
  by (simp add: mem_bytes_def)

lemma mem_put_same [simp]: "i < length bs \<Longrightarrow> mem_put a bs m (a + i) = bs ! i"
  by (simp add: mem_put_def)

lemma mem_put_other [simp]: "x \<notin> region a (length bs) \<Longrightarrow> mem_put a bs m x = m x"
  by (auto simp: mem_put_def)

lemma length_u32_bytes [simp]: "length (u32_bytes w) = 4" "length (u16_bytes v) = 2"
  by (simp_all add: u32_bytes_def u16_bytes_def)

lemma mem_bytes_append: "mem_bytes a (n + k) m = mem_bytes a n m @ mem_bytes (a + n) k m"
  by (rule nth_equalityI) (auto simp: nth_append)

lemma mem_bytes_part: "mem_bytes a n m = bs \<Longrightarrow> off + k \<le> n \<Longrightarrow> mem_bytes (a + off) k m = take k (drop off bs)"
  by (rule nth_equalityI) (auto simp: add.assoc)

lemma mem_bytes_put: "mem_bytes a (length bs) (mem_put a bs m) = bs"
  by (rule nth_equalityI) auto

end
