(* ===== verification/Sfs.thy ===== *)
theory Sfs
  imports SfsIO
begin

text \<open>
  The simple file system, second part: inodes in memory, directories, reading, writing and resizing of files (\<^verbatim>\<open>sfs_inode.c\<close>), and
  mounting, synchronising and unmounting (\<^verbatim>\<open>sfs_fs.c\<close>, \<^verbatim>\<open>sfs.c\<close>).  Calls through the table of an inode (\<^verbatim>\<open>vop_truncate\<close>,
  \<^verbatim>\<open>vop_fsync\<close>, \<^verbatim>\<open>vop_reclaim\<close> when a reference count reaches zero) use the argument \<open>T\<close>.  Answers of \<^verbatim>\<open>kmalloc\<close> are arguments: \<open>ke\<close> for a
  directory entry, \<open>kd\<close> for the disk inode, \<open>kn\<close> for the inode and \<open>u\<close> for the contents it has before it is initialised.
\<close>

section \<open>Inodes in memory\<close>

text \<open>\<open>1\<close> and \<open>2\<close> name the tables \<^verbatim>\<open>sfs_node_dirops\<close> and \<^verbatim>\<open>sfs_node_fileops\<close>.\<close>

definition sfs_dirops_id :: nat where "sfs_dirops_id = 1"
definition sfs_fileops_id :: nat where "sfs_fileops_id = 2"

definition sfs_get_ops :: "u16 \<Rightarrow> nat option" where
  "sfs_get_ops type = (if type = SFS_TYPE_DIR then Some sfs_dirops_id else if type = SFS_TYPE_FILE then Some sfs_fileops_id else None)"

definition sfs_set_links :: "ptr \<Rightarrow> ptr \<Rightarrow> 'a sfs_st_scheme \<Rightarrow> 'a sfs_st_scheme option" where
  "sfs_set_links fp np s = do {
     i \<leftarrow> sins s np;
     let h = sin_hashfn (sin_ino i);
     Some (upd_sfs fp (\<lambda>f. f\<lparr>sfs_inode_list := np # sfs_inode_list f, sfs_hlist := (sfs_hlist f)(h := np # sfs_hlist f h)\<rparr>) s)
   }"

definition sfs_remove_links :: "ptr \<Rightarrow> ptr \<Rightarrow> 'a sfs_st_scheme \<Rightarrow> 'a sfs_st_scheme option" where
  "sfs_remove_links fp np s = do {
     i \<leftarrow> sins s np;
     let h = sin_hashfn (sin_ino i);
     Some (upd_sfs fp (\<lambda>f. f\<lparr>sfs_inode_list := remove1 np (sfs_inode_list f), sfs_hlist := (sfs_hlist f)(h := remove1 np (sfs_hlist f h))\<rparr>) s)
   }"

definition sfs_create_inode ::
  "inode \<Rightarrow> ptr option \<Rightarrow> ptr \<Rightarrow> sfs_disk_inode \<Rightarrow> u32 \<Rightarrow> 'a sfs_st_scheme \<Rightarrow> (int \<times> ptr option \<times> 'a sfs_st_scheme) option" where
  "sfs_create_inode u kn fp din ino s =
     (case alloc_inode inode_type_sfs_inode_info u kn s of
        (None, s1) \<Rightarrow> Some (- E_NO_MEM, None, s1)
      | (Some np, s1) \<Rightarrow> do {
          ops \<leftarrow> sfs_get_ops (din_type din);
          s2 \<leftarrow> inode_init np ops (Some fp) s1;
          Some (0, Some np, s2\<lparr>sins := (sins s2)(np \<mapsto> \<lparr>sin_din = din, sin_ino = ino, sin_dirty = False, sin_reclaim_count = 1, sin_locked = False\<rparr>)\<rparr>)
        })"

fun lookup_sfs_loop :: "u32 \<Rightarrow> ptr list \<Rightarrow> 'a sfs_st_scheme \<Rightarrow> (ptr option \<times> 'a sfs_st_scheme) option" where
  "lookup_sfs_loop ino [] s = Some (None, s)"
| "lookup_sfs_loop ino (np # nps) s = do {
     i \<leftarrow> sins s np;
     if sin_ino i = ino then do {
       s1 \<leftarrow> inode_ref_inc np s;
       n \<leftarrow> inodes s1 np;
       Some (Some np, if ref_count n = 1 then upd_sin np (\<lambda>i. i\<lparr>sin_reclaim_count := sin_reclaim_count i + 1\<rparr>) s1 else s1)
     }
     else lookup_sfs_loop ino nps s
   }"

definition lookup_sfs_nolock :: "ptr \<Rightarrow> u32 \<Rightarrow> 'a sfs_st_scheme \<Rightarrow> (ptr option \<times> 'a sfs_st_scheme) option" where
  "lookup_sfs_nolock fp ino s = do { f \<leftarrow> sfss s fp; lookup_sfs_loop ino (sfs_hlist f (sin_hashfn ino)) s }"

definition sfs_load_new ::
  "(nat \<Rightarrow> 'a sfs_st_scheme device_ops) \<Rightarrow> inode \<Rightarrow> bool \<Rightarrow> ptr option \<Rightarrow> ptr \<Rightarrow> u32 \<Rightarrow> 'a sfs_st_scheme \<Rightarrow> (int \<times> ptr option \<times> 'a sfs_st_scheme) option" where
  "sfs_load_new D u kd kn fp ino s =
     (if \<not> kd then Some (- E_NO_MEM, None, s)
      else do {
        assert_inuse fp ino s;
        (ret, bs, s1) \<leftarrow> sfs_rbytes D fp sizeof_din ino 0 s;
        if ret \<noteq> 0 then Some (ret, None, s1)
        else do {
          kassert (din_nlinks (bytes_din bs) \<noteq> 0);
          (ret2, r, s2) \<leftarrow> sfs_create_inode u kn fp (bytes_din bs) ino s1;
          if ret2 \<noteq> 0 then Some (ret2, None, s2)
          else do { np \<leftarrow> r; s3 \<leftarrow> sfs_set_links fp np s2; Some (0, Some np, s3) }
        }
      })"

definition sfs_load_inode ::
  "(nat \<Rightarrow> 'a sfs_st_scheme device_ops) \<Rightarrow> inode \<Rightarrow> bool \<Rightarrow> ptr option \<Rightarrow> ptr \<Rightarrow> u32 \<Rightarrow> 'a sfs_st_scheme \<Rightarrow> (int \<times> ptr option \<times> 'a sfs_st_scheme) option" where
  "sfs_load_inode D u kd kn fp ino s = do {
     s1 \<leftarrow> lock_sfs_fs fp s;
     (r, s2) \<leftarrow> lookup_sfs_nolock fp ino s1;
     (ret, np, s3) \<leftarrow> (case r of Some np \<Rightarrow> Some (0, Some np, s2) | None \<Rightarrow> sfs_load_new D u kd kn fp ino s2);
     Some (ret, np, unlock_sfs_fs fp s3)
   }"

section \<open>Directories\<close>

definition name_string :: "u8 list \<Rightarrow> string" where
  "name_string bs = map (\<lambda>b. char_of (unat b)) (takeWhile (\<lambda>b. b \<noteq> 0) bs)"

definition sfs_dirent_read_nolock ::
  "(nat \<Rightarrow> 'a sfs_st_scheme device_ops) \<Rightarrow> ptr \<Rightarrow> ptr \<Rightarrow> nat \<Rightarrow> 'a sfs_st_scheme \<Rightarrow> (int \<times> sfs_disk_entry \<times> 'a sfs_st_scheme) option" where
  "sfs_dirent_read_nolock D fp np slot s = do {
     i \<leftarrow> sins s np;
     kassert (din_type (sin_din i) = SFS_TYPE_DIR \<and> slot < unat (din_blocks (sin_din i)));
     (ret, ino, s1) \<leftarrow> sfs_bmap_load_nolock D fp np (of_nat slot) s;
     if ret \<noteq> 0 then Some (ret, bytes_entry [], s1)
     else do {
       assert_inuse fp ino s1;
       (ret2, bs, s2) \<leftarrow> sfs_rbytes D fp sizeof_entry ino 0 s1;
       let e = bytes_entry bs;
       Some (ret2, e\<lparr>de_name := (de_name e)[SFS_MAX_FNAME_LEN := 0]\<rparr>, s2)
     }
   }"

text \<open>The number of slots is read as an \<^verbatim>\<open>int\<close>.\<close>

definition nslots :: "sfs_inode \<Rightarrow> nat" where
  "nslots i = nat (sint (din_blocks (sin_din i)))"

text \<open>The loops over the entries of a directory run from slot \<open>i\<close>, with \<open>n\<close> slots left.\<close>

fun dirent_search_loop ::
  "(nat \<Rightarrow> 'a sfs_st_scheme device_ops) \<Rightarrow> ptr \<Rightarrow> ptr \<Rightarrow> string \<Rightarrow> nat \<Rightarrow> nat \<Rightarrow> nat \<Rightarrow> 'a sfs_st_scheme \<Rightarrow> (int \<times> (u32 \<times> nat) option \<times> nat \<times> 'a sfs_st_scheme) option" where
  "dirent_search_loop D fp np nm i 0 es s = Some (- E_NOENT, None, es, s)"
| "dirent_search_loop D fp np nm i (Suc n) es s = do {
     (ret, e, s1) \<leftarrow> sfs_dirent_read_nolock D fp np i s;
     if ret \<noteq> 0 then Some (ret, None, es, s1)
     else if de_ino e = 0 then dirent_search_loop D fp np nm (i + 1) n i s1
     else if name_string (de_name e) = nm then Some (0, Some (de_ino e, i), es, s1)
     else dirent_search_loop D fp np nm (i + 1) n es s1
   }"

definition sfs_dirent_search_nolock ::
  "(nat \<Rightarrow> 'a sfs_st_scheme device_ops) \<Rightarrow> bool \<Rightarrow> ptr \<Rightarrow> ptr \<Rightarrow> string \<Rightarrow> 'a sfs_st_scheme \<Rightarrow> (int \<times> (u32 \<times> nat) option \<times> nat \<times> 'a sfs_st_scheme) option" where
  "sfs_dirent_search_nolock D ke fp np nm s = do {
     kassert (length nm \<le> SFS_MAX_FNAME_LEN);
     i \<leftarrow> sins s np;
     if \<not> ke then Some (- E_NO_MEM, None, 0, s) else dirent_search_loop D fp np nm 0 (nslots i) (nslots i) s
   }"

fun dirent_findino_loop ::
  "(nat \<Rightarrow> 'a sfs_st_scheme device_ops) \<Rightarrow> ptr \<Rightarrow> ptr \<Rightarrow> u32 \<Rightarrow> nat \<Rightarrow> nat \<Rightarrow> 'a sfs_st_scheme \<Rightarrow> (int \<times> sfs_disk_entry \<times> 'a sfs_st_scheme) option" where
  "dirent_findino_loop D fp np ino i 0 s = Some (- E_NOENT, bytes_entry [], s)"
| "dirent_findino_loop D fp np ino i (Suc n) s = do {
     (ret, e, s1) \<leftarrow> sfs_dirent_read_nolock D fp np i s;
     if ret \<noteq> 0 then Some (ret, e, s1)
     else if de_ino e = ino then Some (0, e, s1)
     else dirent_findino_loop D fp np ino (i + 1) n s1
   }"

definition sfs_dirent_findino_nolock ::
  "(nat \<Rightarrow> 'a sfs_st_scheme device_ops) \<Rightarrow> ptr \<Rightarrow> ptr \<Rightarrow> u32 \<Rightarrow> 'a sfs_st_scheme \<Rightarrow> (int \<times> sfs_disk_entry \<times> 'a sfs_st_scheme) option" where
  "sfs_dirent_findino_nolock D fp np ino s = do { i \<leftarrow> sins s np; dirent_findino_loop D fp np ino 0 (nslots i) s }"

definition sfs_lookup_once ::
  "(nat \<Rightarrow> 'a sfs_st_scheme device_ops) \<Rightarrow> inode \<Rightarrow> bool \<Rightarrow> bool \<Rightarrow> ptr option \<Rightarrow> ptr \<Rightarrow> ptr \<Rightarrow> string \<Rightarrow> 'a sfs_st_scheme \<Rightarrow>
   (int \<times> ptr option \<times> 'a sfs_st_scheme) option" where
  "sfs_lookup_once D u ke kd kn fp np nm s = do {
     s1 \<leftarrow> lock_sin np s;
     (ret, r, es, s2) \<leftarrow> sfs_dirent_search_nolock D ke fp np nm s1;
     let s3 = unlock_sin np s2;
     if ret \<noteq> 0 then Some (ret, None, s3) else do { (ino, slot) \<leftarrow> r; sfs_load_inode D u kd kn fp ino s3 }
   }"

definition sfs_opendir :: "ptr \<Rightarrow> u32 \<Rightarrow> 'a sfs_st_scheme \<Rightarrow> (int \<times> 'a sfs_st_scheme) option" where
  "sfs_opendir np open_flags s =
     Some (if open_flags AND O_ACCMODE \<noteq> O_RDONLY then - E_ISDIR else if open_flags AND O_APPEND \<noteq> 0 then - E_ISDIR else 0, s)"

definition sfs_openfile :: "ptr \<Rightarrow> u32 \<Rightarrow> 'a sfs_st_scheme \<Rightarrow> (int \<times> 'a sfs_st_scheme) option" where
  "sfs_openfile np open_flags s = Some (0, s)"

text \<open>\<open>sfs_of\<close> is \<^verbatim>\<open>fsop_info(vop_fs(node), sfs)\<close>, with the check of the inode's type that \<^verbatim>\<open>vop_info\<close> makes.\<close>

definition sfs_of :: "ptr \<Rightarrow> 'a sfs_st_scheme \<Rightarrow> ptr option" where
  "sfs_of np s = do { n \<leftarrow> inodes s np; kassert (in_type n = inode_type_sfs_inode_info); in_fs n }"

section \<open>Reading and writing files\<close>

text \<open>\<open>sfs_buf_op\<close> and \<open>sfs_block_op\<close> are the function pointers the code chooses by the direction.\<close>

definition sfs_buf_op ::
  "(nat \<Rightarrow> 'a sfs_st_scheme device_ops) \<Rightarrow> bool \<Rightarrow> ptr \<Rightarrow> nat \<Rightarrow> nat \<Rightarrow> u32 \<Rightarrow> nat \<Rightarrow> 'a sfs_st_scheme \<Rightarrow> (int \<times> 'a sfs_st_scheme) option" where
  "sfs_buf_op D wr = (if wr then sfs_wbuf D else sfs_rbuf D)"

definition sfs_block_op ::
  "(nat \<Rightarrow> 'a sfs_st_scheme device_ops) \<Rightarrow> bool \<Rightarrow> ptr \<Rightarrow> nat \<Rightarrow> u32 \<Rightarrow> u32 \<Rightarrow> 'a sfs_st_scheme \<Rightarrow> (int \<times> 'a sfs_st_scheme) option" where
  "sfs_block_op D wr = (if wr then sfs_wblock D else sfs_rblock D)"

text \<open>A part of one block: \<open>len\<close> bytes from \<open>off\<close> in the block \<open>blkno\<close> of the file.\<close>

definition sfs_io_part ::
  "(nat \<Rightarrow> 'a sfs_st_scheme device_ops) \<Rightarrow> bool \<Rightarrow> ptr \<Rightarrow> ptr \<Rightarrow> nat \<Rightarrow> nat \<Rightarrow> u32 \<Rightarrow> nat \<Rightarrow> 'a sfs_st_scheme \<Rightarrow> (int \<times> 'a sfs_st_scheme) option" where
  "sfs_io_part D wr fp np buf len blkno off s = do {
     (ret, ino, s1) \<leftarrow> sfs_bmap_load_nolock D fp np blkno s;
     if ret \<noteq> 0 then Some (ret, s1) else sfs_buf_op D wr fp buf len ino off s1
   }"

text \<open>
  The three steps of the transfer from \<open>offset\<close> to \<open>endpos\<close>, with the number of bytes moved: the rest of the first block, the blocks in
  between, which are taken to follow the first of them on the disk, and the beginning of the last.
\<close>

definition sfs_io_last ::
  "(nat \<Rightarrow> 'a sfs_st_scheme device_ops) \<Rightarrow> bool \<Rightarrow> ptr \<Rightarrow> ptr \<Rightarrow> nat \<Rightarrow> nat \<Rightarrow> u32 \<Rightarrow> nat \<Rightarrow> 'a sfs_st_scheme \<Rightarrow> (int \<times> nat \<times> 'a sfs_st_scheme) option" where
  "sfs_io_last D wr fp np buf endpos blkno alen s =
     (if endpos mod SFS_BLKSIZE \<noteq> 0 then do {
        (ret, s1) \<leftarrow> sfs_io_part D wr fp np buf (endpos mod SFS_BLKSIZE) blkno 0 s;
        Some (ret, if ret \<noteq> 0 then alen else alen + endpos mod SFS_BLKSIZE, s1)
      } else Some (0, alen, s))"

definition sfs_io_blocks ::
  "(nat \<Rightarrow> 'a sfs_st_scheme device_ops) \<Rightarrow> bool \<Rightarrow> ptr \<Rightarrow> ptr \<Rightarrow> nat \<Rightarrow> nat \<Rightarrow> u32 \<Rightarrow> u32 \<Rightarrow> nat \<Rightarrow> 'a sfs_st_scheme \<Rightarrow> (int \<times> nat \<times> 'a sfs_st_scheme) option" where
  "sfs_io_blocks D wr fp np buf endpos blkno nblks alen s =
     (if nblks > 0 then do {
        (ret, ino, s1) \<leftarrow> sfs_bmap_load_nolock D fp np blkno s;
        if ret \<noteq> 0 then Some (ret, alen, s1)
        else do {
          (ret2, s2) \<leftarrow> sfs_block_op D wr fp buf ino nblks s1;
          if ret2 \<noteq> 0 then Some (ret2, alen, s2)
          else (let n = unat nblks * SFS_BLKSIZE in sfs_io_last D wr fp np (buf + n) endpos (blkno + nblks) (alen + n) s2)
        }
      } else sfs_io_last D wr fp np buf endpos blkno alen s)"

definition sfs_io_steps ::
  "(nat \<Rightarrow> 'a sfs_st_scheme device_ops) \<Rightarrow> bool \<Rightarrow> ptr \<Rightarrow> ptr \<Rightarrow> nat \<Rightarrow> nat \<Rightarrow> nat \<Rightarrow> 'a sfs_st_scheme \<Rightarrow> (int \<times> nat \<times> 'a sfs_st_scheme) option" where
  "sfs_io_steps D wr fp np buf offset endpos s =
     (let blkno = of_nat (offset div SFS_BLKSIZE) :: u32; nblks = of_nat (endpos div SFS_BLKSIZE) - blkno :: u32;
          blkoff = offset mod SFS_BLKSIZE
      in if blkoff \<noteq> 0 then do {
           let len = (if nblks \<noteq> 0 then SFS_BLKSIZE - blkoff else endpos - offset);
           (ret, s1) \<leftarrow> sfs_io_part D wr fp np buf len blkno blkoff s;
           if ret \<noteq> 0 then Some (ret, 0, s1)
           else if nblks = 0 then Some (0, len, s1)
           else sfs_io_blocks D wr fp np (buf + len) endpos (blkno + 1) (nblks - 1) len s1
         }
         else sfs_io_blocks D wr fp np buf endpos blkno nblks 0 s)"

text \<open>The result is the return code and \<^verbatim>\<open>*alenp\<close>.\<close>

definition sfs_io_nolock ::
  "(nat \<Rightarrow> 'a sfs_st_scheme device_ops) \<Rightarrow> ptr \<Rightarrow> ptr \<Rightarrow> nat \<Rightarrow> u64 \<Rightarrow> u64 \<Rightarrow> bool \<Rightarrow> 'a sfs_st_scheme \<Rightarrow> (int \<times> u64 \<times> 'a sfs_st_scheme) option" where
  "sfs_io_nolock D fp np buf offset alen wr s = do {
     i \<leftarrow> sins s np;
     let din = sin_din i;
     kassert (din_type din \<noteq> SFS_TYPE_DIR);
     let endpos = offset + alen;
     if sint offset < 0 \<or> offset \<ge> SFS_MAX_FILE_SIZE \<or> sint offset > sint endpos then Some (- E_INVAL, 0, s)
     else if offset = endpos then Some (0, 0, s)
     else do {
       let end1 = unat (if endpos > SFS_MAX_FILE_SIZE then SFS_MAX_FILE_SIZE else endpos);
       if \<not> wr \<and> unat offset \<ge> unat (din_size din) then Some (0, 0, s)
       else do {
         let end2 = (if \<not> wr \<and> end1 > unat (din_size din) then unat (din_size din) else end1);
         (ret, n, s1) \<leftarrow> sfs_io_steps D wr fp np buf (unat offset) end2 s;
         j \<leftarrow> sins s1 np;
         Some (ret, of_nat n,
               if unat offset + n > unat (din_size (sin_din j))
               then set_dirty np True (upd_din np (\<lambda>d. d\<lparr>din_size := of_nat (unat offset + n)\<rparr>) s1) else s1)
       }
     }
   }"

definition sfs_io ::
  "(nat \<Rightarrow> 'a sfs_st_scheme device_ops) \<Rightarrow> ptr \<Rightarrow> iobuf \<Rightarrow> bool \<Rightarrow> 'a sfs_st_scheme \<Rightarrow> (int \<times> iobuf \<times> 'a sfs_st_scheme) option" where
  "sfs_io D np iob wr s = do {
     fp \<leftarrow> sfs_of np s;
     s1 \<leftarrow> lock_sin np s;
     (ret, alen, s2) \<leftarrow> sfs_io_nolock D fp np (io_base iob) (io_offset iob) (io_resid iob) wr s1;
     iob' \<leftarrow> (if alen \<noteq> 0 then iobuf_skip iob alen else Some iob);
     Some (ret, iob', unlock_sin np s2)
   }"

definition sfs_read ::
  "(nat \<Rightarrow> 'a sfs_st_scheme device_ops) \<Rightarrow> ptr \<Rightarrow> iobuf \<Rightarrow> 'a sfs_st_scheme \<Rightarrow> (int \<times> iobuf \<times> 'a sfs_st_scheme) option" where
  "sfs_read D np iob s = sfs_io D np iob False s"

definition sfs_write ::
  "(nat \<Rightarrow> 'a sfs_st_scheme device_ops) \<Rightarrow> ptr \<Rightarrow> iobuf \<Rightarrow> 'a sfs_st_scheme \<Rightarrow> (int \<times> iobuf \<times> 'a sfs_st_scheme) option" where
  "sfs_write D np iob s = sfs_io D np iob True s"

definition S_IFREG :: u32 where "S_IFREG = 0x1000"
definition S_IFLNK :: u32 where "S_IFLNK = 0x3000"

definition sfs_gettype :: "ptr \<Rightarrow> 'a sfs_st_scheme \<Rightarrow> (int \<times> u32 \<times> 'a sfs_st_scheme) option" where
  "sfs_gettype np s = do {
     i \<leftarrow> sins s np;
     let ty = din_type (sin_din i);
     if ty = SFS_TYPE_DIR then Some (0, S_IFDIR, s)
     else if ty = SFS_TYPE_FILE then Some (0, S_IFREG, s)
     else if ty = SFS_TYPE_LINK then Some (0, S_IFLNK, s)
     else None
   }"

text \<open>The call of \<^verbatim>\<open>vop_gettype\<close> is a call of \<open>sfs_gettype\<close>, because both tables have it.\<close>

definition sfs_fstat :: "ptr \<Rightarrow> 'a sfs_st_scheme \<Rightarrow> (int \<times> stat \<times> 'a sfs_st_scheme) option" where
  "sfs_fstat np s = do {
     n \<leftarrow> inodes s np;
     kassert (inode_check n);
     (ret, mode, s1) \<leftarrow> sfs_gettype np s;
     i \<leftarrow> sins s1 np;
     let din = sin_din i;
     Some (0, \<lparr>st_mode = mode, st_nlinks = ucast (din_nlinks din), st_blocks = ucast (din_blocks din), st_size = ucast (din_size din)\<rparr>, s1)
   }"

definition sfs_fsync :: "(nat \<Rightarrow> 'a sfs_st_scheme device_ops) \<Rightarrow> ptr \<Rightarrow> 'a sfs_st_scheme \<Rightarrow> (int \<times> 'a sfs_st_scheme) option" where
  "sfs_fsync D np s = do {
     fp \<leftarrow> sfs_of np s;
     i \<leftarrow> sins s np;
     if \<not> sin_dirty i then Some (0, s)
     else do {
       s1 \<leftarrow> lock_sin np s;
       (ret, s2) \<leftarrow> sfs_wbytes D fp (din_bytes (sin_din i)) (sin_ino i) 0 (set_dirty np False s1);
       Some (ret, unlock_sin np (if ret \<noteq> 0 then set_dirty np True s2 else s2))
     }
   }"

text \<open>Calls through the table of the inode.\<close>

definition vop_fsync :: "'a fs_st_scheme vtab \<Rightarrow> ptr \<Rightarrow> 'a fs_st_scheme \<Rightarrow> (int \<times> 'a fs_st_scheme) option" where
  "vop_fsync T np s = do { f \<leftarrow> vop_op T op_fsync np s; f np s }"

definition vop_truncate :: "'a fs_st_scheme vtab \<Rightarrow> ptr \<Rightarrow> u64 \<Rightarrow> 'a fs_st_scheme \<Rightarrow> (int \<times> 'a fs_st_scheme) option" where
  "vop_truncate T np len s = do { f \<leftarrow> vop_op T op_truncate np s; f np len s }"

definition sfs_close :: "'a sfs_st_scheme vtab \<Rightarrow> ptr \<Rightarrow> 'a sfs_st_scheme \<Rightarrow> (int \<times> 'a sfs_st_scheme) option" where
  "sfs_close T np s = vop_fsync T np s"

section \<open>Size of files\<close>

fun sfs_grow_loop ::
  "(nat \<Rightarrow> 'a sfs_st_scheme device_ops) \<Rightarrow> ptr \<Rightarrow> ptr \<Rightarrow> u32 \<Rightarrow> nat \<Rightarrow> 'a sfs_st_scheme \<Rightarrow> (int \<times> 'a sfs_st_scheme) option" where
  "sfs_grow_loop D fp np nblks 0 s = Some (0, s)"
| "sfs_grow_loop D fp np nblks (Suc k) s = do {
     (ret, ino, s1) \<leftarrow> sfs_bmap_load_nolock D fp np nblks s;
     if ret \<noteq> 0 then Some (ret, s1) else sfs_grow_loop D fp np (nblks + 1) k s1
   }"

fun sfs_shrink_loop ::
  "(nat \<Rightarrow> 'a sfs_st_scheme device_ops) \<Rightarrow> ptr \<Rightarrow> ptr \<Rightarrow> nat \<Rightarrow> 'a sfs_st_scheme \<Rightarrow> (int \<times> 'a sfs_st_scheme) option" where
  "sfs_shrink_loop D fp np 0 s = Some (0, s)"
| "sfs_shrink_loop D fp np (Suc k) s = do {
     (ret, s1) \<leftarrow> sfs_bmap_truncate_nolock D fp np s;
     if ret \<noteq> 0 then Some (ret, s1) else sfs_shrink_loop D fp np k s1
   }"

definition sfs_truncfile :: "(nat \<Rightarrow> 'a sfs_st_scheme device_ops) \<Rightarrow> ptr \<Rightarrow> u64 \<Rightarrow> 'a sfs_st_scheme \<Rightarrow> (int \<times> 'a sfs_st_scheme) option" where
  "sfs_truncfile D np len s =
     (if sint len < 0 \<or> len > SFS_MAX_FILE_SIZE then Some (- E_INVAL, s)
      else do {
        fp \<leftarrow> sfs_of np s;
        i \<leftarrow> sins s np;
        let tblks = (of_nat ((unat len + SFS_BLKSIZE - 1) div SFS_BLKSIZE) :: u32);
        if ucast (din_size (sin_din i)) = len then do {
          kassert (tblks = din_blocks (sin_din i));
          Some (0, s)
        }
        else do {
          s1 \<leftarrow> lock_sin np s;
          let nblks = din_blocks (sin_din i);
          (ret, s2) \<leftarrow> (if nblks < tblks then sfs_grow_loop D fp np nblks (unat (tblks - nblks)) s1
                        else sfs_shrink_loop D fp np (unat (nblks - tblks)) s1);
          if ret \<noteq> 0 then Some (ret, unlock_sin np s2)
          else do {
            j \<leftarrow> sins s2 np;
            kassert (din_blocks (sin_din j) = tblks);
            Some (0, unlock_sin np (set_dirty np True (upd_din np (\<lambda>d. d\<lparr>din_size := ucast len\<rparr>) s2)))
          }
        }
      })"

definition sfs_tryseek :: "'a sfs_st_scheme vtab \<Rightarrow> ptr \<Rightarrow> u64 \<Rightarrow> 'a sfs_st_scheme \<Rightarrow> (int \<times> 'a sfs_st_scheme) option" where
  "sfs_tryseek T np pos s =
     (if sint pos < 0 \<or> pos \<ge> SFS_MAX_FILE_SIZE then Some (- E_INVAL, s)
      else do {
        i \<leftarrow> sins s np;
        if unat pos > unat (din_size (sin_din i)) then vop_truncate T np pos s else Some (0, s)
      })"

section \<open>Names and directory entries\<close>

definition put_string :: "nat \<Rightarrow> string \<Rightarrow> mem \<Rightarrow> mem" where
  "put_string a cs m = mem_put a (map of_char cs) m"

text \<open>
  \<open>sfs_namefile\<close> walks to the root by the entry \<^verbatim>\<open>..\<close> and writes the names from the end of the buffer; \<open>p\<close> is the position reached,
  \<open>resid\<close> the room left and \<open>K\<close> gives the answers of \<^verbatim>\<open>kmalloc\<close> for each step.  The result is the return code, \<open>p\<close> and \<open>resid\<close>.
\<close>

partial_function (option) sfs_namefile_loop ::
  "'a sfs_st_scheme vtab \<Rightarrow> (nat \<Rightarrow> 'a sfs_st_scheme device_ops) \<Rightarrow> inode \<Rightarrow> (nat \<Rightarrow> bool \<times> bool \<times> ptr option) \<Rightarrow> nat \<Rightarrow>
   ptr \<Rightarrow> ptr \<Rightarrow> nat \<Rightarrow> nat \<Rightarrow> 'a sfs_st_scheme \<Rightarrow> (int \<times> nat \<times> nat \<times> 'a sfs_st_scheme) option" where
  "sfs_namefile_loop T D u K k fp np p resid s = do {
     (ret, r, s1) \<leftarrow> (case K k of (ke, kd, kn) \<Rightarrow> sfs_lookup_once D u ke kd kn fp np ''..'' s);
     if ret \<noteq> 0 then do { s2 \<leftarrow> inode_ref_dec T np s1; Some (ret, p, resid, s2) }
     else do {
       parent \<leftarrow> r;
       i \<leftarrow> sins s1 np;
       s2 \<leftarrow> inode_ref_dec T np s1;
       if np = parent then do { s3 \<leftarrow> inode_ref_dec T np s2; Some (0, p, resid, s3) }
       else do {
         j \<leftarrow> sins s2 parent;
         kassert (sin_ino i \<noteq> sin_ino j \<and> din_type (sin_din j) = SFS_TYPE_DIR);
         s3 \<leftarrow> lock_sin parent s2;
         (ret2, e, s4) \<leftarrow> sfs_dirent_findino_nolock D fp parent (sin_ino i) s3;
         let s5 = unlock_sin parent s4;
         let nm = name_string (de_name e);
         let alen = length nm + 1;
         if ret2 \<noteq> 0 then do { s6 \<leftarrow> inode_ref_dec T parent s5; Some (ret2, p, resid, s6) }
         else if alen > resid then do { s6 \<leftarrow> inode_ref_dec T parent s5; Some (- E_NO_MEM, p, resid, s6) }
         else sfs_namefile_loop T D u K (k + 1) fp parent (p - alen) (resid - alen)
                (s5\<lparr>kmem := put_string (p - alen) (nm @ ''/'') (kmem s5)\<rparr>)
       }
     }
   }"

declare sfs_namefile_loop.simps [code]

definition sfs_namefile ::
  "'a sfs_st_scheme vtab \<Rightarrow> (nat \<Rightarrow> 'a sfs_st_scheme device_ops) \<Rightarrow> inode \<Rightarrow> bool \<Rightarrow> (nat \<Rightarrow> bool \<times> bool \<times> ptr option) \<Rightarrow>
   ptr \<Rightarrow> iobuf \<Rightarrow> 'a sfs_st_scheme \<Rightarrow> (int \<times> iobuf \<times> 'a sfs_st_scheme) option" where
  "sfs_namefile T D u ke K np iob s =
     (if io_resid iob \<le> 2 \<or> \<not> ke then Some (- E_NO_MEM, iob, s)
      else do {
        fp \<leftarrow> sfs_of np s;
        s1 \<leftarrow> inode_ref_inc np s;
        (ret, p, resid, s2) \<leftarrow> sfs_namefile_loop T D u K 0 fp np (io_base iob + unat (io_resid iob)) (unat (io_resid iob) - 2) s1;
        if ret \<noteq> 0 then Some (ret, iob, s2)
        else do {
          let alen = unat (io_resid iob) - resid - 2;
          let m = memmove (io_base iob + 1) p alen (kmem s2);
          let m' = m(io_base iob := of_char CHR ''/'', io_base iob + 1 + alen := 0);
          iob' \<leftarrow> iobuf_skip iob (of_nat alen);
          Some (0, iob', s2\<lparr>kmem := m'\<rparr>)
        }
      })"

text \<open>The \<open>slot\<close>-th used entry.\<close>

fun getdirentry_sub_loop ::
  "(nat \<Rightarrow> 'a sfs_st_scheme device_ops) \<Rightarrow> ptr \<Rightarrow> ptr \<Rightarrow> int \<Rightarrow> nat \<Rightarrow> nat \<Rightarrow> 'a sfs_st_scheme \<Rightarrow> (int \<times> sfs_disk_entry \<times> 'a sfs_st_scheme) option" where
  "getdirentry_sub_loop D fp np slot i 0 s = Some (- E_NOENT, bytes_entry [], s)"
| "getdirentry_sub_loop D fp np slot i (Suc n) s = do {
     (ret, e, s1) \<leftarrow> sfs_dirent_read_nolock D fp np i s;
     if ret \<noteq> 0 then Some (ret, e, s1)
     else if de_ino e \<noteq> 0
     then (if slot = 0 then Some (0, e, s1) else getdirentry_sub_loop D fp np (slot - 1) (i + 1) n s1)
     else getdirentry_sub_loop D fp np slot (i + 1) n s1
   }"

definition sfs_getdirentry_sub_nolock ::
  "(nat \<Rightarrow> 'a sfs_st_scheme device_ops) \<Rightarrow> ptr \<Rightarrow> ptr \<Rightarrow> int \<Rightarrow> 'a sfs_st_scheme \<Rightarrow> (int \<times> sfs_disk_entry \<times> 'a sfs_st_scheme) option" where
  "sfs_getdirentry_sub_nolock D fp np slot s = do { i \<leftarrow> sins s np; getdirentry_sub_loop D fp np slot 0 (nslots i) s }"

text \<open>The comparison of the slot, an \<^verbatim>\<open>int\<close>, with the number of blocks is made without sign.\<close>

definition sfs_getdirentry ::
  "(nat \<Rightarrow> 'a sfs_st_scheme device_ops) \<Rightarrow> bool \<Rightarrow> ptr \<Rightarrow> iobuf \<Rightarrow> 'a sfs_st_scheme \<Rightarrow> (int \<times> iobuf \<times> 'a sfs_st_scheme) option" where
  "sfs_getdirentry D ke np iob s =
     (if \<not> ke then Some (- E_NO_MEM, iob, s)
      else do {
        fp \<leftarrow> sfs_of np s;
        i \<leftarrow> sins s np;
        if sint (io_offset iob) < 0 \<or> unat (io_offset iob) mod sfs_dentry_size \<noteq> 0 then Some (- E_INVAL, iob, s)
        else do {
          let slot = (of_nat (unat (io_offset iob) div sfs_dentry_size) :: u32);
          if slot > din_blocks (sin_din i) then Some (- E_NOENT, iob, s)
          else do {
            s1 \<leftarrow> lock_sin np s;
            (ret, e, s2) \<leftarrow> sfs_getdirentry_sub_nolock D fp np (sint slot) s1;
            let s3 = unlock_sin np s2;
            if ret \<noteq> 0 then Some (ret, iob, s3)
            else do {
              (ret2, iob', m) \<leftarrow> iobuf_puts iob (map (\<lambda>b. char_of (unat b)) (de_name e)) (kmem s3);
              Some (ret2, iob', s3\<lparr>kmem := m\<rparr>)
            }
          }
        }
      })"

section \<open>Reclaiming inodes, looking up paths, and the tables\<close>

definition sfs_reclaim :: "'a sfs_st_scheme vtab \<Rightarrow> ptr \<Rightarrow> 'a sfs_st_scheme \<Rightarrow> (int \<times> 'a sfs_st_scheme) option" where
  "sfs_reclaim T np s = do {
     fp \<leftarrow> sfs_of np s;
     s1 \<leftarrow> lock_sfs_fs fp s;
     i \<leftarrow> sins s1 np;
     n \<leftarrow> inodes s1 np;
     kassert (sin_reclaim_count i > 0);
     let s2 = upd_sin np (\<lambda>i. i\<lparr>sin_reclaim_count := sin_reclaim_count i - 1\<rparr>) s1;
     if sin_reclaim_count i - 1 \<noteq> 0 \<or> ref_count n \<noteq> 0 then Some (- E_BUSY, unlock_sfs_fs fp s2)
     else do {
       (ret, s3) \<leftarrow> (if din_nlinks (sin_din i) = 0 then vop_truncate T np 0 s2 else Some (0, s2));
       if ret \<noteq> 0 then Some (ret, unlock_sfs_fs fp s3)
       else do {
         j \<leftarrow> sins s3 np;
         (ret2, s4) \<leftarrow> (if sin_dirty j then vop_fsync T np s3 else Some (0, s3));
         if ret2 \<noteq> 0 then Some (ret2, unlock_sfs_fs fp s4)
         else do {
           s5 \<leftarrow> sfs_remove_links fp np s4;
           let s6 = unlock_sfs_fs fp s5;
           l \<leftarrow> sins s6 np;
           s7 \<leftarrow> (if din_nlinks (sin_din l) = 0 then do {
                     t \<leftarrow> sfs_block_free fp (sin_ino l) s6;
                     if din_indirect (sin_din l) \<noteq> 0 then sfs_block_free fp (din_indirect (sin_din l)) t else Some t
                   } else Some s6);
           s8 \<leftarrow> inode_kill np s7;
           Some (0, s8\<lparr>sins := (sins s8)(np := None)\<rparr>)
         }
       }
     }
   }"

definition sfs_lookup ::
  "'a sfs_st_scheme vtab \<Rightarrow> (nat \<Rightarrow> 'a sfs_st_scheme device_ops) \<Rightarrow> inode \<Rightarrow> bool \<Rightarrow> bool \<Rightarrow> ptr option \<Rightarrow> ptr \<Rightarrow> string \<Rightarrow>
   'a sfs_st_scheme \<Rightarrow> (int \<times> ptr option \<times> 'a sfs_st_scheme) option" where
  "sfs_lookup T D u ke kd kn np path s = do {
     fp \<leftarrow> sfs_of np s;
     kassert (path \<noteq> [] \<and> hd path \<noteq> CHR ''/'');
     s1 \<leftarrow> inode_ref_inc np s;
     i \<leftarrow> sins s1 np;
     if din_type (sin_din i) \<noteq> SFS_TYPE_DIR then do { s2 \<leftarrow> inode_ref_dec T np s1; Some (- E_NOTDIR, None, s2) }
     else do {
       (ret, sub, s2) \<leftarrow> sfs_lookup_once D u ke kd kn fp np path s1;
       s3 \<leftarrow> inode_ref_dec T np s2;
       Some (ret, if ret \<noteq> 0 then None else sub, s3)
     }
   }"

text \<open>\<open>M\<close> gives the answers of \<^verbatim>\<open>kmalloc\<close> in a state: for an entry, a disk inode, an inode and the steps of \<open>sfs_namefile\<close>.\<close>

record 'w sfs_mem =
  mem_entry :: "'w \<Rightarrow> bool"
  mem_din :: "'w \<Rightarrow> bool"
  mem_inode :: "'w \<Rightarrow> ptr option"
  mem_walk :: "'w \<Rightarrow> nat \<Rightarrow> bool \<times> bool \<times> ptr option"
  mem_garbage :: inode

definition sfs_node_dirops ::
  "'a sfs_st_scheme vtab \<Rightarrow> (nat \<Rightarrow> 'a sfs_st_scheme device_ops) \<Rightarrow> 'a sfs_st_scheme sfs_mem \<Rightarrow> 'a sfs_st_scheme inode_ops" where
  "sfs_node_dirops T D M = \<lparr>op_magic = VOP_MAGIC, op_open = Some sfs_opendir, op_close = Some (sfs_close T), op_read = None, op_write = None,
     op_fstat = Some sfs_fstat, op_fsync = Some (sfs_fsync D),
     op_namefile = Some (\<lambda>np iob s. sfs_namefile T D (mem_garbage M) (mem_entry M s) (mem_walk M s) np iob s),
     op_getdirentry = Some (\<lambda>np iob s. sfs_getdirentry D (mem_entry M s) np iob s),
     op_reclaim = Some (sfs_reclaim T), op_gettype = Some sfs_gettype, op_tryseek = None, op_truncate = None, op_create = None,
     op_lookup = Some (\<lambda>np path s. sfs_lookup T D (mem_garbage M) (mem_entry M s) (mem_din M s) (mem_inode M s) np path s),
     op_ioctl = None\<rparr>"

definition sfs_node_fileops ::
  "'a sfs_st_scheme vtab \<Rightarrow> (nat \<Rightarrow> 'a sfs_st_scheme device_ops) \<Rightarrow> 'a sfs_st_scheme inode_ops" where
  "sfs_node_fileops T D = \<lparr>op_magic = VOP_MAGIC, op_open = Some sfs_openfile, op_close = Some (sfs_close T),
     op_read = Some (sfs_read D), op_write = Some (sfs_write D), op_fstat = Some sfs_fstat, op_fsync = Some (sfs_fsync D),
     op_namefile = None, op_getdirentry = None, op_reclaim = Some (sfs_reclaim T), op_gettype = Some sfs_gettype,
     op_tryseek = Some (sfs_tryseek T), op_truncate = Some (sfs_truncfile D), op_create = None, op_lookup = None, op_ioctl = None\<rparr>"

end
