(* ===== verification/SfsMount.thy ===== *)
theory SfsMount
  imports Sfs
begin

text \<open>
  Mounting, synchronising and unmounting the simple file system (\<^verbatim>\<open>kern/fs/sfs/sfs_fs.c\<close>, \<^verbatim>\<open>sfs.c\<close>).  The answers of \<^verbatim>\<open>kmalloc\<close> at a
  mount are a record; \<open>mnt_map_at\<close> is the address of the bitmap's data.
\<close>

fun sfs_sync_loop :: "'a sfs_st_scheme vtab \<Rightarrow> ptr list \<Rightarrow> 'a sfs_st_scheme \<Rightarrow> 'a sfs_st_scheme option" where
  "sfs_sync_loop T [] s = Some s"
| "sfs_sync_loop T (np # nps) s = do { (ret, s1) \<leftarrow> vop_fsync T np s; sfs_sync_loop T nps s1 }"

definition set_super_dirty :: "ptr \<Rightarrow> bool \<Rightarrow> 'a sfs_st_scheme \<Rightarrow> 'a sfs_st_scheme" where
  "set_super_dirty fp b = upd_sfs fp (\<lambda>f. f\<lparr>sfs_super_dirty := b\<rparr>)"

definition sfs_sync ::
  "'a sfs_st_scheme vtab \<Rightarrow> (nat \<Rightarrow> 'a sfs_st_scheme device_ops) \<Rightarrow> ptr \<Rightarrow> 'a sfs_st_scheme \<Rightarrow> (int \<times> 'a sfs_st_scheme) option" where
  "sfs_sync T D fp s = do {
     s1 \<leftarrow> lock_sfs_fs fp s;
     f \<leftarrow> sfss s1 fp;
     s2 \<leftarrow> sfs_sync_loop T (sfs_inode_list f) s1;
     let s3 = unlock_sfs_fs fp s2;
     g \<leftarrow> sfss s3 fp;
     if \<not> sfs_super_dirty g then Some (0, s3)
     else do {
       (ret, s4) \<leftarrow> sfs_sync_super D fp (set_super_dirty fp False s3);
       if ret \<noteq> 0 then Some (ret, set_super_dirty fp True s4)
       else do {
         (ret2, s5) \<leftarrow> sfs_sync_freemap D fp s4;
         if ret2 \<noteq> 0 then Some (ret2, set_super_dirty fp True s5) else Some (0, s5)
       }
     }
   }"

text \<open>Failing to load the root directory panics.\<close>

definition sfs_get_root ::
  "(nat \<Rightarrow> 'a sfs_st_scheme device_ops) \<Rightarrow> inode \<Rightarrow> bool \<Rightarrow> ptr option \<Rightarrow> ptr \<Rightarrow> 'a sfs_st_scheme \<Rightarrow> (ptr option \<times> 'a sfs_st_scheme) option" where
  "sfs_get_root D u kd kn fp s = do {
     (ret, np, s1) \<leftarrow> sfs_load_inode D u kd kn fp SFS_BLKN_ROOT s;
     if ret \<noteq> 0 then None else Some (np, s1)
   }"

definition sfs_unmount :: "ptr \<Rightarrow> 'a sfs_st_scheme \<Rightarrow> (int \<times> 'a sfs_st_scheme) option" where
  "sfs_unmount fp s = do {
     f \<leftarrow> sfss s fp;
     if sfs_inode_list f \<noteq> [] then Some (- E_BUSY, s)
     else do {
       kassert (\<not> sfs_super_dirty f);
       Some (0, s\<lparr>sfss := (sfss s)(fp := None)\<rparr>)
     }
   }"

fun sfs_cleanup_loop :: "'a sfs_st_scheme vtab \<Rightarrow> ptr \<Rightarrow> nat \<Rightarrow> 'a sfs_st_scheme \<Rightarrow> 'a sfs_st_scheme option" where
  "sfs_cleanup_loop T fp 0 s = Some s"
| "sfs_cleanup_loop T fp (Suc n) s = do {
     (ret, s1) \<leftarrow> fs_sync (vt_fs T fp) fp s;
     if ret = 0 then Some s1 else sfs_cleanup_loop T fp n s1
   }"

definition sfs_cleanup :: "'a sfs_st_scheme vtab \<Rightarrow> ptr \<Rightarrow> 'a sfs_st_scheme \<Rightarrow> 'a sfs_st_scheme option" where
  "sfs_cleanup T fp s = sfs_cleanup_loop T fp 32 s"

definition sfs_init_read ::
  "(nat \<Rightarrow> 'a sfs_st_scheme device_ops) \<Rightarrow> device \<Rightarrow> u32 \<Rightarrow> nat \<Rightarrow> 'a sfs_st_scheme \<Rightarrow> (int \<times> 'a sfs_st_scheme) option" where
  "sfs_init_read D dev blkno blk_buffer s = do {
     let iob = iobuf_init blk_buffer (of_nat SFS_BLKSIZE) (ucast (blkno * of_nat SFS_BLKSIZE));
     (ret, iob', s1) \<leftarrow> dop_io D dev iob False s;
     Some (ret, s1)
   }"

fun init_freemap_loop ::
  "(nat \<Rightarrow> 'a sfs_st_scheme device_ops) \<Rightarrow> device \<Rightarrow> u32 \<Rightarrow> nat \<Rightarrow> nat \<Rightarrow> 'a sfs_st_scheme \<Rightarrow> (int \<times> 'a sfs_st_scheme) option" where
  "init_freemap_loop D dev blkno data 0 s = Some (0, s)"
| "init_freemap_loop D dev blkno data (Suc n) s = do {
     (ret, s1) \<leftarrow> sfs_init_read D dev blkno data s;
     if ret \<noteq> 0 then Some (ret, s1) else init_freemap_loop D dev (blkno + 1) (data + SFS_BLKSIZE) n s1
   }"

text \<open>The words of the bitmap are those the transfer has put at its address.\<close>

definition sfs_init_freemap ::
  "(nat \<Rightarrow> 'a sfs_st_scheme device_ops) \<Rightarrow> device \<Rightarrow> bitmap \<Rightarrow> nat \<Rightarrow> u32 \<Rightarrow> u32 \<Rightarrow> 'a sfs_st_scheme \<Rightarrow> (int \<times> bitmap \<times> 'a sfs_st_scheme) option" where
  "sfs_init_freemap D dev freemap data blkno nblks s = do {
     let len = snd (bitmap_getdata freemap);
     kassert (len = unat nblks * SFS_BLKSIZE);
     (ret, s1) \<leftarrow> init_freemap_loop D dev blkno data (unat nblks) s;
     Some (ret, freemap\<lparr>bmap := bytes_u32s (unat (nwords freemap)) (mem_bytes data len (kmem s1))\<rparr>, s1)
   }"

definition count_free :: "bitmap \<Rightarrow> u32 \<Rightarrow> u32" where
  "count_free bm n = of_nat (length (filter (\<lambda>i. bitmap_test bm (of_nat i) = Some True) [0..<unat n]))"

record mount_mem =
  mnt_fs :: "ptr option"
  mnt_buffer :: "nat option"
  mnt_hash :: bool
  mnt_bitmap :: bool
  mnt_map :: bool
  mnt_map_at :: nat

definition new_sfs :: "sfs_super \<Rightarrow> device \<Rightarrow> bitmap \<Rightarrow> nat \<Rightarrow> nat \<Rightarrow> sfs_fs" where
  "new_sfs sb dev bm at buf = \<lparr>sfs_sup = sb, sfs_dev = dev, sfs_freemap = bm, sfs_freemap_at = at, sfs_super_dirty = False,
     sfs_buffer = buf, sfs_fs_locked = False, sfs_io_locked = False, sfs_inode_list = [], sfs_hlist = (\<lambda>_. [])\<rparr>"

text \<open>The free map, for a superblock that has been read and checked.\<close>

definition sfs_mount_freemap ::
  "(nat \<Rightarrow> 'a sfs_st_scheme device_ops) \<Rightarrow> mount_mem \<Rightarrow> ptr \<Rightarrow> nat \<Rightarrow> device \<Rightarrow> sfs_super \<Rightarrow> 'a sfs_st_scheme \<Rightarrow>
   (int \<times> ptr option \<times> 'a sfs_st_scheme) option" where
  "sfs_mount_freemap D k fp buf dev sb s =
     (if \<not> mnt_hash k then Some (- E_NO_MEM, None, s)
      else do {
        r \<leftarrow> bitmap_create (mnt_bitmap k) (mnt_map k) (sfs_freemap_bits sb);
        case r of None \<Rightarrow> Some (- E_NO_MEM, None, s)
        | Some bm0 \<Rightarrow> do {
            (ret, bm, s1) \<leftarrow> sfs_init_freemap D dev bm0 (mnt_map_at k) SFS_BLKN_FREEMAP (sfs_freemap_blocks sb) s;
            if ret \<noteq> 0 then Some (ret, None, s1)
            else do {
              kassert (count_free bm (sfs_freemap_bits sb) = sb_unused_blocks sb);
              Some (0, Some fp, s1\<lparr>sfss := (sfss s1)(fp \<mapsto> new_sfs sb dev bm (mnt_map_at k) buf)\<rparr>)
            }
          }
      })"

definition sfs_do_mount ::
  "(nat \<Rightarrow> 'a sfs_st_scheme device_ops) \<Rightarrow> mount_mem \<Rightarrow> ptr \<Rightarrow> 'a sfs_st_scheme \<Rightarrow> (int \<times> ptr option \<times> 'a sfs_st_scheme) option" where
  "sfs_do_mount D k devp s = do {
     dev \<leftarrow> vop_device devp s;
     if d_blocksize dev \<noteq> of_nat SFS_BLKSIZE then Some (- E_NA_DEV, None, s)
     else case mnt_fs k of None \<Rightarrow> Some (- E_NO_MEM, None, s)
     | Some fp \<Rightarrow>
         (case mnt_buffer k of None \<Rightarrow> Some (- E_NO_MEM, None, s)
          | Some buf \<Rightarrow> do {
              (ret, s1) \<leftarrow> sfs_init_read D dev SFS_BLKN_SUPER buf s;
              if ret \<noteq> 0 then Some (ret, None, s1)
              else do {
                let sb = bytes_super (mem_bytes buf sizeof_super (kmem s1));
                if sb_magic sb \<noteq> SFS_MAGIC then Some (- E_INVAL, None, s1)
                else if ucast (sb_blocks sb) > d_blocks dev then Some (- E_INVAL, None, s1)
                else sfs_mount_freemap D k fp buf dev (sb\<lparr>sb_info := (sb_info sb)[SFS_MAX_INFO_LEN := 0]\<rparr>)
                       (s1\<lparr>kmem := (kmem s1)(buf + 12 + SFS_MAX_INFO_LEN := 0)\<rparr>)
              }
            })
   }"

definition sfs_mount ::
  "(nat \<Rightarrow> 'a sfs_st_scheme device_ops) \<Rightarrow> mount_mem \<Rightarrow> string \<Rightarrow> 'a sfs_st_scheme \<Rightarrow> (int \<times> 'a sfs_st_scheme) option" where
  "sfs_mount D k nm s = vfs_mount (sfs_do_mount D k) nm s"

definition sfs_init :: "(nat \<Rightarrow> 'a sfs_st_scheme device_ops) \<Rightarrow> mount_mem \<Rightarrow> 'a sfs_st_scheme \<Rightarrow> 'a sfs_st_scheme option" where
  "sfs_init D k s = do { (ret, s1) \<leftarrow> sfs_mount D k ''disk0'' s; if ret \<noteq> 0 then None else Some s1 }"

definition sfs_fs_ops ::
  "'a sfs_st_scheme vtab \<Rightarrow> (nat \<Rightarrow> 'a sfs_st_scheme device_ops) \<Rightarrow> 'a sfs_st_scheme sfs_mem \<Rightarrow> 'a sfs_st_scheme fs_ops" where
  "sfs_fs_ops T D M = \<lparr>fs_sync = sfs_sync T D, fs_get_root = (\<lambda>fp s. sfs_get_root D (mem_garbage M) (mem_din M s) (mem_inode M s) fp s),
     fs_unmount = sfs_unmount, fs_cleanup = sfs_cleanup T\<rparr>"

end
