(* ===== verification/SfsInv.thy ===== *)
theory SfsInv
  imports SfsMount
begin

text \<open>
  The simple file system on a block device.  The contract \<open>block_device\<close> says what the file system relies on: a transfer of one
  block moves exactly the bytes of the block and touches no memory but the caller's buffer and the driver's own; it is interpreted
  on the driver of the root disk.  Inside the contract: the byte-level transfers, the block map, reading of files and writing back of
  inodes.
\<close>

section \<open>Bytes\<close>

lemma bytes_u32_bytes [simp]: "bytes_u32 (u32_bytes w @ bs) = w"
proof (rule bit_word_eqI)
  fix n assume "n < LENGTH(32)"
  then consider "n < 8" | "8 \<le> n \<and> n < 16" | "16 \<le> n \<and> n < 24" | "24 \<le> n \<and> n < 32" by force
  then show "bit (bytes_u32 (u32_bytes w @ bs)) n = bit w n"
    by cases (auto simp: bytes_u32_def u32_bytes_def bit_simps)
qed

lemma bytes_u16_bytes [simp]: "bytes_u16 (u16_bytes w @ bs) = w"
  by (rule bit_word_eqI) (auto simp: bytes_u16_def u16_bytes_def bit_simps)

lemma drop_u32_bytes [simp]: "drop 4 (u32_bytes w @ bs) = bs" "drop 2 (u16_bytes v @ bs) = bs"
  by (simp_all add: u32_bytes_def u16_bytes_def)

lemma bytes_u32s_bytes [simp]: "bytes_u32s (length ws) (concat (map u32_bytes ws) @ bs) = ws"
  by (induction ws) simp_all

lemma length_concat_u32 [simp]: "length (concat (map u32_bytes ws)) = 4 * length ws"
  by (induction ws) simp_all

lemma unat_plus_of_nat:
  fixes b :: u32
  assumes "unat b + k < 2 ^ 32"
  shows "unat (b + of_nat k) = unat b + k"
proof -
  have "unat (of_nat (unat b + k) :: u32) = unat b + k" using assms by (simp only: unat_of_nat) (simp add: take_bit_nat_eq_self)
  then show ?thesis by simp
qed

lemma div_mod_4096:
  fixes n :: nat
  obtains q r where "n = q * 4096 + r" "r < 4096" "n div 4096 = q" "n mod 4096 = r"
  by (rule that [of "n div 4096" "n mod 4096"]) simp_all

lemma first_part_fits:
  fixes offset endpos :: nat
  assumes "offset < endpos"
  shows "offset mod 4096 + (if endpos div 4096 = offset div 4096 then endpos - offset else 4096 - offset mod 4096) \<le> 4096" (is ?A)
    "(if endpos div 4096 = offset div 4096 then endpos - offset else 4096 - offset mod 4096) \<le> endpos - offset" (is ?B)
proof -
  obtain q r where o: "offset = q * 4096 + r" "r < 4096" "offset div 4096 = q" "offset mod 4096 = r" by (rule div_mod_4096)
  obtain q' r' where e: "endpos = q' * 4096 + r'" "r' < 4096" "endpos div 4096 = q'" "endpos mod 4096 = r'" by (rule div_mod_4096)
  show ?A unfolding o(3,4) e(3) using o(1,2) e(1,2) by auto
  have "q' \<noteq> q \<Longrightarrow> q + 1 \<le> q'" using assms o(1) e(1,2) by linarith
  then have "q' \<noteq> q \<Longrightarrow> (q + 1) * 4096 \<le> q' * 4096" by (intro mult_le_mono1)
  then show ?B unfolding o(3,4) e(3) using o(1,2) e(1) by auto
qed

lemma next_block:
  fixes offset :: nat
  assumes "offset mod 4096 \<noteq> 0"
  shows "offset + (4096 - offset mod 4096) = (offset div 4096 + 1) * 4096" "(offset + 4095) div 4096 = offset div 4096 + 1"
proof -
  obtain q r where o: "offset = q * 4096 + r" "r < 4096" "offset div 4096 = q" "offset mod 4096 = r" by (rule div_mod_4096)
  show "offset + (4096 - offset mod 4096) = (offset div 4096 + 1) * 4096" unfolding o(3,4) using o(1,2) by simp
  have "offset + 4095 = (r - 1) + (q + 1) * 4096" "r - 1 < 4096" using o(1,2,4) assms by simp_all
  then show "(offset + 4095) div 4096 = offset div 4096 + 1" unfolding o(3) by (metis div_mult_self3 div_less add_0 zero_neq_numeral add.commute)
qed

lemma next_block_le:
  fixes offset endpos :: nat
  assumes "offset < endpos" "endpos div 4096 \<noteq> offset div 4096"
  shows "(offset div 4096 + 1) * 4096 \<le> endpos"
proof -
  have "offset div 4096 + 1 \<le> endpos div 4096" using assms div_le_mono [of offset endpos 4096] by simp
  then have "(offset div 4096 + 1) * 4096 \<le> endpos div 4096 * 4096" by (rule mult_le_mono1)
  also have "\<dots> \<le> endpos" by simp
  finally show ?thesis .
qed

lemma sint_small:
  fixes x :: u64
  assumes "unat x < 2 ^ 63"
  shows "sint x = int (unat x)"
proof -
  have u: "uint x = int (unat x)" by simp
  have b: "int (unat x) < 2 ^ 63" using assms of_nat_less_iff [of "unat x" "2 ^ 63", where 'a = int] by (simp only: of_nat_power of_nat_numeral)
  have "(- (2 ^ 63) :: int) \<le> 0" by simp
  then have "- (2 ^ 63) \<le> int (unat x)" by (rule order_trans) simp
  then have "signed_take_bit 63 (int (unat x)) = int (unat x)" using b by (rule signed_take_bit_int_eq_self)
  then show ?thesis unfolding sint_uint u by simp
qed

text \<open>An inode is what its bytes decode to.\<close>

lemma bytes_din_bytes:
  assumes "length (din_direct d) = SFS_NDIRECT"
  shows "bytes_din (din_bytes d @ bs) = d"
proof -
  have drops: "drop 4 (din_bytes d @ bs) = u16_bytes (din_type d) @ u16_bytes (din_nlinks d) @ u32_bytes (din_blocks d)
      @ concat (map u32_bytes (din_direct d)) @ u32_bytes (din_indirect d) @ bs"
    by (simp add: din_bytes_def)
  have d6: "drop 6 xs = drop 2 (drop 4 xs)" and d8: "drop 8 xs = drop 2 (drop 2 (drop 4 xs))"
    and d12: "drop 12 xs = drop 4 (drop 2 (drop 2 (drop 4 xs)))" for xs :: "u8 list" by simp_all
  have ind: "drop (12 + 4 * SFS_NDIRECT) xs = drop (4 * SFS_NDIRECT) (drop 12 xs)" for xs :: "u8 list" by (simp add: add.commute)
  have "bytes_u32 (din_bytes d @ bs) = din_size d" by (simp add: din_bytes_def)
  moreover have "bytes_u32s SFS_NDIRECT (concat (map u32_bytes (din_direct d)) @ u32_bytes (din_indirect d) @ bs) = din_direct d"
    unfolding assms [symmetric] by (rule bytes_u32s_bytes)
  ultimately show ?thesis
    unfolding bytes_din_def ind d6 d8 d12 drops by (simp add: assms del: drop_drop)
qed

lemma length_din_bytes: "length (din_direct d) = SFS_NDIRECT \<Longrightarrow> length (din_bytes d) = sizeof_din"
  by (simp add: din_bytes_def sizeof_din_def)

section \<open>The contract of a block device\<close>

locale block_device =
  fixes D :: "nat \<Rightarrow> 'a sfs_st_scheme device_ops"
    and ready :: "device \<Rightarrow> 'a sfs_st_scheme \<Rightarrow> bool"
    and nblk :: "'a sfs_st_scheme \<Rightarrow> nat"
    and own :: "'a sfs_st_scheme \<Rightarrow> nat set"
    and dbyte :: "'a sfs_st_scheme \<Rightarrow> nat \<Rightarrow> nat \<Rightarrow> u8"
  assumes read_block: "ready d s \<Longrightarrow> k < nblk s \<Longrightarrow> k < 2 ^ 20 \<Longrightarrow> region buf 4096 \<inter> own s = {} \<Longrightarrow>
      \<exists>iob m. dop_io D d (iobuf_init buf 4096 (of_nat (k * 4096))) False s = Some (0, iob, s\<lparr>kmem := m\<rparr>)
        \<and> (\<forall>i<4096. m (buf + i) = dbyte s k i) \<and> (\<forall>a. a \<notin> own s \<longrightarrow> a \<notin> region buf 4096 \<longrightarrow> m a = kmem s a)
        \<and> ready d (s\<lparr>kmem := m\<rparr>) \<and> nblk (s\<lparr>kmem := m\<rparr>) = nblk s \<and> own (s\<lparr>kmem := m\<rparr>) = own s
        \<and> (\<forall>j<nblk s. \<forall>i<4096. dbyte (s\<lparr>kmem := m\<rparr>) j i = dbyte s j i)"
    and write_block: "ready d s \<Longrightarrow> k < nblk s \<Longrightarrow> k < 2 ^ 20 \<Longrightarrow> region buf 4096 \<inter> own s = {} \<Longrightarrow>
      \<exists>iob m. dop_io D d (iobuf_init buf 4096 (of_nat (k * 4096))) True s = Some (0, iob, s\<lparr>kmem := m\<rparr>)
        \<and> (\<forall>a. a \<notin> own s \<longrightarrow> m a = kmem s a)
        \<and> ready d (s\<lparr>kmem := m\<rparr>) \<and> nblk (s\<lparr>kmem := m\<rparr>) = nblk s \<and> own (s\<lparr>kmem := m\<rparr>) = own s
        \<and> (\<forall>j<nblk s. \<forall>i<4096. dbyte (s\<lparr>kmem := m\<rparr>) j i = (if j = k then kmem s (buf + i) else dbyte s j i))"
    and frame: "kmem s' = kmem s \<Longrightarrow> ide_devices s' = ide_devices s \<Longrightarrow> disk0_buffer s' = disk0_buffer s \<Longrightarrow>
        disk0_locked s' = disk0_locked s \<Longrightarrow>
        ready d s' = ready d s \<and> nblk s' = nblk s \<and> own s' = own s \<and> dbyte s' = dbyte s"
    and poke: "\<forall>a\<in>own s. m a = kmem s a \<Longrightarrow> ready d (s\<lparr>kmem := m\<rparr>) = ready d s \<and> nblk (s\<lparr>kmem := m\<rparr>) = nblk s
        \<and> own (s\<lparr>kmem := m\<rparr>) = own s \<and> (\<forall>j<nblk s. \<forall>i<4096. dbyte (s\<lparr>kmem := m\<rparr>) j i = dbyte s j i)"

text \<open>The root disk.\<close>

definition dbase :: "'a blk_st_scheme \<Rightarrow> nat" where "dbase s = unat (iobase (ide_devices s DISK0_DEV_NO))"
definition dsecs :: "'a blk_st_scheme \<Rightarrow> nat" where "dsecs s = unat (ide_size (ide_devices s DISK0_DEV_NO))"

definition disk0_ready :: "device \<Rightarrow> 'a blk_st_scheme \<Rightarrow> bool" where
  "disk0_ready d s \<longleftrightarrow> disk_at s (dbase s) (dsecs s) \<and> \<not> disk0_locked s \<and> d_driver d = disk0_drv
     \<and> d_blocks d = of_nat (dsecs s div 8) \<and> region (disk0_buffer s) 16384 \<inter> region (dbase s) (dsecs s * 512) = {}"

definition disk0_own :: "'a blk_st_scheme \<Rightarrow> nat set" where
  "disk0_own s = region (disk0_buffer s) 16384 \<union> region (dbase s) (dsecs s * 512)"

definition disk_byte :: "'a blk_st_scheme \<Rightarrow> nat \<Rightarrow> nat \<Rightarrow> u8" where
  "disk_byte s k i = kmem s (dbase s + k * 4096 + i)"

lemma disk0_transfer:
  assumes r: "disk0_ready d s" and k: "k < dsecs s div 8" "k < 2 ^ 20" and dis: "region buf 4096 \<inter> disk0_own s = {}"
    and SD: "S = (if wr then buf else dbase s + k * 4096)" "T = (if wr then dbase s + k * 4096 else buf)"
  obtains iob m where "dop_io kernel_drivers d (iobuf_init buf 4096 (of_nat (k * 4096))) wr s = Some (0, iob, s\<lparr>kmem := m\<rparr>)"
    "\<And>a. a \<notin> region (disk0_buffer s) 16384 \<Longrightarrow> m a = (if a \<in> region T 4096 then kmem s (S + (a - T)) else kmem s a)"
proof -
  let ?iob = "iobuf_init buf 4096 (of_nat (k * 4096)) :: iobuf"
  have a: "disk_at s (dbase s) (dsecs s)" "\<not> disk0_locked s" "d_driver d = disk0_drv" "d_blocks d = of_nat (dsecs s div 8)"
    using r by (simp_all add: disk0_ready_def)
  have "sint (of_nat (k * 4096) :: u64) = int k * 4096"
    using k(2) by (subst signed_of_nat) (simp add: signed_take_bit_int_eq_self)
  then have off: "sint (io_offset ?iob) = int k * 4096" by (simp add: iobuf_init_def del: of_nat_mult)
  have ap: "Disk.apart s ?iob 1 (dbase s) (dsecs s)"
    using r dis unfolding Disk.apart_def disk0_ready_def disk0_own_def by (auto simp: iobuf_init_def disjoint_iff)
  have "\<exists>m. disk0_io (of_nat (dsecs s div 8)) ?iob wr s = Some (0, advance ?iob (io_resid ?iob), s\<lparr>kmem := m\<rparr>) \<and>
    (\<forall>a. a \<notin> region (disk0_buffer s) 16384 \<longrightarrow> m a = (if a \<in> region T (1 * 4096) then kmem s (S + (a - T)) else kmem s a))"
    by (rule disk0_io_spec [OF a(1,2) off _ _ ap]) (use SD k in \<open>simp_all add: iobuf_init_def\<close>)
  moreover have "dop_io kernel_drivers d ?iob wr s = disk0_io (of_nat (dsecs s div 8)) ?iob wr s"
    using a by (simp add: dop_io_def kernel_drivers_def disk0_drv_def stdin_drv_def stdout_drv_def)
  ultimately show thesis using that by (metis mult_1)
qed

lemma disk0_frame [simp]:
  "dbase (s\<lparr>kmem := m\<rparr>) = dbase s" "dsecs (s\<lparr>kmem := m\<rparr>) = dsecs s" "disk0_own (s\<lparr>kmem := m\<rparr>) = disk0_own s"
  "disk0_ready d (s\<lparr>kmem := m\<rparr>) = disk0_ready d s"
  by (simp_all add: dbase_def dsecs_def disk0_own_def disk0_ready_def)

lemma disk_byte_place:
  assumes "j < dsecs s div 8" "i < 4096"
  shows "dbase s + j * 4096 + i \<in> region (dbase s) (dsecs s * 512)"
proof -
  have "(j + 1) * 4096 \<le> dsecs s div 8 * 4096" using assms(1) by (intro mult_le_mono1) simp
  also have "\<dots> \<le> dsecs s * 512" by simp
  finally show ?thesis using assms(2) by simp
qed

interpretation disk0: block_device kernel_drivers disk0_ready "\<lambda>s. dsecs s div 8" disk0_own disk_byte
proof
  fix d and s :: "'a sfs_st_scheme" and k buf
  assume r: "disk0_ready d s" "k < dsecs s div 8" "k < 2 ^ 20" "region buf 4096 \<inter> disk0_own s = {}"
  have sep: "region (disk0_buffer s) 16384 \<inter> region (dbase s) (dsecs s * 512) = {}" using r(1) by (simp add: disk0_ready_def)
  have not_buf: "dbase s + j * 4096 + i \<notin> region (disk0_buffer s) 16384" if "j < dsecs s div 8" "i < 4096" for j i
    using disk_byte_place [OF that] sep by blast
  have bf: "buf + i \<notin> region (disk0_buffer s) 16384" "buf + i \<notin> region (dbase s) (dsecs s * 512)" if "i < 4096" for i
  proof -
    have "buf + i \<in> region buf 4096" using that by simp
    then show "buf + i \<notin> region (disk0_buffer s) 16384" "buf + i \<notin> region (dbase s) (dsecs s * 512)"
      using r(4) unfolding disk0_own_def by blast+
  qed
  show "\<exists>iob m. dop_io kernel_drivers d (iobuf_init buf 4096 (of_nat (k * 4096))) False s = Some (0, iob, s\<lparr>kmem := m\<rparr>)
      \<and> (\<forall>i<4096. m (buf + i) = disk_byte s k i) \<and> (\<forall>a. a \<notin> disk0_own s \<longrightarrow> a \<notin> region buf 4096 \<longrightarrow> m a = kmem s a)
      \<and> disk0_ready d (s\<lparr>kmem := m\<rparr>) \<and> dsecs (s\<lparr>kmem := m\<rparr>) div 8 = dsecs s div 8 \<and> disk0_own (s\<lparr>kmem := m\<rparr>) = disk0_own s
      \<and> (\<forall>j<dsecs s div 8. \<forall>i<4096. disk_byte (s\<lparr>kmem := m\<rparr>) j i = disk_byte s j i)"
  proof (rule disk0_transfer [OF r refl refl, of False])
    fix iob m assume io: "dop_io kernel_drivers d (iobuf_init buf 4096 (of_nat (k * 4096))) False s = Some (0, iob, s\<lparr>kmem := m\<rparr>)"
      and m: "\<And>a. a \<notin> region (disk0_buffer s) 16384 \<Longrightarrow> m a = (if a \<in> region (if False then dbase s + k * 4096 else buf) 4096
        then kmem s ((if False then buf else dbase s + k * 4096) + (a - (if False then dbase s + k * 4096 else buf))) else kmem s a)"
    have "disk_byte (s\<lparr>kmem := m\<rparr>) j i = disk_byte s j i" if "j < dsecs s div 8" "i < 4096" for j i
    proof -
      have "dbase s + j * 4096 + i \<notin> region buf 4096" using disk_byte_place [OF that] r(4) unfolding disk0_own_def by blast
      then show ?thesis using m [OF not_buf [OF that]] by (simp add: disk_byte_def del: in_region)
    qed
    moreover have "m (buf + i) = disk_byte s k i" if "i < 4096" for i using m [OF bf(1) [OF that]] that by (simp add: disk_byte_def)
    moreover have "m a = kmem s a" if "a \<notin> disk0_own s" "a \<notin> region buf 4096" for a
      using m [of a] that unfolding disk0_own_def by (simp del: in_region)
    ultimately show ?thesis using io r(1) by (intro exI [of _ iob] exI [of _ m]) auto
  qed
  show "\<exists>iob m. dop_io kernel_drivers d (iobuf_init buf 4096 (of_nat (k * 4096))) True s = Some (0, iob, s\<lparr>kmem := m\<rparr>)
      \<and> (\<forall>a. a \<notin> disk0_own s \<longrightarrow> m a = kmem s a)
      \<and> disk0_ready d (s\<lparr>kmem := m\<rparr>) \<and> dsecs (s\<lparr>kmem := m\<rparr>) div 8 = dsecs s div 8 \<and> disk0_own (s\<lparr>kmem := m\<rparr>) = disk0_own s
      \<and> (\<forall>j<dsecs s div 8. \<forall>i<4096. disk_byte (s\<lparr>kmem := m\<rparr>) j i = (if j = k then kmem s (buf + i) else disk_byte s j i))"
  proof (rule disk0_transfer [OF r refl refl, of True])
    fix iob m assume io: "dop_io kernel_drivers d (iobuf_init buf 4096 (of_nat (k * 4096))) True s = Some (0, iob, s\<lparr>kmem := m\<rparr>)"
      and m: "\<And>a. a \<notin> region (disk0_buffer s) 16384 \<Longrightarrow> m a = (if a \<in> region (if True then dbase s + k * 4096 else buf) 4096
        then kmem s ((if True then buf else dbase s + k * 4096) + (a - (if True then dbase s + k * 4096 else buf))) else kmem s a)"
    have "disk_byte (s\<lparr>kmem := m\<rparr>) j i = (if j = k then kmem s (buf + i) else disk_byte s j i)"
      if "j < dsecs s div 8" "i < 4096" for j i
    proof (cases "j = k")
      case False
      then have "dbase s + j * 4096 + i \<notin> region (dbase s + k * 4096) 4096"
        using that(2) by (cases "j < k") (auto simp: not_less dest!: le_neq_trans less_imp_Suc_add)
      then show ?thesis using False m [OF not_buf [OF that]] by (simp add: disk_byte_def del: in_region)
    qed (use m [OF not_buf [OF that]] that in \<open>simp add: disk_byte_def\<close>)
    moreover have "m a = kmem s a" if a: "a \<notin> disk0_own s" for a
    proof -
      have "region (dbase s + k * 4096) 4096 \<subseteq> region (dbase s) (dsecs s * 512)"
        using disk_byte_place [OF r(2), of 4095] by (intro region_subset) auto
      then show ?thesis using m [of a] a unfolding disk0_own_def by (auto simp del: in_region)
    qed
    ultimately show ?thesis using io r(1) by (intro exI [of _ iob] exI [of _ m]) auto
  qed
next
  fix s s' :: "'a sfs_st_scheme" and d
  assume "kmem s' = kmem s" "ide_devices s' = ide_devices s" "disk0_buffer s' = disk0_buffer s" "disk0_locked s' = disk0_locked s"
  then show "disk0_ready d s' = disk0_ready d s \<and> dsecs s' div 8 = dsecs s div 8 \<and> disk0_own s' = disk0_own s \<and> disk_byte s' = disk_byte s"
    by (simp add: disk0_ready_def disk_at_def dsecs_def dbase_def disk0_own_def disk_byte_def fun_eq_iff)
next
  fix s :: "'a sfs_st_scheme" and d m
  assume "\<forall>a\<in>disk0_own s. m a = kmem s a"
  then show "disk0_ready d (s\<lparr>kmem := m\<rparr>) = disk0_ready d s \<and> dsecs (s\<lparr>kmem := m\<rparr>) div 8 = dsecs s div 8
      \<and> disk0_own (s\<lparr>kmem := m\<rparr>) = disk0_own s \<and> (\<forall>j<dsecs s div 8. \<forall>i<4096. disk_byte (s\<lparr>kmem := m\<rparr>) j i = disk_byte s j i)"
    using disk_byte_place [of _ s] unfolding disk0_own_def by (auto simp: disk_byte_def simp del: in_region)
qed

section \<open>Mounted file systems\<close>

text \<open>
  \<open>sfs_on\<close>: the file system \<open>f\<close> is mounted at \<open>fp\<close> on a device that is ready, its blocks are on the device, the byte offsets of its
  blocks fit into 32 bits, and its block buffer is apart from the memory of the driver.  \<open>blk_inuse\<close>: a block that the free map knows
  and has marked as used.
\<close>

definition sfs_on ::
  "(device \<Rightarrow> 'a sfs_st_scheme \<Rightarrow> bool) \<Rightarrow> ('a sfs_st_scheme \<Rightarrow> nat) \<Rightarrow> ('a sfs_st_scheme \<Rightarrow> nat set) \<Rightarrow> ptr \<Rightarrow> sfs_fs \<Rightarrow> 'a sfs_st_scheme \<Rightarrow> bool" where
  "sfs_on rdy nb ow fp f s \<longleftrightarrow> sfss s fp = Some f \<and> rdy (sfs_dev f) s \<and> unat (sb_blocks (sfs_sup f)) \<le> nb s
     \<and> unat (sb_blocks (sfs_sup f)) \<le> 2 ^ 20 \<and> region (sfs_buffer f) 4096 \<inter> ow s = {}
     \<and> bm_ok (sfs_freemap f) \<and> sb_blocks (sfs_sup f) \<le> nbits (sfs_freemap f)"

definition blk_inuse :: "sfs_fs \<Rightarrow> u32 \<Rightarrow> bool" where
  "blk_inuse f b \<longleftrightarrow> b \<noteq> 0 \<and> b < sb_blocks (sfs_sup f) \<and> unat b \<notin> bm_free (sfs_freemap f)"

text \<open>The number of the block that holds the block \<open>j\<close> of a file, and the byte at a position, when \<open>db\<close> are the bytes of the disk.\<close>

definition file_block :: "(nat \<Rightarrow> nat \<Rightarrow> u8) \<Rightarrow> sfs_disk_inode \<Rightarrow> nat \<Rightarrow> u32" where
  "file_block db d j = (if j < SFS_NDIRECT then din_direct d ! j
     else bytes_u32 (map (db (unat (din_indirect d))) [4 * (j - SFS_NDIRECT)..<4 * (j - SFS_NDIRECT) + 4]))"

definition file_byte :: "(nat \<Rightarrow> nat \<Rightarrow> u8) \<Rightarrow> sfs_disk_inode \<Rightarrow> nat \<Rightarrow> u8" where
  "file_byte db d pos = db (unat (file_block db d (pos div SFS_BLKSIZE))) (pos mod SFS_BLKSIZE)"

text \<open>All blocks of the file are in use, and so is the block of its indirect entries.\<close>

definition file_ok :: "(nat \<Rightarrow> nat \<Rightarrow> u8) \<Rightarrow> sfs_fs \<Rightarrow> sfs_disk_inode \<Rightarrow> bool" where
  "file_ok db f d \<longleftrightarrow> length (din_direct d) = SFS_NDIRECT \<and> unat (din_blocks d) \<le> SFS_NDIRECT + SFS_BLK_NENTRY
     \<and> (unat (din_blocks d) > SFS_NDIRECT \<longrightarrow> blk_inuse f (din_indirect d))
     \<and> (\<forall>j<unat (din_blocks d). blk_inuse f (file_block db d j))"

abbreviation io_lock :: "sfs_fs \<Rightarrow> sfs_fs" where
  "io_lock \<equiv> sfs_io_locked_update (\<lambda>_. True)"

lemma sfss_upd_sfs [simp]: "sfss (upd_sfs fp g s) fp = map_option g (sfss s fp)" "sins (upd_sfs fp g s) = sins s"
  by (simp_all add: upd_sfs_def)

lemma kmem_upd_sfs [simp]: "kmem (upd_sfs fp g s) = kmem s"
  by (simp add: upd_sfs_def)

lemma upd_sfs_kmem [simp]: "(upd_sfs fp g s)\<lparr>kmem := m\<rparr> = upd_sfs fp g (s\<lparr>kmem := m\<rparr>)"
  by (simp add: upd_sfs_def)

lemma upd_sfs_unlock:
  assumes "sfss s fp = Some f" "\<not> sfs_io_locked f"
  shows "unlock_sfs_io fp (upd_sfs fp (\<lambda>f. f\<lparr>sfs_io_locked := True\<rparr>) s) = s"
proof -
  have "f\<lparr>sfs_io_locked := False\<rparr> = f" using assms(2) by (cases f) simp
  then show ?thesis using assms(1) by (cases s) (auto simp: unlock_sfs_io_def upd_sfs_def fun_upd_idem_iff)
qed

lemma assert_inuse_ok:
  assumes "sfss s fp = Some f" "bm_ok (sfs_freemap f)" "sb_blocks (sfs_sup f) \<le> nbits (sfs_freemap f)" "blk_inuse f b"
  shows "assert_inuse fp b s = Some ()"
proof -
  have "b < nbits (sfs_freemap f)" using assms(3,4) unfolding blk_inuse_def by (meson order_less_le_trans)
  then show ?thesis using assms bitmap_test_ok [OF assms(2), of b]
    by (simp add: assert_inuse_def sfs_block_inuse_def blk_inuse_def kassert_def)
qed

lemma block_offset:
  fixes b :: u32
  assumes "unat b < 2 ^ 20"
  shows "ucast (b * of_nat SFS_BLKSIZE) = (of_nat (unat b * 4096) :: u64)"
proof -
  have "b * of_nat SFS_BLKSIZE = (of_nat (unat b * 4096) :: u32)" by (simp add: SFS_BLKSIZE_def)
  then show ?thesis using ucast_of_nat_u32 [of "unat b * 4096"] assms by simp
qed

context block_device
begin

text \<open>\<open>calm\<close>: nothing has changed but the block buffer and the memory of the driver, and not the contents of the disk.\<close>

definition calm :: "sfs_fs \<Rightarrow> 'a sfs_st_scheme \<Rightarrow> 'a sfs_st_scheme \<Rightarrow> bool" where
  "calm f s s' \<longleftrightarrow> (\<exists>m. s' = s\<lparr>kmem := m\<rparr>) \<and> (\<forall>a. a \<notin> own s \<longrightarrow> a \<notin> region (sfs_buffer f) 4096 \<longrightarrow> kmem s' a = kmem s a)
     \<and> ready (sfs_dev f) s' \<and> nblk s' = nblk s \<and> own s' = own s \<and> (\<forall>j<nblk s. \<forall>i<4096. dbyte s' j i = dbyte s j i)"

lemma calmD:
  assumes "calm f s s'"
  shows "\<exists>m. s' = s\<lparr>kmem := m\<rparr>" "a \<notin> own s \<Longrightarrow> a \<notin> region (sfs_buffer f) 4096 \<Longrightarrow> kmem s' a = kmem s a" "ready (sfs_dev f) s'"
    "nblk s' = nblk s" "own s' = own s" "j < nblk s \<Longrightarrow> i < 4096 \<Longrightarrow> dbyte s' j i = dbyte s j i"
    "sfss s' = sfss s" "sins s' = sins s" "inodes s' = inodes s"
  using assms by (auto simp: calm_def)

lemma calm_refl: "ready (sfs_dev f) s \<Longrightarrow> calm f s s"
  unfolding calm_def by (intro conjI exI [of _ "kmem s"]) simp_all

lemma calm_trans: "calm f s s1 \<Longrightarrow> calm f s1 s2 \<Longrightarrow> calm f s s2"
  unfolding calm_def by auto

lemma sfs_on_calm: "sfs_on ready nblk own fp f s \<Longrightarrow> calm f s s' \<Longrightarrow> sfs_on ready nblk own fp f s'"
  by (auto simp: sfs_on_def calm_def)

lemma frame_upd_sfs [simp]:
  "ready d (upd_sfs fp g s) = ready d s" "nblk (upd_sfs fp g s) = nblk s" "own (upd_sfs fp g s) = own s"
  "dbyte (upd_sfs fp g s) = dbyte s"
  using frame [of "upd_sfs fp g s" s] by (simp_all add: upd_sfs_def)

lemma frame_upd_sin [simp]:
  "ready d (upd_sin np g s) = ready d s" "nblk (upd_sin np g s) = nblk s" "own (upd_sin np g s) = own s"
  "dbyte (upd_sin np g s) = dbyte s"
  using frame [of "upd_sin np g s" s] by (simp_all add: upd_sin_def)

text \<open>One block, with the lock of the file system held or not.\<close>

lemma rwblock_read:
  assumes on: "sfs_on ready nblk own fp f s" and b: "b \<noteq> 0" "b < sb_blocks (sfs_sup f)" and buf: "region buf 4096 \<inter> own s = {}"
  obtains m where "sfs_rwblock_nolock D fp buf b False True (upd_sfs fp io_lock s) = Some (0, upd_sfs fp io_lock (s\<lparr>kmem := m\<rparr>))"
    "\<And>i. i < 4096 \<Longrightarrow> m (buf + i) = dbyte s (unat b) i" "\<And>a. a \<notin> own s \<Longrightarrow> a \<notin> region buf 4096 \<Longrightarrow> m a = kmem s a"
    "ready (sfs_dev f) (s\<lparr>kmem := m\<rparr>)" "nblk (s\<lparr>kmem := m\<rparr>) = nblk s" "own (s\<lparr>kmem := m\<rparr>) = own s"
    "\<And>j i. j < nblk s \<Longrightarrow> i < 4096 \<Longrightarrow> dbyte (s\<lparr>kmem := m\<rparr>) j i = dbyte s j i"
proof -
  let ?s1 = "upd_sfs fp io_lock s"
  have k: "unat b < nblk s" "unat b < 2 ^ 20" and f: "sfss s fp = Some f" and r: "ready (sfs_dev f) ?s1"
    using on b(2) by (auto simp: sfs_on_def word_less_nat_alt)
  obtain iob m where io: "dop_io D (sfs_dev f) (iobuf_init buf 4096 (of_nat (unat b * 4096))) False ?s1 = Some (0, iob, ?s1\<lparr>kmem := m\<rparr>)"
    and m: "\<forall>i<4096. m (buf + i) = dbyte ?s1 (unat b) i" "\<forall>a. a \<notin> own ?s1 \<longrightarrow> a \<notin> region buf 4096 \<longrightarrow> m a = kmem ?s1 a"
      "ready (sfs_dev f) (?s1\<lparr>kmem := m\<rparr>)" "nblk (?s1\<lparr>kmem := m\<rparr>) = nblk ?s1" "own (?s1\<lparr>kmem := m\<rparr>) = own ?s1"
      "\<forall>j<nblk ?s1. \<forall>i<4096. dbyte (?s1\<lparr>kmem := m\<rparr>) j i = dbyte ?s1 j i"
    using read_block [OF r, of "unat b" buf] k buf by auto
  have "sfs_rwblock_nolock D fp buf b False True ?s1 = Some (0, upd_sfs fp io_lock (s\<lparr>kmem := m\<rparr>))"
    using io b block_offset [OF k(2)] by (simp add: sfs_rwblock_nolock_def f kassert_def SFS_BLKSIZE_def)
  then show thesis using m [unfolded upd_sfs_kmem frame_upd_sfs kmem_upd_sfs] by (intro that) blast+
qed

lemma rwblock_write:
  assumes on: "sfs_on ready nblk own fp f s" and b: "b \<noteq> 0" "b < sb_blocks (sfs_sup f)" and buf: "region buf 4096 \<inter> own s = {}"
  obtains m where "sfs_rwblock_nolock D fp buf b True True (upd_sfs fp io_lock s) = Some (0, upd_sfs fp io_lock (s\<lparr>kmem := m\<rparr>))"
    "\<And>a. a \<notin> own s \<Longrightarrow> m a = kmem s a"
    "ready (sfs_dev f) (s\<lparr>kmem := m\<rparr>)" "nblk (s\<lparr>kmem := m\<rparr>) = nblk s" "own (s\<lparr>kmem := m\<rparr>) = own s"
    "\<And>j i. j < nblk s \<Longrightarrow> i < 4096 \<Longrightarrow> dbyte (s\<lparr>kmem := m\<rparr>) j i = (if j = unat b then kmem s (buf + i) else dbyte s j i)"
proof -
  let ?s1 = "upd_sfs fp io_lock s"
  have k: "unat b < nblk s" "unat b < 2 ^ 20" and f: "sfss s fp = Some f" and r: "ready (sfs_dev f) ?s1"
    using on b(2) by (auto simp: sfs_on_def word_less_nat_alt)
  obtain iob m where io: "dop_io D (sfs_dev f) (iobuf_init buf 4096 (of_nat (unat b * 4096))) True ?s1 = Some (0, iob, ?s1\<lparr>kmem := m\<rparr>)"
    and m: "\<forall>a. a \<notin> own ?s1 \<longrightarrow> m a = kmem ?s1 a"
      "ready (sfs_dev f) (?s1\<lparr>kmem := m\<rparr>)" "nblk (?s1\<lparr>kmem := m\<rparr>) = nblk ?s1" "own (?s1\<lparr>kmem := m\<rparr>) = own ?s1"
      "\<forall>j<nblk ?s1. \<forall>i<4096. dbyte (?s1\<lparr>kmem := m\<rparr>) j i = (if j = unat b then kmem ?s1 (buf + i) else dbyte ?s1 j i)"
    using write_block [OF r, of "unat b" buf] k buf by auto
  have "sfs_rwblock_nolock D fp buf b True True ?s1 = Some (0, upd_sfs fp io_lock (s\<lparr>kmem := m\<rparr>))"
    using io b block_offset [OF k(2)] by (simp add: sfs_rwblock_nolock_def f kassert_def SFS_BLKSIZE_def)
  then show thesis using m [unfolded upd_sfs_kmem frame_upd_sfs kmem_upd_sfs] by (intro that) blast+
qed

lemma sfs_rbytes_spec:
  assumes on: "sfs_on ready nblk own fp f s" "\<not> sfs_io_locked f" and b: "b \<noteq> 0" "b < sb_blocks (sfs_sup f)"
    and len: "off < 4096" "off + len \<le> 4096"
  obtains s' where "sfs_rbytes D fp len b off s = Some (0, map (dbyte s (unat b)) [off..<off + len], s')" "calm f s s'"
proof -
  have f: "sfss s fp = Some f" and buf: "region (sfs_buffer f) 4096 \<inter> own s = {}" using on(1) by (simp_all add: sfs_on_def)
  obtain m where m: "sfs_rwblock_nolock D fp (sfs_buffer f) b False True (upd_sfs fp io_lock s) = Some (0, upd_sfs fp io_lock (s\<lparr>kmem := m\<rparr>))"
    "\<And>i. i < 4096 \<Longrightarrow> m (sfs_buffer f + i) = dbyte s (unat b) i" "\<And>a. a \<notin> own s \<Longrightarrow> a \<notin> region (sfs_buffer f) 4096 \<Longrightarrow> m a = kmem s a"
    "ready (sfs_dev f) (s\<lparr>kmem := m\<rparr>)" "nblk (s\<lparr>kmem := m\<rparr>) = nblk s" "own (s\<lparr>kmem := m\<rparr>) = own s"
    "\<And>j i. j < nblk s \<Longrightarrow> i < 4096 \<Longrightarrow> dbyte (s\<lparr>kmem := m\<rparr>) j i = dbyte s j i"
    using rwblock_read [OF on(1) b buf] by metis
  have "calm f s (s\<lparr>kmem := m\<rparr>)" unfolding calm_def using m by (auto simp del: in_region)
  moreover have "mem_bytes (sfs_buffer f + off) len m = map (dbyte s (unat b)) [off..<off + len]"
    using len m(2) by (intro nth_equalityI) (simp_all add: add.assoc)
  moreover have "unlock_sfs_io fp (upd_sfs fp io_lock (s\<lparr>kmem := m\<rparr>)) = s\<lparr>kmem := m\<rparr>"
    by (rule upd_sfs_unlock) (use f on(2) in simp_all)
  ultimately show thesis using that [of "s\<lparr>kmem := m\<rparr>"] m(1) f on(2) len
    by (simp add: sfs_rbytes_def kassert_def lock_sfs_io_def SFS_BLKSIZE_def)
qed

text \<open>\<open>wrote b g\<close>: like \<open>calm\<close>, but the block \<open>b\<close> has the bytes \<open>g\<close> now.\<close>

definition wrote :: "u32 \<Rightarrow> (nat \<Rightarrow> u8) \<Rightarrow> sfs_fs \<Rightarrow> 'a sfs_st_scheme \<Rightarrow> 'a sfs_st_scheme \<Rightarrow> bool" where
  "wrote b g f s s' \<longleftrightarrow> (\<exists>m. s' = s\<lparr>kmem := m\<rparr>) \<and> (\<forall>a. a \<notin> own s \<longrightarrow> a \<notin> region (sfs_buffer f) 4096 \<longrightarrow> kmem s' a = kmem s a)
     \<and> ready (sfs_dev f) s' \<and> nblk s' = nblk s \<and> own s' = own s
     \<and> (\<forall>j<nblk s. \<forall>i<4096. dbyte s' j i = (if j = unat b then g i else dbyte s j i))"

lemma sfs_wbytes_spec:
  assumes on: "sfs_on ready nblk own fp f s" "\<not> sfs_io_locked f" and b: "b \<noteq> 0" "b < sb_blocks (sfs_sup f)"
    and len: "off < 4096" "off + length bs \<le> 4096"
  obtains s' where "sfs_wbytes D fp bs b off s = Some (0, s')"
    "wrote b (\<lambda>i. if off \<le> i \<and> i < off + length bs then bs ! (i - off) else dbyte s (unat b) i) f s s'"
proof -
  let ?buf = "sfs_buffer f"
  have f: "sfss s fp = Some f" and buf: "region ?buf 4096 \<inter> own s = {}" using on(1) by (simp_all add: sfs_on_def)
  obtain m where m: "sfs_rwblock_nolock D fp ?buf b False True (upd_sfs fp io_lock s) = Some (0, upd_sfs fp io_lock (s\<lparr>kmem := m\<rparr>))"
    "\<And>i. i < 4096 \<Longrightarrow> m (?buf + i) = dbyte s (unat b) i" "\<And>a. a \<notin> own s \<Longrightarrow> a \<notin> region ?buf 4096 \<Longrightarrow> m a = kmem s a"
    "ready (sfs_dev f) (s\<lparr>kmem := m\<rparr>)" "nblk (s\<lparr>kmem := m\<rparr>) = nblk s" "own (s\<lparr>kmem := m\<rparr>) = own s"
    "\<And>j i. j < nblk s \<Longrightarrow> i < 4096 \<Longrightarrow> dbyte (s\<lparr>kmem := m\<rparr>) j i = dbyte s j i"
    using rwblock_read [OF on(1) b buf] by metis
  define n where "n = mem_put (?buf + off) bs m"
  have nout: "n a = m a" if "a \<notin> region ?buf 4096" for a
    using that len unfolding n_def by (intro mem_put_other) auto
  have nin: "n (?buf + i) = (if off \<le> i \<and> i < off + length bs then bs ! (i - off) else dbyte s (unat b) i)" if "i < 4096" for i
    using m(2) [OF that] by (auto simp: n_def mem_put_def)
  have "\<forall>a\<in>own (s\<lparr>kmem := m\<rparr>). n a = kmem (s\<lparr>kmem := m\<rparr>) a" using nout buf by (auto simp: m(6) simp del: in_region)
  note pk = poke [OF this, simplified]
  have on2: "sfs_on ready nblk own fp f (s\<lparr>kmem := n\<rparr>)" using on(1) pk m(4-6) by (auto simp: sfs_on_def)
  obtain m' where m': "sfs_rwblock_nolock D fp ?buf b True True (upd_sfs fp io_lock (s\<lparr>kmem := n\<rparr>)) = Some (0, upd_sfs fp io_lock (s\<lparr>kmem := m'\<rparr>))"
    "\<And>a. a \<notin> own s \<Longrightarrow> m' a = n a" "ready (sfs_dev f) (s\<lparr>kmem := m'\<rparr>)" "nblk (s\<lparr>kmem := m'\<rparr>) = nblk s" "own (s\<lparr>kmem := m'\<rparr>) = own s"
    "\<And>j i. j < nblk s \<Longrightarrow> i < 4096 \<Longrightarrow> dbyte (s\<lparr>kmem := m'\<rparr>) j i = (if j = unat b then n (?buf + i) else dbyte (s\<lparr>kmem := n\<rparr>) j i)"
    by (rule rwblock_write [OF on2 b, of ?buf]) (simp_all add: pk m(5,6) buf del: in_region)
  have "sfs_wbytes D fp bs b off s = Some (0, s\<lparr>kmem := m'\<rparr>)"
    using m(1) m'(1) f on(2) len upd_sfs_unlock [of "s\<lparr>kmem := m'\<rparr>" fp f]
    by (simp add: sfs_wbytes_def sfs_wfrom_def kassert_def lock_sfs_io_def SFS_BLKSIZE_def n_def)
  moreover have "wrote b (\<lambda>i. if off \<le> i \<and> i < off + length bs then bs ! (i - off) else dbyte s (unat b) i) f s (s\<lparr>kmem := m'\<rparr>)"
    unfolding wrote_def
  proof (intro conjI allI impI)
    show "kmem (s\<lparr>kmem := m'\<rparr>) a = kmem s a" if "a \<notin> own s" "a \<notin> region ?buf 4096" for a
      using m'(2) [OF that(1)] nout [OF that(2)] m(3) [OF that] by simp
    show "dbyte (s\<lparr>kmem := m'\<rparr>) j i = (if j = unat b then if off \<le> i \<and> i < off + length bs then bs ! (i - off) else dbyte s (unat b) i else dbyte s j i)"
      if "j < nblk s" "i < 4096" for j i
      using m'(6) [OF that] nin [OF that(2)] pk m(5,7) that by simp
  qed (use m' in auto)
  ultimately show thesis by (rule that)
qed

text \<open>The block map of an existing block changes nothing.\<close>

lemma bmap_load_spec:
  assumes on: "sfs_on ready nblk own fp f s" "\<not> sfs_io_locked f" and i: "sins s np = Some i"
    and ok: "file_ok (dbyte s) f (sin_din i)" and j: "j < unat (din_blocks (sin_din i))"
  obtains s' where "sfs_bmap_load_nolock D fp np (of_nat j) s = Some (0, file_block (dbyte s) (sin_din i) j, s')" "calm f s s'"
proof -
  let ?d = "sin_din i" and ?b = "file_block (dbyte s) (sin_din i) j"
  have use: "blk_inuse f ?b" and lim: "j < SFS_NDIRECT + SFS_BLK_NENTRY" using ok j by (auto simp: file_ok_def)
  have jw: "unat (of_nat j :: u32) = j"
    using j unsigned_less [of "din_blocks ?d", where ?'a = nat] by (simp add: unat_of_nat take_bit_nat_eq_self)
  have lt: "of_nat j < din_blocks ?d" using j jw by (simp add: word_less_nat_alt)
  have nz: "?b \<noteq> 0" using use by (simp add: blk_inuse_def)
  obtain s' where get: "sfs_bmap_get_nolock D fp np j False s = Some (0, ?b, s')" and c: "calm f s s'"
  proof (cases "j < SFS_NDIRECT")
    case True
    have a: "assert_inuse fp ?b s = Some ()" using on(1) use by (intro assert_inuse_ok) (simp_all add: sfs_on_def)
    show thesis
    proof (rule that [of s])
      show "sfs_bmap_get_nolock D fp np j False s = Some (0, ?b, s)"
        using i True nz a by (simp add: sfs_bmap_get_nolock_def Let_def file_block_def)
      show "calm f s s" using on(1) by (intro calm_refl) (simp add: sfs_on_def)
    qed
  next
    case False
    then have ind: "blk_inuse f (din_indirect ?d)" using ok j by (simp add: file_ok_def)
    let ?o = "4 * (j - SFS_NDIRECT)"
    have o4: "?o < 4096" "?o + 4 \<le> 4096" "j - SFS_NDIRECT < SFS_BLK_NENTRY" using lim False by (auto simp: SFS_BLK_NENTRY_def SFS_BLKSIZE_def)
    obtain s' where r: "sfs_rbytes D fp 4 (din_indirect ?d) ?o s = Some (0, map (dbyte s (unat (din_indirect ?d))) [?o..<?o + 4], s')" "calm f s s'"
      by (rule sfs_rbytes_spec [OF on _ _ o4(1,2), of "din_indirect ?d"]) (use ind in \<open>simp_all add: blk_inuse_def\<close>)
    have sub: "sfs_bmap_get_sub_nolock D fp (din_indirect ?d) (j - SFS_NDIRECT) False s = Some (0, din_indirect ?d, ?b, s')"
      using r(1) o4(3) ind False by (simp add: sfs_bmap_get_sub_nolock_def kassert_def blk_inuse_def file_block_def mult.commute Let_def)
    have a: "assert_inuse fp ?b s' = Some ()" using on(1) use calmD(7) [OF r(2)] by (intro assert_inuse_ok) (simp_all add: sfs_on_def)
    show thesis
    proof (rule that [OF _ r(2)])
      show "sfs_bmap_get_nolock D fp np j False s = Some (0, ?b, s')"
        using i False o4(3) sub a nz by (simp add: sfs_bmap_get_nolock_def Let_def)
    qed
  qed
  have a: "assert_inuse fp ?b s' = Some ()" using on(1) use calmD(7) [OF c] by (intro assert_inuse_ok) (simp_all add: sfs_on_def)
  show thesis
  proof (rule that [OF _ c])
    show "sfs_bmap_load_nolock D fp np (of_nat j) s = Some (0, ?b, s')"
      using i lt get a jw less_imp_le [OF lt] less_imp_neq [OF lt] by (simp add: sfs_bmap_load_nolock_def kassert_def Let_def)
  qed
qed

section \<open>Reading\<close>

text \<open>\<open>same_disk\<close> states, and \<open>got buf n g\<close>: like \<open>calm\<close>, but the \<open>n\<close> bytes at \<open>buf\<close> are \<open>g\<close> now.\<close>

definition same_disk :: "'a sfs_st_scheme \<Rightarrow> 'a sfs_st_scheme \<Rightarrow> bool" where
  "same_disk s s' \<longleftrightarrow> nblk s' = nblk s \<and> own s' = own s \<and> (\<forall>j<nblk s. \<forall>i<4096. dbyte s' j i = dbyte s j i)"

definition got :: "nat \<Rightarrow> nat \<Rightarrow> (nat \<Rightarrow> u8) \<Rightarrow> sfs_fs \<Rightarrow> 'a sfs_st_scheme \<Rightarrow> 'a sfs_st_scheme \<Rightarrow> bool" where
  "got buf n g f s s' \<longleftrightarrow> (\<exists>m. s' = s\<lparr>kmem := m\<rparr>) \<and> (\<forall>i<n. kmem s' (buf + i) = g i)
     \<and> (\<forall>a. a \<notin> own s \<longrightarrow> a \<notin> region (sfs_buffer f) 4096 \<longrightarrow> a \<notin> region buf n \<longrightarrow> kmem s' a = kmem s a)
     \<and> ready (sfs_dev f) s' \<and> same_disk s s'"

lemma gotD:
  assumes "got buf n g f s s'"
  shows "\<exists>m. s' = s\<lparr>kmem := m\<rparr>" "i < n \<Longrightarrow> kmem s' (buf + i) = g i"
    "a \<notin> own s \<Longrightarrow> a \<notin> region (sfs_buffer f) 4096 \<Longrightarrow> a \<notin> region buf n \<Longrightarrow> kmem s' a = kmem s a"
    "ready (sfs_dev f) s'" "same_disk s s'" "sfss s' = sfss s" "sins s' = sins s" "inodes s' = inodes s"
  using assms by (auto simp: got_def)

lemma calm_got: "calm f s s' \<Longrightarrow> got buf 0 g f s s'"
  by (auto simp: calm_def got_def same_disk_def)

lemma sfs_on_got: "sfs_on ready nblk own fp f s \<Longrightarrow> got buf n g f s s' \<Longrightarrow> sfs_on ready nblk own fp f s'"
  by (auto simp: sfs_on_def got_def same_disk_def)

text \<open>The caller's buffer is apart from the memory of the driver and from the block buffer.\<close>

definition clear_of :: "sfs_fs \<Rightarrow> 'a sfs_st_scheme \<Rightarrow> nat \<Rightarrow> nat \<Rightarrow> bool" where
  "clear_of f s buf n \<longleftrightarrow> region buf n \<inter> (own s \<union> region (sfs_buffer f) 4096) = {}"

lemma clear_of_sub: "clear_of f s buf n \<Longrightarrow> buf \<le> b \<Longrightarrow> b + k \<le> buf + n \<Longrightarrow> clear_of f s b k"
  unfolding clear_of_def using region_subset [of buf b k n] by blast

lemma clear_of_got: "got buf n g f s s' \<Longrightarrow> clear_of f s' b k = clear_of f s b k"
  by (simp add: clear_of_def got_def same_disk_def)

lemma got_trans:
  assumes a: "got buf n g f s s1" and b: "got (buf + n) k g' f s1 s2" and c: "clear_of f s buf (n + k)"
    and h: "\<And>i. i < n \<Longrightarrow> h i = g i" "\<And>i. i < k \<Longrightarrow> h (n + i) = g' i"
  shows "got buf (n + k) h f s s2"
  unfolding got_def
proof (intro conjI allI impI)
  show "\<exists>m. s2 = s\<lparr>kmem := m\<rparr>" using gotD(1) [OF a] gotD(1) [OF b] by auto
  show "ready (sfs_dev f) s2" by (rule gotD(4) [OF b])
  show "same_disk s s2" using gotD(5) [OF a] gotD(5) [OF b] by (auto simp: same_disk_def)
  have ow: "own s1 = own s" using gotD(5) [OF a] by (simp add: same_disk_def)
  show "kmem s2 (buf + i) = h i" if "i < n + k" for i
  proof (cases "i < n")
    case True
    have "buf + i \<in> region buf (n + k)" using that by simp
    then have "buf + i \<notin> own s1" "buf + i \<notin> region (sfs_buffer f) 4096" using c unfolding clear_of_def ow by blast+
    moreover have "buf + i \<notin> region (buf + n) k" using True by simp
    ultimately have "kmem s2 (buf + i) = kmem s1 (buf + i)" by (rule gotD(3) [OF b])
    then show ?thesis using gotD(2) [OF a True] h(1) [OF True] by simp
  next
    case False
    then have "i - n < k" "buf + i = buf + n + (i - n)" using that by simp_all
    then show ?thesis using gotD(2) [OF b, of "i - n"] h(2) [of "i - n"] False by simp
  qed
  show "kmem s2 x = kmem s x" if x: "x \<notin> own s" "x \<notin> region (sfs_buffer f) 4096" "x \<notin> region buf (n + k)" for x
  proof -
    have "x \<notin> region buf n" "x \<notin> region (buf + n) k" using x(3) by auto
    then show ?thesis using gotD(3) [OF a x(1,2)] gotD(3) [OF b, of x] x(1,2) unfolding ow by metis
  qed
qed

lemma same_disk_bytes: "same_disk s s' \<Longrightarrow> unat b < nblk s \<Longrightarrow> i < 4096 \<Longrightarrow> dbyte s' (unat b) i = dbyte s (unat b) i"
  by (simp add: same_disk_def)

lemma inuse_on_disk: "sfs_on ready nblk own fp f s \<Longrightarrow> blk_inuse f b \<Longrightarrow> unat b < nblk s"
  by (auto simp: sfs_on_def blk_inuse_def word_less_nat_alt)

lemma file_block_same:
  assumes on: "sfs_on ready nblk own fp f s" and sd: "same_disk s s'" and ok: "file_ok (dbyte s) f d" and j: "j < unat (din_blocks d)"
  shows "file_block (dbyte s') d j = file_block (dbyte s) d j"
proof (cases "j < SFS_NDIRECT")
  case False
  then have "blk_inuse f (din_indirect d)" "j < SFS_NDIRECT + SFS_BLK_NENTRY" using ok j by (auto simp: file_ok_def)
  then have "unat (din_indirect d) < nblk s" "4 * (j - SFS_NDIRECT) + 4 \<le> 4096"
    using inuse_on_disk [OF on] False by (auto simp: SFS_BLK_NENTRY_def SFS_BLKSIZE_def)
  then have "map (dbyte s' (unat (din_indirect d))) [4 * (j - SFS_NDIRECT)..<4 * (j - SFS_NDIRECT) + 4]
      = map (dbyte s (unat (din_indirect d))) [4 * (j - SFS_NDIRECT)..<4 * (j - SFS_NDIRECT) + 4]"
    by (intro map_cong refl same_disk_bytes [OF sd]) auto
  then show ?thesis by (simp only: file_block_def False if_False)
qed (simp add: file_block_def)

lemma file_ok_same:
  assumes "sfs_on ready nblk own fp f s" "same_disk s s'" "file_ok (dbyte s) f d"
  shows "file_ok (dbyte s') f d"
  using assms(3) file_block_same [OF assms] by (simp add: file_ok_def)

lemma file_byte_same:
  assumes "sfs_on ready nblk own fp f s" "same_disk s s'" "file_ok (dbyte s) f d" "pos < unat (din_blocks d) * 4096"
  shows "file_byte (dbyte s') d pos = file_byte (dbyte s) d pos"
proof -
  have j: "pos div SFS_BLKSIZE < unat (din_blocks d)" using assms(4) by (simp add: SFS_BLKSIZE_def less_mult_imp_div_less)
  have "unat (file_block (dbyte s) d (pos div SFS_BLKSIZE)) < nblk s" using assms(3) j inuse_on_disk [OF assms(1)] by (simp add: file_ok_def)
  from same_disk_bytes [OF assms(2) this, of "pos mod SFS_BLKSIZE"] show ?thesis
    unfolding file_byte_def file_block_same [OF assms(1-3) j] by (simp add: SFS_BLKSIZE_def)
qed

lemma io_part_read:
  assumes on: "sfs_on ready nblk own fp f s" "\<not> sfs_io_locked f" and i: "sins s np = Some i"
    and ok: "file_ok (dbyte s) f (sin_din i)" and j: "j < unat (din_blocks (sin_din i))"
    and len: "off < 4096" "off + len \<le> 4096" and c: "clear_of f s buf len"
  obtains s' where "sfs_io_part D False fp np buf len (of_nat j) off s = Some (0, s')"
    "got buf len (\<lambda>k. file_byte (dbyte s) (sin_din i) (j * 4096 + off + k)) f s s'"
proof -
  let ?b = "file_block (dbyte s) (sin_din i) j"
  have use: "blk_inuse f ?b" using ok j by (simp add: file_ok_def)
  obtain s1 where s1: "sfs_bmap_load_nolock D fp np (of_nat j) s = Some (0, ?b, s1)" "calm f s s1" by (rule bmap_load_spec [OF on i ok j])
  obtain s2 where s2: "sfs_rbytes D fp len ?b off s1 = Some (0, map (dbyte s1 (unat ?b)) [off..<off + len], s2)" "calm f s1 s2"
    by (rule sfs_rbytes_spec [OF sfs_on_calm [OF on(1) s1(2)] on(2) _ _ len, of ?b]) (use use in \<open>simp_all add: blk_inuse_def\<close>)
  have c2: "calm f s s2" by (rule calm_trans [OF s1(2) s2(2)])
  let ?bs = "map (dbyte s1 (unat ?b)) [off..<off + len]"
  let ?s' = "s2\<lparr>kmem := mem_put buf ?bs (kmem s2)\<rparr>"
  have outside: "mem_put buf ?bs (kmem s2) a = kmem s2 a" if "a \<notin> region buf len" for a using that by (intro mem_put_other) simp
  have "\<forall>a\<in>own s2. mem_put buf ?bs (kmem s2) a = kmem s2 a"
  proof
    fix a assume "a \<in> own s2"
    then have "a \<notin> region buf len" using c calmD(5) [OF c2] unfolding clear_of_def by blast
    then show "mem_put buf ?bs (kmem s2) a = kmem s2 a" by (rule outside)
  qed
  note pk = poke [OF this]
  have "got buf len (\<lambda>k. file_byte (dbyte s) (sin_din i) (j * 4096 + off + k)) f s ?s'"
    unfolding got_def
  proof (intro conjI allI impI)
    show "\<exists>m. ?s' = s\<lparr>kmem := m\<rparr>" using calmD(1) [OF c2] by auto
    show "ready (sfs_dev f) ?s'" using pk calmD(3) [OF c2] by blast
    show "same_disk s ?s'" using pk c2 by (auto simp: same_disk_def calm_def)
    show "kmem ?s' (buf + k) = file_byte (dbyte s) (sin_din i) (j * 4096 + off + k)" if "k < len" for k
    proof -
      have "(j * 4096 + off + k) div SFS_BLKSIZE = j" "(j * 4096 + off + k) mod SFS_BLKSIZE = off + k"
        using that len by (simp_all add: SFS_BLKSIZE_def div_mult_self3 add.assoc)
      then show ?thesis using that len calmD(6) [OF s1(2) inuse_on_disk [OF on(1) use], of "off + k"]
        by (simp add: mem_put_def file_byte_def)
    qed
    show "kmem ?s' a = kmem s a" if "a \<notin> own s" "a \<notin> region (sfs_buffer f) 4096" "a \<notin> region buf len" for a
      using outside [OF that(3)] calmD(2) [OF c2 that(1,2)] by simp
  qed
  moreover have "sfs_io_part D False fp np buf len (of_nat j) off s = Some (0, ?s')"
    using s1(1) s2(1) by (simp add: sfs_io_part_def sfs_buf_op_def sfs_rbuf_def)
  ultimately show thesis by (rule that [rotated])
qed

lemma rwblock_loop_read:
  assumes "sfs_on ready nblk own fp f s" "b \<noteq> 0" "unat b + n \<le> unat (sb_blocks (sfs_sup f))" "clear_of f s buf (n * 4096)"
  shows "\<exists>s'. sfs_rwblock_loop D fp buf b n False (upd_sfs fp io_lock s) = Some (0, upd_sfs fp io_lock s')
    \<and> got buf (n * 4096) (\<lambda>k. dbyte s (unat b + k div 4096) (k mod 4096)) f s s'"
  using assms
proof (induction n arbitrary: buf b s)
  case 0
  then have "got buf 0 (\<lambda>k. dbyte s (unat b + k div 4096) (k mod 4096)) f s s"
    by (intro calm_got calm_refl) (simp add: sfs_on_def)
  then show ?case by auto
next
  case (Suc n)
  note on = Suc.prems(1)
  have lim: "unat (sb_blocks (sfs_sup f)) \<le> nblk s" "unat (sb_blocks (sfs_sup f)) \<le> 2 ^ 20" using on by (simp_all add: sfs_on_def)
  have b: "b < sb_blocks (sfs_sup f)" using Suc.prems(3) by (simp add: word_less_nat_alt)
  have b1: "unat (b + 1) = unat b + 1" using lim(2) Suc.prems(3) unat_plus_of_nat [of b 1] by simp
  have cb: "region buf 4096 \<inter> own s = {}" using clear_of_sub [OF Suc.prems(4), of buf 4096] unfolding clear_of_def by auto
  obtain m where m: "sfs_rwblock_nolock D fp buf b False True (upd_sfs fp io_lock s) = Some (0, upd_sfs fp io_lock (s\<lparr>kmem := m\<rparr>))"
    "\<And>i. i < 4096 \<Longrightarrow> m (buf + i) = dbyte s (unat b) i" "\<And>a. a \<notin> own s \<Longrightarrow> a \<notin> region buf 4096 \<Longrightarrow> m a = kmem s a"
    "ready (sfs_dev f) (s\<lparr>kmem := m\<rparr>)" "nblk (s\<lparr>kmem := m\<rparr>) = nblk s" "own (s\<lparr>kmem := m\<rparr>) = own s"
    "\<And>j i. j < nblk s \<Longrightarrow> i < 4096 \<Longrightarrow> dbyte (s\<lparr>kmem := m\<rparr>) j i = dbyte s j i"
    using rwblock_read [OF on Suc.prems(2) b cb] by metis
  let ?s1 = "s\<lparr>kmem := m\<rparr>"
  have g1: "got buf 4096 (dbyte s (unat b)) f s ?s1" unfolding got_def same_disk_def using m by (auto simp del: in_region)
  have c1: "clear_of f ?s1 (buf + 4096) (n * 4096)"
    unfolding clear_of_got [OF g1] by (rule clear_of_sub [OF Suc.prems(4)]) simp_all
  have n1: "b + 1 \<noteq> 0" "unat (b + 1) + n \<le> unat (sb_blocks (sfs_sup f))" using b1 Suc.prems(3) by auto
  obtain s' where s': "sfs_rwblock_loop D fp (buf + 4096) (b + 1) n False (upd_sfs fp io_lock ?s1) = Some (0, upd_sfs fp io_lock s')"
    "got (buf + 4096) (n * 4096) (\<lambda>k. dbyte ?s1 (unat (b + 1) + k div 4096) (k mod 4096)) f ?s1 s'"
    using Suc.IH [OF sfs_on_got [OF on g1] n1 c1] by blast
  have "got buf (4096 + n * 4096) (\<lambda>k. dbyte s (unat b + k div 4096) (k mod 4096)) f s s'"
  proof (rule got_trans [OF g1 s'(2)])
    fix k assume k: "k < n * 4096"
    have "k div 4096 < n" using k by (simp add: less_mult_imp_div_less)
    then have "unat b + 1 + k div 4096 < nblk s" using Suc.prems(3) lim(1) by simp
    then show "dbyte s (unat b + (4096 + k) div 4096) ((4096 + k) mod 4096) = dbyte ?s1 (unat (b + 1) + k div 4096) (k mod 4096)"
      using m(7) [of "unat b + 1 + k div 4096" "k mod 4096"] div_add_self1 [of 4096 k] by (simp add: b1)
  qed (use Suc.prems(4) in simp_all)
  then show ?case using m(1) s'(1) by (auto simp: SFS_BLKSIZE_def)
qed

lemma sfs_rblock_spec:
  assumes on: "sfs_on ready nblk own fp f s" "\<not> sfs_io_locked f" and b: "b \<noteq> 0" "unat b + unat n \<le> unat (sb_blocks (sfs_sup f))"
    and c: "clear_of f s buf (unat n * 4096)"
  obtains s' where "sfs_rblock D fp buf b n s = Some (0, s')"
    "got buf (unat n * 4096) (\<lambda>k. dbyte s (unat b + k div 4096) (k mod 4096)) f s s'"
proof -
  have f: "sfss s fp = Some f" using on(1) by (simp add: sfs_on_def)
  obtain s' where s': "sfs_rwblock_loop D fp buf b (unat n) False (upd_sfs fp io_lock s) = Some (0, upd_sfs fp io_lock s')"
    "got buf (unat n * 4096) (\<lambda>k. dbyte s (unat b + k div 4096) (k mod 4096)) f s s'"
    using rwblock_loop_read [OF on(1) b c] by blast
  have "sfss s' fp = Some f" using gotD(6) [OF s'(2)] f by simp
  then have "sfs_rblock D fp buf b n s = Some (0, s')"
    using s'(1) f on(2) upd_sfs_unlock [of s' fp f] by (simp add: sfs_rblock_def sfs_rwblock_def lock_sfs_io_def)
  then show thesis using s'(2) by (rule that)
qed

lemma io_last_read:
  assumes on: "sfs_on ready nblk own fp f s" "\<not> sfs_io_locked f" and i: "sins s np = Some i"
    and ok: "file_ok (dbyte s) f (sin_din i)" and e: "endpos \<le> unat (din_blocks (sin_din i)) * 4096"
    and c: "clear_of f s buf (endpos mod 4096)"
  obtains s' where "sfs_io_last D False fp np buf endpos (of_nat (endpos div 4096)) alen s = Some (0, alen + endpos mod 4096, s')"
    "got buf (endpos mod 4096) (\<lambda>k. file_byte (dbyte s) (sin_din i) (endpos div 4096 * 4096 + k)) f s s'"
proof (cases "endpos mod 4096 = 0")
  case True
  then have "got buf (endpos mod 4096) (\<lambda>k. file_byte (dbyte s) (sin_din i) (endpos div 4096 * 4096 + k)) f s s"
    using on(1) by (auto simp: sfs_on_def intro!: calm_got calm_refl)
  then show thesis using True by (intro that [of s]) (simp_all add: sfs_io_last_def SFS_BLKSIZE_def)
next
  case False
  then have "endpos < unat (din_blocks (sin_din i)) * 4096" using e by (metis le_neq_implies_less mod_mult_self2_is_0)
  then have j: "endpos div 4096 < unat (din_blocks (sin_din i))" by (simp add: less_mult_imp_div_less)
  obtain s' where s': "sfs_io_part D False fp np buf (endpos mod 4096) (of_nat (endpos div 4096)) 0 s = Some (0, s')"
    "got buf (endpos mod 4096) (\<lambda>k. file_byte (dbyte s) (sin_din i) (endpos div 4096 * 4096 + 0 + k)) f s s'"
    by (rule io_part_read [OF on i ok j _ _ c, of 0]) simp_all
  show thesis
  proof (rule that)
    show "sfs_io_last D False fp np buf endpos (of_nat (endpos div 4096)) alen s = Some (0, alen + endpos mod 4096, s')"
      using False s'(1) by (simp add: sfs_io_last_def SFS_BLKSIZE_def)
  qed (use s'(2) in simp)
qed

text \<open>The blocks of the file from \<open>j\<close> on, before \<open>e\<close>, lie on the disk one after the other.\<close>

lemma io_blocks_read:
  assumes on: "sfs_on ready nblk own fp f s" "\<not> sfs_io_locked f" and i: "sins s np = Some i"
    and ok: "file_ok (dbyte s) f (sin_din i)" and e: "endpos \<le> unat (din_blocks (sin_din i)) * 4096" "j * 4096 \<le> endpos"
    and seq: "\<And>t. j + t < endpos div 4096 \<Longrightarrow> file_block (dbyte s) (sin_din i) (j + t) = file_block (dbyte s) (sin_din i) j + of_nat t"
    and c: "clear_of f s buf (endpos - j * 4096)"
  obtains s' where "sfs_io_blocks D False fp np buf endpos (of_nat j) (of_nat (endpos div 4096 - j)) alen s = Some (0, alen + (endpos - j * 4096), s')"
    "got buf (endpos - j * 4096) (\<lambda>k. file_byte (dbyte s) (sin_din i) (j * 4096 + k)) f s s'"
proof -
  let ?d = "sin_din i" and ?n = "endpos div 4096 - j"
  have B: "unat (din_blocks ?d) \<le> 1036" using ok by (simp add: file_ok_def SFS_NDIRECT_def SFS_BLK_NENTRY_def SFS_BLKSIZE_def)
  have je: "j \<le> endpos div 4096" using e(2) by (simp add: less_eq_div_iff_mult_less_eq)
  have eB: "endpos div 4096 \<le> unat (din_blocks ?d)" using div_le_mono [OF e(1), of 4096] by simp
  have n: "unat (of_nat ?n :: u32) = ?n" using B eB by (simp add: unat_of_nat take_bit_nat_eq_self)
  have split: "endpos - j * 4096 = ?n * 4096 + endpos mod 4096"
    using je by (simp add: diff_mult_distrib minus_div_mult_eq_mod [symmetric])
  show thesis
  proof (cases "?n = 0")
    case True
    then have j: "j = endpos div 4096" using je by simp
    obtain s' where "sfs_io_last D False fp np buf endpos (of_nat (endpos div 4096)) alen s = Some (0, alen + endpos mod 4096, s')"
      "got buf (endpos mod 4096) (\<lambda>k. file_byte (dbyte s) ?d (endpos div 4096 * 4096 + k)) f s s'"
      by (rule io_last_read [OF on i ok e(1)]) (use c split True in simp_all)
    then show thesis using True split by (intro that [of s']) (simp_all add: sfs_io_blocks_def j)
  next
    case False
    let ?b = "file_block (dbyte s) ?d j"
    have jB: "j < unat (din_blocks ?d)" using False eB by simp
    have use: "blk_inuse f (file_block (dbyte s) ?d t)" if "t < unat (din_blocks ?d)" for t using ok that by (simp add: file_ok_def)
    have lim: "unat (sb_blocks (sfs_sup f)) \<le> 2 ^ 20" using on(1) by (simp add: sfs_on_def)
    have inb: "unat ?b < unat (sb_blocks (sfs_sup f))" "?b \<noteq> 0" using use [OF jB] by (simp_all add: blk_inuse_def word_less_nat_alt)
    have nb: "unat (file_block (dbyte s) ?d (j + t)) = unat ?b + t" if "j + t < endpos div 4096" for t
      unfolding seq [OF that] by (rule unat_plus_of_nat) (use inb lim that eB B in simp)
    have "unat ?b + (?n - 1) < unat (sb_blocks (sfs_sup f))"
      using nb [of "?n - 1"] use [of "j + (?n - 1)"] False eB by (simp add: blk_inuse_def word_less_nat_alt)
    then have fit: "unat ?b + unat (of_nat ?n :: u32) \<le> unat (sb_blocks (sfs_sup f))" using False n by simp
    obtain s1 where s1: "sfs_bmap_load_nolock D fp np (of_nat j) s = Some (0, ?b, s1)" "calm f s s1" by (rule bmap_load_spec [OF on i ok jB])
    have on1: "sfs_on ready nblk own fp f s1" by (rule sfs_on_calm [OF on(1) s1(2)])
    have c1: "clear_of f s1 buf (unat (of_nat ?n :: u32) * 4096)"
      unfolding n clear_of_got [OF calm_got [OF s1(2), of 0 undefined]] by (rule clear_of_sub [OF c]) (simp_all add: split)
    obtain s2 where s2: "sfs_rblock D fp buf ?b (of_nat ?n) s1 = Some (0, s2)"
      "got buf (unat (of_nat ?n :: u32) * 4096) (\<lambda>k. dbyte s1 (unat ?b + k div 4096) (k mod 4096)) f s1 s2"
      by (rule sfs_rblock_spec [OF on1 on(2) inb(2) fit c1])
    have "got buf (0 + ?n * 4096) (\<lambda>k. file_byte (dbyte s) ?d (j * 4096 + k)) f s s2"
    proof (rule got_trans [OF calm_got [OF s1(2), of buf undefined]])
      show "got (buf + 0) (?n * 4096) (\<lambda>k. dbyte s1 (unat ?b + k div 4096) (k mod 4096)) f s1 s2" using s2(2) by (simp add: n)
      show "clear_of f s buf (0 + ?n * 4096)" by (rule clear_of_sub [OF c]) (simp_all add: split)
      fix k assume k: "k < ?n * 4096"
      have t: "k div 4096 < ?n" using k by (simp add: less_mult_imp_div_less)
      then have jt: "j + k div 4096 < endpos div 4096" by simp
      have p: "(j * 4096 + k) div SFS_BLKSIZE = j + k div 4096" "(j * 4096 + k) mod SFS_BLKSIZE = k mod 4096" by (simp_all add: SFS_BLKSIZE_def)
      have "unat (file_block (dbyte s) ?d (j + k div 4096)) < nblk s" by (rule inuse_on_disk [OF on(1) use]) (use jt eB in simp)
      then have "dbyte s1 (unat ?b + k div 4096) (k mod 4096) = dbyte s (unat ?b + k div 4096) (k mod 4096)"
        unfolding nb [OF jt] by (intro calmD(6) [OF s1(2)]) simp_all
      then show "file_byte (dbyte s) ?d (j * 4096 + (0 + k)) = dbyte s1 (unat ?b + k div 4096) (k mod 4096)"
        using nb [OF jt] by (simp add: file_byte_def p)
    qed simp
    then have g: "got buf (?n * 4096) (\<lambda>k. file_byte (dbyte s) ?d (j * 4096 + k)) f s s2" by simp
    have on2: "sfs_on ready nblk own fp f s2" "sins s2 np = Some i" "file_ok (dbyte s2) f ?d"
      using sfs_on_got [OF on(1) g] gotD(7) [OF g] i file_ok_same [OF on(1) gotD(5) [OF g] ok] by auto
    have c2: "clear_of f s2 (buf + ?n * 4096) (endpos mod 4096)"
      unfolding clear_of_got [OF g] by (rule clear_of_sub [OF c]) (simp_all add: split)
    obtain s' where s': "sfs_io_last D False fp np (buf + ?n * 4096) endpos (of_nat (endpos div 4096)) (alen + ?n * 4096) s2
        = Some (0, alen + ?n * 4096 + endpos mod 4096, s')"
      "got (buf + ?n * 4096) (endpos mod 4096) (\<lambda>k. file_byte (dbyte s2) ?d (endpos div 4096 * 4096 + k)) f s2 s'"
      by (rule io_last_read [OF on2(1) on(2) on2(2,3) e(1) c2])
    have "of_nat j + of_nat ?n = (of_nat (endpos div 4096) :: u32)" using je by (simp flip: of_nat_add)
    then have "sfs_io_blocks D False fp np buf endpos (of_nat j) (of_nat ?n) alen s = Some (0, alen + (endpos - j * 4096), s')"
      using s1(1) s2(1) s'(1) n False split
      by (simp add: sfs_io_blocks_def sfs_block_op_def SFS_BLKSIZE_def Let_def word_gt_0 unat_eq_0 [symmetric])
    moreover have "got buf (?n * 4096 + endpos mod 4096) (\<lambda>k. file_byte (dbyte s) ?d (j * 4096 + k)) f s s'"
    proof (rule got_trans [OF g s'(2)])
      show "clear_of f s buf (?n * 4096 + endpos mod 4096)" using c split by simp
      fix k assume k: "k < endpos mod 4096"
      have pos: "j * 4096 + (?n * 4096 + k) = endpos div 4096 * 4096 + k" using je by (simp add: diff_mult_distrib)
      have "endpos div 4096 * 4096 + k < unat (din_blocks ?d) * 4096" using k e(1) div_mult_mod_eq [of endpos 4096] by linarith
      from file_byte_same [OF on(1) gotD(5) [OF g] ok this]
      show "file_byte (dbyte s) ?d (j * 4096 + (?n * 4096 + k)) = file_byte (dbyte s2) ?d (endpos div 4096 * 4096 + k)" by (simp only: pos)
    qed simp
    ultimately show thesis using split by (intro that) simp_all
  qed
qed

text \<open>The whole transfer: only the blocks that are read as one run have to be consecutive.\<close>

lemma io_steps_read:
  assumes on: "sfs_on ready nblk own fp f s" "\<not> sfs_io_locked f" and i: "sins s np = Some i"
    and ok: "file_ok (dbyte s) f (sin_din i)" and e: "endpos \<le> unat (din_blocks (sin_din i)) * 4096" "offset < endpos"
    and seq: "\<And>t. (offset + 4095) div 4096 + t < endpos div 4096 \<Longrightarrow>
        file_block (dbyte s) (sin_din i) ((offset + 4095) div 4096 + t) = file_block (dbyte s) (sin_din i) ((offset + 4095) div 4096) + of_nat t"
    and c: "clear_of f s buf (endpos - offset)"
  obtains s' where "sfs_io_steps D False fp np buf offset endpos s = Some (0, endpos - offset, s')"
    "got buf (endpos - offset) (\<lambda>k. file_byte (dbyte s) (sin_din i) (offset + k)) f s s'"
proof -
  let ?d = "sin_din i" and ?j = "offset div 4096" and ?o = "offset mod 4096" and ?e = "endpos div 4096"
  have B: "unat (din_blocks ?d) \<le> 1036" using ok by (simp add: file_ok_def SFS_NDIRECT_def SFS_BLK_NENTRY_def SFS_BLKSIZE_def)
  have je: "?j \<le> ?e" using e(2) by (simp add: div_le_mono)
  have jB: "?j < unat (din_blocks ?d)" using e by (intro less_mult_imp_div_less) simp
  have eB: "?e \<le> unat (din_blocks ?d)" using div_le_mono [OF e(1), of 4096] by simp
  have nb: "of_nat ?e - of_nat ?j = (of_nat (?e - ?j) :: u32)" using je by simp
  have "unat (of_nat (?e - ?j) :: u32) = ?e - ?j" using eB B by (simp only: unat_of_nat) (simp add: take_bit_nat_eq_self)
  then have nz: "(of_nat (?e - ?j) :: u32) = 0 \<longleftrightarrow> ?e = ?j" using je unat_eq_0 [of "of_nat (?e - ?j) :: u32"] by linarith
  have off: "offset = ?j * 4096 + ?o" by simp
  show thesis
  proof (cases "?o = 0")
    case True
    then have first: "(offset + 4095) div 4096 = ?j" "?j * 4096 = offset" by auto
    obtain s' where "sfs_io_blocks D False fp np buf endpos (of_nat ?j) (of_nat (?e - ?j)) 0 s = Some (0, 0 + (endpos - ?j * 4096), s')"
      "got buf (endpos - ?j * 4096) (\<lambda>k. file_byte (dbyte s) ?d (?j * 4096 + k)) f s s'"
      by (rule io_blocks_read [OF on i ok e(1), of ?j buf 0]) (use first e c seq in simp_all)
    then show thesis using True first(2) by (intro that [of s']) (simp_all add: sfs_io_steps_def SFS_BLKSIZE_def nb Let_def)
  next
    case False
    let ?len = "if ?e = ?j then endpos - offset else 4096 - ?o"
    note fit = first_part_fits [OF e(2)]
    have c0: "clear_of f s buf ?len" by (rule clear_of_sub [OF c]) (use fit in auto)
    obtain s1 where s1: "sfs_io_part D False fp np buf ?len (of_nat ?j) ?o s = Some (0, s1)"
      "got buf ?len (\<lambda>k. file_byte (dbyte s) ?d (?j * 4096 + ?o + k)) f s s1"
      by (rule io_part_read [OF on i ok jB _ fit(1) c0]) simp_all
    note g1 = s1(2) [folded off]
    show thesis
    proof (cases "?e = ?j")
      case True
      then show thesis using that [of s1] s1(1) g1 False nz by (simp add: sfs_io_steps_def SFS_BLKSIZE_def nb Let_def)
    next
      case ne: False
      have len: "?len = 4096 - ?o" using ne by simp
      have pos: "offset + ?len = (?j + 1) * 4096" "(offset + 4095) div 4096 = ?j + 1" "(?j + 1) * 4096 \<le> endpos"
        using next_block [OF False] next_block_le [OF e(2) ne] unfolding len by auto
      have on1: "sfs_on ready nblk own fp f s1" "sins s1 np = Some i" "file_ok (dbyte s1) f ?d"
        using sfs_on_got [OF on(1) g1] gotD(7) [OF g1] i file_ok_same [OF on(1) gotD(5) [OF g1] ok] by auto
      have seq1: "file_block (dbyte s1) ?d (?j + 1 + t) = file_block (dbyte s1) ?d (?j + 1) + of_nat t" if "?j + 1 + t < ?e" for t
        using seq [of t] that eB file_block_same [OF on(1) gotD(5) [OF g1] ok] by (simp add: pos(2))
      have c1: "clear_of f s1 (buf + ?len) (endpos - (?j + 1) * 4096)"
        unfolding clear_of_got [OF g1] by (rule clear_of_sub [OF c]) (use pos(1,3) in linarith)+
      obtain s' where s': "sfs_io_blocks D False fp np (buf + ?len) endpos (of_nat (?j + 1)) (of_nat (?e - (?j + 1))) ?len s1
          = Some (0, ?len + (endpos - (?j + 1) * 4096), s')"
        "got (buf + ?len) (endpos - (?j + 1) * 4096) (\<lambda>k. file_byte (dbyte s1) ?d ((?j + 1) * 4096 + k)) f s1 s'"
        by (rule io_blocks_read [OF on1(1) on(2) on1(2,3) e(1) pos(3) seq1 c1])
      have tot: "?len + (endpos - (?j + 1) * 4096) = endpos - offset" using pos(1,3) by linarith
      have "(of_nat (?e - ?j) :: u32) - 1 = of_nat (?e - (?j + 1))" using je ne by (simp add: of_nat_diff)
      then have "sfs_io_steps D False fp np buf offset endpos s = Some (0, endpos - offset, s')"
        using s1(1) s'(1) False ne tot unfolding sfs_io_steps_def SFS_BLKSIZE_def Let_def nb nz
        by (simp add: add.commute del: of_nat_diff)
      moreover have "got buf (?len + (endpos - (?j + 1) * 4096)) (\<lambda>k. file_byte (dbyte s) ?d (offset + k)) f s s'"
      proof (rule got_trans [OF g1 s'(2)])
        show "clear_of f s buf (?len + (endpos - (?j + 1) * 4096))" using c tot by simp
        fix k assume k: "k < endpos - (?j + 1) * 4096"
        have "(?j + 1) * 4096 + k < unat (din_blocks ?d) * 4096" using k e(1) by linarith
        from file_byte_same [OF on(1) gotD(5) [OF g1] ok this]
        show "file_byte (dbyte s) ?d (offset + (?len + k)) = file_byte (dbyte s1) ?d ((?j + 1) * 4096 + k)"
          unfolding add.assoc [symmetric] pos(1) by simp
      qed simp
      ultimately show thesis using tot by (intro that) simp_all
    qed
  qed
qed

lemma got_upd_sin: "got buf n g f (upd_sin np h s) s' \<Longrightarrow> \<exists>m. s' = upd_sin np h (s\<lparr>kmem := m\<rparr>) \<and> got buf n g f s (s\<lparr>kmem := m\<rparr>)"
proof -
  assume g: "got buf n g f (upd_sin np h s) s'"
  obtain m where m: "s' = (upd_sin np h s)\<lparr>kmem := m\<rparr>" using gotD(1) [OF g] by blast
  then have e: "s' = upd_sin np h (s\<lparr>kmem := m\<rparr>)" by (simp add: upd_sin_def)
  have k: "kmem (upd_sin np h t) = kmem t" for t :: "'a sfs_st_scheme" by (simp add: upd_sin_def)
  have "got buf n g f s (s\<lparr>kmem := m\<rparr>)"
    using g unfolding got_def same_disk_def e frame_upd_sin k by blast
  then show ?thesis using e by blast
qed

text \<open>\<open>sfs_read\<close> returns the bytes of the file from the offset on, as many as were asked for and as there are.\<close>

lemma sfs_read_spec:
  assumes on: "sfs_on ready nblk own fp f s" "\<not> sfs_io_locked f"
    and node: "inodes s np = Some n" "in_type n = inode_type_sfs_inode_info" "in_fs n = Some fp"
    and i: "sins s np = Some i" "\<not> sin_locked i" "din_type (sin_din i) \<noteq> SFS_TYPE_DIR"
    and ok: "file_ok (dbyte s) f (sin_din i)" and sz: "unat (din_size (sin_din i)) \<le> unat (din_blocks (sin_din i)) * 4096"
    and o: "o1 = unat (io_offset iob)" "o1 < 2 ^ 27" "o1 + unat (io_resid iob) < 2 ^ 63"
    and len: "len = min (unat (io_resid iob)) (unat (din_size (sin_din i)) - o1)"
    and seq: "\<And>t. (o1 + 4095) div 4096 + t < (o1 + len) div 4096 \<Longrightarrow>
        file_block (dbyte s) (sin_din i) ((o1 + 4095) div 4096 + t) = file_block (dbyte s) (sin_din i) ((o1 + 4095) div 4096) + of_nat t"
    and c: "clear_of f s (io_base iob) len"
  obtains s' where "sfs_read D np iob s = Some (0, advance iob (of_nat len), s')"
    "got (io_base iob) len (\<lambda>k. file_byte (dbyte s) (sin_din i) (o1 + k)) f s s'"
proof -
  let ?d = "sin_din i" and ?off = "io_offset iob" and ?r = "io_resid iob" and ?lk = "\<lambda>i. i\<lparr>sin_locked := True\<rparr>"
  let ?s1 = "upd_sin np ?lk s"
  have B: "unat (din_blocks ?d) \<le> 1036" using ok by (simp add: file_ok_def SFS_NDIRECT_def SFS_BLK_NENTRY_def SFS_BLKSIZE_def)
  have un: "unat (?off + ?r) = o1 + unat ?r" using o by (simp add: unat_plus_if_size word_size)
  have si: "sint ?off = int o1" "sint (?off + ?r) = int (o1 + unat ?r)"
    using sint_small [of ?off] sint_small [of "?off + ?r"] o un by simp_all
  have mx: "unat SFS_MAX_FILE_SIZE = 2 ^ 27" by (simp add: SFS_MAX_FILE_SIZE_def)
  have pass: "\<not> (sint ?off < 0 \<or> ?off \<ge> SFS_MAX_FILE_SIZE \<or> sint ?off > sint (?off + ?r))"
    using si o mx by (simp add: word_le_nat_alt)
  have s1: "sfs_of np s = Some fp" "lock_sin np s = Some ?s1" "sins ?s1 np = Some (?lk i)"
    using node i by (simp_all add: sfs_of_def lock_sin_def kassert_def upd_sin_def)
  have unl: "unlock_sin np (upd_sin np ?lk t) = t" if "sins t np = Some i" for t :: "'a sfs_st_scheme"
  proof -
    have "i\<lparr>sin_locked := False\<rparr> = i" using i(2) by (cases i) simp
    then show ?thesis using that by (cases t) (simp add: unlock_sin_def upd_sin_def fun_upd_idem_iff)
  qed
  show thesis
  proof (cases "len = 0")
    case True
    have "sfs_io_nolock D fp np (io_base iob) ?off ?r False ?s1 = Some (0, 0, ?s1)"
    proof (cases "?r = 0")
      case False
      then have "o1 \<ge> unat (din_size ?d)" using True len by (simp add: min_def unat_eq_0 split: if_split_asm)
      then show ?thesis using pass s1(3) i(3) o(1) by (simp add: sfs_io_nolock_def kassert_def Let_def del: not_less)
    qed (use pass s1(3) i(3) in \<open>simp add: sfs_io_nolock_def kassert_def Let_def\<close>)
    then have "sfs_read D np iob s = Some (0, iob, s)" using s1 unl [OF i(1)] by (simp add: sfs_read_def sfs_io_def)
    moreover have "got (io_base iob) len (\<lambda>k. file_byte (dbyte s) ?d (o1 + k)) f s s"
      using on(1) True by (auto simp: sfs_on_def intro!: calm_got calm_refl)
    ultimately show thesis using True by (intro that [of s]) simp_all
  next
    case False
    let ?e = "o1 + len"
    have eq: "min (min (unat SFS_MAX_FILE_SIZE) (unat (?off + ?r))) (unat (din_size ?d)) = ?e" "o1 < unat (din_size ?d)" "?r \<noteq> 0"
      using False len sz B o un mx by auto
    have on1: "sfs_on ready nblk own fp f ?s1" using on(1) by (simp add: sfs_on_def) (simp add: upd_sin_def)
    have e1: "?e \<le> unat (din_blocks (sin_din (?lk i))) * 4096" using len sz eq(2) by simp
    obtain s2 where s2: "sfs_io_steps D False fp np (io_base iob) o1 ?e ?s1 = Some (0, ?e - o1, s2)"
      "got (io_base iob) (?e - o1) (\<lambda>k. file_byte (dbyte ?s1) (sin_din (?lk i)) (o1 + k)) f ?s1 s2"
      by (rule io_steps_read [OF on1 on(2) s1(3) _ e1, of o1 "io_base iob"]) (use ok False seq c in \<open>simp_all add: clear_of_def\<close>)
    obtain m where m: "s2 = upd_sin np ?lk (s\<lparr>kmem := m\<rparr>)" "got (io_base iob) len (\<lambda>k. file_byte (dbyte s) ?d (o1 + k)) f s (s\<lparr>kmem := m\<rparr>)"
      using got_upd_sin [OF s2(2)] by auto
    have s2i: "sins s2 np = Some (?lk i)" using m(1) i(1) by (simp add: upd_sin_def)
    have lenw: "unat (of_nat len :: u64) = len" "of_nat len \<noteq> (0 :: u64)" "of_nat len \<le> ?r"
    proof -
      have "len < 2 ^ 64" using len sz B by simp
      then show "unat (of_nat len :: u64) = len" by (simp only: unat_of_nat) (simp add: take_bit_nat_eq_self)
      then show "of_nat len \<noteq> (0 :: u64)" "of_nat len \<le> ?r" using False len by (auto simp: word_le_nat_alt)
    qed
    have ends: "(if unat (if ?off + ?r > SFS_MAX_FILE_SIZE then SFS_MAX_FILE_SIZE else ?off + ?r) > unat (din_size ?d)
        then unat (din_size ?d) else unat (if ?off + ?r > SFS_MAX_FILE_SIZE then SFS_MAX_FILE_SIZE else ?off + ?r)) = ?e"
      using eq(1) by (simp add: word_less_nat_alt min_def split: if_split_asm)
    have no: "?off \<noteq> ?off + ?r" "\<not> unat ?off \<ge> unat (din_size ?d)" "\<not> unat ?off + (?e - o1) > unat (din_size ?d)"
      using eq(2,3) o(1) len by simp_all
    have "sfs_io_nolock D fp np (io_base iob) ?off ?r False ?s1 = Some (0, of_nat len, s2)"
      using pass no i(3) s2(1) s2i ends s1(3)
      by (simp add: sfs_io_nolock_def Let_def kassert_def o(1) [symmetric] cong del: if_weak_cong split del: if_split)
    then have "sfs_read D np iob s = Some (0, advance iob (of_nat len), s\<lparr>kmem := m\<rparr>)"
      using s1 lenw unl [of "s\<lparr>kmem := m\<rparr>"] i(1) m(1) by (simp add: sfs_read_def sfs_io_def iobuf_skip_def advance_def kassert_def)
    then show thesis using m(2) by (rule that)
  qed
qed

end

end
