(* ===== verification/SfsFile.thy ===== *)
theory SfsFile
  imports SfsInv
begin

text \<open>
  What the calls of the simple file system do to a file on the root disk: \<open>sfs_read\<close> delivers its bytes, and \<open>sfs_fsync\<close> puts
  the inode where the next \<open>sfs_load_inode\<close> finds it.  The locale \<open>block_device\<close> carries the arguments, the theorems at the end
  are its interpretation \<open>disk0\<close>, and the example is a file of four blocks on a disk of eight.
\<close>

context block_device
begin

lemma sfs_on_upd_sin: "sfs_on ready nblk own fp f (upd_sin np g s) = sfs_on ready nblk own fp f s"
  by (simp add: sfs_on_def) (simp add: upd_sin_def)

lemma sfs_on_wrote: "sfs_on ready nblk own fp f s \<Longrightarrow> wrote b g f s s' \<Longrightarrow> sfs_on ready nblk own fp f s'"
  by (auto simp: sfs_on_def wrote_def)

lemma sfs_fsync_spec:
  assumes on: "sfs_on ready nblk own fp f s" "\<not> sfs_io_locked f" and np: "sfs_of np s = Some fp"
    and i: "sins s np = Some i" "\<not> sin_locked i" "sin_dirty i" "length (din_direct (sin_din i)) = SFS_NDIRECT"
    and b: "sin_ino i \<noteq> 0" "sin_ino i < sb_blocks (sfs_sup f)"
  obtains m where "sfs_fsync D np s = Some (0, set_dirty np False (s\<lparr>kmem := m\<rparr>))"
    "wrote (sin_ino i) (\<lambda>k. if k < sizeof_din then din_bytes (sin_din i) ! k else dbyte s (unat (sin_ino i)) k) f s (s\<lparr>kmem := m\<rparr>)"
proof -
  let ?g = "\<lambda>i. i\<lparr>sin_locked := True, sin_dirty := False\<rparr>" and ?bs = "din_bytes (sin_din i)"
  let ?s1 = "upd_sin np ?g s"
  have len: "length ?bs = sizeof_din" "sizeof_din \<le> 4096" using length_din_bytes [OF i(4)] by (simp_all add: sizeof_din_def SFS_NDIRECT_def)
  have on1: "sfs_on ready nblk own fp f ?s1" using on(1) by (simp add: sfs_on_upd_sin)
  obtain s2 where s2: "sfs_wbytes D fp ?bs (sin_ino i) 0 ?s1 = Some (0, s2)"
    "wrote (sin_ino i) (\<lambda>k. if 0 \<le> k \<and> k < 0 + length ?bs then ?bs ! (k - 0) else dbyte ?s1 (unat (sin_ino i)) k) f ?s1 s2"
    by (rule sfs_wbytes_spec [OF on1 on(2) b, of 0 ?bs]) (use len in simp_all)
  obtain m where "s2 = ?s1\<lparr>kmem := m\<rparr>" using s2(2) by (auto simp: wrote_def)
  then have m: "s2 = upd_sin np ?g (s\<lparr>kmem := m\<rparr>)" by (simp add: upd_sin_def)
  have k: "kmem (upd_sin np ?g t) = kmem t" for t :: "'a sfs_st_scheme" by (simp add: upd_sin_def)
  have lk: "lock_sin np s = Some (upd_sin np (\<lambda>i. i\<lparr>sin_locked := True\<rparr>) s)" using i by (simp add: lock_sin_def)
  have s1: "set_dirty np False (upd_sin np (\<lambda>i. i\<lparr>sin_locked := True\<rparr>) s) = ?s1"
    by (simp add: set_dirty_def upd_sin_def map_option.compositionality comp_def)
  have "i\<lparr>sin_dirty := False, sin_locked := False\<rparr> = i\<lparr>sin_dirty := False\<rparr>" using i(2) by (cases i) simp
  then have un: "unlock_sin np s2 = set_dirty np False (s\<lparr>kmem := m\<rparr>)"
    using i(1) by (simp add: m unlock_sin_def set_dirty_def upd_sin_def)
  have "sfs_fsync D np s = Some (0, set_dirty np False (s\<lparr>kmem := m\<rparr>))"
    using np i(1,3) s2(1) by (simp add: sfs_fsync_def lk s1 un)
  moreover have "wrote (sin_ino i) (\<lambda>k. if k < sizeof_din then ?bs ! k else dbyte s (unat (sin_ino i)) k) f s (s\<lparr>kmem := m\<rparr>)"
    using s2(2) len(1) unfolding wrote_def m frame_upd_sin k by auto
  ultimately show thesis by (rule that)
qed

lemma sfs_fsync_reload:
  assumes on: "sfs_on ready nblk own fp f s" "\<not> sfs_io_locked f" and np: "sfs_of np s = Some fp"
    and i: "sins s np = Some i" "\<not> sin_locked i" "sin_dirty i" "length (din_direct (sin_din i)) = SFS_NDIRECT"
    and b: "sin_ino i \<noteq> 0" "sin_ino i < sb_blocks (sfs_sup f)"
  shows "\<exists>m bs s2. sfs_fsync D np s = Some (0, set_dirty np False (s\<lparr>kmem := m\<rparr>))
    \<and> sfs_rbytes D fp sizeof_din (sin_ino i) 0 (set_dirty np False (s\<lparr>kmem := m\<rparr>)) = Some (0, bs, s2) \<and> bytes_din bs = sin_din i
    \<and> (\<forall>j<nblk s. \<forall>k<4096. j \<noteq> unat (sin_ino i) \<or> sizeof_din \<le> k \<longrightarrow> dbyte (s\<lparr>kmem := m\<rparr>) j k = dbyte s j k)
    \<and> (\<forall>a. a \<notin> own s \<longrightarrow> a \<notin> region (sfs_buffer f) 4096 \<longrightarrow> m a = kmem s a)"
proof -
  let ?b = "unat (sin_ino i)" and ?bs = "din_bytes (sin_din i)"
  obtain m where m: "sfs_fsync D np s = Some (0, set_dirty np False (s\<lparr>kmem := m\<rparr>))"
    "wrote (sin_ino i) (\<lambda>k. if k < sizeof_din then ?bs ! k else dbyte s ?b k) f s (s\<lparr>kmem := m\<rparr>)"
    by (rule sfs_fsync_spec [OF assms])
  let ?t = "set_dirty np False (s\<lparr>kmem := m\<rparr>)"
  have ont: "sfs_on ready nblk own fp f ?t" using sfs_on_wrote [OF on(1) m(2)] by (simp add: set_dirty_def sfs_on_upd_sin)
  have len: "length ?bs = sizeof_din" "sizeof_din \<le> 4096" using length_din_bytes [OF i(4)] by (simp_all add: sizeof_din_def SFS_NDIRECT_def)
  obtain s2 where r: "sfs_rbytes D fp sizeof_din (sin_ino i) 0 ?t = Some (0, map (dbyte ?t ?b) [0..<0 + sizeof_din], s2)"
    using sfs_rbytes_spec [OF ont on(2) b, of 0 sizeof_din] len(2) by auto
  have bn: "?b < nblk s" using on(1) b(2) by (auto simp: sfs_on_def word_less_nat_alt)
  have w: "dbyte (s\<lparr>kmem := m\<rparr>) j k = (if j = ?b then if k < sizeof_din then ?bs ! k else dbyte s ?b k else dbyte s j k)"
    if "j < nblk s" "k < 4096" for j k using m(2) that by (simp add: wrote_def)
  have "map (dbyte ?t ?b) [0..<0 + sizeof_din] = ?bs @ []"
    using len w [OF bn] by (intro nth_equalityI) (simp_all add: set_dirty_def)
  then have "bytes_din (map (dbyte ?t ?b) [0..<0 + sizeof_din]) = sin_din i" using bytes_din_bytes [OF i(4), of "[]"] by simp
  moreover have "m a = kmem s a" if "a \<notin> own s" "a \<notin> region (sfs_buffer f) 4096" for a using m(2) that by (simp add: wrote_def)
  ultimately show ?thesis using m(1) r w by (intro exI [of _ m] exI conjI) auto
qed

end

abbreviation on_disk0 :: "ptr \<Rightarrow> sfs_fs \<Rightarrow> 'a sfs_st_scheme \<Rightarrow> bool" where
  "on_disk0 \<equiv> sfs_on disk0_ready (\<lambda>s. dsecs s div 8) disk0_own"

text \<open>
  C35. Reading a file of the simple file system on the root disk: for a mounted file system, an unlocked inode that is not a directory and
  whose blocks are all in use, and a buffer apart from the memory of the driver, \<open>sfs_read\<close> succeeds; it advances the I/O buffer
  by the smaller of what was asked for and what the file has from the offset on; the buffer then holds exactly these bytes of the file, through
  direct and indirect blocks and at any alignment; no other memory, nothing on the disk and no other part of the state has changed.  The
  whole blocks in the middle of the range have to be consecutive on disk, since the code looks up only the first of them.
\<close>

theorem sfs_read_exact:
  assumes "on_disk0 fp f s" "\<not> sfs_io_locked f" "sfs_of np s = Some fp"
    and "sins s np = Some i" "\<not> sin_locked i" "din_type (sin_din i) \<noteq> SFS_TYPE_DIR"
    and "file_ok (disk_byte s) f (sin_din i)" "unat (din_size (sin_din i)) \<le> unat (din_blocks (sin_din i)) * 4096"
    and "pos = unat (io_offset iob)" "pos < 2 ^ 27" "pos + unat (io_resid iob) < 2 ^ 63"
    and "len = min (unat (io_resid iob)) (unat (din_size (sin_din i)) - pos)"
    and "\<forall>t < (pos + len) div 4096 - (pos + 4095) div 4096. file_block (disk_byte s) (sin_din i) ((pos + 4095) div 4096 + t) =
           file_block (disk_byte s) (sin_din i) ((pos + 4095) div 4096) + of_nat t"
    and "region (io_base iob) len \<inter> (disk0_own s \<union> region (sfs_buffer f) 4096) = {}"
  shows "\<exists>m. sfs_read kernel_drivers np iob s = Some (0, advance iob (of_nat len), s\<lparr>kmem := m\<rparr>)
    \<and> (\<forall>k<len. m (io_base iob + k) = file_byte (disk_byte s) (sin_din i) (pos + k))
    \<and> (\<forall>a. a \<notin> disk0_own s \<longrightarrow> a \<notin> region (sfs_buffer f) 4096 \<longrightarrow> a \<notin> region (io_base iob) len \<longrightarrow> m a = kmem s a)
    \<and> (\<forall>j<dsecs s div 8. \<forall>k<4096. disk_byte (s\<lparr>kmem := m\<rparr>) j k = disk_byte s j k)"
proof -
  obtain n where n: "inodes s np = Some n" "in_type n = inode_type_sfs_inode_info" "in_fs n = Some fp"
    using assms(3) by (auto simp: sfs_of_def kassert_def split: bind_splits if_splits)
  have c: "disk0.clear_of f s (io_base iob) len" unfolding disk0.clear_of_def by (rule assms(14))
  have seq: "file_block (disk_byte s) (sin_din i) ((pos + 4095) div 4096 + t) = file_block (disk_byte s) (sin_din i) ((pos + 4095) div 4096) + of_nat t"
    if "(pos + 4095) div 4096 + t < (pos + len) div 4096" for t
    using assms(13) [rule_format, of t] that by linarith
  obtain s' where s': "sfs_read kernel_drivers np iob s = Some (0, advance iob (of_nat len), s')"
    "disk0.got (io_base iob) len (\<lambda>k. file_byte (disk_byte s) (sin_din i) (pos + k)) f s s'"
    by (rule disk0.sfs_read_spec [OF assms(1,2) n assms(4-12) seq c])
  obtain m where "s' = s\<lparr>kmem := m\<rparr>" using s'(2) by (auto simp: disk0.got_def)
  then show ?thesis using s' by (intro exI [of _ m]) (auto simp: disk0.got_def disk0.same_disk_def simp del: in_region)
qed

text \<open>
  C36. Writing back an inode of the simple file system: for an unlocked dirty inode in a mounted file system on the root disk, \<open>sfs_fsync\<close>
  succeeds and clears the dirty flag; reading the block of the inode afterwards, as \<open>sfs_load_inode\<close> does, gives bytes that decode to
  the very inode, whatever its contents; no other block, no other byte of this block and no memory but the driver's and the block buffer has changed.
\<close>

theorem sfs_fsync_roundtrip:
  assumes "on_disk0 fp f s" "\<not> sfs_io_locked f" "sfs_of np s = Some fp"
    and "sins s np = Some i" "\<not> sin_locked i" "sin_dirty i" "length (din_direct (sin_din i)) = SFS_NDIRECT"
    and "sin_ino i \<noteq> 0" "sin_ino i < sb_blocks (sfs_sup f)"
  shows "\<exists>m bs s2. sfs_fsync kernel_drivers np s = Some (0, set_dirty np False (s\<lparr>kmem := m\<rparr>))
    \<and> sfs_rbytes kernel_drivers fp sizeof_din (sin_ino i) 0 (set_dirty np False (s\<lparr>kmem := m\<rparr>)) = Some (0, bs, s2)
    \<and> bytes_din bs = sin_din i
    \<and> (\<forall>j<dsecs s div 8. \<forall>k<4096. j \<noteq> unat (sin_ino i) \<or> sizeof_din \<le> k \<longrightarrow> disk_byte (s\<lparr>kmem := m\<rparr>) j k = disk_byte s j k)
    \<and> (\<forall>a. a \<notin> disk0_own s \<longrightarrow> a \<notin> region (sfs_buffer f) 4096 \<longrightarrow> m a = kmem s a)"
  by (rule disk0.sfs_fsync_reload [OF assms])

section \<open>An example\<close>

text \<open>
  A disk of eight blocks at \<open>0x100000\<close>; the file has the inode in block 3 and its data in the blocks 4, 5, 6 and 7.
\<close>

definition example_din :: sfs_disk_inode where
  "example_din = \<lparr>din_size = 0x3010, din_type = SFS_TYPE_FILE, din_nlinks = 1, din_blocks = 4,
     din_direct = [4, 5, 6, 7, 0, 0, 0, 0, 0, 0, 0, 0], din_indirect = 0\<rparr>"

definition example_sfs :: sfs_fs where
  "example_sfs = \<lparr>sfs_sup = \<lparr>sb_magic = 0x2f8dbe2a, sb_blocks = 8, sb_unused_blocks = 0, sb_info = []\<rparr>,
     sfs_dev = \<lparr>d_blocks = 8, d_blocksize = 4096, d_driver = disk0_drv\<rparr>, sfs_freemap = \<lparr>nbits = 32, nwords = 1, bmap = [0]\<rparr>,
     sfs_freemap_at = 0x600000, sfs_super_dirty = False, sfs_buffer = 0x500000, sfs_fs_locked = False, sfs_io_locked = False,
     sfs_inode_list = [7], sfs_hlist = (\<lambda>_. [])\<rparr>"

definition example_sin :: sfs_inode where
  "example_sin = \<lparr>sin_din = example_din, sin_ino = 3, sin_dirty = True, sin_reclaim_count = 1, sin_locked = False\<rparr>"

definition example_mnt :: sfs_st where
  "example_mnt = \<lparr>kmem = (\<lambda>a. of_nat (a mod 251)),
     ide_devices = (\<lambda>_. \<lparr>ide_valid = True, ide_sets = 0, ide_size = 64, iobase = 0x100000\<rparr>),
     disk0_buffer = 0x200000, disk0_locked = False,
     inodes = [7 \<mapsto> \<lparr>in_type = inode_type_sfs_inode_info, in_device = \<lparr>d_blocks = 0, d_blocksize = 0, d_driver = 0\<rparr>,
                    ref_count = 1, open_count = 1, in_fs = Some 1, in_ops = Some 2\<rparr>],
     files = Map.empty, filesp = None, bootfs_node = None, vdev_list = [], locks = (\<lambda>_. False), console = [],
     stdin_buffer = (\<lambda>_. 0), p_rpos = 0, p_wpos = 0, sfss = [1 \<mapsto> example_sfs], sins = [7 \<mapsto> example_sin]\<rparr>"

lemma example_mnt_on:
  "on_disk0 1 example_sfs example_mnt" "\<not> sfs_io_locked example_sfs" "sfs_of 7 example_mnt = Some 1"
  "sins example_mnt 7 = Some example_sin" "\<not> sin_locked example_sin" "dsecs example_mnt = 64" "dbase example_mnt = 0x100000"
proof -
  show sz: "dsecs example_mnt = 64" "dbase example_mnt = 0x100000" by (simp_all add: dsecs_def dbase_def example_mnt_def)
  have "region 0x200000 16384 \<inter> region 0x100000 32768 = {}" "region 0x500000 4096 \<inter> (region 0x200000 16384 \<union> region 0x100000 32768) = {}"
    by (auto simp: disjoint_iff)
  moreover have "disk_at example_mnt 0x100000 64" by (simp add: disk_at_def example_mnt_def)
  moreover have "bm_ok (sfs_freemap example_sfs)" by (simp add: bm_ok_def free_bits_def example_sfs_def WORD_BITS_def)
  ultimately show "on_disk0 1 example_sfs example_mnt"
    using sz by (simp add: sfs_on_def disk0_ready_def disk0_own_def) (simp add: example_mnt_def example_sfs_def)
qed (simp_all add: example_sfs_def example_sin_def example_mnt_def sfs_of_def kassert_def)

lemma example_file_ok: "file_ok (disk_byte example_mnt) example_sfs example_din"
proof -
  have j: "file_block (disk_byte example_mnt) example_din j = of_nat (j + 4)" if "j < 4" for j
  proof -
    have "j = 0 \<or> j = 1 \<or> j = 2 \<or> j = 3" using that by linarith
    then show ?thesis by (auto simp: file_block_def example_din_def SFS_NDIRECT_def)
  qed
  have "blk_inuse example_sfs (of_nat (j + 4))" if "j < 4" for j
  proof -
    have "unat (of_nat (j + 4) :: u32) = j + 4" using that by (simp only: unat_of_nat) (simp add: take_bit_nat_eq_self)
    then show ?thesis using that unat_eq_0 [of "of_nat (j + 4) :: u32"]
      by (simp add: blk_inuse_def example_sfs_def bm_free_def free_bits_def word_less_nat_alt del: of_nat_add)
  qed
  then show ?thesis using j by (simp add: file_ok_def del: of_nat_add) (simp add: example_din_def SFS_NDIRECT_def)
qed

text \<open>Of 20000 bytes asked for at the offset 10, the file has 12294.\<close>

theorem sfs_read_exact_witness:
  "\<exists>m. sfs_read kernel_drivers 7 (iobuf_init 0x300000 20000 10) example_mnt
      = Some (0, advance (iobuf_init 0x300000 20000 10) 12294, example_mnt\<lparr>kmem := m\<rparr>)
    \<and> m (0x300000 + 12293) = of_nat ((0x107000 + 15) mod 251)"
proof -
  let ?iob = "iobuf_init 0x300000 20000 10"
  have t: "t = 0 \<or> t = 1" if "t < (10 + 12294) div 4096 - (10 + 4095) div 4096" for t :: nat using that by simp linarith
  have "\<exists>m. sfs_read kernel_drivers 7 ?iob example_mnt = Some (0, advance ?iob (of_nat 12294), example_mnt\<lparr>kmem := m\<rparr>)
    \<and> (\<forall>k<12294. m (io_base ?iob + k) = file_byte (disk_byte example_mnt) (sin_din example_sin) (10 + k))
    \<and> (\<forall>a. a \<notin> disk0_own example_mnt \<longrightarrow> a \<notin> region (sfs_buffer example_sfs) 4096 \<longrightarrow> a \<notin> region (io_base ?iob) 12294 \<longrightarrow> m a = kmem example_mnt a)
    \<and> (\<forall>j<dsecs example_mnt div 8. \<forall>k<4096. disk_byte (example_mnt\<lparr>kmem := m\<rparr>) j k = disk_byte example_mnt j k)"
  proof (rule sfs_read_exact [OF example_mnt_on(1-5)])
    show "file_ok (disk_byte example_mnt) example_sfs (sin_din example_sin)" using example_file_ok by (simp add: example_sin_def)
    have "file_block (disk_byte example_mnt) (sin_din example_sin) ((10 + 4095) div 4096 + t) =
        file_block (disk_byte example_mnt) (sin_din example_sin) ((10 + 4095) div 4096) + of_nat t" if "t = 0 \<or> t = 1" for t
      using that by (auto simp: file_block_def example_sin_def example_din_def SFS_NDIRECT_def)
    then show "\<forall>t<(10 + 12294) div 4096 - (10 + 4095) div 4096. file_block (disk_byte example_mnt) (sin_din example_sin) ((10 + 4095) div 4096 + t) =
        file_block (disk_byte example_mnt) (sin_din example_sin) ((10 + 4095) div 4096) + of_nat t" using t by blast
    show "region (io_base ?iob) 12294 \<inter> (disk0_own example_mnt \<union> region (sfs_buffer example_sfs) 4096) = {}"
      by (auto simp: disjoint_iff disk0_own_def dbase_def dsecs_def iobuf_init_def example_mnt_def example_sfs_def)
  qed (simp_all add: example_sin_def example_din_def SFS_TYPE_FILE_def SFS_TYPE_DIR_def iobuf_init_def)
  then obtain m where m: "sfs_read kernel_drivers 7 ?iob example_mnt = Some (0, advance ?iob (of_nat 12294), example_mnt\<lparr>kmem := m\<rparr>)"
    and b: "\<forall>k<12294. m (io_base ?iob + k) = file_byte (disk_byte example_mnt) (sin_din example_sin) (10 + k)" by blast
  have "m (io_base ?iob + 12293) = file_byte (disk_byte example_mnt) (sin_din example_sin) (10 + 12293)" by (rule b [rule_format]) simp
  then have "m (0x300000 + 12293) = of_nat ((0x107000 + 15) mod 251)"
    by (simp add: iobuf_init_def file_byte_def file_block_def example_sin_def example_din_def SFS_NDIRECT_def SFS_BLKSIZE_def disk_byte_def
        example_mnt_on(7)) (simp add: example_mnt_def)
  then show ?thesis using m by (intro exI [of _ m]) simp
qed

theorem sfs_fsync_roundtrip_witness:
  "\<exists>m bs s2. sfs_fsync kernel_drivers 7 example_mnt = Some (0, set_dirty 7 False (example_mnt\<lparr>kmem := m\<rparr>))
    \<and> sfs_rbytes kernel_drivers 1 sizeof_din 3 0 (set_dirty 7 False (example_mnt\<lparr>kmem := m\<rparr>)) = Some (0, bs, s2)
    \<and> bytes_din bs = example_din"
proof -
  have "sin_dirty example_sin" "length (din_direct (sin_din example_sin)) = SFS_NDIRECT" "sin_ino example_sin \<noteq> 0"
    "sin_ino example_sin < sb_blocks (sfs_sup example_sfs)"
    by (simp_all add: example_sin_def example_din_def example_sfs_def SFS_NDIRECT_def)
  from sfs_fsync_roundtrip [OF example_mnt_on(1-5) this] show ?thesis by (auto simp: example_sin_def)
qed

end
