(* ===== verification/Kpu.thy ===== *)
theory Kpu
  imports Proc SfsIO
begin

text \<open>
  The spooler of the neural network processor: the device \<^verbatim>\<open>kern/fs/devs/dev_kpuio.c\<close>, through which a process
  hands over an image in parts and asks for the result, and the controller \<^verbatim>\<open>kern/fs/devs/kpu_spooling.c\<close>, a kernel thread
  that keeps the list of tasks and starts a thread per task.

  The state has the process manager's state and the global variables of the two files; buffers are in the kernel memory of the
  state below.  As in the process manager, a function that gives up the processor is modelled up to and with that call, and what
  follows it is a function of its own; the answers of \<^verbatim>\<open>kmalloc\<close> are arguments, and a write through a null pointer or behind
  an array has no result.  \<open>intr_on\<close> is the interrupt enable bit.  \<^verbatim>\<open>kpu_sem\<close>, which admits one thread at a time to the
  processor, is a semaphore as in \<open>Sync\<close>: \<open>run_kpu\<close> is modelled between \<open>down\<close> and \<open>up\<close>.  \<^verbatim>\<open>kpu_test\<close>, the computation, is
  an argument.
\<close>

section \<open>State\<close>

definition MAX_TASKNUM :: int where "MAX_TASKNUM = 8"
definition RESULT_GOT :: int where "RESULT_GOT = 0"
definition RESULT_WAITING :: int where "RESULT_WAITING = - 2"
definition RESULT_RUNNING :: int where "RESULT_RUNNING = - 1"
definition RESULT_NOTEXIST :: int where "RESULT_NOTEXIST = - 3"
definition INIT_STATE_BIT :: u32 where "INIT_STATE_BIT = 1"
definition RUNNING_STATE_BIT :: u32 where "RUNNING_STATE_BIT = 2"
definition SUCCESS_STATE_BIT :: u32 where "SUCCESS_STATE_BIT = 8"

record kpu_pool_task =
  sflag :: u32
  t_id :: u32
  t_input :: nat
  t_owner :: "ptr option"

record 'w kpu_st =
  kps :: "'w proc_st"
  kpu_tasklist :: "ptr list"
  kpu_tasks :: "ptr \<Rightarrow> kpu_pool_task"
  maxid :: int
  kpuresultbase :: nat
  caller_pid :: int
  kpuio_init :: bool
  kpuio_check :: bool
  totlength :: int
  sumlen :: int
  bufs :: "nat \<Rightarrow> nat"
  lens :: "nat \<Rightarrow> int"
  numblock :: nat
  intr_on :: bool

definition kbytes :: "'w kpu_st \<Rightarrow> mem" where
  "kbytes s = kmem (fsys (kps s))"

definition set_kbytes :: "mem \<Rightarrow> 'w kpu_st \<Rightarrow> 'w kpu_st" where
  "set_kbytes m s = s\<lparr>kps := (kps s)\<lparr>fsys := (fsys (kps s))\<lparr>kmem := m\<rparr>\<rparr>\<rparr>"

definition set_intr :: "bool \<Rightarrow> 'w kpu_st \<Rightarrow> 'w kpu_st" where
  "set_intr b s = s\<lparr>intr_on := b\<rparr>"

definition upd_task :: "ptr \<Rightarrow> (kpu_pool_task \<Rightarrow> kpu_pool_task) \<Rightarrow> 'w kpu_st \<Rightarrow> 'w kpu_st" where
  "upd_task t f s = s\<lparr>kpu_tasks := (kpu_tasks s)(t := f (kpu_tasks s t))\<rparr>"

text \<open>Conversion to \<^verbatim>\<open>int\<close>.\<close>

definition c_int :: "u64 \<Rightarrow> int" where
  "c_int x = sint (ucast x :: u32)"

text \<open>\<^verbatim>\<open>kpu_buff\<close>: a magic number, the status at 8, the total size at 16, the size of the image at 24 and the address of the image at 40.\<close>

definition bytes_u64 :: "u8 list \<Rightarrow> u64" where
  "bytes_u64 bs = ucast (bytes_u32 bs) OR push_bit 32 (ucast (bytes_u32 (drop 4 bs)))"

definition u64_bytes :: "u64 \<Rightarrow> u8 list" where
  "u64_bytes w = u32_bytes (ucast w) @ u32_bytes (ucast (drop_bit 32 w))"

definition kb_u64 :: "nat \<Rightarrow> nat \<Rightarrow> mem \<Rightarrow> u64" where
  "kb_u64 off b m = bytes_u64 (mem_bytes (b + off) 8 m)"

abbreviation kb_totsize :: "nat \<Rightarrow> mem \<Rightarrow> u64" where "kb_totsize \<equiv> kb_u64 16"
abbreviation kb_jpgsize :: "nat \<Rightarrow> mem \<Rightarrow> u64" where "kb_jpgsize \<equiv> kb_u64 24"

definition kb_set_status :: "nat \<Rightarrow> int \<Rightarrow> mem \<Rightarrow> mem" where
  "kb_set_status b st m = mem_put (b + 8) (u64_bytes (word_of_int st)) m"

definition kb_set_jpeg :: "nat \<Rightarrow> nat \<Rightarrow> mem \<Rightarrow> mem" where
  "kb_set_jpeg b p m = mem_put (b + 40) (u64_bytes (of_nat p)) m"

definition sizeof_kpu_header :: nat where "sizeof_kpu_header = 48"

text \<open>The flags of a task.\<close>

definition is_running :: "kpu_pool_task \<Rightarrow> bool" where "is_running t \<longleftrightarrow> sflag t AND RUNNING_STATE_BIT \<noteq> 0"
definition is_success :: "kpu_pool_task \<Rightarrow> bool" where "is_success t \<longleftrightarrow> sflag t AND SUCCESS_STATE_BIT \<noteq> 0"
definition can_run :: "kpu_pool_task \<Rightarrow> bool" where
  "can_run t \<longleftrightarrow> sflag t AND INIT_STATE_BIT \<noteq> 0 \<and> \<not> is_running t \<and> \<not> is_success t"
definition task_init :: "kpu_pool_task \<Rightarrow> kpu_pool_task" where "task_init t = t\<lparr>sflag := sflag t OR INIT_STATE_BIT\<rparr>"
definition run_task :: "kpu_pool_task \<Rightarrow> kpu_pool_task" where "run_task t = t\<lparr>sflag := sflag t OR RUNNING_STATE_BIT\<rparr>"
definition stop_task :: "kpu_pool_task \<Rightarrow> kpu_pool_task" where "stop_task t = t\<lparr>sflag := sflag t AND NOT RUNNING_STATE_BIT\<rparr>"
definition task_success :: "kpu_pool_task \<Rightarrow> kpu_pool_task" where "task_success t = t\<lparr>sflag := sflag t OR SUCCESS_STATE_BIT\<rparr>"

section \<open>The spooler\<close>

definition kpu_spooling_init :: "'w kpu_st \<Rightarrow> 'w kpu_st" where
  "kpu_spooling_init s = s\<lparr>maxid := 0, kpu_tasklist := []\<rparr>"

text \<open>
  \<open>run_kpu\<close> from \<open>down\<close> to \<open>do_sleep\<close>, and from there to \<open>up\<close>; \<open>tm\<close> is the address of the timer on the stack of the thread.
\<close>

definition run_kpu :: "(ptr \<Rightarrow> 'w kpu_st \<Rightarrow> 'w kpu_st option) \<Rightarrow> ptr \<Rightarrow> ptr \<Rightarrow> 'w kpu_st \<Rightarrow> 'w kpu_st option" where
  "run_kpu kpu_test tm task s = do {
     s1 \<leftarrow> kpu_test task (upd_task task run_task s);
     (_, p) \<leftarrow> do_sleep tm 1000 (kps s1);
     Some (s1\<lparr>kps := p\<rparr>)
   }"

definition run_kpu_resume :: "ptr \<Rightarrow> ptr \<Rightarrow> 'w kpu_st \<Rightarrow> 'w kpu_st" where
  "run_kpu_resume tm task s = upd_task task task_success (upd_task task stop_task (s\<lparr>kps := snd (sleep_resume tm (kps s))\<rparr>))"

text \<open>
  \<open>run_kpu_addr\<close> is the address of the code of \<open>run_kpu\<close>, and the address of the task is its argument.
\<close>

record 'w kpu_env =
  k_vtab :: "'w fs_st_scheme vtab"
  k_fork :: fork_env
  k_sstatus :: u64
  k_entry :: u64
  run_kpu_addr :: u64

definition add_runtest_thread :: "'w kpu_env \<Rightarrow> ptr \<Rightarrow> 'w kpu_st \<Rightarrow> (int \<times> 'w kpu_st) option" where
  "add_runtest_thread e task s = do {
     (pid, p) \<leftarrow> kernel_thread (k_vtab e) (k_fork e) (k_sstatus e) (k_entry e) (run_kpu_addr e) (of_nat task) 0 (kps s);
     Some (if pid > 2 then 0 else - 1, s\<lparr>kps := p\<rparr>)
   }"

text \<open>The pid of the owner; reading it through a null pointer has no result.\<close>

definition owner_pid :: "'w kpu_st \<Rightarrow> ptr \<Rightarrow> int option" where
  "owner_pid s t = do { p \<leftarrow> t_owner (kpu_tasks s t); Some (p_pid (proc_of p (kps s))) }"

fun check_tasks :: "int \<Rightarrow> ptr list \<Rightarrow> 'w kpu_st \<Rightarrow> int option" where
  "check_tasks pid [] s = Some RESULT_NOTEXIST"
| "check_tasks pid (t # ts) s = do {
     q \<leftarrow> owner_pid s t;
     if \<not> is_running (kpu_tasks s t) \<and> is_success (kpu_tasks s t) \<and> pid = q then Some RESULT_GOT
     else if is_running (kpu_tasks s t) then (if pid = q then Some RESULT_RUNNING else check_tasks pid ts s)
     else if pid = q then Some RESULT_WAITING
     else check_tasks pid ts s
   }"

definition try_check_result :: "int \<Rightarrow> 'w kpu_st \<Rightarrow> int option" where
  "try_check_result pid s = check_tasks pid (kpu_tasklist s) s"

definition try_run_task :: "'w kpu_env \<Rightarrow> int \<Rightarrow> 'w kpu_st \<Rightarrow> (int \<times> 'w kpu_st) option" where
  "try_run_task e taskid s =
     (case find (\<lambda>t. t_id (kpu_tasks s t) = word_of_int taskid) (kpu_tasklist s) of
        None \<Rightarrow> Some (- 1, s)
      | Some t \<Rightarrow> do {
          q \<leftarrow> owner_pid s t;
          (_, s1) \<leftarrow> add_runtest_thread e t s;
          q1 \<leftarrow> owner_pid s1 t;
          Some (q1, s1)
        })"

definition alloc_id :: "'w kpu_st \<Rightarrow> int \<times> 'w kpu_st" where
  "alloc_id s = (let i = (maxid s + 1) mod MAX_TASKNUM in (i, s\<lparr>maxid := i\<rparr>))"

text \<open>The parts are copied one behind the other to \<open>dst\<close>; \<open>i\<close> is the number of the next part and \<open>n\<close> how many follow.\<close>

fun copy_parts :: "nat \<Rightarrow> nat \<Rightarrow> nat \<Rightarrow> 'w kpu_st \<Rightarrow> 'w kpu_st option" where
  "copy_parts 0 i dst s = Some s"
| "copy_parts (Suc n) i dst s = do {
     kassert (i < 64);
     let s1 = set_kbytes (copy_up dst (bufs s i) (nat (lens s i)) (kbytes s)) s;
     copy_parts n (i + 1) (dst + nat (lens s i)) (s1\<lparr>lens := (lens s1)(i := 0)\<rparr>)
   }"

text \<open>
  \<open>kb\<close> and \<open>kt\<close> are the answers of \<^verbatim>\<open>kmalloc\<close> for the buffer and for the task, whose flags are not initialised.
\<close>

definition add_kpu_task :: "nat option \<Rightarrow> ptr option \<Rightarrow> int \<Rightarrow> 'w kpu_st \<Rightarrow> (int \<times> 'w kpu_st) option" where
  "add_kpu_task kb kt callerpid s = do {
     kassert (totlength s > 0);
     b \<leftarrow> kb;
     s1 \<leftarrow> copy_parts (numblock s) 0 b s;
     kassert (kb_totsize b (kbytes s1) = word_of_int (totlength s1));
     let s2 = set_kbytes (kb_set_jpeg b (b + sizeof_kpu_header) (kbytes s1)) s1;
     if kb_jpgsize b (kbytes s2) > 0 then do {
       t \<leftarrow> kt;
       let (i, s3) = alloc_id s2;
       let s4 = upd_task t (\<lambda>k. k\<lparr>t_id := word_of_int i, t_input := b, t_owner := find_proc callerpid (kps s3)\<rparr>) s3;
       let s5 = upd_task t task_init (s4\<lparr>kpu_tasklist := kpu_tasklist s4 @ [t]\<rparr>);
       Some (i, s5)
     } else Some (99, s2)
   }"

text \<open>\<open>sleep_ctrl\<close>: the controller, which is the running thread, goes to sleep.\<close>

definition sleep_ctrl :: "u32 \<Rightarrow> 'w kpu_st \<Rightarrow> 'w kpu_st option" where
  "sleep_ctrl why s = do {
     cur \<leftarrow> current (kps s);
     Some (s\<lparr>kps := upd_proc cur (\<lambda>p. p\<lparr>p_state := PROC_SLEEPING, p_wait_state := why\<rparr>) (kps s)\<rparr>)
   }"

definition wake_caller :: "'w kpu_st \<Rightarrow> 'w kpu_st option" where
  "wake_caller s = do {
     proc \<leftarrow> find_proc (caller_pid s) (kps s);
     p \<leftarrow> wakeup_proc default_sched_class proc (kps s);
     Some (s\<lparr>kps := p\<rparr>)
   }"

text \<open>One round of the loop of \<open>kpu_task_ctrl\<close>, from its beginning to \<open>schedule()\<close>.  The body runs with the interrupts off and leaves them as they were.\<close>

definition ctrl_round :: "'w kpu_env \<Rightarrow> nat option \<Rightarrow> ptr option \<Rightarrow> 'w kpu_st \<Rightarrow> 'w kpu_st option" where
  "ctrl_round e kb kt s = do {
     s1 \<leftarrow> (if kpuio_init s \<and> \<not> kpuio_check s then do {
              s2 \<leftarrow> (if caller_pid s > 2 then do {
                       (i, s3) \<leftarrow> add_kpu_task kb kt (caller_pid s) s;
                       (_, s4) \<leftarrow> try_run_task e i s3;
                       wake_caller s4
                     } else Some s);
              sleep_ctrl WT_KPU_INIT s2
            }
            else if kpuio_check s \<and> \<not> kpuio_init s then do {
              st \<leftarrow> try_check_result (caller_pid s) s;
              kassert (kpuresultbase s \<noteq> 0);
              s2 \<leftarrow> sleep_ctrl WT_KPU (set_kbytes (kb_set_status (kpuresultbase s) st (kbytes s)) s);
              wake_caller s2
            }
            else sleep_ctrl WT_KPU s);
     p \<leftarrow> schedule default_sched_class (kps s1);
     Some (s1\<lparr>kps := p\<rparr>)
   }"

section \<open>The device\<close>

definition kpuio_open :: "u32 \<Rightarrow> int" where
  "kpuio_open open_flags = (if open_flags \<noteq> O_RDWR then - E_INVAL else 0)"

definition kpuio_close :: int where "kpuio_close = 0"
definition kpuio_ioctl :: int where "kpuio_ioctl = - E_UNIMP"
definition dev_kpuio_intr :: int where "dev_kpuio_intr = 0"

text \<open>\<^verbatim>\<open>kpumagic\<close>.\<close>

definition kpu_magic :: "u8 list" where
  "kpu_magic = [0x6b, 0x70, 0x75, 0x6d, 0x61, 0x67, 0x69, 0x63]"

definition check_magic :: "nat \<Rightarrow> mem \<Rightarrow> bool" where
  "check_magic b m \<longleftrightarrow> b \<noteq> 0 \<and> mem_bytes b 8 m = kpu_magic"

text \<open>
  \<open>dev_kpuio_taskinit\<close>: \<open>Kpu_returned\<close> with the return code, or \<open>Kpu_switched\<close> where it waits for the controller.  With a negative total size
  it returns without enabling the interrupts again.
\<close>

datatype kpu_outcome = Kpu_returned int | Kpu_switched

definition taskinit_first :: "nat \<Rightarrow> int \<Rightarrow> 'w kpu_st \<Rightarrow> 'w kpu_st" where
  "taskinit_first buf pid s = s\<lparr>numblock := 0, totlength := c_int (kb_totsize buf (kbytes s)), sumlen := 0\<rparr>"

definition taskinit_store :: "nat option \<Rightarrow> nat \<Rightarrow> u64 \<Rightarrow> 'w kpu_st \<Rightarrow> 'w kpu_st option" where
  "taskinit_store k buf len s = do {
     kassert (numblock s < 64);
     kassert (k \<noteq> None \<or> len = 0);
     let b = (case k of None \<Rightarrow> 0 | Some b \<Rightarrow> b);
     let s1 = set_kbytes (copy_up b buf (unat len) (kbytes s)) s;
     Some (s1\<lparr>lens := (lens s)(numblock s := c_int len), bufs := (bufs s)(numblock s := b), numblock := numblock s + 1,
              sumlen := c_int (word_of_int (sumlen s) + len)\<rparr>)
   }"

definition dev_kpuio_taskinit :: "nat option \<Rightarrow> nat \<Rightarrow> u64 \<Rightarrow> int \<Rightarrow> 'w kpu_st \<Rightarrow> (kpu_outcome \<times> 'w kpu_st) option" where
  "dev_kpuio_taskinit k buf len pid s = do {
     let s0 = set_intr False s;
     let first = check_magic buf (kbytes s);
     let s1 = (if first then taskinit_first buf pid s0 else s0);
     if first \<and> totlength s1 < 0 then Some (Kpu_returned (- 1), s1)
     else do {
       let s2 = (if first then s1\<lparr>caller_pid := pid\<rparr> else s1);
       kassert (first \<or> caller_pid s2 = pid);
       s3 \<leftarrow> taskinit_store k buf len s2;
       if sumlen s3 = totlength s3 then do {
         p \<leftarrow> run_kpu_task_add default_sched_class (kps s3);
         Some (Kpu_switched, s3\<lparr>kpuio_init := True, kpuio_check := False, kps := p\<rparr>)
       }
       else Some (Kpu_returned 0, set_intr (intr_on s) s3)
     }
   }"

text \<open>\<open>intr\<close> is the \<^verbatim>\<open>intr_flag\<close> saved on the stack.\<close>

definition taskinit_resume :: "bool \<Rightarrow> 'w kpu_st \<Rightarrow> int \<times> 'w kpu_st" where
  "taskinit_resume intr s = (0, set_intr intr (s\<lparr>kpuio_init := False, kpuio_check := False\<rparr>))"

definition dev_try_getresult :: "nat option \<Rightarrow> int \<Rightarrow> 'w kpu_st \<Rightarrow> 'w kpu_st option" where
  "dev_try_getresult k pid s = do {
     let s1 = s\<lparr>caller_pid := pid, kpuresultbase := (case k of None \<Rightarrow> 0 | Some b \<Rightarrow> b)\<rparr>;
     p \<leftarrow> run_kpu_task_check default_sched_class (kps s1);
     Some (s1\<lparr>kps := p\<rparr>)
   }"

definition getresult_resume :: "nat \<Rightarrow> 'w kpu_st \<Rightarrow> (int \<times> 'w kpu_st) option" where
  "getresult_resume buf s = do {
     kassert (kpuresultbase s \<noteq> 0);
     Some (0, (set_kbytes (copy_up (buf + 8) (kpuresultbase s + 8) 8 (kbytes s)) s)\<lparr>kpuio_init := False, kpuio_check := False\<rparr>)
   }"

text \<open>\<open>kpuio_io\<close> for the running process, up to the switch; a write that returns has used up the I/O buffer.\<close>

definition kpuio_io :: "nat option \<Rightarrow> iobuf \<Rightarrow> bool \<Rightarrow> 'w kpu_st \<Rightarrow> (kpu_outcome \<times> iobuf \<times> 'w kpu_st) option" where
  "kpuio_io k iob wr s = do {
     cur \<leftarrow> current (kps s);
     let pid = p_pid (proc_of cur (kps s));
     if wr then do {
       (r, s1) \<leftarrow> dev_kpuio_taskinit k (io_base iob) (io_resid iob) pid (s\<lparr>kpuio_init := True, kpuio_check := False\<rparr>);
       case r of Kpu_switched \<Rightarrow> Some (Kpu_switched, iob, s1)
       | Kpu_returned ret \<Rightarrow> do { iob1 \<leftarrow> iobuf_skip iob (io_resid iob); Some (Kpu_returned ret, iob1, s1) }
     } else do {
       s1 \<leftarrow> dev_try_getresult k pid (s\<lparr>kpuio_check := True, kpuio_init := False\<rparr>);
       Some (Kpu_switched, iob, s1)
     }
   }"

definition kpuio_io_resume :: "bool \<Rightarrow> bool \<Rightarrow> iobuf \<Rightarrow> 'w kpu_st \<Rightarrow> (int \<times> iobuf \<times> 'w kpu_st) option" where
  "kpuio_io_resume intr wr iob s =
     (if wr then (let (ret, s1) = taskinit_resume intr s in do { iob1 \<leftarrow> iobuf_skip iob (io_resid iob); Some (ret, iob1, s1) })
      else do { (ret, s1) \<leftarrow> getresult_resume (io_base iob) s; Some (ret, iob, s1) })"

definition kpuio_device_init :: "nat \<Rightarrow> device" where
  "kpuio_device_init drv = \<lparr>d_blocks = 0, d_blocksize = 1, d_driver = drv\<rparr>"

text \<open>\<open>drv\<close> names the functions above in the table of drivers.\<close>

definition dev_init_kpuio :: "nat \<Rightarrow> inode \<Rightarrow> ptr option \<Rightarrow> bool \<Rightarrow> bool \<Rightarrow> 'w kpu_st \<Rightarrow> 'w kpu_st option" where
  "dev_init_kpuio drv u k ks kd s = do {
     (np, w1) \<leftarrow> dev_create_inode u k (fsys (kps s));
     p \<leftarrow> np;
     (ret, w2) \<leftarrow> vfs_add_dev ks kd ''kpuio'' (Some p) False (set_device p (kpuio_device_init drv) w1);
     if ret \<noteq> 0 then None else Some (s\<lparr>kps := (kps s)\<lparr>fsys := w2\<rparr>, kpuio_init := False, kpuio_check := False\<rparr>)
   }"

end
