(* ===== verification/KpuInv.thy ===== *)
theory KpuInv
  imports Kpu
begin

text \<open>
  The spooler delivers what was written: a client hands over an image in parts through one buffer, the device keeps the parts,
  and the task of the controller has exactly the bytes of the image.  The identifiers of the tasks are reused after eight tasks although the
  tasks stay on the list, so that later tasks are never started.
\<close>

section \<open>State and memory\<close>

lemma kbytes_simps [simp]:
  "kbytes (set_kbytes m s) = m" "kbytes (set_intr b s) = kbytes s" "set_kbytes m (set_kbytes m' s) = set_kbytes m s"
  by (simp_all add: kbytes_def set_kbytes_def set_intr_def)

lemma set_kbytes_simps [simp]:
  "kpu_tasklist (set_kbytes m s) = kpu_tasklist s" "kpu_tasks (set_kbytes m s) = kpu_tasks s" "maxid (set_kbytes m s) = maxid s"
  "caller_pid (set_kbytes m s) = caller_pid s" "totlength (set_kbytes m s) = totlength s" "sumlen (set_kbytes m s) = sumlen s"
  "bufs (set_kbytes m s) = bufs s" "lens (set_kbytes m s) = lens s" "numblock (set_kbytes m s) = numblock s" "intr_on (set_kbytes m s) = intr_on s"
  by (simp_all add: set_kbytes_def)

lemma set_intr_simps [simp]:
  "kps (set_intr b s) = kps s" "kpu_tasklist (set_intr b s) = kpu_tasklist s" "kpu_tasks (set_intr b s) = kpu_tasks s" "maxid (set_intr b s) = maxid s"
  "caller_pid (set_intr b s) = caller_pid s" "totlength (set_intr b s) = totlength s" "sumlen (set_intr b s) = sumlen s"
  "bufs (set_intr b s) = bufs s" "lens (set_intr b s) = lens s" "numblock (set_intr b s) = numblock s"
  by (simp_all add: set_intr_def)

lemma kbytes_frame [simp]:
  "kbytes (s\<lparr>kpu_tasklist := l\<rparr>) = kbytes s" "kbytes (s\<lparr>kpu_tasks := k\<rparr>) = kbytes s" "kbytes (s\<lparr>maxid := i\<rparr>) = kbytes s"
  "kbytes (s\<lparr>caller_pid := i\<rparr>) = kbytes s" "kbytes (s\<lparr>numblock := n\<rparr>) = kbytes s" "kbytes (s\<lparr>totlength := i\<rparr>) = kbytes s"
  "kbytes (s\<lparr>sumlen := i\<rparr>) = kbytes s" "kbytes (s\<lparr>lens := ls\<rparr>) = kbytes s" "kbytes (s\<lparr>bufs := bf\<rparr>) = kbytes s"
  "kbytes (s\<lparr>kps := p\<rparr>) = kmem (fsys p)"
  by (simp_all add: kbytes_def)

lemma c_int_of_nat: "n < 2 ^ 31 \<Longrightarrow> c_int (of_nat n) = int n"
proof -
  assume n: "n < 2 ^ 31"
  have "signed_take_bit 31 (int n) = int n" by (rule signed_take_bit_int_eq_self) (use n in simp_all)
  moreover have "ucast (of_nat n :: u64) = (of_nat n :: u32)" by (rule bit_word_eqI) (simp add: bit_simps)
  ultimately show ?thesis by (simp add: c_int_def signed_of_nat)
qed

lemma copy_apart:
  assumes "region d n \<inter> region a n = {}"
  shows "mem_bytes d n (copy_up d a n m) = mem_bytes a n m" "x \<notin> region d n \<Longrightarrow> copy_up d a n m x = m x"
proof -
  have "\<not> (a < d \<and> d < a + n)"
  proof
    assume "a < d \<and> d < a + n"
    then have "d \<in> region d n \<inter> region a n" by auto
    then show False using assms by blast
  qed
  note sp = copy_up_spec [OF this, of m]
  show "mem_bytes d n (copy_up d a n m) = mem_bytes a n m" by (rule mem_bytes_cong) (simp add: sp)
  show "x \<notin> region d n \<Longrightarrow> copy_up d a n m x = m x" by (auto simp: sp)
qed

lemma mem_bytes_outside: "(\<And>x. x \<notin> X \<Longrightarrow> m' x = m x) \<Longrightarrow> region a n \<inter> X = {} \<Longrightarrow> mem_bytes a n m' = mem_bytes a n m"
  by (rule mem_bytes_cong) (auto simp: disjoint_iff)

text \<open>\<open>kframe\<close>: the list of tasks is the same, and nothing but the kernel memory of the rest of the state has changed.\<close>

definition kframe :: "'w kpu_st \<Rightarrow> 'w kpu_st \<Rightarrow> bool" where
  "kframe s s' \<longleftrightarrow> (\<exists>m. kps s' = (kps s)\<lparr>fsys := (fsys (kps s))\<lparr>kmem := m\<rparr>\<rparr>) \<and> kpu_tasklist s' = kpu_tasklist s \<and> kpu_tasks s' = kpu_tasks s
     \<and> maxid s' = maxid s"

lemma kframe_trans: "kframe s s1 \<Longrightarrow> kframe s1 s2 \<Longrightarrow> kframe s s2"
  by (auto simp: kframe_def)

section \<open>The parts of an image\<close>

text \<open>\<open>parts_in s ks cs\<close>: the device holds the parts \<open>cs\<close> at the addresses \<open>ks\<close>.\<close>

definition parts_in :: "'w kpu_st \<Rightarrow> nat list \<Rightarrow> u8 list list \<Rightarrow> bool" where
  "parts_in s ks cs \<longleftrightarrow> length ks = length cs \<and> numblock s = length cs \<and> sumlen s = int (length (concat cs))
     \<and> (\<forall>i<length cs. bufs s i = ks ! i \<and> lens s i = int (length (cs ! i)) \<and> mem_bytes (ks ! i) (length (cs ! i)) (kbytes s) = cs ! i)"

text \<open>A client writes the parts one after the other through the buffer at \<open>buf\<close>; \<open>k\<close> is where \<^verbatim>\<open>kmalloc\<close> puts the copy of the part.\<close>

fun upload :: "int \<Rightarrow> nat \<Rightarrow> (nat \<times> u8 list) list \<Rightarrow> 'w kpu_st \<Rightarrow> (kpu_outcome \<times> 'w kpu_st) option" where
  "upload pid buf [] s = Some (Kpu_returned 0, s)"
| "upload pid buf ((k, bs) # xs) s = do {
     (r, s1) \<leftarrow> dev_kpuio_taskinit (Some k) buf (of_nat (length bs)) pid (set_kbytes (mem_put buf bs (kbytes s)) s);
     if xs = [] then Some (r, s1) else do { kassert (r = Kpu_returned 0); upload pid buf xs s1 }
   }"

text \<open>The copies of the parts are apart from each other and from the buffer.\<close>

definition places_ok :: "nat \<Rightarrow> nat list \<Rightarrow> u8 list list \<Rightarrow> bool" where
  "places_ok buf ks cs \<longleftrightarrow> length ks = length cs \<and> length cs \<le> 64 \<and> buf \<noteq> 0 \<and> length (concat cs) < 2 ^ 31
     \<and> (\<forall>i<length cs. length (cs ! i) \<le> 4096 \<and> cs ! i \<noteq> [] \<and> region (ks ! i) (length (cs ! i)) \<inter> region buf 4096 = {}
       \<and> (\<forall>j<i. region (ks ! i) (length (cs ! i)) \<inter> region (ks ! j) (length (cs ! j)) = {}))"

lemma places_okD:
  assumes "places_ok buf ks cs" "i < length cs"
  shows "length (cs ! i) \<le> 4096" "cs ! i \<noteq> []" "region (ks ! i) (length (cs ! i)) \<inter> region buf 4096 = {}"
    "j < i \<Longrightarrow> region (ks ! i) (length (cs ! i)) \<inter> region (ks ! j) (length (cs ! j)) = {}"
  using assms unfolding places_ok_def by blast+

lemma places_ok_prefix:
  assumes "places_ok buf (ks @ ks') (cs @ cs')" "length ks = length cs"
  shows "places_ok buf ks cs"
proof -
  have nth: "(cs @ cs') ! i = cs ! i" "(ks @ ks') ! i = ks ! i" if "i < length cs" for i using that assms(2) by (simp_all add: nth_append)
  have "length (cs ! i) \<le> 4096 \<and> cs ! i \<noteq> [] \<and> region (ks ! i) (length (cs ! i)) \<inter> region buf 4096 = {}
       \<and> (\<forall>j<i. region (ks ! i) (length (cs ! i)) \<inter> region (ks ! j) (length (cs ! j)) = {})" if i: "i < length cs" for i
  proof -
    have "i < length (cs @ cs')" using i by simp
    note D = places_okD [OF assms(1) this]
    have "region (ks ! i) (length (cs ! i)) \<inter> region (ks ! j) (length (cs ! j)) = {}" if "j < i" for j
      using D(4) [OF that] nth [OF i] nth [of j] that i by (simp only: less_trans)
    then show ?thesis using D(1-3) unfolding nth [OF i] by blast
  qed
  then show ?thesis using assms by (simp add: places_ok_def)
qed

lemma store_part:
  assumes p: "parts_in s ks cs" and pl: "places_ok buf (ks @ [k]) (cs @ [bs])"
    and m: "mem_bytes buf (length bs) (kbytes s) = bs"
  obtains s' where "taskinit_store (Some k) buf (of_nat (length bs)) s = Some s'" "parts_in s' (ks @ [k]) (cs @ [bs])" "kframe s s'"
    "totlength s' = totlength s" "caller_pid s' = caller_pid s" "intr_on s' = intr_on s"
proof -
  let ?n = "length cs" and ?b = "length bs" and ?m = "copy_up k buf (length bs) (kbytes s)"
  have len: "length ks = ?n" "?n < 64" "?b \<le> 4096" "length (concat cs) + ?b < 2 ^ 31" using pl by (auto simp: places_ok_def)
  have pl': "region ((ks @ [k]) ! i) (length ((cs @ [bs]) ! i)) \<inter> region buf 4096 = {}"
    "j < i \<Longrightarrow> region ((ks @ [k]) ! i) (length ((cs @ [bs]) ! i)) \<inter> region ((ks @ [k]) ! j) (length ((cs @ [bs]) ! j)) = {}"
    if "i \<le> ?n" for i j using pl that unfolding places_ok_def by auto
  have kb: "region k ?b \<inter> region buf ?b = {}"
    using pl'(1) [of ?n] len(1,3) region_subset [of buf buf ?b 4096] by (auto simp: disjoint_iff nth_append)
  have other: "mem_bytes (ks ! i) (length (cs ! i)) ?m = mem_bytes (ks ! i) (length (cs ! i)) (kbytes s)" if "i < ?n" for i
  proof (rule mem_bytes_outside [OF copy_apart(2) [OF kb]])
    show "region (ks ! i) (length (cs ! i)) \<inter> region k ?b = {}" using pl'(2) [of ?n i] that len(1) by (auto simp: nth_append)
  qed
  have u: "unat (of_nat ?b :: u64) = ?b" using len(3) by (simp only: unat_of_nat) (simp add: take_bit_nat_eq_self)
  have c: "c_int (of_nat ?b) = int ?b" "c_int (of_nat (length (concat cs) + ?b)) = int (length (concat cs) + ?b)"
    using len(3,4) by (intro c_int_of_nat; simp)+
  let ?s = "(set_kbytes ?m s)\<lparr>lens := (lens s)(numblock s := c_int (of_nat ?b)), bufs := (bufs s)(numblock s := k),
    numblock := numblock s + 1, sumlen := c_int (word_of_int (sumlen s) + of_nat ?b)\<rparr>"
  have nb: "numblock s = ?n" "sumlen s = int (length (concat cs))" using p by (simp_all add: parts_in_def)
  show thesis
  proof (rule that)
    show "taskinit_store (Some k) buf (of_nat ?b) s = Some ?s" using len(2) by (simp add: taskinit_store_def u nb(1))
    show "parts_in ?s (ks @ [k]) (cs @ [bs])"
      unfolding parts_in_def
    proof (intro conjI allI impI)
      show "sumlen ?s = int (length (concat (cs @ [bs])))" using c(2) by (simp add: nb(2))
      fix i assume i: "i < length (cs @ [bs])"
      consider "i < ?n" | "i = ?n" using i by fastforce
      then show "mem_bytes ((ks @ [k]) ! i) (length ((cs @ [bs]) ! i)) (kbytes ?s) = (cs @ [bs]) ! i"
        using p other m copy_apart(1) [OF kb, of "kbytes s"] len(1) by cases (auto simp: parts_in_def nth_append)
    qed (use p c(1) len(1) nb in \<open>auto simp: parts_in_def nth_append\<close>)
    show "kframe s ?s" by (auto simp: kframe_def set_kbytes_def)
  qed simp_all
qed

text \<open>A part that does not begin like the magic number continues the image.\<close>

definition continues :: "u8 list \<Rightarrow> bool" where
  "continues bs \<longleftrightarrow> take 8 bs \<noteq> take (length bs) kpu_magic"

lemma continues_no_magic:
  assumes "continues bs"
  shows "\<not> check_magic buf (mem_put buf bs m)"
proof
  assume "check_magic buf (mem_put buf bs m)"
  then have e: "mem_bytes buf 8 (mem_put buf bs m) = kpu_magic" by (simp add: check_magic_def)
  have "take 8 bs = take (length bs) kpu_magic"
    unfolding e [symmetric] by (rule nth_equalityI) auto
  then show False using assms by (simp add: continues_def)
qed

lemma parts_in_put:
  assumes "parts_in s ks cs" "places_ok buf (ks @ ks') (cs @ cs')" "length ks = length cs" "length bs \<le> 4096"
  shows "parts_in (set_kbytes (mem_put buf bs (kbytes s)) s) ks cs"
proof -
  have "mem_bytes (ks ! i) (length (cs ! i)) (mem_put buf bs (kbytes s)) = mem_bytes (ks ! i) (length (cs ! i)) (kbytes s)" if "i < length cs" for i
  proof (rule mem_bytes_outside [of "region buf (length bs)"])
    have "region ((ks @ ks') ! i) (length ((cs @ cs') ! i)) \<inter> region buf 4096 = {}" by (rule places_okD(3) [OF assms(2)]) (use that in simp)
    then show "region (ks ! i) (length (cs ! i)) \<inter> region buf (length bs) = {}"
      using that assms(3,4) region_subset [of buf buf "length bs" 4096] by (simp add: nth_append del: in_region) blast
  qed simp
  then show ?thesis using assms(1) by (simp add: parts_in_def)
qed

lemma upload_rest:
  assumes "parts_in s ks cs" "places_ok buf (ks @ map fst xs) (cs @ map snd xs)" "caller_pid s = pid"
    "totlength s = int (length (concat (cs @ map snd xs)))" "xs \<noteq> []" "list_all (continues \<circ> snd) xs"
  shows "\<exists>s'. upload pid buf xs s = run_kpu_task_add default_sched_class (kps s') \<bind>
      (\<lambda>p. Some (Kpu_switched, s'\<lparr>kpuio_init := True, kpuio_check := False, kps := p\<rparr>))
    \<and> parts_in s' (ks @ map fst xs) (cs @ map snd xs) \<and> kframe s s' \<and> caller_pid s' = pid \<and> totlength s' = totlength s"
  using assms
proof (induction xs arbitrary: s ks cs)
  case (Cons x xs)
  obtain k bs where x: "x = (k, bs)" by (cases x)
  let ?s = "set_kbytes (mem_put buf bs (kbytes s)) s"
  have lk: "length ks = length cs" using Cons.prems(1) by (simp add: parts_in_def)
  have pl: "places_ok buf ((ks @ [k]) @ map fst xs) ((cs @ [bs]) @ map snd xs)" using Cons.prems(2) by (simp add: x)
  have b: "length bs \<le> 4096" using places_okD(1) [OF pl, of "length cs"] by simp
  have p1: "parts_in ?s ks cs" by (rule parts_in_put [OF Cons.prems(1,2) lk b])
  have m: "mem_bytes buf (length bs) (kbytes (set_intr False ?s)) = bs" by (simp add: mem_bytes_put)
  have p2: "parts_in (set_intr False ?s) ks cs" using p1 by (simp add: parts_in_def)
  obtain s1 where s1: "taskinit_store (Some k) buf (of_nat (length bs)) (set_intr False ?s) = Some s1" "parts_in s1 (ks @ [k]) (cs @ [bs])"
    "kframe (set_intr False ?s) s1" "totlength s1 = totlength s" "caller_pid s1 = caller_pid s"
    by (rule store_part [OF p2 places_ok_prefix [OF pl] m]) (simp_all add: lk)
  have fr: "kframe s s1" using s1(3) by (auto simp: kframe_def set_kbytes_def)
  have nm: "\<not> check_magic buf (kbytes ?s)" using Cons.prems(6) continues_no_magic by (simp add: x)
  have sl: "sumlen s1 = int (length (concat (cs @ [bs])))" using s1(2) by (simp add: parts_in_def)
  show ?case
  proof (cases "xs = []")
    case True
    have "sumlen s1 = totlength s1" using sl s1(4) Cons.prems(4) by (simp add: x True)
    then have "upload pid buf (x # xs) s = run_kpu_task_add default_sched_class (kps s1) \<bind>
        (\<lambda>p. Some (Kpu_switched, s1\<lparr>kpuio_init := True, kpuio_check := False, kps := p\<rparr>))"
      using nm s1(1) Cons.prems(3) by (simp add: x True dev_kpuio_taskinit_def Let_def)
    then show ?thesis using s1 fr Cons.prems(3) by (intro exI [of _ s1]) (simp add: x True)
  next
    case False
    have "snd (hd xs) \<noteq> []"
    proof -
      have "((cs @ [bs]) @ map snd xs) ! (length cs + 1) \<noteq> []" by (rule places_okD(2) [OF pl]) (use False in simp)
      then show ?thesis using False by (simp add: nth_append hd_conv_nth)
    qed
    then have "length (concat (map snd xs)) > 0" using False by (cases xs) auto
    then have ne: "sumlen s1 \<noteq> totlength s1" using sl s1(4) Cons.prems(4) by (simp add: x)
    let ?s1 = "set_intr (intr_on s) s1"
    have pr: "parts_in ?s1 (ks @ [k]) (cs @ [bs])" "caller_pid ?s1 = pid" "totlength ?s1 = int (length (concat ((cs @ [bs]) @ map snd xs)))"
      using s1(2,4,5) Cons.prems(3,4) by (simp_all add: parts_in_def x)
    have "\<exists>s'. upload pid buf xs ?s1 = run_kpu_task_add default_sched_class (kps s') \<bind>
        (\<lambda>p. Some (Kpu_switched, s'\<lparr>kpuio_init := True, kpuio_check := False, kps := p\<rparr>))
      \<and> parts_in s' ((ks @ [k]) @ map fst xs) ((cs @ [bs]) @ map snd xs) \<and> kframe ?s1 s' \<and> caller_pid s' = pid \<and> totlength s' = totlength ?s1"
      by (rule Cons.IH [OF pr(1) pl pr(2,3) False]) (use Cons.prems(6) in simp)
    moreover have "upload pid buf (x # xs) s = upload pid buf xs ?s1"
      using nm s1(1) ne False Cons.prems(3) by (simp add: x dev_kpuio_taskinit_def Let_def)
    moreover have "kframe s ?s1" using fr by (simp add: kframe_def)
    ultimately show ?thesis using kframe_trans s1(4) by (fastforce simp: x)
  qed
qed simp

text \<open>The first part carries the magic number and the size.\<close>

definition image_ok :: "u8 list \<Rightarrow> u8 list \<Rightarrow> bool" where
  "image_ok bs img \<longleftrightarrow> length bs \<ge> sizeof_kpu_header \<and> take 8 bs = kpu_magic \<and> bytes_u64 (take 8 (drop 16 bs)) = of_nat (length img)
     \<and> bytes_u64 (take 8 (drop 24 bs)) > 0"

lemma header_field:
  assumes "mem_bytes b n m = img" "length bs \<ge> sizeof_kpu_header" "img = bs @ cs" "off \<le> 40"
  shows "kb_u64 off b m = bytes_u64 (take 8 (drop off bs))"
proof -
  have "n = length img" using assms(1) by (metis length_mem_bytes)
  then have "mem_bytes (b + off) 8 m = take 8 (drop off img)" using assms by (intro mem_bytes_part [OF assms(1)]) (simp add: sizeof_kpu_header_def)
  then show ?thesis using assms(2-4) by (simp add: kb_u64_def sizeof_kpu_header_def)
qed

lemma upload_all:
  assumes pl: "places_ok buf (map fst xs) (map snd xs)" and xs: "xs = (k, bs) # ys" and img: "img = concat (map snd xs)"
    and ok: "image_ok bs img" and c: "list_all (continues \<circ> snd) ys"
  shows "\<exists>s'. upload pid buf xs s = run_kpu_task_add default_sched_class (kps s') \<bind>
      (\<lambda>p. Some (Kpu_switched, s'\<lparr>kpuio_init := True, kpuio_check := False, kps := p\<rparr>))
    \<and> parts_in s' (map fst xs) (map snd xs) \<and> kframe s s' \<and> caller_pid s' = pid \<and> totlength s' = int (length img)"
proof -
  let ?s = "set_kbytes (mem_put buf bs (kbytes s)) s"
  have mem: "mem_bytes buf (length bs) (kbytes ?s) = bs" by (simp add: mem_bytes_put)
  have tot: "c_int (kb_totsize buf (kbytes ?s)) = int (length img)"
  proof -
    have "length img < 2 ^ 31" using pl unfolding places_ok_def img by blast
    then show ?thesis using ok header_field [OF mem, of bs "[]" 16] by (simp add: image_ok_def c_int_of_nat)
  qed
  have magic: "check_magic buf (kbytes ?s)"
    using mem_bytes_part [OF mem, of 0 8] ok pl by (simp add: check_magic_def image_ok_def sizeof_kpu_header_def places_ok_def)
  let ?s1 = "(taskinit_first buf pid (set_intr False ?s))\<lparr>caller_pid := pid\<rparr>"
  have s1: "kbytes ?s1 = kbytes ?s" "totlength ?s1 = int (length img)" "caller_pid ?s1 = pid" "parts_in ?s1 [] []"
    using tot by (simp_all add: taskinit_first_def parts_in_def)
  have fr1: "kframe s ?s1" unfolding kframe_def by (intro conjI exI [of _ "mem_put buf bs (kbytes s)"]) (simp_all add: taskinit_first_def set_kbytes_def)
  have pl1: "places_ok buf ([] @ [k]) ([] @ [bs])" by (rule places_ok_prefix [of _ _ "map fst ys" _ "map snd ys"]) (use pl in \<open>simp_all add: xs\<close>)
  obtain s2 where s2: "taskinit_store (Some k) buf (of_nat (length bs)) ?s1 = Some s2" "parts_in s2 ([] @ [k]) ([] @ [bs])" "kframe ?s1 s2"
    "totlength s2 = totlength ?s1" "caller_pid s2 = caller_pid ?s1" "intr_on s2 = intr_on ?s1"
    by (rule store_part [OF s1(4) pl1]) (simp_all only: s1(1) mem)
  have fr: "kframe s s2" using kframe_trans [OF fr1 s2(3)] .
  have run: "dev_kpuio_taskinit (Some k) buf (of_nat (length bs)) pid ?s = (if sumlen s2 = totlength s2
      then run_kpu_task_add default_sched_class (kps s2) \<bind> (\<lambda>p. Some (Kpu_switched, s2\<lparr>kpuio_init := True, kpuio_check := False, kps := p\<rparr>))
      else Some (Kpu_returned 0, set_intr (intr_on s) s2))"
    using magic s1(2) s2(1) by (simp add: dev_kpuio_taskinit_def Let_def)
  have sl: "sumlen s2 = int (length bs)" using s2(2) by (simp add: parts_in_def)
  show ?thesis
  proof (cases "ys = []")
    case True
    then have "sumlen s2 = totlength s2" using sl s2(4) s1(2) by (simp add: img xs)
    then show ?thesis using run s2 s1 fr True by (intro exI [of _ s2]) (simp add: xs)
  next
    case False
    have "snd (hd ys) \<noteq> []" using places_okD(2) [OF pl, of 1] False by (simp add: xs hd_conv_nth)
    then have "length (concat (map snd ys)) > 0" using False by (cases ys) auto
    then have ne: "sumlen s2 \<noteq> totlength s2" using sl s2(4) s1(2) by (simp add: img xs)
    let ?s2 = "set_intr (intr_on s) s2"
    have pr: "parts_in ?s2 [k] [bs]" "caller_pid ?s2 = pid" "totlength ?s2 = int (length (concat ([bs] @ map snd ys)))"
      using s2(2,4,5) s1(2,3) by (simp_all add: parts_in_def img xs)
    have "\<exists>s'. upload pid buf ys ?s2 = run_kpu_task_add default_sched_class (kps s') \<bind>
        (\<lambda>p. Some (Kpu_switched, s'\<lparr>kpuio_init := True, kpuio_check := False, kps := p\<rparr>))
      \<and> parts_in s' ([k] @ map fst ys) ([bs] @ map snd ys) \<and> kframe ?s2 s' \<and> caller_pid s' = pid \<and> totlength s' = totlength ?s2"
      by (rule upload_rest [OF pr(1) _ pr(2,3) False c]) (use pl in \<open>simp add: xs\<close>)
    moreover have "upload pid buf xs s = upload pid buf ys ?s2" using run ne False by (simp add: xs)
    moreover have "kframe s ?s2" using fr by (simp add: kframe_def)
    ultimately show ?thesis using kframe_trans s2(4) s1(2) by (fastforce simp: xs)
  qed
qed

section \<open>The task\<close>

lemma copy_parts_ok:
  assumes "length ks = length cs" "i + length cs \<le> 64" "\<And>j. j < length cs \<Longrightarrow> bufs s (i + j) = ks ! j \<and> lens s (i + j) = int (length (cs ! j))
      \<and> mem_bytes (ks ! j) (length (cs ! j)) (kbytes s) = cs ! j \<and> region (ks ! j) (length (cs ! j)) \<inter> region dst (length (concat cs)) = {}"
  shows "\<exists>s'. copy_parts (length cs) i dst s = Some s' \<and> mem_bytes dst (length (concat cs)) (kbytes s') = concat cs
    \<and> (\<forall>x. x \<notin> region dst (length (concat cs)) \<longrightarrow> kbytes s' x = kbytes s x) \<and> kframe s s' \<and> totlength s' = totlength s"
  using assms
proof (induction cs arbitrary: ks i dst s)
  case Nil
  have "kframe s s" by (auto simp: kframe_def intro!: exI [of _ "kbytes s"]) (simp add: kbytes_def)
  then show ?case by (simp add: mem_bytes_def)
next
  case (Cons c cs)
  obtain k ks' where ks: "ks = k # ks'" using Cons.prems(1) by (cases ks) auto
  let ?n = "length c" and ?s = "set_kbytes (copy_up dst (bufs s i) (length c) (kbytes s)) s" and ?tot = "length c + length (concat cs)"
  let ?s1 = "?s\<lparr>lens := (lens ?s)(i := 0)\<rparr>"
  have at: "bufs s i = k" "lens s i = int ?n" "mem_bytes k ?n (kbytes s) = c" "region k ?n \<inter> region dst ?tot = {}"
    using Cons.prems(3) [of 0] by (simp_all add: ks)
  have sub: "region dst ?n \<subseteq> region dst ?tot" "region (dst + ?n) (length (concat cs)) \<subseteq> region dst ?tot" by (auto simp: region_def)
  have kd: "region dst ?n \<inter> region k ?n = {}" using at(4) sub(1) by blast
  note cp = copy_apart [OF kd, where m = "kbytes s"]
  have kb: "kbytes ?s1 = copy_up dst k ?n (kbytes s)" by (simp add: at(1))
  have IH: "\<exists>s'. copy_parts (length cs) (i + 1) (dst + ?n) ?s1 = Some s' \<and> mem_bytes (dst + ?n) (length (concat cs)) (kbytes s') = concat cs
    \<and> (\<forall>x. x \<notin> region (dst + ?n) (length (concat cs)) \<longrightarrow> kbytes s' x = kbytes ?s1 x) \<and> kframe ?s1 s' \<and> totlength s' = totlength ?s1"
  proof (rule Cons.IH)
    show "length ks' = length cs" "i + 1 + length cs \<le> 64" using Cons.prems(1,2) ks by auto
    fix j assume j: "j < length cs"
    have J: "bufs s (i + 1 + j) = ks' ! j" "lens s (i + 1 + j) = int (length (cs ! j))" "mem_bytes (ks' ! j) (length (cs ! j)) (kbytes s) = cs ! j"
      "region (ks' ! j) (length (cs ! j)) \<inter> region dst ?tot = {}" using Cons.prems(3) [of "Suc j"] j by (simp_all add: ks)
    have "region (ks' ! j) (length (cs ! j)) \<inter> region dst ?n = {}" using J(4) sub(1) by blast
    then have "mem_bytes (ks' ! j) (length (cs ! j)) (copy_up dst k ?n (kbytes s)) = mem_bytes (ks' ! j) (length (cs ! j)) (kbytes s)"
      by (rule mem_bytes_outside [rotated]) (rule cp(2))
    then have "mem_bytes (ks' ! j) (length (cs ! j)) (kbytes ?s1) = cs ! j" unfolding kb J(3) .
    then show "bufs ?s1 (i + 1 + j) = ks' ! j \<and> lens ?s1 (i + 1 + j) = int (length (cs ! j)) \<and> mem_bytes (ks' ! j) (length (cs ! j)) (kbytes ?s1) = cs ! j
        \<and> region (ks' ! j) (length (cs ! j)) \<inter> region (dst + ?n) (length (concat cs)) = {}"
      using J sub(2) by (simp del: in_region) blast
  qed
  then obtain s' where s': "copy_parts (length cs) (i + 1) (dst + ?n) ?s1 = Some s'" "mem_bytes (dst + ?n) (length (concat cs)) (kbytes s') = concat cs"
    "\<And>x. x \<notin> region (dst + ?n) (length (concat cs)) \<Longrightarrow> kbytes s' x = kbytes ?s1 x" "kframe ?s1 s'" "totlength s' = totlength ?s1" by blast
  have "mem_bytes dst ?n (kbytes s') = mem_bytes dst ?n (kbytes ?s1)" by (rule mem_bytes_outside [OF s'(3)]) (auto simp: disjoint_iff)
  then have "mem_bytes dst ?tot (kbytes s') = c @ concat cs" using s'(2) cp(1) at(1,3) by (simp add: mem_bytes_append kb)
  moreover have "kbytes s' x = kbytes s x" if "x \<notin> region dst ?tot" for x
  proof -
    have "x \<notin> region dst ?n" "x \<notin> region (dst + ?n) (length (concat cs))" using that sub by blast+
    from s'(3) [OF this(2)] cp(2) [OF this(1)] show ?thesis unfolding kb by (rule trans)
  qed
  moreover have "kframe s ?s1" by (auto simp: kframe_def set_kbytes_def)
  moreover have "copy_parts (length (c # cs)) i dst s = Some s'" using s'(1) Cons.prems(2) by (simp add: at(2) Let_def)
  moreover have "totlength s' = totlength s" using s'(5) by simp
  moreover have "length (concat (c # cs)) = ?tot" "concat (c # cs) = c @ concat cs" by simp_all
  ultimately show ?case using kframe_trans [of s ?s1 s'] s'(4) by metis
qed

lemma put_jpeg:
  assumes "mem_bytes b (length img) m = img" "length img \<ge> 48"
  shows "mem_bytes b (length img) (kb_set_jpeg b p m) = take 40 img @ u64_bytes (of_nat p) @ drop 48 img"
proof (rule nth_equalityI)
  have l: "length (u64_bytes w) = 8" for w by (simp add: u64_bytes_def)
  show "length (mem_bytes b (length img) (kb_set_jpeg b p m)) = length (take 40 img @ u64_bytes (of_nat p) @ drop 48 img)"
    using assms(2) by (simp add: l)
  fix i assume "i < length (mem_bytes b (length img) (kb_set_jpeg b p m))"
  then have i: "i < length img" by simp
  have "m (b + i) = img ! i" using assms(1) i by (metis nth_mem_bytes)
  then show "mem_bytes b (length img) (kb_set_jpeg b p m) ! i = (take 40 img @ u64_bytes (of_nat p) @ drop 48 img) ! i"
    using i assms(2) by (auto simp: kb_set_jpeg_def mem_put_def nth_append l)
qed

lemma header_jpeg: "off \<le> 32 \<Longrightarrow> kb_u64 off b (kb_set_jpeg b p m) = kb_u64 off b m"
  unfolding kb_u64_def kb_set_jpeg_def by (intro arg_cong [of _ _ bytes_u64] mem_bytes_cong) (simp add: mem_put_def)

lemma add_task_ok:
  assumes p: "parts_in s ks cs" and len: "length cs \<le> 64" and dst: "\<forall>j<length cs. region (ks ! j) (length (cs ! j)) \<inter> region b (length (concat cs)) = {}"
    and img: "concat cs = bs @ rest" "image_ok bs (concat cs)" "totlength s = int (length (concat cs))"
  shows "\<exists>s'. add_kpu_task (Some b) (Some t) pid s = Some ((maxid s + 1) mod 8, s') \<and> kpu_tasklist s' = kpu_tasklist s @ [t]
    \<and> kpu_tasks s' = (kpu_tasks s)(t := \<lparr>sflag = sflag (kpu_tasks s t) OR INIT_STATE_BIT, t_id = word_of_int ((maxid s + 1) mod 8), t_input = b,
        t_owner = find_proc pid (kps s)\<rparr>) \<and> maxid s' = (maxid s + 1) mod 8
    \<and> mem_bytes b (length (concat cs)) (kbytes s') = take 40 (concat cs) @ u64_bytes (of_nat (b + 48)) @ drop 48 (concat cs)"
proof -
  let ?img = "concat cs"
  have nb: "numblock s = length cs" "length ks = length cs" using p by (simp_all add: parts_in_def)
  have "\<exists>s'. copy_parts (length cs) 0 b s = Some s' \<and> mem_bytes b (length ?img) (kbytes s') = ?img
    \<and> (\<forall>x. x \<notin> region b (length ?img) \<longrightarrow> kbytes s' x = kbytes s x) \<and> kframe s s' \<and> totlength s' = totlength s"
    by (rule copy_parts_ok [OF nb(2)]) (use p len dst in \<open>simp_all add: parts_in_def\<close>)
  then obtain s1 where s1: "copy_parts (length cs) 0 b s = Some s1" "mem_bytes b (length ?img) (kbytes s1) = ?img" "kframe s s1" "totlength s1 = totlength s"
    by blast
  have h: "length bs \<ge> 48" "length ?img \<ge> 48" using img by (simp_all add: image_ok_def sizeof_kpu_header_def)
  have tot: "kb_totsize b (kbytes s1) = of_nat (length ?img)" and jpg: "kb_jpgsize b (kbytes s1) > 0"
    using header_field [OF s1(2) _ img(1), of 16] header_field [OF s1(2) _ img(1), of 24] h img(2) by (simp_all add: image_ok_def sizeof_kpu_header_def)
  have pos: "totlength s > 0" using img(3) h(2) by linarith
  let ?m = "kb_set_jpeg b (b + 48) (kbytes s1)"
  have f: "find_proc pid (kps (set_kbytes ?m s1)) = find_proc pid (kps s)" "kpu_tasklist s1 = kpu_tasklist s" "kpu_tasks s1 = kpu_tasks s" "maxid s1 = maxid s"
    using s1(3) by (auto simp: kframe_def find_proc_def set_kbytes_def)
  have rec: "k\<lparr>t_id := i, t_input := a, t_owner := w, sflag := g\<rparr> = \<lparr>sflag = g, t_id = i, t_input = a, t_owner = w\<rparr>" for k :: kpu_pool_task and i a w g
    by (cases k) simp
  have "kb_jpgsize b ?m > 0" using jpg by (simp add: header_jpeg)
  then show ?thesis
    using pos s1(1,4) tot put_jpeg [OF s1(2) h(2), of "b + 48"] img(3) f
    by (simp add: rec add_kpu_task_def nb(1) sizeof_kpu_header_def alloc_id_def Let_def upd_task_def task_init_def MAX_TASKNUM_def)
qed

text \<open>
  C37. An image written to the spooler arrives unchanged.  A process writes an image, whose header has the magic number and the size, through one
  buffer in up to 64 parts, of which only the first begins with the magic number.  Then every write but the last returns 0, and the last one wakes the
  controller and gives up the processor; whatever runs in between, as long as it leaves the kernel memory alone, the controller then makes a task for
  exactly this process at the end of its list, whose buffer has the bytes of the image, with the address of the picture data filled in at offset 40.
\<close>

theorem upload_delivers_image:
  assumes "xs = (k, bs) # ys" "img = concat (map snd xs)" "image_ok bs img" "list_all (continues \<circ> snd) ys"
    and "places_ok buf (map fst xs) (map snd xs)" "\<forall>(k, c) \<in> set xs. region k (length c) \<inter> region b (length img) = {}"
  shows "\<exists>s1. upload pid buf xs s = run_kpu_task_add default_sched_class (kps s1) \<bind>
      (\<lambda>p. Some (Kpu_switched, s1\<lparr>kpuio_init := True, kpuio_check := False, kps := p\<rparr>))
    \<and> caller_pid s1 = pid \<and> kpu_tasklist s1 = kpu_tasklist s
    \<and> (\<forall>p. kmem (fsys p) = kbytes s1 \<longrightarrow> (\<exists>s2.
        add_kpu_task (Some b) (Some t) pid (s1\<lparr>kpuio_init := True, kpuio_check := False, kps := p\<rparr>) = Some ((maxid s + 1) mod 8, s2)
        \<and> kpu_tasklist s2 = kpu_tasklist s @ [t] \<and> t_input (kpu_tasks s2 t) = b \<and> t_owner (kpu_tasks s2 t) = find_proc pid p
        \<and> mem_bytes b (length img) (kbytes s2) = take 40 img @ u64_bytes (of_nat (b + 48)) @ drop 48 img))"
proof -
  obtain s1 where s1: "upload pid buf xs s = run_kpu_task_add default_sched_class (kps s1) \<bind>
      (\<lambda>p. Some (Kpu_switched, s1\<lparr>kpuio_init := True, kpuio_check := False, kps := p\<rparr>))"
    "parts_in s1 (map fst xs) (map snd xs)" "kframe s s1" "caller_pid s1 = pid" "totlength s1 = int (length img)"
    using upload_all [OF assms(5,1,2,3,4)] by blast
  have len: "length (map snd xs) \<le> 64" using assms(5) by (simp add: places_ok_def)
  have "region (map fst xs ! j) (length (map snd xs ! j)) \<inter> region b (length (concat (map snd xs))) = {}" if "j < length (map snd xs)" for j
    using assms(6) that by (auto simp: split_beta assms(2) dest: nth_mem)
  then have dst: "\<forall>j<length (map snd xs). region (map fst xs ! j) (length (map snd xs ! j)) \<inter> region b (length (concat (map snd xs))) = {}" by blast
  have "\<exists>s2. add_kpu_task (Some b) (Some t) pid (s1\<lparr>kpuio_init := True, kpuio_check := False, kps := p\<rparr>) = Some ((maxid s + 1) mod 8, s2)
        \<and> kpu_tasklist s2 = kpu_tasklist s @ [t] \<and> t_input (kpu_tasks s2 t) = b \<and> t_owner (kpu_tasks s2 t) = find_proc pid p
        \<and> mem_bytes b (length img) (kbytes s2) = take 40 img @ u64_bytes (of_nat (b + 48)) @ drop 48 img" if p: "kmem (fsys p) = kbytes s1" for p
  proof -
    let ?s = "s1\<lparr>kpuio_init := True, kpuio_check := False, kps := p\<rparr>"
    have "parts_in ?s (map fst xs) (map snd xs)" using s1(2) p by (simp add: parts_in_def)
    from add_task_ok [OF this len dst, of bs "concat (map snd ys)" t pid] show ?thesis
      using assms(1-3) s1(3,5) by (auto simp: kframe_def)
  qed
  then show ?thesis using s1 by (auto simp: kframe_def)
qed

section \<open>Identifiers of tasks\<close>

definition ids_ok :: "'w kpu_st \<Rightarrow> bool" where
  "ids_ok s \<longleftrightarrow> maxid s = int (length (kpu_tasklist s)) mod 8
     \<and> (\<forall>j<length (kpu_tasklist s). t_id (kpu_tasks s (kpu_tasklist s ! j)) = word_of_int ((int j + 1) mod 8))"

lemma small_id: "word_of_int ((int i + 1) mod 8) = (word_of_int ((int j + 1) mod 8) :: u32) \<longleftrightarrow> i mod 8 = j mod 8"
proof -
  have "(int n + 1) mod 8 = int ((n + 1) mod 8)" for n by (simp add: zmod_int add.commute)
  then have "word_of_int ((int n + 1) mod 8) = (of_nat ((n + 1) mod 8) :: u32)" for n by (simp only: of_int_of_nat_eq)
  moreover have "unat (of_nat ((n + 1) mod 8) :: u32) = (n + 1) mod 8" for n by (simp only: unat_of_nat) (simp add: take_bit_nat_eq_self less_trans [OF mod_less_divisor])
  ultimately have "word_of_int ((int i + 1) mod 8) = (word_of_int ((int j + 1) mod 8) :: u32) \<longleftrightarrow> (i + 1) mod 8 = (j + 1) mod 8" by (metis)
  then show ?thesis by (auto simp: mod_Suc split: if_splits)
qed

lemma copy_parts_frame:
  "copy_parts n i d s = Some s' \<Longrightarrow> kpu_tasklist s' = kpu_tasklist s \<and> kpu_tasks s' = kpu_tasks s \<and> maxid s' = maxid s"
proof (induction n i d s rule: copy_parts.induct)
  case (2 n i dst s)
  let ?s1 = "set_kbytes (copy_up dst (bufs s i) (nat (lens s i)) (kbytes s)) s"
  have i: "i < 64" and c: "copy_parts n (i + 1) (dst + nat (lens s i)) (?s1\<lparr>lens := (lens ?s1)(i := 0)\<rparr>) = Some s'"
    using 2(2) by (auto simp: Let_def split: if_splits)
  show ?case using 2(1) [of "()" ?s1, OF _ refl c] i by (simp add: kassert_def)
qed simp

lemma add_task_list:
  assumes "add_kpu_task kb (Some t) pid s = Some (i, s')" "i \<noteq> 99"
  shows "i = (maxid s + 1) mod 8" "maxid s' = i" "kpu_tasklist s' = kpu_tasklist s @ [t]" "t_id (kpu_tasks s' t) = word_of_int i"
    "u \<noteq> t \<Longrightarrow> kpu_tasks s' u = kpu_tasks s u"
  using assms by (auto simp: add_kpu_task_def bind_Some_iff Let_def alloc_id_def upd_task_def task_init_def MAX_TASKNUM_def
      dest!: copy_parts_frame split: if_splits)

lemma ids_ok_add:
  assumes "ids_ok s" "t \<notin> set (kpu_tasklist s)" "add_kpu_task kb (Some t) pid s = Some (i, s')" "i \<noteq> 99"
  shows "ids_ok s'"
proof -
  note A = add_task_list [OF assms(3,4)]
  let ?n = "length (kpu_tasklist s)"
  have i: "i = (int ?n + 1) mod 8" using assms(1) A(1) by (simp add: ids_ok_def mod_simps)
  have "t_id (kpu_tasks s' (kpu_tasklist s' ! j)) = word_of_int ((int j + 1) mod 8)" if "j < length (kpu_tasklist s')" for j
  proof (cases "j < ?n")
    case True
    then have "kpu_tasklist s ! j \<noteq> t" using assms(2) nth_mem by metis
    then show ?thesis using True assms(1) A(3,5) by (simp add: nth_append ids_ok_def)
  next
    case False
    then show ?thesis using that A(3,4) i by (simp add: nth_append less_Suc_eq)
  qed
  then show ?thesis using A(2,3) i by (simp add: ids_ok_def add.commute)
qed

text \<open>
  C38. The identifiers of the spooler's tasks repeat after eight tasks, and a task is started by its identifier.  The controller begins with consistent
  identifiers and every added task keeps them so; but tasks are never taken off the list, so that as soon as eight have been added, the controller
  starts, for every further task, the first of the first eight tasks with the same identifier once more, and never the new one.
\<close>

theorem task_ids_collide:
  assumes "ids_ok s" "t \<notin> set (kpu_tasklist s)" "add_kpu_task kb (Some t) pid s = Some (i, s')" "i \<noteq> 99"
  shows "ids_ok (kpu_spooling_init s0) \<and> ids_ok s' \<and> (length (kpu_tasklist s) \<ge> 8 \<longrightarrow>
    (let old = kpu_tasklist s ! (length (kpu_tasklist s) mod 8) in old \<noteq> t \<and>
      try_run_task e i s' = do { q \<leftarrow> owner_pid s' old; (_, s1) \<leftarrow> add_runtest_thread e old s'; q1 \<leftarrow> owner_pid s1 old; Some (q1, s1) }))"
proof -
  note A = add_task_list [OF assms(3,4)] and ids = ids_ok_add [OF assms]
  let ?n = "length (kpu_tasklist s)" and ?P = "\<lambda>u. t_id (kpu_tasks s' u) = word_of_int i"
  have i: "i = (int ?n + 1) mod 8" using assms(1) A(1) by (simp add: ids_ok_def mod_simps)
  have "find ?P (kpu_tasklist s') = Some (kpu_tasklist s ! (?n mod 8))" "kpu_tasklist s ! (?n mod 8) \<noteq> t" if "?n \<ge> 8"
  proof -
    have m: "?n mod 8 < ?n" using that by (meson less_le_trans mod_less_divisor zero_less_numeral)
    have P: "?P (kpu_tasklist s' ! j) \<longleftrightarrow> j mod 8 = ?n mod 8" if "j \<le> ?n" for j
      using ids that A(3) small_id [of j ?n] i by (simp add: ids_ok_def)
    have "?P (kpu_tasklist s' ! (?n mod 8))" "\<forall>j<?n mod 8. \<not> ?P (kpu_tasklist s' ! j)" using P m by auto
    moreover have "kpu_tasklist s' ! (?n mod 8) = kpu_tasklist s ! (?n mod 8)" "?n mod 8 < length (kpu_tasklist s')" using A(3) m by (simp_all add: nth_append)
    ultimately show "find ?P (kpu_tasklist s') = Some (kpu_tasklist s ! (?n mod 8))" unfolding find_Some_iff by metis
    show "kpu_tasklist s ! (?n mod 8) \<noteq> t" using m assms(2) nth_mem by metis
  qed
  moreover have "ids_ok (kpu_spooling_init s0)" by (simp add: ids_ok_def kpu_spooling_init_def)
  ultimately show ?thesis using ids by (simp add: try_run_task_def Let_def)
qed

section \<open>Examples\<close>

definition example_head :: "u8 list" where
  "example_head = kpu_magic @ replicate 8 0 @ u64_bytes 60 @ u64_bytes 12 @ replicate 16 0"

definition example_rest :: "u8 list" where
  "example_rest = map of_nat [1..<13]"

lemma example_image: "image_ok example_head (example_head @ example_rest)" "length example_head = 48" "length example_rest = 12" "continues example_rest"
  by code_simp+

theorem upload_delivers_image_witness:
  "\<forall>s :: unit kpu_st. \<exists>s1. upload 5 0x1000 [(0x2000, example_head), (0x3000, example_rest)] s = run_kpu_task_add default_sched_class (kps s1) \<bind>
      (\<lambda>p. Some (Kpu_switched, s1\<lparr>kpuio_init := True, kpuio_check := False, kps := p\<rparr>))
    \<and> (\<exists>s2. add_kpu_task (Some 0x4000) (Some 7) 5 (s1\<lparr>kpuio_init := True, kpuio_check := False, kps := kps s1\<rparr>) = Some ((maxid s + 1) mod 8, s2)
        \<and> kpu_tasklist s2 = kpu_tasklist s @ [7] \<and> mem_bytes 0x4000 60 (kbytes s2) = take 40 example_head @ u64_bytes 0x4030 @ example_rest)"
proof
  fix s :: "unit kpu_st"
  let ?xs = "[(0x2000, example_head), (0x3000, example_rest)]"
  have pl: "places_ok 0x1000 (map fst ?xs) (map snd ?xs)"
    using example_image by (auto simp: places_ok_def less_Suc_eq disjoint_iff)
  have d: "\<forall>(k, c) \<in> set ?xs. region k (length c) \<inter> region 0x4000 (length (example_head @ example_rest)) = {}"
    using example_image by (auto simp: disjoint_iff)
  have i: "example_head @ example_rest = concat (map snd ?xs)" "list_all (continues \<circ> snd) [(0x3000, example_rest)]" using example_image by simp_all
  from upload_delivers_image [OF refl i(1) example_image(1) i(2) pl d, where s = s and pid = 5 and t = 7]
  obtain s1 where s1: "upload 5 0x1000 ?xs s = run_kpu_task_add default_sched_class (kps s1) \<bind>
      (\<lambda>p. Some (Kpu_switched, s1\<lparr>kpuio_init := True, kpuio_check := False, kps := p\<rparr>))"
    "\<forall>p. kmem (fsys p) = kbytes s1 \<longrightarrow> (\<exists>s2.
        add_kpu_task (Some 0x4000) (Some 7) 5 (s1\<lparr>kpuio_init := True, kpuio_check := False, kps := p\<rparr>) = Some ((maxid s + 1) mod 8, s2)
        \<and> kpu_tasklist s2 = kpu_tasklist s @ [7] \<and> t_input (kpu_tasks s2 7) = 0x4000 \<and> t_owner (kpu_tasks s2 7) = find_proc 5 p
        \<and> mem_bytes 0x4000 (length (example_head @ example_rest)) (kbytes s2)
          = take 40 (example_head @ example_rest) @ u64_bytes (of_nat (0x4000 + 48)) @ drop 48 (example_head @ example_rest))" by blast
  have "kmem (fsys (kps s1)) = kbytes s1" by (simp add: kbytes_def)
  with s1(2) show "\<exists>s1. upload 5 0x1000 ?xs s = run_kpu_task_add default_sched_class (kps s1) \<bind>
      (\<lambda>p. Some (Kpu_switched, s1\<lparr>kpuio_init := True, kpuio_check := False, kps := p\<rparr>))
    \<and> (\<exists>s2. add_kpu_task (Some 0x4000) (Some 7) 5 (s1\<lparr>kpuio_init := True, kpuio_check := False, kps := kps s1\<rparr>) = Some ((maxid s + 1) mod 8, s2)
        \<and> kpu_tasklist s2 = kpu_tasklist s @ [7] \<and> mem_bytes 0x4000 60 (kbytes s2) = take 40 example_head @ u64_bytes 0x4030 @ example_rest)"
    using s1(1) example_image(2,3) by (intro exI [of _ s1]) auto
qed

text \<open>The controller with eight tasks, at the addresses 0 to 7, and a further image in one part.\<close>

definition example_kpu :: "unit kpu_st \<Rightarrow> unit kpu_st" where
  "example_kpu s = (set_kbytes (mem_put 0x1000 (example_head @ example_rest) (kbytes s)) s)\<lparr>kpu_tasklist := [0..<8],
     kpu_tasks := (\<lambda>u. \<lparr>sflag = 1, t_id = word_of_int ((int u + 1) mod 8), t_input = 0, t_owner = None\<rparr>), maxid := 0,
     numblock := 1, bufs := (\<lambda>_. 0x1000), lens := (\<lambda>_. 60), totlength := 60, sumlen := 60\<rparr>"

theorem task_ids_collide_witness:
  "\<forall>s :: unit kpu_st. \<exists>s'. add_kpu_task (Some 0x4000) (Some 8) 5 (example_kpu s) = Some (1, s') \<and> t_id (kpu_tasks s' 8) = 1 \<and>
     (\<forall>e. try_run_task e 1 s' = do { q \<leftarrow> owner_pid s' 0; (_, s1) \<leftarrow> add_runtest_thread e 0 s'; q1 \<leftarrow> owner_pid s1 0; Some (q1, s1) })"
proof
  fix s :: "unit kpu_st"
  let ?s = "example_kpu s" and ?img = "example_head @ example_rest"
  have p: "parts_in ?s [0x1000] [?img]" using mem_bytes_put [where a = "0x1000" and bs = "?img"] example_image(2,3) by (simp add: parts_in_def example_kpu_def)
  have "\<exists>s'. add_kpu_task (Some 0x4000) (Some 8) 5 ?s = Some ((maxid ?s + 1) mod 8, s') \<and> kpu_tasklist s' = kpu_tasklist ?s @ [8]
    \<and> kpu_tasks s' = (kpu_tasks ?s)(8 := \<lparr>sflag = sflag (kpu_tasks ?s 8) OR INIT_STATE_BIT, t_id = word_of_int ((maxid ?s + 1) mod 8), t_input = 0x4000,
        t_owner = find_proc 5 (kps ?s)\<rparr>) \<and> maxid s' = (maxid ?s + 1) mod 8
    \<and> mem_bytes 0x4000 (length (concat [?img])) (kbytes s') = take 40 (concat [?img]) @ u64_bytes (of_nat (0x4000 + 48)) @ drop 48 (concat [?img])"
    by (rule add_task_ok [OF p, where bs = example_head and rest = example_rest])
      (use example_image in \<open>auto simp: example_kpu_def disjoint_iff\<close>)
  then obtain s' where s': "add_kpu_task (Some 0x4000) (Some 8) 5 ?s = Some (1, s')" "t_id (kpu_tasks s' 8) = 1"
    by (auto simp: example_kpu_def)
  have ids: "ids_ok ?s" "(8::nat) \<notin> set (kpu_tasklist ?s)" "length (kpu_tasklist ?s) = 8" "kpu_tasklist ?s ! 0 = 0"
    by (simp_all add: ids_ok_def example_kpu_def)
  show "\<exists>s'. add_kpu_task (Some 0x4000) (Some 8) 5 ?s = Some (1, s') \<and> t_id (kpu_tasks s' 8) = 1 \<and>
     (\<forall>e. try_run_task e 1 s' = do { q \<leftarrow> owner_pid s' 0; (_, s1) \<leftarrow> add_runtest_thread e 0 s'; q1 \<leftarrow> owner_pid s1 0; Some (q1, s1) })"
    using task_ids_collide [OF ids(1,2) s'(1), of s] s' ids(3,4) by (intro exI [of _ s']) (auto simp: Let_def)
qed

end
