(* ===== verification/Exec.thy ===== *)
theory Exec
  imports Sysfile Printfmt
begin

text \<open>
  Loading of programs: \<open>do_execve\<close> and \<open>load_icode\<close> of \<^verbatim>\<open>kern/process/proc.c\<close> with \<^verbatim>\<open>libs/elf.h\<close>.  As for the file system calls, the
  bytes of kernel memory and of the caller's address space are \<open>kmem\<close>; the pages of the program are written at their kernel
  addresses, and the arguments, after the switch to the new address space, at user addresses.

  \<open>exec_env\<close> has the answers of \<^verbatim>\<open>kmalloc\<close> during one call and the addresses of the local variables on the kernel stack.
  The copies of the arguments go back to the kernel heap with \<^verbatim>\<open>put_kargv\<close>, which changes nothing of this state.
\<close>

section \<open>Program files\<close>

definition ELF_MAGIC :: u32 where "ELF_MAGIC = 0x464C457F"
definition ELF_PT_LOAD :: u32 where "ELF_PT_LOAD = 1"
definition ELF_PF_X :: u32 where "ELF_PF_X = 1"
definition ELF_PF_W :: u32 where "ELF_PF_W = 2"
definition ELF_PF_R :: u32 where "ELF_PF_R = 4"
definition EXEC_MAX_ARG_NUM :: int where "EXEC_MAX_ARG_NUM = 32"
definition EXEC_MAX_ARG_LEN :: nat where "EXEC_MAX_ARG_LEN = 4095"
definition USTACKTOP :: u64 where "USTACKTOP = USERTOP"
definition USTACKPAGE :: u64 where "USTACKPAGE = 256"
definition USTACKSIZE :: u64 where "USTACKSIZE = USTACKPAGE * PGSIZE"

definition load_u32 :: "nat \<Rightarrow> mem \<Rightarrow> u32" where
  "load_u32 a m = word_of_int (\<Sum>i<4. uint (m (a + i)) * 2 ^ (8 * i))"

definition load_u16 :: "nat \<Rightarrow> mem \<Rightarrow> u16" where
  "load_u16 a m = word_of_int (\<Sum>i<2. uint (m (a + i)) * 2 ^ (8 * i))"

text \<open>The fields of the two headers that the loader reads.\<close>

record elfhdr =
  e_magic :: u32
  e_entry :: u64
  e_phoff :: u64
  e_phnum :: u16

record proghdr =
  ph_type :: u32
  ph_flags :: u32
  ph_offset :: u64
  ph_va :: u64
  ph_filesz :: u64
  ph_memsz :: u64

definition elfhdr_at :: "u64 \<Rightarrow> mem \<Rightarrow> elfhdr" where
  "elfhdr_at a m = \<lparr>e_magic = load_u32 (unat a) m, e_entry = load_u64 (unat a + 24) m, e_phoff = load_u64 (unat a + 32) m,
     e_phnum = load_u16 (unat a + 56) m\<rparr>"

definition proghdr_at :: "u64 \<Rightarrow> mem \<Rightarrow> proghdr" where
  "proghdr_at a m = \<lparr>ph_type = load_u32 (unat a) m, ph_flags = load_u32 (unat a + 4) m, ph_offset = load_u64 (unat a + 8) m,
     ph_va = load_u64 (unat a + 16) m, ph_filesz = load_u64 (unat a + 32) m, ph_memsz = load_u64 (unat a + 40) m\<rparr>"

definition sizeof_elfhdr :: u64 where "sizeof_elfhdr = 64"
definition sizeof_proghdr :: u64 where "sizeof_proghdr = 56"

record exec_env =
  x_mm :: "ptr option"
  x_vma :: "nat \<Rightarrow> bool"
  x_io :: "u64 \<Rightarrow> u64 option"
  x_path :: "u64 option"
  x_arg :: "nat \<Rightarrow> u64 option"
  x_elf :: u64
  x_ph :: u64
  x_name :: u64

definition pmem :: "'w proc_st \<Rightarrow> mem" where
  "pmem s = kmem (fsys s)"

definition set_pmem :: "mem \<Rightarrow> 'w proc_st \<Rightarrow> 'w proc_st" where
  "set_pmem m s = s\<lparr>fsys := (fsys s)\<lparr>kmem := m\<rparr>\<rparr>"

definition load_icode_read ::
  "'w fs_st_scheme vtab \<Rightarrow> u64 option \<Rightarrow> int \<Rightarrow> u64 \<Rightarrow> u64 \<Rightarrow> u64 \<Rightarrow> 'w proc_st \<Rightarrow> (int \<times> 'w proc_st) option" where
  "load_icode_read T k fd buf len offset s = do {
     (ret, s1) \<leftarrow> sysfile_seek T fd offset LSEEK_SET s;
     if ret \<noteq> 0 then Some (ret, s1)
     else do {
       (ret2, s2) \<leftarrow> sysfile_read T k fd buf len s1;
       Some (if word_of_int ret2 \<noteq> len then (if ret2 < 0 then ret2 else - 1) else 0, s2)
     }
   }"

section \<open>Segments\<close>

definition seg_flags :: "proghdr \<Rightarrow> u32" where
  "seg_flags ph = (if ph_flags ph AND ELF_PF_X \<noteq> 0 then VM_EXEC else 0) OR (if ph_flags ph AND ELF_PF_W \<noteq> 0 then VM_WRITE else 0)
     OR (if ph_flags ph AND ELF_PF_R \<noteq> 0 then VM_READ else 0)"

definition seg_perm :: "u32 \<Rightarrow> u32" where
  "seg_perm fl = PTE_U OR PTE_V OR (if fl AND VM_READ \<noteq> 0 then PTE_R else 0) OR (if fl AND VM_WRITE \<noteq> 0 then PTE_W OR PTE_R else 0)
     OR (if fl AND VM_EXEC \<noteq> 0 then PTE_X else 0)"

text \<open>The part of the page at \<open>la\<close> that is between \<open>start\<close> and \<open>end\<close>.\<close>

definition page_part :: "u64 \<Rightarrow> u64 \<Rightarrow> u64 \<Rightarrow> u64" where
  "page_part start end la = (let sz = PGSIZE - (start - la) in if end < la + PGSIZE then sz - (la + PGSIZE - end) else sz)"

definition new_page :: "ptr \<Rightarrow> u64 \<Rightarrow> u32 \<Rightarrow> 'w proc_st \<Rightarrow> (nat option \<times> 'w proc_st) option" where
  "new_page m la perm s = do {
     mm \<leftarrow> mms s m;
     dir \<leftarrow> pgdir mm;
     (page, v) \<leftarrow> pgdir_alloc_page dir la perm (vm (swp s));
     Some (page, s\<lparr>swp := (swp s)\<lparr>vm := v\<rparr>\<rparr>)
   }"

text \<open>
  The first \<^verbatim>\<open>while\<close> loop: pages with contents of the file.  The results are the return code, \<^verbatim>\<open>start\<close>, \<^verbatim>\<open>la\<close> and the last page.
\<close>

partial_function (option) load_file_pages ::
    "'w fs_st_scheme vtab \<Rightarrow> exec_env \<Rightarrow> int \<Rightarrow> ptr \<Rightarrow> u32 \<Rightarrow> u64 \<Rightarrow> u64 \<Rightarrow> u64 \<Rightarrow> u64 \<Rightarrow> nat option \<Rightarrow> 'w proc_st \<Rightarrow>
     (int \<times> u64 \<times> u64 \<times> nat option \<times> 'w proc_st) option" where
  "load_file_pages T e fd m perm end start la offset page s =
     (if start < end then do {
        (p, s1) \<leftarrow> new_page m la perm s;
        (case p of None \<Rightarrow> Some (- E_NO_MEM, start, la, page, s1)
         | Some pg \<Rightarrow> do {
             kva \<leftarrow> page2kva pg;
             let sz = page_part start end la;
             (ret, s2) \<leftarrow> load_icode_read T (x_io e offset) fd (kva + (start - la)) sz offset s1;
             if ret \<noteq> 0 then Some (ret, start, la + PGSIZE, Some pg, s2)
             else load_file_pages T e fd m perm end (start + sz) (la + PGSIZE) (offset + sz) (Some pg) s2
           })
      }
      else Some (0, start, la, page, s))"

text \<open>The second loop: pages of zeroes.\<close>

partial_function (option) load_zero_pages ::
    "ptr \<Rightarrow> u32 \<Rightarrow> u64 \<Rightarrow> u64 \<Rightarrow> u64 \<Rightarrow> 'w proc_st \<Rightarrow> (int \<times> 'w proc_st) option" where
  "load_zero_pages m perm end start la s =
     (if start < end then do {
        (p, s1) \<leftarrow> new_page m la perm s;
        (case p of None \<Rightarrow> Some (- E_NO_MEM, s1)
         | Some pg \<Rightarrow> do {
             kva \<leftarrow> page2kva pg;
             let sz = page_part start end la;
             load_zero_pages m perm end (start + sz) (la + PGSIZE) (set_pmem (memset (unat (kva + (start - la))) 0 (unat sz) (pmem s1)) s1)
           })
      }
      else Some (0, s))"

declare load_file_pages.simps [code] load_zero_pages.simps [code]

text \<open>The rest of the last page with contents of the file is cleared; then the pages of zeroes follow.\<close>

definition load_bss :: "ptr \<Rightarrow> u32 \<Rightarrow> u64 \<Rightarrow> u64 \<Rightarrow> u64 \<Rightarrow> nat option \<Rightarrow> 'w proc_st \<Rightarrow> (int \<times> 'w proc_st) option" where
  "load_bss m perm end start la page s =
     (if start < la then
        if start = end then Some (0, s)
        else do {
          pg \<leftarrow> page;
          kva \<leftarrow> page2kva pg;
          let off = start + PGSIZE - la;
          let sz = (if end < la then PGSIZE - off - (la - end) else PGSIZE - off);
          let s1 = set_pmem (memset (unat (kva + off)) 0 (unat sz) (pmem s)) s;
          kassert (end < la \<and> start + sz = end \<or> end \<ge> la \<and> start + sz = la);
          load_zero_pages m perm end (start + sz) la s1
        }
      else load_zero_pages m perm end start la s)"

definition load_segment ::
  "'w fs_st_scheme vtab \<Rightarrow> exec_env \<Rightarrow> int \<Rightarrow> ptr \<Rightarrow> nat \<Rightarrow> proghdr \<Rightarrow> 'w proc_st \<Rightarrow> (int \<times> 'w proc_st) option" where
  "load_segment T e fd m i ph s =
     (if ph_type ph \<noteq> ELF_PT_LOAD then Some (0, s)
      else if ph_filesz ph > ph_memsz ph then Some (- E_INVAL_ELF, s)
      else do {
        let fl = seg_flags ph;
        mm \<leftarrow> mms s m;
        (ret, _, mm1) \<leftarrow> mm_map (x_vma e i) mm (ph_va ph) (ph_memsz ph) fl;
        let s1 = s\<lparr>mms := (mms s)(m \<mapsto> mm1)\<rparr>;
        if ret \<noteq> 0 then Some (ret, s1)
        else do {
          (ret2, start, la, page, s2) \<leftarrow>
            load_file_pages T e fd m (seg_perm fl) (ph_va ph + ph_filesz ph) (ph_va ph) (ROUNDDOWN (ph_va ph) PGSIZE) (ph_offset ph) None s1;
          if ret2 \<noteq> 0 then Some (ret2, s2)
          else load_bss m (seg_perm fl) (ph_va ph + ph_memsz ph) start la page s2
        }
      })"

text \<open>The program headers \<open>i\<close>, \<open>i + 1\<close>, \<dots>; \<open>n\<close> are left.\<close>

fun load_segments ::
  "nat \<Rightarrow> 'w fs_st_scheme vtab \<Rightarrow> exec_env \<Rightarrow> int \<Rightarrow> ptr \<Rightarrow> u64 \<Rightarrow> nat \<Rightarrow> 'w proc_st \<Rightarrow> (int \<times> 'w proc_st) option" where
  "load_segments 0 T e fd m phoff i s = Some (0, s)"
| "load_segments (Suc n) T e fd m phoff i s = do {
     let off = phoff + sizeof_proghdr * of_nat i;
     (ret, s1) \<leftarrow> load_icode_read T (x_io e off) fd (x_ph e) sizeof_proghdr off s;
     if ret \<noteq> 0 then Some (ret, s1)
     else do {
       (ret2, s2) \<leftarrow> load_segment T e fd m i (proghdr_at (x_ph e) (pmem s1)) s1;
       if ret2 \<noteq> 0 then Some (ret2, s2) else load_segments n T e fd m phoff (i + 1) s2
     }
   }"

section \<open>Arguments\<close>

text \<open>\<open>uargv[i] = strcpy(...)\<close> for the arguments \<open>i\<close>, \<open>i + 1\<close>, \<dots>; \<open>sz\<close> is \<^verbatim>\<open>argv_size\<close>.\<close>

definition arg_len :: "mem \<Rightarrow> u64 \<Rightarrow> u32" where
  "arg_len m k = of_nat (strnlen m (unat k) (EXEC_MAX_ARG_LEN + 1) + 1)"

fun put_args :: "u64 \<Rightarrow> u64 \<Rightarrow> u32 \<Rightarrow> nat \<Rightarrow> u64 list \<Rightarrow> mem \<Rightarrow> mem option" where
  "put_args stacktop uargv sz i [] m = Some m"
| "put_args stacktop uargv sz i (k # ks) m = do {
     let p = stacktop + ucast sz;
     m1 \<leftarrow> strcpy (unat p) (unat k) m;
     let m2 = store_bytes (unat (uargv + of_nat (8 * i))) 8 p m1;
     put_args stacktop uargv (sz + arg_len m2 k) (i + 1) ks m2
   }"

text \<open>The result is the stack pointer, at which the number of arguments is stored, followed by their addresses.\<close>

definition setup_args :: "u64 list \<Rightarrow> mem \<Rightarrow> (u64 \<times> mem) option" where
  "setup_args kargv m = do {
     let argv_size = sum_list (map (arg_len m) kargv);
     let stacktop = USTACKTOP - (ucast argv_size div 8 + 1) * 8;
     let uargv = stacktop - of_nat (8 * length kargv);
     m1 \<leftarrow> put_args stacktop uargv 0 0 kargv m;
     let sp = uargv - 8;
     Some (sp, store_bytes (unat sp) 8 (of_nat (length kargv)) m1)
   }"

section \<open>exec\<close>

text \<open>The last part of \<open>load_icode\<close>: the stack, the switch to the new address space, the arguments and the trap frame.\<close>

fun stack_pages :: "ptr \<Rightarrow> nat list \<Rightarrow> 'w proc_st \<Rightarrow> 'w proc_st option" where
  "stack_pages m [] s = Some s"
| "stack_pages m (i # is) s = do {
     (p, s1) \<leftarrow> new_page m (USTACKTOP - of_nat i * PGSIZE) PTE_USER s;
     kassert (p \<noteq> None);
     stack_pages m is s1
   }"

definition enter_program :: "exec_env \<Rightarrow> ptr \<Rightarrow> u64 list \<Rightarrow> 'w proc_st \<Rightarrow> 'w proc_st option" where
  "enter_program e m kargv s = do {
     cur \<leftarrow> current s;
     let s1 = mm_count_add m 1 s;
     mm \<leftarrow> mms s1 m;
     dir \<leftarrow> pgdir mm;
     let s2 = (upd_proc cur (\<lambda>q. q\<lparr>p_mm := Some m, p_cr3 := page2pa dir\<rparr>) s1)\<lparr>cr3_reg := page2pa dir\<rparr>;
     (sp, m1) \<leftarrow> setup_args kargv (pmem s2);
     let s3 = set_pmem m1 s2;
     let t = tf_ptrs s3 cur;
     let old = tf_status (tframes s3 t);
     Some (s3\<lparr>tframes := (tframes s3)(t := \<lparr>gpr_sp = sp, gpr_s0 = 0, gpr_s1 = 0, gpr_a0 = 0, gpr_other = (\<lambda>_. 0),
       tf_status = old AND NOT (SSTATUS_SPP OR SSTATUS_SPIE), tf_epc = e_entry (elfhdr_at (x_elf e) (pmem s3)), tf_tval = 0, tf_cause = 0\<rparr>)\<rparr>)
   }"

text \<open>The labels at the end of \<open>load_icode\<close>.\<close>

definition bad_cleanup_mm :: "ptr \<Rightarrow> int \<Rightarrow> 'w proc_st \<Rightarrow> (int \<times> 'w proc_st) option" where
  "bad_cleanup_mm m ret s = do { s1 \<leftarrow> proc_mm_destroy m s; Some (ret, s1) }"

definition bad_cleanup_pgdir :: "ptr \<Rightarrow> int \<Rightarrow> 'w proc_st \<Rightarrow> (int \<times> 'w proc_st) option" where
  "bad_cleanup_pgdir m ret s = do { s1 \<leftarrow> put_pgdir m s; bad_cleanup_mm m ret s1 }"

definition bad_cleanup_mmap :: "ptr \<Rightarrow> int \<Rightarrow> 'w proc_st \<Rightarrow> (int \<times> 'w proc_st) option" where
  "bad_cleanup_mmap m ret s = do { s1 \<leftarrow> proc_exit_mmap m s; bad_cleanup_pgdir m ret s1 }"

definition load_icode :: "'w fs_st_scheme vtab \<Rightarrow> exec_env \<Rightarrow> int \<Rightarrow> u64 list \<Rightarrow> 'w proc_st \<Rightarrow> (int \<times> 'w proc_st) option" where
  "load_icode T e fd kargv s = do {
     kassert (int (length kargv) \<le> EXEC_MAX_ARG_NUM);
     cur \<leftarrow> current s;
     kassert (p_mm (proc_of cur s) = None);
     (case mm_create (x_mm e \<noteq> None) (swp s) of
        (None, sw) \<Rightarrow> Some (- E_NO_MEM, s\<lparr>swp := sw\<rparr>)
      | (Some mm0, sw) \<Rightarrow> do {
          m \<leftarrow> x_mm e;
          (r1, s1) \<leftarrow> setup_pgdir m (s\<lparr>swp := sw, mms := (mms s)(m \<mapsto> mm0), mm_locked := (mm_locked s)(m := None)\<rparr>);
          if r1 \<noteq> 0 then bad_cleanup_mm m (- E_NO_MEM) s1
          else do {
            (r2, s2) \<leftarrow> load_icode_read T (x_io e 0) fd (x_elf e) sizeof_elfhdr 0 s1;
            if r2 \<noteq> 0 then bad_cleanup_pgdir m r2 s2
            else do {
              let elf = elfhdr_at (x_elf e) (pmem s2);
              if e_magic elf \<noteq> ELF_MAGIC then bad_cleanup_pgdir m (- E_INVAL_ELF) s2
              else do {
                (r3, s3) \<leftarrow> load_segments (unat (e_phnum elf)) T e fd m (e_phoff elf) 0 s2;
                if r3 \<noteq> 0 then bad_cleanup_mmap m r3 s3
                else do {
                  (_, s4) \<leftarrow> sysfile_close T fd s3;
                  mm \<leftarrow> mms s4 m;
                  (r5, _, mm1) \<leftarrow> mm_map (x_vma e (unat (e_phnum elf))) mm (USTACKTOP - USTACKSIZE) USTACKSIZE (VM_READ OR VM_WRITE OR VM_STACK);
                  let s5 = s4\<lparr>mms := (mms s4)(m \<mapsto> mm1)\<rparr>;
                  if r5 \<noteq> 0 then bad_cleanup_mmap m r5 s5
                  else do {
                    s6 \<leftarrow> stack_pages m [1, 2, 3, 4] s5;
                    s7 \<leftarrow> enter_program e m kargv s6;
                    Some (0, s7)
                  }
                }
              }
            }
          }
        })
   }"

text \<open>A copy routine on the caller's address space, whose lock is held.\<close>

definition in_mm :: "(mm_struct option \<Rightarrow> mem \<Rightarrow> (bool \<times> mm_struct option \<times> mem) option) \<Rightarrow> 'w proc_st \<Rightarrow> (bool \<times> 'w proc_st) option" where
  "in_mm f s = do {
     cur \<leftarrow> current s;
     let m = p_mm (proc_of cur s);
     (ok, mm1, mem1) \<leftarrow> f (m \<bind> mms s) (pmem s);
     Some (ok, set_pmem mem1 (case m of None \<Rightarrow> s | Some q \<Rightarrow> s\<lparr>mms := (mms s)(q := mm1)\<rparr>))
   }"

text \<open>The loop of \<open>copy_kargv\<close>; \<open>n\<close> arguments are left.\<close>

fun copy_kargv_loop :: "nat \<Rightarrow> exec_env \<Rightarrow> nat \<Rightarrow> u64 \<Rightarrow> u64 list \<Rightarrow> 'w proc_st \<Rightarrow> (int \<times> u64 list \<times> 'w proc_st) option" where
  "copy_kargv_loop 0 e i argv ks s = Some (0, ks, s)"
| "copy_kargv_loop (Suc n) e i argv ks s =
     (case x_arg e i of None \<Rightarrow> Some (- E_NO_MEM, [], s)
      | Some buffer \<Rightarrow> do {
          (ok, s1) \<leftarrow> in_mm (\<lambda>mm. copy_string mm buffer (load_u64 (unat (argv + of_nat (8 * i))) (pmem s)) (of_nat (EXEC_MAX_ARG_LEN + 1))) s;
          if ok then copy_kargv_loop n e (i + 1) argv (ks @ [buffer]) s1 else Some (- E_INVAL, [], s1)
        })"

definition copy_kargv :: "exec_env \<Rightarrow> int \<Rightarrow> u64 \<Rightarrow> 'w proc_st \<Rightarrow> (int \<times> u64 list \<times> 'w proc_st) option" where
  "copy_kargv e argc argv s = do {
     (ok, s1) \<leftarrow> in_mm (\<lambda>mm m. do { (b, mm1) \<leftarrow> user_mem_check mm argv (8 * word_of_int argc) False; Some (b, mm1, m) }) s;
     if \<not> ok then Some (- E_INVAL, [], s1) else copy_kargv_loop (nat argc) e 0 argv [] s1
   }"

text \<open>The name of the process, in the local array of 16 bytes that was cleared before.\<close>

definition exec_name :: "u64 \<Rightarrow> u64 \<Rightarrow> 'w proc_st \<Rightarrow> (bool \<times> 'w proc_st) option" where
  "exec_name local name s = do {
     cur \<leftarrow> current s;
     let s1 = set_pmem (memset (unat local) 0 (PROC_NAME_LEN + 1) (pmem s)) s;
     if name = 0 then do {
       (_, m) \<leftarrow> snprintf (unat local) (PROC_NAME_LEN + 1) (bytes ''<null> %d'') [VInt (word_of_int (p_pid (proc_of cur s)))] (pmem s1);
       Some (True, set_pmem m s1)
     }
     else in_mm (\<lambda>mm. copy_string mm local name (of_nat (PROC_NAME_LEN + 1))) s1
   }"

definition name_at :: "u64 \<Rightarrow> mem \<Rightarrow> string" where
  "name_at a m = map (\<lambda>b. char_of (unat b)) (takeWhile (\<lambda>b. b \<noteq> 0) (map (\<lambda>i. m (unat a + i)) [0..<Suc PROC_NAME_LEN]))"

text \<open>The old address space is given up once the program file is open.\<close>

definition leave_old_mm :: "'w proc_st \<Rightarrow> 'w proc_st option" where
  "leave_old_mm s = do {
     cur \<leftarrow> current s;
     case p_mm (proc_of cur s) of None \<Rightarrow> Some s
     | Some m \<Rightarrow> do {
         let s1 = mm_count_add m (- 1) (s\<lparr>cr3_reg := boot_cr3 s\<rparr>);
         mm \<leftarrow> mms s1 m;
         s2 \<leftarrow> (if mm_count mm = 0 then do { a \<leftarrow> proc_exit_mmap m s1; b \<leftarrow> put_pgdir m a; proc_mm_destroy m b } else Some s1);
         Some (upd_proc cur (\<lambda>q. q\<lparr>p_mm := None\<rparr>) s2)
       }
   }"

datatype exec_result = Exec_ret int | Exec_exited

definition do_execve ::
  "'w fs_st_scheme vtab \<Rightarrow> exec_env \<Rightarrow> u64 \<Rightarrow> int \<Rightarrow> u64 \<Rightarrow> 'w proc_st \<Rightarrow> (exec_result \<times> 'w proc_st) option" where
  "do_execve T e name argc argv s =
     (if \<not> (1 \<le> argc \<and> argc \<le> EXEC_MAX_ARG_NUM) then Some (Exec_ret (- E_INVAL), s)
      else do {
        s1 \<leftarrow> lock_current_mm s;
        (ok, s2) \<leftarrow> exec_name (x_name e) name s1;
        if \<not> ok then do { s3 \<leftarrow> unlock_current_mm s2; Some (Exec_ret (- E_INVAL), s3) }
        else do {
          (ret, kargv, s3) \<leftarrow> copy_kargv e argc argv s2;
          if ret \<noteq> 0 then do { s4 \<leftarrow> unlock_current_mm s3; Some (Exec_ret ret, s4) }
          else do {
            let path = load_u64 (unat argv) (pmem s3);
            s4 \<leftarrow> unlock_current_mm s3;
            cur \<leftarrow> current s4;
            q \<leftarrow> p_filesp (proc_of cur s4);
            s5 \<leftarrow> with_fs (files_closeall T q) s4;
            (fd, s6) \<leftarrow> sysfile_open T (x_path e) path O_RDONLY s5;
            if fd < 0 then do { s7 \<leftarrow> do_exit T fd s6; Some (Exec_exited, s7) }
            else do {
              s7 \<leftarrow> leave_old_mm s6;
              (ret2, s8) \<leftarrow> load_icode T e fd kargv s7;
              if ret2 \<noteq> 0 then do { s9 \<leftarrow> do_exit T ret2 s8; Some (Exec_exited, s9) }
              else Some (Exec_ret 0, set_proc_name cur (name_at (x_name e) (pmem s8)) s8)
            }
          }
        }
      })"

end
