(* ===== verification/ExecArgs.thy ===== *)
theory ExecArgs
  imports Exec
begin

text \<open>
  The arguments of a new program: where \<open>load_icode\<close> puts them on the user stack, and that they arrive.
\<close>

section \<open>Words in memory\<close>

lemma byte_sum: "(\<Sum>i<n. (x div 2 ^ (8 * i) mod 256) * 2 ^ (8 * i)) = x mod (2 ^ (8 * n) :: int)"
proof (induction n)
  case (Suc n)
  have "x mod (2 ^ (8 * n) * 256) = 2 ^ (8 * n) * (x div 2 ^ (8 * n) mod 256) + x mod 2 ^ (8 * n)"
    by (rule zmod_zmult2_eq) simp
  then show ?case using Suc by (simp add: power_add mult.commute)
qed simp

lemma load_store_u64: "load_u64 a (store_bytes a 8 v m) = v"
proof -
  have "uint (ucast (drop_bit (8 * i) v) :: u8) = uint v div 2 ^ (8 * i) mod 256" for i
    using uint_lt2p [of v]
    by (simp only: unsigned_ucast_eq unsigned_drop_bit_eq) (simp add: take_bit_eq_mod drop_bit_eq_div)
  then have "load_u64 a (store_bytes a 8 v m) = word_of_int (\<Sum>i<8. (uint v div 2 ^ (8 * i) mod 256) * 2 ^ (8 * i))"
    by (simp add: load_u64_def store_bytes_def)
  also have "\<dots> = word_of_int (uint v mod 2 ^ 64)" using byte_sum [of "uint v" 8] by simp
  also have "uint v mod 2 ^ 64 = uint v" using uint_lt2p [of v] by simp
  finally show ?thesis by simp
qed

lemma load_u64_cong: "(\<And>i. i < 8 \<Longrightarrow> m (a + i) = m' (a + i)) \<Longrightarrow> load_u64 a m = load_u64 a m'"
  by (simp add: load_u64_def)

lemma store_bytes_other: "x < a \<or> a + n \<le> x \<Longrightarrow> store_bytes a n v m x = m x"
  by (auto simp: store_bytes_def)

section \<open>The strings\<close>

text \<open>The argument \<open>k\<close> holds the string \<open>bs\<close> in kernel memory, which is above the user stack.\<close>

definition arg_ok :: "mem \<Rightarrow> u64 \<Rightarrow> u8 list \<Rightarrow> bool" where
  "arg_ok m k bs \<longleftrightarrow> cstr m (unat k) bs \<and> length bs \<le> EXEC_MAX_ARG_LEN \<and> unat USTACKTOP \<le> unat k"

definition args_size :: "u8 list list \<Rightarrow> nat" where
  "args_size bss = sum_list (map (\<lambda>bs. length bs + 1) bss)"

lemma args_size_simps [simp]: "args_size [] = 0" "args_size (bs # bss) = length bs + 1 + args_size bss"
  by (simp_all add: args_size_def)

lemma arg_len_ok: "arg_ok m k bs \<Longrightarrow> unat (arg_len m k) = length bs + 1"
proof -
  assume a: "arg_ok m k bs"
  then have "strnlen m (unat k) (EXEC_MAX_ARG_LEN + 1) = length bs"
    using strnlen_loop_cstr [of m "unat k" bs 0 "EXEC_MAX_ARG_LEN + 1"] by (simp add: arg_ok_def strnlen_def del: strnlen_loop.simps)
  then show ?thesis using a by (simp add: arg_ok_def arg_len_def EXEC_MAX_ARG_LEN_def unat_of_nat unat_word_ariths)
qed

lemma arg_ok_cong: "arg_ok m k bs \<Longrightarrow> (\<And>a. unat USTACKTOP \<le> a \<Longrightarrow> m' a = m a) \<Longrightarrow> arg_ok m' k bs"
  by (auto simp: arg_ok_def intro: cstr_congI)

lemma args_size_bound: "list_all2 (arg_ok m) ks bss \<Longrightarrow> args_size bss \<le> length ks * 4096"
  by (induction rule: list_all2_induct) (auto simp: arg_ok_def EXEC_MAX_ARG_LEN_def)

lemma argv_size_ok:
  assumes "list_all2 (arg_ok m) ks bss" "length ks \<le> 32"
  shows "unat (sum_list (map (arg_len m) ks)) = args_size bss"
proof -
  have "length ks * 4096 \<le> 2 ^ 20" using assms(2) by simp
  then show ?thesis using assms(1)
  proof (induction ks arbitrary: bss)
    case (Cons k ks)
    obtain b bs where b: "bss = b # bs" "arg_ok m k b" "list_all2 (arg_ok m) ks bs"
      using Cons.prems(2) by (auto simp: list_all2_Cons1)
    have IH: "unat (sum_list (map (arg_len m) ks)) = args_size bs" using Cons b by simp
    have "args_size bss \<le> 2 ^ 20" using args_size_bound [OF Cons.prems(2)] Cons.prems(1) by linarith
    then show ?case using arg_len_ok [OF b(2)] IH b(1) by (simp add: unat_word_ariths)
  qed simp
qed

text \<open>One argument: its string and its address are in place, and nothing else changes.\<close>

lemma put_arg:
  assumes "arg_ok m k bs" "unat p + length bs + 1 \<le> unat USTACKTOP" "a + 8 \<le> unat p"
  shows "\<exists>m1. strcpy (unat p) (unat k) m = Some m1 \<and> cstr (store_bytes a 8 p m1) (unat p) bs \<and>
    (\<forall>x. \<not> (a \<le> x \<and> x < a + 8) \<and> \<not> (unat p \<le> x \<and> x \<le> unat p + length bs) \<longrightarrow> store_bytes a 8 p m1 x = m x)"
proof -
  define m1 where "m1 = copy_up (unat p) (unat k) (length bs + 1) m"
  have c: "cstr m (unat k) bs" "unat USTACKTOP \<le> unat k" using assms(1) by (auto simp: arg_ok_def)
  have "{unat p..unat p + length bs} \<inter> {unat k..unat k + length bs} = {}" using c(2) assms(2) by (auto simp: disjoint_iff)
  then have m1: "strcpy (unat p) (unat k) m = Some m1" unfolding m1_def by (rule strcpy_cstr [OF c(1)])
  have "\<not> (unat k < unat p \<and> unat p < unat k + (length bs + 1))" using c(2) assms(2) by linarith
  note sp = copy_up_spec [OF this, of m, folded m1_def]
  have "cstr m1 (unat p) bs" by (rule cstr_congI [OF c(1)]) (simp add: sp)
  then have "cstr (store_bytes a 8 p m1) (unat p) bs"
    by (rule cstr_congI) (use assms(3) in \<open>simp add: store_bytes_other\<close>)
  then show ?thesis using m1 by (auto simp: sp store_bytes_def)
qed

lemma put_args_ok:
  assumes "list_all2 (arg_ok m) ks bss" "unat uargv + 8 * (i + length ks) \<le> unat stacktop"
    "unat stacktop + unat sz + args_size bss \<le> unat USTACKTOP" "unat sz + args_size bss < 2 ^ 32"
  shows "\<exists>m'. put_args stacktop uargv sz i ks m = Some m' \<and>
    (\<forall>j<length ks. unat stacktop \<le> unat (load_u64 (unat uargv + 8 * (i + j)) m') \<and>
      cstr m' (unat (load_u64 (unat uargv + 8 * (i + j)) m')) (bss ! j)) \<and>
    (\<forall>x. \<not> (unat uargv + 8 * i \<le> x \<and> x < unat uargv + 8 * (i + length ks)) \<and>
      \<not> (unat stacktop + unat sz \<le> x \<and> x < unat stacktop + unat sz + args_size bss) \<longrightarrow> m' x = m x)"
  using assms
proof (induction ks arbitrary: i sz m bss)
  case Nil
  then show ?case by simp
next
  case (Cons k ks)
  obtain b bs where b: "bss = b # bs" "arg_ok m k b" "list_all2 (arg_ok m) ks bs"
    using Cons.prems(1) by (auto simp: list_all2_Cons1)
  define p where "p = stacktop + ucast sz"
  define a where "a = uargv + of_nat (8 * i)"
  have top: "unat USTACKTOP = 2147483648" by (simp add: USTACKTOP_def USERTOP_def)
  have up: "unat p = unat stacktop + unat sz"
    using Cons.prems(3) top unsigned_less [of sz, where 'a = nat]
    by (simp add: p_def unat_word_ariths unsigned_ucast_eq take_bit_nat_eq_self)
  have ua: "unat a = unat uargv + 8 * i"
    using Cons.prems(2,3) top by (simp add: a_def unat_word_ariths unat_of_nat)
  have sp: "unat p + length b + 1 \<le> unat USTACKTOP" "unat a + 8 \<le> unat p" using Cons.prems(2,3) b(1) up ua by auto
  obtain m1 where m1: "strcpy (unat p) (unat k) m = Some m1" "cstr (store_bytes (unat a) 8 p m1) (unat p) b"
    "\<And>x. \<not> (unat a \<le> x \<and> x < unat a + 8) \<and> \<not> (unat p \<le> x \<and> x \<le> unat p + length b) \<Longrightarrow> store_bytes (unat a) 8 p m1 x = m x"
    using put_arg [OF b(2) sp] by blast
  define m2 where "m2 = store_bytes (unat a) 8 p m1"
  have m2: "arg_ok m2 q c" if "arg_ok m q c" for q c
    using that by (rule arg_ok_cong) (use m1(3) sp in \<open>auto simp: m2_def\<close>)
  define sz2 where "sz2 = sz + arg_len m2 k"
  have sz2: "unat sz2 = unat sz + length b + 1"
    using arg_len_ok [OF m2 [OF b(2)]] Cons.prems(4) b(1) by (simp add: sz2_def unat_word_ariths)
  have "list_all2 (arg_ok m2) ks bs" using b(3) m2 by (rule list_all2_mono)
  moreover have "unat uargv + 8 * (i + 1 + length ks) \<le> unat stacktop" "unat stacktop + unat sz2 + args_size bs \<le> unat USTACKTOP"
    "unat sz2 + args_size bs < 2 ^ 32" using Cons.prems(2-4) b(1) sz2 by auto
  ultimately obtain m' where m': "put_args stacktop uargv sz2 (i + 1) ks m2 = Some m'"
    "\<forall>j<length ks. unat stacktop \<le> unat (load_u64 (unat uargv + 8 * (i + 1 + j)) m') \<and>
      cstr m' (unat (load_u64 (unat uargv + 8 * (i + 1 + j)) m')) (bs ! j)"
    "\<And>x. \<not> (unat uargv + 8 * (i + 1) \<le> x \<and> x < unat uargv + 8 * (i + 1 + length ks)) \<and>
      \<not> (unat stacktop + unat sz2 \<le> x \<and> x < unat stacktop + unat sz2 + args_size bs) \<Longrightarrow> m' x = m2 x"
    using Cons.IH [of m2 bs "i + 1" sz2] by blast
  have "load_u64 (unat uargv + 8 * i) m' = load_u64 (unat a) m2"
    unfolding ua [symmetric] by (rule load_u64_cong) (use ua sp sz2 up in \<open>auto intro!: m'(3)\<close>)
  then have "load_u64 (unat uargv + 8 * i) m' = p" by (simp add: m2_def load_store_u64)
  moreover have "cstr m' (unat p) b"
    using m1(2) unfolding m2_def [symmetric]
    by (rule cstr_congI) (use Cons.prems(2) ua sp sz2 up in \<open>auto intro!: m'(3)\<close>)
  ultimately have st: "\<forall>j<length (k # ks). unat stacktop \<le> unat (load_u64 (unat uargv + 8 * (i + j)) m') \<and>
      cstr m' (unat (load_u64 (unat uargv + 8 * (i + j)) m')) (bss ! j)"
    using m'(2) b(1) up by (auto simp: nth_Cons algebra_simps split: nat.splits)
  have "put_args stacktop uargv sz i (k # ks) m = Some m'"
    using m1(1) m'(1) by (simp add: p_def a_def m2_def sz2_def Let_def)
  then show ?case using st m1(3) m'(3) b(1) sz2 ua up by (fastforce simp: m2_def)
qed

text \<open>The addresses of the strings and of the array of their addresses, as numbers.\<close>

lemma stack_layout:
  assumes "unat (sz :: u32) = N" "N \<le> 131072" "n \<le> 32"
  obtains A B :: nat where
    "USTACKTOP - (ucast sz div 8 + 1) * 8 = of_nat B" "of_nat B - of_nat (8 * n) = (of_nat A :: u64)" "of_nat A - 8 = (of_nat (A - 8) :: u64)"
    "unat (of_nat B :: u64) = B" "unat (of_nat A :: u64) = A" "unat (of_nat (A - 8) :: u64) = A - 8"
    "8 \<le> A" "A + 8 * n = B" "2147483648 - (A - 8) < 200000" "8 dvd A - 8" "B + N \<le> 2147483648"
proof
  let ?B = "2147483648 - (N div 8 + 1) * 8"
  let ?A = "?B - 8 * n"
  have "(ucast sz :: u64) = of_nat N" by (simp add: assms(1) [symmetric])
  moreover have "(of_nat N :: u64) div 8 = of_nat (N div 8)"
    using assms(2) by (intro word_unat_eq_iff [THEN iffD2]) (simp add: unat_div unat_of_nat)
  ultimately show "USTACKTOP - (ucast sz div 8 + 1) * 8 = of_nat ?B"
    using assms(2) by (simp add: USTACKTOP_def USERTOP_def of_nat_diff)
  show "of_nat ?B - of_nat (8 * n) = (of_nat ?A :: u64)" "of_nat ?A - 8 = (of_nat (?A - 8) :: u64)"
    using assms(2,3) by (simp_all add: of_nat_diff)
  show "unat (of_nat ?B :: u64) = ?B" "unat (of_nat ?A :: u64) = ?A" "unat (of_nat (?A - 8) :: u64) = ?A - 8"
    by (simp_all add: unat_of_nat)
  show "8 \<le> ?A" "?A + 8 * n = ?B" "2147483648 - (?A - 8) < 200000" "8 dvd ?A - 8" "?B + N \<le> 2147483648"
    using assms(2,3) by (auto intro!: dvd_diff_nat)
qed

text \<open>
  C39. A new program gets its arguments.  \<open>load_icode\<close> leaves the stack pointer aligned, below the top of the user stack and in the upper quarter of the stack; at the stack pointer is the
  number of arguments, after it their addresses in order, and at every address a copy of the argument's string.  Nothing outside the part of
  the stack between the stack pointer and its top is written; in particular not the kernel's copies of the arguments.
\<close>

theorem exec_arguments_arrive:
  assumes "list_all2 (arg_ok m) ks bss" "int (length ks) \<le> EXEC_MAX_ARG_NUM"
  shows "\<exists>sp m'. setup_args ks m = Some (sp, m') \<and> 8 dvd unat sp \<and> sp < USTACKTOP \<and> unat (USTACKTOP - sp) < unat USTACKSIZE div 4 \<and>
    load_u64 (unat sp) m' = of_nat (length ks) \<and>
    (\<forall>j<length ks. cstr m' (unat (load_u64 (unat sp + 8 * (j + 1)) m')) (bss ! j)) \<and>
    (\<forall>x. x < unat sp \<or> unat USTACKTOP \<le> x \<longrightarrow> m' x = m x)"
proof -
  let ?N = "args_size bss" and ?n = "length ks"
  define sz where "sz = sum_list (map (arg_len m) ks)"
  have n: "?n \<le> 32" using assms(2) by (simp add: EXEC_MAX_ARG_NUM_def)
  have N: "unat sz = ?N" unfolding sz_def by (rule argv_size_ok [OF assms(1) n])
  have N2: "?N \<le> 131072" using args_size_bound [OF assms(1)] n by simp
  obtain A B where B: "USTACKTOP - (ucast sz div 8 + 1) * 8 = of_nat B" and A: "of_nat B - of_nat (8 * ?n) = (of_nat A :: u64)"
    and S: "of_nat A - 8 = (of_nat (A - 8) :: u64)" and u: "unat (of_nat B :: u64) = B" "unat (of_nat A :: u64) = A" "unat (of_nat (A - 8) :: u64) = A - 8"
    and ge: "8 \<le> A" "A + 8 * ?n = B" "2147483648 - (A - 8) < 200000" "8 dvd A - 8" "B + ?N \<le> 2147483648"
    by (rule stack_layout [OF N N2 n])
  have top: "unat USTACKTOP = 2147483648" by (simp add: USTACKTOP_def USERTOP_def)
  obtain m1 where m1: "put_args (of_nat B) (of_nat A) 0 0 ks m = Some m1"
    "\<And>j. j < ?n \<Longrightarrow> B \<le> unat (load_u64 (A + 8 * j) m1) \<and> cstr m1 (unat (load_u64 (A + 8 * j) m1)) (bss ! j)"
    "\<And>x. \<not> (A \<le> x \<and> x < A + 8 * ?n) \<and> \<not> (B \<le> x \<and> x < B + ?N) \<Longrightarrow> m1 x = m x"
    using put_args_ok [OF assms(1), of "of_nat A" 0 "of_nat B" 0] u ge N2 top by auto
  define m' where "m' = store_bytes (A - 8) 8 (of_nat ?n) m1"
  have ld: "load_u64 (A + 8 * j) m' = load_u64 (A + 8 * j) m1" for j
    by (rule load_u64_cong) (use ge(1) in \<open>simp add: m'_def store_bytes_other\<close>)
  have "cstr m' (unat (load_u64 (A - 8 + 8 * (j + 1)) m')) (bss ! j)" if j: "j < ?n" for j
  proof -
    have "cstr m' (unat (load_u64 (A + 8 * j) m1)) (bss ! j)"
      using m1(2) [OF j, THEN conjunct2] by (rule cstr_congI) (use m1(2) [OF j] ge(1,2) in \<open>simp add: m'_def store_bytes_other\<close>)
    moreover have "A - 8 + 8 * (j + 1) = A + 8 * j" using ge(1) by simp
    ultimately show ?thesis by (simp add: ld)
  qed
  moreover have "setup_args ks m = Some (of_nat (A - 8), m')"
    unfolding setup_args_def Let_def sz_def [symmetric] B A S by (simp add: m1(1) u(3) m'_def)
  moreover have "m' x = m x" if "x < A - 8 \<or> 2147483648 \<le> x" for x
  proof -
    have "\<not> (A \<le> x \<and> x < A + 8 * ?n) \<and> \<not> (B \<le> x \<and> x < B + ?N)" "x < A - 8 \<or> A - 8 + 8 \<le> x" using that ge by linarith+
    then show ?thesis using m1(3) by (simp add: m'_def store_bytes_other)
  qed
  moreover have "(of_nat (A - 8) :: u64) < USTACKTOP" "unat (USTACKTOP - of_nat (A - 8)) < unat USTACKSIZE div 4"
    using u ge top by (simp_all add: word_less_nat_alt unat_sub_if' USTACKSIZE_def USTACKPAGE_def PGSIZE_def)
  ultimately show ?thesis using u(3) top ge(4) by (auto simp: m'_def load_store_u64)
qed

theorem exec_arguments_arrive_witness:
  "\<exists>sp m'. setup_args [0x80000000] ((\<lambda>_. 0)(0x80000000 := 104, 0x80000001 := 105)) = Some (sp, m') \<and> load_u64 (unat sp) m' = 1 \<and>
    cstr m' (unat (load_u64 (unat sp + 8) m')) [104, 105]"
proof -
  let ?m = "(\<lambda>_. 0)(0x80000000 := 104, 0x80000001 := 105)"
  have "list_all2 (arg_ok ?m) [0x80000000] [[104, 105]]"
    by (simp add: arg_ok_def EXEC_MAX_ARG_LEN_def USTACKTOP_def USERTOP_def)
  from exec_arguments_arrive [OF this] show ?thesis by (auto simp: EXEC_MAX_ARG_NUM_def)
qed

end
