(* ===== verification/Trap.thy ===== *)
theory Trap
  imports Exec
begin

text \<open>
  System calls and traps: \<^verbatim>\<open>kern/syscall/syscall.c\<close> and \<^verbatim>\<open>kern/trap/trap.c\<close>.

  The trap frames are those of the process manager's state.  A call that gives up the processor or ends the process has the result
  \<open>Sys_gone\<close>: the code after it runs later, or never.  \<open>sys_env\<close> has the answers of \<^verbatim>\<open>kmalloc\<close>, the addresses of local variables on the
  kernel stack, the table of inode functions, and \<open>se_input\<close>, which says whether standard input has unread characters.
  The queue of readers of standard input is the list \<open>stdin_waiters\<close> of their processes; the flags that a wakeup leaves in its entries are those of theory Sync.
  The messages on the console, the programming of the next clock interrupt and the external interrupts, which are registers of the hardware, are not modelled;
  a panic has no result.
\<close>

record 'w trap_st =
  tps :: "'w proc_st"
  ticks :: u64
  stdin_waiters :: "ptr list"
  check_mm_struct :: "ptr option"

record 'w sys_env =
  se_vtab :: "'w fs_st_scheme vtab"
  se_fork :: fork_env
  se_exec :: exec_env
  se_buf :: "u64 option"
  se_timer :: ptr
  se_local :: u64
  se_input :: "'w fs_st_scheme \<Rightarrow> bool"

datatype sys_result = Sys_ret int | Sys_gone

type_synonym 'w syscall_fn = "'w sys_env \<Rightarrow> (nat \<Rightarrow> u64) \<Rightarrow> 'w trap_st \<Rightarrow> (sys_result \<times> 'w trap_st) option"

section \<open>System calls\<close>

text \<open>A call whose return code is its result.\<close>

definition ret_call :: "('w proc_st \<Rightarrow> (int \<times> 'w proc_st) option) \<Rightarrow> 'w trap_st \<Rightarrow> (sys_result \<times> 'w trap_st) option" where
  "ret_call f s = do { (r, p) \<leftarrow> f (tps s); Some (Sys_ret r, s\<lparr>tps := p\<rparr>) }"

definition sys_exit :: "'w syscall_fn" where
  "sys_exit e arg s = do { p \<leftarrow> do_exit (se_vtab e) (int_of_size (arg 0)) (tps s); Some (Sys_gone, s\<lparr>tps := p\<rparr>) }"

definition sys_fork :: "'w syscall_fn" where
  "sys_fork e arg s = ret_call (\<lambda>p. do {
     cur \<leftarrow> current p;
     let tf = tframes p (tf_ptrs p cur);
     do_fork (se_vtab e) (se_fork e) 0 (gpr_sp tf) tf p
   }) s"

definition sys_wait :: "'w syscall_fn" where
  "sys_wait e arg s = do {
     (w, p) \<leftarrow> do_wait (int_of_size (arg 0)) (if arg 1 = 0 then None else Some (arg 1)) (tps s);
     Some (case w of Returned r \<Rightarrow> Sys_ret r | Blocked \<Rightarrow> Sys_gone, s\<lparr>tps := p\<rparr>)
   }"

definition sys_exec :: "'w syscall_fn" where
  "sys_exec e arg s = do {
     (x, p) \<leftarrow> do_execve (se_vtab e) (se_exec e) (arg 0) (int_of_size (arg 1)) (arg 2) (tps s);
     Some (case x of Exec_ret r \<Rightarrow> Sys_ret r | Exec_exited \<Rightarrow> Sys_gone, s\<lparr>tps := p\<rparr>)
   }"

definition sys_yield :: "'w syscall_fn" where "sys_yield e arg s = ret_call do_yield s"
definition sys_kill :: "'w syscall_fn" where "sys_kill e arg s = ret_call (do_kill (int_of_size (arg 0))) s"

definition sys_getpid :: "'w syscall_fn" where
  "sys_getpid e arg s = ret_call (\<lambda>p. do { cur \<leftarrow> current p; Some (p_pid (proc_of cur p), p) }) s"

definition sys_putc :: "'w syscall_fn" where
  "sys_putc e arg s = ret_call (\<lambda>p. Some (0, p\<lparr>fsys := (fsys p)\<lparr>console := console (fsys p) @ [ucast (arg 0)]\<rparr>\<rparr>)) s"

definition sys_pgdir :: "'w syscall_fn" where "sys_pgdir e arg s = Some (Sys_ret 0, s)"

definition sys_gettime :: "'w syscall_fn" where
  "sys_gettime e arg s = Some (Sys_ret (sint (word_of_int (int_of_size (ticks s) * 10) :: u32)), s)"

definition sys_lab6_set_priority :: "'w syscall_fn" where
  "sys_lab6_set_priority e arg s = ret_call (\<lambda>p. do { p1 \<leftarrow> lab6_set_priority (ucast (arg 0)) p; Some (0, p1) }) s"

definition sys_sleep :: "'w syscall_fn" where
  "sys_sleep e arg s = do {
     (gone, p) \<leftarrow> do_sleep (se_timer e) (ucast (arg 0)) (tps s);
     Some (if gone then Sys_gone else Sys_ret 0, s\<lparr>tps := p\<rparr>)
   }"

definition sys_open :: "'w syscall_fn" where
  "sys_open e arg s = ret_call (sysfile_open (se_vtab e) (se_buf e) (arg 0) (ucast (arg 1))) s"

definition sys_close :: "'w syscall_fn" where "sys_close e arg s = ret_call (sysfile_close (se_vtab e) (int_of_size (arg 0))) s"

definition sys_read :: "'w syscall_fn" where
  "sys_read e arg s = ret_call (sysfile_read (se_vtab e) (se_buf e) (int_of_size (arg 0)) (arg 1) (arg 2)) s"

definition sys_write :: "'w syscall_fn" where
  "sys_write e arg s = ret_call (sysfile_write (se_vtab e) (se_buf e) (int_of_size (arg 0)) (arg 1) (arg 2)) s"

definition sys_seek :: "'w syscall_fn" where
  "sys_seek e arg s = ret_call (sysfile_seek (se_vtab e) (int_of_size (arg 0)) (arg 1) (int_of_size (arg 2))) s"

definition sys_fstat :: "'w syscall_fn" where
  "sys_fstat e arg s = ret_call (sysfile_fstat (se_vtab e) (se_local e) (int_of_size (arg 0)) (arg 1)) s"

definition sys_fsync :: "'w syscall_fn" where "sys_fsync e arg s = ret_call (sysfile_fsync (se_vtab e) (int_of_size (arg 0))) s"
definition sys_getcwd :: "'w syscall_fn" where "sys_getcwd e arg s = ret_call (sysfile_getcwd (se_vtab e) (arg 0) (arg 1)) s"

definition sys_getdirentry :: "'w syscall_fn" where
  "sys_getdirentry e arg s = ret_call (sysfile_getdirentry (se_vtab e) (se_buf e) (int_of_size (arg 0)) (arg 1)) s"

definition sys_dup :: "'w syscall_fn" where "sys_dup e arg s = ret_call (sysfile_dup (int_of_size (arg 0)) (int_of_size (arg 1))) s"
definition sys_kpu_run :: "'w syscall_fn" where "sys_kpu_run e arg s = Some (Sys_ret 0, s)"
definition sys_kpu_settask :: "'w syscall_fn" where "sys_kpu_settask e arg s = Some (Sys_ret 0, s)"

text \<open>The table \<open>syscalls\<close>; numbers that are not listed, and those out of range, have no entry.\<close>

definition syscalls :: "(int \<times> 'w syscall_fn) list" where
  "syscalls = [(1, sys_exit), (2, sys_fork), (3, sys_wait), (4, sys_exec), (10, sys_yield), (11, sys_sleep), (12, sys_kill), (17, sys_gettime),
     (18, sys_getpid), (30, sys_putc), (31, sys_pgdir), (100, sys_open), (101, sys_close), (102, sys_read), (103, sys_write), (104, sys_seek),
     (110, sys_fstat), (111, sys_fsync), (121, sys_getcwd), (128, sys_getdirentry), (130, sys_dup), (253, sys_kpu_settask), (254, sys_kpu_run),
     (255, sys_lab6_set_priority)]"

definition upd_tf :: "u64 \<Rightarrow> (trapframe \<Rightarrow> trapframe) \<Rightarrow> 'w trap_st \<Rightarrow> 'w trap_st" where
  "upd_tf t f s = s\<lparr>tps := (tps s)\<lparr>tframes := (tframes (tps s))(t := f (tframes (tps s) t))\<rparr>\<rparr>"

text \<open>\<open>syscall\<close>: the number is in \<^verbatim>\<open>a0\<close>, the arguments are in \<^verbatim>\<open>a1\<close> to \<^verbatim>\<open>a5\<close>, which are the registers 11 to 15, and the result goes to \<^verbatim>\<open>a0\<close>.\<close>

datatype flow = Flow_next | Flow_left

definition syscall :: "'w sys_env \<Rightarrow> 'w trap_st \<Rightarrow> (flow \<times> 'w trap_st) option" where
  "syscall e s = do {
     cur \<leftarrow> current (tps s);
     let t = tf_ptrs (tps s) cur;
     let tf = tframes (tps s) t;
     f \<leftarrow> map_of syscalls (int_of_size (gpr_a0 tf));
     (r, s1) \<leftarrow> f e (\<lambda>i. gpr_other tf (11 + i)) s;
     Some (case r of Sys_ret v \<Rightarrow> (Flow_next, upd_tf t (\<lambda>g. g\<lparr>gpr_a0 := word_of_int v\<rparr>) s1) | Sys_gone \<Rightarrow> (Flow_left, s1))
   }"

section \<open>Traps\<close>

definition IRQ_S_TIMER :: u64 where "IRQ_S_TIMER = 5"
definition CAUSE_FETCH_ACCESS :: u64 where "CAUSE_FETCH_ACCESS = 1"
definition CAUSE_ILLEGAL_INSTRUCTION :: u64 where "CAUSE_ILLEGAL_INSTRUCTION = 2"
definition CAUSE_BREAKPOINT :: u64 where "CAUSE_BREAKPOINT = 3"
definition CAUSE_LOAD_ACCESS :: u64 where "CAUSE_LOAD_ACCESS = 5"
definition CAUSE_MISALIGNED_STORE :: u64 where "CAUSE_MISALIGNED_STORE = 6"
definition CAUSE_STORE_ACCESS :: u64 where "CAUSE_STORE_ACCESS = 7"
definition CAUSE_USER_ECALL :: u64 where "CAUSE_USER_ECALL = 8"
definition CAUSE_SUPERVISOR_ECALL :: u64 where "CAUSE_SUPERVISOR_ECALL = 9"
definition CAUSE_LOAD_PAGE_FAULT :: u64 where "CAUSE_LOAD_PAGE_FAULT = 0xd"
definition CAUSE_STORE_PAGE_FAULT :: u64 where "CAUSE_STORE_PAGE_FAULT = 0xf"

definition trap_in_kernel :: "trapframe \<Rightarrow> bool" where
  "trap_in_kernel tf \<longleftrightarrow> tf_status tf AND SSTATUS_SPP \<noteq> 0"

fun wake_all :: "ptr list \<Rightarrow> 'w proc_st \<Rightarrow> 'w proc_st option" where
  "wake_all [] s = Some s"
| "wake_all (p # ps) s = do { s1 \<leftarrow> wakeup_proc default_sched_class p s; wake_all ps s1 }"

definition input_wakeup :: "'w sys_env \<Rightarrow> 'w trap_st \<Rightarrow> 'w trap_st option" where
  "input_wakeup e s =
     (if se_input e (fsys (tps s)) \<and> stdin_waiters s \<noteq> []
      then do { p \<leftarrow> wake_all (stdin_waiters s) (tps s); Some (s\<lparr>tps := p, stdin_waiters := []\<rparr>) }
      else Some s)"

text \<open>The kind of the interrupt is the cause without its top bit; only the clock does something.\<close>

definition interrupt_handler :: "'w sys_env \<Rightarrow> trapframe \<Rightarrow> 'w trap_st \<Rightarrow> 'w trap_st option" where
  "interrupt_handler e tf s =
     (if drop_bit 1 (push_bit 1 (tf_cause tf)) = IRQ_S_TIMER then do {
        p \<leftarrow> run_timer_list default_sched_class (tps s);
        input_wakeup e (s\<lparr>ticks := ticks s + 1, tps := p\<rparr>)
      }
      else Some s)"

definition pgfault_handler :: "trapframe \<Rightarrow> 'w trap_st \<Rightarrow> (int \<times> 'w trap_st) option" where
  "pgfault_handler tf s = do {
     mo \<leftarrow> (case check_mm_struct s of
             Some m \<Rightarrow> do { kassert (current (tps s) = Some (idleproc (tps s))); Some (Some m) }
           | None \<Rightarrow> do { cur \<leftarrow> current (tps s); Some (p_mm (proc_of cur (tps s))) });
     case mo of None \<Rightarrow> Some (- E_INVAL, s)
     | Some m \<Rightarrow> do {
         mm \<leftarrow> mms (tps s) m;
         (ret, mm1, sw) \<leftarrow> do_pgfault mm (tf_tval tf) (swp (tps s));
         Some (ret, s\<lparr>tps := (tps s)\<lparr>mms := (mms (tps s))(m \<mapsto> mm1), swp := sw\<rparr>\<rparr>)
       }
   }"

text \<open>\<open>kernel_execve_ret\<close> (\<^verbatim>\<open>trapentry.S\<close>): the frame moves to the top of the kernel stack, and the machine leaves the kernel with it.\<close>

definition kernel_execve_ret :: "u64 \<Rightarrow> u64 \<Rightarrow> 'w trap_st \<Rightarrow> 'w trap_st" where
  "kernel_execve_ret t kstacktop s = upd_tf (kstacktop - 288) (\<lambda>_. tframes (tps s) t) s"

definition exception_handler :: "'w sys_env \<Rightarrow> u64 \<Rightarrow> 'w trap_st \<Rightarrow> (flow \<times> 'w trap_st) option" where
  "exception_handler e t s =
     (let tf = tframes (tps s) t; cause = tf_cause tf; s1 = upd_tf t (\<lambda>g. g\<lparr>tf_epc := tf_epc g + 4\<rparr>) s in
      if cause \<in> {CAUSE_FETCH_ACCESS, CAUSE_ILLEGAL_INSTRUCTION, CAUSE_MISALIGNED_STORE} then None
      else if cause = CAUSE_BREAKPOINT then
        if gpr_other tf 17 = 10 then do {
          (fl, s2) \<leftarrow> syscall e s1;
          (case fl of Flow_left \<Rightarrow> Some (Flow_left, s2)
           | Flow_next \<Rightarrow> do {
               cur \<leftarrow> current (tps s2);
               Some (Flow_left, kernel_execve_ret t (p_kstack (proc_of cur (tps s2)) + KSTACKSIZE) s2)
             })
        } else Some (Flow_next, s)
      else if cause \<in> {CAUSE_USER_ECALL, CAUSE_SUPERVISOR_ECALL} then syscall e s1
      else if cause \<in> {CAUSE_LOAD_ACCESS, CAUSE_STORE_ACCESS, CAUSE_LOAD_PAGE_FAULT, CAUSE_STORE_PAGE_FAULT} then do {
        (ret, s2) \<leftarrow> pgfault_handler tf s;
        kassert (ret = 0);
        Some (Flow_next, s2)
      }
      else Some (Flow_next, s))"

definition trap_dispatch :: "'w sys_env \<Rightarrow> u64 \<Rightarrow> 'w trap_st \<Rightarrow> (flow \<times> 'w trap_st) option" where
  "trap_dispatch e t s =
     (if sint (tf_cause (tframes (tps s) t)) < 0
      then do { s1 \<leftarrow> interrupt_handler e (tframes (tps s) t) s; Some (Flow_next, s1) }
      else exception_handler e t s)"

definition set_tf_ptr :: "u64 \<Rightarrow> 'w trap_st \<Rightarrow> 'w trap_st option" where
  "set_tf_ptr t s = do { cur \<leftarrow> current (tps s); Some (s\<lparr>tps := (tps s)\<lparr>tf_ptrs := (tf_ptrs (tps s))(cur := t)\<rparr>\<rparr>) }"

text \<open>What \<open>trap\<close> does after the dispatch when the process still runs.\<close>

definition trap_finish :: "'w sys_env \<Rightarrow> u64 \<Rightarrow> bool \<Rightarrow> 'w trap_st \<Rightarrow> 'w trap_st option" where
  "trap_finish e otf in_kernel s = do {
     s1 \<leftarrow> set_tf_ptr otf s;
     cur \<leftarrow> current (tps s1);
     if in_kernel then Some s1
     else if p_flags (proc_of cur (tps s1)) AND PF_EXITING \<noteq> 0 then do { p \<leftarrow> do_exit (se_vtab e) (- E_KILLED) (tps s1); Some (s1\<lparr>tps := p\<rparr>) }
     else if p_need_resched (proc_of cur (tps s1)) then do { p \<leftarrow> schedule default_sched_class (tps s1); Some (s1\<lparr>tps := p\<rparr>) }
     else Some s1
   }"

definition trap :: "'w sys_env \<Rightarrow> u64 \<Rightarrow> 'w trap_st \<Rightarrow> 'w trap_st option" where
  "trap e t s =
     (case current (tps s) of
        None \<Rightarrow> do { (_, s1) \<leftarrow> trap_dispatch e t s; Some s1 }
      | Some cur \<Rightarrow> do {
          let otf = tf_ptrs (tps s) cur;
          let in_kernel = trap_in_kernel (tframes (tps s) t);
          s1 \<leftarrow> set_tf_ptr t s;
          (fl, s2) \<leftarrow> trap_dispatch e t s1;
          (case fl of Flow_left \<Rightarrow> Some s2 | Flow_next \<Rightarrow> trap_finish e otf in_kernel s2)
        })"

end
