(* ===== verification/TrapInv.thy ===== *)
theory TrapInv
  imports ProcLife Trap
begin

text \<open>
  Traps and the process tables: whatever a system call, an interrupt or a page fault does, the process list, the hash lists and the family
  links stay consistent.  The calls on files and the loader leave the tables, the states and the running process alone.
\<close>

section \<open>What the process tables depend on\<close>

text \<open>\<open>mild\<close> is equality of this part of the state.\<close>

definition core :: "'w proc_st \<Rightarrow>
    (ptr \<Rightarrow> int \<times> ptr option \<times> ptr option \<times> ptr option \<times> ptr option) \<times> (ptr \<Rightarrow> proc_state \<times> u32) \<times> ptr \<times> ptr list \<times> (u32 \<Rightarrow> ptr list) \<times> int \<times> int \<times> int
      \<times> ptr option \<times> ptr set \<times> ptr option" where
  "core s = ((\<lambda>p. lnk (proc_of p s)), (\<lambda>p. (p_state (proc_of p s), p_wait_state (proc_of p s))), idleproc s, proc_list s, hash_list s, nr_process s,
     next_safe s, last_pid s, initproc s, proc_heap s, current s)"

lemma mild_core: "mild s s' \<longleftrightarrow> core s' = core s"
  unfolding mild_def tab_eq_def core_def fun_eq_iff prod.inject by blast

lemma core_simps [simp]:
  "core (s\<lparr>fsys := w\<rparr>) = core s" "core (set_pmem m s) = core s" "core (s\<lparr>mms := a\<rparr>) = core s" "core (s\<lparr>swp := b\<rparr>) = core s"
  "core (s\<lparr>mm_locked := l\<rparr>) = core s" "core (unlock_mm q s) = core s" "core (mm_count_add q d s) = core s" "core (s\<lparr>cr3_reg := c\<rparr>) = core s"
  "core (s\<lparr>tframes := f\<rparr>) = core s" "core (s\<lparr>tf_ptrs := g\<rparr>) = core s" "core (upd_proc p (p_mm_update h) s) = core s"
  "core (upd_proc p (p_cr3_update i) s) = core s" "core (set_proc_name p n s) = core s"
  by (simp_all add: core_def set_pmem_def unlock_mm_def mm_count_add_def upd_proc_def set_proc_name_def lnk_def fun_eq_iff)

lemmas proc_core = mm_ops_mild(1-3) [unfolded mild_core] setup_pgdir_mild [unfolded mild_core] put_pgdir_mild [unfolded mild_core]
  with_fs_mild [unfolded mild_core]

section \<open>Calls on files\<close>

lemma fs_call_core: "fs_call f s = Some (r, s') \<Longrightarrow> core s' = core s"
  by (auto simp: fs_call_def bind_Some_iff)

lemma lock_current_core: "lock_current_mm s = Some s' \<Longrightarrow> core s' = core s" "unlock_current_mm s = Some s' \<Longrightarrow> core s' = core s"
  by (auto simp: lock_current_mm_def unlock_current_mm_def bind_Some_iff split: option.splits dest: proc_core(3))

lemma with_mm_core: "with_mm f s = Some (r, s') \<Longrightarrow> core s' = core s"
  by (auto simp: with_mm_def bind_Some_iff Let_def split: option.splits dest!: lock_current_core)

lemma copy_path_core: "copy_path k p s = Some (r, q, s') \<Longrightarrow> core s' = core s"
  by (auto simp: copy_path_def bind_Some_iff split: option.splits if_splits dest: with_mm_core)

lemma sysread_loop_core:
  assumes "sysread_loop T fd b a n c s = Some x"
  shows "core (snd (snd x)) = core s"
proof (rule sysread_loop.raw_induct [where P = "\<lambda>T fd b a n c s x. core (snd (snd x)) = core s", rotated, OF assms], goal_cases)
  case (1 f T fd b a n c s x)
  show ?case
  proof (cases "n = 0")
    case False
    obtain ret al s1 where fs: "core s1 = core s"
      and rest: "(let alen = if fd = 2 then n else al in if alen = 0 then Some (ret, c, s1)
        else with_mm (\<lambda>mm. copy_to_user mm a b alen) s1 \<bind> (\<lambda>(ok, s2).
          if ok then kassert (n \<ge> alen) \<bind> (\<lambda>_. if ret \<noteq> 0 then Some (ret, c + alen, s2) else f T fd b (a + alen) (n - alen) (c + alen) s2)
          else Some (if ret = 0 then - E_INVAL else ret, c, s2))) = Some x"
      using 1(2) False by (auto simp del: Let_def simp: bind_Some_iff dest!: fs_call_core)
    show ?thesis using rest fs 1(1) by (auto simp: Let_def bind_Some_iff split: if_splits dest!: with_mm_core)
  qed (use 1(2) in auto)
qed

lemma syswrite_loop_core:
  assumes "syswrite_loop T fd b a n c s = Some x"
  shows "core (snd (snd x)) = core s"
proof (rule syswrite_loop.raw_induct [where P = "\<lambda>T fd b a n c s x. core (snd (snd x)) = core s", rotated, OF assms], goal_cases)
  case (1 f T fd b a n c s x)
  then show ?case by (auto simp: Let_def bind_Some_iff split: if_splits dest!: fs_call_core with_mm_core 1(1))
qed

lemma sysfile_core:
  "sysfile_open T k p fl s = Some (r, s') \<Longrightarrow> core s' = core s"
  "sysfile_close T fd s = Some (r, s') \<Longrightarrow> core s' = core s"
  "sysfile_seek T fd pos wh s = Some (r, s') \<Longrightarrow> core s' = core s"
  "sysfile_fsync T fd s = Some (r, s') \<Longrightarrow> core s' = core s"
  "sysfile_dup fd fd2 s = Some (r, s') \<Longrightarrow> core s' = core s"
  by (auto simp: sysfile_open_def sysfile_close_def sysfile_seek_def sysfile_fsync_def sysfile_dup_def bind_Some_iff split: if_splits
      dest!: copy_path_core fs_call_core)

lemma sysfile_io_core:
  "sysfile_read T k fd a n s = Some (r, s') \<Longrightarrow> core s' = core s"
  "sysfile_write T k fd a n s = Some (r, s') \<Longrightarrow> core s' = core s"
  by (auto simp: sysfile_read_def sysfile_write_def bind_Some_iff split: if_splits option.splits
      dest!: sysread_loop_core syswrite_loop_core)

lemma sysfile_struct_core:
  "sysfile_fstat T l fd a s = Some (r, s') \<Longrightarrow> core s' = core s"
  "sysfile_getdirentry T k fd a s = Some (r, s') \<Longrightarrow> core s' = core s"
  "sysfile_getcwd T a n s = Some (r, s') \<Longrightarrow> core s' = core s"
  by (auto simp: sysfile_fstat_def sysfile_getdirentry_def sysfile_getcwd_def bind_Some_iff Let_def split: if_splits option.splits
      dest!: fs_call_core with_mm_core lock_current_core)

lemmas sysfile_all_core = sysfile_core sysfile_io_core sysfile_struct_core

section \<open>The loader\<close>

lemma load_icode_read_core: "load_icode_read T k fd b n off s = Some (r, s') \<Longrightarrow> core s' = core s"
  by (auto simp: load_icode_read_def bind_Some_iff split: if_splits dest!: sysfile_core(3) sysfile_io_core(1))

lemma new_page_core: "new_page m la perm s = Some (p, s') \<Longrightarrow> core s' = core s"
  by (auto simp: new_page_def bind_Some_iff)

lemma load_file_pages_core:
  assumes "load_file_pages T e fd m perm en start la off page s = Some x"
  shows "core (snd (snd (snd (snd x)))) = core s"
proof (rule load_file_pages.raw_induct [where P = "\<lambda>T e fd m perm en start la off page s x. core (snd (snd (snd (snd x)))) = core s",
      rotated, OF assms], goal_cases)
  case (1 f T e fd m perm en start la off page s x)
  then show ?case by (auto simp: Let_def bind_Some_iff split: if_splits option.splits dest!: new_page_core load_icode_read_core 1(1))
qed

lemma load_zero_pages_core:
  assumes "load_zero_pages m perm en start la s = Some x"
  shows "core (snd x) = core s"
proof (rule load_zero_pages.raw_induct [where P = "\<lambda>m perm en start la s x. core (snd x) = core s", rotated, OF assms], goal_cases)
  case (1 f m perm en start la s x)
  then show ?case by (auto simp: Let_def bind_Some_iff split: if_splits option.splits dest!: new_page_core 1(1))
qed

lemma load_bss_core: "load_bss m perm en start la page s = Some (r, s') \<Longrightarrow> core s' = core s"
  by (auto simp: load_bss_def Let_def bind_Some_iff split: if_splits dest!: load_zero_pages_core)

lemma load_segment_core: "load_segment T e fd m i ph s = Some (r, s') \<Longrightarrow> core s' = core s"
  by (auto simp: load_segment_def Let_def bind_Some_iff split: if_splits dest!: load_file_pages_core load_bss_core)

lemma load_segments_core: "load_segments n T e fd m phoff i s = Some (r, s') \<Longrightarrow> core s' = core s"
  by (induction n arbitrary: i s)
    (auto simp: Let_def bind_Some_iff split: if_splits dest!: load_segment_core load_icode_read_core)

lemma stack_pages_core: "stack_pages m is s = Some s' \<Longrightarrow> core s' = core s"
  by (induction "is" arbitrary: s) (auto simp: bind_Some_iff split: if_splits dest!: new_page_core)

lemma enter_program_core: "enter_program e m ks s = Some s' \<Longrightarrow> core s' = core s"
  by (auto simp: enter_program_def Let_def bind_Some_iff core_def mm_count_add_def set_pmem_def upd_proc_def lnk_def fun_eq_iff)

lemma bad_cleanup_core:
  "bad_cleanup_mm m r s = Some (r', s') \<Longrightarrow> core s' = core s"
  "bad_cleanup_pgdir m r s = Some (r', s') \<Longrightarrow> core s' = core s"
  "bad_cleanup_mmap m r s = Some (r', s') \<Longrightarrow> core s' = core s"
  by (auto simp: bad_cleanup_mm_def bad_cleanup_pgdir_def bad_cleanup_mmap_def bind_Some_iff dest!: proc_core)

lemma load_icode_core:
  assumes "load_icode T e fd ks s = Some (r, s')"
  shows "core s' = core s"
  using assms unfolding load_icode_def
  by (auto simp: Let_def bind_Some_iff mm_create_def split: if_splits
      dest!: proc_core(4) bad_cleanup_core load_icode_read_core load_segments_core sysfile_core(2) new_page_core enter_program_core)

lemma in_mm_core: "in_mm f s = Some (ok, s') \<Longrightarrow> core s' = core s"
  by (auto simp: in_mm_def Let_def bind_Some_iff split: option.splits)

lemma copy_kargv_core: "copy_kargv e argc argv s = Some (r, ks, s') \<Longrightarrow> core s' = core s"
proof -
  have "copy_kargv_loop n e i argv ks0 t = Some (r, ks', s') \<Longrightarrow> core s' = core t" for n i ks0 ks' and t :: "'a proc_st"
    by (induction n arbitrary: i ks0 t) (auto simp: bind_Some_iff split: option.splits if_splits dest!: in_mm_core)
  then show "copy_kargv e argc argv s = Some (r, ks, s') \<Longrightarrow> core s' = core s"
    by (fastforce simp: copy_kargv_def bind_Some_iff split: if_splits dest!: in_mm_core)
qed

lemma exec_name_core: "exec_name l n s = Some (ok, s') \<Longrightarrow> core s' = core s"
  by (auto simp: exec_name_def Let_def bind_Some_iff split: if_splits dest!: in_mm_core)

lemma leave_old_mm_core: "leave_old_mm s = Some s' \<Longrightarrow> core s' = core s"
  by (auto simp: leave_old_mm_def Let_def bind_Some_iff split: option.splits if_splits dest!: proc_core(1,2,5))

section \<open>System calls\<close>

text \<open>The tables are consistent and \<open>cur\<close> is the running process, which they know.\<close>

definition steady :: "'w proc_st \<Rightarrow> ptr \<Rightarrow> bool" where
  "steady s cur \<longleftrightarrow> proc_inv {} s \<and> current s = Some cur \<and> cur \<in> known s \<and> p_state (proc_of cur s) \<noteq> PROC_ZOMBIE"

lemma steady_tab:
  assumes "steady s cur" "tab_eq s s'" "current s' = current s"
    "\<And>q. p_state (proc_of q s') = PROC_ZOMBIE \<Longrightarrow> p_state (proc_of q s) = PROC_ZOMBIE"
  shows "steady s' cur"
  using assms proc_inv_tab [OF _ assms(2,4)] known_tab [OF assms(2)] unfolding steady_def by auto

lemma steady_core:
  fixes s s' :: "'w proc_st"
  shows "core s' = core s \<Longrightarrow> steady s cur \<Longrightarrow> steady s' cur"
  unfolding mild_core [symmetric] by (rule steady_tab) (auto simp: mild_def)

lemma steady_upd:
  "steady s cur \<Longrightarrow> (\<And>q. lnk (f q) = lnk q) \<Longrightarrow> p_state (f (proc_of p s)) \<noteq> PROC_ZOMBIE \<Longrightarrow> steady (upd_proc p f s) cur"
  by (rule steady_tab [OF _ upd_proc_tab]) (auto split: if_splits)

lemma steady_wakeup: "wakeup_proc default_sched_class p s = Some s' \<Longrightarrow> steady s cur \<Longrightarrow> steady s' cur"
  by (erule steady_tab; drule wakeup_tab; auto split: if_splits)

lemma do_fork_steady:
  assumes "do_fork T e fl stk tf s = Some (r, s')" "steady s cur" "\<And>p. k_proc e = Some p \<Longrightarrow> p \<notin> proc_heap s"
  shows "steady s' cur"
proof -
  note f = do_fork_inv [OF assms(1), of cur]
  have "known s \<subseteq> known s'" using f assms(2,3) by (auto simp: steady_def known_def split: if_splits)
  then show ?thesis using f assms(2,3) by (auto simp: steady_def)
qed

lemma wait_found_running:
  assumes "wait_found cs p s = Some s'"
  shows "current s' = current s" "idleproc s' = idleproc s" "p_state (proc_of q s') = p_state (proc_of q s)"
proof -
  define s1 where "s1 = unhash_proc p (case cs of None \<Rightarrow> s | Some a \<Rightarrow> store_int a (p_exit_code (proc_of p s)) s)"
  obtain s2 s3 where s: "remove_links p s1 = Some s2" "put_kstack p s2 = Some s3" "kfree_proc p s3 = Some s'"
    using assms by (auto simp: wait_found_def s1_def bind_Some_iff Let_def split: if_splits)
  have 1: "current s1 = current s" "idleproc s1 = idleproc s" "p_state (proc_of q s1) = p_state (proc_of q s)"
    by (auto simp: s1_def unhash_proc_def store_int_def Let_def split: option.splits)
  have 2: "current s2 = current s1" "idleproc s2 = idleproc s1" "p_state (proc_of q s2) = p_state (proc_of q s1)"
    using s(1) by (auto simp: remove_links_def bind_Some_iff Let_def upd_proc_def split: option.splits)
  have 3: "current s' = current s3" "idleproc s' = idleproc s3" "p_state (proc_of q s') = p_state (proc_of q s3)"
    using s(3) by (auto simp: kfree_proc_def split: if_splits)
  show "current s' = current s" "idleproc s' = idleproc s" "p_state (proc_of q s') = p_state (proc_of q s)"
    using put_kstack_mild [OF s(2)] by (auto simp: 1 2 3 mild_def tab_eq_def)
qed

lemma wait_repeat_steady:
  assumes "wait_repeat pid cs s = Some (Returned r, s')" "steady s cur"
  shows "steady s' cur"
proof -
  have c: "proc_inv {} s" "current s = Some cur" "cur \<in> known s" using assms(2) by (auto simp: steady_def)
  obtain w where w: "wait_scan_pass pid cur s = Some w" "(case w of
      Found p \<Rightarrow> p \<in> awaited pid cur s \<and> p_state (proc_of p s) = PROC_ZOMBIE
    | Has_kid \<Rightarrow> awaited pid cur s \<noteq> {} \<and> (\<forall>p\<in>awaited pid cur s. p_state (proc_of p s) \<noteq> PROC_ZOMBIE)
    | No_kid \<Rightarrow> awaited pid cur s = {})"
    using wait_scan_ok [OF c(1,3)] by blast
  show ?thesis
  proof (cases w)
    case (Found p)
    then have f: "wait_found cs p s = Some s'" using assms(1) c(2) w(1) by (auto simp: wait_repeat_def bind_Some_iff)
    have "cur \<noteq> p" using assms(2) Found w(2) by (auto simp: steady_def)
    then show ?thesis
      using wait_found_inv [OF f c(1)] wait_found_running [OF f] Found w(2) assms(2)
      by (auto simp: steady_def known_def awaited_def)
  qed (use assms c(2) w(1) in \<open>auto simp: wait_repeat_def bind_Some_iff\<close>)
qed

lemma do_wait_steady:
  assumes "do_wait pid cs s = Some (Returned r, s')" "steady s cur"
  shows "steady s' cur"
proof (cases cs)
  case None
  then show ?thesis using assms by (auto simp: do_wait_def bind_Some_iff intro: wait_repeat_steady)
next
  case (Some a)
  define s1 where "s1 mm = (case p_mm (proc_of cur s) of None \<Rightarrow> s | Some q \<Rightarrow> s\<lparr>mms := (mms s)(q := mm)\<rparr>)" for mm
  have m: "steady (s1 mm) cur" for mm by (rule steady_core [OF _ assms(2)]) (simp add: s1_def split: option.splits)
  have "current s = Some cur" using assms(2) by (simp add: steady_def)
  then obtain ok mm where "(if ok then wait_repeat pid cs (s1 mm) else Some (Returned (- E_INVAL), s1 mm)) = Some (Returned r, s')"
    using assms(1) Some unfolding s1_def by (auto simp: do_wait_def bind_Some_iff Let_def simp del: if_split)
  then show ?thesis using m [of mm] by (auto split: if_splits intro: wait_repeat_steady)
qed

lemma do_kill_steady:
  assumes "do_kill pid s = Some (r, s')" "steady s cur"
  shows "steady s' cur"
proof (cases "find_proc pid s")
  case (Some p)
  have "steady (upd_proc p (\<lambda>q. q\<lparr>p_flags := p_flags q OR PF_EXITING\<rparr>) s) cur"
    by (rule steady_core [OF _ assms(2)]) (simp add: mild_core [symmetric] mild_defs)
  then show ?thesis
    using assms Some by (auto simp: do_kill_def bind_Some_iff Let_def split: if_splits dest: steady_wakeup)
qed (use assms in \<open>simp add: do_kill_def\<close>)

lemma do_exit_steady: "do_exit T code s = Some s' \<Longrightarrow> steady s cur \<Longrightarrow> proc_inv {} s'"
  unfolding steady_def by (blast intro: do_exit_inv)

lemma do_sleep_keeps:
  assumes "do_sleep t time s = Some (gone, s')" "steady s cur"
  shows "if gone then proc_inv {} s' else steady s' cur"
proof (cases "time = 0")
  case False
  let ?s1 = "timer_init t cur (sint time) s"
  let ?s2 = "upd_proc cur (\<lambda>q. q\<lparr>p_state := PROC_SLEEPING, p_wait_state := WT_TIMER\<rparr>) ?s1"
  obtain s3 where s3: "add_timer t ?s2 = Some s3" "schedule default_sched_class s3 = Some s'" "gone"
    using assms False by (auto simp: do_sleep_def steady_def bind_Some_iff)
  have "proc_inv {} ?s1" using mild_inv [OF timer_ops_mild(1)] assms(2) by (auto simp: steady_def)
  then have "proc_inv {} ?s2" by (rule upd_proc_inv) (simp_all add: lnk_def)
  then have "proc_inv {} s3" by (rule mild_inv [OF timer_ops_mild(2) [OF s3(1)]])
  then show ?thesis using schedule_inv [OF s3(2)] s3(3) by simp
qed (use assms in \<open>simp add: do_sleep_def\<close>)

lemma do_execve_keeps:
  assumes "do_execve T e name argc argv s = Some (x, s')" "steady s cur"
  shows "case x of Exec_ret r \<Rightarrow> steady s' cur | Exec_exited \<Rightarrow> proc_inv {} s'"
proof -
  have "(case x of Exec_ret r \<Rightarrow> core s' = core s | Exec_exited \<Rightarrow> \<exists>code s1. core s1 = core s \<and> do_exit T code s1 = Some s')"
    using assms(1) unfolding do_execve_def
    by (auto simp: Let_def bind_Some_iff split: if_splits
        dest!: lock_current_core exec_name_core copy_kargv_core proc_core(6) sysfile_core(1) leave_old_mm_core load_icode_core; metis)
  then show ?thesis using assms(2) by (auto split: exec_result.splits dest: steady_core do_exit_steady)
qed

text \<open>What a system call leaves: a call that returns leaves its caller running.\<close>

definition left_by :: "ptr \<Rightarrow> sys_result \<Rightarrow> 'w proc_st \<Rightarrow> bool" where
  "left_by cur r s \<longleftrightarrow> (case r of Sys_ret v \<Rightarrow> steady s cur | Sys_gone \<Rightarrow> proc_inv {} s)"

lemma ret_call_left:
  assumes "ret_call f s = Some (r, s')" "\<And>v p. f (tps s) = Some (v, p) \<Longrightarrow> steady p cur"
  shows "left_by cur r (tps s')"
  using assms by (auto simp: ret_call_def left_by_def bind_Some_iff)

lemma ret_call_core:
  assumes "ret_call f s = Some (r, s')" "steady (tps s) cur" "\<And>v p. f (tps s) = Some (v, p) \<Longrightarrow> core p = core (tps s)"
  shows "left_by cur r (tps s')"
  using assms by (auto intro: ret_call_left steady_core)

lemma file_calls_left:
  assumes "steady (tps s) cur"
    "f \<in> {sys_open, sys_close, sys_read, sys_write, sys_seek, sys_fstat, sys_fsync, sys_getcwd, sys_getdirentry, sys_dup}"
    "f e arg s = Some (r, s')"
  shows "left_by cur r (tps s')"
proof -
  have "\<exists>g. f e arg s = ret_call g s \<and> (\<forall>v p. g (tps s) = Some (v, p) \<longrightarrow> core p = core (tps s))"
    using assms(2) unfolding insert_iff empty_iff
    by (elim disjE; simp add: sys_open_def sys_close_def sys_read_def sys_write_def sys_seek_def sys_fstat_def sys_fsync_def
        sys_getcwd_def sys_getdirentry_def sys_dup_def; blast dest: sysfile_all_core)
  then show ?thesis using assms(1,3) ret_call_core [of _ s r s' cur] by fastforce
qed

lemma process_calls_left:
  assumes "steady (tps s) cur" "\<And>p. k_proc (se_fork e) = Some p \<Longrightarrow> p \<notin> proc_heap (tps s)"
  shows "sys_exit e arg s = Some (r, s') \<Longrightarrow> left_by cur r (tps s')"
    "sys_fork e arg s = Some (r, s') \<Longrightarrow> left_by cur r (tps s')"
    "sys_wait e arg s = Some (r, s') \<Longrightarrow> left_by cur r (tps s')"
    "sys_exec e arg s = Some (r, s') \<Longrightarrow> left_by cur r (tps s')"
    "sys_kill e arg s = Some (r, s') \<Longrightarrow> left_by cur r (tps s')"
    "sys_sleep e arg s = Some (r, s') \<Longrightarrow> left_by cur r (tps s')"
proof -
  show "sys_exit e arg s = Some (r, s') \<Longrightarrow> left_by cur r (tps s')"
    using assms(1) by (auto simp: sys_exit_def left_by_def bind_Some_iff dest: do_exit_steady)
  show "sys_fork e arg s = Some (r, s') \<Longrightarrow> left_by cur r (tps s')"
    unfolding sys_fork_def by (erule ret_call_left) (auto simp: bind_Some_iff Let_def assms intro: do_fork_steady)
  show "sys_wait e arg s = Some (r, s') \<Longrightarrow> left_by cur r (tps s')"
  proof -
    assume "sys_wait e arg s = Some (r, s')"
    then obtain w p where w: "do_wait (int_of_size (arg 0)) (if arg 1 = 0 then None else Some (arg 1)) (tps s) = Some (w, p)"
      "r = (case w of Returned r \<Rightarrow> Sys_ret r | Blocked \<Rightarrow> Sys_gone)" "s' = s\<lparr>tps := p\<rparr>"
      by (auto simp: sys_wait_def bind_Some_iff)
    then show "left_by cur r (tps s')"
      using assms(1) do_wait_steady [OF _ assms(1)] do_wait_inv [OF w(1), of cur]
      by (cases w) (auto simp: left_by_def steady_def)
  qed
  show "sys_exec e arg s = Some (r, s') \<Longrightarrow> left_by cur r (tps s')"
  proof -
    assume "sys_exec e arg s = Some (r, s')"
    then obtain x p where x: "do_execve (se_vtab e) (se_exec e) (arg 0) (int_of_size (arg 1)) (arg 2) (tps s) = Some (x, p)"
      "r = (case x of Exec_ret r \<Rightarrow> Sys_ret r | Exec_exited \<Rightarrow> Sys_gone)" "s' = s\<lparr>tps := p\<rparr>"
      by (auto simp: sys_exec_def bind_Some_iff)
    then show "left_by cur r (tps s')"
      using do_execve_keeps [OF x(1) assms(1)] by (cases x) (auto simp: left_by_def)
  qed
  show "sys_kill e arg s = Some (r, s') \<Longrightarrow> left_by cur r (tps s')"
    unfolding sys_kill_def by (erule ret_call_left) (rule do_kill_steady [OF _ assms(1)])
  show "sys_sleep e arg s = Some (r, s') \<Longrightarrow> left_by cur r (tps s')"
    using assms(1) by (auto simp: sys_sleep_def left_by_def bind_Some_iff dest!: do_sleep_keeps)
qed

lemma small_calls_left:
  assumes "steady (tps s) cur"
  shows "sys_yield e arg s = Some (r, s') \<Longrightarrow> left_by cur r (tps s')"
    "sys_lab6_set_priority e arg s = Some (r, s') \<Longrightarrow> left_by cur r (tps s')"
    "sys_getpid e arg s = Some (r, s') \<Longrightarrow> left_by cur r (tps s')"
    "sys_putc e arg s = Some (r, s') \<Longrightarrow> left_by cur r (tps s')"
    "f \<in> {sys_pgdir, sys_gettime, sys_kpu_run, sys_kpu_settask} \<Longrightarrow> f e arg s = Some (r, s') \<Longrightarrow> left_by cur r (tps s')"
proof -
  have c: "current (tps s) = Some cur" using assms by (simp add: steady_def)
  have "p_state (proc_of cur (tps s)) \<noteq> PROC_ZOMBIE" using assms by (simp add: steady_def)
  then show "sys_yield e arg s = Some (r, s') \<Longrightarrow> left_by cur r (tps s')"
    "sys_lab6_set_priority e arg s = Some (r, s') \<Longrightarrow> left_by cur r (tps s')"
    unfolding sys_yield_def sys_lab6_set_priority_def
    by (auto elim!: ret_call_left simp: do_yield_def lab6_set_priority_def c lnk_def intro!: steady_upd [OF assms])
  show "sys_getpid e arg s = Some (r, s') \<Longrightarrow> left_by cur r (tps s')" "sys_putc e arg s = Some (r, s') \<Longrightarrow> left_by cur r (tps s')"
    unfolding sys_getpid_def sys_putc_def by (auto elim!: ret_call_core [OF _ assms] simp: c)
  show "f \<in> {sys_pgdir, sys_gettime, sys_kpu_run, sys_kpu_settask} \<Longrightarrow> f e arg s = Some (r, s') \<Longrightarrow> left_by cur r (tps s')"
    using assms by (auto simp: sys_pgdir_def sys_gettime_def sys_kpu_run_def sys_kpu_settask_def left_by_def)
qed

lemma syscalls_left:
  assumes "map_of syscalls n = Some f" "f e arg s = Some (r, s')" "steady (tps s) cur"
    "\<And>p. k_proc (se_fork e) = Some p \<Longrightarrow> p \<notin> proc_heap (tps s)"
  shows "left_by cur r (tps s')"
proof -
  have "f \<in> snd ` set syscalls" using map_of_SomeD [OF assms(1)] by force
  then have "f \<in> {sys_open, sys_close, sys_read, sys_write, sys_seek, sys_fstat, sys_fsync, sys_getcwd, sys_getdirentry, sys_dup} \<or>
      f \<in> {sys_exit, sys_fork, sys_wait, sys_exec, sys_kill, sys_sleep} \<or>
      f \<in> {sys_yield, sys_lab6_set_priority, sys_getpid, sys_putc} \<or> f \<in> {sys_pgdir, sys_gettime, sys_kpu_run, sys_kpu_settask}"
    unfolding syscalls_def by simp blast
  then consider "f \<in> {sys_open, sys_close, sys_read, sys_write, sys_seek, sys_fstat, sys_fsync, sys_getcwd, sys_getdirentry, sys_dup}"
    | "f \<in> {sys_exit, sys_fork, sys_wait, sys_exec, sys_kill, sys_sleep}"
    | "f \<in> {sys_yield, sys_lab6_set_priority, sys_getpid, sys_putc}" | "f \<in> {sys_pgdir, sys_gettime, sys_kpu_run, sys_kpu_settask}"
    by blast
  then show ?thesis
  proof cases
    case 1
    then show ?thesis using file_calls_left [OF assms(3)] assms(2) by blast
  next
    case 2
    then show ?thesis using process_calls_left [OF assms(3), of e] assms(2,4) unfolding insert_iff empty_iff by blast
  next
    case 3
    then show ?thesis using small_calls_left(1-4) [OF assms(3)] assms(2) unfolding insert_iff empty_iff by blast
  next
    case 4
    then show ?thesis using small_calls_left(5) [OF assms(3)] assms(2) by blast
  qed
qed

section \<open>Traps\<close>

lemma upd_tf_core [simp]: "core (tps (upd_tf t f s)) = core (tps s)"
  by (simp add: upd_tf_def)

text \<open>What the handlers leave: after \<open>Flow_next\<close> the interrupted process goes on.\<close>

definition flow_left :: "ptr \<Rightarrow> flow \<Rightarrow> 'w proc_st \<Rightarrow> bool" where
  "flow_left cur fl s \<longleftrightarrow> (case fl of Flow_next \<Rightarrow> steady s cur | Flow_left \<Rightarrow> proc_inv {} s)"

lemma syscall_left:
  assumes "syscall e s = Some (fl, s')" "steady (tps s) cur" "\<And>p. k_proc (se_fork e) = Some p \<Longrightarrow> p \<notin> proc_heap (tps s)"
  shows "flow_left cur fl (tps s')"
proof -
  have "current (tps s) = Some cur" using assms(2) by (simp add: steady_def)
  then obtain f r s1 where f: "map_of syscalls (int_of_size (gpr_a0 (tframes (tps s) (tf_ptrs (tps s) cur)))) = Some f"
    "f e (\<lambda>i. gpr_other (tframes (tps s) (tf_ptrs (tps s) cur)) (11 + i)) s = Some (r, s1)"
    "(fl, s') = (case r of Sys_ret v \<Rightarrow> (Flow_next, upd_tf (tf_ptrs (tps s) cur) (\<lambda>g. g\<lparr>gpr_a0 := word_of_int v\<rparr>) s1) | Sys_gone \<Rightarrow> (Flow_left, s1))"
    using assms(1) by (auto simp: syscall_def bind_Some_iff Let_def)
  have "left_by cur r (tps s1)" by (rule syscalls_left [OF f(1,2) assms(2,3)])
  then show ?thesis using f(3) by (cases r) (auto simp: left_by_def flow_left_def intro: steady_core)
qed

lemma run_timer_list_steady:
  assumes "run_timer_list default_sched_class s = Some s'" "steady s cur"
  shows "steady s' cur"
proof -
  have del: "steady t cur \<Longrightarrow> steady (del_timer x t) cur" for x and t :: "'a proc_st"
    using timer_ops_mild(3) [of t x] by (auto simp: mild_core intro: steady_core)
  have ex: "run_expired default_sched_class ts t = Some t' \<Longrightarrow> steady t cur \<Longrightarrow> steady t' cur" for ts and t t' :: "'a proc_st"
    by (induction ts arbitrary: t) (auto simp: bind_Some_iff split: if_splits dest!: steady_wakeup intro: del)
  have tick: "steady t cur \<Longrightarrow> steady (sched_class_proc_tick default_sched_class c t) cur" for c and t :: "'a proc_st"
    by (rule steady_core [rotated], assumption)
      (auto simp: sched_class_proc_tick_def default_sched_class_def stride_proc_tick_def Let_def mild_core [symmetric] mild_defs)
  have tm: "steady (s\<lparr>timers := f\<rparr>) cur" for f by (rule steady_core [OF _ assms(2)]) (simp add: core_def)
  show ?thesis
    using assms
    by (auto simp: run_timer_list_def bind_Some_iff simp del: run_expired.simps split: list.splits option.splits if_splits
        dest!: ex [OF _ tm] intro: tick)
qed

lemma input_wakeup_steady:
  assumes "input_wakeup e s = Some s'" "steady (tps s) cur"
  shows "steady (tps s') cur"
proof -
  have "wake_all ps t = Some t' \<Longrightarrow> steady t cur \<Longrightarrow> steady t' cur" for ps and t t' :: "'a proc_st"
    by (induction ps arbitrary: t) (auto simp: bind_Some_iff dest: steady_wakeup)
  then show ?thesis using assms by (auto simp: input_wakeup_def bind_Some_iff split: if_splits)
qed

lemma interrupt_handler_steady: "interrupt_handler e tf s = Some s' \<Longrightarrow> steady (tps s) cur \<Longrightarrow> steady (tps s') cur"
  by (auto simp: interrupt_handler_def bind_Some_iff split: if_splits dest!: input_wakeup_steady run_timer_list_steady)

lemma pgfault_handler_steady: "pgfault_handler tf s = Some (r, s') \<Longrightarrow> steady (tps s) cur \<Longrightarrow> steady (tps s') cur"
  by (erule steady_core [rotated]) (auto simp: pgfault_handler_def bind_Some_iff split: option.splits)

lemma exception_handler_left:
  assumes "exception_handler e t s = Some (fl, s')" "steady (tps s) cur" "\<And>p. k_proc (se_fork e) = Some p \<Longrightarrow> p \<notin> proc_heap (tps s)"
  shows "flow_left cur fl (tps s')"
proof -
  define s1 where "s1 = upd_tf t (\<lambda>g. g\<lparr>tf_epc := tf_epc g + 4\<rparr>) s"
  have "steady (tps s1) cur" by (rule steady_core [OF _ assms(2)]) (simp add: s1_def)
  moreover have "proc_heap (tps s1) = proc_heap (tps s)" by (simp add: s1_def upd_tf_def)
  ultimately have sc: "syscall e s1 = Some (f, u) \<Longrightarrow> flow_left cur f (tps u)" for f u
    using assms(3) by (auto intro: syscall_left)
  have kr: "flow_left cur Flow_next (tps u) \<Longrightarrow> flow_left cur Flow_left (tps (kernel_execve_ret t k u))" for k u
    using steady_core [of "tps (kernel_execve_ret t k u)" "tps u" cur] by (auto simp: flow_left_def kernel_execve_ret_def steady_def)
  show ?thesis
    using assms(1,2) unfolding exception_handler_def Let_def s1_def [symmetric]
    by (auto simp: bind_Some_iff split: if_splits flow.splits dest!: sc pgfault_handler_steady intro: kr) (fastforce simp: flow_left_def | metis flow.exhaust)+
qed

lemma trap_dispatch_left:
  assumes "trap_dispatch e t s = Some (fl, s')" "steady (tps s) cur" "\<And>p. k_proc (se_fork e) = Some p \<Longrightarrow> p \<notin> proc_heap (tps s)"
  shows "flow_left cur fl (tps s')"
  using assms
  by (auto simp: trap_dispatch_def bind_Some_iff flow_left_def split: if_splits dest: interrupt_handler_steady
      intro: exception_handler_left [unfolded flow_left_def])

lemma set_tf_ptr_core: "set_tf_ptr t s = Some s' \<Longrightarrow> core (tps s') = core (tps s)"
  by (auto simp: set_tf_ptr_def bind_Some_iff)

lemma trap_finish_inv:
  assumes "trap_finish e otf k s = Some s'" "steady (tps s) cur"
  shows "proc_inv {} (tps s')"
proof -
  obtain s1 where s1: "set_tf_ptr otf s = Some s1" using assms(1) by (auto simp: trap_finish_def bind_Some_iff)
  then have st: "steady (tps s1) cur" using set_tf_ptr_core assms(2) steady_core by blast
  then have "proc_inv {} (tps s1)" by (simp add: steady_def)
  then show ?thesis
    using assms(1) s1 do_exit_steady [OF _ st] schedule_inv
    by (auto simp: trap_finish_def bind_Some_iff split: if_splits)
qed

text \<open>
  C40. No trap breaks the process tables.  Whatever the interrupted process was doing and whatever the trap is, a system call with any number and any arguments, a clock
  interrupt, a page fault or a breakpoint, and whatever \<open>trap\<close> does then, exit of a killed process and rescheduling included, the process list, the hash
  lists, the process count and the links between parents and children agree afterwards as they did before.
\<close>

theorem trap_keeps_process_tables:
  assumes "proc_inv {} (tps s)" "runs (tps s) cur" "\<And>p. k_proc (se_fork e) = Some p \<Longrightarrow> p \<notin> proc_heap (tps s)"
    "trap e t s = Some s'"
  shows "proc_inv {} (tps s')"
proof -
  have st: "steady (tps s) cur" using assms(1,2) by (auto simp: steady_def runs_def)
  have c: "current (tps s) = Some cur" using assms(2) by (simp add: runs_def)
  obtain s1 fl s2 where s1: "set_tf_ptr t s = Some s1" "trap_dispatch e t s1 = Some (fl, s2)"
    and fl: "(case fl of Flow_left \<Rightarrow> Some s2 | Flow_next \<Rightarrow> trap_finish e (tf_ptrs (tps s) cur) (trap_in_kernel (tframes (tps s) t)) s2) = Some s'"
    using assms(4) c by (auto simp: trap_def bind_Some_iff Let_def)
  have "steady (tps s1) cur" "proc_heap (tps s1) = proc_heap (tps s)"
    using set_tf_ptr_core [OF s1(1)] st by (auto simp: core_def intro: steady_core)
  then have "flow_left cur fl (tps s2)" using trap_dispatch_left [OF s1(2)] assms(3) by auto
  then show ?thesis using fl by (cases fl) (auto simp: flow_left_def intro: trap_finish_inv)
qed

definition example_sys_env :: "unit fs_st_scheme vtab \<Rightarrow> unit sys_env" where
  "example_sys_env T = \<lparr>se_vtab = T,
     se_fork = \<lparr>k_proc = Some 9, k_files = None, k_file_mem = [], k_mm = None, k_vma = (\<lambda>_. False), forkret_addr = 0\<rparr>,
     se_exec = \<lparr>x_mm = None, x_vma = (\<lambda>_. False), x_io = (\<lambda>_. None), x_path = None, x_arg = (\<lambda>_. None), x_elf = 0, x_ph = 0, x_name = 0\<rparr>,
     se_buf = None, se_timer = 0, se_local = 0, se_input = (\<lambda>_. False)\<rparr>"

text \<open>The process 2 of \<open>example_family\<close> makes the system call \<open>exit\<close>.\<close>

definition example_trap :: "unit trap_st" where
  "example_trap = \<lparr>tps = example_family\<lparr>tframes := (\<lambda>_. \<lparr>gpr_sp = 0, gpr_s0 = 0, gpr_s1 = 0, gpr_a0 = 1, gpr_other = \<lambda>_. 0, tf_status = 0,
     tf_epc = 0, tf_tval = 0, tf_cause = CAUSE_USER_ECALL\<rparr>)\<rparr>, ticks = 0, stdin_waiters = [], check_mm_struct = None\<rparr>"

theorem trap_keeps_process_tables_witness:
  "\<exists>T s'. trap (example_sys_env T) 64 example_trap = Some s' \<and> current (tps s') = Some 1 \<and> p_cptr (proc_of 1 (tps s')) = Some 3 \<and>
    proc_inv {} (tps s')"
proof -
  fix T
  obtain s' where s': "trap (example_sys_env T) 64 example_trap = Some s'" "current (tps s') = Some 1" "p_cptr (proc_of 1 (tps s')) = Some 3"
  proof -
    have "case trap (example_sys_env T) 64 example_trap of
        Some s \<Rightarrow> current (tps s) = Some 1 \<and> p_cptr (proc_of 1 (tps s)) = Some 3 | None \<Rightarrow> False"
      by code_simp
    then show ?thesis using that by (auto split: option.splits)
  qed
  have "proc_inv {} (tps s')"
  proof (rule trap_keeps_process_tables [OF _ _ _ s'(1)])
    show "proc_inv {} (tps example_trap)"
      by (rule mild_inv [OF _ example_family_inv]) (simp add: mild_core example_trap_def)
    show "runs (tps example_trap) 2" by (simp add: runs_def known_def example_trap_def example_family_def family_member_def)
    show "k_proc (se_fork (example_sys_env T)) = Some p \<Longrightarrow> p \<notin> proc_heap (tps example_trap)" for p
      by (simp add: example_sys_env_def example_trap_def example_family_def)
  qed
  then show ?thesis using s' by blast
qed

end
