(* ===== verification/Spec2Isabelle.thy ===== *)
theory Spec2Isabelle
  imports DList Monitor Vmm Bitmap Printfmt SyscallIO KmallocInv SfsFile KpuInv ExecArgs TrapInv
begin

text \<open>
  A verification development for the kernel under \<^verbatim>\<open>src/lab8\<close>, a ucore-style operating system for the RISC-V processor K210.

  \<^bold>\<open>The program.\<close>  User programs enter the kernel with traps (\<^verbatim>\<open>kern/trap/trap.c\<close>), which call the system calls
  (\<^verbatim>\<open>kern/syscall/syscall.c\<close>).  These lead to the process manager with the program loader (\<^verbatim>\<open>kern/process/proc.c\<close>), to the scheduler and its timers
  (\<^verbatim>\<open>kern/schedule\<close>) or to the calls on files (\<^verbatim>\<open>kern/fs/sysfile.c\<close>).  Files are descriptors (\<^verbatim>\<open>file.c\<close>) on inodes (\<^verbatim>\<open>vfs/\<close>) that
  belong to a device (\<^verbatim>\<open>devs/\<close>) or to the simple file system (\<^verbatim>\<open>sfs/\<close>), which transfers blocks through the root disk.  Underneath are virtual memory
  (\<^verbatim>\<open>kern/mm/vmm.c\<close>, \<^verbatim>\<open>swap.c\<close>, \<^verbatim>\<open>pmm.c\<close>), the first-fit page allocator (\<^verbatim>\<open>default_pmm.c\<close>) and the kernel heap
  (\<^verbatim>\<open>kmalloc.c\<close>).  All share the library: lists, the skew heap, strings and formatted output (\<^verbatim>\<open>libs/\<close>).

  \<^bold>\<open>Conventions.\<close>  A C function is a HOL function on an explicit state, with the source's name.  The result type is \<open>option\<close>
  where the code may stop: \<open>None\<close> is a failed assertion (\<open>kassert\<close>), a panic, the use of a null pointer or of an object that does not exist, or a loop that never ends;
  such loops are \<open>partial_function (option)\<close>, so that no fuel is needed, and the lemmas that a call returns have the form \<open>f x = Some y\<close>.
  Loops with a bound in the code are recursive on lists or numbers.  Error codes are negative values of type \<^typ>\<open>int\<close> as in
  \<^verbatim>\<open>libs/error.h\<close>; machine integers are words of their width (\<open>u8\<close> to \<open>u64\<close>) wherever wrap-around can be seen, and \<^typ>\<open>int\<close> for small signed
  counters.  Pointers to objects are numbers (\<open>ptr\<close>), null is \<open>None\<close>; memory that is accessed byte by byte is the map \<open>kmem\<close>.
  A function that gives up the processor is cut there: its first half ends with \<open>schedule\<close>, and its second half (\<open>wait_resume\<close>,
  \<open>down_finish\<close>, \<open>sleep_resume\<close>, \<open>run_kpu_resume\<close>) starts when the process runs again; interrupts are off in between, so that a half is one step.
  The answers of \<^verbatim>\<open>kmalloc\<close> and the addresses of local variables are arguments of the calls that use them (\<open>fork_env\<close>, \<open>exec_env\<close>,
  \<open>sys_env\<close>); the theorems ask for what \<open>KmallocInv\<close> shows of the heap, namely that the memory is not in use.

  \<^bold>\<open>Library and scheduling.\<close>
  \<^item> \<open>Prelude\<close>: integer types, error codes, \<open>kassert\<close>, rounding, and lemmas on options, lists and words.
  \<^item> \<open>DList\<close> (\<^verbatim>\<open>libs/list.h\<close>): the circular lists on maps of links refine sequences; the contract \<open>intrusive_list\<close>.
  \<^item> \<open>SkewHeap\<close> (\<^verbatim>\<open>libs/skew_heap.h\<close>): the pointers refine heap-ordered trees and multisets, for any order with the contract \<open>key_order\<close>.
  \<^item> \<open>ProcState\<close>, \<open>Stride\<close>, \<open>Sched\<close>, \<open>Timer\<close> (\<^verbatim>\<open>kern/schedule\<close>): process structures, the stride class, the scheduler over the contract
    \<open>scheduling_class\<close>, the timer list as differences.  The run queue is exactly the set of runnable processes; the least stride is
    chosen although strides wrap; processes get shares in proportion to their priorities; timers expire at their time.
  \<^item> \<open>Sync\<close>, \<open>Monitor\<close> (\<^verbatim>\<open>kern/sync\<close>): wait queues, semaphores, which hand out no more permits than they have, and the hand-over of monitors.
  \<^item> \<open>CString\<close>, \<open>Printfmt\<close> (\<^verbatim>\<open>libs/string.c\<close>, \<^verbatim>\<open>printfmt.c\<close>): termination and results on stored strings, overlapping moves, a
    number that is printed is read back, \<open>snprintf\<close> keeps to its buffer.

  \<^bold>\<open>Memory.\<close>
  \<^item> \<open>Pmm\<close> (\<^verbatim>\<open>default_pmm.c\<close>): first fit and coalescing, and the case in which a released block is lost from its place in the list.
  \<^item> \<open>PageTable\<close> (\<^verbatim>\<open>pmm.c\<close>): three-level tables refine a partial map from pages; unmapping a range returns and clears it.
  \<^item> \<open>Swap\<close>, \<open>Vmm\<close> (\<^verbatim>\<open>swap.c\<close>, \<^verbatim>\<open>swap_fifo.c\<close>, \<^verbatim>\<open>vmm.c\<close>): a page that is swapped out and in has its contents; areas, checks of user pointers, page faults.
  \<^item> \<open>Kmalloc\<close>, \<open>KmallocInv\<close> (\<^verbatim>\<open>kmalloc.c\<close>): the ring of free blocks; blocks in use are disjoint, freeing merges neighbours, and both loops end.

  \<^bold>\<open>Files.\<close>
  \<^item> \<open>Disk\<close> (\<^verbatim>\<open>iobuf.c\<close>, \<^verbatim>\<open>ide.c\<close>, \<^verbatim>\<open>ramdisk.c\<close>, \<^verbatim>\<open>dev_disk0.c\<close>): what is written to the disk is read back, through a buffer of four blocks.
  \<^item> \<open>Inode\<close>, \<open>Vfs\<close>, \<open>File\<close>, \<open>FileInv\<close>, \<open>Dev\<close> (\<^verbatim>\<open>kern/fs/vfs\<close>, \<^verbatim>\<open>file.c\<close>, \<^verbatim>\<open>fs.c\<close>, \<^verbatim>\<open>devs/\<close>): descriptor tables and reference counts; every operation
    on descriptors keeps the accounts, for inodes with the contract \<open>inode_layer\<close>, which devices meet; standard input is a queue.
  \<^item> \<open>Bitmap\<close>, \<open>SfsIO\<close>, \<open>Sfs\<close>, \<open>SfsMount\<close>, \<open>SfsInv\<close>, \<open>SfsFile\<close> (\<^verbatim>\<open>kern/fs/sfs\<close>): free blocks (contract \<open>block_allocator\<close>), data on disk as bytes, block maps with the
    indirect block, directories, mounting; over the contract \<open>block_device\<close>, which the root disk meets, reading delivers the bytes of
    the file and writing back an inode changes its block only.
  \<^item> \<open>Kpu\<close>, \<open>KpuInv\<close> (\<^verbatim>\<open>kpu_spooling.c\<close>, \<^verbatim>\<open>dev_kpuio.c\<close>): images arrive in parts and become tasks; identifiers repeat.
  \<^item> \<open>Sysfile\<close>, \<open>SyscallIO\<close> (\<^verbatim>\<open>sysfile.c\<close>): the calls on files with their copies from and to user memory; writing to the console, and the
    call that never returns.

  \<^bold>\<open>Processes and traps.\<close>
  \<^item> \<open>Proc\<close>, \<open>ProcInv\<close>, \<open>ProcLife\<close> (\<^verbatim>\<open>proc.c\<close>): the tables of processes, fork, exit, wait, kill, sleep.  The invariant \<open>proc_inv\<close> says that the
    process list, the hash lists, the count and the family links agree; it holds from \<open>proc_init\<close> on along every sequence of operations (\<open>proc_step\<close>).
    Pids are fresh, waiting finds what it looks for, orphans become children of the init process.
  \<^item> \<open>Exec\<close>, \<open>ExecArgs\<close> (\<^verbatim>\<open>do_execve\<close>, \<^verbatim>\<open>load_icode\<close>): loading of a program; its arguments arrive on its stack.
  \<^item> \<open>Trap\<close>, \<open>TrapInv\<close> (\<^verbatim>\<open>syscall.c\<close>, \<^verbatim>\<open>trap.c\<close>): the table of system calls and the dispatch of traps; whatever a trap does, \<open>proc_inv\<close> holds afterwards.

  \<^bold>\<open>Bounds.\<close>  The constants are those of the source: 4096 processes, 8192 pids, pages of 4096 bytes, 72 descriptors, 12 direct and 1024
  indirect blocks, 32 arguments of at most 4095 characters, images of at most 64 parts.  Where a property needs a bound it is one of these or a bound of the machine,
  such as strides that are less than half of the range of the counter apart.

  \<^bold>\<open>Not modelled.\<close>  The drivers of the vendor (pins, clocks, DMA, SPI, SD card, interrupt controller), which only write registers; the neural network processor and
  the code that runs on it; start-up and context switch in assembly, of which the saved registers are modelled; messages on the
  console that only inform; the debug monitor; the tools of the host and the user programs.  The contents of physical memory are not shared between
  \<open>kmem\<close> and the page tables: a copy to user memory is checked against the areas of the address space and then made at the user's address.
\<close>

end
